(* ===== verification/Prelude.thy ===== *)
theory Prelude
  imports Main "HOL-Library.Char_ord" "HOL-Library.List_Lexorder" "HOL-Library.Multiset"
begin

text \<open>
  The vocabulary the component theories share.

  \<^item> Go strings are byte strings, \<^typ>\<open>string\<close>; they are ordered by
    \<^verbatim>\<open>HOL-Library.List_Lexorder\<close>, which is Go's bytewise \<open><\<close>.
  \<^item> A value of type \<^verbatim>\<open>interface{}\<close> that may be \<^verbatim>\<open>nil\<close> is an option.
  \<^item> A Go map is \<open>'k \<rightharpoonup> 'v\<close>.  The order in which \<^verbatim>\<open>range\<close> visits a map is not
    specified by the language, so an operation that ranges over a map takes the order
    as a list of keys, and \<open>map_order\<close> says that the list is an order of that map.
  \<^item> A function that returns \<^verbatim>\<open>error\<close> returns \<open>'e + 'a\<close>, \<^verbatim>\<open>Inl\<close> for the error.
\<close>

section \<open>Types and collections\<close>

type_synonym key = string
type_synonym 'o iface = "'o option"
type_synonym go_error = string

declare Let_def [simp]

named_theorems go_order \<open>iteration orders of Go maps and sets\<close>
named_theorems go_inv \<open>preservation of the components' invariants\<close>

section \<open>Iteration orders\<close>

definition map_order :: "'k list \<Rightarrow> ('k \<rightharpoonup> 'v) \<Rightarrow> bool" where
  "map_order ks m \<longleftrightarrow> distinct ks \<and> set ks = dom m"

definition set_order :: "'k list \<Rightarrow> 'k set \<Rightarrow> bool" where
  "set_order ks A \<longleftrightarrow> distinct ks \<and> set ks = A"

lemma map_order_distinct [dest, go_order]: "map_order ks m \<Longrightarrow> distinct ks"
  by (simp add: map_order_def)

lemma map_order_dom [go_order]: "map_order ks m \<Longrightarrow> set ks = dom m"
  by (simp add: map_order_def)

lemma set_order_distinct [dest, go_order]: "set_order ks A \<Longrightarrow> distinct ks"
  by (simp add: set_order_def)

lemma set_order_set [go_order]: "set_order ks A \<Longrightarrow> set ks = A"
  by (simp add: set_order_def)

lemma map_order_exists: "finite (dom m) \<Longrightarrow> \<exists>ks. map_order ks m"
  unfolding map_order_def by (metis finite_distinct_list)

lemma map_order_finite: "map_order ks m \<Longrightarrow> finite (dom m)"
  unfolding map_order_def by (metis finite_set)

lemma set_order_finite: "set_order ks A \<Longrightarrow> finite A"
  unfolding set_order_def by (metis finite_set)

lemma set_order_length: "set_order ks A \<Longrightarrow> length ks = card A"
  unfolding set_order_def by (metis distinct_card)

lemma map_order_length: "map_order ks m \<Longrightarrow> length ks = card (dom m)"
  unfolding map_order_def by (metis distinct_card)

text \<open>The same for a loop that binds the key and the value: the order is a list of entries.\<close>

definition map_entries :: "('k \<times> 'v) list \<Rightarrow> ('k \<rightharpoonup> 'v) \<Rightarrow> bool" where
  "map_entries ps m \<longleftrightarrow> distinct (map fst ps) \<and> map_of ps = m"

lemma map_entries_distinct [dest, go_order]: "map_entries ps m \<Longrightarrow> distinct (map fst ps)"
  by (simp add: map_entries_def)

lemma map_entries_mem [go_order]: "map_entries ps m \<Longrightarrow> (k, v) \<in> set ps \<longleftrightarrow> m k = Some v"
  unfolding map_entries_def by (metis map_of_eq_Some_iff)

lemma map_entries_dom [go_order]: "map_entries ps m \<Longrightarrow> fst ` set ps = dom m"
  unfolding map_entries_def by (metis dom_map_of_conv_image_fst)

lemma map_entries_empty [simp]: "map_entries [] Map.empty"
  by (simp add: map_entries_def)

lemma map_entries_empty_iff [simp]: "map_entries ps Map.empty \<longleftrightarrow> ps = []"
  by (cases ps) (auto simp: map_entries_def fun_eq_iff split: if_splits)

text \<open>
  Where the map that is ranged over is computed by the operation itself, the operation
  takes a function that gives an order of each map, or of each set.
\<close>

type_synonym ('k, 'v) go_range = "('k \<rightharpoonup> 'v) \<Rightarrow> ('k \<times> 'v) list"
type_synonym 'k set_range = "'k set \<Rightarrow> 'k list"

definition go_range_ok :: "('k, 'v) go_range \<Rightarrow> bool" where
  "go_range_ok rng \<longleftrightarrow> (\<forall>m. finite (dom m) \<longrightarrow> map_entries (rng m) m)"

definition set_range_ok :: "'k set_range \<Rightarrow> bool" where
  "set_range_ok rng \<longleftrightarrow> (\<forall>A. finite A \<longrightarrow> set_order (rng A) A)"

lemma go_rangeD [go_order]: "go_range_ok rng \<Longrightarrow> finite (dom m) \<Longrightarrow> map_entries (rng m) m"
  by (simp add: go_range_ok_def)

lemma set_rangeD [go_order]: "set_range_ok rng \<Longrightarrow> finite A \<Longrightarrow> set_order (rng A) A"
  by (simp add: set_range_ok_def)

text \<open>One order that a runtime could choose, ascending keys; it shows that orders exist.\<close>

definition sorted_range :: "('k::linorder, 'v) go_range" where
  "sorted_range m = map (\<lambda>k. (k, the (m k))) (sorted_list_of_set (dom m))"

lemma map_fst_sorted_range: "map fst (sorted_range m) = sorted_list_of_set (dom m)"
  by (simp add: sorted_range_def comp_def)

lemma sorted_range_ok: "go_range_ok sorted_range"
  unfolding go_range_ok_def map_entries_def
proof (intro allI impI conjI)
  fix m :: "'a::linorder \<rightharpoonup> 'b"
  assume "finite (dom m)"
  then show "distinct (map fst (sorted_range m))" by (simp add: map_fst_sorted_range)
  show "map_of (sorted_range m) = m"
  proof
    fix k
    show "map_of (sorted_range m) k = m k"
      using \<open>finite (dom m)\<close> by (cases "m k")
        (auto simp: sorted_range_def map_of_map_keys map_of_map_restrict domIff restrict_map_def)
  qed
qed

lemma sorted_set_range_ok: "set_range_ok sorted_list_of_set"
  by (simp add: set_range_ok_def set_order_def)

section \<open>Folds over lists\<close>

text \<open>Loops that insert into, or delete from, a set.\<close>

lemma fold_insert_set: "fold Set.insert xs A = A \<union> set xs"
  by (induction xs arbitrary: A) auto

lemma fold_remove_set: "fold (\<lambda>x B. B - {x}) xs A = A - set xs"
  by (induction xs arbitrary: A) auto

text \<open>Building a map from a list of objects, the last of equal keys winning.\<close>

lemma fold_upd_map:
  "fold (\<lambda>x m. m(k x \<mapsto> v x)) xs m0 = m0 ++ map_of (rev (map (\<lambda>x. (k x, v x)) xs))"
  by (induction xs arbitrary: m0) (auto simp: map_add_def fun_eq_iff split: option.splits)

lemma dom_fold_upd_map:
  "dom (fold (\<lambda>x m. m(k x \<mapsto> v x)) xs m0) = dom m0 \<union> k ` set xs"
  by (induction xs arbitrary: m0) auto

lemma map_of_filter_val:
  "distinct (map fst xs) \<Longrightarrow> map_of (filter (\<lambda>(k, v). P v) xs) k
     = (case map_of xs k of None \<Rightarrow> None | Some v \<Rightarrow> if P v then Some v else None)"
proof (induction xs)
  case (Cons x xs)
  moreover have "map_of xs (fst x) = None" using Cons.prems by (simp add: map_of_eq_None_iff)
  ultimately show ?case by (cases x) auto
qed simp

section \<open>Splitting and joining strings\<close>

text \<open>Go's \<^verbatim>\<open>strings.Split\<close> with a separator of one byte.\<close>

fun strings_Split :: "string \<Rightarrow> char \<Rightarrow> string list" where
  "strings_Split [] sep = [[]]"
| "strings_Split (c # cs) sep =
     (if c = sep then [] # strings_Split cs sep
      else case strings_Split cs sep of [] \<Rightarrow> [[c]] | p # ps \<Rightarrow> (c # p) # ps)"

lemma strings_Split_nonempty [simp]: "strings_Split s sep \<noteq> []"
  by (induction s) (auto split: list.splits)

lemma strings_Split_no_sep: "sep \<notin> set s \<Longrightarrow> strings_Split s sep = [s]"
  by (induction s) auto

lemma strings_Split_append:
  "sep \<notin> set s \<Longrightarrow> strings_Split (s @ sep # t) sep = s # strings_Split t sep"
  by (induction s) auto

lemma strings_Split_length: "length (strings_Split s sep) = Suc (count_list s sep)"
  by (induction s) (auto split: list.splits)

text \<open>Go's \<^verbatim>\<open>strings.Join\<close>.\<close>

fun strings_Join :: "string list \<Rightarrow> string \<Rightarrow> string" where
  "strings_Join [] sep = []"
| "strings_Join [s] sep = s"
| "strings_Join (s # t # rest) sep = s @ sep @ strings_Join (t # rest) sep"

end
