(* ===== verification/Workqueue.thy ===== *)
theory Workqueue
  imports Prelude
begin

text \<open>
  \<^verbatim>\<open>pkg/util/workqueue/queue.go\<close>: the queue between a controller's event handlers and its
  workers.  An item is queued at most once, is never handed to two workers at a time, and
  is handed out again when it was added while a worker had it.

  Every method runs under the queue's one lock, so a method is one step.  \<^verbatim>\<open>Get\<close> waits on
  the condition variable while there is nothing to hand out; the model's \<open>Wait\<close> is that.
\<close>

section \<open>State and operations\<close>

record 'a workqueue =
  queue :: "'a list"
  dirty :: "'a set"
  processing :: "'a set"
  shuttingDown :: bool

datatype 'a got = Wait | Got 'a | GotShutdown

definition set_has :: "'a set \<Rightarrow> 'a \<Rightarrow> bool" where
  "set_has s item \<longleftrightarrow> item \<in> s"

definition set_insert :: "'a set \<Rightarrow> 'a \<Rightarrow> 'a set" where
  "set_insert s item = insert item s"

definition set_delete :: "'a set \<Rightarrow> 'a \<Rightarrow> 'a set" where
  "set_delete s item = s - {item}"

lemmas set_ops [simp] = set_has_def set_insert_def set_delete_def

definition workqueue_New :: "'a workqueue" where
  "workqueue_New = \<lparr>queue = [], dirty = {}, processing = {}, shuttingDown = False\<rparr>"

definition workqueue_Add :: "'a \<Rightarrow> 'a workqueue \<Rightarrow> 'a workqueue" where
  "workqueue_Add item q =
     (if shuttingDown q then q
      else if set_has (dirty q) item then q
      else let q = q\<lparr>dirty := set_insert (dirty q) item\<rparr>
           in if set_has (processing q) item then q
              else q\<lparr>queue := queue q @ [item]\<rparr>)"

definition workqueue_Len :: "'a workqueue \<Rightarrow> nat" where
  "workqueue_Len q = length (queue q)"

definition workqueue_Get :: "'a workqueue \<Rightarrow> 'a got \<times> 'a workqueue" where
  "workqueue_Get q =
     (if queue q = [] \<and> \<not> shuttingDown q then (Wait, q)
      else case queue q of
        [] \<Rightarrow> (GotShutdown, q)
      | item # rest \<Rightarrow>
          (Got item, q\<lparr>queue := rest, processing := set_insert (processing q) item,
                       dirty := set_delete (dirty q) item\<rparr>))"

definition workqueue_Done :: "'a \<Rightarrow> 'a workqueue \<Rightarrow> 'a workqueue" where
  "workqueue_Done item q =
     (let q = q\<lparr>processing := set_delete (processing q) item\<rparr>
      in if set_has (dirty q) item then q\<lparr>queue := queue q @ [item]\<rparr> else q)"

definition workqueue_ShutDown :: "'a workqueue \<Rightarrow> 'a workqueue" where
  "workqueue_ShutDown q = q\<lparr>shuttingDown := True\<rparr>"

section \<open>The interface the workers rely on\<close>

text \<open>
  What a controller relies on: the items that are pending and the items in work are
  sets, \<open>add\<close> makes an item pending, \<open>get\<close> moves a pending item that nobody works on into
  work and may wait only when there is none, and \<open>finish\<close> takes an item out of work.
\<close>

locale work_queue =
  fixes add :: "'a \<Rightarrow> 'q \<Rightarrow> 'q"
    and get :: "'q \<Rightarrow> 'a got \<times> 'q"
    and finish :: "'a \<Rightarrow> 'q \<Rightarrow> 'q"
    and pending :: "'q \<Rightarrow> 'a set"
    and in_work :: "'q \<Rightarrow> 'a set"
    and closed :: "'q \<Rightarrow> bool"
    and invar :: "'q \<Rightarrow> bool"
  assumes invar_add: "invar q \<Longrightarrow> invar (add x q)"
    and invar_get: "invar q \<Longrightarrow> get q = (r, q') \<Longrightarrow> invar q'"
    and invar_finish: "invar q \<Longrightarrow> x \<in> in_work q \<Longrightarrow> invar (finish x q)"
    and pending_add: "pending (add x q) = (if closed q then pending q else insert x (pending q))"
    and in_work_add [simp]: "in_work (add x q) = in_work q"
    and get_Got: "invar q \<Longrightarrow> get q = (Got x, q') \<Longrightarrow>
        x \<in> pending q - in_work q \<and> pending q' = pending q - {x}
        \<and> in_work q' = insert x (in_work q) \<and> closed q' = closed q"
    and get_idle: "invar q \<Longrightarrow> fst (get q) \<in> {Wait, GotShutdown} \<Longrightarrow>
        pending q \<subseteq> in_work q \<and> snd (get q) = q"
    and pending_finish [simp]: "pending (finish x q) = pending q"
    and in_work_finish [simp]: "in_work (finish x q) = in_work q - {x}"
    and closed_finish [simp]: "closed (finish x q) = closed q"
    and finite_pending: "invar q \<Longrightarrow> finite (pending q)"
begin

text \<open>One worker takes an item, works on it and gives it back, \<open>n\<close> times.\<close>

fun work :: "nat \<Rightarrow> 'q \<Rightarrow> 'a list \<times> 'q" where
  "work 0 q = ([], q)"
| "work (Suc n) q = (case get q of
     (Got x, q') \<Rightarrow> (let (xs, q'') = work n (finish x q') in (x # xs, q''))
   | (_, q') \<Rightarrow> ([], q'))"

lemma work_empty: "invar q \<Longrightarrow> pending q = {} \<Longrightarrow> work n q = ([], q)"
  by (cases n) (use get_Got [of q] get_idle [of q] in \<open>fastforce split: prod.splits got.splits\<close>)+

text \<open>
  A worker on its own empties the queue: as many rounds as there are pending items hand
  out each of them exactly once.
\<close>

lemma work_drains:
  assumes "invar q" and "in_work q = {}" and "card (pending q) \<le> n" and "work n q = (xs, q')"
  shows "pending q' = {} \<and> in_work q' = {} \<and> set xs = pending q \<and> distinct xs"
  using assms
proof (induction n arbitrary: q xs)
  case 0
  with finite_pending have "pending q = {}" by simp
  with 0 show ?case by simp
next
  case (Suc n)
  obtain r q1 where g: "get q = (r, q1)" by fastforce
  show ?case
  proof (cases r)
    case (Got x)
    note gg = get_Got [OF Suc.prems(1) g [unfolded Got]]
    have inv1: "invar (finish x q1)"
      using invar_get [OF Suc.prems(1) g] gg by (intro invar_finish) auto
    have pend1: "pending (finish x q1) = pending q - {x}" and work1: "in_work (finish x q1) = {}"
      using gg Suc.prems(2) by auto
    have x: "x \<in> pending q" using gg by auto
    then have "card (pending (finish x q1)) \<le> n"
      using Suc.prems(3) finite_pending [OF Suc.prems(1)] pend1 by simp
    moreover obtain ys where "xs = x # ys" and "work n (finish x q1) = (ys, q')"
      using Suc.prems(4) g Got by (auto split: prod.splits)
    ultimately show ?thesis
      using Suc.IH [OF inv1 work1] pend1 x by auto
  qed (use Suc.prems g get_idle [OF Suc.prems(1)] in auto)
qed

text \<open>An item added while it is in work stays pending until it is handed out again.\<close>

lemma add_in_work_requeues:
  assumes "invar q" and "x \<in> in_work q" and "\<not> closed q"
  shows "x \<in> pending (finish x (add x q)) - in_work (finish x (add x q))"
  using assms by (simp add: pending_add)

end

section \<open>The invariant\<close>

text \<open>
  The comment on the field \<^verbatim>\<open>queue\<close> says that its elements are dirty and not processing;
  the converse holds as well, and no item is queued twice.
\<close>

definition workqueue_inv :: "'a workqueue \<Rightarrow> bool" where
  "workqueue_inv q \<longleftrightarrow> distinct (queue q) \<and> set (queue q) = dirty q - processing q
     \<and> finite (processing q) \<and> finite (dirty q)"

lemma workqueue_inv_New [go_inv]: "workqueue_inv workqueue_New"
  by (simp add: workqueue_inv_def workqueue_New_def)

lemma workqueue_inv_Add [go_inv]: "workqueue_inv q \<Longrightarrow> workqueue_inv (workqueue_Add x q)"
  by (auto simp: workqueue_inv_def workqueue_Add_def Let_def)

lemma workqueue_inv_Get [go_inv]:
  "workqueue_inv q \<Longrightarrow> workqueue_Get q = (r, q') \<Longrightarrow> workqueue_inv q'"
  by (cases "queue q") (auto simp: workqueue_inv_def workqueue_Get_def split: if_splits)

lemma workqueue_inv_Done [go_inv]:
  "workqueue_inv q \<Longrightarrow> x \<in> processing q \<Longrightarrow> workqueue_inv (workqueue_Done x q)"
  by (auto simp: workqueue_inv_def workqueue_Done_def Let_def)

lemma workqueue_inv_ShutDown [go_inv]: "workqueue_inv q \<Longrightarrow> workqueue_inv (workqueue_ShutDown q)"
  by (simp add: workqueue_inv_def workqueue_ShutDown_def)

lemma workqueue_Get_GotE:
  assumes "workqueue_Get q = (Got x, q')"
  obtains rest where "queue q = x # rest"
    and "q' = q\<lparr>queue := rest, processing := insert x (processing q), dirty := dirty q - {x}\<rparr>"
  using assms by (cases "queue q") (auto simp: workqueue_Get_def split: if_splits)

lemma workqueue_Get_Got:
  assumes "workqueue_inv q" and "workqueue_Get q = (Got x, q')"
  shows "x \<in> dirty q - processing q \<and> dirty q' = dirty q - {x}
    \<and> processing q' = insert x (processing q) \<and> shuttingDown q' = shuttingDown q"
proof -
  obtain rest where q: "queue q = x # rest"
    and q': "q' = q\<lparr>queue := rest, processing := insert x (processing q), dirty := dirty q - {x}\<rparr>"
    using assms(2) by (rule workqueue_Get_GotE)
  have "x \<in> set (queue q)" using q by simp
  then have "x \<in> dirty q - processing q" using assms(1) by (simp add: workqueue_inv_def)
  with q' show ?thesis by simp
qed

lemma workqueue_Get_idle:
  assumes "workqueue_inv q" and "fst (workqueue_Get q) \<in> {Wait, GotShutdown}"
  shows "dirty q \<subseteq> processing q \<and> snd (workqueue_Get q) = q"
proof -
  have "queue q = []" and "snd (workqueue_Get q) = q"
    using assms(2) by (cases "queue q"; simp add: workqueue_Get_def split: if_splits)+
  then show ?thesis using assms(1) by (simp add: workqueue_inv_def)
qed

lemma workqueue_Add_dirty:
  "dirty (workqueue_Add x q) = (if shuttingDown q then dirty q else insert x (dirty q))"
  by (auto simp: workqueue_Add_def Let_def)

lemma workqueue_Add_processing [simp]: "processing (workqueue_Add x q) = processing q"
  by (simp add: workqueue_Add_def Let_def)

lemma workqueue_Done_frame [simp]:
  "processing (workqueue_Done x q) = processing q - {x}"
  "dirty (workqueue_Done x q) = dirty q"
  "shuttingDown (workqueue_Done x q) = shuttingDown q"
  by (simp_all add: workqueue_Done_def Let_def)

lemma workqueue_ShutDown_processing [simp]: "processing (workqueue_ShutDown q) = processing q"
  by (simp add: workqueue_ShutDown_def)

interpretation wq: work_queue workqueue_Add workqueue_Get workqueue_Done dirty processing
  shuttingDown workqueue_inv
proof
  fix q q' :: "'a workqueue" and x r
  show "workqueue_inv q \<Longrightarrow> workqueue_inv (workqueue_Add x q)" by (rule workqueue_inv_Add)
  show "workqueue_inv q \<Longrightarrow> workqueue_Get q = (r, q') \<Longrightarrow> workqueue_inv q'"
    by (rule workqueue_inv_Get)
  show "workqueue_inv q \<Longrightarrow> x \<in> processing q \<Longrightarrow> workqueue_inv (workqueue_Done x q)"
    by (rule workqueue_inv_Done)
  show "dirty (workqueue_Add x q) = (if shuttingDown q then dirty q else insert x (dirty q))"
    by (rule workqueue_Add_dirty)
  show "workqueue_inv q \<Longrightarrow> workqueue_Get q = (Got x, q') \<Longrightarrow>
    x \<in> dirty q - processing q \<and> dirty q' = dirty q - {x}
    \<and> processing q' = insert x (processing q) \<and> shuttingDown q' = shuttingDown q"
    by (rule workqueue_Get_Got)
  show "workqueue_inv q \<Longrightarrow> fst (workqueue_Get q) \<in> {Wait, GotShutdown} \<Longrightarrow>
    dirty q \<subseteq> processing q \<and> snd (workqueue_Get q) = q"
    by (rule workqueue_Get_idle)
  show "workqueue_inv q \<Longrightarrow> finite (dirty q)" by (simp add: workqueue_inv_def)
qed simp_all

section \<open>Interleavings\<close>

text \<open>
  The queue with the items its workers hold.  A worker that got an item calls \<^verbatim>\<open>Done\<close> with
  it once (the package's documentation asks for that); everybody may call \<^verbatim>\<open>Add\<close> and
  \<^verbatim>\<open>ShutDown\<close> at any time.
\<close>

inductive workqueue_step :: "'a workqueue \<times> 'a multiset \<Rightarrow> 'a workqueue \<times> 'a multiset \<Rightarrow> bool" where
  step_add: "workqueue_step (q, held) (workqueue_Add x q, held)"
| step_get: "workqueue_Get q = (Got x, q') \<Longrightarrow> workqueue_step (q, held) (q', add_mset x held)"
| step_done: "x \<in># held \<Longrightarrow> workqueue_step (q, held) (workqueue_Done x q, held - {#x#})"
| step_shutdown: "workqueue_step (q, held) (workqueue_ShutDown q, held)"

inductive workqueue_reachable :: "'a workqueue \<Rightarrow> 'a multiset \<Rightarrow> bool" where
  reach_init: "workqueue_reachable workqueue_New {#}"
| reach_step: "workqueue_reachable q held \<Longrightarrow> workqueue_step (q, held) (q', held') \<Longrightarrow>
     workqueue_reachable q' held'"

definition workqueue_sys_inv :: "'a workqueue \<Rightarrow> 'a multiset \<Rightarrow> bool" where
  "workqueue_sys_inv q held \<longleftrightarrow> workqueue_inv q \<and> held = mset_set (processing q)"

lemma workqueue_sys_inv_step:
  assumes "workqueue_sys_inv q held" and "workqueue_step (q, held) (q', held')"
  shows "workqueue_sys_inv q' held'"
proof -
  have inv: "workqueue_inv q" and held: "held = mset_set (processing q)"
    and fin: "finite (processing q)"
    using assms(1) by (auto simp: workqueue_sys_inv_def workqueue_inv_def)
  from assms(2) show ?thesis
  proof cases
    case (step_get x)
    have "x \<notin> processing q" and "processing q' = insert x (processing q)"
      using workqueue_Get_Got [OF inv step_get(2)] by auto
    then show ?thesis
      using inv held fin step_get by (auto simp: workqueue_sys_inv_def intro: go_inv)
  next
    case (step_done x)
    then have "x \<in> processing q" using held fin by simp
    then show ?thesis
      using inv held fin step_done by (auto simp: workqueue_sys_inv_def mset_set_Diff intro: go_inv)
  qed (use inv held in \<open>auto simp: workqueue_sys_inv_def intro: go_inv\<close>)
qed

lemma workqueue_reachable_inv: "workqueue_reachable q held \<Longrightarrow> workqueue_sys_inv q held"
proof (induction rule: workqueue_reachable.induct)
  case reach_init
  show ?case by (simp add: workqueue_sys_inv_def go_inv) (simp add: workqueue_New_def)
qed (blast intro: workqueue_sys_inv_step)

text \<open>A reachable state in which a worker holds the item 7.\<close>

definition workqueue_example :: "nat workqueue" where
  "workqueue_example = \<lparr>queue = [], dirty = {}, processing = {7}, shuttingDown = False\<rparr>"

lemma workqueue_example_reachable: "workqueue_reachable workqueue_example {#7#}"
proof -
  have s1: "workqueue_step (workqueue_New, {#}) (workqueue_Add (7::nat) workqueue_New, {#})"
    by (rule step_add)
  have s2: "workqueue_step (workqueue_Add (7::nat) workqueue_New, {#})
      (workqueue_example, add_mset 7 {#})"
    by (rule step_get)
      (simp add: workqueue_Get_def workqueue_Add_def workqueue_New_def workqueue_example_def Let_def)
  show ?thesis by (rule reach_step [OF reach_step [OF reach_init s1] s2])
qed

text \<open>
  C1: In every interleaving of \<^verbatim>\<open>Add\<close>, \<^verbatim>\<open>Get\<close>, \<^verbatim>\<open>Done\<close> and \<^verbatim>\<open>ShutDown\<close> in which workers call
  \<^verbatim>\<open>Done\<close> once for each item they got, no item is held by two workers at a time, no item is
  in the queue twice, and the queue holds exactly the dirty items that nobody processes.
\<close>

theorem workqueue_exclusive:
  assumes "workqueue_reachable q held"
  shows "count held x \<le> 1 \<and> distinct (queue q) \<and> set (queue q) = dirty q - processing q
    \<and> set_mset held = processing q"
proof -
  have "workqueue_sys_inv q held" using assms by (rule workqueue_reachable_inv)
  then show ?thesis
    by (auto simp: workqueue_sys_inv_def workqueue_inv_def count_mset_set')
qed

theorem workqueue_exclusive_witness:
  "count {#7#} (7::nat) \<le> 1 \<and> distinct (queue workqueue_example)"
  using workqueue_exclusive [OF workqueue_example_reachable, of 7] by simp

text \<open>
  C23: \<^verbatim>\<open>Get\<close> blocks, or reports the shutdown, only when every item that was added and not yet
  handed out is in the hands of a worker: no added item is lost.  A second clause: an item
  added while a worker holds it is not handed out at once, and is ready when the worker is
  done with it.
\<close>

theorem workqueue_no_lost_item:
  assumes "workqueue_reachable q held"
  shows "(fst (workqueue_Get q) \<in> {Wait, GotShutdown} \<longrightarrow> dirty q \<subseteq> set_mset held)
    \<and> (x \<in> set_mset held \<and> \<not> shuttingDown q \<longrightarrow>
         x \<in> set (queue (workqueue_Done x (workqueue_Add x q)))
         \<and> x \<notin> set (queue (workqueue_Add x q)))"
proof -
  have inv: "workqueue_inv q" and held: "set_mset held = processing q"
    using workqueue_reachable_inv [OF assms] by (auto simp: workqueue_sys_inv_def workqueue_inv_def)
  have add: "workqueue_inv (workqueue_Add x q)" using inv by (rule workqueue_inv_Add)
  have idle: "fst (workqueue_Get q) \<in> {Wait, GotShutdown} \<Longrightarrow> dirty q \<subseteq> set_mset held"
    unfolding held using workqueue_Get_idle [OF inv] by simp
  have "x \<in> set (queue (workqueue_Done x (workqueue_Add x q)))
      \<and> x \<notin> set (queue (workqueue_Add x q))"
    if "x \<in> processing q" and "\<not> shuttingDown q"
  proof
    have "workqueue_inv (workqueue_Done x (workqueue_Add x q))"
      using add that by (intro workqueue_inv_Done) auto
    then show "x \<in> set (queue (workqueue_Done x (workqueue_Add x q)))"
      using wq.add_in_work_requeues [OF inv that] unfolding workqueue_inv_def by blast
    show "x \<notin> set (queue (workqueue_Add x q))"
      using add that by (simp add: workqueue_inv_def)
  qed
  with idle held show ?thesis by blast
qed

theorem workqueue_no_lost_item_witness:
  "dirty workqueue_example \<subseteq> set_mset {#7::nat#}
    \<and> 7 \<in> set (queue (workqueue_Done 7 (workqueue_Add 7 workqueue_example)))"
proof -
  have w: "fst (workqueue_Get workqueue_example) \<in> {Wait, GotShutdown}"
    by (simp add: workqueue_Get_def workqueue_example_def)
  have h: "7 \<in> set_mset {#7::nat#} \<and> \<not> shuttingDown workqueue_example"
    by (simp add: workqueue_example_def)
  note * = workqueue_no_lost_item [OF workqueue_example_reachable, of 7]
  show ?thesis using * [THEN conjunct1, THEN mp, OF w] * [THEN conjunct2, THEN mp, OF h] by simp
qed

text \<open>
  C40: A single worker that repeats \<^verbatim>\<open>Get\<close> and \<^verbatim>\<open>Done\<close> drains the queue: after as many rounds as
  there are dirty items it has processed each of them exactly once and nothing is left.
\<close>

theorem workqueue_drains:
  assumes "workqueue_inv q" and "processing q = {}" and "card (dirty q) \<le> n"
    and "wq.work n q = (xs, q')"
  shows "dirty q' = {} \<and> processing q' = {} \<and> set xs = dirty q \<and> distinct xs"
  by (rule wq.work_drains [OF assms])

theorem workqueue_drains_witness:
  "let q = workqueue_Add 2 (workqueue_Add (1::nat) workqueue_New)
   in dirty (snd (wq.work 2 q)) = {} \<and> set (fst (wq.work 2 q)) = {1, 2}"
proof -
  define q where "q = workqueue_Add 2 (workqueue_Add (1::nat) workqueue_New)"
  have inv: "workqueue_inv q" unfolding q_def by (intro go_inv)
  have d: "dirty q = {1, 2}" and p: "processing q = {}"
    by (auto simp: q_def workqueue_Add_def workqueue_New_def Let_def)
  then have "card (dirty q) \<le> 2" by simp
  from workqueue_drains [OF inv p this, of "fst (wq.work 2 q)" "snd (wq.work 2 q)"] d
  show ?thesis unfolding q_def [symmetric] by simp
qed

end
