(* ===== verification/Sets_String.thy ===== *)
theory Sets_String
  imports Prelude
begin

text \<open>
  \<^verbatim>\<open>pkg/util/sets/string.go\<close>: sets of strings, a \<^verbatim>\<open>map[string]Empty\<close>.  The map's keys
  are the set, so the model of \<^verbatim>\<open>sets.String\<close> is \<^typ>\<open>string set\<close>; every loop of the source
  is the fold or the recursion it is, over the order in which \<^verbatim>\<open>range\<close> visits the map.
  The lemmas say that none of the results depends on that order and that each is the
  mathematical operation the source's comments name.
\<close>

section \<open>Operations\<close>

type_synonym sets_String = "string set"

definition sets_Insert :: "sets_String \<Rightarrow> string list \<Rightarrow> sets_String" where
  "sets_Insert s items = fold (\<lambda>item s. insert item s) items s"

definition sets_Delete :: "sets_String \<Rightarrow> string list \<Rightarrow> sets_String" where
  "sets_Delete s items = fold (\<lambda>item s. s - {item}) items s"

definition sets_NewString :: "string list \<Rightarrow> sets_String" where
  "sets_NewString items = (let ss = {} in sets_Insert ss items)"

definition sets_StringKeySet :: "string list \<Rightarrow> (string \<rightharpoonup> 'v) \<Rightarrow> sets_String" where
  "sets_StringKeySet ord theMap = fold (\<lambda>keyValue ret. sets_Insert ret [keyValue]) ord {}"

definition sets_Has :: "sets_String \<Rightarrow> string \<Rightarrow> bool" where
  "sets_Has s item \<longleftrightarrow> item \<in> s"

fun sets_HasAll :: "sets_String \<Rightarrow> string list \<Rightarrow> bool" where
  "sets_HasAll s [] = True"
| "sets_HasAll s (item # items) = (if \<not> sets_Has s item then False else sets_HasAll s items)"

fun sets_HasAny :: "sets_String \<Rightarrow> string list \<Rightarrow> bool" where
  "sets_HasAny s [] = False"
| "sets_HasAny s (item # items) = (if sets_Has s item then True else sets_HasAny s items)"

definition sets_Len :: "sets_String \<Rightarrow> nat" where
  "sets_Len s = card s"

text \<open>\<open>ord\<close> is the order in which the loop over the receiver runs, \<open>ord2\<close> over the argument.\<close>

definition sets_Difference :: "string list \<Rightarrow> sets_String \<Rightarrow> sets_String \<Rightarrow> sets_String" where
  "sets_Difference ord s s2 =
     fold (\<lambda>key result. if \<not> sets_Has s2 key then sets_Insert result [key] else result)
       ord (sets_NewString [])"

definition sets_Union ::
  "string list \<Rightarrow> string list \<Rightarrow> sets_String \<Rightarrow> sets_String \<Rightarrow> sets_String" where
  "sets_Union ord1 ord2 s1 s2 =
     (let result = fold (\<lambda>key result. sets_Insert result [key]) ord1 (sets_NewString [])
      in fold (\<lambda>key result. sets_Insert result [key]) ord2 result)"

definition sets_Intersection ::
  "string list \<Rightarrow> string list \<Rightarrow> sets_String \<Rightarrow> sets_String \<Rightarrow> sets_String" where
  "sets_Intersection ord1 ord2 s1 s2 =
     (let (walk, other) = (if sets_Len s1 < sets_Len s2 then (ord1, s2) else (ord2, s1))
      in fold (\<lambda>key result. if sets_Has other key then sets_Insert result [key] else result)
           walk (sets_NewString []))"

fun sets_IsSuperset :: "string list \<Rightarrow> sets_String \<Rightarrow> bool" where
  "sets_IsSuperset [] s1 = True"
| "sets_IsSuperset (item # ord2) s1 =
     (if \<not> sets_Has s1 item then False else sets_IsSuperset ord2 s1)"

definition sets_Equal :: "string list \<Rightarrow> sets_String \<Rightarrow> sets_String \<Rightarrow> bool" where
  "sets_Equal ord2 s1 s2 \<longleftrightarrow> sets_Len s1 = sets_Len s2 \<and> sets_IsSuperset ord2 s1"

definition sets_List :: "string list \<Rightarrow> string list" where
  "sets_List ord = (let res = fold (\<lambda>key res. res @ [key]) ord [] in sort res)"

definition sets_PopAny :: "string list \<Rightarrow> sets_String \<Rightarrow> (string \<times> bool) \<times> sets_String" where
  "sets_PopAny ord s =
     (case ord of key # _ \<Rightarrow> ((key, True), sets_Delete s [key]) | [] \<Rightarrow> (('''', False), s))"

section \<open>The operations are the set operations\<close>

lemma sets_Insert_eq [simp]: "sets_Insert s items = s \<union> set items"
  by (simp add: sets_Insert_def fold_insert_set)

lemma sets_Delete_eq [simp]: "sets_Delete s items = s - set items"
  by (simp add: sets_Delete_def fold_remove_set)

lemma sets_NewString_eq [simp]: "sets_NewString items = set items"
  by (simp add: sets_NewString_def)

lemma sets_Has_iff [simp]: "sets_Has s item \<longleftrightarrow> item \<in> s"
  by (simp add: sets_Has_def)

lemma sets_HasAll_iff [simp]: "sets_HasAll s items \<longleftrightarrow> set items \<subseteq> s"
  by (induction items) auto

lemma sets_HasAny_iff [simp]: "sets_HasAny s items \<longleftrightarrow> set items \<inter> s \<noteq> {}"
  by (induction items) auto

lemma sets_IsSuperset_loop: "sets_IsSuperset ord s \<longleftrightarrow> set ord \<subseteq> s"
  by (induction ord) auto

lemma fold_sets_filter:
  "fold (\<lambda>key result. if P key then sets_Insert result [key] else result) xs A
     = A \<union> {x \<in> set xs. P x}"
  by (induction xs arbitrary: A) auto

lemma fold_append_id: "fold (\<lambda>key res. res @ [key]) xs ys = ys @ xs"
  by (induction xs arbitrary: ys) auto

lemma sets_StringKeySet_dom: "map_order ord m \<Longrightarrow> sets_StringKeySet ord m = dom m"
  by (simp add: sets_StringKeySet_def fold_insert_set map_order_dom)

lemma sets_Difference_eq: "set_order ord s \<Longrightarrow> sets_Difference ord s s2 = s - s2"
  by (auto simp: sets_Difference_def fold_sets_filter set_order_set)

lemma sets_Union_eq: "set_order ord1 s1 \<Longrightarrow> set_order ord2 s2 \<Longrightarrow> sets_Union ord1 ord2 s1 s2 = s1 \<union> s2"
  by (simp add: sets_Union_def fold_insert_set set_order_set)

lemma sets_Intersection_eq:
  assumes "set_order ord1 s1" and "set_order ord2 s2"
  shows "sets_Intersection ord1 ord2 s1 s2 = s1 \<inter> s2"
  using assms by (auto simp: sets_Intersection_def fold_sets_filter set_order_set)

lemma sets_IsSuperset_iff: "set_order ord2 s2 \<Longrightarrow> sets_IsSuperset ord2 s1 \<longleftrightarrow> s2 \<subseteq> s1"
  by (simp add: sets_IsSuperset_loop set_order_set)

text \<open>
  \<^verbatim>\<open>Equal\<close> compares the sizes and tests one inclusion; for finite sets that is equality.
\<close>

lemma sets_Equal_iff:
  assumes "finite s1" and "set_order ord2 s2"
  shows "sets_Equal ord2 s1 s2 \<longleftrightarrow> s1 = s2"
proof
  assume "sets_Equal ord2 s1 s2"
  then have "card s1 = card s2" and "s2 \<subseteq> s1"
    using assms by (auto simp: sets_Equal_def sets_Len_def sets_IsSuperset_iff)
  then show "s1 = s2"
    using assms(1) card_subset_eq by metis
qed (use assms in \<open>auto simp: sets_Equal_def sets_IsSuperset_iff\<close>)

lemma sets_List_eq: "set_order ord s \<Longrightarrow> sets_List ord = sorted_list_of_set s"
  by (metis append_Nil distinct_remdups_id fold_append_id set_order_def sets_List_def
      sorted_list_of_set_sort_remdups)

text \<open>
  \<^verbatim>\<open>sets.String\<close> is a set: \<^verbatim>\<open>Difference\<close>, \<^verbatim>\<open>Union\<close>, \<^verbatim>\<open>Intersection\<close>, \<^verbatim>\<open>IsSuperset\<close> and
  \<^verbatim>\<open>Equal\<close> compute the set operations, and \<^verbatim>\<open>List\<close> the ascending list of the elements,
  whatever the order in which the runtime iterates over the two maps.
\<close>

theorem sets_String_operations:
  assumes "set_order ord1 s1" and "set_order ord2 s2"
  shows "sets_Difference ord1 s1 s2 = s1 - s2
    \<and> sets_Union ord1 ord2 s1 s2 = s1 \<union> s2
    \<and> sets_Intersection ord1 ord2 s1 s2 = s1 \<inter> s2
    \<and> (sets_IsSuperset ord2 s1 \<longleftrightarrow> s2 \<subseteq> s1)
    \<and> (sets_Equal ord2 s1 s2 \<longleftrightarrow> s1 = s2)
    \<and> sets_List ord1 = sorted_list_of_set s1"
  using assms
  by (simp add: sets_Difference_eq sets_Union_eq sets_Intersection_eq sets_IsSuperset_iff
      sets_Equal_iff [OF set_order_finite] sets_List_eq)

theorem sets_String_operations_witness:
  "sets_Union [''b'', ''a''] [''c'', ''a''] {''a'', ''b''} {''a'', ''c''} = {''a'', ''b'', ''c''}
    \<and> sets_List [''b'', ''a''] = sorted_list_of_set {''a'', ''b''}"
proof -
  have o1: "set_order [''b'', ''a''] {''a'', ''b''}" and o2: "set_order [''c'', ''a''] {''a'', ''c''}"
    by (auto simp: set_order_def)
  show ?thesis
    using sets_String_operations [OF o1 o2] by auto
qed

end
