(* ===== verification/Thread_Safe_Store.thy ===== *)
theory Thread_Safe_Store
  imports Sets_String
begin

text \<open>
  \<^verbatim>\<open>pkg/client/cache/thread_safe_store.go\<close> and \<^verbatim>\<open>index.go\<close>: a map of objects with secondary
  indices that every write keeps up to date.  An index function gives the values an object
  is indexed under, or an error; \<open>indices name value\<close> is the set of the keys of the objects
  indexed under \<open>value\<close>.

  The record holds what \<^verbatim>\<open>threadSafeMap\<close> holds, less the lock: each method holds it from
  start to end.  Objects are interface values (\<^verbatim>\<open>nil\<close> is \<^verbatim>\<open>None\<close>).  The lists \<open>ps\<close> of
  entries are the orders in which a loop visits \<^verbatim>\<open>c.indexers\<close>, which matters when an index
  function returns an error, because the loop then stops.
\<close>

section \<open>State\<close>

type_synonym 'o IndexFunc = "'o iface \<Rightarrow> go_error + string list"
type_synonym Index = "string \<rightharpoonup> sets_String"
type_synonym 'o Indexers = "string \<rightharpoonup> 'o IndexFunc"
type_synonym Indices = "string \<rightharpoonup> Index"
type_synonym 'o Indexers_range = "(string \<times> 'o IndexFunc) list"

record 'o threadSafeMap =
  items :: "key \<rightharpoonup> 'o iface"
  indexers :: "'o Indexers"
  indices :: Indices

datatype store_index_error = IndexDoesNotExist string | IndexFuncError go_error

section \<open>Operations\<close>

definition NewThreadSafeStore :: "'o Indexers \<Rightarrow> Indices \<Rightarrow> 'o threadSafeMap" where
  "NewThreadSafeStore ixs ics = \<lparr>items = Map.empty, indexers = ixs, indices = ics\<rparr>"

text \<open>Reading a missing key of a Go map gives the zero value: nil, or a nil set.\<close>

definition item_at :: "'o threadSafeMap \<Rightarrow> key \<Rightarrow> 'o iface" where
  "item_at c k = (case items c k of None \<Rightarrow> None | Some obj \<Rightarrow> obj)"

definition index_set :: "Indices \<Rightarrow> string \<Rightarrow> string \<Rightarrow> sets_String" where
  "index_set ics name indexValue =
     (case ics name of None \<Rightarrow> {} | Some index \<Rightarrow>
        (case index indexValue of None \<Rightarrow> {} | Some s \<Rightarrow> s))"

definition deleteIndexValue :: "key \<Rightarrow> string \<Rightarrow> string \<Rightarrow> Indices \<Rightarrow> Indices" where
  "deleteIndexValue key name indexValue ics =
     (case ics name of None \<Rightarrow> ics | Some index \<Rightarrow>
        (case index indexValue of None \<Rightarrow> ics
         | Some s \<Rightarrow> ics(name \<mapsto> index(indexValue \<mapsto> sets_Delete s [key]))))"

fun deleteFromIndices ::
  "'o Indexers_range \<Rightarrow> 'o iface \<Rightarrow> key \<Rightarrow> Indices \<Rightarrow> go_error option \<times> Indices" where
  "deleteFromIndices [] obj key ics = (None, ics)"
| "deleteFromIndices ((name, indexFunc) # ps) obj key ics =
     (case indexFunc obj of
        Inl err \<Rightarrow> (Some err, ics)
      | Inr indexValues \<Rightarrow>
          deleteFromIndices ps obj key (fold (deleteIndexValue key name) indexValues ics))"

definition insertIndexValue :: "key \<Rightarrow> string \<Rightarrow> Index \<Rightarrow> Index" where
  "insertIndexValue key indexValue index =
     (let s = (case index indexValue of None \<Rightarrow> {} | Some s \<Rightarrow> s)
      in index(indexValue \<mapsto> sets_Insert s [key]))"

fun updateIndicesLoop ::
  "'o Indexers_range \<Rightarrow> 'o iface \<Rightarrow> key \<Rightarrow> Indices \<Rightarrow> go_error option \<times> Indices" where
  "updateIndicesLoop [] newObj key ics = (None, ics)"
| "updateIndicesLoop ((name, indexFunc) # ps) newObj key ics =
     (case indexFunc newObj of
        Inl err \<Rightarrow> (Some err, ics)
      | Inr indexValues \<Rightarrow>
          (let index = (case ics name of None \<Rightarrow> Map.empty | Some index \<Rightarrow> index)
           in updateIndicesLoop ps newObj key
                (ics(name \<mapsto> fold (insertIndexValue key) indexValues index))))"

text \<open>\<open>psd\<close> is the order of the deleting loop, \<open>ps\<close> of the inserting one.\<close>

definition updateIndices ::
  "'o Indexers_range \<Rightarrow> 'o Indexers_range \<Rightarrow> 'o iface \<Rightarrow> 'o iface \<Rightarrow> key \<Rightarrow> Indices
     \<Rightarrow> go_error option \<times> Indices" where
  "updateIndices psd ps oldObj newObj key ics =
     (let ics = (if oldObj \<noteq> None then snd (deleteFromIndices psd oldObj key ics) else ics)
      in updateIndicesLoop ps newObj key ics)"

definition threadSafeMap_Add ::
  "'o Indexers_range \<Rightarrow> 'o Indexers_range \<Rightarrow> key \<Rightarrow> 'o iface \<Rightarrow> 'o threadSafeMap \<Rightarrow> 'o threadSafeMap" where
  "threadSafeMap_Add psd ps key obj c =
     (let oldObject = item_at c key
      in c\<lparr>items := (items c)(key \<mapsto> obj),
           indices := snd (updateIndices psd ps oldObject obj key (indices c))\<rparr>)"

definition threadSafeMap_Update ::
  "'o Indexers_range \<Rightarrow> 'o Indexers_range \<Rightarrow> key \<Rightarrow> 'o iface \<Rightarrow> 'o threadSafeMap \<Rightarrow> 'o threadSafeMap" where
  "threadSafeMap_Update psd ps key obj c =
     (let oldObject = item_at c key
      in c\<lparr>items := (items c)(key \<mapsto> obj),
           indices := snd (updateIndices psd ps oldObject obj key (indices c))\<rparr>)"

definition threadSafeMap_Delete ::
  "'o Indexers_range \<Rightarrow> key \<Rightarrow> 'o threadSafeMap \<Rightarrow> 'o threadSafeMap" where
  "threadSafeMap_Delete psd key c =
     (case items c key of
        None \<Rightarrow> c
      | Some obj \<Rightarrow> c\<lparr>indices := snd (deleteFromIndices psd obj key (indices c)),
                     items := (items c)(key := None)\<rparr>)"

definition threadSafeMap_Get :: "key \<Rightarrow> 'o threadSafeMap \<Rightarrow> 'o iface \<times> bool" where
  "threadSafeMap_Get key c = (item_at c key, key \<in> dom (items c))"

definition threadSafeMap_List :: "(key, 'o iface) go_range \<Rightarrow> 'o threadSafeMap \<Rightarrow> 'o iface list" where
  "threadSafeMap_List rng c = fold (\<lambda>(key, item) list. list @ [item]) (rng (items c)) []"

definition threadSafeMap_ListKeys :: "(key, 'o iface) go_range \<Rightarrow> 'o threadSafeMap \<Rightarrow> key list" where
  "threadSafeMap_ListKeys rng c = fold (\<lambda>(key, item) list. list @ [key]) (rng (items c)) []"

text \<open>
  \<^verbatim>\<open>Replace\<close> visits the new items in an order \<open>rng\<close> gives and, for each, the indexers in an
  order of their own, \<open>pso key\<close>.
\<close>

definition threadSafeMap_Replace ::
  "(key, 'o iface) go_range \<Rightarrow> (key \<Rightarrow> 'o Indexers_range) \<Rightarrow> (key \<rightharpoonup> 'o iface)
     \<Rightarrow> 'o threadSafeMap \<Rightarrow> 'o threadSafeMap" where
  "threadSafeMap_Replace rng pso newItems c =
     (let c = c\<lparr>items := newItems, indices := Map.empty\<rparr>
      in c\<lparr>indices := fold (\<lambda>(key, item) ics. snd (updateIndices [] (pso key) None item key ics))
                        (rng (items c)) (indices c)\<rparr>)"

text \<open>\<open>rng\<close> gives the order in which the last loop visits the set of result keys.\<close>

definition threadSafeMap_Index ::
  "key set_range \<Rightarrow> string \<Rightarrow> 'o iface \<Rightarrow> 'o threadSafeMap \<Rightarrow> store_index_error + 'o iface list" where
  "threadSafeMap_Index rng indexName obj c =
     (case indexers c indexName of
        None \<Rightarrow> Inl (IndexDoesNotExist indexName)
      | Some indexFunc \<Rightarrow>
          (case indexFunc obj of
             Inl err \<Rightarrow> Inl (IndexFuncError err)
           | Inr indexKeys \<Rightarrow>
               (let returnKeySet =
                      fold (\<lambda>indexKey returnKeySet.
                              fold (\<lambda>key returnKeySet. sets_Insert returnKeySet [key])
                                (sorted_list_of_set (index_set (indices c) indexName indexKey))
                                returnKeySet)
                        indexKeys {}
                in Inr (fold (\<lambda>absoluteKey list. list @ [item_at c absoluteKey])
                          (rng returnKeySet) []))))"

definition threadSafeMap_ByIndex ::
  "string \<Rightarrow> string \<Rightarrow> 'o threadSafeMap \<Rightarrow> store_index_error + 'o iface list" where
  "threadSafeMap_ByIndex indexName indexKey c =
     (case indexers c indexName of
        None \<Rightarrow> Inl (IndexDoesNotExist indexName)
      | Some indexFunc \<Rightarrow>
          Inr (fold (\<lambda>key list. list @ [item_at c key])
                 (sorted_list_of_set (index_set (indices c) indexName indexKey)) []))"

definition threadSafeMap_ListIndexFuncValues ::
  "(string, sets_String) go_range \<Rightarrow> string \<Rightarrow> 'o threadSafeMap \<Rightarrow> string list" where
  "threadSafeMap_ListIndexFuncValues rng indexName c =
     (let index = (case indices c indexName of None \<Rightarrow> Map.empty | Some index \<Rightarrow> index)
      in fold (\<lambda>(key, s) names. names @ [key]) (rng index) [])"

text \<open>\<^verbatim>\<open>index.go\<close>; \<open>accessor\<close> stands for \<^verbatim>\<open>meta.Accessor\<close> followed by \<^verbatim>\<open>GetNamespace\<close>.\<close>

datatype adapter_error = AdapterIndexError go_error | TooManyKeys "string list" | IndexOutOfRange

definition IndexFuncToKeyFuncAdapter :: "'o IndexFunc \<Rightarrow> 'o iface \<Rightarrow> adapter_error + string" where
  "IndexFuncToKeyFuncAdapter indexFunc obj =
     (case indexFunc obj of
        Inl err \<Rightarrow> Inl (AdapterIndexError err)
      | Inr indexKeys \<Rightarrow>
          if length indexKeys > 1 then Inl (TooManyKeys indexKeys)
          else case indexKeys of [] \<Rightarrow> Inl IndexOutOfRange | k # _ \<Rightarrow> Inr k)"

definition MetaNamespaceIndexFunc :: "('o iface \<Rightarrow> go_error + string) \<Rightarrow> 'o IndexFunc" where
  "MetaNamespaceIndexFunc accessor obj =
     (case accessor obj of
        Inl err \<Rightarrow> Inl (''object has no meta: '' @ err)
      | Inr namespace \<Rightarrow> Inr [namespace])"

section \<open>What the indices hold\<close>

text \<open>
  \<open>indexable\<close>: every index function succeeds on the object; \<open>index_values\<close>: the values it is
  indexed under.
\<close>

definition indexable :: "'o Indexers \<Rightarrow> 'o iface \<Rightarrow> bool" where
  "indexable ixs obj \<longleftrightarrow> (\<forall>name f. ixs name = Some f \<longrightarrow> (\<exists>vs. f obj = Inr vs))"

definition index_values :: "'o Indexers \<Rightarrow> string \<Rightarrow> 'o iface \<Rightarrow> string set" where
  "index_values ixs name obj =
     (case ixs name of None \<Rightarrow> {} | Some f \<Rightarrow> (case f obj of Inl _ \<Rightarrow> {} | Inr vs \<Rightarrow> set vs))"

definition threadSafeMap_inv :: "'o threadSafeMap \<Rightarrow> bool" where
  "threadSafeMap_inv c \<longleftrightarrow>
     finite (dom (items c))
     \<and> (\<forall>k obj. items c k = Some obj \<longrightarrow> obj \<noteq> None \<and> indexable (indexers c) obj)
     \<and> (\<forall>name \<in> dom (indexers c). \<forall>v. index_set (indices c) name v
          = {k. \<exists>obj. items c k = Some obj \<and> v \<in> index_values (indexers c) name obj})"

lemma index_set_deleteIndexValue:
  "index_set (deleteIndexValue key name iv ics) n v
     = (if n = name \<and> v = iv then index_set ics n v - {key} else index_set ics n v)"
  by (auto simp: deleteIndexValue_def index_set_def split: option.splits)

lemma index_set_deleteIndexValues:
  "index_set (fold (deleteIndexValue key name) ivs ics) n v
     = (if n = name \<and> v \<in> set ivs then index_set ics n v - {key} else index_set ics n v)"
  by (induction ivs arbitrary: ics) (auto simp: index_set_deleteIndexValue)

lemma index_set_insertIndexValues:
  "(case fold (insertIndexValue key) ivs index v of None \<Rightarrow> {} | Some s \<Rightarrow> s)
     = (case index v of None \<Rightarrow> {} | Some s \<Rightarrow> s) \<union> {k. k = key \<and> v \<in> set ivs}"
  by (induction ivs arbitrary: index) (auto simp: insertIndexValue_def split: option.splits)

lemma indexable_Cons:
  assumes "indexable (map_of ((name, f) # ps)) obj" and "name \<notin> fst ` set ps"
  shows "(\<exists>vs. f obj = Inr vs) \<and> indexable (map_of ps) obj"
proof
  show "\<exists>vs. f obj = Inr vs"
    using assms(1) [unfolded indexable_def, rule_format, of name f] by simp
  show "indexable (map_of ps) obj"
    unfolding indexable_def
  proof (intro allI impI)
    fix n g
    assume g: "map_of ps n = Some g"
    then have "n \<noteq> name" using assms(2) by (metis domI dom_map_of_conv_image_fst)
    with g have "map_of ((name, f) # ps) n = Some g" by simp
    with assms(1) show "\<exists>vs. g obj = Inr vs" unfolding indexable_def by blast
  qed
qed

lemma index_values_Cons: "f obj = Inr vs \<Longrightarrow>
    index_values (\<lambda>a. if a = name then Some f else m a) n obj
      = (if n = name then set vs else index_values m n obj)"
  by (simp add: index_values_def)

lemma index_values_None: "name \<notin> fst ` set ps \<Longrightarrow> index_values (map_of ps) name obj = {}"
  by (simp add: index_values_def map_of_eq_None_iff [symmetric] split: option.splits)

lemma index_set_deleteFromIndices_range:
  assumes "distinct (map fst ps)" and "indexable (map_of ps) obj"
  shows "index_set (snd (deleteFromIndices ps obj key ics)) n v
    = index_set ics n v - {k. k = key \<and> v \<in> index_values (map_of ps) n obj}"
  using assms
proof (induction ps arbitrary: ics)
  case Nil
  then show ?case by (simp add: index_values_def)
next
  case (Cons p ps)
  obtain name f where p: "p = (name, f)" by fastforce
  have new: "name \<notin> fst ` set ps" and dist: "distinct (map fst ps)" using Cons.prems(1) p by auto
  obtain vs where f: "f obj = Inr vs" and ps: "indexable (map_of ps) obj"
    using indexable_Cons [OF Cons.prems(2) [unfolded p] new] by blast
  show ?case
    using Cons.IH [OF dist ps] index_values_None [OF new, of obj]
    by (auto simp: p f index_values_Cons [of f obj vs, OF f] index_set_deleteIndexValues)
qed

lemma index_set_updateIndicesLoop_range:
  assumes "distinct (map fst ps)" and "indexable (map_of ps) obj"
  shows "index_set (snd (updateIndicesLoop ps obj key ics)) n v
    = index_set ics n v \<union> {k. k = key \<and> v \<in> index_values (map_of ps) n obj}"
  using assms
proof (induction ps arbitrary: ics)
  case Nil
  then show ?case by (simp add: index_values_def)
next
  case (Cons p ps)
  obtain name f where p: "p = (name, f)" by fastforce
  have new: "name \<notin> fst ` set ps" and dist: "distinct (map fst ps)" using Cons.prems(1) p by auto
  obtain vs where f: "f obj = Inr vs" and ps: "indexable (map_of ps) obj"
    using indexable_Cons [OF Cons.prems(2) [unfolded p] new] by blast
  define ics' where "ics' = ics(name \<mapsto> fold (insertIndexValue key) vs
        (case ics name of None \<Rightarrow> Map.empty | Some index \<Rightarrow> index))"
  have upd: "index_set ics' n v
      = (if n = name then index_set ics n v \<union> {k. k = key \<and> v \<in> set vs} else index_set ics n v)"
    by (auto simp: ics'_def index_set_def index_set_insertIndexValues split: option.splits)
  have "updateIndicesLoop (p # ps) obj key ics = updateIndicesLoop ps obj key ics'"
    by (simp add: p f ics'_def Let_def)
  then show ?case
    using Cons.IH [OF dist ps, of ics'] index_values_None [OF new, of obj]
    by (auto simp: p upd index_values_Cons [of f obj vs, OF f])
qed

lemma index_set_deleteFromIndices:
  assumes "map_entries ps ixs" and "indexable ixs obj"
  shows "index_set (snd (deleteFromIndices ps obj key ics)) n v
    = index_set ics n v - {k. k = key \<and> v \<in> index_values ixs n obj}"
  using index_set_deleteFromIndices_range [of ps obj] assms by (auto simp: map_entries_def)

lemma index_set_updateIndicesLoop:
  assumes "map_entries ps ixs" and "indexable ixs obj"
  shows "index_set (snd (updateIndicesLoop ps obj key ics)) n v
    = index_set ics n v \<union> {k. k = key \<and> v \<in> index_values ixs n obj}"
  using index_set_updateIndicesLoop_range [of ps obj] assms by (auto simp: map_entries_def)

section \<open>Every operation keeps the indices exact\<close>

lemma threadSafeMap_invD:
  assumes "threadSafeMap_inv c"
  shows "items c k = Some obj \<Longrightarrow> indexable (indexers c) obj"
    and "items c k = Some obj \<Longrightarrow> obj \<noteq> None"
    and "name \<in> dom (indexers c) \<Longrightarrow> k \<in> index_set (indices c) name v
      \<longleftrightarrow> (\<exists>obj. items c k = Some obj \<and> v \<in> index_values (indexers c) name obj)"
    and "finite (dom (items c))"
  using assms unfolding threadSafeMap_inv_def by blast+

lemma threadSafeMap_inv_New: "threadSafeMap_inv (NewThreadSafeStore ixs Map.empty)"
  by (simp add: threadSafeMap_inv_def NewThreadSafeStore_def index_set_def)

lemma threadSafeMap_frame [simp]:
  "items (threadSafeMap_Add psd ps key obj c) = (items c)(key \<mapsto> obj)"
  "indexers (threadSafeMap_Add psd ps key obj c) = indexers c"
  "items (threadSafeMap_Update psd ps key obj c) = (items c)(key \<mapsto> obj)"
  "indexers (threadSafeMap_Update psd ps key obj c) = indexers c"
  "items (threadSafeMap_Delete psd key c) = (items c)(key := None)"
  "indexers (threadSafeMap_Delete psd key c) = indexers c"
  "items (threadSafeMap_Replace rng pso newItems c) = newItems"
  "indexers (threadSafeMap_Replace rng pso newItems c) = indexers c"
  by (auto simp: threadSafeMap_Add_def threadSafeMap_Update_def threadSafeMap_Delete_def
      threadSafeMap_Replace_def Let_def split: option.splits)

lemma threadSafeMap_inv_Add [go_inv]:
  assumes inv: "threadSafeMap_inv c" and psd: "map_entries psd (indexers c)"
    and ps: "map_entries ps (indexers c)" and obj: "obj \<noteq> None" "indexable (indexers c) obj"
  shows "threadSafeMap_inv (threadSafeMap_Add psd ps key obj c)"
proof -
  have old: "item_at c key \<noteq> None \<Longrightarrow> indexable (indexers c) (item_at c key)"
    using threadSafeMap_invD(1) [OF inv] by (auto simp: item_at_def split: option.splits)
  have ix: "index_set (indices (threadSafeMap_Add psd ps key obj c)) name v
    = (index_set (indices c) name v
        - {k. k = key \<and> item_at c key \<noteq> None \<and> v \<in> index_values (indexers c) name (item_at c key)})
      \<union> {k. k = key \<and> v \<in> index_values (indexers c) name obj}" for name v
    by (simp add: threadSafeMap_Add_def updateIndices_def Let_def
        index_set_updateIndicesLoop [OF ps obj(2)] index_set_deleteFromIndices [OF psd old])
  have "index_set (indices (threadSafeMap_Add psd ps key obj c)) name v
    = {k. \<exists>o'. ((items c)(key \<mapsto> obj)) k = Some o' \<and> v \<in> index_values (indexers c) name o'}"
    if name: "name \<in> dom (indexers c)" for name v
  proof (rule set_eqI)
    fix k
    show "k \<in> index_set (indices (threadSafeMap_Add psd ps key obj c)) name v
      \<longleftrightarrow> k \<in> {k. \<exists>o'. ((items c)(key \<mapsto> obj)) k = Some o' \<and> v \<in> index_values (indexers c) name o'}"
      using threadSafeMap_invD(2) [OF inv, of k] threadSafeMap_invD(3) [OF inv name, of k v]
      unfolding ix
      by (cases "k = key") (auto simp: item_at_def split: option.splits)
  qed
  then show ?thesis
    using inv obj unfolding threadSafeMap_inv_def by (auto split: if_splits)
qed

lemma threadSafeMap_Update_eq_Add: "threadSafeMap_Update = threadSafeMap_Add"
  by (intro ext) (simp add: threadSafeMap_Update_def threadSafeMap_Add_def)

lemma threadSafeMap_inv_Delete [go_inv]:
  assumes inv: "threadSafeMap_inv c" and psd: "map_entries psd (indexers c)"
  shows "threadSafeMap_inv (threadSafeMap_Delete psd key c)"
proof (cases "items c key")
  case None
  then show ?thesis using inv by (simp add: threadSafeMap_Delete_def)
next
  case (Some obj)
  have ix: "index_set (indices (threadSafeMap_Delete psd key c)) name v
    = index_set (indices c) name v - {k. k = key \<and> v \<in> index_values (indexers c) name obj}" for name v
    using Some by (simp add: threadSafeMap_Delete_def
        index_set_deleteFromIndices [OF psd threadSafeMap_invD(1) [OF inv Some]])
  have "index_set (indices (threadSafeMap_Delete psd key c)) name v
    = {k. \<exists>o'. ((items c)(key := None)) k = Some o' \<and> v \<in> index_values (indexers c) name o'}"
    if "name \<in> dom (indexers c)" for name v
    using threadSafeMap_invD(3) [OF inv that] Some unfolding ix by (auto split: if_splits)
  then show ?thesis using inv unfolding threadSafeMap_inv_def by auto
qed

lemma index_set_Replace_loop:
  assumes "\<forall>(key, item) \<in> set entries. map_entries (pso key) ixs \<and> indexable ixs item"
  shows "index_set (fold (\<lambda>(key, item) ics. snd (updateIndices [] (pso key) None item key ics))
        entries ics) name v
    = index_set ics name v \<union> {k. \<exists>item. (k, item) \<in> set entries \<and> v \<in> index_values ixs name item}"
  using assms
proof (induction entries arbitrary: ics)
  case (Cons e entries)
  obtain key item where e: "e = (key, item)" by fastforce
  then have "map_entries (pso key) ixs" and "indexable ixs item" using Cons.prems by auto
  then show ?case
    using Cons by (auto simp: e updateIndices_def index_set_updateIndicesLoop)
qed simp

lemma threadSafeMap_inv_Replace [go_inv]:
  assumes rng: "go_range_ok rng" and fin: "finite (dom newItems)"
    and pso: "\<And>k. map_entries (pso k) (indexers c)"
    and new: "\<And>k obj. newItems k = Some obj \<Longrightarrow> obj \<noteq> None \<and> indexable (indexers c) obj"
  shows "threadSafeMap_inv (threadSafeMap_Replace rng pso newItems c)"
proof -
  note es = go_rangeD [OF rng fin]
  have "\<forall>(key, item) \<in> set (rng newItems). map_entries (pso key) (indexers c)
      \<and> indexable (indexers c) item"
    using pso new map_entries_mem [OF es] by auto
  from index_set_Replace_loop [OF this]
  have "index_set (indices (threadSafeMap_Replace rng pso newItems c)) name v
    = {k. \<exists>item. newItems k = Some item \<and> v \<in> index_values (indexers c) name item}" for name v
    by (simp add: threadSafeMap_Replace_def Let_def index_set_def map_entries_mem [OF es])
  then show ?thesis using fin new unfolding threadSafeMap_inv_def by auto
qed

section \<open>Reading through an index\<close>

lemma fold_append_map: "fold (\<lambda>x list. list @ [f x]) xs ys = ys @ map f xs"
  by (induction xs arbitrary: ys) auto

lemma fold_append_snd: "fold (\<lambda>(k, v) list. list @ [v]) ps ys = ys @ map snd ps"
  by (induction ps arbitrary: ys) auto

lemma fold_append_fst: "fold (\<lambda>(k, v) list. list @ [k]) ps ys = ys @ map fst ps"
  by (induction ps arbitrary: ys) auto

lemma threadSafeMap_List_eq: "threadSafeMap_List rng c = map snd (rng (items c))"
  by (simp add: threadSafeMap_List_def fold_append_snd)

lemma threadSafeMap_ListKeys_eq: "threadSafeMap_ListKeys rng c = map fst (rng (items c))"
  by (simp add: threadSafeMap_ListKeys_def fold_append_fst)

lemma fold_index_keys:
  "(\<And>k. finite (S k)) \<Longrightarrow>
   fold (\<lambda>k acc. fold (\<lambda>key acc. sets_Insert acc [key]) (sorted_list_of_set (S k)) acc) ks A
     = A \<union> (\<Union>k \<in> set ks. S k)"
  by (induction ks arbitrary: A) (auto simp: fold_insert_set)

lemma finite_index_set:
  assumes "threadSafeMap_inv c" and "name \<in> dom (indexers c)"
  shows "finite (index_set (indices c) name v)"
  by (rule finite_subset [OF _ threadSafeMap_invD(4) [OF assms(1)]])
    (use threadSafeMap_invD(3) [OF assms] in blast)

lemma item_at_Some: "items c k = Some obj \<Longrightarrow> item_at c k = obj"
  by (simp add: item_at_def)

text \<open>The keys a scan of the whole store would find for an index value.\<close>

definition scan_keys :: "string \<Rightarrow> string set \<Rightarrow> 'o threadSafeMap \<Rightarrow> key set" where
  "scan_keys name vs c =
     {k \<in> dom (items c). index_values (indexers c) name (item_at c k) \<inter> vs \<noteq> {}}"

lemma index_set_scan:
  assumes "threadSafeMap_inv c" and "name \<in> dom (indexers c)"
  shows "index_set (indices c) name v = scan_keys name {v} c"
  using threadSafeMap_invD(3) [OF assms] by (auto simp: scan_keys_def item_at_Some)

text \<open>
  A store whose index functions succeed on the stored objects answers through its
  indices exactly what a scan of the store would: \<^verbatim>\<open>ByIndex\<close> returns the objects indexed under
  the value, in ascending order of their keys, and \<^verbatim>\<open>Index\<close> returns each object that shares
  an index value with the given one exactly once.  (The invariant is the one that
  every write keeps, by \<open>threadSafeMap_writes_keep_indices\<close>.)
\<close>

theorem index_equals_scan:
  assumes "threadSafeMap_inv c" and "indexers c name = Some f" and "set_range_ok rng"
    and "f obj = Inr vs"
  shows "threadSafeMap_ByIndex name v c
      = Inr (map (item_at c) (sorted_list_of_set (scan_keys name {v} c)))
    \<and> (\<exists>ks. set_order ks (scan_keys name (set vs) c)
          \<and> threadSafeMap_Index rng name obj c = Inr (map (item_at c) ks))"
proof -
  have name: "name \<in> dom (indexers c)" using assms(2) by auto
  let ?K = "\<Union>v \<in> set vs. index_set (indices c) name v"
  have fin: "finite ?K" using finite_index_set [OF assms(1) name] by simp
  have K: "?K = scan_keys name (set vs) c"
    unfolding index_set_scan [OF assms(1) name] by (auto simp: scan_keys_def)
  have "threadSafeMap_Index rng name obj c = Inr (map (item_at c) (rng ?K))"
    using fold_index_keys [of "index_set (indices c) name", OF finite_index_set [OF assms(1) name]]
    by (simp add: threadSafeMap_Index_def assms(2,4) fold_append_map)
  moreover have "set_order (rng ?K) (scan_keys name (set vs) c)"
    using set_rangeD [OF assms(3) fin] unfolding K .
  moreover have "threadSafeMap_ByIndex name v c
      = Inr (map (item_at c) (sorted_list_of_set (scan_keys name {v} c)))"
    by (simp add: threadSafeMap_ByIndex_def assms(2) fold_append_map index_set_scan [OF assms(1) name])
  ultimately show ?thesis by blast
qed

definition example_indexer :: "string IndexFunc" where
  "example_indexer obj = (case obj of None \<Rightarrow> Inl ''nil'' | Some ns \<Rightarrow> Inr [ns])"

definition example_store :: "string threadSafeMap" where
  "example_store = threadSafeMap_Add [(''ns'', example_indexer)] [(''ns'', example_indexer)]
     ''k'' (Some ''v'') (NewThreadSafeStore [''ns'' \<mapsto> example_indexer] Map.empty)"

lemma example_store_inv: "threadSafeMap_inv example_store"
  unfolding example_store_def
  by (rule threadSafeMap_inv_Add [OF threadSafeMap_inv_New])
    (auto simp: NewThreadSafeStore_def map_entries_def indexable_def example_indexer_def)

theorem index_equals_scan_witness:
  "threadSafeMap_ByIndex ''ns'' ''v'' example_store
     = Inr (map (item_at example_store) (sorted_list_of_set (scan_keys ''ns'' {''v''} example_store)))"
proof -
  have f: "indexers example_store ''ns'' = Some example_indexer"
    by (simp add: example_store_def NewThreadSafeStore_def)
  have v: "example_indexer (Some ''v'') = Inr [''v'']" by (simp add: example_indexer_def)
  show ?thesis
    using index_equals_scan [OF example_store_inv f sorted_set_range_ok v, of "''v''"] by blast
qed

text \<open>
  C13: Every write of the store (\<^verbatim>\<open>Add\<close>, \<^verbatim>\<open>Update\<close>, \<^verbatim>\<open>Delete\<close>, \<^verbatim>\<open>Replace\<close>) keeps each index exact, in
  whatever order the runtime visits the index functions, as long as the index functions
  succeed on the objects that are written.
\<close>

theorem threadSafeMap_writes_keep_indices:
  assumes inv: "threadSafeMap_inv c" and ord: "map_entries psd (indexers c)" "map_entries ps (indexers c)"
    and obj: "obj \<noteq> None" "indexable (indexers c) obj"
    and new: "go_range_ok rng" "finite (dom newItems)" "\<forall>k. map_entries (pso k) (indexers c)"
      "\<forall>k o'. newItems k = Some o' \<longrightarrow> o' \<noteq> None \<and> indexable (indexers c) o'"
  shows "threadSafeMap_inv (threadSafeMap_Add psd ps key obj c)
    \<and> threadSafeMap_inv (threadSafeMap_Update psd ps key obj c)
    \<and> threadSafeMap_inv (threadSafeMap_Delete psd key c)
    \<and> threadSafeMap_inv (threadSafeMap_Replace rng pso newItems c)"
  using assms by (simp add: threadSafeMap_Update_eq_Add go_inv)

theorem threadSafeMap_writes_keep_indices_witness:
  "threadSafeMap_inv (threadSafeMap_Delete [(''ns'', example_indexer)] ''k'' example_store)
    \<and> threadSafeMap_inv (threadSafeMap_Replace sorted_range (\<lambda>_. [(''ns'', example_indexer)])
         [''z'' \<mapsto> Some ''y''] example_store)"
proof -
  have ixs: "indexers example_store = [''ns'' \<mapsto> example_indexer]"
    by (simp add: example_store_def NewThreadSafeStore_def)
  have ord: "map_entries [(''ns'', example_indexer)] (indexers example_store)"
    by (simp add: ixs map_entries_def)
  have obj: "indexable (indexers example_store) (Some x)" for x
    by (simp add: ixs indexable_def example_indexer_def)
  define m where "m = [''z'' \<mapsto> Some ''y'']"
  have fin: "finite (dom m)" by (simp add: m_def)
  have new: "\<forall>k o'. m k = Some o' \<longrightarrow> o' \<noteq> None \<and> indexable (indexers example_store) o'"
    by (auto simp: m_def obj split: if_splits)
  have pso: "\<forall>k::key. map_entries [(''ns'', example_indexer)] (indexers example_store)"
    using ord by simp
  show ?thesis
    unfolding m_def [symmetric]
    using threadSafeMap_writes_keep_indices [where obj = "Some ''x''" and key = "''k''",
        OF example_store_inv ord ord _ obj sorted_range_ok fin pso new] by blast
qed

text \<open>
  With an index function that fails on an object the indices can go stale.  A store with
  the index functions \<open>a\<close>, which succeeds, and \<open>b\<close>, which fails: \<^verbatim>\<open>Add\<close> visits \<open>a\<close> first and
  indexes the object there before \<open>b\<close>'s error stops the loop; \<^verbatim>\<open>Delete\<close> visits \<open>b\<close> first, stops
  at once and leaves the key in \<open>a\<close>'s index.  \<^verbatim>\<open>ByIndex\<close> then returns one nil object for a key
  that the store does not hold.  Both calls drop the error.
\<close>

theorem failing_index_func_leaves_stale_key:
  "let a = (\<lambda>obj. Inr [''v'']); b = (\<lambda>obj. Inl ''no value''); ixs = [''a'' \<mapsto> a, ''b'' \<mapsto> b];
       c1 = threadSafeMap_Add [] [(''a'', a), (''b'', b)] ''k'' (Some (0::nat))
              (NewThreadSafeStore ixs Map.empty);
       c2 = threadSafeMap_Delete [(''b'', b), (''a'', a)] ''k'' c1
   in map_entries [(''a'', a), (''b'', b)] ixs \<and> map_entries [(''b'', b), (''a'', a)] ixs
      \<and> items c2 ''k'' = None \<and> threadSafeMap_ByIndex ''a'' ''v'' c2 = Inr [None]"
  by (simp add: Let_def threadSafeMap_Add_def threadSafeMap_Delete_def NewThreadSafeStore_def
      updateIndices_def item_at_def threadSafeMap_ByIndex_def index_set_def insertIndexValue_def
      map_entries_def fun_eq_iff)

end
