(* ===== verification/Cache_Store.thy ===== *)
theory Cache_Store
  imports Thread_Safe_Store
begin

text \<open>
  \<^verbatim>\<open>pkg/client/cache/store.go\<close> and \<^verbatim>\<open>undelta_store.go\<close>: the key functions, the \<^verbatim>\<open>Store\<close> interface,
  its implementation \<^verbatim>\<open>cache\<close> over a \<^verbatim>\<open>ThreadSafeStore\<close>, and \<^verbatim>\<open>UndeltaStore\<close>, which pushes the
  whole contents after every change.

  \<^verbatim>\<open>Store\<close> is the interface most of the client library is written against, so it is a locale;
  \<^verbatim>\<open>UndeltaStore\<close> is verified against the locale alone, for any store, and the interpretation on
  \<^verbatim>\<open>NewStore\<close> gives the concrete facts.
\<close>

section \<open>Keys\<close>

datatype 'o keyed = ExplicitKey string | ApiObject 'o

text \<open>\<open>accessor\<close> stands for \<^verbatim>\<open>meta.Accessor\<close>; it gives the namespace and the name.\<close>

definition MetaNamespaceKeyFunc ::
  "('o \<Rightarrow> go_error + string \<times> string) \<Rightarrow> 'o keyed \<Rightarrow> go_error + key" where
  "MetaNamespaceKeyFunc accessor obj =
     (case obj of
        ExplicitKey key \<Rightarrow> Inr key
      | ApiObject ob \<Rightarrow>
          (case accessor ob of
             Inl err \<Rightarrow> Inl (''object has no meta: '' @ err)
           | Inr (namespace, name) \<Rightarrow>
               if length namespace > 0 then Inr (namespace @ ''/'' @ name) else Inr name))"

datatype split_error = UnexpectedKeyFormat string

definition SplitMetaNamespaceKey :: "key \<Rightarrow> split_error + string \<times> string" where
  "SplitMetaNamespaceKey key =
     (case strings_Split key (CHR ''/'') of
        [name] \<Rightarrow> Inr ('''', name)
      | [namespace, name] \<Rightarrow> Inr (namespace, name)
      | _ \<Rightarrow> Inl (UnexpectedKeyFormat key))"

section \<open>The cache\<close>

type_synonym 'o KeyFunc = "'o iface \<Rightarrow> go_error + key"

datatype 'o KeyError = KeyError "'o iface" go_error

record 'o cache =
  cacheStorage :: "'o threadSafeMap"
  keyFunc :: "'o KeyFunc"

definition cache_Add ::
  "'o Indexers_range \<Rightarrow> 'o Indexers_range \<Rightarrow> 'o iface \<Rightarrow> 'o cache \<Rightarrow> 'o KeyError option \<times> 'o cache" where
  "cache_Add psd ps obj c =
     (case keyFunc c obj of
        Inl err \<Rightarrow> (Some (KeyError obj err), c)
      | Inr key \<Rightarrow> (None, c\<lparr>cacheStorage := threadSafeMap_Add psd ps key obj (cacheStorage c)\<rparr>))"

definition cache_Update ::
  "'o Indexers_range \<Rightarrow> 'o Indexers_range \<Rightarrow> 'o iface \<Rightarrow> 'o cache \<Rightarrow> 'o KeyError option \<times> 'o cache" where
  "cache_Update psd ps obj c =
     (case keyFunc c obj of
        Inl err \<Rightarrow> (Some (KeyError obj err), c)
      | Inr key \<Rightarrow> (None, c\<lparr>cacheStorage := threadSafeMap_Update psd ps key obj (cacheStorage c)\<rparr>))"

definition cache_Delete ::
  "'o Indexers_range \<Rightarrow> 'o iface \<Rightarrow> 'o cache \<Rightarrow> 'o KeyError option \<times> 'o cache" where
  "cache_Delete psd obj c =
     (case keyFunc c obj of
        Inl err \<Rightarrow> (Some (KeyError obj err), c)
      | Inr key \<Rightarrow> (None, c\<lparr>cacheStorage := threadSafeMap_Delete psd key (cacheStorage c)\<rparr>))"

definition cache_List :: "(key, 'o iface) go_range \<Rightarrow> 'o cache \<Rightarrow> 'o iface list" where
  "cache_List rng c = threadSafeMap_List rng (cacheStorage c)"

definition cache_ListKeys :: "(key, 'o iface) go_range \<Rightarrow> 'o cache \<Rightarrow> key list" where
  "cache_ListKeys rng c = threadSafeMap_ListKeys rng (cacheStorage c)"

definition cache_Index ::
  "key set_range \<Rightarrow> string \<Rightarrow> 'o iface \<Rightarrow> 'o cache \<Rightarrow> store_index_error + 'o iface list" where
  "cache_Index rng indexName obj c = threadSafeMap_Index rng indexName obj (cacheStorage c)"

definition cache_ListIndexFuncValues ::
  "(string, sets_String) go_range \<Rightarrow> string \<Rightarrow> 'o cache \<Rightarrow> string list" where
  "cache_ListIndexFuncValues rng indexName c =
     threadSafeMap_ListIndexFuncValues rng indexName (cacheStorage c)"

definition cache_ByIndex :: "string \<Rightarrow> string \<Rightarrow> 'o cache \<Rightarrow> store_index_error + 'o iface list" where
  "cache_ByIndex indexName indexKey c = threadSafeMap_ByIndex indexName indexKey (cacheStorage c)"

definition cache_GetByKey :: "key \<Rightarrow> 'o cache \<Rightarrow> 'o iface \<times> bool" where
  "cache_GetByKey key c = threadSafeMap_Get key (cacheStorage c)"

definition cache_Get :: "'o iface \<Rightarrow> 'o cache \<Rightarrow> 'o KeyError + 'o iface \<times> bool" where
  "cache_Get obj c =
     (case keyFunc c obj of
        Inl err \<Rightarrow> Inl (KeyError obj err)
      | Inr key \<Rightarrow> Inr (cache_GetByKey key c))"

text \<open>The loop that keys a list of objects, shared by the \<^verbatim>\<open>Replace\<close> methods of the stores.\<close>

fun keyItems ::
  "('o \<Rightarrow> go_error + key) \<Rightarrow> ('o \<Rightarrow> 'v) \<Rightarrow> 'o list \<Rightarrow> (key \<rightharpoonup> 'v) \<Rightarrow> 'o \<times> go_error + (key \<rightharpoonup> 'v)" where
  "keyItems kf entry [] its = Inr its"
| "keyItems kf entry (item # list) its =
     (case kf item of
        Inl err \<Rightarrow> Inl (item, err)
      | Inr key \<Rightarrow> keyItems kf entry list (its(key \<mapsto> entry item)))"

definition cache_Replace ::
  "(key, 'o iface) go_range \<Rightarrow> (key \<Rightarrow> 'o Indexers_range) \<Rightarrow> 'o iface list \<Rightarrow> 'o cache
     \<Rightarrow> 'o KeyError option \<times> 'o cache" where
  "cache_Replace rng pso list c =
     (case keyItems (keyFunc c) id list Map.empty of
        Inl (item, err) \<Rightarrow> (Some (KeyError item err), c)
      | Inr its \<Rightarrow> (None, c\<lparr>cacheStorage := threadSafeMap_Replace rng pso its (cacheStorage c)\<rparr>))"

definition NewStore :: "'o KeyFunc \<Rightarrow> 'o cache" where
  "NewStore kf = \<lparr>cacheStorage = NewThreadSafeStore Map.empty Map.empty, keyFunc = kf\<rparr>"

definition NewIndexer :: "'o KeyFunc \<Rightarrow> 'o Indexers \<Rightarrow> 'o cache" where
  "NewIndexer kf ixs = \<lparr>cacheStorage = NewThreadSafeStore ixs Map.empty, keyFunc = kf\<rparr>"

section \<open>UndeltaStore\<close>

text \<open>
  \<open>pushed\<close> records the argument of each call of \<^verbatim>\<open>PushFunc\<close>, oldest first.  The embedded
  \<^verbatim>\<open>Store\<close> is any state with its methods, which are the arguments \<open>op\<close> and \<open>lst\<close>.
\<close>

record ('o, 's) UndeltaStore =
  Store :: 's
  pushed :: "'o iface list list"

definition undelta_change ::
  "('s \<Rightarrow> 'e option \<times> 's) \<Rightarrow> ('s \<Rightarrow> 'o iface list) \<Rightarrow> ('o, 's) UndeltaStore
     \<Rightarrow> 'e option \<times> ('o, 's) UndeltaStore" where
  "undelta_change op lst u =
     (case op (Store u) of
        (Some err, s) \<Rightarrow> (Some err, u\<lparr>Store := s\<rparr>)
      | (None, s) \<Rightarrow> (None, u\<lparr>Store := s, pushed := pushed u @ [lst s]\<rparr>))"

definition UndeltaStore_Add ::
  "('o iface \<Rightarrow> 's \<Rightarrow> 'e option \<times> 's) \<Rightarrow> ('s \<Rightarrow> 'o iface list) \<Rightarrow> 'o iface
     \<Rightarrow> ('o, 's) UndeltaStore \<Rightarrow> 'e option \<times> ('o, 's) UndeltaStore" where
  "UndeltaStore_Add add lst obj u = undelta_change (add obj) lst u"

definition UndeltaStore_Update ::
  "('o iface \<Rightarrow> 's \<Rightarrow> 'e option \<times> 's) \<Rightarrow> ('s \<Rightarrow> 'o iface list) \<Rightarrow> 'o iface
     \<Rightarrow> ('o, 's) UndeltaStore \<Rightarrow> 'e option \<times> ('o, 's) UndeltaStore" where
  "UndeltaStore_Update update lst obj u = undelta_change (update obj) lst u"

definition UndeltaStore_Delete ::
  "('o iface \<Rightarrow> 's \<Rightarrow> 'e option \<times> 's) \<Rightarrow> ('s \<Rightarrow> 'o iface list) \<Rightarrow> 'o iface
     \<Rightarrow> ('o, 's) UndeltaStore \<Rightarrow> 'e option \<times> ('o, 's) UndeltaStore" where
  "UndeltaStore_Delete delete lst obj u = undelta_change (delete obj) lst u"

definition UndeltaStore_Replace ::
  "('o iface list \<Rightarrow> 's \<Rightarrow> 'e option \<times> 's) \<Rightarrow> ('s \<Rightarrow> 'o iface list) \<Rightarrow> 'o iface list
     \<Rightarrow> ('o, 's) UndeltaStore \<Rightarrow> 'e option \<times> ('o, 's) UndeltaStore" where
  "UndeltaStore_Replace replace lst list u = undelta_change (replace list) lst u"

definition NewUndeltaStore :: "'o KeyFunc \<Rightarrow> ('o, 'o cache) UndeltaStore" where
  "NewUndeltaStore kf = \<lparr>Store = NewStore kf, pushed = []\<rparr>"

section \<open>Splitting and joining keys\<close>

text \<open>
  \<^verbatim>\<open>SplitMetaNamespaceKey\<close> inverts \<^verbatim>\<open>MetaNamespaceKeyFunc\<close> for every object whose namespace
  and name hold no slash, with or without a namespace.
\<close>

theorem split_key_roundtrip:
  assumes "accessor ob = Inr (namespace, name)"
    and "CHR ''/'' \<notin> set namespace" and "CHR ''/'' \<notin> set name"
  shows "\<exists>k. MetaNamespaceKeyFunc accessor (ApiObject ob) = Inr k
    \<and> SplitMetaNamespaceKey k = Inr (namespace, name)"
  using assms
  by (cases "namespace = []")
    (simp_all add: MetaNamespaceKeyFunc_def SplitMetaNamespaceKey_def strings_Split_no_sep
      strings_Split_append)

theorem split_key_roundtrip_witness:
  "\<exists>k. MetaNamespaceKeyFunc (\<lambda>_::unit. Inr (''kube-system'', ''dns'')) (ApiObject ()) = Inr k
    \<and> SplitMetaNamespaceKey k = Inr (''kube-system'', ''dns'')"
  by (rule split_key_roundtrip) simp_all

section \<open>The Store interface\<close>

locale store =
  fixes keyf :: "'o iface \<Rightarrow> go_error + key"
    and add :: "'o iface \<Rightarrow> 's \<Rightarrow> 'o KeyError option \<times> 's"
    and delete :: "'o iface \<Rightarrow> 's \<Rightarrow> 'o KeyError option \<times> 's"
    and replace :: "'o iface list \<Rightarrow> 's \<Rightarrow> 'o KeyError option \<times> 's"
    and get_by_key :: "key \<Rightarrow> 's \<Rightarrow> 'o iface \<times> bool"
    and list_all_items :: "'s \<Rightarrow> 'o iface list"
    and contents :: "'s \<Rightarrow> key \<rightharpoonup> 'o iface"
    and invar :: "'s \<Rightarrow> bool"
  assumes add_error: "invar s \<Longrightarrow> keyf obj = Inl e \<Longrightarrow> add obj s = (Some (KeyError obj e), s)"
    and add_ok: "invar s \<Longrightarrow> keyf obj = Inr k \<Longrightarrow> obj \<noteq> None \<Longrightarrow>
      \<exists>s'. add obj s = (None, s') \<and> contents s' = (contents s)(k \<mapsto> obj) \<and> invar s'"
    and delete_error: "invar s \<Longrightarrow> keyf obj = Inl e \<Longrightarrow> delete obj s = (Some (KeyError obj e), s)"
    and delete_ok: "invar s \<Longrightarrow> keyf obj = Inr k \<Longrightarrow>
      \<exists>s'. delete obj s = (None, s') \<and> contents s' = (contents s)(k := None) \<and> invar s'"
    and replace_error: "invar s \<Longrightarrow> keyItems keyf id list Map.empty = Inl (item, e) \<Longrightarrow>
      replace list s = (Some (KeyError item e), s)"
    and replace_ok: "invar s \<Longrightarrow> keyItems keyf id list Map.empty = Inr its \<Longrightarrow> None \<notin> set list \<Longrightarrow>
      \<exists>s'. replace list s = (None, s') \<and> contents s' = its \<and> invar s'"
    and get_by_key: "invar s \<Longrightarrow>
      get_by_key k s = (case contents s k of None \<Rightarrow> (None, False) | Some obj \<Rightarrow> (obj, True))"
    and list_items: "invar s \<Longrightarrow> \<exists>entries. map_entries entries (contents s)
      \<and> list_all_items s = map snd entries"
begin

lemma get_after_add:
  assumes "invar s" and "keyf obj = Inr k" and "obj \<noteq> None"
  shows "get_by_key j (snd (add obj s)) = (if j = k then (obj, True) else get_by_key j s)"
proof -
  obtain s' where s': "add obj s = (None, s')" "contents s' = (contents s)(k \<mapsto> obj)" "invar s'"
    using add_ok [OF assms] by blast
  show ?thesis using s' get_by_key [OF s'(3)] get_by_key [OF assms(1)] by simp
qed

lemma get_after_delete:
  assumes "invar s" and "keyf obj = Inr k"
  shows "get_by_key j (snd (delete obj s)) = (if j = k then (None, False) else get_by_key j s)"
proof -
  obtain s' where s': "delete obj s = (None, s')" "contents s' = (contents s)(k := None)" "invar s'"
    using delete_ok [OF assms] by blast
  show ?thesis using s' get_by_key [OF s'(3)] get_by_key [OF assms(1)] by simp
qed

text \<open>
  What \<^verbatim>\<open>UndeltaStore\<close> does to any store: a change that the store accepts is followed by one
  push of the new contents, a change it refuses by none.
\<close>

lemma undelta_add:
  assumes "invar (Store u)" and "keyf obj = Inr k" and "obj \<noteq> None"
  shows "\<exists>u' entries. UndeltaStore_Add add list_all_items obj u = (None, u')
    \<and> map_entries entries ((contents (Store u))(k \<mapsto> obj))
    \<and> pushed u' = pushed u @ [map snd entries] \<and> invar (Store u')"
proof -
  obtain s where s: "add obj (Store u) = (None, s)"
    "contents s = (contents (Store u))(k \<mapsto> obj)" "invar s"
    using add_ok [OF assms] by blast
  with list_items [OF s(3)] show ?thesis
    by (auto simp: UndeltaStore_Add_def undelta_change_def)
qed

lemma undelta_delete:
  assumes "invar (Store u)" and "keyf obj = Inr k"
  shows "\<exists>u' entries. UndeltaStore_Delete delete list_all_items obj u = (None, u')
    \<and> map_entries entries ((contents (Store u))(k := None))
    \<and> pushed u' = pushed u @ [map snd entries] \<and> invar (Store u')"
proof -
  obtain s where s: "delete obj (Store u) = (None, s)"
    "contents s = (contents (Store u))(k := None)" "invar s"
    using delete_ok [OF assms] by blast
  with list_items [OF s(3)] show ?thesis
    by (auto simp: UndeltaStore_Delete_def undelta_change_def)
qed

lemma undelta_replace:
  assumes "invar (Store u)" and "keyItems keyf id list Map.empty = Inr its" and "None \<notin> set list"
  shows "\<exists>u' entries. UndeltaStore_Replace replace list_all_items list u = (None, u')
    \<and> map_entries entries its
    \<and> pushed u' = pushed u @ [map snd entries] \<and> invar (Store u')"
proof -
  obtain s where s: "replace list (Store u) = (None, s)" "contents s = its" "invar s"
    using replace_ok [OF assms] by blast
  with list_items [OF s(3)] show ?thesis
    by (auto simp: UndeltaStore_Replace_def undelta_change_def)
qed

lemma undelta_error:
  assumes "invar (Store u)" and "keyf obj = Inl e"
  shows "UndeltaStore_Add add list_all_items obj u = (Some (KeyError obj e), u)"
    and "UndeltaStore_Delete delete list_all_items obj u = (Some (KeyError obj e), u)"
  using add_error [OF assms] delete_error [OF assms]
  by (simp_all add: UndeltaStore_Add_def UndeltaStore_Delete_def undelta_change_def)

end

section \<open>The cache made by NewStore is a Store\<close>

definition store_inv :: "'o KeyFunc \<Rightarrow> 'o cache \<Rightarrow> bool" where
  "store_inv kf c \<longleftrightarrow> threadSafeMap_inv (cacheStorage c) \<and> indexers (cacheStorage c) = Map.empty
     \<and> keyFunc c = kf"

abbreviation store_contents :: "'o cache \<Rightarrow> key \<rightharpoonup> 'o iface" where
  "store_contents c \<equiv> items (cacheStorage c)"

lemma store_inv_NewStore [go_inv]: "store_inv kf (NewStore kf)"
  using threadSafeMap_inv_New by (simp add: store_inv_def NewStore_def NewThreadSafeStore_def)

lemma indexable_empty [simp]: "indexable Map.empty obj"
  by (simp add: indexable_def)

lemma keyItems_dom: "keyItems kf entry list its = Inr its' \<Longrightarrow> finite (dom its) \<Longrightarrow> finite (dom its')"
  by (induction list arbitrary: its) (auto split: sum.splits)

lemma keyItems_ran: "keyItems kf entry list its = Inr its' \<Longrightarrow> ran its' \<subseteq> ran its \<union> entry ` set list"
proof (induction list arbitrary: its)
  case (Cons x list)
  then obtain k where k: "keyItems kf entry list (its(k \<mapsto> entry x)) = Inr its'"
    by (auto split: sum.splits)
  have "ran its' \<subseteq> ran (its(k \<mapsto> entry x)) \<union> entry ` set list" by (rule Cons.IH [OF k])
  also have "\<dots> \<subseteq> ran its \<union> entry ` set (x # list)" by (auto simp: ran_def)
  finally show ?case .
qed simp

lemma keyItems_keys:
  assumes "keyItems kf entry list its = Inr its'" and "its' k = Some v"
  shows "its k = Some v \<or> (\<exists>ob \<in> set list. v = entry ob \<and> kf ob = Inr k)"
  using assms
proof (induction list arbitrary: its)
  case (Cons x list)
  then obtain j where j: "kf x = Inr j" "keyItems kf entry list (its(j \<mapsto> entry x)) = Inr its'"
    by (auto split: sum.splits)
  then show ?case using Cons.IH [OF j(2) Cons.prems(2)] by (auto split: if_splits)
qed simp

lemma cache_store_axioms:
  assumes "go_range_ok rng" and "go_range_ok rng'"
  shows "store kf (cache_Add [] []) (cache_Delete []) (cache_Replace rng' (\<lambda>_. []))
    cache_GetByKey (cache_List rng) store_contents (store_inv kf)"
proof
  fix s :: "'a cache" and obj k and list :: "'a iface list" and its e item
  assume inv: "store_inv kf s"
  then have tsm: "threadSafeMap_inv (cacheStorage s)" and ixs: "indexers (cacheStorage s) = Map.empty"
    and kf: "keyFunc s = kf"
    by (simp_all add: store_inv_def)
  note ord = ixs [THEN ssubst, of "map_entries []", OF map_entries_empty]
  show "kf obj = Inl e \<Longrightarrow> cache_Add [] [] obj s = (Some (KeyError obj e), s)"
    and "kf obj = Inl e \<Longrightarrow> cache_Delete [] obj s = (Some (KeyError obj e), s)"
    and "keyItems kf id list Map.empty = Inl (item, e) \<Longrightarrow>
      cache_Replace rng' (\<lambda>_. []) list s = (Some (KeyError item e), s)"
    by (simp_all add: cache_Add_def cache_Delete_def cache_Replace_def kf)
  show "\<exists>s'. cache_Add [] [] obj s = (None, s') \<and> store_contents s' = (store_contents s)(k \<mapsto> obj)
      \<and> store_inv kf s'" if "kf obj = Inr k" and "obj \<noteq> None"
    using that threadSafeMap_inv_Add [OF tsm ord ord that(2)]
    by (simp add: cache_Add_def kf store_inv_def ixs)
  show "\<exists>s'. cache_Delete [] obj s = (None, s') \<and> store_contents s' = (store_contents s)(k := None)
      \<and> store_inv kf s'" if "kf obj = Inr k"
    using that threadSafeMap_inv_Delete [OF tsm ord] by (simp add: cache_Delete_def kf store_inv_def ixs)
  show "\<exists>s'. cache_Replace rng' (\<lambda>_. []) list s = (None, s') \<and> store_contents s' = its
      \<and> store_inv kf s'" if "keyItems kf id list Map.empty = Inr its" and "None \<notin> set list"
  proof -
    have "finite (dom its)" using keyItems_dom [OF that(1)] by simp
    moreover have "o' \<noteq> None \<and> indexable (indexers (cacheStorage s)) o'" if "its k = Some o'" for k o'
    proof -
      have "o' \<in> set list"
        using keyItems_ran [OF \<open>keyItems kf id list Map.empty = Inr its\<close>] ranI [of its, OF that]
        by auto
      then have "o' \<noteq> None" using \<open>None \<notin> set list\<close> by metis
      then show ?thesis using ixs by simp
    qed
    ultimately show ?thesis
      using that(1) threadSafeMap_inv_Replace [where c = "cacheStorage s" and pso = "\<lambda>_. []", OF assms(2)]
      by (simp add: cache_Replace_def kf store_inv_def ixs)
  qed
  show "cache_GetByKey k s
      = (case store_contents s k of None \<Rightarrow> (None, False) | Some obj \<Rightarrow> (obj, True))"
    by (auto simp: cache_GetByKey_def threadSafeMap_Get_def item_at_def split: option.splits)
  show "\<exists>entries. map_entries entries (store_contents s) \<and> cache_List rng s = map snd entries"
    using go_rangeD [OF assms(1) threadSafeMap_invD(4) [OF tsm]]
    by (auto simp: cache_List_def threadSafeMap_List_eq)
qed

interpretation st: store kf "cache_Add [] []" "cache_Delete []"
  "cache_Replace sorted_range (\<lambda>_. [])" cache_GetByKey "cache_List sorted_range"
  store_contents "store_inv kf" for kf
  by (rule cache_store_axioms [OF sorted_range_ok sorted_range_ok])

lemma cache_Update_eq_Add: "cache_Update = cache_Add"
  by (intro ext) (simp add: cache_Update_def cache_Add_def threadSafeMap_Update_eq_Add split: sum.split)

text \<open>
  The store made by \<^verbatim>\<open>NewStore\<close> is a map from keys to objects: what \<^verbatim>\<open>GetByKey\<close> returns after
  \<^verbatim>\<open>Add\<close>, \<^verbatim>\<open>Update\<close> and \<^verbatim>\<open>Delete\<close> is what was last stored under the key, and an object without a
  key is refused with a \<^verbatim>\<open>KeyError\<close> that leaves the store as it was.
\<close>

theorem store_get_after_write:
  assumes "store_inv kf c" and "kf obj = Inr k" and "obj \<noteq> None" and "kf bad = Inl e"
  shows "cache_GetByKey j (snd (cache_Add [] [] obj c)) = (if j = k then (obj, True) else cache_GetByKey j c)
    \<and> cache_GetByKey j (snd (cache_Update [] [] obj c)) = (if j = k then (obj, True) else cache_GetByKey j c)
    \<and> cache_GetByKey j (snd (cache_Delete [] obj c)) = (if j = k then (None, False) else cache_GetByKey j c)
    \<and> cache_Add [] [] bad c = (Some (KeyError bad e), c)
    \<and> cache_Delete [] bad c = (Some (KeyError bad e), c)"
  unfolding cache_Update_eq_Add
  using st.get_after_add [OF assms(1-3)] st.get_after_delete [OF assms(1,2)]
    st.add_error [OF assms(1,4)] st.delete_error [OF assms(1,4)] by blast

definition example_keyFunc :: "string KeyFunc" where
  "example_keyFunc obj = (case obj of None \<Rightarrow> Inl ''nil'' | Some n \<Rightarrow> Inr n)"

theorem store_get_after_write_witness:
  "cache_GetByKey ''a'' (snd (cache_Add [] [] (Some ''a'') (NewStore example_keyFunc))) = (Some ''a'', True)"
  using store_get_after_write [OF store_inv_NewStore, of example_keyFunc "Some ''a''" "''a''" None "''nil''" "''a''"]
  by (simp add: example_keyFunc_def)

text \<open>
  \<^verbatim>\<open>UndeltaStore\<close> over \<^verbatim>\<open>NewStore\<close>: every accepted \<^verbatim>\<open>Add\<close>, \<^verbatim>\<open>Update\<close>, \<^verbatim>\<open>Delete\<close> and \<^verbatim>\<open>Replace\<close> calls
  \<^verbatim>\<open>PushFunc\<close> exactly once, with the objects of the complete new state; a refused one does not
  call it and changes nothing.
\<close>

theorem undelta_pushes_complete_state:
  assumes "go_range_ok rng" and "store_inv kf (Store u)" and "kf obj = Inr k" and "obj \<noteq> None"
    and "keyItems kf id list Map.empty = Inr its" and "None \<notin> set list" and "kf bad = Inl e"
  shows "(\<exists>u' es. UndeltaStore_Add (cache_Add [] []) (cache_List rng) obj u = (None, u')
       \<and> map_entries es ((store_contents (Store u))(k \<mapsto> obj)) \<and> pushed u' = pushed u @ [map snd es]
       \<and> store_inv kf (Store u'))
    \<and> (\<exists>u' es. UndeltaStore_Update (cache_Update [] []) (cache_List rng) obj u = (None, u')
       \<and> map_entries es ((store_contents (Store u))(k \<mapsto> obj)) \<and> pushed u' = pushed u @ [map snd es]
       \<and> store_inv kf (Store u'))
    \<and> (\<exists>u' es. UndeltaStore_Delete (cache_Delete []) (cache_List rng) obj u = (None, u')
       \<and> map_entries es ((store_contents (Store u))(k := None)) \<and> pushed u' = pushed u @ [map snd es]
       \<and> store_inv kf (Store u'))
    \<and> (\<exists>u' es. UndeltaStore_Replace (cache_Replace rng (\<lambda>_. [])) (cache_List rng) list u = (None, u')
       \<and> map_entries es its \<and> pushed u' = pushed u @ [map snd es] \<and> store_inv kf (Store u'))
    \<and> UndeltaStore_Add (cache_Add [] []) (cache_List rng) bad u = (Some (KeyError bad e), u)"
proof -
  note ax = cache_store_axioms [OF assms(1) assms(1)]
  have upd: "UndeltaStore_Update (cache_Update [] []) = UndeltaStore_Add (cache_Add [] [])"
    by (intro ext) (simp add: UndeltaStore_Update_def UndeltaStore_Add_def cache_Update_eq_Add)
  show ?thesis
    unfolding upd
    by (intro conjI store.undelta_add [OF ax] store.undelta_delete [OF ax]
        store.undelta_replace [OF ax] store.undelta_error(1) [OF ax assms(2,7)] assms)
qed

theorem undelta_pushes_complete_state_witness:
  "\<exists>u' es. UndeltaStore_Add (cache_Add [] []) (cache_List sorted_range) (Some ''a'')
       (NewUndeltaStore example_keyFunc) = (None, u')
     \<and> map_entries es [''a'' \<mapsto> Some ''a''] \<and> pushed u' = [map snd es]"
proof -
  have inv: "store_inv example_keyFunc (Store (NewUndeltaStore example_keyFunc))"
    by (simp add: NewUndeltaStore_def store_inv_NewStore)
  have keys: "example_keyFunc (Some ''a'') = Inr ''a''" "example_keyFunc None = Inl ''nil''"
    by (simp_all add: example_keyFunc_def)
  have its: "keyItems example_keyFunc id [] Map.empty = Inr Map.empty" by simp
  have u: "store_contents (Store (NewUndeltaStore example_keyFunc)) = Map.empty"
    "pushed (NewUndeltaStore example_keyFunc) = []"
    by (simp_all add: NewUndeltaStore_def NewStore_def NewThreadSafeStore_def)
  show ?thesis
    using undelta_pushes_complete_state [OF sorted_range_ok inv keys(1) _ its _ keys(2)]
    unfolding u by auto
qed

end
