(* ===== verification/Expiration_Cache.thy ===== *)
theory Expiration_Cache
  imports Cache_Store
begin

text \<open>
  \<^verbatim>\<open>pkg/client/cache/expiration_cache.go\<close>: a store whose entries carry the time of their
  insertion and are dropped lazily, when they are read after their time to live.

  A read of the clock is an argument: \<open>now\<close> for an operation that reads it at most once, and
  \<open>clock i\<close> for the \<open>i\<close>-th read of \<^verbatim>\<open>List\<close>.  Times are integers (nanoseconds).  The storage
  holds pointers to \<^verbatim>\<open>timestampedEntry\<close> only, so its object type is that record, and the type
  assertion of \<^verbatim>\<open>List\<close> fails, with a panic, exactly on a nil object.
\<close>

section \<open>State and operations\<close>

record 'o timestampedEntry =
  obj :: "'o iface"
  timestamp :: int

record TTLPolicy =
  Ttl :: int

definition TTLPolicy_IsExpired :: "int \<Rightarrow> TTLPolicy \<Rightarrow> 'o timestampedEntry \<Rightarrow> bool" where
  "TTLPolicy_IsExpired now p e \<longleftrightarrow> Ttl p > 0 \<and> now - timestamp e > Ttl p"

record 'o ExpirationCache =
  storage :: "'o timestampedEntry threadSafeMap"
  xKeyFunc :: "'o KeyFunc"
  expirationPolicy :: TTLPolicy

definition NewTTLStore :: "'o KeyFunc \<Rightarrow> int \<Rightarrow> 'o ExpirationCache" where
  "NewTTLStore kf ttl = \<lparr>storage = NewThreadSafeStore Map.empty Map.empty, xKeyFunc = kf,
     expirationPolicy = \<lparr>Ttl = ttl\<rparr>\<rparr>"

definition getTimestampedEntry :: "key \<Rightarrow> 'o ExpirationCache \<Rightarrow> 'o timestampedEntry option" where
  "getTimestampedEntry key c = (let (item, _) = threadSafeMap_Get key (storage c) in item)"

definition getOrExpire ::
  "int \<Rightarrow> key \<Rightarrow> 'o ExpirationCache \<Rightarrow> ('o iface \<times> bool) \<times> 'o ExpirationCache" where
  "getOrExpire now key c =
     (case getTimestampedEntry key c of
        None \<Rightarrow> ((None, False), c)
      | Some timestampedItem \<Rightarrow>
          if TTLPolicy_IsExpired now (expirationPolicy c) timestampedItem
          then ((None, False), c\<lparr>storage := threadSafeMap_Delete [] key (storage c)\<rparr>)
          else ((obj timestampedItem, True), c))"

definition ExpirationCache_GetByKey ::
  "int \<Rightarrow> key \<Rightarrow> 'o ExpirationCache \<Rightarrow> ('o iface \<times> bool) \<times> 'o ExpirationCache" where
  "ExpirationCache_GetByKey now key c = getOrExpire now key c"

definition ExpirationCache_Get ::
  "int \<Rightarrow> 'o iface \<Rightarrow> 'o ExpirationCache \<Rightarrow> ('o KeyError + 'o iface \<times> bool) \<times> 'o ExpirationCache" where
  "ExpirationCache_Get now ob c =
     (case xKeyFunc c ob of
        Inl err \<Rightarrow> (Inl (KeyError ob err), c)
      | Inr key \<Rightarrow> (let (r, c') = getOrExpire now key c in (Inr r, c')))"

fun ExpirationCache_List_loop ::
  "(nat \<Rightarrow> int) \<Rightarrow> nat \<Rightarrow> 'o timestampedEntry iface list \<Rightarrow> 'o iface list \<Rightarrow> 'o ExpirationCache
     \<Rightarrow> 'o iface list option \<times> 'o ExpirationCache" where
  "ExpirationCache_List_loop clock i [] list c = (Some list, c)"
| "ExpirationCache_List_loop clock i (None # its) list c = (None, c)"
| "ExpirationCache_List_loop clock i (Some item # its) list c =
     (case xKeyFunc c (obj item) of
        Inl err \<Rightarrow> ExpirationCache_List_loop clock (Suc i) its (list @ [obj item]) c
      | Inr key \<Rightarrow>
          (let ((ob, exists), c') = getOrExpire (clock i) key c
           in ExpirationCache_List_loop clock (Suc i) its (if exists then list @ [ob] else list) c'))"

definition ExpirationCache_List ::
  "(key, 'o timestampedEntry iface) go_range \<Rightarrow> (nat \<Rightarrow> int) \<Rightarrow> 'o ExpirationCache
     \<Rightarrow> 'o iface list option \<times> 'o ExpirationCache" where
  "ExpirationCache_List rng clock c =
     ExpirationCache_List_loop clock 0 (threadSafeMap_List rng (storage c)) [] c"

definition ExpirationCache_ListKeys ::
  "(key, 'o timestampedEntry iface) go_range \<Rightarrow> 'o ExpirationCache \<Rightarrow> key list" where
  "ExpirationCache_ListKeys rng c = threadSafeMap_ListKeys rng (storage c)"

definition ExpirationCache_Add ::
  "int \<Rightarrow> 'o iface \<Rightarrow> 'o ExpirationCache \<Rightarrow> 'o KeyError option \<times> 'o ExpirationCache" where
  "ExpirationCache_Add now ob c =
     (case xKeyFunc c ob of
        Inl err \<Rightarrow> (Some (KeyError ob err), c)
      | Inr key \<Rightarrow> (None, c\<lparr>storage := threadSafeMap_Add [] [] key
                              (Some \<lparr>obj = ob, timestamp = now\<rparr>) (storage c)\<rparr>))"

definition ExpirationCache_Update ::
  "int \<Rightarrow> 'o iface \<Rightarrow> 'o ExpirationCache \<Rightarrow> 'o KeyError option \<times> 'o ExpirationCache" where
  "ExpirationCache_Update now ob c = ExpirationCache_Add now ob c"

definition ExpirationCache_Delete ::
  "'o iface \<Rightarrow> 'o ExpirationCache \<Rightarrow> 'o KeyError option \<times> 'o ExpirationCache" where
  "ExpirationCache_Delete ob c =
     (case xKeyFunc c ob of
        Inl err \<Rightarrow> (Some (KeyError ob err), c)
      | Inr key \<Rightarrow> (None, c\<lparr>storage := threadSafeMap_Delete [] key (storage c)\<rparr>))"

definition ExpirationCache_Replace ::
  "(key, 'o timestampedEntry iface) go_range \<Rightarrow> int \<Rightarrow> 'o iface list \<Rightarrow> 'o ExpirationCache
     \<Rightarrow> 'o KeyError option \<times> 'o ExpirationCache" where
  "ExpirationCache_Replace rng now list c =
     (case keyItems (xKeyFunc c) (\<lambda>item. Some \<lparr>obj = item, timestamp = now\<rparr>) list Map.empty of
        Inl (item, err) \<Rightarrow> (Some (KeyError item err), c)
      | Inr its \<Rightarrow> (None, c\<lparr>storage := threadSafeMap_Replace rng (\<lambda>_. []) its (storage c)\<rparr>))"

section \<open>Invariant\<close>

text \<open>Every entry is stored under the key of its object, and none is nil.\<close>

definition xcache_inv :: "'o ExpirationCache \<Rightarrow> bool" where
  "xcache_inv c \<longleftrightarrow> finite (dom (items (storage c)))
     \<and> (\<forall>k e. items (storage c) k = Some e \<longrightarrow> (\<exists>t. e = Some t \<and> xKeyFunc c (obj t) = Inr k))"

abbreviation entries_of :: "'o ExpirationCache \<Rightarrow> key \<rightharpoonup> 'o timestampedEntry iface" where
  "entries_of c \<equiv> items (storage c)"

lemma getTimestampedEntry_eq: "getTimestampedEntry key c = item_at (storage c) key"
  by (simp add: getTimestampedEntry_def threadSafeMap_Get_def)

lemma xcache_inv_NewTTLStore [go_inv]: "xcache_inv (NewTTLStore kf ttl)"
  by (simp add: xcache_inv_def NewTTLStore_def NewThreadSafeStore_def)

lemma xcache_inv_delete:
  "xcache_inv c \<Longrightarrow> xcache_inv (c\<lparr>storage := threadSafeMap_Delete ps key (storage c)\<rparr>)"
  by (auto simp: xcache_inv_def)

lemma xcache_inv_getOrExpire [go_inv]: "xcache_inv c \<Longrightarrow> xcache_inv (snd (getOrExpire now key c))"
  by (auto simp: getOrExpire_def xcache_inv_delete split: option.splits)

lemma xcache_inv_Add [go_inv]: "xcache_inv c \<Longrightarrow> xcache_inv (snd (ExpirationCache_Add now ob c))"
  by (auto simp: ExpirationCache_Add_def xcache_inv_def split: sum.splits)

lemma xcache_inv_Delete [go_inv]: "xcache_inv c \<Longrightarrow> xcache_inv (snd (ExpirationCache_Delete ob c))"
  by (auto simp: ExpirationCache_Delete_def xcache_inv_delete split: sum.splits)

lemma xcache_inv_Replace [go_inv]:
  assumes "xcache_inv c"
  shows "xcache_inv (snd (ExpirationCache_Replace rng now list c))"
proof (cases "keyItems (xKeyFunc c) (\<lambda>item. Some \<lparr>obj = item, timestamp = now\<rparr>) list Map.empty")
  case (Inl p)
  then show ?thesis using assms by (cases p) (simp add: ExpirationCache_Replace_def)
next
  case (Inr its)
  have "\<exists>t. e = Some t \<and> xKeyFunc c (obj t) = Inr k" if "its k = Some e" for k e
    using keyItems_keys [OF Inr that] by fastforce
  moreover have "finite (dom its)" using keyItems_dom [OF Inr] by simp
  ultimately show ?thesis by (simp add: ExpirationCache_Replace_def Inr xcache_inv_def)
qed

section \<open>Reading and purging\<close>

text \<open>The entry under a key has outlived the time to live.\<close>

definition expired :: "int \<Rightarrow> 'o ExpirationCache \<Rightarrow> key \<Rightarrow> bool" where
  "expired now c k \<longleftrightarrow>
     (\<exists>e. entries_of c k = Some (Some e) \<and> TTLPolicy_IsExpired now (expirationPolicy c) e)"

lemma getOrExpire_live:
  assumes "entries_of c k = Some (Some e)" and "\<not> expired now c k"
  shows "getOrExpire now k c = ((obj e, True), c)"
  using assms by (auto simp: getOrExpire_def getTimestampedEntry_eq item_at_def expired_def)

lemma getOrExpire_dead:
  assumes "expired now c k"
  shows "fst (getOrExpire now k c) = (None, False)
    \<and> entries_of (snd (getOrExpire now k c)) = (entries_of c)(k := None)"
  using assms by (auto simp: getOrExpire_def getTimestampedEntry_eq item_at_def expired_def)

lemma getOrExpire_absent:
  assumes "entries_of c k = None"
  shows "getOrExpire now k c = ((None, False), c)"
  using assms by (simp add: getOrExpire_def getTimestampedEntry_eq item_at_def)

lemma getOrExpire_frame [simp]:
  "xKeyFunc (snd (getOrExpire now k c)) = xKeyFunc c"
  "expirationPolicy (snd (getOrExpire now k c)) = expirationPolicy c"
  by (auto simp: getOrExpire_def split: option.splits)

text \<open>
  The loop of \<^verbatim>\<open>List\<close> over entries \<open>es\<close> that are all still stored, with a clock that stands
  still: it returns the objects that have not expired and removes the others.
\<close>

lemma List_loop_spec:
  assumes "xcache_inv c" and "distinct (map fst es)"
    and "\<And>k e. (k, e) \<in> set es \<Longrightarrow> entries_of c k = Some e"
  shows "\<exists>c'. ExpirationCache_List_loop (\<lambda>_. now) i (map snd es) list c
      = (Some (list @ map (\<lambda>(k, e). obj (the e)) (filter (\<lambda>(k, e). \<not> expired now c k) es)), c')
    \<and> xcache_inv c'
    \<and> entries_of c' = (\<lambda>k. if k \<in> fst ` set es \<and> expired now c k then None else entries_of c k)"
  using assms
proof (induction es arbitrary: i list c)
  case (Cons ke es)
  obtain k e0 where ke: "ke = (k, e0)" by fastforce
  have ck: "entries_of c k = Some e0" using Cons.prems(3) ke by simp
  then obtain e where e: "e0 = Some e" and kf: "xKeyFunc c (obj e) = Inr k"
    using Cons.prems(1) unfolding xcache_inv_def by blast
  have dist: "distinct (map fst es)" and new: "k \<notin> fst ` set es" using Cons.prems(2) ke by auto
  define c1 where "c1 = snd (getOrExpire now k c)"
  have inv1: "xcache_inv c1" unfolding c1_def by (rule xcache_inv_getOrExpire [OF Cons.prems(1)])
  have pol: "expirationPolicy c1 = expirationPolicy c" by (simp add: c1_def)
  have ent: "entries_of c1 = (if expired now c k then (entries_of c)(k := None) else entries_of c)"
    using getOrExpire_live [OF ck [unfolded e]] getOrExpire_dead [of now c k]
    by (auto simp: c1_def)
  have same: "k' \<noteq> k \<Longrightarrow> expired now c1 k' = expired now c k'" for k'
    using ent by (simp add: expired_def pol split: if_splits)
  have es1: "(k', e') \<in> set es \<Longrightarrow> entries_of c1 k' = Some e'" for k' e'
    using Cons.prems(3) ke new ent by (force split: if_splits)
  have flt: "filter (\<lambda>(k, e). \<not> expired now c1 k) es = filter (\<lambda>(k, e). \<not> expired now c k) es"
  proof (intro filter_cong refl)
    fix x assume "x \<in> set es"
    then have "fst x \<noteq> k" using new by auto
    then show "(case x of (k, e) \<Rightarrow> \<not> expired now c1 k) = (case x of (k, e) \<Rightarrow> \<not> expired now c k)"
      using same by (cases x) simp
  qed
  have step: "ExpirationCache_List_loop (\<lambda>_. now) i (map snd (ke # es)) list c
    = ExpirationCache_List_loop (\<lambda>_. now) (Suc i) (map snd es)
        (if expired now c k then list else list @ [obj e]) c1"
    using getOrExpire_live [OF ck [unfolded e], of now] getOrExpire_dead [of now c k]
    by (cases "getOrExpire now k c") (auto simp: ke e kf c1_def)
  have comb: "(\<lambda>x. if x \<in> fst ` set es \<and> expired now c1 x then None else entries_of c1 x)
    = (\<lambda>x. if x \<in> fst ` set (ke # es) \<and> expired now c x then None else entries_of c x)"
  proof
    fix x
    show "(if x \<in> fst ` set es \<and> expired now c1 x then None else entries_of c1 x)
      = (if x \<in> fst ` set (ke # es) \<and> expired now c x then None else entries_of c x)"
      using new ent same [of x] by (cases "x = k") (auto simp: ke)
  qed
  show ?case
    using Cons.IH [OF inv1 dist es1, of "Suc i" "if expired now c k then list else list @ [obj e]"]
    unfolding step flt comb by (cases "expired now c k") (simp_all add: ke e)
qed auto

text \<open>
  \<^verbatim>\<open>Get\<close> and \<^verbatim>\<open>GetByKey\<close> return an entry exactly when it is stored and at most as old as
  the time to live, and remove it when it is older; an entry that is read is otherwise left
  alone, and no other entry changes.
\<close>

theorem expiration_get:
  assumes "xcache_inv c"
  shows "ExpirationCache_GetByKey now k c =
      (if entries_of c k = None then ((None, False), c)
       else if expired now c k then ((None, False), c\<lparr>storage := threadSafeMap_Delete [] k (storage c)\<rparr>)
       else ((obj (the (the (entries_of c k))), True), c))
    \<and> xcache_inv (snd (ExpirationCache_GetByKey now k c))"
proof
  show "ExpirationCache_GetByKey now k c =
      (if entries_of c k = None then ((None, False), c)
       else if expired now c k then ((None, False), c\<lparr>storage := threadSafeMap_Delete [] k (storage c)\<rparr>)
       else ((obj (the (the (entries_of c k))), True), c))"
  proof (cases "entries_of c k")
    case None
    then show ?thesis by (simp add: ExpirationCache_GetByKey_def getOrExpire_absent)
  next
    case (Some e0)
    then obtain e where "e0 = Some e" using assms unfolding xcache_inv_def by blast
    with Some show ?thesis
      by (auto simp: ExpirationCache_GetByKey_def getOrExpire_def getTimestampedEntry_eq
          item_at_def expired_def)
  qed
  show "xcache_inv (snd (ExpirationCache_GetByKey now k c))"
    unfolding ExpirationCache_GetByKey_def using assms by (rule xcache_inv_getOrExpire)
qed

definition example_xcache :: "string ExpirationCache" where
  "example_xcache = snd (ExpirationCache_Add 100 (Some ''a'') (NewTTLStore example_keyFunc 10))"

lemma example_xcache_inv: "xcache_inv example_xcache"
  unfolding example_xcache_def by (intro go_inv)

theorem expiration_get_witness:
  "fst (ExpirationCache_GetByKey 110 ''a'' example_xcache) = (Some ''a'', True)
    \<and> fst (ExpirationCache_GetByKey 111 ''a'' example_xcache) = (None, False)"
proof -
  have e: "entries_of example_xcache ''a'' = Some (Some \<lparr>obj = Some ''a'', timestamp = 100\<rparr>)"
    and p: "expirationPolicy example_xcache = \<lparr>Ttl = 10\<rparr>"
    by (simp_all add: example_xcache_def ExpirationCache_Add_def NewTTLStore_def example_keyFunc_def)
  show ?thesis
    using expiration_get [OF example_xcache_inv, of 110 "''a''"]
      expiration_get [OF example_xcache_inv, of 111 "''a''"]
    by (simp add: e p expired_def TTLPolicy_IsExpired_def)
qed

text \<open>
  \<^verbatim>\<open>List\<close> does not panic; at a fixed time it returns the objects of exactly the entries
  that have not expired, one per entry, and leaves exactly those entries in the store.
\<close>

theorem expiration_list_purges:
  assumes "xcache_inv c" and "go_range_ok rng"
  shows "\<exists>ks c'. ExpirationCache_List rng (\<lambda>_. now) c
      = (Some (map (\<lambda>k. obj (the (the (entries_of c k)))) ks), c')
    \<and> set_order ks {k \<in> dom (entries_of c). \<not> expired now c k}
    \<and> entries_of c' = entries_of c |` {k. \<not> expired now c k} \<and> xcache_inv c'"
proof -
  have fin: "finite (dom (entries_of c))" using assms(1) by (simp add: xcache_inv_def)
  note es = go_rangeD [OF assms(2) fin]
  define es' where "es' = rng (entries_of c)"
  define ks where "ks = map fst (filter (\<lambda>(k, e). \<not> expired now c k) es')"
  have mem: "(k, e) \<in> set es' \<longleftrightarrow> entries_of c k = Some e" for k e
    unfolding es'_def by (rule map_entries_mem [OF es])
  obtain c' where loop: "ExpirationCache_List_loop (\<lambda>_. now) 0 (map snd es') [] c
      = (Some ([] @ map (\<lambda>(k, e). obj (the e)) (filter (\<lambda>(k, e). \<not> expired now c k) es')), c')"
    and inv': "xcache_inv c'"
    and ent': "entries_of c' = (\<lambda>k. if k \<in> fst ` set es' \<and> expired now c k then None else entries_of c k)"
    using List_loop_spec [OF assms(1), of es' now 0 "[]"] mem map_entries_distinct [OF es]
    unfolding es'_def by blast
  have "map (\<lambda>(k, e). obj (the e)) (filter (\<lambda>(k, e). \<not> expired now c k) es')
    = map (\<lambda>k. obj (the (the (entries_of c k)))) ks"
    unfolding ks_def map_map using mem by (intro map_cong) (auto simp: comp_def)
  then have "ExpirationCache_List rng (\<lambda>_. now) c
      = (Some (map (\<lambda>k. obj (the (the (entries_of c k)))) ks), c')"
    using loop by (simp add: ExpirationCache_List_def threadSafeMap_List_eq es'_def)
  moreover have "set_order ks {k \<in> dom (entries_of c). \<not> expired now c k}"
    using mem map_entries_distinct [OF es] unfolding ks_def set_order_def es'_def
    by (auto simp: distinct_map_filter image_iff)
  moreover have "fst ` set es' = dom (entries_of c)"
    unfolding es'_def by (rule map_entries_dom [OF es])
  then have "entries_of c' = entries_of c |` {k. \<not> expired now c k}"
    unfolding ent' by (auto simp: fun_eq_iff restrict_map_def expired_def)
  ultimately show ?thesis using inv' by blast
qed

theorem expiration_list_purges_witness:
  "\<exists>ks c'. ExpirationCache_List sorted_range (\<lambda>_. 105) example_xcache
      = (Some (map (\<lambda>k. obj (the (the (entries_of example_xcache k)))) ks), c')
    \<and> set_order ks {k \<in> dom (entries_of example_xcache). \<not> expired 105 example_xcache k}"
  using expiration_list_purges [OF example_xcache_inv sorted_range_ok, of 105] by blast

end
