(* ===== verification/Queue_Interface.thy ===== *)
theory Queue_Interface
  imports Prelude
begin

text \<open>
  The \<^verbatim>\<open>Queue\<close> interface of \<^verbatim>\<open>pkg/client/cache/fifo.go\<close> as the consumers of the queues see it:
  \<^verbatim>\<open>Pop\<close> takes the first pending key, hands out what is stored under it and removes it.  Both
  \<^verbatim>\<open>FIFO\<close> and \<^verbatim>\<open>DeltaFIFO\<close> implement it; the lemmas on draining a queue are proved once, here.

  Also here: the first-occurrence view of a queue of keys, in which a key that is queued
  twice counts where it stands first.
\<close>

section \<open>Keys in order of their first occurrence\<close>

definition firsts :: "'k list \<Rightarrow> 'k list" where
  "firsts ks = rev (remdups (rev ks))"

lemma firsts_Nil [simp]: "firsts [] = []"
  by (simp add: firsts_def)

lemma set_firsts [simp]: "set (firsts ks) = set ks"
  by (simp add: firsts_def)

lemma distinct_firsts [simp]: "distinct (firsts ks)"
  by (simp add: firsts_def)

lemma firsts_snoc: "firsts (ks @ [k]) = (if k \<in> set ks then firsts ks else firsts ks @ [k])"
  by (simp add: firsts_def)

lemma firsts_Cons: "firsts (k # ks) = k # filter (\<lambda>x. x \<noteq> k) (firsts ks)"
proof (induction ks rule: rev_induct)
  case (snoc x xs)
  have "firsts (k # xs @ [x]) = (if x \<in> set (k # xs) then firsts (k # xs) else firsts (k # xs) @ [x])"
    using firsts_snoc [of "k # xs" x] by simp
  then show ?case using snoc by (auto simp: firsts_snoc)
qed (simp add: firsts_def)

lemma firsts_distinct: "distinct ks \<Longrightarrow> firsts ks = ks"
  by (simp add: firsts_def distinct_remdups_id)

definition pending_keys :: "'k list \<Rightarrow> ('k \<rightharpoonup> 'v) \<Rightarrow> 'k list" where
  "pending_keys ks m = filter (\<lambda>k. k \<in> dom m) (firsts ks)"

lemma distinct_pending_keys [simp]: "distinct (pending_keys ks m)"
  by (simp add: pending_keys_def)

lemma set_pending_keys: "dom m \<subseteq> set ks \<Longrightarrow> set (pending_keys ks m) = dom m"
  by (auto simp: pending_keys_def)

lemma pending_keys_skip: "k \<notin> dom m \<Longrightarrow> pending_keys (k # ks) m = pending_keys ks m"
  by (auto simp: pending_keys_def firsts_Cons intro: filter_cong)

lemma pending_keys_take:
  "k \<in> dom m \<Longrightarrow> pending_keys (k # ks) m = k # pending_keys ks (m(k := None))"
  by (auto simp: pending_keys_def firsts_Cons intro!: filter_cong)

lemma pending_keys_snoc: "k \<notin> set ks \<Longrightarrow> dom m \<subseteq> set ks \<Longrightarrow>
    pending_keys (ks @ [k]) (m(k \<mapsto> v)) = pending_keys ks m @ [k]"
  by (auto simp: pending_keys_def firsts_snoc intro!: filter_cong)

lemma pending_keys_update: "k \<in> dom m \<Longrightarrow> pending_keys ks (m(k \<mapsto> v)) = pending_keys ks m"
  by (auto simp: pending_keys_def intro: filter_cong)

section \<open>The interface\<close>

locale go_queue =
  fixes pop :: "'q \<Rightarrow> 'v option \<times> 'q"
    and contents :: "'q \<Rightarrow> key \<rightharpoonup> 'v"
    and pending :: "'q \<Rightarrow> key list"
    and invar :: "'q \<Rightarrow> bool"
  assumes pending_set: "invar q \<Longrightarrow> set (pending q) = dom (contents q)"
    and pending_distinct: "invar q \<Longrightarrow> distinct (pending q)"
    and pop_blocks: "invar q \<Longrightarrow> pending q = [] \<Longrightarrow> fst (pop q) = None"
    and pop_first: "invar q \<Longrightarrow> pending q = k # ks \<Longrightarrow>
      \<exists>v q'. pop q = (Some v, q') \<and> contents q k = Some v \<and> contents q' = (contents q)(k := None)
        \<and> pending q' = ks \<and> invar q'"
begin

text \<open>Popping \<open>n\<close> times.\<close>

fun pops :: "nat \<Rightarrow> 'q \<Rightarrow> 'v option list \<times> 'q" where
  "pops 0 q = ([], q)"
| "pops (Suc n) q = (let (r, q') = pop q; (rs, q'') = pops n q' in (r # rs, q''))"

lemma pop_returns_iff: "invar q \<Longrightarrow> fst (pop q) \<noteq> None \<longleftrightarrow> contents q \<noteq> Map.empty"
  using pop_blocks [of q] pop_first [of q] pending_set [of q]
  by (cases "pending q") fastforce+

lemma pops_take:
  "invar q \<Longrightarrow> n \<le> length (pending q) \<Longrightarrow>
   \<exists>q'. pops n q = (map (contents q) (take n (pending q)), q') \<and> invar q'
     \<and> pending q' = drop n (pending q)
     \<and> contents q' = (\<lambda>k. if k \<in> set (take n (pending q)) then None else contents q k)"
proof (induction n arbitrary: q)
  case (Suc n)
  then obtain k ks where p: "pending q = k # ks" by (cases "pending q") auto
  obtain v q1 where q1: "pop q = (Some v, q1)" "contents q k = Some v"
    "contents q1 = (contents q)(k := None)" "pending q1 = ks" "invar q1"
    using pop_first [OF Suc.prems(1) p] by blast
  have k: "k \<notin> set ks" using pending_distinct [OF Suc.prems(1)] p by simp
  have n: "n \<le> length (pending q1)" using Suc.prems(2) p q1 by simp
  obtain q2 where q2: "pops n q1 = (map (contents q1) (take n ks), q2)" "invar q2"
    "pending q2 = drop n ks"
    "contents q2 = (\<lambda>k. if k \<in> set (take n ks) then None else contents q1 k)"
    using Suc.IH [OF q1(5) n] q1(4) by auto
  have "map (contents q1) (take n ks) = map (contents q) (take n ks)"
    using k q1(3) by (auto dest: in_set_takeD)
  then show ?case using q1 q2 p by (auto simp: fun_eq_iff)
qed simp

text \<open>Draining: every stored value comes out once, in the order of the pending keys.\<close>

lemma pops_drain:
  assumes "invar q"
  shows "\<exists>q'. pops (card (dom (contents q))) q = (map (contents q) (pending q), q')
    \<and> contents q' = Map.empty \<and> invar q'"
proof -
  have len: "card (dom (contents q)) = length (pending q)"
    using pending_set [OF assms] pending_distinct [OF assms] by (metis distinct_card)
  show ?thesis
    using pops_take [OF assms, of "length (pending q)"] pending_set [OF assms]
    unfolding len by (auto simp: fun_eq_iff)
qed

end

end
