(* ===== verification/Fifo.thy ===== *)
theory Fifo
  imports Queue_Interface Cache_Store
begin

text \<open>
  \<^verbatim>\<open>pkg/client/cache/fifo.go\<close>: a store that hands its items out in the order of their keys'
  first insertion, the latest version of each.

  A method that holds the lock is one step.  \<^verbatim>\<open>Pop\<close> waits on the condition variable when it has
  run out of queued keys; the model returns \<^verbatim>\<open>None\<close> there, with the state it waits in.
\<close>

section \<open>State and operations\<close>

record 'o FIFO =
  fifo_items :: "key \<rightharpoonup> 'o"
  fifo_queue :: "key list"
  fifo_populated :: bool
  fifo_initialPopulationCount :: int
  fifo_keyFunc :: "'o \<Rightarrow> go_error + key"

datatype 'o FIFO_error = FIFO_KeyError 'o go_error

definition NewFIFO :: "('o \<Rightarrow> go_error + key) \<Rightarrow> 'o FIFO" where
  "NewFIFO kf = \<lparr>fifo_items = Map.empty, fifo_queue = [], fifo_populated = False,
     fifo_initialPopulationCount = 0, fifo_keyFunc = kf\<rparr>"

definition FIFO_HasSynced :: "'o FIFO \<Rightarrow> bool" where
  "FIFO_HasSynced f \<longleftrightarrow> fifo_populated f \<and> fifo_initialPopulationCount f = 0"

definition FIFO_Add :: "'o \<Rightarrow> 'o FIFO \<Rightarrow> 'o FIFO_error option \<times> 'o FIFO" where
  "FIFO_Add obj f =
     (case fifo_keyFunc f obj of
        Inl err \<Rightarrow> (Some (FIFO_KeyError obj err), f)
      | Inr oid \<Rightarrow>
          (let f = f\<lparr>fifo_populated := True\<rparr>;
               f = (if fifo_items f oid = None then f\<lparr>fifo_queue := fifo_queue f @ [oid]\<rparr> else f)
           in (None, f\<lparr>fifo_items := (fifo_items f)(oid \<mapsto> obj)\<rparr>)))"

definition FIFO_AddIfNotPresent :: "'o \<Rightarrow> 'o FIFO \<Rightarrow> 'o FIFO_error option \<times> 'o FIFO" where
  "FIFO_AddIfNotPresent obj f =
     (case fifo_keyFunc f obj of
        Inl err \<Rightarrow> (Some (FIFO_KeyError obj err), f)
      | Inr oid \<Rightarrow>
          (let f = f\<lparr>fifo_populated := True\<rparr>
           in if fifo_items f oid \<noteq> None then (None, f)
              else (None, f\<lparr>fifo_queue := fifo_queue f @ [oid],
                            fifo_items := (fifo_items f)(oid \<mapsto> obj)\<rparr>)))"

definition FIFO_Update :: "'o \<Rightarrow> 'o FIFO \<Rightarrow> 'o FIFO_error option \<times> 'o FIFO" where
  "FIFO_Update obj f = FIFO_Add obj f"

definition FIFO_Delete :: "'o \<Rightarrow> 'o FIFO \<Rightarrow> 'o FIFO_error option \<times> 'o FIFO" where
  "FIFO_Delete obj f =
     (case fifo_keyFunc f obj of
        Inl err \<Rightarrow> (Some (FIFO_KeyError obj err), f)
      | Inr oid \<Rightarrow> (None, f\<lparr>fifo_populated := True, fifo_items := (fifo_items f)(oid := None)\<rparr>))"

definition FIFO_List :: "(key, 'o) go_range \<Rightarrow> 'o FIFO \<Rightarrow> 'o list" where
  "FIFO_List rng f = fold (\<lambda>(key, item) list. list @ [item]) (rng (fifo_items f)) []"

definition FIFO_ListKeys :: "(key, 'o) go_range \<Rightarrow> 'o FIFO \<Rightarrow> key list" where
  "FIFO_ListKeys rng f = fold (\<lambda>(key, item) list. list @ [key]) (rng (fifo_items f)) []"

definition FIFO_GetByKey :: "key \<Rightarrow> 'o FIFO \<Rightarrow> 'o option" where
  "FIFO_GetByKey key f = fifo_items f key"

definition FIFO_Get :: "'o \<Rightarrow> 'o FIFO \<Rightarrow> 'o FIFO_error + 'o option" where
  "FIFO_Get obj f =
     (case fifo_keyFunc f obj of
        Inl err \<Rightarrow> Inl (FIFO_KeyError obj err)
      | Inr key \<Rightarrow> Inr (FIFO_GetByKey key f))"

text \<open>The head of the queue is taken off and the population count goes down.\<close>

definition FIFO_dequeue :: "key list \<Rightarrow> 'o FIFO \<Rightarrow> 'o FIFO" where
  "FIFO_dequeue rest f =
     (let f = f\<lparr>fifo_queue := rest\<rparr>
      in if fifo_initialPopulationCount f > 0
         then f\<lparr>fifo_initialPopulationCount := fifo_initialPopulationCount f - 1\<rparr> else f)"

fun FIFO_Pop_loop :: "key list \<Rightarrow> 'o FIFO \<Rightarrow> 'o option \<times> 'o FIFO" where
  "FIFO_Pop_loop [] f = (None, f)"
| "FIFO_Pop_loop (oid # rest) f =
     (let f = FIFO_dequeue rest f
      in case fifo_items f oid of
           None \<Rightarrow> FIFO_Pop_loop rest f
         | Some item \<Rightarrow> (Some item, f\<lparr>fifo_items := (fifo_items f)(oid := None)\<rparr>))"

definition FIFO_Pop :: "'o FIFO \<Rightarrow> 'o option \<times> 'o FIFO" where
  "FIFO_Pop f = FIFO_Pop_loop (fifo_queue f) f"

definition FIFO_Replace ::
  "(key, 'o) go_range \<Rightarrow> 'o list \<Rightarrow> 'o FIFO \<Rightarrow> 'o FIFO_error option \<times> 'o FIFO" where
  "FIFO_Replace rng list f =
     (case keyItems (fifo_keyFunc f) id list Map.empty of
        Inl (item, err) \<Rightarrow> (Some (FIFO_KeyError item err), f)
      | Inr its \<Rightarrow>
          (let f = (if \<not> fifo_populated f
                    then f\<lparr>fifo_populated := True,
                           fifo_initialPopulationCount := int (card (dom its))\<rparr>
                    else f);
               f = f\<lparr>fifo_items := its, fifo_queue := []\<rparr>
           in (None, f\<lparr>fifo_queue := fold (\<lambda>(oid, _) queue. queue @ [oid]) (rng its) (fifo_queue f)\<rparr>)))"

section \<open>Invariant\<close>

text \<open>
  The comment on \<^verbatim>\<open>items\<close> says that the items in the set are in the queue \<^emph>\<open>and vice versa\<close>.
  The first half is an invariant.  The second is not: \<^verbatim>\<open>Delete\<close> leaves the key in the queue, and
  \<^verbatim>\<open>Pop\<close> skips it later.
\<close>

definition fifo_inv :: "'o FIFO \<Rightarrow> bool" where
  "fifo_inv f \<longleftrightarrow> dom (fifo_items f) \<subseteq> set (fifo_queue f) \<and> fifo_initialPopulationCount f \<ge> 0"

definition fifo_pending :: "'o FIFO \<Rightarrow> key list" where
  "fifo_pending f = pending_keys (fifo_queue f) (fifo_items f)"

lemma fifo_inv_New [go_inv]: "fifo_inv (NewFIFO kf)"
  by (simp add: fifo_inv_def NewFIFO_def)

lemma fifo_inv_Add [go_inv]: "fifo_inv f \<Longrightarrow> fifo_inv (snd (FIFO_Add obj f))"
  by (auto simp: fifo_inv_def FIFO_Add_def Let_def split: sum.splits)

lemma fifo_inv_AddIfNotPresent [go_inv]: "fifo_inv f \<Longrightarrow> fifo_inv (snd (FIFO_AddIfNotPresent obj f))"
  by (auto simp: fifo_inv_def FIFO_AddIfNotPresent_def Let_def split: sum.splits)

lemma fifo_inv_Delete [go_inv]: "fifo_inv f \<Longrightarrow> fifo_inv (snd (FIFO_Delete obj f))"
  by (auto simp: fifo_inv_def FIFO_Delete_def split: sum.splits)

lemma FIFO_Replace_ok:
  assumes "keyItems (fifo_keyFunc f) id list Map.empty = Inr its" and "go_range_ok rng"
  shows "\<exists>f'. FIFO_Replace rng list f = (None, f') \<and> fifo_items f' = its
    \<and> distinct (fifo_queue f') \<and> set (fifo_queue f') = dom its \<and> fifo_populated f'
    \<and> fifo_initialPopulationCount f' = (if fifo_populated f then fifo_initialPopulationCount f
        else int (card (dom its)))"
proof -
  have "map_entries (rng its) its" using go_rangeD [OF assms(2) keyItems_dom [OF assms(1)]] by simp
  from map_entries_distinct [OF this] map_entries_dom [OF this] show ?thesis
    by (simp add: FIFO_Replace_def assms(1) Let_def fold_append_fst)
qed

lemma fifo_inv_Replace [go_inv]:
  assumes "fifo_inv f" and "go_range_ok rng"
  shows "fifo_inv (snd (FIFO_Replace rng list f))"
proof (cases "keyItems (fifo_keyFunc f) id list Map.empty")
  case (Inl p)
  then show ?thesis using assms by (cases p) (simp add: FIFO_Replace_def)
next
  case (Inr its)
  then show ?thesis using FIFO_Replace_ok [OF Inr assms(2)] assms(1) by (auto simp: fifo_inv_def)
qed

section \<open>Pop\<close>

lemma FIFO_dequeue_simps [simp]:
  "fifo_items (FIFO_dequeue rest f) = fifo_items f"
  "fifo_queue (FIFO_dequeue rest f) = rest"
  "0 \<le> fifo_initialPopulationCount f \<Longrightarrow> 0 \<le> fifo_initialPopulationCount (FIFO_dequeue rest f)"
  by (simp_all add: FIFO_dequeue_def)

lemma FIFO_Pop_loop_blocks:
  "pending_keys ks (fifo_items f) = [] \<Longrightarrow> fst (FIFO_Pop_loop ks f) = None
     \<and> fifo_items (snd (FIFO_Pop_loop ks f)) = fifo_items f"
proof (induction ks arbitrary: f)
  case (Cons k rest)
  have no: "fifo_items f k = None"
    using Cons.prems pending_keys_take [of k "fifo_items f" rest] by fastforce
  then have "pending_keys rest (fifo_items f) = []"
    using Cons.prems by (simp add: pending_keys_skip domIff)
  then show ?case using Cons.IH [of "FIFO_dequeue rest f"] no by simp
qed simp

lemma FIFO_Pop_loop_count:
  "0 \<le> fifo_initialPopulationCount f \<Longrightarrow> 0 \<le> fifo_initialPopulationCount (snd (FIFO_Pop_loop ks f))"
  by (induction ks arbitrary: f) (auto simp: Let_def split: option.splits)

lemma FIFO_Pop_loop_first:
  assumes "pending_keys ks (fifo_items f) = k # later"
  shows "\<exists>v f'. FIFO_Pop_loop ks f = (Some v, f') \<and> fifo_items f k = Some v
     \<and> fifo_items f' = (fifo_items f)(k := None)
     \<and> pending_keys (fifo_queue f') (fifo_items f') = later
     \<and> (dom (fifo_items f) \<subseteq> set ks \<longrightarrow> dom (fifo_items f') \<subseteq> set (fifo_queue f'))"
  using assms
proof (induction ks arbitrary: f)
  case Nil
  then show ?case by (simp add: pending_keys_def)
next
  case (Cons k0 rest)
  show ?case
  proof (cases "fifo_items f k0")
    case None
    then have "pending_keys rest (fifo_items (FIFO_dequeue rest f)) = k # later"
      using Cons.prems by (simp add: pending_keys_skip domIff)
    moreover have "dom (fifo_items f) \<subseteq> set (k0 # rest) \<longleftrightarrow> dom (fifo_items f) \<subseteq> set rest"
      using None by auto
    ultimately show ?thesis using Cons.IH [of "FIFO_dequeue rest f"] None by simp
  next
    case (Some v)
    then have "k0 = k" and "pending_keys rest ((fifo_items f)(k := None)) = later"
      using Cons.prems pending_keys_take [of k0 "fifo_items f" rest] by auto
    then show ?thesis using Some by auto
  qed
qed

interpretation fifo: go_queue FIFO_Pop fifo_items fifo_pending fifo_inv
proof
  fix f :: "'a FIFO" and k ks
  assume inv: "fifo_inv f"
  show "set (fifo_pending f) = dom (fifo_items f)"
    using inv by (simp add: fifo_pending_def fifo_inv_def set_pending_keys)
  show "distinct (fifo_pending f)" by (simp add: fifo_pending_def)
  show "fifo_pending f = [] \<Longrightarrow> fst (FIFO_Pop f) = None"
    by (simp add: fifo_pending_def FIFO_Pop_def FIFO_Pop_loop_blocks)
  show "fifo_pending f = k # ks \<Longrightarrow> \<exists>v q'. FIFO_Pop f = (Some v, q') \<and> fifo_items f k = Some v
      \<and> fifo_items q' = (fifo_items f)(k := None) \<and> fifo_pending q' = ks \<and> fifo_inv q'"
    using FIFO_Pop_loop_first [of "fifo_queue f" f k ks] FIFO_Pop_loop_count [of f "fifo_queue f"] inv
    by (auto simp: fifo_pending_def FIFO_Pop_def fifo_inv_def)
qed

lemma fifo_inv_Pop [go_inv]: "fifo_inv f \<Longrightarrow> fifo_inv (snd (FIFO_Pop f))"
proof (cases "fifo_pending f")
  case Nil
  assume inv: "fifo_inv f"
  then have "fifo_items f = Map.empty" using Nil fifo.pending_set [OF inv] by auto
  then show ?thesis
    using inv FIFO_Pop_loop_blocks [of "fifo_queue f" f] FIFO_Pop_loop_count [of f] Nil
    by (simp add: fifo_inv_def FIFO_Pop_def fifo_pending_def)
next
  case (Cons k ks)
  assume "fifo_inv f"
  then show ?thesis using fifo.pop_first [OF _ Cons] by auto
qed

section \<open>The order of additions\<close>

lemma FIFO_Add_pending:
  assumes "fifo_inv f" and "fifo_keyFunc f obj = Inr k"
  shows "fifo_items (snd (FIFO_Add obj f)) = (fifo_items f)(k \<mapsto> obj)
    \<and> (k \<in> dom (fifo_items f) \<longrightarrow> fifo_pending (snd (FIFO_Add obj f)) = fifo_pending f)
    \<and> (k \<notin> set (fifo_queue f) \<longrightarrow> fifo_pending (snd (FIFO_Add obj f)) = fifo_pending f @ [k])"
proof -
  have sub: "dom (fifo_items f) \<subseteq> set (fifo_queue f)" using assms(1) by (simp add: fifo_inv_def)
  have "fifo_pending (snd (FIFO_Add obj f)) = fifo_pending f" if "k \<in> dom (fifo_items f)"
    using that assms(2) by (auto simp: FIFO_Add_def fifo_pending_def Let_def pending_keys_update)
  moreover have "fifo_pending (snd (FIFO_Add obj f)) = fifo_pending f @ [k]" if "k \<notin> set (fifo_queue f)"
  proof -
    have "fifo_items f k = None" using that sub by blast
    then show ?thesis
      using that sub assms(2) by (simp add: FIFO_Add_def fifo_pending_def Let_def pending_keys_snoc)
  qed
  ultimately show ?thesis using assms(2) by (simp add: FIFO_Add_def Let_def)
qed

text \<open>
  \<^verbatim>\<open>FIFO.Pop\<close> returns, instead of waiting, exactly when an item is stored, and popping as
  often as there are items hands out the latest version of every stored item exactly once,
  in the order of the keys, and leaves the store empty.  It holds in every state the methods
  of the queue can produce, since each of them keeps \<open>fifo_inv\<close> (next property).
\<close>

theorem FIFO_pop_drains:
  assumes "fifo_inv f"
  shows "(fst (FIFO_Pop f) \<noteq> None \<longleftrightarrow> fifo_items f \<noteq> Map.empty)
    \<and> distinct (fifo_pending f) \<and> set (fifo_pending f) = dom (fifo_items f)
    \<and> (\<exists>f'. fifo.pops (card (dom (fifo_items f))) f = (map (fifo_items f) (fifo_pending f), f')
         \<and> fifo_items f' = Map.empty \<and> fifo_inv f')"
  using fifo.pop_returns_iff [OF assms] fifo.pops_drain [OF assms] fifo.pending_set [OF assms]
    fifo.pending_distinct [OF assms] by blast

definition string_keyFunc :: "string \<Rightarrow> go_error + key" where
  "string_keyFunc s = (if s = [] then Inl ''no name'' else Inr s)"

theorem FIFO_pop_drains_witness:
  "fst (FIFO_Pop (snd (FIFO_Add ''a'' (NewFIFO string_keyFunc)))) \<noteq> None"
proof -
  have "fifo_inv (snd (FIFO_Add ''a'' (NewFIFO string_keyFunc)))" by (intro go_inv)
  from FIFO_pop_drains [OF this] show ?thesis
    by (simp add: FIFO_Add_def NewFIFO_def string_keyFunc_def Let_def)
qed

text \<open>
  Every method of \<^verbatim>\<open>FIFO\<close> keeps the invariant that a stored item's key is queued, so no item
  is stored without a \<^verbatim>\<open>Pop\<close> reaching it.
\<close>

theorem FIFO_methods_keep_inv:
  assumes "fifo_inv f" and "go_range_ok rng"
  shows "fifo_inv (snd (FIFO_Add obj f)) \<and> fifo_inv (snd (FIFO_Update obj f))
    \<and> fifo_inv (snd (FIFO_AddIfNotPresent obj f)) \<and> fifo_inv (snd (FIFO_Delete obj f))
    \<and> fifo_inv (snd (FIFO_Replace rng list f)) \<and> fifo_inv (snd (FIFO_Pop f))"
  using assms by (simp add: go_inv FIFO_Update_def)

theorem FIFO_methods_keep_inv_witness:
  "fifo_inv (snd (FIFO_Delete ''a'' (NewFIFO string_keyFunc)))"
  using FIFO_methods_keep_inv [OF fifo_inv_New sorted_range_ok, of "''a''" string_keyFunc] by simp

text \<open>
  Adding an object under a key that is not queued appends the key to the pending ones;
  adding under a stored key replaces the object and keeps the key's place.  So items come
  out in the order of their first addition, each in its latest version.
\<close>

theorem FIFO_add_order:
  assumes "fifo_inv f" and "fifo_keyFunc f obj = Inr k"
  shows "fifo_items (snd (FIFO_Add obj f)) = (fifo_items f)(k \<mapsto> obj)
    \<and> (k \<in> dom (fifo_items f) \<longrightarrow> fifo_pending (snd (FIFO_Add obj f)) = fifo_pending f)
    \<and> (k \<notin> set (fifo_queue f) \<longrightarrow> fifo_pending (snd (FIFO_Add obj f)) = fifo_pending f @ [k])"
  by (rule FIFO_Add_pending [OF assms])

theorem FIFO_add_order_witness:
  "fifo_pending (snd (FIFO_Add ''a'' (NewFIFO string_keyFunc))) = [''a'']"
proof -
  have k: "fifo_keyFunc (NewFIFO string_keyFunc) ''a'' = Inr ''a''"
    and q: "''a'' \<notin> set (fifo_queue (NewFIFO string_keyFunc))"
    and p: "fifo_pending (NewFIFO string_keyFunc) = []"
    by (simp_all add: NewFIFO_def string_keyFunc_def fifo_pending_def pending_keys_def)
  show ?thesis using FIFO_add_order [OF fifo_inv_New k] q p by simp
qed

text \<open>
  The order is not the one the comment on \<^verbatim>\<open>Pop\<close> promises once an item was deleted and
  added again: the key that \<^verbatim>\<open>Delete\<close> left in the queue gives the new item the deleted item's
  place, so it overtakes an item added before it.
\<close>

theorem FIFO_readded_item_overtakes:
  "let add = (\<lambda>o' f. snd (FIFO_Add o' f)); del = (\<lambda>o' f. snd (FIFO_Delete o' f));
       f = add ''a'' (del ''a'' (add ''b'' (add ''a'' (NewFIFO string_keyFunc))))
   in fifo_queue f = [''a'', ''b'', ''a''] \<and> fst (FIFO_Pop f) = Some ''a''"
  by (simp add: FIFO_Add_def FIFO_Delete_def NewFIFO_def FIFO_Pop_def string_keyFunc_def Let_def)

text \<open>
  \<^verbatim>\<open>HasSynced\<close> can stay false for good: a second \<^verbatim>\<open>Replace\<close> empties the queue and keeps the
  count of the first one, so after \<^verbatim>\<open>Replace [a, b]; Replace []\<close> nothing is stored, \<^verbatim>\<open>Pop\<close> waits,
  and \<^verbatim>\<open>HasSynced\<close> still reports that the first batch was not processed.
\<close>

theorem FIFO_replace_twice_never_synced:
  "let f1 = snd (FIFO_Replace (\<lambda>_. [(''a'', ''a''), (''b'', ''b'')]) [''a'', ''b''] (NewFIFO string_keyFunc));
       f2 = snd (FIFO_Replace (\<lambda>_. []) [] f1)
   in map_entries [(''a'', ''a''), (''b'', ''b'')] (fifo_items f1) \<and> map_entries [] (fifo_items f2)
      \<and> fst (FIFO_Pop f2) = None \<and> snd (FIFO_Pop f2) = f2 \<and> \<not> FIFO_HasSynced f2"
  by (simp add: FIFO_Replace_def NewFIFO_def FIFO_Pop_def FIFO_HasSynced_def string_keyFunc_def Let_def
      map_entries_def fun_eq_iff card_insert_if)

end
