(* ===== verification/Delta_Fifo.thy ===== *)
theory Delta_Fifo
  imports Fifo
begin

text \<open>
  \<^verbatim>\<open>pkg/client/cache/delta_fifo.go\<close>: the queue between a Reflector and an informer.  Under each
  key it collects the changes (deltas) of one object since the object was last popped.

  An \<^verbatim>\<open>interface{}\<close> value is a plain object, a \<^verbatim>\<open>DeletedFinalStateUnknown\<close> marker or a \<^verbatim>\<open>Deltas\<close>
  list, which \<^verbatim>\<open>KeyOf\<close> tells apart.  The known objects are another store, owned by the
  consumer: \<^verbatim>\<open>Delete\<close> and \<^verbatim>\<open>Replace\<close> take what it answers during the call.  The compressor is
  the optional function of the source.
\<close>

section \<open>Deltas\<close>

datatype DeltaType = Added | Updated | Deleted | Sync

datatype 'o object =
    Plain 'o
  | DeletedFinalStateUnknown key "'o object option"
  | DeltasObject "'o delta list"
and 'o delta = Delta (Type: DeltaType) (Object: "'o object")

type_synonym 'o Deltas = "'o delta list"

definition Deltas_Oldest :: "'o Deltas \<Rightarrow> 'o delta option" where
  "Deltas_Oldest d = (if length d > 0 then Some (d ! 0) else None)"

definition Deltas_Newest :: "'o Deltas \<Rightarrow> 'o delta option" where
  "Deltas_Newest d = (let n = length d in if n > 0 then Some (d ! (n - 1)) else None)"

definition copyDeltas :: "'o Deltas \<Rightarrow> 'o Deltas" where
  "copyDeltas d = take (length d) d"

fun isDFSU :: "'o object \<Rightarrow> bool" where
  "isDFSU (DeletedFinalStateUnknown _ _) = True"
| "isDFSU _ = False"

definition isDeletionDup :: "'o delta \<Rightarrow> 'o delta \<Rightarrow> 'o delta option" where
  "isDeletionDup a b =
     (if Type b \<noteq> Deleted \<or> Type a \<noteq> Deleted then None
      else if isDFSU (Object b) then Some a
      else Some b)"

definition isDup :: "'o delta \<Rightarrow> 'o delta \<Rightarrow> 'o delta option" where
  "isDup a b = (case isDeletionDup a b of Some out \<Rightarrow> Some out | None \<Rightarrow> None)"

definition dedupDeltas :: "'o Deltas \<Rightarrow> 'o Deltas" where
  "dedupDeltas deltas =
     (let n = length deltas
      in if n < 2 then deltas
         else let a = deltas ! (n - 1); b = deltas ! (n - 2)
              in case isDup a b of
                   Some out \<Rightarrow> take (n - 2) deltas @ [out]
                 | None \<Rightarrow> deltas)"

section \<open>The queue\<close>

datatype 'o delta_error =
    ErrKeyFunc go_error
  | ErrZeroLengthDeltasObject
  | ErrKey "'o object" "'o delta_error"
  | ErrNotDeltas "'o object"
  | ErrEnqueue "'o delta_error"
  | NilDereference \<comment> \<open>a panic, not an error value\<close>

record 'o DeltaFIFO =
  delta_items :: "key \<rightharpoonup> 'o Deltas"
  delta_queue :: "key list"
  delta_populated :: bool
  delta_initialPopulationCount :: int
  delta_keyFunc :: "'o object \<Rightarrow> go_error + key"
  deltaCompressor :: "('o Deltas \<Rightarrow> 'o Deltas) option"

text \<open>What the known objects answer: their keys, and for a key an error or the object, if any.\<close>

record 'o KeyListerGetter =
  ko_ListKeys :: "key list"
  ko_GetByKey :: "key \<Rightarrow> go_error + 'o object option"

definition NewDeltaFIFO ::
  "('o object \<Rightarrow> go_error + key) \<Rightarrow> ('o Deltas \<Rightarrow> 'o Deltas) option \<Rightarrow> 'o DeltaFIFO" where
  "NewDeltaFIFO kf compressor = \<lparr>delta_items = Map.empty, delta_queue = [], delta_populated = False,
     delta_initialPopulationCount = 0, delta_keyFunc = kf, deltaCompressor = compressor\<rparr>"

definition DeltaFIFO_KeyOf :: "'o DeltaFIFO \<Rightarrow> 'o object \<Rightarrow> 'o delta_error + key" where
  "DeltaFIFO_KeyOf f obj =
     (case (case obj of
              DeltasObject d \<Rightarrow> (case Deltas_Newest d of
                  None \<Rightarrow> Inl (ErrKey obj ErrZeroLengthDeltasObject)
                | Some newest \<Rightarrow> Inr (Object newest))
            | _ \<Rightarrow> Inr obj) of
        Inl err \<Rightarrow> Inl err
      | Inr (DeletedFinalStateUnknown key _) \<Rightarrow> Inr key
      | Inr ob \<Rightarrow> (case delta_keyFunc f ob of Inl err \<Rightarrow> Inl (ErrKeyFunc err) | Inr key \<Rightarrow> Inr key))"

definition DeltaFIFO_HasSynced :: "'o DeltaFIFO \<Rightarrow> bool" where
  "DeltaFIFO_HasSynced f \<longleftrightarrow> delta_populated f \<and> delta_initialPopulationCount f = 0"

definition queueActionLocked ::
  "DeltaType \<Rightarrow> 'o object \<Rightarrow> 'o DeltaFIFO \<Rightarrow> 'o delta_error option \<times> 'o DeltaFIFO" where
  "queueActionLocked actionType obj f =
     (case DeltaFIFO_KeyOf f obj of
        Inl err \<Rightarrow> (Some (ErrKey obj err), f)
      | Inr oid \<Rightarrow>
          (let newDeltas = (case delta_items f oid of None \<Rightarrow> [] | Some d \<Rightarrow> d) @ [Delta actionType obj];
               newDeltas = dedupDeltas newDeltas;
               newDeltas = (case deltaCompressor f of None \<Rightarrow> newDeltas | Some compress \<Rightarrow> compress newDeltas);
               exists = (delta_items f oid \<noteq> None)
           in (None,
               if length newDeltas > 0
               then (let f = (if \<not> exists then f\<lparr>delta_queue := delta_queue f @ [oid]\<rparr> else f)
                     in f\<lparr>delta_items := (delta_items f)(oid \<mapsto> newDeltas)\<rparr>)
               else if exists then f\<lparr>delta_items := (delta_items f)(oid := None)\<rparr>
               else f)))"

definition DeltaFIFO_Add :: "'o object \<Rightarrow> 'o DeltaFIFO \<Rightarrow> 'o delta_error option \<times> 'o DeltaFIFO" where
  "DeltaFIFO_Add obj f = queueActionLocked Added obj (f\<lparr>delta_populated := True\<rparr>)"

definition DeltaFIFO_Update :: "'o object \<Rightarrow> 'o DeltaFIFO \<Rightarrow> 'o delta_error option \<times> 'o DeltaFIFO" where
  "DeltaFIFO_Update obj f = queueActionLocked Updated obj (f\<lparr>delta_populated := True\<rparr>)"

definition DeltaFIFO_Delete ::
  "'o KeyListerGetter option \<Rightarrow> 'o object \<Rightarrow> 'o DeltaFIFO \<Rightarrow> 'o delta_error option \<times> 'o DeltaFIFO" where
  "DeltaFIFO_Delete knownObjects obj f =
     (case DeltaFIFO_KeyOf f obj of
        Inl err \<Rightarrow> (Some (ErrKey obj err), f)
      | Inr oid \<Rightarrow>
          (let f = f\<lparr>delta_populated := True\<rparr>;
               ignored = (case knownObjects of
                   None \<Rightarrow> delta_items f oid = None
                 | Some ko \<Rightarrow> ko_GetByKey ko oid = Inr None)
           in if ignored then (None, f) else queueActionLocked Deleted obj f))"

definition DeltaFIFO_AddIfNotPresent ::
  "'o object \<Rightarrow> 'o DeltaFIFO \<Rightarrow> 'o delta_error option \<times> 'o DeltaFIFO" where
  "DeltaFIFO_AddIfNotPresent obj f =
     (case obj of
        DeltasObject deltas \<Rightarrow>
          (case Deltas_Newest deltas of
             None \<Rightarrow> (Some NilDereference, f)
           | Some newest \<Rightarrow>
               (case DeltaFIFO_KeyOf f (Object newest) of
                  Inl err \<Rightarrow> (Some (ErrKey obj err), f)
                | Inr oid \<Rightarrow>
                    (let f = f\<lparr>delta_populated := True\<rparr>
                     in if delta_items f oid \<noteq> None then (None, f)
                        else (None, f\<lparr>delta_queue := delta_queue f @ [oid],
                                      delta_items := (delta_items f)(oid \<mapsto> deltas)\<rparr>))))
      | _ \<Rightarrow> (Some (ErrNotDeltas obj), f))"

text \<open>\<^verbatim>\<open>List\<close> would panic, \<^verbatim>\<open>None\<close> here, on an empty \<^verbatim>\<open>Deltas\<close>.\<close>

definition DeltaFIFO_List :: "(key, 'o Deltas) go_range \<Rightarrow> 'o DeltaFIFO \<Rightarrow> 'o object list option" where
  "DeltaFIFO_List rng f =
     fold (\<lambda>(key, item) list. case (list, Deltas_Newest (copyDeltas item)) of
             (Some list, Some newest) \<Rightarrow> Some (list @ [Object newest]) | _ \<Rightarrow> None)
       (rng (delta_items f)) (Some [])"

definition DeltaFIFO_ListKeys :: "(key, 'o Deltas) go_range \<Rightarrow> 'o DeltaFIFO \<Rightarrow> key list" where
  "DeltaFIFO_ListKeys rng f = fold (\<lambda>(key, item) list. list @ [key]) (rng (delta_items f)) []"

definition DeltaFIFO_GetByKey :: "key \<Rightarrow> 'o DeltaFIFO \<Rightarrow> 'o Deltas option" where
  "DeltaFIFO_GetByKey key f = map_option copyDeltas (delta_items f key)"

definition DeltaFIFO_Get :: "'o object \<Rightarrow> 'o DeltaFIFO \<Rightarrow> 'o delta_error + 'o Deltas option" where
  "DeltaFIFO_Get obj f =
     (case DeltaFIFO_KeyOf f obj of
        Inl err \<Rightarrow> Inl (ErrKey obj err)
      | Inr key \<Rightarrow> Inr (DeltaFIFO_GetByKey key f))"

definition DeltaFIFO_dequeue :: "key list \<Rightarrow> 'o DeltaFIFO \<Rightarrow> 'o DeltaFIFO" where
  "DeltaFIFO_dequeue rest f =
     (let f = f\<lparr>delta_queue := rest\<rparr>
      in if delta_initialPopulationCount f > 0
         then f\<lparr>delta_initialPopulationCount := delta_initialPopulationCount f - 1\<rparr> else f)"

fun DeltaFIFO_Pop_loop :: "key list \<Rightarrow> 'o DeltaFIFO \<Rightarrow> 'o Deltas option \<times> 'o DeltaFIFO" where
  "DeltaFIFO_Pop_loop [] f = (None, f)"
| "DeltaFIFO_Pop_loop (oid # rest) f =
     (let f = DeltaFIFO_dequeue rest f
      in case delta_items f oid of
           None \<Rightarrow> DeltaFIFO_Pop_loop rest f
         | Some item \<Rightarrow> (Some item, f\<lparr>delta_items := (delta_items f)(oid := None)\<rparr>))"

definition DeltaFIFO_Pop :: "'o DeltaFIFO \<Rightarrow> 'o Deltas option \<times> 'o DeltaFIFO" where
  "DeltaFIFO_Pop f = DeltaFIFO_Pop_loop (delta_queue f) f"

text \<open>The first loop of \<^verbatim>\<open>Replace\<close>: one \<^verbatim>\<open>Sync\<close> delta per item; it collects the keys.\<close>

fun Replace_sync ::
  "'o object list \<Rightarrow> key set \<Rightarrow> 'o DeltaFIFO \<Rightarrow> 'o delta_error option \<times> key set \<times> 'o DeltaFIFO" where
  "Replace_sync [] keys f = (None, keys, f)"
| "Replace_sync (item # list) keys f =
     (case DeltaFIFO_KeyOf f item of
        Inl err \<Rightarrow> (Some (ErrKey item err), keys, f)
      | Inr key \<Rightarrow>
          (case queueActionLocked Sync item f of
             (Some err, f') \<Rightarrow> (Some (ErrEnqueue err), insert key keys, f')
           | (None, f') \<Rightarrow> Replace_sync list (insert key keys) f'))"

text \<open>The two deletion loops; each stops at an error of \<^verbatim>\<open>queueActionLocked\<close>.\<close>

fun Replace_delete_own ::
  "(key \<times> 'o Deltas) list \<Rightarrow> key set \<Rightarrow> 'o DeltaFIFO \<Rightarrow> 'o delta_error option \<times> 'o DeltaFIFO" where
  "Replace_delete_own [] keys f = (None, f)"
| "Replace_delete_own ((k, oldItem) # rest) keys f =
     (if k \<in> keys then Replace_delete_own rest keys f
      else let deletedObj = map_option Object (Deltas_Newest oldItem)
           in case queueActionLocked Deleted (DeletedFinalStateUnknown k deletedObj) f of
                (Some err, f') \<Rightarrow> (Some err, f')
              | (None, f') \<Rightarrow> Replace_delete_own rest keys f')"

definition knownDeletedObj :: "'o KeyListerGetter \<Rightarrow> key \<Rightarrow> 'o object option" where
  "knownDeletedObj ko k =
     (case ko_GetByKey ko k of Inl err \<Rightarrow> None | Inr None \<Rightarrow> None | Inr (Some ob) \<Rightarrow> Some ob)"

fun Replace_delete_known ::
  "'o KeyListerGetter \<Rightarrow> key list \<Rightarrow> key set \<Rightarrow> 'o DeltaFIFO \<Rightarrow> 'o delta_error option \<times> 'o DeltaFIFO" where
  "Replace_delete_known ko [] keys f = (None, f)"
| "Replace_delete_known ko (k # rest) keys f =
     (if k \<in> keys then Replace_delete_known ko rest keys f
      else let deletedObj = knownDeletedObj ko k
           in case queueActionLocked Deleted (DeletedFinalStateUnknown k deletedObj) f of
                (Some err, f') \<Rightarrow> (Some err, f')
              | (None, f') \<Rightarrow> Replace_delete_known ko rest keys f')"

definition DeltaFIFO_Replace ::
  "(key, 'o Deltas) go_range \<Rightarrow> 'o KeyListerGetter option \<Rightarrow> 'o object list \<Rightarrow> 'o DeltaFIFO
     \<Rightarrow> 'o delta_error option \<times> 'o DeltaFIFO" where
  "DeltaFIFO_Replace rng knownObjects list f =
     (let f = (if \<not> delta_populated f
               then f\<lparr>delta_populated := True, delta_initialPopulationCount := int (length list)\<rparr>
               else f)
      in case Replace_sync list {} f of
           (Some err, _, f) \<Rightarrow> (Some err, f)
         | (None, keys, f) \<Rightarrow>
             (case knownObjects of
                None \<Rightarrow> Replace_delete_own (rng (delta_items f)) keys f
              | Some ko \<Rightarrow> Replace_delete_known ko (ko_ListKeys ko) keys f))"

section \<open>Deltas of one key\<close>

lemma Deltas_Newest_eq: "Deltas_Newest d = (if d = [] then None else Some (last d))"
  by (simp add: Deltas_Newest_def last_conv_nth)

lemma copyDeltas_id [simp]: "copyDeltas d = d"
  by (simp add: copyDeltas_def)

text \<open>What \<^verbatim>\<open>dedupDeltas\<close> makes of a list and a new delta.\<close>

lemma dedupDeltas_snoc:
  "dedupDeltas (d @ [a]) =
     (if d \<noteq> [] \<and> Type a = Deleted \<and> Type (last d) = Deleted
      then butlast d @ [if isDFSU (Object (last d)) then a else last d]
      else d @ [a])"
proof (cases d rule: rev_cases)
  case Nil
  then show ?thesis by (simp add: dedupDeltas_def)
next
  case (snoc ds b)
  then show ?thesis
    by (simp add: dedupDeltas_def isDup_def isDeletionDup_def nth_append)
qed

lemma dedupDeltas_snoc_nonempty [simp]: "dedupDeltas (d @ [a]) \<noteq> []"
  by (simp add: dedupDeltas_snoc)

lemma dedupDeltas_single [simp]: "dedupDeltas [a] = [a]"
  by (simp add: dedupDeltas_def)

lemma dedupDeltas_last_type: "Type (last (dedupDeltas (d @ [a]))) = Type a"
  by (simp add: dedupDeltas_snoc)

section \<open>Invariants\<close>

text \<open>
  Every stored list of deltas is non-empty and its key is queued.  Without a compressor
  the queue holds exactly the stored keys, each once, which is the property the source's
  comment on \<^verbatim>\<open>items\<close> and \<^verbatim>\<open>queue\<close> depends on.
\<close>

definition delta_inv :: "'o DeltaFIFO \<Rightarrow> bool" where
  "delta_inv f \<longleftrightarrow> dom (delta_items f) \<subseteq> set (delta_queue f)
     \<and> (\<forall>k d. delta_items f k = Some d \<longrightarrow> d \<noteq> []) \<and> 0 \<le> delta_initialPopulationCount f"

definition delta_strong_inv :: "'o DeltaFIFO \<Rightarrow> bool" where
  "delta_strong_inv f \<longleftrightarrow> deltaCompressor f = None \<and> distinct (delta_queue f)
     \<and> set (delta_queue f) = dom (delta_items f)
     \<and> (\<forall>k d. delta_items f k = Some d \<longrightarrow> d \<noteq> []) \<and> 0 \<le> delta_initialPopulationCount f"

definition delta_pending :: "'o DeltaFIFO \<Rightarrow> key list" where
  "delta_pending f = pending_keys (delta_queue f) (delta_items f)"

lemma delta_strong_inv_inv: "delta_strong_inv f \<Longrightarrow> delta_inv f"
  by (simp add: delta_strong_inv_def delta_inv_def)

lemma delta_inv_New [go_inv]: "delta_inv (NewDeltaFIFO kf cmp)"
  by (simp add: delta_inv_def NewDeltaFIFO_def)

lemma delta_strong_inv_New [go_inv]: "delta_strong_inv (NewDeltaFIFO kf None)"
  by (simp add: delta_strong_inv_def NewDeltaFIFO_def)

lemma delta_inv_populated [simp]:
  "delta_inv (f\<lparr>delta_populated := b\<rparr>) = delta_inv f"
  "delta_strong_inv (f\<lparr>delta_populated := b\<rparr>) = delta_strong_inv f"
  "delta_inv (f\<lparr>delta_populated := b, delta_initialPopulationCount := int n\<rparr>)
     \<longleftrightarrow> delta_inv (f\<lparr>delta_initialPopulationCount := 0\<rparr>)"
  "delta_strong_inv (f\<lparr>delta_populated := b, delta_initialPopulationCount := int n\<rparr>)
     \<longleftrightarrow> delta_strong_inv (f\<lparr>delta_initialPopulationCount := 0\<rparr>)"
  by (simp_all add: delta_inv_def delta_strong_inv_def)

lemma delta_inv_count: "delta_inv f \<Longrightarrow> delta_inv (f\<lparr>delta_initialPopulationCount := 0\<rparr>)"
  "delta_strong_inv f \<Longrightarrow> delta_strong_inv (f\<lparr>delta_initialPopulationCount := 0\<rparr>)"
  by (simp_all add: delta_inv_def delta_strong_inv_def)

lemma queueActionLocked_error:
  "DeltaFIFO_KeyOf f obj = Inl e \<Longrightarrow> queueActionLocked t obj f = (Some (ErrKey obj e), f)"
  by (simp add: queueActionLocked_def)

text \<open>The effect of an action without a compressor.\<close>

lemma queueActionLocked_plain:
  assumes "DeltaFIFO_KeyOf f obj = Inr k" and "deltaCompressor f = None"
  shows "queueActionLocked t obj f = (None,
     f\<lparr>delta_queue := (if delta_items f k = None then delta_queue f @ [k] else delta_queue f),
       delta_items := (delta_items f)(k \<mapsto>
         dedupDeltas ((case delta_items f k of None \<Rightarrow> [] | Some d \<Rightarrow> d) @ [Delta t obj]))\<rparr>)"
  using assms by (cases "delta_items f k") (simp_all add: queueActionLocked_def)

lemma queueActionLocked_frame [simp]:
  "deltaCompressor (snd (queueActionLocked t obj f)) = deltaCompressor f"
  "delta_keyFunc (snd (queueActionLocked t obj f)) = delta_keyFunc f"
  "delta_populated (snd (queueActionLocked t obj f)) = delta_populated f"
  "delta_initialPopulationCount (snd (queueActionLocked t obj f)) = delta_initialPopulationCount f"
  by (auto simp: queueActionLocked_def split: sum.splits)

lemma delta_inv_action [go_inv]: "delta_inv f \<Longrightarrow> delta_inv (snd (queueActionLocked t obj f))"
  by (auto simp: queueActionLocked_def delta_inv_def split: sum.splits option.splits if_splits)

lemma delta_strong_inv_action [go_inv]:
  assumes "delta_strong_inv f"
  shows "delta_strong_inv (snd (queueActionLocked t obj f))"
proof (cases "DeltaFIFO_KeyOf f obj")
  case (Inl e)
  then show ?thesis using assms by (simp add: queueActionLocked_error)
next
  case (Inr k)
  have "deltaCompressor f = None" using assms by (simp add: delta_strong_inv_def)
  from queueActionLocked_plain [OF Inr this] show ?thesis
    using assms by (auto simp: delta_strong_inv_def split: option.splits)
qed

lemma KeyOf_DFSU [simp]: "DeltaFIFO_KeyOf f (DeletedFinalStateUnknown k ob) = Inr k"
  by (simp add: DeltaFIFO_KeyOf_def)

lemma queueActionLocked_DFSU [simp]:
  "fst (queueActionLocked t (DeletedFinalStateUnknown k ob) f) = None"
  by (simp add: queueActionLocked_def)

lemma queueActionLocked_ok: "DeltaFIFO_KeyOf f obj = Inr k \<Longrightarrow> fst (queueActionLocked t obj f) = None"
  by (simp add: queueActionLocked_def)

lemma KeyOf_cong:
  assumes "delta_keyFunc f = delta_keyFunc g"
  shows "DeltaFIFO_KeyOf f = DeltaFIFO_KeyOf g"
  by (intro ext) (unfold DeltaFIFO_KeyOf_def assms, rule refl)

text \<open>An action on a marker does not fail, so the deletion loops run to their end.\<close>

lemma queueActionLocked_DFSU_pair:
  "queueActionLocked t (DeletedFinalStateUnknown k ob) f
     = (None, snd (queueActionLocked t (DeletedFinalStateUnknown k ob) f))"
  by (simp add: prod_eq_iff)

lemma Replace_delete_own_Cons [simp]:
  "Replace_delete_own ((k, d) # es) keys f =
     (if k \<in> keys then Replace_delete_own es keys f
      else Replace_delete_own es keys (snd (queueActionLocked Deleted
             (DeletedFinalStateUnknown k (map_option Object (Deltas_Newest d))) f)))"
  by (subst Replace_delete_own.simps, unfold Let_def, subst queueActionLocked_DFSU_pair) simp

lemma Replace_delete_known_Cons [simp]:
  "Replace_delete_known ko (k # ks) keys f =
     (if k \<in> keys then Replace_delete_known ko ks keys f
      else Replace_delete_known ko ks keys (snd (queueActionLocked Deleted
             (DeletedFinalStateUnknown k (knownDeletedObj ko k)) f)))"
  by (subst Replace_delete_known.simps, unfold Let_def, subst queueActionLocked_DFSU_pair) simp

lemma Replace_sync_Cons [simp]:
  "Replace_sync (item # list) keys f =
     (case DeltaFIFO_KeyOf f item of
        Inl err \<Rightarrow> (Some (ErrKey item err), keys, f)
      | Inr key \<Rightarrow> Replace_sync list (insert key keys) (snd (queueActionLocked Sync item f)))"
proof (cases "DeltaFIFO_KeyOf f item")
  case (Inr key)
  have "queueActionLocked Sync item f = (None, snd (queueActionLocked Sync item f))"
    using queueActionLocked_ok [OF Inr] by (simp add: prod_eq_iff)
  then show ?thesis by (subst Replace_sync.simps) (metis (no_types, lifting) Inr option.case prod.case sum.case(2))
qed simp

declare Replace_delete_own.simps(2) [simp del] Replace_delete_known.simps(2) [simp del]
  Replace_sync.simps(2) [simp del]

text \<open>Whatever every action keeps, the loops of \<^verbatim>\<open>Replace\<close> keep.\<close>

lemma Replace_sync_keeps:
  assumes "\<And>t obj f. P f \<Longrightarrow> P (snd (queueActionLocked t obj f))" and "P f"
  shows "P (snd (snd (Replace_sync list keys f)))"
  using assms(2) by (induction list arbitrary: keys f) (auto simp: assms(1) split: sum.split)

lemma Replace_delete_own_keeps:
  assumes "\<And>t obj f. P f \<Longrightarrow> P (snd (queueActionLocked t obj f))" and "P f"
  shows "P (snd (Replace_delete_own es keys f))"
  using assms(2) by (induction es arbitrary: f) (auto simp: assms(1))

lemma Replace_delete_known_keeps:
  assumes "\<And>t obj f. P f \<Longrightarrow> P (snd (queueActionLocked t obj f))" and "P f"
  shows "P (snd (Replace_delete_known ko ks keys f))"
  using assms(2) by (induction ks arbitrary: f) (auto simp: assms(1))

lemma DeltaFIFO_Replace_keeps:
  assumes "\<And>t obj f. P f \<Longrightarrow> P (snd (queueActionLocked t obj f))"
    and "P f" and "P (f\<lparr>delta_populated := True, delta_initialPopulationCount := int (length list)\<rparr>)"
  shows "P (snd (DeltaFIFO_Replace rng known list f))"
proof -
  define f0 where "f0 = (if \<not> delta_populated f then f\<lparr>delta_populated := True,
      delta_initialPopulationCount := int (length list)\<rparr> else f)"
  have "P f0" using assms(2,3) by (simp add: f0_def)
  then have sync: "P (snd (snd (Replace_sync list {} f0)))"
    using Replace_sync_keeps [of P f0] assms(1) by blast
  obtain e ks g where g: "Replace_sync list {} f0 = (e, ks, g)" by (cases "Replace_sync list {} f0") auto
  have "P g" using sync g by simp
  then show ?thesis
    using Replace_delete_own_keeps [of P g] Replace_delete_known_keeps [of P g] assms(1)
    by (auto simp: DeltaFIFO_Replace_def f0_def [symmetric] g split: option.split)
qed

end
