(* ===== verification/Delta_Fifo_Props.thy ===== *)
theory Delta_Fifo_Props
  imports Delta_Fifo
begin

text \<open>
  What \<^verbatim>\<open>DeltaFIFO\<close> promises: it is a queue in the sense of the interface, it delivers every
  change of an object once and in order, and \<^verbatim>\<open>Replace\<close> reports the objects that disappeared.
\<close>

section \<open>Pop\<close>

lemma DeltaFIFO_dequeue_simps [simp]:
  "delta_items (DeltaFIFO_dequeue rest f) = delta_items f"
  "delta_queue (DeltaFIFO_dequeue rest f) = rest"
  "deltaCompressor (DeltaFIFO_dequeue rest f) = deltaCompressor f"
  "delta_keyFunc (DeltaFIFO_dequeue rest f) = delta_keyFunc f"
  "0 \<le> delta_initialPopulationCount f \<Longrightarrow> 0 \<le> delta_initialPopulationCount (DeltaFIFO_dequeue rest f)"
  by (simp_all add: DeltaFIFO_dequeue_def)

lemma DeltaFIFO_Pop_loop_frame:
  "deltaCompressor (snd (DeltaFIFO_Pop_loop ks f)) = deltaCompressor f
   \<and> delta_keyFunc (snd (DeltaFIFO_Pop_loop ks f)) = delta_keyFunc f
   \<and> (0 \<le> delta_initialPopulationCount f \<longrightarrow>
        0 \<le> delta_initialPopulationCount (snd (DeltaFIFO_Pop_loop ks f)))"
  by (induction ks arbitrary: f) (auto split: option.split)

lemma DeltaFIFO_Pop_loop_blocks:
  "pending_keys ks (delta_items f) = [] \<Longrightarrow> fst (DeltaFIFO_Pop_loop ks f) = None
     \<and> delta_items (snd (DeltaFIFO_Pop_loop ks f)) = delta_items f"
proof (induction ks arbitrary: f)
  case (Cons k rest)
  have no: "delta_items f k = None"
    using Cons.prems pending_keys_take [of k "delta_items f" rest] by fastforce
  then have "pending_keys rest (delta_items f) = []"
    using Cons.prems by (simp add: pending_keys_skip domIff)
  then show ?case using Cons.IH [of "DeltaFIFO_dequeue rest f"] no by simp
qed simp

lemma DeltaFIFO_Pop_loop_first:
  assumes "pending_keys ks (delta_items f) = k # later"
  shows "\<exists>v f'. DeltaFIFO_Pop_loop ks f = (Some v, f') \<and> delta_items f k = Some v
     \<and> delta_items f' = (delta_items f)(k := None)
     \<and> pending_keys (delta_queue f') (delta_items f') = later
     \<and> (dom (delta_items f) \<subseteq> set ks \<longrightarrow> dom (delta_items f') \<subseteq> set (delta_queue f'))
     \<and> (distinct ks \<and> set ks = dom (delta_items f) \<longrightarrow>
          distinct (delta_queue f') \<and> set (delta_queue f') = dom (delta_items f'))"
  using assms
proof (induction ks arbitrary: f)
  case Nil
  then show ?case by (simp add: pending_keys_def)
next
  case (Cons k0 rest)
  show ?case
  proof (cases "delta_items f k0")
    case None
    then have "pending_keys rest (delta_items (DeltaFIFO_dequeue rest f)) = k # later"
      using Cons.prems by (simp add: pending_keys_skip domIff)
    moreover have "dom (delta_items f) \<subseteq> set (k0 # rest) \<longleftrightarrow> dom (delta_items f) \<subseteq> set rest"
      and "set (k0 # rest) \<noteq> dom (delta_items f)"
      using None by auto
    ultimately show ?thesis using Cons.IH [of "DeltaFIFO_dequeue rest f"] None
      by (simp only: DeltaFIFO_Pop_loop.simps Let_def DeltaFIFO_dequeue_simps option.case) blast
  next
    case (Some v)
    then have "k0 = k" and "pending_keys rest ((delta_items f)(k := None)) = later"
      using Cons.prems pending_keys_take [of k0 "delta_items f" rest] by auto
    then show ?thesis using Some by auto
  qed
qed

lemma DeltaFIFO_Pop_first:
  assumes "delta_inv f" and "delta_pending f = k # ks"
  shows "\<exists>v f'. DeltaFIFO_Pop f = (Some v, f') \<and> delta_items f k = Some v
    \<and> delta_items f' = (delta_items f)(k := None) \<and> delta_pending f' = ks \<and> delta_inv f'
    \<and> (delta_strong_inv f \<longrightarrow> delta_strong_inv f') \<and> delta_keyFunc f' = delta_keyFunc f"
proof -
  obtain v f' where pop: "DeltaFIFO_Pop f = (Some v, f')" "delta_items f k = Some v"
    and items': "delta_items f' = (delta_items f)(k := None)" and ks: "delta_pending f' = ks"
    and sub: "dom (delta_items f) \<subseteq> set (delta_queue f) \<longrightarrow> dom (delta_items f') \<subseteq> set (delta_queue f')"
    and dist: "distinct (delta_queue f) \<and> set (delta_queue f) = dom (delta_items f) \<longrightarrow>
          distinct (delta_queue f') \<and> set (delta_queue f') = dom (delta_items f')"
    using DeltaFIFO_Pop_loop_first [of "delta_queue f" f k ks] assms(2)
    unfolding delta_pending_def DeltaFIFO_Pop_def by blast
  have frame: "deltaCompressor f' = deltaCompressor f" "delta_keyFunc f' = delta_keyFunc f"
    "0 \<le> delta_initialPopulationCount f \<longrightarrow> 0 \<le> delta_initialPopulationCount f'"
    using DeltaFIFO_Pop_loop_frame [of "delta_queue f" f] pop(1) by (simp_all add: DeltaFIFO_Pop_def)
  have ne: "delta_items f' j = Some d \<Longrightarrow> delta_items f j = Some d" for j d
    unfolding items' by (simp split: if_splits)
  have "delta_inv f'" using assms(1) sub frame ne unfolding delta_inv_def by blast
  moreover have "delta_strong_inv f \<longrightarrow> delta_strong_inv f'"
    using dist frame ne unfolding delta_strong_inv_def by metis
  ultimately show ?thesis using pop items' ks frame by blast
qed

interpretation deltas: go_queue DeltaFIFO_Pop delta_items delta_pending delta_inv
proof
  fix f :: "'a DeltaFIFO" and k ks
  assume inv: "delta_inv f"
  show "set (delta_pending f) = dom (delta_items f)"
    using inv by (simp add: delta_pending_def delta_inv_def set_pending_keys)
  show "distinct (delta_pending f)" by (simp add: delta_pending_def)
  show "delta_pending f = [] \<Longrightarrow> fst (DeltaFIFO_Pop f) = None"
    by (simp add: delta_pending_def DeltaFIFO_Pop_def DeltaFIFO_Pop_loop_blocks)
  show "delta_pending f = k # ks \<Longrightarrow> \<exists>v q'. DeltaFIFO_Pop f = (Some v, q') \<and> delta_items f k = Some v
      \<and> delta_items q' = (delta_items f)(k := None) \<and> delta_pending q' = ks \<and> delta_inv q'"
    using DeltaFIFO_Pop_first [OF inv] by blast
qed

lemma DeltaFIFO_Pop_empty:
  assumes "delta_inv f" and "delta_pending f = []"
  shows "delta_items f = Map.empty \<and> fst (DeltaFIFO_Pop f) = None
    \<and> delta_items (snd (DeltaFIFO_Pop f)) = Map.empty"
proof -
  have "delta_items f = Map.empty" using assms deltas.pending_set [OF assms(1)] by auto
  then show ?thesis
    using DeltaFIFO_Pop_loop_blocks [of "delta_queue f" f] assms(2)
    by (simp add: DeltaFIFO_Pop_def delta_pending_def)
qed

lemma delta_inv_Pop [go_inv]:
  assumes "delta_inv f"
  shows "delta_inv (snd (DeltaFIFO_Pop f))"
proof (cases "delta_pending f")
  case Nil
  then show ?thesis
    using DeltaFIFO_Pop_empty [OF assms Nil] DeltaFIFO_Pop_loop_frame [of "delta_queue f" f] assms
    by (auto simp: delta_inv_def DeltaFIFO_Pop_def)
next
  case (Cons k ks)
  then show ?thesis using DeltaFIFO_Pop_first [OF assms] by fastforce
qed

lemma delta_strong_inv_Pop [go_inv]:
  assumes "delta_strong_inv f"
  shows "delta_strong_inv (snd (DeltaFIFO_Pop f))"
proof (cases "delta_pending f")
  case Nil
  then have "delta_items f = Map.empty"
    using DeltaFIFO_Pop_empty [OF delta_strong_inv_inv [OF assms]] by blast
  then have "delta_queue f = []" using assms by (simp add: delta_strong_inv_def)
  then show ?thesis using assms by (simp add: DeltaFIFO_Pop_def)
next
  case (Cons k ks)
  then show ?thesis using DeltaFIFO_Pop_first [OF delta_strong_inv_inv [OF assms]] assms by fastforce
qed

section \<open>Every method keeps the invariants\<close>

lemma delta_inv_methods [go_inv]:
  assumes "delta_inv f"
  shows "delta_inv (snd (DeltaFIFO_Add obj f))" "delta_inv (snd (DeltaFIFO_Update obj f))"
    "delta_inv (snd (DeltaFIFO_Delete known obj f))"
    "delta_inv (snd (DeltaFIFO_Replace rng known list f))"
  using assms DeltaFIFO_Replace_keeps [where P = delta_inv and f = f]
  by (auto simp: DeltaFIFO_Add_def DeltaFIFO_Update_def DeltaFIFO_Delete_def go_inv delta_inv_count
      split: sum.split)

lemma delta_strong_inv_methods [go_inv]:
  assumes "delta_strong_inv f"
  shows "delta_strong_inv (snd (DeltaFIFO_Add obj f))" "delta_strong_inv (snd (DeltaFIFO_Update obj f))"
    "delta_strong_inv (snd (DeltaFIFO_Delete known obj f))"
    "delta_strong_inv (snd (DeltaFIFO_Replace rng known list f))"
  using assms DeltaFIFO_Replace_keeps [where P = delta_strong_inv and f = f]
  by (auto simp: DeltaFIFO_Add_def DeltaFIFO_Update_def DeltaFIFO_Delete_def go_inv delta_inv_count
      split: sum.split)

lemma AddIfNotPresent_cases:
  obtains (unchanged) "delta_items (snd (DeltaFIFO_AddIfNotPresent obj f)) = delta_items f"
    "delta_queue (snd (DeltaFIFO_AddIfNotPresent obj f)) = delta_queue f"
  | (stored) d k where "obj = DeltasObject d" "d \<noteq> []" "delta_items f k = None"
    "delta_items (snd (DeltaFIFO_AddIfNotPresent obj f)) = (delta_items f)(k \<mapsto> d)"
    "delta_queue (snd (DeltaFIFO_AddIfNotPresent obj f)) = delta_queue f @ [k]"
proof (cases obj)
  case (DeltasObject d)
  show ?thesis
  proof (cases "DeltaFIFO_KeyOf f (Object (last d))")
    case (Inl e)
    then show ?thesis
      using DeltasObject unchanged by (simp add: DeltaFIFO_AddIfNotPresent_def Deltas_Newest_eq split: if_splits)
  next
    case (Inr k)
    then show ?thesis
      using DeltasObject unchanged stored [of d k]
      by (cases "d = []"; cases "delta_items f k")
        (simp_all add: DeltaFIFO_AddIfNotPresent_def Deltas_Newest_eq)
  qed
qed (use unchanged in \<open>simp_all add: DeltaFIFO_AddIfNotPresent_def\<close>)

lemma AddIfNotPresent_frame:
  "deltaCompressor (snd (DeltaFIFO_AddIfNotPresent obj f)) = deltaCompressor f"
  "delta_initialPopulationCount (snd (DeltaFIFO_AddIfNotPresent obj f)) = delta_initialPopulationCount f"
  by (cases obj; auto simp: DeltaFIFO_AddIfNotPresent_def split: sum.split option.split)+

lemma delta_inv_AddIfNotPresent [go_inv]:
  "delta_inv f \<Longrightarrow> delta_inv (snd (DeltaFIFO_AddIfNotPresent obj f))"
  by (cases rule: AddIfNotPresent_cases [of obj f]) (auto simp: delta_inv_def AddIfNotPresent_frame)

lemma delta_strong_inv_AddIfNotPresent [go_inv]:
  "delta_strong_inv f \<Longrightarrow> delta_strong_inv (snd (DeltaFIFO_AddIfNotPresent obj f))"
  by (cases rule: AddIfNotPresent_cases [of obj f]) (auto simp: delta_strong_inv_def AddIfNotPresent_frame)

text \<open>
  C26: Without a compressor every method of \<^verbatim>\<open>DeltaFIFO\<close>, successful or not, keeps the property
  the implementation depends on: the queue holds exactly the keys of the stored items, each
  once, and every stored list has at least one delta.
\<close>

theorem DeltaFIFO_queue_matches_items:
  assumes "delta_strong_inv f"
  shows "delta_strong_inv (snd (DeltaFIFO_Add obj f)) \<and> delta_strong_inv (snd (DeltaFIFO_Update obj f))
    \<and> delta_strong_inv (snd (DeltaFIFO_Delete known obj f))
    \<and> delta_strong_inv (snd (DeltaFIFO_AddIfNotPresent obj f))
    \<and> delta_strong_inv (snd (DeltaFIFO_Replace rng known list f))
    \<and> delta_strong_inv (snd (DeltaFIFO_Pop f))"
  using assms by (intro conjI go_inv)

definition plain_keyFunc :: "string object \<Rightarrow> go_error + key" where
  "plain_keyFunc obj = (case obj of Plain s \<Rightarrow> string_keyFunc s | _ \<Rightarrow> Inl ''no meta'')"

theorem DeltaFIFO_queue_matches_items_witness:
  "delta_strong_inv (snd (DeltaFIFO_Add (Plain ''a'') (NewDeltaFIFO plain_keyFunc None)))"
  using DeltaFIFO_queue_matches_items [OF delta_strong_inv_New] by blast

text \<open>
  \<^verbatim>\<open>DeltaFIFO.Pop\<close> waits only on an empty queue; draining hands out the collected deltas of
  every key exactly once, never an empty list, in the order in which the keys were queued.
\<close>

theorem DeltaFIFO_pop_drains:
  assumes "delta_strong_inv f"
  shows "(fst (DeltaFIFO_Pop f) \<noteq> None \<longleftrightarrow> delta_items f \<noteq> Map.empty)
    \<and> (\<exists>f'. deltas.pops (length (delta_queue f)) f = (map (delta_items f) (delta_queue f), f')
         \<and> delta_items f' = Map.empty \<and> delta_inv f')
    \<and> (\<forall>k d. delta_items f k = Some d \<longrightarrow> d \<noteq> [])"
proof -
  have inv: "delta_inv f" using assms by (rule delta_strong_inv_inv)
  have q: "delta_pending f = delta_queue f" and len: "card (dom (delta_items f)) = length (delta_queue f)"
    using assms distinct_card [of "delta_queue f"]
    by (auto simp: delta_strong_inv_def delta_pending_def pending_keys_def firsts_distinct)
  show ?thesis
    using deltas.pop_returns_iff [OF inv] deltas.pops_drain [OF inv] assms
    unfolding q len by (simp add: delta_strong_inv_def)
qed

theorem DeltaFIFO_pop_drains_witness:
  "fst (DeltaFIFO_Pop (snd (DeltaFIFO_Add (Plain ''a'') (NewDeltaFIFO plain_keyFunc None)))) \<noteq> None"
proof -
  have "delta_strong_inv (snd (DeltaFIFO_Add (Plain ''a'') (NewDeltaFIFO plain_keyFunc None)))"
    by (intro go_inv)
  moreover have "delta_items (snd (DeltaFIFO_Add (Plain ''a'') (NewDeltaFIFO plain_keyFunc None))) \<noteq> Map.empty"
    by (simp add: DeltaFIFO_Add_def queueActionLocked_def NewDeltaFIFO_def DeltaFIFO_KeyOf_def
        plain_keyFunc_def string_keyFunc_def)
  ultimately show ?thesis using DeltaFIFO_pop_drains by blast
qed

end
