(* ===== verification/Delta_Fifo_History.thy ===== *)
theory Delta_Fifo_History
  imports Delta_Fifo_Props
begin

text \<open>
  The history of an object through \<^verbatim>\<open>DeltaFIFO\<close>.  A ghost history records, per key, what was
  enqueued between one hand-out and the next and what was handed out; every method is a sequence of
  steps of a small step relation, and over any run of them the history decides what every consumer
  got and what is still queued.
\<close>

section \<open>Merging deletions\<close>

text \<open>
  The specification of deduplication, on a whole list: of deletions in a row one is left, the first
  that carries an object, or the last if all are markers.  Nothing else is merged or dropped.
\<close>

fun merge_deletions :: "'o Deltas \<Rightarrow> 'o Deltas" where
  "merge_deletions (a # b # ds) =
     (if Type a = Deleted \<and> Type b = Deleted
      then merge_deletions ((if isDFSU (Object a) then b else a) # ds)
      else a # merge_deletions (b # ds))"
| "merge_deletions ds = ds"

lemma merge_deletions_nonempty [simp]: "merge_deletions ds = [] \<longleftrightarrow> ds = []"
  by (induction ds rule: merge_deletions.induct) auto

text \<open>Merging one by one, as the queue does, is merging the whole list.\<close>

lemma dedupDeltas_Cons: "dedupDeltas (a # b # d @ [x]) = a # dedupDeltas (b # d @ [x])"
  using dedupDeltas_snoc [of "a # b # d" x] dedupDeltas_snoc [of "b # d" x] by (simp del: butlast.simps) (simp split: if_splits)

lemma dedupDeltas_two:
  "dedupDeltas [a, x] = (if Type x = Deleted \<and> Type a = Deleted then [if isDFSU (Object a) then x else a] else [a, x])"
  using dedupDeltas_snoc [of "[a]" x] by auto

lemma merge_deletions_snoc: "merge_deletions (ds @ [x]) = dedupDeltas (merge_deletions ds @ [x])"
proof (induction ds rule: merge_deletions.induct)
  case (1 a b ds)
  show ?case
  proof (cases "Type a = Deleted \<and> Type b = Deleted")
    case True
    then show ?thesis using 1(1) by simp
  next
    case False
    obtain c cs where c: "merge_deletions (b # ds) = c # cs" by (cases "merge_deletions (b # ds)") auto
    show ?thesis using 1(2) [OF False] False by (auto simp: c dedupDeltas_Cons)
  qed
qed (auto simp: dedupDeltas_two)

section \<open>Steps with a history\<close>

definition deltas_at :: "'o DeltaFIFO \<Rightarrow> key \<Rightarrow> 'o Deltas" where
  "deltas_at f k = (case delta_items f k of None \<Rightarrow> [] | Some d \<Rightarrow> d)"

record 'o history =
  batches :: "key \<Rightarrow> 'o Deltas list" \<comment> \<open>what was enqueued before each hand-out\<close>
  since_last :: "key \<Rightarrow> 'o Deltas" \<comment> \<open>what was enqueued since the last one\<close>
  handed_out :: "key \<Rightarrow> 'o Deltas list"

definition no_history :: "'o history" where
  "no_history = \<lparr>batches = (\<lambda>_. []), since_last = (\<lambda>_. []), handed_out = (\<lambda>_. [])\<rparr>"

definition enqueued :: "key \<Rightarrow> 'o Deltas \<Rightarrow> 'o history \<Rightarrow> 'o history" where
  "enqueued k ds h = h\<lparr>since_last := (since_last h)(k := since_last h k @ ds)\<rparr>"

definition handed :: "key \<Rightarrow> 'o Deltas \<Rightarrow> 'o history \<Rightarrow> 'o history" where
  "handed k d h = h\<lparr>batches := (batches h)(k := batches h k @ [since_last h k]), since_last := (since_last h)(k := []),
     handed_out := (handed_out h)(k := handed_out h k @ [d])\<rparr>"

text \<open>
  \<^verbatim>\<open>AddIfNotPresent\<close> is given a list with no two deletions in a row, as \<^verbatim>\<open>Pop\<close> hands them out and
  as \<^verbatim>\<open>Requeue\<close> passes; it stores the list as it is.
\<close>

inductive delta_step :: "'o DeltaFIFO \<times> 'o history \<Rightarrow> 'o DeltaFIFO \<times> 'o history \<Rightarrow> bool" where
  step_flags: "delta_step (f, h) (f\<lparr>delta_populated := b, delta_initialPopulationCount := int n\<rparr>, h)"
| step_populated: "delta_step (f, h) (f\<lparr>delta_populated := b\<rparr>, h)"
| step_action: "DeltaFIFO_KeyOf f obj = Inr k \<Longrightarrow>
     delta_step (f, h) (snd (queueActionLocked t obj f), enqueued k [Delta t obj] h)"
| step_requeue: "ds \<noteq> [] \<Longrightarrow> merge_deletions ds = ds \<Longrightarrow> DeltaFIFO_KeyOf f (Object (last ds)) = Inr k \<Longrightarrow>
     delta_items f k = None \<Longrightarrow> delta_step (f, h) (snd (DeltaFIFO_AddIfNotPresent (DeltasObject ds) f), enqueued k ds h)"
| step_pop: "DeltaFIFO_Pop f = (Some d, f') \<Longrightarrow> delta_pending f = k # ks \<Longrightarrow> delta_step (f, h) (f', handed k d h)"

abbreviation delta_steps where "delta_steps \<equiv> delta_step\<^sup>*\<^sup>*"

section \<open>Every method is a run of steps\<close>

lemma action_steps: "\<exists>h'. delta_steps (f, h) (snd (queueActionLocked t obj f), h') \<and> handed_out h' = handed_out h"
proof (cases "DeltaFIFO_KeyOf f obj")
  case (Inl e)
  then show ?thesis by (auto simp: queueActionLocked_error)
next
  case (Inr k)
  then show ?thesis using step_action [OF Inr, of h t] by (auto simp: enqueued_def intro!: exI r_into_rtranclp)
qed

text \<open>Steps that do not pop: the queue can get from one state to the other.\<close>

definition enqueues :: "'o DeltaFIFO \<Rightarrow> 'o DeltaFIFO \<Rightarrow> bool" where
  "enqueues f g \<longleftrightarrow> (\<forall>h. \<exists>h'. delta_steps (f, h) (g, h') \<and> handed_out h' = handed_out h)"

lemma enqueues_refl [simp]: "enqueues f f"
  by (auto simp: enqueues_def)

lemma enqueues_trans: "enqueues f g \<Longrightarrow> enqueues g h \<Longrightarrow> enqueues f h"
  unfolding enqueues_def by (metis rtranclp_trans)

lemma enqueues_action: "enqueues f (snd (queueActionLocked t obj f))"
  unfolding enqueues_def using action_steps by blast

lemma enqueues_then_action: "enqueues f g \<Longrightarrow> enqueues f (snd (queueActionLocked t obj g))"
  using enqueues_trans [OF _ enqueues_action] by blast

lemma enqueues_populated: "enqueues f (f\<lparr>delta_populated := b\<rparr>)"
  unfolding enqueues_def by (blast intro: step_populated)

lemma enqueues_flags: "enqueues f (f\<lparr>delta_populated := b, delta_initialPopulationCount := int n\<rparr>)"
  unfolding enqueues_def by (blast intro: step_flags)

lemma enqueues_methods:
  "enqueues f (snd (DeltaFIFO_Add obj f))" "enqueues f (snd (DeltaFIFO_Update obj f))"
  "enqueues f (snd (DeltaFIFO_Delete known obj f))"
  "enqueues f (snd (DeltaFIFO_Replace rng known list f))"
proof -
  note pop = enqueues_populated [of f True]
  show "enqueues f (snd (DeltaFIFO_Add obj f))" "enqueues f (snd (DeltaFIFO_Update obj f))"
    unfolding DeltaFIFO_Add_def DeltaFIFO_Update_def by (rule enqueues_then_action [OF pop])+
  show "enqueues f (snd (DeltaFIFO_Delete known obj f))"
    using pop enqueues_then_action [OF pop] by (auto simp: DeltaFIFO_Delete_def split: sum.split)
  show "enqueues f (snd (DeltaFIFO_Replace rng known list f))"
    by (rule DeltaFIFO_Replace_keeps [where P = "enqueues f"])
      (auto intro: enqueues_then_action enqueues_flags)
qed

lemma enqueues_requeue:
  assumes "merge_deletions ds = ds"
  shows "enqueues f (snd (DeltaFIFO_AddIfNotPresent (DeltasObject ds) f))"
proof (cases "ds = [] \<or> (\<exists>e. DeltaFIFO_KeyOf f (Object (last ds)) = Inl e)")
  case True
  then show ?thesis by (auto simp: DeltaFIFO_AddIfNotPresent_def Deltas_Newest_eq)
next
  case False
  then obtain k where k: "ds \<noteq> []" "DeltaFIFO_KeyOf f (Object (last ds)) = Inr k"
    by (cases "DeltaFIFO_KeyOf f (Object (last ds))") auto
  show ?thesis
  proof (cases "delta_items f k")
    case None
    show ?thesis
      unfolding enqueues_def using step_requeue [OF k(1) assms k(2) None]
      by (auto simp: enqueued_def intro!: exI r_into_rtranclp)
  next
    case (Some d)
    then show ?thesis
      using k enqueues_populated [of f True] by (simp add: DeltaFIFO_AddIfNotPresent_def Deltas_Newest_eq)
  qed
qed

section \<open>The invariant of the history\<close>

definition history_inv :: "'o DeltaFIFO \<Rightarrow> 'o history \<Rightarrow> bool" where
  "history_inv f h \<longleftrightarrow> (\<forall>k. handed_out h k = map merge_deletions (batches h k)
     \<and> deltas_at f k = merge_deletions (since_last h k))"

lemma deltas_at_action:
  assumes "DeltaFIFO_KeyOf f obj = Inr k" and "deltaCompressor f = None"
  shows "deltas_at (snd (queueActionLocked t obj f)) j
    = (if j = k then dedupDeltas (deltas_at f k @ [Delta t obj]) else deltas_at f j)"
  using queueActionLocked_plain [OF assms, of t] by (simp add: deltas_at_def)

lemma history_inv_step:
  assumes "delta_step (f, h) (f', h')" and "delta_strong_inv f" and "history_inv f h"
  shows "delta_strong_inv f' \<and> history_inv f' h'"
  using assms(1)
proof cases
  case (step_action obj k t)
  have cmp: "deltaCompressor f = None" using assms(2) by (simp add: delta_strong_inv_def)
  have "history_inv f' h'"
    using assms(3) unfolding history_inv_def step_action deltas_at_action [OF step_action(3) cmp]
    by (simp add: enqueued_def merge_deletions_snoc)
  then show ?thesis using assms(2) step_action(1) by (simp add: go_inv)
next
  case (step_requeue ds k)
  have "deltas_at f k = []" using step_requeue(6) by (simp add: deltas_at_def)
  then have "since_last h k = []" using assms(3) by (simp add: history_inv_def)
  moreover have "delta_items f' = (delta_items f)(k \<mapsto> ds)"
    using step_requeue by (simp add: DeltaFIFO_AddIfNotPresent_def Deltas_Newest_eq)
  ultimately have "history_inv f' h'"
    using assms(3) step_requeue(2,4) by (simp add: history_inv_def enqueued_def deltas_at_def)
  then show ?thesis using assms(2) step_requeue(1) by (simp add: go_inv)
next
  case (step_pop d k ks)
  obtain v g where g: "DeltaFIFO_Pop f = (Some v, g)" "delta_items f k = Some v"
    "delta_items g = (delta_items f)(k := None)" "delta_strong_inv g"
    using DeltaFIFO_Pop_first [OF delta_strong_inv_inv [OF assms(2)] step_pop(3)] assms(2) by blast
  have eq: "v = d" "g = f'" using g(1) step_pop(2) by auto
  have "deltas_at f k = d" using g(2) eq(1) by (simp add: deltas_at_def)
  then have "history_inv f' h'"
    using assms(3) g(3) step_pop(1) eq(2) by (auto simp: history_inv_def handed_def deltas_at_def)
  then show ?thesis using g(4) eq(2) by simp
qed (use assms in \<open>auto simp: history_inv_def deltas_at_def delta_inv_count\<close>)

lemma history_inv_steps:
  "delta_steps (f, h) (f', h') \<Longrightarrow> delta_strong_inv f \<Longrightarrow> history_inv f h \<Longrightarrow> delta_strong_inv f' \<and> history_inv f' h'"
  by (induction "(f', h')" arbitrary: f' h' rule: rtranclp_induct)
    (auto, (metis history_inv_step surj_pair)+)

text \<open>
  C12: Over every run of a \<^verbatim>\<open>DeltaFIFO\<close> without a compressor, in any interleaving of producers
  and consumers, each list of deltas handed out for an object is exactly what was enqueued for it
  since the previous one, in order and each once, with deletions in a row merged into one, and what
  is still queued is exactly what was enqueued since the last one, merged in the same way.  An object
  is queued exactly when something was enqueued for it since then, and no empty list is handed out.
\<close>

theorem DeltaFIFO_delivers_every_change:
  assumes "delta_steps (NewDeltaFIFO kf None, no_history) (f, h)"
  shows "handed_out h k = map merge_deletions (batches h k)
    \<and> deltas_at f k = merge_deletions (since_last h k)
    \<and> (k \<in> set (delta_queue f) \<longleftrightarrow> since_last h k \<noteq> [])"
proof -
  have "history_inv (NewDeltaFIFO kf None) no_history"
    by (simp add: history_inv_def deltas_at_def NewDeltaFIFO_def no_history_def)
  from history_inv_steps [OF assms delta_strong_inv_New this]
  have f: "delta_strong_inv f" and h: "history_inv f h" by blast+
  have "k \<in> set (delta_queue f) \<longleftrightarrow> deltas_at f k \<noteq> []"
    using f by (auto simp: delta_strong_inv_def deltas_at_def split: option.split)
  then show ?thesis using h by (simp add: history_inv_def)
qed

theorem DeltaFIFO_delivers_every_change_witness:
  "\<exists>f h. delta_steps (NewDeltaFIFO plain_keyFunc None, no_history) (f, h)
    \<and> deltas_at f ''a'' = [Delta Deleted (Plain ''a''), Delta Added (Plain ''a'')]
    \<and> since_last h ''a'' = [Delta Deleted (Plain ''a''), Delta Deleted (Plain ''a''), Delta Added (Plain ''a'')]"
proof -
  let ?a = "Plain ''a''"
  define f0 where "f0 = NewDeltaFIFO plain_keyFunc (None :: (string Deltas \<Rightarrow> string Deltas) option)"
  define f1 where "f1 = snd (queueActionLocked Deleted ?a f0)"
  define f2 where "f2 = snd (queueActionLocked Deleted ?a f1)"
  define f3 where "f3 = snd (queueActionLocked Added ?a f2)"
  define h1 where "h1 = enqueued ''a'' [Delta Deleted ?a] no_history"
  define h2 where "h2 = enqueued ''a'' [Delta Deleted ?a] h1"
  define h3 where "h3 = enqueued ''a'' [Delta Added ?a] h2"
  have key: "DeltaFIFO_KeyOf f ?a = Inr ''a''" if "delta_keyFunc f = plain_keyFunc" for f
    using that by (simp add: DeltaFIFO_KeyOf_def plain_keyFunc_def string_keyFunc_def)
  have k: "delta_keyFunc f0 = plain_keyFunc" "delta_keyFunc f1 = plain_keyFunc" "delta_keyFunc f2 = plain_keyFunc"
    by (simp_all add: f0_def f1_def f2_def NewDeltaFIFO_def)
  have steps: "delta_step (f0, no_history) (f1, h1)" "delta_step (f1, h1) (f2, h2)" "delta_step (f2, h2) (f3, h3)"
    unfolding f1_def f2_def f3_def h1_def h2_def h3_def
    by (rule step_action, simp add: key k [unfolded f1_def f2_def])+
  have run: "delta_steps (f0, no_history) (f3, h3)"
    by (rule rtranclp.rtrancl_into_rtrancl [OF rtranclp.rtrancl_into_rtrancl [OF r_into_rtranclp [of delta_step]]]) (rule steps)+
  have h3: "since_last h3 ''a'' = [Delta Deleted ?a, Delta Deleted ?a, Delta Added ?a]"
    by (simp add: h3_def h2_def h1_def enqueued_def no_history_def)
  then have "deltas_at f3 ''a'' = [Delta Deleted ?a, Delta Added ?a]"
    using DeltaFIFO_delivers_every_change [OF run [unfolded f0_def], of "''a''"] by simp
  then show ?thesis using run h3 unfolding f0_def by blast
qed

text \<open>
  The producer methods \<^verbatim>\<open>Add\<close>, \<^verbatim>\<open>Update\<close>, \<^verbatim>\<open>Delete\<close>, \<^verbatim>\<open>Replace\<close> and \<^verbatim>\<open>AddIfNotPresent\<close>, on every
  path, errors included, are runs of the steps of that relation that hand nothing out.
\<close>

theorem DeltaFIFO_producers_are_steps:
  "enqueues f (snd (DeltaFIFO_Add obj f)) \<and> enqueues f (snd (DeltaFIFO_Update obj f))
   \<and> enqueues f (snd (DeltaFIFO_Delete known obj f)) \<and> enqueues f (snd (DeltaFIFO_Replace rng known list f))
   \<and> (merge_deletions ds = ds \<longrightarrow> enqueues f (snd (DeltaFIFO_AddIfNotPresent (DeltasObject ds) f)))"
  using enqueues_methods enqueues_requeue by blast

section \<open>Replace\<close>

definition keys_of :: "'o DeltaFIFO \<Rightarrow> 'o object list \<Rightarrow> key set" where
  "keys_of f list = {k. \<exists>item \<in> set list. DeltaFIFO_KeyOf f item = Inr k}"

lemma KeyOf_action [simp]: "DeltaFIFO_KeyOf (snd (queueActionLocked t obj f)) = DeltaFIFO_KeyOf f"
  by (rule KeyOf_cong) simp

text \<open>The items of a list with one key, in their order.\<close>

definition items_of :: "'o DeltaFIFO \<Rightarrow> 'o object list \<Rightarrow> key \<Rightarrow> 'o object list" where
  "items_of f list k = filter (\<lambda>item. DeltaFIFO_KeyOf f item = Inr k) list"

lemma items_of_nonempty: "items_of f list k \<noteq> [] \<longleftrightarrow> k \<in> keys_of f list"
  by (auto simp: items_of_def keys_of_def filter_empty_conv)

text \<open>What an action does to the queue of keys: it only appends.\<close>

lemma action_queue: "\<exists>new. delta_queue (snd (queueActionLocked t obj f)) = delta_queue f @ new"
  by (auto simp: queueActionLocked_def split: sum.split)

lemma appends_trans:
  "\<exists>new. q1 = q0 @ new \<Longrightarrow> \<exists>new. q2 = q1 @ new \<Longrightarrow> \<exists>new. q2 = q0 @ (new :: key list)"
  by auto

text \<open>What the loops of \<^verbatim>\<open>Replace\<close> leave alone.\<close>

definition same_frame :: "'o DeltaFIFO \<Rightarrow> 'o DeltaFIFO \<Rightarrow> bool" where
  "same_frame f g \<longleftrightarrow> deltaCompressor g = deltaCompressor f \<and> delta_keyFunc g = delta_keyFunc f
     \<and> delta_populated g = delta_populated f \<and> delta_initialPopulationCount g = delta_initialPopulationCount f
     \<and> (\<exists>new. delta_queue g = delta_queue f @ new)"

lemma same_frame_refl [simp]: "same_frame f f"
  by (simp add: same_frame_def)

lemma same_frame_action: "same_frame f g \<Longrightarrow> same_frame f (snd (queueActionLocked t obj g))"
  using appends_trans [OF _ action_queue [of t obj g]] by (simp add: same_frame_def)

lemma Replace_sync_deltas:
  assumes "Replace_sync list keys f = (None, keys', g)" and "deltaCompressor f = None"
  shows "keys' = keys \<union> keys_of f list"
    and "deltas_at g k = deltas_at f k @ map (Delta Sync) (items_of f list k)"
    and "k \<notin> keys_of f list \<Longrightarrow> delta_items g k = delta_items f k"
proof -
  have "keys' = keys \<union> keys_of f list \<and> deltas_at g k = deltas_at f k @ map (Delta Sync) (items_of f list k)
      \<and> (k \<notin> keys_of f list \<longrightarrow> delta_items g k = delta_items f k)"
    using assms
  proof (induction list arbitrary: keys f)
    case Nil
    then show ?case by (simp add: keys_of_def items_of_def)
  next
    case (Cons item list)
    obtain j where j: "DeltaFIFO_KeyOf f item = Inr j"
      using Cons.prems(1) by (cases "DeltaFIFO_KeyOf f item") auto
    define f1 where "f1 = snd (queueActionLocked Sync item f)"
    have f1: "deltaCompressor f1 = None" "DeltaFIFO_KeyOf f1 = DeltaFIFO_KeyOf f"
      using Cons.prems(2) by (simp_all add: f1_def)
    have "Replace_sync list (insert j keys) f1 = (None, keys', g)"
      using Cons.prems(1) j by (simp add: f1_def)
    note IH = Cons.IH [OF this f1(1)]
    have "deltas_at f1 k = (if k = j then deltas_at f k @ [Delta Sync item] else deltas_at f k)"
      unfolding f1_def by (simp add: deltas_at_action [OF j Cons.prems(2)] dedupDeltas_snoc)
    moreover have "k \<noteq> j \<Longrightarrow> delta_items f1 k = delta_items f k"
      using queueActionLocked_plain [OF j Cons.prems(2), of Sync] by (simp add: f1_def)
    ultimately show ?case using IH j by (auto simp: keys_of_def items_of_def f1(2))
  qed
  then show "keys' = keys \<union> keys_of f list"
    "deltas_at g k = deltas_at f k @ map (Delta Sync) (items_of f list k)"
    "k \<notin> keys_of f list \<Longrightarrow> delta_items g k = delta_items f k" by blast+
qed

lemma finite_dom_action:
  "finite (dom (delta_items f)) \<Longrightarrow> finite (dom (delta_items (snd (queueActionLocked t obj f))))"
  by (auto simp: queueActionLocked_def split: sum.split)

text \<open>
  The marker of a deletion, added to what is queued for its key: it replaces a marker at the end, and
  a deletion with an object at the end stays instead of it.
\<close>

definition with_deletion :: "key \<Rightarrow> 'o object option \<Rightarrow> 'o Deltas \<Rightarrow> 'o Deltas" where
  "with_deletion k ob ds =
     (let marker = Delta Deleted (DeletedFinalStateUnknown k ob)
      in if ds = [] \<or> Type (last ds) \<noteq> Deleted then ds @ [marker]
         else if isDFSU (Object (last ds)) then butlast ds @ [marker]
         else ds)"

lemma dedupDeltas_marker:
  "dedupDeltas (ds @ [Delta Deleted (DeletedFinalStateUnknown k ob)]) = with_deletion k ob ds"
  by (auto simp: with_deletion_def dedupDeltas_snoc Let_def)

lemma with_deletion_again [simp]: "with_deletion k ob (with_deletion k ob ds) = with_deletion k ob ds"
  by (auto simp: with_deletion_def Let_def)

lemma deltas_at_deletion:
  assumes "deltaCompressor f = None"
  shows "deltas_at (snd (queueActionLocked Deleted (DeletedFinalStateUnknown k ob) f)) j
    = (if j = k then with_deletion k ob (deltas_at f k) else deltas_at f j)"
  by (simp add: deltas_at_action [OF KeyOf_DFSU assms] dedupDeltas_marker)

lemma Replace_delete_known_deltas:
  assumes "deltaCompressor f = None"
  shows "deltas_at (snd (Replace_delete_known ko ks keys f)) k =
    (if k \<in> set ks - keys then with_deletion k (knownDeletedObj ko k) (deltas_at f k) else deltas_at f k)"
  using assms by (induction ks arbitrary: f) (auto simp: deltas_at_deletion)

lemma Replace_delete_own_deltas:
  assumes "deltaCompressor f = None" and "distinct (map fst es)"
  shows "deltas_at (snd (Replace_delete_own es keys f)) k =
    (case map_of es k of
       Some d \<Rightarrow> if k \<notin> keys then with_deletion k (map_option Object (Deltas_Newest d)) (deltas_at f k) else deltas_at f k
     | None \<Rightarrow> deltas_at f k)"
  using assms
proof (induction es arbitrary: f)
  case (Cons e es)
  obtain j d where e: "e = (j, d)" by (cases e)
  have none: "map_of es j = None" using Cons.prems(2) e by (simp add: map_of_eq_None_iff)
  show ?case
  proof (cases "j \<in> keys")
    case True
    then show ?thesis using Cons none by (auto simp: e split: option.split)
  next
    case False
    then show ?thesis
      using Cons.IH [of "snd (queueActionLocked Deleted (DeletedFinalStateUnknown j (map_option Object (Deltas_Newest d))) f)"]
        Cons.prems none
      by (auto simp: e deltas_at_deletion split: option.split)
  qed
qed simp

text \<open>
  The keys that \<^verbatim>\<open>Replace\<close> compares with the list, those of the known objects, or its own when there
  are none, and the last known state of an object.
\<close>

definition compared_keys :: "'o KeyListerGetter option \<Rightarrow> 'o DeltaFIFO \<Rightarrow> key set" where
  "compared_keys known f = (case known of None \<Rightarrow> dom (delta_items f) | Some ko \<Rightarrow> set (ko_ListKeys ko))"

definition last_known :: "'o KeyListerGetter option \<Rightarrow> 'o DeltaFIFO \<Rightarrow> key \<Rightarrow> 'o object option" where
  "last_known known f k = (case known of
     None \<Rightarrow> map_option Object (Deltas_Newest (deltas_at f k)) | Some ko \<Rightarrow> knownDeletedObj ko k)"

lemma Replace_delete_own_ok: "fst (Replace_delete_own es keys f) = None"
  by (induction es arbitrary: f) auto

lemma Replace_loops_frame:
  "same_frame f (snd (snd (Replace_sync list keys f)))"
  "same_frame f (snd (Replace_delete_own es keys f))" "same_frame f (snd (Replace_delete_known ko ks keys f))"
  by (rule Replace_sync_keeps Replace_delete_own_keeps Replace_delete_known_keeps; simp add: same_frame_action)+

lemma same_frame_trans: "same_frame f g \<Longrightarrow> same_frame g h \<Longrightarrow> same_frame f h"
  using appends_trans by (auto simp: same_frame_def)

lemma Replace_exact:
  assumes "DeltaFIFO_Replace rng known list f = (None, f')" and "deltaCompressor f = None"
    and "known = None \<Longrightarrow> go_range_ok rng \<and> finite (dom (delta_items f))"
  shows "deltas_at f' k =
      (if k \<in> keys_of f list then deltas_at f k @ map (Delta Sync) (items_of f list k)
       else if k \<in> compared_keys known f then with_deletion k (last_known known f k) (deltas_at f k)
       else deltas_at f k)"
    and "same_frame (if delta_populated f then f
       else f\<lparr>delta_populated := True, delta_initialPopulationCount := int (length list)\<rparr>) f'"
proof -
  define f0 where "f0 = (if \<not> delta_populated f then f\<lparr>delta_populated := True,
      delta_initialPopulationCount := int (length list)\<rparr> else f)"
  have key0: "DeltaFIFO_KeyOf f0 = DeltaFIFO_KeyOf f" by (rule KeyOf_cong) (simp add: f0_def)
  have f0: "deltaCompressor f0 = None" "keys_of f0 list = keys_of f list" "items_of f0 list k = items_of f list k"
    "deltas_at f0 = deltas_at f" "delta_items f0 = delta_items f"
    subgoal using assms(2) by (simp add: f0_def)
    subgoal by (simp add: keys_of_def key0)
    subgoal by (simp add: items_of_def key0)
    subgoal by (simp add: f0_def deltas_at_def fun_eq_iff)
    subgoal by (simp add: f0_def)
    done
  obtain keys g where sync: "Replace_sync list {} f0 = (None, keys, g)"
    and f': "(case known of None \<Rightarrow> Replace_delete_own (rng (delta_items g)) keys g
        | Some ko \<Rightarrow> Replace_delete_known ko (ko_ListKeys ko) keys g) = (None, f')"
    using assms(1) unfolding DeltaFIFO_Replace_def Let_def f0_def [symmetric]
    by (auto split: prod.splits option.splits)
  have S: "keys = keys_of f list" "deltas_at g k = deltas_at f k @ map (Delta Sync) (items_of f list k)"
    "k \<notin> keys_of f list \<Longrightarrow> delta_items g k = delta_items f k" for k
    using Replace_sync_deltas(1) [OF sync f0(1)] Replace_sync_deltas(2,3) [OF sync f0(1), of k] f0(2,4,5) key0
    by (simp_all add: items_of_def)
  have F: "same_frame f0 g" using Replace_loops_frame(1) [of f0 list "{}"] sync by simp
  then have cmp: "deltaCompressor g = None" using f0(1) by (simp add: same_frame_def)
  have other: "items_of f list j = []" "deltas_at g j = deltas_at f j" if "j \<notin> keys_of f list" for j
    using S(2) items_of_nonempty [of f list j] that by simp_all
  show "deltas_at f' k =
      (if k \<in> keys_of f list then deltas_at f k @ map (Delta Sync) (items_of f list k)
       else if k \<in> compared_keys known f then with_deletion k (last_known known f k) (deltas_at f k)
       else deltas_at f k)"
  proof (cases known)
    case (Some ko)
    then have "f' = snd (Replace_delete_known ko (ko_ListKeys ko) keys g)" using f' by simp
    then show ?thesis
      using Replace_delete_known_deltas [OF cmp, where ko = ko and ks = "ko_ListKeys ko" and keys = keys and k = k] S other [of k] Some
      by (auto simp: compared_keys_def last_known_def)
  next
    case None
    have fin: "finite (dom (delta_items g))"
    proof -
      have "finite (dom (delta_items (snd (snd (Replace_sync list {} f0)))))"
        by (rule Replace_sync_keeps [where P = "\<lambda>f. finite (dom (delta_items f))"])
          (use finite_dom_action assms(3) [OF None] f0(5) in auto)
      then show ?thesis by (simp add: sync)
    qed
    have ent: "map_entries (rng (delta_items g)) (delta_items g)"
      by (rule go_rangeD [OF _ fin]) (use assms(3) [OF None] in simp)
    then have map: "map_of (rng (delta_items g)) = delta_items g"
      by (simp add: map_entries_def)
    have "f' = snd (Replace_delete_own (rng (delta_items g)) keys g)" using f' None by simp
    then have own: "deltas_at f' k = (case delta_items g k of
        Some d \<Rightarrow> if k \<notin> keys then with_deletion k (map_option Object (Deltas_Newest d)) (deltas_at g k) else deltas_at g k
      | None \<Rightarrow> deltas_at g k)"
      using Replace_delete_own_deltas [OF cmp map_entries_distinct [OF ent], of keys k] by (simp add: map)
    show ?thesis
    proof (cases "k \<in> keys_of f list")
      case True
      then show ?thesis using own S(1,2) by (auto split: option.split)
    next
      case False
      then show ?thesis using own S(1,3) other(2) [OF False] None
        by (auto simp: compared_keys_def last_known_def deltas_at_def split: option.split)
    qed
  qed
  show "same_frame (if delta_populated f then f
       else f\<lparr>delta_populated := True, delta_initialPopulationCount := int (length list)\<rparr>) f'"
  proof -
    have "same_frame g f'"
    proof (cases known)
      case None
      then show ?thesis using f' Replace_loops_frame(2) [where f = g and es = "rng (delta_items g)" and keys = keys] by simp
    next
      case (Some ko)
      then show ?thesis
        using f' Replace_loops_frame(3) [where f = g and ko = ko and ks = "ko_ListKeys ko" and keys = keys] by simp
    qed
    from same_frame_trans [OF F this] show ?thesis by (simp add: f0_def split: if_splits)
  qed
qed

text \<open>
  C27: What a successful \<^verbatim>\<open>Replace\<close> does to a queue without a compressor, with known objects or
  without.  To what is queued for a listed object it appends a \<^verbatim>\<open>Sync\<close> for each item with its key,
  in the order of the list.  To what is queued for a known object that is not listed (one of the
  queue's own, when there are no known objects) it adds a deletion with the last known state,
  merged with a deletion before it.  What is queued for other keys stays, and so do the keys that
  are queued, in their order, before the new ones: the contents are not deleted and the queue is
  not reset, although the comment on the method says so.  The first change of a new queue makes it
  populated, with the length of the list as the initial count; later these stay.
\<close>

theorem DeltaFIFO_replace_reports:
  assumes "DeltaFIFO_Replace rng known list f = (None, f')" and "delta_strong_inv f"
    and "known = None \<Longrightarrow> go_range_ok rng"
  shows "deltas_at f' k =
      (if k \<in> keys_of f list then deltas_at f k @ map (Delta Sync) (items_of f list k)
       else if k \<in> compared_keys known f then with_deletion k (last_known known f k) (deltas_at f k)
       else deltas_at f k)
    \<and> (\<exists>new. delta_queue f' = delta_queue f @ new)
    \<and> delta_populated f'
    \<and> delta_initialPopulationCount f'
        = (if delta_populated f then delta_initialPopulationCount f else int (length list))"
proof -
  have "deltaCompressor f = None" "finite (dom (delta_items f))"
    using assms(2) List.finite_set [of "delta_queue f"] by (auto simp: delta_strong_inv_def)
  then show ?thesis
    using Replace_exact [OF assms(1)] assms(3) by (auto simp: same_frame_def split: if_splits)
qed

theorem DeltaFIFO_replace_reports_witness:
  "let f = snd (DeltaFIFO_Add (Plain ''b'') (NewDeltaFIFO plain_keyFunc None));
       f' = snd (DeltaFIFO_Replace sorted_range None [Plain ''a''] f)
   in deltas_at f' ''a'' = [Delta Sync (Plain ''a'')]
      \<and> deltas_at f' ''b'' = [Delta Added (Plain ''b''), Delta Deleted (DeletedFinalStateUnknown ''b'' (Some (Plain ''b'')))]"
proof -
  define f where "f = snd (DeltaFIFO_Add (Plain ''b'') (NewDeltaFIFO plain_keyFunc None))"
  define f' where "f' = snd (DeltaFIFO_Replace sorted_range None [Plain ''a''] f)"
  have key: "DeltaFIFO_KeyOf g (Plain ''a'') = Inr ''a''" "DeltaFIFO_KeyOf g (Plain ''b'') = Inr ''b''"
    if "delta_keyFunc g = plain_keyFunc" for g
    using that by (simp_all add: DeltaFIFO_KeyOf_def plain_keyFunc_def string_keyFunc_def)
  have f: "delta_keyFunc f = plain_keyFunc" "delta_items f = [''b'' \<mapsto> [Delta Added (Plain ''b'')]]" "delta_strong_inv f"
    using delta_strong_inv_methods(1) [OF delta_strong_inv_New, of "Plain ''b''" plain_keyFunc]
    by (simp_all add: f_def DeltaFIFO_Add_def NewDeltaFIFO_def queueActionLocked_def key)
  have ok: "DeltaFIFO_Replace sorted_range None [Plain ''a''] f = (None, f')"
    using f(1) by (simp add: f'_def prod_eq_iff DeltaFIFO_Replace_def key Replace_delete_own_ok Let_def)
  have "keys_of f [Plain ''a''] = {''a''}" "items_of f [Plain ''a''] ''a'' = [Plain ''a'']"
    by (simp_all add: keys_of_def items_of_def key f(1))
  then show ?thesis
    using DeltaFIFO_replace_reports [OF ok f(3) sorted_range_ok, of "''a''"]
      DeltaFIFO_replace_reports [OF ok f(3) sorted_range_ok, of "''b''"]
    unfolding Let_def f_def [symmetric] f'_def [symmetric]
    by (simp add: f(2) deltas_at_def compared_keys_def last_known_def with_deletion_def Deltas_Newest_eq)
qed

text \<open>
  \<^verbatim>\<open>HasSynced\<close> counts list entries where the queue counts keys: after a first \<^verbatim>\<open>Replace\<close> whose
  list holds the same object twice, the one queued item is popped, the queue is empty, and
  \<^verbatim>\<open>HasSynced\<close> is still false.
\<close>

theorem DeltaFIFO_duplicate_item_never_synced:
  "let f1 = snd (DeltaFIFO_Replace (\<lambda>_. [(''a'', [Delta Sync (Plain ''a''), Delta Sync (Plain ''a'')])]) None
              [Plain ''a'', Plain ''a''] (NewDeltaFIFO plain_keyFunc None));
       f2 = snd (DeltaFIFO_Pop f1)
   in map_entries [(''a'', [Delta Sync (Plain ''a''), Delta Sync (Plain ''a'')])] (delta_items f1)
      \<and> delta_queue f1 = [''a''] \<and> delta_queue f2 = [] \<and> delta_items f2 = Map.empty
      \<and> \<not> DeltaFIFO_HasSynced f2"
  by (simp add: DeltaFIFO_Replace_def queueActionLocked_def DeltaFIFO_KeyOf_def NewDeltaFIFO_def
      plain_keyFunc_def string_keyFunc_def DeltaFIFO_Pop_def DeltaFIFO_dequeue_def
      DeltaFIFO_HasSynced_def dedupDeltas_def isDup_def isDeletionDup_def map_entries_def fun_eq_iff)

end
