(* ===== verification/Informer.thy ===== *)
theory Informer
  imports Delta_Fifo_History
begin

text \<open>
  \<^verbatim>\<open>pkg/controller/framework/controller.go\<close>: the informer, which keeps a local store in step with
  the objects of the API server.  A Reflector writes what it lists and watches to a
  \<^verbatim>\<open>DeltaFIFO\<close>; \<^verbatim>\<open>processLoop\<close> pops the deltas of an object, applies them to the store and notifies
  a handler.  The queue asks the store which objects are known.

  The two sides run concurrently.  The methods of the queue and of the store each hold a
  lock, so they are the steps; between two of them the other side may run.  A delta that was
  popped and is not yet applied is in \<open>popped\<close>.  \<^verbatim>\<open>Run\<close>, which starts the goroutines, is not
  modelled.  The calls of the handler are recorded in \<open>notified\<close>, oldest first.
\<close>

section \<open>Objects and their keys\<close>

type_synonym 'a resource = "'a keyed object"

text \<open>
  The value that \<^verbatim>\<open>MetaNamespaceKeyFunc\<close> tells apart: an explicit key, or anything else, for which
  it asks \<^verbatim>\<open>meta.Accessor\<close>, the argument \<open>accessor\<close>.
\<close>

fun dynamicType :: "'a resource iface \<Rightarrow> 'a resource iface keyed" where
  "dynamicType (Some (Plain (ExplicitKey key))) = ExplicitKey key"
| "dynamicType obj = ApiObject obj"

type_synonym 'a Accessor = "'a resource iface \<Rightarrow> go_error + string \<times> string"

definition fifoKeyFunc :: "'a Accessor \<Rightarrow> 'a resource \<Rightarrow> go_error + key" where
  "fifoKeyFunc accessor obj = MetaNamespaceKeyFunc accessor (dynamicType (Some obj))"

definition DeletionHandlingMetaNamespaceKeyFunc :: "'a Accessor \<Rightarrow> 'a resource KeyFunc" where
  "DeletionHandlingMetaNamespaceKeyFunc accessor obj =
     (case obj of
        Some (DeletedFinalStateUnknown key _) \<Rightarrow> Inr key
      | _ \<Rightarrow> MetaNamespaceKeyFunc accessor (dynamicType obj))"

section \<open>The controller\<close>

datatype 'a notification =
    OnAdd "'a resource"
  | OnUpdate "'a resource iface" "'a resource"
  | OnDelete "'a resource"

record 'a Controller =
  Queue :: "'a keyed DeltaFIFO"
  clientState :: "'a resource cache"
  RetryOnError :: bool
  popped :: "'a keyed Deltas"
  notified :: "'a notification list"

definition NewIndexerInformer :: "'a Accessor \<Rightarrow> 'a resource Indexers \<Rightarrow> 'a Controller" where
  "NewIndexerInformer accessor ixs =
     \<lparr>Queue = NewDeltaFIFO (fifoKeyFunc accessor) None,
      clientState = NewIndexer (DeletionHandlingMetaNamespaceKeyFunc accessor) ixs,
      RetryOnError = False, popped = [], notified = []\<rparr>"

definition NewInformer :: "'a Accessor \<Rightarrow> 'a Controller" where
  "NewInformer accessor =
     \<lparr>Queue = NewDeltaFIFO (fifoKeyFunc accessor) None,
      clientState = NewStore (DeletionHandlingMetaNamespaceKeyFunc accessor),
      RetryOnError = False, popped = [], notified = []\<rparr>"

text \<open>The store as the queue's known objects; no nil object is ever stored.\<close>

definition knownObjects ::
  "(key, 'a resource iface) go_range \<Rightarrow> 'a resource cache \<Rightarrow> 'a keyed KeyListerGetter" where
  "knownObjects rng s = \<lparr>ko_ListKeys = cache_ListKeys rng s,
     ko_GetByKey = (\<lambda>key. Inr (fst (cache_GetByKey key s)))\<rparr>"

text \<open>
  One round of the loop in \<^verbatim>\<open>Process\<close>.  The pair gives the orders in which the store's write
  visits the index functions.
\<close>

type_synonym 'a orders = "'a resource Indexers_range \<times> 'a resource Indexers_range"

definition processDelta ::
  "'a orders \<Rightarrow> 'a keyed delta \<Rightarrow> 'a resource cache
     \<Rightarrow> 'a resource KeyError option \<times> 'a resource cache \<times> 'a notification list" where
  "processDelta ord d s =
     (let (psd, ps) = ord; obj = Object d
      in if Type d = Deleted
         then (case cache_Delete psd (Some obj) s of
                 (Some err, s') \<Rightarrow> (Some err, s', [])
               | (None, s') \<Rightarrow> (None, s', [OnDelete obj]))
         else (case cache_Get (Some obj) s of
                 Inr (old, True) \<Rightarrow>
                   (case cache_Update psd ps (Some obj) s of
                      (Some err, s') \<Rightarrow> (Some err, s', [])
                    | (None, s') \<Rightarrow> (None, s', [OnUpdate old obj]))
               | _ \<Rightarrow>
                   (case cache_Add psd ps (Some obj) s of
                      (Some err, s') \<Rightarrow> (Some err, s', [])
                    | (None, s') \<Rightarrow> (None, s', [OnAdd obj]))))"

fun Process ::
  "(nat \<Rightarrow> 'a orders) \<Rightarrow> 'a keyed Deltas \<Rightarrow> 'a resource cache
     \<Rightarrow> 'a resource KeyError option \<times> 'a resource cache \<times> 'a notification list" where
  "Process ord [] s = (None, s, [])"
| "Process ord (d # ds) s =
     (case processDelta (ord 0) d s of
        (Some err, s', evs) \<Rightarrow> (Some err, s', evs)
      | (None, s', evs) \<Rightarrow>
          (case Process (\<lambda>i. ord (Suc i)) ds s' of (err, s'', evs') \<Rightarrow> (err, s'', evs @ evs')))"

definition Controller_HasSynced :: "'a Controller \<Rightarrow> bool" where
  "Controller_HasSynced c = DeltaFIFO_HasSynced (Queue c)"

definition Controller_Requeue ::
  "'a resource \<Rightarrow> 'a Controller \<Rightarrow> 'a keyed delta_error option \<times> 'a Controller" where
  "Controller_Requeue obj c =
     (case DeltaFIFO_AddIfNotPresent (DeltasObject [Delta Sync obj]) (Queue c) of
        (err, f) \<Rightarrow> (err, c\<lparr>Queue := f\<rparr>))"

text \<open>The body of \<^verbatim>\<open>processLoop\<close>; where \<^verbatim>\<open>Pop\<close> waits, the state is the one it waits in.\<close>

definition processLoop_body :: "(nat \<Rightarrow> 'a orders) \<Rightarrow> 'a Controller \<Rightarrow> 'a Controller" where
  "processLoop_body ord c =
     (case DeltaFIFO_Pop (Queue c) of
        (None, f) \<Rightarrow> c\<lparr>Queue := f\<rparr>
      | (Some obj, f) \<Rightarrow>
          (case Process ord obj (clientState c) of
             (err, s, evs) \<Rightarrow>
               c\<lparr>Queue := (if err \<noteq> None \<and> RetryOnError c
                           then snd (DeltaFIFO_AddIfNotPresent (DeltasObject obj) f) else f),
                 clientState := s, notified := notified c @ evs\<rparr>))"

fun processLoop :: "(nat \<Rightarrow> nat \<Rightarrow> 'a orders) \<Rightarrow> nat \<Rightarrow> 'a Controller \<Rightarrow> 'a Controller" where
  "processLoop ords 0 c = c"
| "processLoop ords (Suc n) c = processLoop (\<lambda>i. ords (Suc i)) n (processLoop_body (ords 0) c)"

end
