(* ===== verification/Informer_Props.thy ===== *)
theory Informer_Props
  imports Informer
begin

text \<open>
  What the informer promises.  Its abstract state is the \<open>view\<close>: for every key the object
  that the store will hold once everything popped or queued has been processed.  The specification
  is what the informer is told: the objects that the Reflector's calls describe.  The view agrees
  with it except under the keys whose deletion the code dropped; the work of \<^verbatim>\<open>processLoop\<close> leaves
  the view alone, and when there is nothing left to process the view is the store.
\<close>

section \<open>Keys of objects and of deltas\<close>

definition objKey :: "'a Accessor \<Rightarrow> 'a resource \<Rightarrow> go_error + key" where
  "objKey accessor obj = DeletionHandlingMetaNamespaceKeyFunc accessor (Some obj)"

text \<open>The Reflector passes API objects; a \<^verbatim>\<open>Deltas\<close> value is never one.\<close>

fun is_resource :: "'a resource \<Rightarrow> bool" where
  "is_resource (DeltasObject _) = False"
| "is_resource _ = True"

lemma objKey_DFSU [simp]: "objKey accessor (DeletedFinalStateUnknown k ob) = Inr k"
  by (simp add: objKey_def DeletionHandlingMetaNamespaceKeyFunc_def)

lemma KeyOf_objKey:
  assumes "delta_keyFunc f = fifoKeyFunc accessor" and "is_resource obj"
  shows "DeltaFIFO_KeyOf f obj = Inr k \<longleftrightarrow> objKey accessor obj = Inr k"
  using assms
  by (cases obj) (auto simp: DeltaFIFO_KeyOf_def objKey_def DeletionHandlingMetaNamespaceKeyFunc_def
      fifoKeyFunc_def split: sum.splits)

section \<open>The view\<close>

definition stored :: "'a resource cache \<Rightarrow> key \<rightharpoonup> 'a resource" where
  "stored s k = fst (cache_GetByKey k s)"

definition settle :: "'a keyed Deltas \<Rightarrow> 'a resource option \<Rightarrow> 'a resource option" where
  "settle ds old = (if ds = [] then old else if Type (last ds) = Deleted then None
     else Some (Object (last ds)))"

definition in_flight :: "'a Accessor \<Rightarrow> 'a Controller \<Rightarrow> key \<Rightarrow> 'a keyed Deltas" where
  "in_flight accessor c k =
     filter (\<lambda>d. objKey accessor (Object d) = Inr k) (popped c) @ deltas_at (Queue c) k"

definition view :: "'a Accessor \<Rightarrow> 'a Controller \<Rightarrow> key \<rightharpoonup> 'a resource" where
  "view accessor c k = settle (in_flight accessor c k) (stored (clientState c) k)"

lemma settle_append: "settle (xs @ ys) old = settle ys (settle xs old)"
  by (simp add: settle_def)

lemma settle_Nil [simp]: "settle [] old = old"
  by (simp add: settle_def)

lemma settle_single: "settle [Delta t obj] old = (if t = Deleted then None else Some obj)"
  by (simp add: settle_def)

lemma settle_dedup: "settle (dedupDeltas (ds @ [a])) old = settle [a] old'"
  by (simp add: settle_def dedupDeltas_snoc)

section \<open>The store\<close>

definition store_ok :: "'a Accessor \<Rightarrow> 'a resource cache \<Rightarrow> bool" where
  "store_ok accessor s \<longleftrightarrow> keyFunc s = DeletionHandlingMetaNamespaceKeyFunc accessor
     \<and> finite (dom (store_contents s)) \<and> (\<forall>k v. store_contents s k = Some v \<longrightarrow> (\<exists>x. v = Some x))"

lemma cache_GetByKey_eq:
  "store_ok accessor s \<Longrightarrow> cache_GetByKey k s = (stored s k, stored s k \<noteq> None)"
  by (auto simp: stored_def cache_GetByKey_def threadSafeMap_Get_def item_at_def store_ok_def
      split: option.splits)

lemma stored_eq: "stored s k = Option.bind (store_contents s k) id"
  by (simp add: stored_def cache_GetByKey_def threadSafeMap_Get_def item_at_def split: option.split)

lemma dom_stored: "store_ok accessor s \<Longrightarrow> dom (stored s) = dom (store_contents s)"
  by (auto simp: stored_eq store_ok_def bind_eq_Some_conv)

lemma set_ListKeys:
  assumes "store_ok accessor s" and "go_range_ok rng"
  shows "set (cache_ListKeys rng s) = dom (stored s)"
  using map_entries_dom [OF go_rangeD [OF assms(2)]] assms(1)
  by (simp add: cache_ListKeys_def threadSafeMap_ListKeys_eq dom_stored [OF assms(1)] store_ok_def)

lemma store_ok_writes:
  assumes "store_ok accessor s" and "objKey accessor obj = Inr k"
  shows "\<exists>s'. cache_Add psd ps (Some obj) s = (None, s') \<and> store_ok accessor s'
      \<and> stored s' = (stored s)(k \<mapsto> obj)"
    and "\<exists>s'. cache_Delete psd (Some obj) s = (None, s') \<and> store_ok accessor s'
      \<and> stored s' = (stored s)(k := None)"
  using assms
  by (auto simp: cache_Add_def cache_Delete_def objKey_def store_ok_def stored_eq fun_eq_iff)

text \<open>One delta: the store afterwards, and the notification, which depends on what was there.\<close>

definition notification_for :: "'a keyed delta \<Rightarrow> 'a resource option \<Rightarrow> 'a notification" where
  "notification_for d old = (if Type d = Deleted then OnDelete (Object d)
     else if old = None then OnAdd (Object d) else OnUpdate old (Object d))"

lemma processDelta_spec:
  assumes "store_ok accessor s" and "objKey accessor (Object d) = Inr k"
  shows "\<exists>s'. processDelta ord d s = (None, s', [notification_for d (stored s k)])
    \<and> store_ok accessor s' \<and> stored s' = (stored s)(k := settle [d] (stored s k))"
proof -
  have get: "cache_Get (Some (Object d)) s = Inr (stored s k, stored s k \<noteq> None)"
    using assms cache_GetByKey_eq [OF assms(1)]
    by (simp add: cache_Get_def objKey_def store_ok_def)
  obtain s1 where s1: "cache_Add (fst ord) (snd ord) (Some (Object d)) s = (None, s1)"
    "store_ok accessor s1" "stored s1 = (stored s)(k \<mapsto> Object d)"
    using store_ok_writes(1) [OF assms] by blast
  obtain s2 where s2: "cache_Delete (fst ord) (Some (Object d)) s = (None, s2)"
    "store_ok accessor s2" "stored s2 = (stored s)(k := None)"
    using store_ok_writes(2) [OF assms] by blast
  show ?thesis
    using s1 s2
    by (cases "stored s k"; cases "Type d = Deleted")
      (simp_all add: processDelta_def case_prod_beta get cache_Update_eq_Add notification_for_def settle_def)
qed

section \<open>Steps\<close>

text \<open>
  \<^verbatim>\<open>watch\<close> steps are the Reflector's calls, \<open>requeue\<close> a call of \<^verbatim>\<open>Requeue\<close>, and the last three
  \<^verbatim>\<open>processLoop\<close>: popping, applying one delta, and giving up the rest after an error.  \<^verbatim>\<open>Replace\<close>
  asks the store for its keys once and for the objects one by one, so the latter, \<open>getter\<close>,
  may be what other states of the store answer.
\<close>

datatype 'a action =
    WatchAdd "'a resource" | WatchUpdate "'a resource" | WatchDelete "'a resource"
  | Relist "'a resource list" | Requeue "'a resource" | Work

inductive informer_step :: "'a Accessor \<Rightarrow> 'a action \<Rightarrow> 'a Controller \<Rightarrow> 'a Controller \<Rightarrow> bool"
  for accessor where
  watch_add: "is_resource obj \<Longrightarrow> informer_step accessor (WatchAdd obj) c
     (c\<lparr>Queue := snd (DeltaFIFO_Add obj (Queue c))\<rparr>)"
| watch_update: "is_resource obj \<Longrightarrow> informer_step accessor (WatchUpdate obj) c
     (c\<lparr>Queue := snd (DeltaFIFO_Update obj (Queue c))\<rparr>)"
| watch_delete: "is_resource obj \<Longrightarrow> informer_step accessor (WatchDelete obj) c
     (c\<lparr>Queue := snd (DeltaFIFO_Delete (Some (knownObjects rng (clientState c))) obj (Queue c))\<rparr>)"
| relist: "go_range_ok rng \<Longrightarrow> list_all is_resource list \<Longrightarrow> informer_step accessor (Relist list) c
     (c\<lparr>Queue := snd (DeltaFIFO_Replace rng' (Some ((knownObjects rng (clientState c))\<lparr>ko_GetByKey := getter\<rparr>))
        list (Queue c))\<rparr>)"
| requeue: "is_resource obj \<Longrightarrow> informer_step accessor (Requeue obj) c (snd (Controller_Requeue obj c))"
| pop: "popped c = [] \<Longrightarrow> DeltaFIFO_Pop (Queue c) = (Some ds, f) \<Longrightarrow>
     informer_step accessor Work c (c\<lparr>Queue := f, popped := ds\<rparr>)"
| process: "popped c = d # ds \<Longrightarrow> processDelta ord d (clientState c) = (None, s, evs) \<Longrightarrow>
     informer_step accessor Work c (c\<lparr>clientState := s, popped := ds, notified := notified c @ evs\<rparr>)"
| give_up: "popped c = d # ds \<Longrightarrow> processDelta ord d (clientState c) = (Some err, s, evs) \<Longrightarrow>
     informer_step accessor Work c (c\<lparr>clientState := s, popped := [], notified := notified c @ evs\<rparr>)"

inductive informer_reachable :: "'a Accessor \<Rightarrow> 'a Controller \<Rightarrow> bool" for accessor where
  start: "informer_reachable accessor (NewIndexerInformer accessor ixs)"
| step: "informer_reachable accessor c \<Longrightarrow> informer_step accessor a c c' \<Longrightarrow> informer_reachable accessor c'"

section \<open>What the informer is told\<close>

text \<open>
  The specification: the objects that the calls of the Reflector (and of \<^verbatim>\<open>Requeue\<close>) describe, in
  terms of the calls alone.  A watched change puts or removes one object; a relist of objects that
  have keys describes exactly those objects, the last of each key; one that stops at an object
  without a key has told of the objects before it.  \<^verbatim>\<open>Requeue\<close> asks for an object unless
  something newer is queued for its key.
\<close>

definition put :: "'a Accessor \<Rightarrow> 'a resource \<Rightarrow> (key \<rightharpoonup> 'a resource) \<Rightarrow> key \<rightharpoonup> 'a resource" where
  "put accessor obj m = (case objKey accessor obj of Inl _ \<Rightarrow> m | Inr k \<Rightarrow> m(k \<mapsto> obj))"

definition listed :: "'a Accessor \<Rightarrow> 'a resource list \<Rightarrow> key set" where
  "listed accessor list = {k. \<exists>item \<in> set list. objKey accessor item = Inr k}"

definition has_key :: "'a Accessor \<Rightarrow> 'a resource \<Rightarrow> bool" where
  "has_key accessor obj \<longleftrightarrow> (\<exists>k. objKey accessor obj = Inr k)"

abbreviation put_all :: "'a Accessor \<Rightarrow> 'a resource list \<Rightarrow> (key \<rightharpoonup> 'a resource) \<Rightarrow> key \<rightharpoonup> 'a resource" where
  "put_all accessor \<equiv> fold (put accessor)"

fun told_by :: "'a Accessor \<Rightarrow> 'a action \<Rightarrow> 'a Controller \<Rightarrow> (key \<rightharpoonup> 'a resource) \<Rightarrow> key \<rightharpoonup> 'a resource" where
  "told_by accessor (WatchAdd obj) c m = put accessor obj m"
| "told_by accessor (WatchUpdate obj) c m = put accessor obj m"
| "told_by accessor (WatchDelete obj) c m = (case objKey accessor obj of Inl _ \<Rightarrow> m | Inr k \<Rightarrow> m(k := None))"
| "told_by accessor (Relist list) c m =
     (if list_all (has_key accessor) list then put_all accessor list Map.empty
      else put_all accessor (takeWhile (has_key accessor) list) m)"
| "told_by accessor (Requeue obj) c m =
     (case objKey accessor obj of
        Inl _ \<Rightarrow> m | Inr k \<Rightarrow> if delta_items (Queue c) k = None then m(k \<mapsto> obj) else m)"
| "told_by accessor Work c m = m"

text \<open>
  The code has a gap: it takes an object for known if it is stored.  The objects on the way are those
  that are not stored yet and will be.  A deletion of one of them, watched or implied by a relist,
  is dropped: its key is lost, until the key is told of again or the object is deleted when it is
  stored.
\<close>

definition on_the_way :: "'a Accessor \<Rightarrow> 'a Controller \<Rightarrow> key set" where
  "on_the_way accessor c = {k. stored (clientState c) k = None \<and> view accessor c k \<noteq> None}"

fun lost_by :: "'a Accessor \<Rightarrow> 'a action \<Rightarrow> 'a Controller \<Rightarrow> key set \<Rightarrow> key set" where
  "lost_by accessor (WatchAdd obj) c lost = lost - listed accessor [obj]"
| "lost_by accessor (WatchUpdate obj) c lost = lost - listed accessor [obj]"
| "lost_by accessor (WatchDelete obj) c lost =
     lost - listed accessor [obj] \<union> (listed accessor [obj] \<inter> on_the_way accessor c)"
| "lost_by accessor (Relist list) c lost =
     (if list_all (has_key accessor) list then on_the_way accessor c - listed accessor list
      else lost - listed accessor (takeWhile (has_key accessor) list))"
| "lost_by accessor (Requeue obj) c lost = lost - (listed accessor [obj] - dom (delta_items (Queue c)))"
| "lost_by accessor Work c lost = lost"

inductive informer_run ::
  "'a Accessor \<Rightarrow> 'a Controller \<Rightarrow> (key \<rightharpoonup> 'a resource) \<Rightarrow> key set \<Rightarrow> bool" for accessor where
  run_start: "informer_run accessor (NewIndexerInformer accessor ixs) Map.empty {}"
| run_step: "informer_run accessor c m lost \<Longrightarrow> informer_step accessor a c c' \<Longrightarrow>
     informer_run accessor c' (told_by accessor a c m) (lost_by accessor a c lost)"

text \<open>The ghost state does not restrict the runs.\<close>

lemma informer_run_reachable: "informer_reachable accessor c \<longleftrightarrow> (\<exists>m lost. informer_run accessor c m lost)"
proof
  show "informer_reachable accessor c \<Longrightarrow> \<exists>m lost. informer_run accessor c m lost"
    by (induction rule: informer_reachable.induct) (blast intro: run_start run_step)+
  show "\<exists>m lost. informer_run accessor c m lost \<Longrightarrow> informer_reachable accessor c"
  proof (elim exE)
    show "informer_run accessor c m lost \<Longrightarrow> informer_reachable accessor c" for m lost
      by (induction rule: informer_run.induct) (blast intro: start step)+
  qed
qed

section \<open>The invariant\<close>

text \<open>The queue without a compressor, with every delta under the key of its object.\<close>

definition queue_ok :: "'a Accessor \<Rightarrow> 'a keyed DeltaFIFO \<Rightarrow> bool" where
  "queue_ok accessor f \<longleftrightarrow> delta_strong_inv f \<and> delta_keyFunc f = fifoKeyFunc accessor
     \<and> (\<forall>k. \<forall>d \<in> set (deltas_at f k). objKey accessor (Object d) = Inr k)"

definition informer_inv :: "'a Accessor \<Rightarrow> 'a Controller \<Rightarrow> bool" where
  "informer_inv accessor c \<longleftrightarrow> queue_ok accessor (Queue c) \<and> store_ok accessor (clientState c)
     \<and> \<not> RetryOnError c \<and> (\<forall>d \<in> set (popped c). \<exists>k. objKey accessor (Object d) = Inr k)"

lemma informer_inv_New: "informer_inv accessor (NewIndexerInformer accessor ixs)"
  by (simp add: informer_inv_def queue_ok_def NewIndexerInformer_def go_inv deltas_at_def
      store_ok_def NewIndexer_def NewThreadSafeStore_def) (simp add: NewDeltaFIFO_def)

lemma queue_okD:
  assumes "queue_ok accessor f"
  shows "deltaCompressor f = None" "delta_inv f" "delta_strong_inv f"
    "is_resource obj \<Longrightarrow> DeltaFIFO_KeyOf f obj = Inr k \<longleftrightarrow> objKey accessor obj = Inr k"
  using assms KeyOf_objKey by (auto simp: queue_ok_def delta_strong_inv_def delta_inv_def)

lemma set_dedupDeltas: "set (dedupDeltas (ds @ [a])) \<subseteq> insert a (set ds)"
  by (auto simp: dedupDeltas_snoc dest: in_set_butlastD)

text \<open>What is settled for a key after an action of the queue.\<close>

lemma action_view:
  assumes "queue_ok accessor f" and "is_resource obj"
  shows "queue_ok accessor (snd (queueActionLocked t obj f))
    \<and> settle (deltas_at (snd (queueActionLocked t obj f)) j) old
        = (if objKey accessor obj = Inr j then settle [Delta t obj] old else settle (deltas_at f j) old)"
proof (cases "DeltaFIFO_KeyOf f obj")
  case (Inl e)
  then have "objKey accessor obj \<noteq> Inr j" using queue_okD(4) [OF assms, of j] by simp
  then show ?thesis using Inl assms(1) by (simp add: queueActionLocked_error)
next
  case (Inr k)
  then have k: "objKey accessor obj = Inr k" using queue_okD(4) [OF assms] by blast
  note eq = deltas_at_action [OF Inr queue_okD(1) [OF assms(1)], of t]
  have "objKey accessor (Object d) = Inr i" if "d \<in> set (deltas_at (snd (queueActionLocked t obj f)) i)" for d i
    using that assms(1) k set_dedupDeltas [of "deltas_at f k" "Delta t obj"]
    by (auto simp: eq queue_ok_def split: if_splits)
  then have "queue_ok accessor (snd (queueActionLocked t obj f))"
    using assms(1) by (simp add: queue_ok_def go_inv)
  then show ?thesis
    using settle_dedup [of "deltas_at f k" "Delta t obj" old old] by (auto simp: eq k)
qed

lemma queue_ok_flags [simp]:
  "queue_ok accessor (f\<lparr>delta_populated := b\<rparr>) = queue_ok accessor f"
  "queue_ok accessor f \<Longrightarrow> queue_ok accessor (f\<lparr>delta_populated := b, delta_initialPopulationCount := int n\<rparr>)"
  by (auto simp: queue_ok_def deltas_at_def delta_inv_count)

lemma deltas_at_flags [simp]:
  "deltas_at (f\<lparr>delta_populated := b\<rparr>) = deltas_at f"
  "deltas_at (f\<lparr>delta_populated := b, delta_initialPopulationCount := n\<rparr>) = deltas_at f"
  by (simp_all add: deltas_at_def fun_eq_iff)

text \<open>\<^verbatim>\<open>Replace\<close>: when an item has no key it stops, having queued some items and no deletion.\<close>

definition settled :: "'a keyed DeltaFIFO \<Rightarrow> (key \<rightharpoonup> 'a resource) \<Rightarrow> key \<rightharpoonup> 'a resource" where
  "settled f old = (\<lambda>k. settle (deltas_at f k) (old k))"

lemma put_all_eq:
  "put_all accessor list m k = (if k \<in> listed accessor list then put_all accessor list Map.empty k else m k)"
proof (induction list arbitrary: m)
  case (Cons item list)
  have k: "k \<in> listed accessor (item # list) \<longleftrightarrow> objKey accessor item = Inr k \<or> k \<in> listed accessor list"
    by (auto simp: listed_def)
  show ?case
    using Cons.IH [of "put accessor item m"] Cons.IH [of "put accessor item Map.empty"]
    by (auto simp: k put_def split: sum.split)
qed (simp add: listed_def)

lemma action_settled:
  assumes "queue_ok accessor f" and "is_resource obj"
  shows "queue_ok accessor (snd (queueActionLocked t obj f))"
    and "t \<noteq> Deleted \<Longrightarrow> settled (snd (queueActionLocked t obj f)) old = put accessor obj (settled f old)"
  using action_view [OF assms] by (auto simp: settled_def put_def settle_single fun_eq_iff split: sum.split)

lemma Replace_sync_settled:
  assumes "queue_ok accessor f" and "list_all is_resource list"
  shows "queue_ok accessor (snd (snd (Replace_sync list keys f)))
    \<and> (fst (Replace_sync list keys f) = None \<longleftrightarrow> list_all (has_key accessor) list)
    \<and> settled (snd (snd (Replace_sync list keys f))) old = put_all accessor (takeWhile (has_key accessor) list) (settled f old)"
  using assms
proof (induction list arbitrary: keys f)
  case (Cons item list)
  have item: "is_resource item" using Cons.prems(2) by simp
  show ?case
  proof (cases "DeltaFIFO_KeyOf f item")
    case (Inl e)
    then have "\<not> has_key accessor item"
      using queue_okD(4) [OF Cons.prems(1) item] by (auto simp: has_key_def)
    then show ?thesis using Inl Cons.prems(1) by simp
  next
    case (Inr k)
    then have "has_key accessor item" using queue_okD(4) [OF Cons.prems(1) item] by (auto simp: has_key_def)
    then show ?thesis
      using Inr Cons.IH [OF action_settled(1) [OF Cons.prems(1) item]] Cons.prems(2)
        action_settled(2) [OF Cons.prems(1) item, of Sync old] by simp
  qed
qed simp

lemma Replace_delete_known_settled:
  assumes "queue_ok accessor f"
  shows "queue_ok accessor (snd (Replace_delete_known ko ks keys f))
    \<and> fst (Replace_delete_known ko ks keys f) = None
    \<and> settled (snd (Replace_delete_known ko ks keys f)) old = (\<lambda>k. if k \<in> set ks - keys then None else settled f old k)"
  using assms
proof (induction ks arbitrary: f)
  case (Cons k ks)
  note A = action_view [of accessor f "DeletedFinalStateUnknown k (knownDeletedObj ko k)" Deleted]
  show ?case
  proof (cases "k \<in> keys")
    case True
    then show ?thesis using Cons by (auto simp: fun_eq_iff)
  next
    case False
    then show ?thesis
      using Cons.IH [of "snd (queueActionLocked Deleted (DeletedFinalStateUnknown k (knownDeletedObj ko k)) f)"] A Cons.prems
      by (auto simp: fun_eq_iff settled_def settle_single)
  qed
qed simp

lemma keys_of_listed:
  assumes "queue_ok accessor f" and "list_all is_resource list"
  shows "keys_of f list = listed accessor list"
proof -
  have "DeltaFIFO_KeyOf f item = Inr k \<longleftrightarrow> objKey accessor item = Inr k" if "item \<in> set list" for item k
    using queue_okD(4) [OF assms(1)] assms(2) that by (simp add: list_all_iff)
  then show ?thesis unfolding keys_of_def listed_def by blast
qed

lemma Replace_settled:
  assumes "queue_ok accessor f" and "list_all is_resource list" and g_def: "g = snd (DeltaFIFO_Replace rng (Some ko) list f)"
  shows "queue_ok accessor g"
    and "settled g old = (if list_all (has_key accessor) list
       then (\<lambda>k. if k \<in> listed accessor list then put_all accessor list Map.empty k
                 else if k \<in> set (ko_ListKeys ko) then None else settled f old k)
       else put_all accessor (takeWhile (has_key accessor) list) (settled f old))"
proof -
  define f0 where "f0 = (if \<not> delta_populated f then f\<lparr>delta_populated := True,
      delta_initialPopulationCount := int (length list)\<rparr> else f)"
  have f0: "queue_ok accessor f0" "settled f0 old = settled f old" using assms(1) by (simp_all add: f0_def settled_def)
  obtain e keys g1 where g1: "Replace_sync list {} f0 = (e, keys, g1)"
    by (cases "Replace_sync list {} f0") auto
  note S = Replace_sync_settled [OF f0(1) assms(2), of "{}" old, unfolded g1 f0(2), simplified]
  note D = Replace_delete_known_settled [of accessor g1 ko "ko_ListKeys ko" keys old]
  have eq: "g = snd (case e of None \<Rightarrow> Replace_delete_known ko (ko_ListKeys ko) keys g1 | Some err \<Rightarrow> (Some err, g1))"
    unfolding g_def DeltaFIFO_Replace_def Let_def f0_def [symmetric] g1 by (simp split: option.split)
  show "queue_ok accessor g" using S D by (simp add: eq split: option.split)
  show "settled g old = (if list_all (has_key accessor) list
       then (\<lambda>k. if k \<in> listed accessor list then put_all accessor list Map.empty k
                 else if k \<in> set (ko_ListKeys ko) then None else settled f old k)
       else put_all accessor (takeWhile (has_key accessor) list) (settled f old))"
  proof (cases "list_all (has_key accessor) list")
    case True
    then have all: "takeWhile (has_key accessor) list = list" by (simp add: list_all_iff)
    have e: "e = None" using S True by simp
    have "keys = listed accessor list"
      using Replace_sync_deltas(1) [OF g1 [unfolded e] queue_okD(1) [OF f0(1)]] keys_of_listed [OF f0(1) assms(2)] by simp
    moreover have "settled g1 old k = (if k \<in> listed accessor list then put_all accessor list Map.empty k else settled f old k)" for k
      using S put_all_eq [of accessor list "settled f old" k] by (simp add: all)
    ultimately show ?thesis using S D True by (auto simp: eq e fun_eq_iff)
  next
    case False
    then show ?thesis using S by (auto simp: eq split: option.split)
  qed
qed

section \<open>The informer refines the view\<close>

text \<open>A step of the queue alone: the view changes where what is settled there changes.\<close>

lemma view_Queue:
  "view accessor (c\<lparr>Queue := f\<rparr>) k
     = settle (deltas_at f k) (settle (filter (\<lambda>d. objKey accessor (Object d) = Inr k) (popped c))
         (stored (clientState c) k))"
  by (simp add: view_def in_flight_def settle_append)

lemma view_eq:
  "view accessor c k
     = settle (deltas_at (Queue c) k) (settle (filter (\<lambda>d. objKey accessor (Object d) = Inr k) (popped c))
         (stored (clientState c) k))"
  by (simp add: view_def in_flight_def settle_append)

lemma informer_inv_Queue:
  "informer_inv accessor c \<Longrightarrow> queue_ok accessor f \<Longrightarrow> informer_inv accessor (c\<lparr>Queue := f\<rparr>)"
  by (simp add: informer_inv_def)

lemma action_step_view:
  assumes "informer_inv accessor c" and "is_resource obj"
    and "f = snd (queueActionLocked t obj (Queue c\<lparr>delta_populated := True\<rparr>))"
  shows "informer_inv accessor (c\<lparr>Queue := f\<rparr>)"
    and "view accessor (c\<lparr>Queue := f\<rparr>) = (case objKey accessor obj of Inl _ \<Rightarrow> view accessor c
      | Inr k \<Rightarrow> (view accessor c)(k := (if t = Deleted then None else Some obj)))"
proof -
  have ok: "queue_ok accessor (Queue c\<lparr>delta_populated := True\<rparr>)"
    using assms(1) by (simp add: informer_inv_def)
  note A = action_view [OF ok assms(2), of t, folded assms(3)]
  show "informer_inv accessor (c\<lparr>Queue := f\<rparr>)" using informer_inv_Queue [OF assms(1)] A by blast
  show "view accessor (c\<lparr>Queue := f\<rparr>) = (case objKey accessor obj of Inl _ \<Rightarrow> view accessor c
      | Inr k \<Rightarrow> (view accessor c)(k := (if t = Deleted then None else Some obj)))"
    using A by (auto simp: fun_eq_iff view_Queue view_eq [of _ c] settle_single split: sum.split)
qed

lemma watch_delete_view:
  assumes "informer_inv accessor c" and "is_resource obj"
    and "f = snd (DeltaFIFO_Delete (Some (knownObjects rng (clientState c))) obj (Queue c))"
  shows "informer_inv accessor (c\<lparr>Queue := f\<rparr>)"
    and "view accessor (c\<lparr>Queue := f\<rparr>) = (case objKey accessor obj of Inl _ \<Rightarrow> view accessor c
      | Inr k \<Rightarrow> if stored (clientState c) k \<noteq> None then (view accessor c)(k := None) else view accessor c)"
proof -
  have ok: "queue_ok accessor (Queue c)" using assms(1) by (simp add: informer_inv_def)
  have known: "ko_GetByKey (knownObjects rng (clientState c)) k = Inr (stored (clientState c) k)" for k
    by (simp add: knownObjects_def stored_def)
  note act = action_step_view [OF assms(1,2) refl, of Deleted]
  have f: "f = (case DeltaFIFO_KeyOf (Queue c) obj of Inl _ \<Rightarrow> Queue c
      | Inr k \<Rightarrow> if stored (clientState c) k = None then Queue c\<lparr>delta_populated := True\<rparr>
          else snd (queueActionLocked Deleted obj (Queue c\<lparr>delta_populated := True\<rparr>)))"
    using assms(3) by (simp add: DeltaFIFO_Delete_def known split: sum.split)
  have same: "view accessor (c\<lparr>Queue := Queue c\<lparr>delta_populated := True\<rparr>\<rparr>) = view accessor c"
    by (simp add: fun_eq_iff view_Queue view_eq [of _ c])
  show "informer_inv accessor (c\<lparr>Queue := f\<rparr>)"
    using act(1) informer_inv_Queue [OF assms(1)] ok assms(1)
    by (cases "DeltaFIFO_KeyOf (Queue c) obj") (simp_all add: f)
  show "view accessor (c\<lparr>Queue := f\<rparr>) = (case objKey accessor obj of Inl _ \<Rightarrow> view accessor c
      | Inr k \<Rightarrow> if stored (clientState c) k \<noteq> None then (view accessor c)(k := None) else view accessor c)"
  proof (cases "DeltaFIFO_KeyOf (Queue c) obj")
    case (Inl e)
    then obtain e' where "objKey accessor obj = Inl e'"
      using queue_okD(4) [OF ok assms(2)] by (cases "objKey accessor obj") auto
    then show ?thesis using Inl by (simp add: f)
  next
    case (Inr k)
    then have "objKey accessor obj = Inr k" using queue_okD(4) [OF ok assms(2)] by blast
    then show ?thesis using Inr act(2) same by (simp add: f)
  qed
qed

lemma requeue_view:
  assumes "informer_inv accessor c" and "is_resource obj"
  shows "informer_inv accessor (snd (Controller_Requeue obj c))"
    and "view accessor (snd (Controller_Requeue obj c)) = told_by accessor (Requeue obj) c (view accessor c)"
proof -
  define f where "f = snd (DeltaFIFO_AddIfNotPresent (DeltasObject [Delta Sync obj]) (Queue c))"
  have ok: "queue_ok accessor (Queue c)" using assms(1) by (simp add: informer_inv_def)
  have eq: "snd (Controller_Requeue obj c) = c\<lparr>Queue := f\<rparr>"
    by (simp add: Controller_Requeue_def f_def case_prod_beta)
  have strong: "delta_strong_inv f" using ok by (simp add: f_def go_inv queue_ok_def)
  have key: "delta_keyFunc f = delta_keyFunc (Queue c)"
    by (simp add: f_def DeltaFIFO_AddIfNotPresent_def split: sum.split option.split)
  have obj: "DeltaFIFO_KeyOf (Queue c) obj = Inr k \<longleftrightarrow> objKey accessor obj = Inr k" for k
    by (rule queue_okD(4) [OF ok assms(2)])
  have "queue_ok accessor f \<and> view accessor (c\<lparr>Queue := f\<rparr>) = told_by accessor (Requeue obj) c (view accessor c)"
  proof (cases "\<exists>k. objKey accessor obj = Inr k \<and> delta_items (Queue c) k = None")
    case True
    then obtain k where k: "objKey accessor obj = Inr k" "delta_items (Queue c) k = None" by blast
    then have "deltas_at f = (deltas_at (Queue c))(k := [Delta Sync obj])"
      using obj [of k] by (simp add: f_def DeltaFIFO_AddIfNotPresent_def Deltas_Newest_eq deltas_at_def fun_eq_iff)
    then show ?thesis
      using ok strong key k by (simp add: queue_ok_def fun_eq_iff view_Queue view_eq [of _ c] settle_single)
  next
    case False
    have "deltas_at f = deltas_at (Queue c)"
    proof (cases "DeltaFIFO_KeyOf (Queue c) obj")
      case (Inl e)
      then show ?thesis by (simp add: f_def DeltaFIFO_AddIfNotPresent_def Deltas_Newest_eq)
    next
      case (Inr k)
      then show ?thesis
        using False obj [of k] by (auto simp: f_def DeltaFIFO_AddIfNotPresent_def Deltas_Newest_eq deltas_at_def fun_eq_iff)
    qed
    then show ?thesis
      using ok strong key False by (auto simp: queue_ok_def fun_eq_iff view_Queue view_eq [of _ c] split: sum.split)
  qed
  then show "informer_inv accessor (snd (Controller_Requeue obj c))"
    and "view accessor (snd (Controller_Requeue obj c)) = told_by accessor (Requeue obj) c (view accessor c)"
    unfolding eq using informer_inv_Queue [OF assms(1)] by blast+
qed

text \<open>The worker's steps leave the view alone.\<close>

lemma pop_view:
  assumes "informer_inv accessor c" and "popped c = []" and "DeltaFIFO_Pop (Queue c) = (Some ds, f)"
  shows "informer_inv accessor (c\<lparr>Queue := f, popped := ds\<rparr>)"
    and "view accessor (c\<lparr>Queue := f, popped := ds\<rparr>) = view accessor c"
proof -
  have ok: "queue_ok accessor (Queue c)" using assms(1) by (simp add: informer_inv_def)
  obtain k ks where "delta_pending (Queue c) = k # ks"
    using deltas.pop_blocks [OF queue_okD(2) [OF ok]] assms(3)
    by (cases "delta_pending (Queue c)") auto
  with DeltaFIFO_Pop_first [OF queue_okD(2) [OF ok]] assms(3) queue_okD(3) [OF ok]
  have k: "delta_items (Queue c) k = Some ds" and f: "delta_items f = (delta_items (Queue c))(k := None)"
    "delta_strong_inv f" "delta_keyFunc f = delta_keyFunc (Queue c)"
    by fastforce+
  have at: "deltas_at f = (deltas_at (Queue c))(k := [])" "deltas_at (Queue c) k = ds"
    using k f(1) by (simp_all add: deltas_at_def fun_eq_iff)
  have key: "objKey accessor (Object d) = Inr k" if "d \<in> set ds" for d
    using ok at(2) that by (auto simp: queue_ok_def)
  have "queue_ok accessor f" using ok f at(1) by (simp add: queue_ok_def)
  then show "informer_inv accessor (c\<lparr>Queue := f, popped := ds\<rparr>)"
    using assms(1) key by (auto simp: informer_inv_def)
  have "filter (\<lambda>d. objKey accessor (Object d) = Inr j) ds = (if j = k then ds else [])" for j
    using key by (auto simp: filter_id_conv filter_empty_conv)
  then show "view accessor (c\<lparr>Queue := f, popped := ds\<rparr>) = view accessor c"
    using at assms(2) by (simp add: fun_eq_iff view_def in_flight_def)
qed

lemma process_view:
  assumes "informer_inv accessor c" and "popped c = d # ds"
    and "processDelta ord d (clientState c) = (err, s, evs)"
  shows "err = None" and "informer_inv accessor (c\<lparr>clientState := s, popped := ds, notified := nt\<rparr>)"
    and "view accessor (c\<lparr>clientState := s, popped := ds, notified := nt\<rparr>) = view accessor c"
    and "\<exists>k. objKey accessor (Object d) = Inr k
      \<and> evs = [notification_for d (stored (clientState c) k)]
      \<and> stored s = (stored (clientState c))(k := settle [d] (stored (clientState c) k))"
proof -
  have st: "store_ok accessor (clientState c)" using assms(1) by (simp add: informer_inv_def)
  obtain k where k: "objKey accessor (Object d) = Inr k"
    using assms(1,2) by (auto simp: informer_inv_def)
  from processDelta_spec [OF st k, of ord] assms(3)
  have P: "err = None" "store_ok accessor s" "evs = [notification_for d (stored (clientState c) k)]"
    "stored s = (stored (clientState c))(k := settle [d] (stored (clientState c) k))"
    by auto
  then show "err = None" and "\<exists>k. objKey accessor (Object d) = Inr k
      \<and> evs = [notification_for d (stored (clientState c) k)]
      \<and> stored s = (stored (clientState c))(k := settle [d] (stored (clientState c) k))"
    using k by blast+
  show "informer_inv accessor (c\<lparr>clientState := s, popped := ds, notified := nt\<rparr>)"
    using assms(1,2) P(2) by (simp add: informer_inv_def)
  have "settle ds' (settle [d] old) = settle (d # ds') old" for ds' old
    using settle_append [of "[d]" ds' old] by simp
  then show "view accessor (c\<lparr>clientState := s, popped := ds, notified := nt\<rparr>) = view accessor c"
    using assms(2) k by (simp add: fun_eq_iff view_eq P(4))
qed

lemma relist_view:
  assumes "informer_inv accessor c" and "go_range_ok rng" and "list_all is_resource list"
    and "f = snd (DeltaFIFO_Replace rng' (Some ((knownObjects rng (clientState c))\<lparr>ko_GetByKey := getter\<rparr>))
        list (Queue c))"
  shows "informer_inv accessor (c\<lparr>Queue := f\<rparr>)"
    and "view accessor (c\<lparr>Queue := f\<rparr>) = (if list_all (has_key accessor) list
       then (\<lambda>k. if k \<in> listed accessor list then put_all accessor list Map.empty k
                 else if stored (clientState c) k \<noteq> None then None else view accessor c k)
       else put_all accessor (takeWhile (has_key accessor) list) (view accessor c))"
proof -
  define ko where "ko = (knownObjects rng (clientState c))\<lparr>ko_GetByKey := getter\<rparr>"
  have ok: "queue_ok accessor (Queue c)" and st: "store_ok accessor (clientState c)"
    using assms(1) by (simp_all add: informer_inv_def)
  have f: "f = snd (DeltaFIFO_Replace rng' (Some ko) list (Queue c))" using assms(4) by (simp add: ko_def)
  have known: "set (ko_ListKeys ko) = dom (stored (clientState c))"
    using set_ListKeys [OF st assms(2)] by (simp add: ko_def knownObjects_def)
  define old where "old = (\<lambda>k. settle (filter (\<lambda>d. objKey accessor (Object d) = Inr k) (popped c)) (stored (clientState c) k))"
  have V: "view accessor (c\<lparr>Queue := g\<rparr>) = settled g old" "view accessor c = settled (Queue c) old" for g
    by (simp_all add: fun_eq_iff settled_def old_def view_Queue view_eq)
  note R = Replace_settled [OF ok assms(3) f]
  show "informer_inv accessor (c\<lparr>Queue := f\<rparr>)" by (rule informer_inv_Queue [OF assms(1) R(1)])
  show "view accessor (c\<lparr>Queue := f\<rparr>) = (if list_all (has_key accessor) list
       then (\<lambda>k. if k \<in> listed accessor list then put_all accessor list Map.empty k
                 else if stored (clientState c) k \<noteq> None then None else view accessor c k)
       else put_all accessor (takeWhile (has_key accessor) list) (view accessor c))"
    unfolding V R(2) known by (auto simp: fun_eq_iff)
qed

text \<open>What each step does to the view.\<close>

definition view_after :: "'a Accessor \<Rightarrow> 'a action \<Rightarrow> 'a Controller \<Rightarrow> key \<rightharpoonup> 'a resource" where
  "view_after accessor a c k =
     (if k \<in> (case a of WatchDelete obj \<Rightarrow> listed accessor [obj]
          | Relist list \<Rightarrow> if list_all (has_key accessor) list then UNIV - listed accessor list else {} | _ \<Rightarrow> {})
        \<inter> {k. stored (clientState c) k = None}
      then view accessor c k else told_by accessor a c (view accessor c) k)"

lemma informer_simulation:
  assumes "informer_step accessor a c c'" and "informer_inv accessor c"
  shows "informer_inv accessor c' \<and> view accessor c' = view_after accessor a c"
  using assms(1)
proof cases
  case (watch_add obj)
  then show ?thesis
    using action_step_view [OF assms(2) watch_add(3) refl, of Added]
    by (simp add: DeltaFIFO_Add_def put_def view_after_def fun_eq_iff split: sum.split)
next
  case (watch_update obj)
  then show ?thesis
    using action_step_view [OF assms(2) watch_update(3) refl, of Updated]
    by (simp add: DeltaFIFO_Update_def put_def view_after_def fun_eq_iff split: sum.split)
next
  case (watch_delete obj rng)
  then show ?thesis
    using watch_delete_view [OF assms(2) watch_delete(3) refl, of rng]
    by (simp add: view_after_def fun_eq_iff listed_def split: sum.split)
next
  case (relist rng list rng' getter)
  note R = relist_view [OF assms(2) relist(3,4) refl, of rng' getter]
  have "put_all accessor list Map.empty k = None" if "k \<notin> listed accessor list" for k
    using put_all_eq [of accessor list Map.empty k] that by simp
  then show ?thesis using R relist(1,2) by (auto simp: view_after_def fun_eq_iff)
next
  case (requeue obj)
  then show ?thesis using requeue_view [OF assms(2) requeue(3)] by (simp add: view_after_def fun_eq_iff)
next
  case (pop ds f)
  then show ?thesis using pop_view [OF assms(2)] by (simp add: view_after_def fun_eq_iff)
next
  case (process d ds ord s evs)
  then show ?thesis using process_view [OF assms(2) process(3,4)] by (simp add: view_after_def fun_eq_iff)
next
  case (give_up d ds ord err s evs)
  then show ?thesis using process_view(1) [OF assms(2) give_up(3,4)] by simp
qed

lemma informer_reachable_inv: "informer_reachable accessor c \<Longrightarrow> informer_inv accessor c"
  by (induction rule: informer_reachable.induct) (auto simp: informer_inv_New dest: informer_simulation)

text \<open>The body of \<^verbatim>\<open>processLoop\<close> is a run of the worker's steps.\<close>

lemma Process_reachable:
  assumes "informer_reachable accessor c" and "Process ord (popped c) (clientState c) = (err, s, evs)"
  shows "informer_reachable accessor (c\<lparr>clientState := s, popped := [], notified := notified c @ evs\<rparr>)"
  using assms
proof (induction "popped c" arbitrary: c ord evs)
  case Nil
  then have "c\<lparr>clientState := s, popped := [], notified := notified c @ evs\<rparr> = c"
    using Nil(3) [folded Nil(1)] by (cases c) simp
  then show ?case using Nil.prems(1) by simp
next
  case (Cons d ds)
  obtain e1 s1 evs1 where one: "processDelta (ord 0) d (clientState c) = (e1, s1, evs1)"
    by (cases "processDelta (ord 0) d (clientState c)") auto
  have e1: "e1 = None"
    by (rule process_view(1) [OF informer_reachable_inv [OF Cons.prems(1)] Cons(2) [symmetric] one])
  define c1 where "c1 = c\<lparr>clientState := s1, popped := ds, notified := notified c @ evs1\<rparr>"
  have c1: "informer_reachable accessor c1"
    using step [OF Cons.prems(1) process [OF Cons(2) [symmetric]]] one e1 by (simp add: c1_def)
  obtain evs' where rest: "Process (\<lambda>i. ord (Suc i)) (popped c1) (clientState c1) = (err, s, evs')"
    and evs: "evs = evs1 @ evs'"
    using Cons.prems(2) [folded Cons(2)] e1 one by (auto simp: c1_def split: prod.splits)
  have "informer_reachable accessor (c1\<lparr>clientState := s, popped := [], notified := notified c1 @ evs'\<rparr>)"
    by (rule Cons.hyps(1) [OF _ c1 rest]) (simp add: c1_def)
  then show ?case by (simp add: c1_def evs)
qed

lemma processLoop_body_reachable:
  assumes "informer_reachable accessor c" and "popped c = []" and "fst (DeltaFIFO_Pop (Queue c)) \<noteq> None"
  shows "informer_reachable accessor (processLoop_body ord c)"
proof -
  obtain ds f where f: "DeltaFIFO_Pop (Queue c) = (Some ds, f)"
    using assms(3) by (cases "DeltaFIFO_Pop (Queue c)") auto
  obtain err s evs where pr: "Process ord ds (clientState c) = (err, s, evs)"
    by (cases "Process ord ds (clientState c)") auto
  have "\<not> RetryOnError c" using informer_reachable_inv [OF assms(1)] by (simp add: informer_inv_def)
  then have "processLoop_body ord c
      = c\<lparr>Queue := f, clientState := s, popped := [], notified := notified c @ evs\<rparr>"
    using f pr assms(2) by (cases c) (simp add: processLoop_body_def)
  then show ?thesis
    using Process_reachable [OF step [OF assms(1) pop [OF assms(2) f]], of ord err s evs] pr by simp
qed

section \<open>Draining the queue\<close>

lemma Process_view:
  assumes "informer_inv accessor c" and "Process ord (popped c) (clientState c) = (err, s, evs)"
  shows "err = None \<and> informer_inv accessor (c\<lparr>clientState := s, popped := [], notified := nt\<rparr>)
    \<and> view accessor (c\<lparr>clientState := s, popped := [], notified := nt\<rparr>) = view accessor c"
  using assms
proof (induction "popped c" arbitrary: c ord evs)
  case Nil
  then have "s = clientState c" and "err = None" and "popped c = []"
    using Nil(3) [folded Nil(1)] by simp_all
  then show ?case using Nil.prems(1) by (simp add: informer_inv_def view_def in_flight_def fun_eq_iff)
next
  case (Cons d ds)
  obtain e1 s1 evs1 where one: "processDelta (ord 0) d (clientState c) = (e1, s1, evs1)"
    by (cases "processDelta (ord 0) d (clientState c)") auto
  note P = process_view(1) [OF Cons.prems(1) Cons(2) [symmetric] one]
    process_view(2,3) [OF Cons.prems(1) Cons(2) [symmetric] one, of "notified c"]
  define c1 where "c1 = c\<lparr>clientState := s1, popped := ds, notified := notified c\<rparr>"
  obtain evs' where rest: "Process (\<lambda>i. ord (Suc i)) (popped c1) (clientState c1) = (err, s, evs')"
    using Cons.prems(2) [folded Cons(2)] P(1) one by (auto simp: c1_def split: prod.splits)
  have "err = None \<and> informer_inv accessor (c1\<lparr>clientState := s, popped := [], notified := nt\<rparr>)
      \<and> view accessor (c1\<lparr>clientState := s, popped := [], notified := nt\<rparr>) = view accessor c1"
    by (rule Cons.hyps(1) [OF _ _ rest]) (use P(2) in \<open>simp_all add: c1_def\<close>)
  then show ?case using P(3) by (simp add: c1_def)
qed

lemma processLoop_body_view:
  assumes "informer_inv accessor c" and "popped c = []"
  shows "informer_inv accessor (processLoop_body ord c) \<and> popped (processLoop_body ord c) = []
    \<and> view accessor (processLoop_body ord c) = view accessor c
    \<and> delta_pending (Queue (processLoop_body ord c)) = tl (delta_pending (Queue c))"
proof -
  have ok: "queue_ok accessor (Queue c)" using assms(1) by (simp add: informer_inv_def)
  note inv = queue_okD(2) [OF ok]
  show ?thesis
  proof (cases "delta_pending (Queue c)")
    case Nil
    then have "delta_queue (Queue c) = []"
      using deltas.pending_set [OF inv] queue_okD(3) [OF ok] by (simp add: delta_strong_inv_def)
    then have "processLoop_body ord c = c" by (simp add: processLoop_body_def DeltaFIFO_Pop_def)
    then show ?thesis using assms Nil by simp
  next
    case (Cons k ks)
    then obtain ds f where f: "DeltaFIFO_Pop (Queue c) = (Some ds, f)" "delta_pending f = ks"
      using DeltaFIFO_Pop_first [OF inv] by blast
    obtain err s evs where pr: "Process ord ds (clientState c) = (err, s, evs)"
      by (cases "Process ord ds (clientState c)") auto
    have P: "err = None
      \<and> informer_inv accessor (c\<lparr>Queue := f, clientState := s, popped := [], notified := notified c @ evs\<rparr>)
      \<and> view accessor (c\<lparr>Queue := f, clientState := s, popped := [], notified := notified c @ evs\<rparr>)
          = view accessor (c\<lparr>Queue := f, popped := ds\<rparr>)"
      using Process_view [OF pop_view(1) [OF assms f(1)], of ord err s evs "notified c @ evs"] pr by simp
    have "processLoop_body ord c = c\<lparr>Queue := f, clientState := s, popped := [], notified := notified c @ evs\<rparr>"
      using f(1) pr P assms(2) by (cases c) (simp add: processLoop_body_def)
    then show ?thesis using P pop_view(2) [OF assms f(1)] f(2) Cons by simp
  qed
qed

lemma view_drained:
  assumes "informer_inv accessor c" and "popped c = []" and "delta_pending (Queue c) = []"
  shows "view accessor c = stored (clientState c)"
proof -
  have "delta_items (Queue c) = Map.empty"
    using deltas.pending_set [OF queue_okD(2)] assms by (force simp: informer_inv_def)
  then show ?thesis using assms(2) by (simp add: view_def in_flight_def deltas_at_def fun_eq_iff)
qed

lemma processLoop_drains:
  assumes "informer_inv accessor c" and "popped c = []" and "length (delta_queue (Queue c)) \<le> n"
  shows "stored (clientState (processLoop ords n c)) = view accessor c
    \<and> delta_items (Queue (processLoop ords n c)) = Map.empty"
proof -
  have "length (delta_pending (Queue c)) \<le> n"
    using assms(1,3) by (simp add: informer_inv_def queue_ok_def delta_strong_inv_def delta_pending_def
        pending_keys_def firsts_distinct)
  with assms(1,2) show ?thesis
  proof (induction n arbitrary: c ords)
    case 0
    then show ?case
      using view_drained [OF 0(1,2)] deltas.pending_set [OF queue_okD(2), of accessor "Queue c"]
      by (auto simp: informer_inv_def dom_def)
  next
    case (Suc n)
    note B = processLoop_body_view [OF Suc.prems(1,2), of "ords 0"]
    show ?case using Suc.IH [of "processLoop_body (ords 0) c"] B Suc.prems(3) by simp
  qed
qed

text \<open>The view against what the informer was told.\<close>

definition view_agrees :: "'a Accessor \<Rightarrow> 'a Controller \<Rightarrow> (key \<rightharpoonup> 'a resource) \<Rightarrow> key set \<Rightarrow> bool" where
  "view_agrees accessor c m lost \<longleftrightarrow>
     (\<forall>k. k \<notin> lost \<longrightarrow> view accessor c k = m k) \<and> (\<forall>k \<in> lost. m k = None \<and> view accessor c k \<noteq> None)"

lemma view_agrees_step:
  assumes "informer_step accessor a c c'" and "informer_inv accessor c" and "view_agrees accessor c m lost"
  shows "view_agrees accessor c' (told_by accessor a c m) (lost_by accessor a c lost)"
proof -
  have V: "view accessor c' = view_after accessor a c" using informer_simulation [OF assms(1,2)] by blast
  have put: "put accessor obj x k = (if k \<in> listed accessor [obj] then Some obj else x k)" for obj x k
    by (auto simp: put_def listed_def split: sum.split)
  have gone: "(case objKey accessor obj of Inl _ \<Rightarrow> x | Inr k \<Rightarrow> x(k := None)) k = (if k \<in> listed accessor [obj] then None else x k)"
    for obj k and x :: "key \<rightharpoonup> 'a resource"
    by (auto simp: listed_def split: sum.split)
  have again: "(case objKey accessor obj of Inl _ \<Rightarrow> x | Inr k \<Rightarrow> if delta_items (Queue c) k = None then x(k \<mapsto> obj) else x) k
      = (if k \<in> listed accessor [obj] - dom (delta_items (Queue c)) then Some obj else x k)"
    for obj k and x :: "key \<rightharpoonup> 'a resource"
    by (auto simp: listed_def split: sum.split)
  show ?thesis
  proof (cases a)
    case (Relist list)
    show ?thesis
    proof (cases "list_all (has_key accessor) list")
      case True
      have "put_all accessor list Map.empty k = None" if "k \<notin> listed accessor list" for k
        using put_all_eq [of accessor list Map.empty k] that by simp
      then show ?thesis using True Relist
        by (auto simp: view_agrees_def V view_after_def on_the_way_def)
    next
      case False
      have eq: "put_all accessor (takeWhile (has_key accessor) list) x k
          = (if k \<in> listed accessor (takeWhile (has_key accessor) list)
             then put_all accessor (takeWhile (has_key accessor) list) Map.empty k else x k)" for x k
        by (rule put_all_eq)
      show ?thesis using False Relist assms(3)
        by (simp add: view_agrees_def V view_after_def eq [of "view accessor c"] eq [of m])
    qed
  qed (use assms(3) in \<open>auto simp: view_agrees_def V view_after_def on_the_way_def put gone again\<close>)
qed

lemma informer_run_inv: "informer_run accessor c m lost \<Longrightarrow> informer_inv accessor c"
  using informer_run_reachable informer_reachable_inv by blast

lemma informer_run_agrees: "informer_run accessor c m lost \<Longrightarrow> view_agrees accessor c m lost"
proof (induction rule: informer_run.induct)
  case (run_start ixs)
  show ?case
    by (simp add: view_agrees_def view_def in_flight_def NewIndexerInformer_def deltas_at_def NewDeltaFIFO_def stored_eq
        NewIndexer_def NewThreadSafeStore_def)
next
  case (run_step c m lost a c')
  then show ?case using view_agrees_step informer_run_inv by blast
qed

text \<open>
  C10: The informer follows what it is told.  In every interleaving of the Reflector's calls,
  \<^verbatim>\<open>Requeue\<close> and \<^verbatim>\<open>processLoop\<close>, the objects that the store will hold once everything popped or
  queued is processed are exactly those that the calls describe, except under the lost keys, and once
  nothing is popped or queued these are the objects in the store.  A key is lost when the deletion of
  its object was dropped because the object was still on its way to the store; the calls describe no
  object for it, and the store keeps one (\<open>informer_keeps_deleted_object\<close>).
\<close>

theorem informer_refines_view:
  assumes "informer_run accessor c m lost"
  shows "(\<forall>k. k \<notin> lost \<longrightarrow> view accessor c k = m k)
    \<and> (\<forall>k \<in> lost. m k = None \<and> view accessor c k \<noteq> None)
    \<and> (popped c = [] \<and> delta_items (Queue c) = Map.empty \<longrightarrow>
        (\<forall>k. k \<notin> lost \<longrightarrow> stored (clientState c) k = m k)
        \<and> (\<forall>k \<in> lost. m k = None \<and> stored (clientState c) k \<noteq> None))"
proof -
  have "view accessor c = stored (clientState c)" if "popped c = [] \<and> delta_items (Queue c) = Map.empty"
    using that by (simp add: view_def in_flight_def deltas_at_def fun_eq_iff)
  then show ?thesis using informer_run_agrees [OF assms] unfolding view_agrees_def by metis
qed

definition name_accessor :: "string Accessor" where
  "name_accessor obj = (case obj of Some (Plain (ApiObject name)) \<Rightarrow> Inr ('''', name) | _ \<Rightarrow> Inl ''no meta'')"

abbreviation named :: "string \<Rightarrow> string resource" where "named n \<equiv> Plain (ApiObject n)"

lemma objKey_named [simp]: "objKey name_accessor (named n) = Inr n"
  by (simp add: objKey_def DeletionHandlingMetaNamespaceKeyFunc_def MetaNamespaceKeyFunc_def name_accessor_def)

theorem informer_refines_view_witness:
  "let c = NewIndexerInformer name_accessor Map.empty;
       c' = c\<lparr>Queue := snd (DeltaFIFO_Add (named ''a'') (Queue c))\<rparr>
   in informer_run name_accessor c' [''a'' \<mapsto> named ''a''] {} \<and> view name_accessor c' = [''a'' \<mapsto> named ''a'']"
proof -
  define c where "c = NewIndexerInformer name_accessor Map.empty"
  have "informer_run name_accessor (c\<lparr>Queue := snd (DeltaFIFO_Add (named ''a'') (Queue c))\<rparr>)
      (told_by name_accessor (WatchAdd (named ''a'')) c Map.empty) (lost_by name_accessor (WatchAdd (named ''a'')) c {})"
    by (rule run_step [OF run_start [of name_accessor Map.empty, folded c_def] watch_add]) simp
  then have run: "informer_run name_accessor (c\<lparr>Queue := snd (DeltaFIFO_Add (named ''a'') (Queue c))\<rparr>) [''a'' \<mapsto> named ''a''] {}"
    by (simp add: put_def)
  show ?thesis
    using run informer_refines_view [OF run] unfolding Let_def c_def [symmetric] by (simp add: fun_eq_iff)
qed

fun replay :: "'a Accessor \<Rightarrow> 'a notification list \<Rightarrow> (key \<rightharpoonup> 'a resource) \<Rightarrow> (key \<rightharpoonup> 'a resource) option" where
  "replay accessor [] m = Some m"
| "replay accessor (e # es) m =
     (case e of
        OnAdd obj \<Rightarrow> (case objKey accessor obj of
            Inr k \<Rightarrow> if m k = None then replay accessor es (m(k \<mapsto> obj)) else None | Inl _ \<Rightarrow> None)
      | OnUpdate old obj \<Rightarrow> (case objKey accessor obj of
            Inr k \<Rightarrow> if m k = old \<and> old \<noteq> None then replay accessor es (m(k \<mapsto> obj)) else None | Inl _ \<Rightarrow> None)
      | OnDelete obj \<Rightarrow> (case objKey accessor obj of
            Inr k \<Rightarrow> replay accessor es (m(k := None)) | Inl _ \<Rightarrow> None))"

lemma replay_append: "replay accessor (xs @ ys) m = Option.bind (replay accessor xs m) (replay accessor ys)"
  by (induction xs arbitrary: m) (auto split: notification.split sum.split)

lemma replay_notification:
  assumes "objKey accessor (Object d) = Inr k"
  shows "replay accessor [notification_for d (m k)] m = Some (m(k := settle [d] (m k)))"
  using assms by (auto simp: notification_for_def settle_def)

lemma replay_step:
  assumes "informer_step accessor a c c'" and "informer_inv accessor c"
    and "replay accessor (notified c) Map.empty = Some (stored (clientState c))"
  shows "replay accessor (notified c') Map.empty = Some (stored (clientState c'))"
  using assms(1)
proof cases
  case (process d ds ord s evs)
  from process_view(4) [OF assms(2) process(3,4)] obtain k where "objKey accessor (Object d) = Inr k"
    "evs = [notification_for d (stored (clientState c) k)]"
    "stored s = (stored (clientState c))(k := settle [d] (stored (clientState c) k))" by blast
  then show ?thesis using process(2) assms(3) by (simp add: replay_append replay_notification del: replay.simps(2))
next
  case (give_up d ds ord err s evs)
  then show ?thesis using process_view(1) [OF assms(2) give_up(3,4)] by simp
next
  case (requeue obj)
  then show ?thesis using assms(3) by (simp add: Controller_Requeue_def case_prod_beta)
qed (use assms(3) in simp_all)

text \<open>
  What handlers are told is a consistent history of the store: replayed from the start,
  the notifications never report the addition of an object that is there or an update of one
  that is not or that differs from the old object they pass along, and they lead to exactly
  what the store holds now.
\<close>

theorem informer_notifications_replay:
  assumes "informer_reachable accessor c"
  shows "replay accessor (notified c) Map.empty = Some (stored (clientState c))"
  using assms
proof (induction rule: informer_reachable.induct)
  case (start ixs)
  show ?case
    by (simp add: NewIndexerInformer_def stored_eq fun_eq_iff NewIndexer_def NewThreadSafeStore_def)
next
  case (step c a c')
  then show ?case using replay_step [OF step(2) informer_reachable_inv [OF step(1)]] by blast
qed

text \<open>A concrete run: one object is added and processed.\<close>

definition one_added :: "string Controller" where
  "one_added = (let c = NewIndexerInformer name_accessor Map.empty
     in c\<lparr>Queue := snd (DeltaFIFO_Add (named ''a'') (Queue c))\<rparr>)"

lemma one_added_reachable: "informer_reachable name_accessor one_added"
  unfolding one_added_def Let_def by (rule step [OF start watch_add]) simp

lemmas informer_eval = one_added_def NewIndexerInformer_def NewDeltaFIFO_def DeltaFIFO_Add_def
  queueActionLocked_def DeltaFIFO_KeyOf_def fifoKeyFunc_def MetaNamespaceKeyFunc_def name_accessor_def
  DeltaFIFO_Pop_def DeltaFIFO_dequeue_def processLoop_body_def processDelta_def cache_Get_def
  cache_Add_def cache_GetByKey_def threadSafeMap_Get_def item_at_def NewIndexer_def
  NewThreadSafeStore_def DeletionHandlingMetaNamespaceKeyFunc_def

theorem informer_notifications_replay_witness:
  "let c = processLoop_body (\<lambda>_. ([], [])) one_added
   in notified c = [OnAdd (named ''a'')]
      \<and> replay name_accessor (notified c) Map.empty = Some (stored (clientState c))"
proof -
  have pop: "fst (DeltaFIFO_Pop (Queue one_added)) \<noteq> None" and empty: "popped one_added = []"
    by (simp_all add: informer_eval)
  have "notified (processLoop_body (\<lambda>_. ([], [])) one_added) = [OnAdd (named ''a'')]"
    by (simp add: informer_eval)
  then show ?thesis
    using informer_notifications_replay [OF processLoop_body_reachable [OF one_added_reachable empty pop]]
    unfolding Let_def by blast
qed

text \<open>What \<^verbatim>\<open>Process\<close> makes of the deltas that are popped and not yet handled.\<close>

definition finish_popped :: "(nat \<Rightarrow> 'a orders) \<Rightarrow> 'a Controller \<Rightarrow> 'a Controller" where
  "finish_popped ord c = (case Process ord (popped c) (clientState c) of
     (err, s, evs) \<Rightarrow> c\<lparr>clientState := s, popped := [], notified := notified c @ evs\<rparr>)"

lemma finish_popped_view:
  assumes "informer_inv accessor c"
  shows "informer_inv accessor (finish_popped ord c) \<and> view accessor (finish_popped ord c) = view accessor c
    \<and> popped (finish_popped ord c) = [] \<and> Queue (finish_popped ord c) = Queue c"
proof -
  obtain err s evs where pr: "Process ord (popped c) (clientState c) = (err, s, evs)"
    by (cases "Process ord (popped c) (clientState c)") auto
  show ?thesis using Process_view [OF assms pr, of "notified c @ evs"] by (simp add: finish_popped_def pr)
qed

text \<open>
  C25: A relist brings the store in line with the server.  \<^verbatim>\<open>Replace\<close> with a list of objects that
  have keys, at any moment, followed by the rest of the current round of \<^verbatim>\<open>processLoop\<close> and as many
  further rounds as there are queued keys, leaves the queue empty and in the store exactly the objects
  of the list, each under its key, whatever was stored, popped and queued before; only the objects
  that were still on their way to the store when the list arrived, and that are not on the list, are
  stored as well, since the queue does not know them (\<open>informer_keeps_deleted_object\<close>).
\<close>

theorem informer_relist_converges:
  assumes "informer_reachable accessor c" and "go_range_ok rng"
    and "list_all is_resource list" and "list_all (has_key accessor) list"
    and "c1 = c\<lparr>Queue := snd (DeltaFIFO_Replace rng' (Some (knownObjects rng (clientState c))) list (Queue c))\<rparr>"
    and "c2 = processLoop ords (length (delta_queue (Queue c1))) (finish_popped ord c1)"
  shows "stored (clientState c2) k =
      (if k \<in> on_the_way accessor c - listed accessor list then view accessor c k else put_all accessor list Map.empty k)
    \<and> (k \<in> listed accessor list \<longleftrightarrow> put_all accessor list Map.empty k \<noteq> None)
    \<and> delta_items (Queue c2) = Map.empty"
proof -
  note inv = informer_reachable_inv [OF assms(1)]
  have c1: "c1 = c\<lparr>Queue := snd (DeltaFIFO_Replace rng' (Some ((knownObjects rng (clientState c))
      \<lparr>ko_GetByKey := ko_GetByKey (knownObjects rng (clientState c))\<rparr>)) list (Queue c))\<rparr>"
    unfolding assms(5) by simp
  note R = relist_view [OF inv assms(2,3) refl, of rng' "ko_GetByKey (knownObjects rng (clientState c))",
      folded c1, unfolded if_P [OF assms(4)]]
  note F = finish_popped_view [OF R(1), of ord]
  have D: "stored (clientState c2) = view accessor c1" "delta_items (Queue c2) = Map.empty"
    using processLoop_drains [of accessor "finish_popped ord c1" "length (delta_queue (Queue c1))" ords] F
    by (simp_all add: assms(6))
  have none: "put_all accessor list Map.empty k = None" if "k \<notin> listed accessor list"
    using put_all_eq [of accessor list Map.empty k] that by simp
  have some: "put_all accessor list Map.empty k \<noteq> None" if "k \<in> listed accessor list"
    using that
  proof (induction list rule: rev_induct)
    case (snoc x xs)
    then show ?case by (auto simp: put_def listed_def split: sum.split)
  qed (simp add: listed_def)
  show ?thesis using D R(2) none some by (auto simp: on_the_way_def)
qed

theorem informer_relist_converges_witness:
  "let c1 = one_added\<lparr>Queue := snd (DeltaFIFO_Replace sorted_range
        (Some (knownObjects sorted_range (clientState one_added))) [named ''b'', named ''a''] (Queue one_added))\<rparr>;
       c2 = processLoop (\<lambda>_ _. ([], [])) (length (delta_queue (Queue c1))) (finish_popped (\<lambda>_. ([], [])) c1)
   in stored (clientState c2) ''b'' = Some (named ''b'') \<and> stored (clientState c2) ''c'' = None"
proof -
  have list: "list_all is_resource [named ''b'', named ''a'']" "list_all (has_key name_accessor) [named ''b'', named ''a'']"
    by (simp_all add: has_key_def)
  have way: "on_the_way name_accessor one_added \<subseteq> {''a''}"
  proof
    fix k assume k: "k \<in> on_the_way name_accessor one_added"
    have "popped one_added = []" "delta_items (Queue one_added) = [''a'' \<mapsto> [Delta Added (named ''a'')]]"
      by (simp_all add: informer_eval)
    then show "k \<in> {''a''}"
      using k by (auto simp: on_the_way_def view_def in_flight_def deltas_at_def split: if_splits)
  qed
  note C = informer_relist_converges [OF one_added_reachable sorted_range_ok list refl refl,
      where rng' = sorted_range and ords = "\<lambda>_ _. ([], [])" and ord = "\<lambda>_. ([], [])"]
  show ?thesis
    unfolding Let_def
    using C [of "''b''"] C [of "''c''"] way by (auto simp: put_def listed_def)
qed

text \<open>
  The informer can keep a deleted object.  The queue decides by the store alone whether an
  object is known, and an object whose addition is queued and not yet processed is not in
  the store: its deletion is dropped as that of an unknown object, and a relist that no longer
  has it queues no deletion.  Processing then adds the object, and nothing removes it.
\<close>

theorem informer_keeps_deleted_object:
  "let known = Some (knownObjects (\<lambda>_. []) (clientState one_added));
       watched = one_added\<lparr>Queue := snd (DeltaFIFO_Delete known (named ''a'') (Queue one_added))\<rparr>;
       relisted = one_added\<lparr>Queue := snd (DeltaFIFO_Replace (\<lambda>_. []) known [] (Queue one_added))\<rparr>;
       work = processLoop_body (\<lambda>_. ([], []))
   in informer_reachable name_accessor one_added \<and> map_entries [] (store_contents (clientState one_added))
      \<and> stored (clientState (work watched)) ''a'' = Some (named ''a'')
      \<and> delta_items (Queue (work watched)) = Map.empty
      \<and> stored (clientState (work relisted)) ''a'' = Some (named ''a'')
      \<and> delta_items (Queue (work relisted)) = Map.empty"
  using one_added_reachable
  by (simp add: informer_eval DeltaFIFO_Delete_def DeltaFIFO_Replace_def knownObjects_def cache_ListKeys_def
      threadSafeMap_ListKeys_def stored_def fun_eq_iff)

end
