(* ===== verification/Strconv.thy ===== *)
theory Strconv
  imports Prelude "HOL-Library.Sublist"
begin

text \<open>
  What the modelled code uses of Go's \<^verbatim>\<open>strconv\<close>, of the verb \<^verbatim>\<open>%d\<close> of \<^verbatim>\<open>fmt\<close> and of
  \<^verbatim>\<open>strings.TrimSpace\<close>: decimal numbers of 64 bits.  A value that does not fit is \<^verbatim>\<open>ErrRange\<close>, any
  other failure \<^verbatim>\<open>ErrSyntax\<close>.
\<close>

section \<open>Printing\<close>

fun fmt_digits :: "nat \<Rightarrow> string" where
  "fmt_digits n = (if n < 10 then [char_of (48 + n)] else fmt_digits (n div 10) @ [char_of (48 + n mod 10)])"

declare fmt_digits.simps [simp del]

definition fmt_d :: "int \<Rightarrow> string" where
  "fmt_d i = (if i < 0 then ''-'' @ fmt_digits (nat (- i)) else fmt_digits (nat i))"

section \<open>Parsing\<close>

datatype num_error = ErrSyntax | ErrRange

definition digit_value :: "char \<Rightarrow> nat option" where
  "digit_value c = (let v = of_char c :: nat in if 48 \<le> v \<and> v \<le> 57 then Some (v - 48) else None)"

fun ParseUint_loop :: "string \<Rightarrow> nat \<Rightarrow> num_error + nat" where
  "ParseUint_loop [] n = Inr n"
| "ParseUint_loop (c # cs) n =
     (case digit_value c of
        None \<Rightarrow> Inl ErrSyntax
      | Some v \<Rightarrow> if n * 10 + v \<ge> 2 ^ 64 then Inl ErrRange else ParseUint_loop cs (n * 10 + v))"

text \<open>\<^verbatim>\<open>ParseUint(s, 10, 64)\<close>.\<close>

definition ParseUint :: "string \<Rightarrow> num_error + nat" where
  "ParseUint s = (if s = [] then Inl ErrSyntax else ParseUint_loop s 0)"

text \<open>\<^verbatim>\<open>Atoi\<close>, that is \<^verbatim>\<open>ParseInt(s, 10, 0)\<close>, with an \<^verbatim>\<open>int\<close> of 64 bits.\<close>

definition Atoi :: "string \<Rightarrow> num_error + int" where
  "Atoi s =
     (if s = [] then Inl ErrSyntax
      else let neg = (hd s = CHR ''-''); t = (if hd s \<in> {CHR ''+'', CHR ''-''} then tl s else s)
           in case ParseUint t of
                Inl err \<Rightarrow> Inl err
              | Inr un \<Rightarrow>
                  if \<not> neg \<and> un \<ge> 2 ^ 63 then Inl ErrRange
                  else if neg \<and> un > 2 ^ 63 then Inl ErrRange
                  else Inr (if neg then - int un else int un))"

text \<open>An \<^verbatim>\<open>int\<close> computation wraps around at 64 bits.\<close>

definition go_int :: "int \<Rightarrow> int" where
  "go_int i = signed_take_bit 63 i"

section \<open>Trimming space\<close>

text \<open>The encodings of the characters that \<^verbatim>\<open>unicode.IsSpace\<close> accepts.\<close>

definition white_space :: "string list" where
  "white_space = [[CHR 0x09], [CHR 0x0A], [CHR 0x0B], [CHR 0x0C], [CHR 0x0D], [CHR 0x20],
     [CHR 0xC2, CHR 0x85], [CHR 0xC2, CHR 0xA0], [CHR 0xE1, CHR 0x9A, CHR 0x80],
     [CHR 0xE2, CHR 0x80, CHR 0x80], [CHR 0xE2, CHR 0x80, CHR 0x81], [CHR 0xE2, CHR 0x80, CHR 0x82],
     [CHR 0xE2, CHR 0x80, CHR 0x83], [CHR 0xE2, CHR 0x80, CHR 0x84], [CHR 0xE2, CHR 0x80, CHR 0x85],
     [CHR 0xE2, CHR 0x80, CHR 0x86], [CHR 0xE2, CHR 0x80, CHR 0x87], [CHR 0xE2, CHR 0x80, CHR 0x88],
     [CHR 0xE2, CHR 0x80, CHR 0x89], [CHR 0xE2, CHR 0x80, CHR 0x8A], [CHR 0xE2, CHR 0x80, CHR 0xA8],
     [CHR 0xE2, CHR 0x80, CHR 0xA9], [CHR 0xE2, CHR 0x80, CHR 0xAF], [CHR 0xE2, CHR 0x81, CHR 0x9F],
     [CHR 0xE3, CHR 0x80, CHR 0x80]]"

function trim_prefixes :: "string list \<Rightarrow> string \<Rightarrow> string" where
  "trim_prefixes ws s =
     (case List.find (\<lambda>w. w \<noteq> [] \<and> prefix w s) ws of
        None \<Rightarrow> s
      | Some w \<Rightarrow> trim_prefixes ws (drop (length w) s))"
  by pat_completeness auto
termination
proof (relation "measure (\<lambda>(ws, s). length s)")
  fix ws s w
  assume "List.find (\<lambda>w. w \<noteq> [] \<and> prefix w s) ws = Some w"
  then have "w \<noteq> []" and "prefix w s" by (auto simp: find_Some_iff)
  then have "s \<noteq> []" and "0 < length w" by auto
  then show "((ws, drop (length w) s), ws, s) \<in> measure (\<lambda>(ws, s). length s)" by simp
qed simp

declare trim_prefixes.simps [simp del]

definition strings_TrimSpace :: "string \<Rightarrow> string" where
  "strings_TrimSpace s = rev (trim_prefixes (map rev white_space) (rev (trim_prefixes white_space s)))"

section \<open>Digits\<close>

lemma digit_value_digit [simp]: "d < 10 \<Longrightarrow> digit_value (char_of (48 + d)) = Some d"
  by (simp add: digit_value_def of_char_of)

lemma ParseUint_loop_append:
  "ParseUint_loop (s @ t) n = (case ParseUint_loop s n of Inl e \<Rightarrow> Inl e | Inr m \<Rightarrow> ParseUint_loop t m)"
  by (induction s arbitrary: n) (auto split: option.split)

lemma fmt_digits_nonempty [simp]: "fmt_digits n \<noteq> []"
  by (subst fmt_digits.simps) simp

lemma ParseUint_loop_digits:
  "m < 2 ^ 64 \<Longrightarrow> ParseUint_loop (fmt_digits m) 0 = Inr m"
proof (induction m rule: fmt_digits.induct)
  case (1 m)
  show ?case
  proof (cases "m < 10")
    case True
    then show ?thesis by (subst fmt_digits.simps) simp
  next
    case False
    then have "ParseUint_loop (fmt_digits (m div 10)) 0 = Inr (m div 10)" using 1 by simp
    then show ?thesis using False 1(2)
      by (subst fmt_digits.simps) (simp add: ParseUint_loop_append)
  qed
qed

lemma ParseUint_digits: "m < 2 ^ 64 \<Longrightarrow> ParseUint (fmt_digits m) = Inr m"
  by (simp add: ParseUint_def ParseUint_loop_digits)

lemma fmt_digits_chars: "c \<in> set (fmt_digits n) \<Longrightarrow> \<exists>d < 10. c = char_of (48 + d :: nat)"
proof (induction n rule: fmt_digits.induct)
  case (1 n)
  show ?case
  proof (cases "n < 10")
    case True
    then show ?thesis using 1(2) by (subst (asm) fmt_digits.simps) auto
  next
    case False
    then have "c \<in> set (fmt_digits (n div 10)) \<or> c = char_of (48 + n mod 10)"
      using 1(2) by (subst (asm) fmt_digits.simps) auto
    moreover have "n mod 10 < 10" by simp
    ultimately show ?thesis using 1(1) [OF False] by blast
  qed
qed

lemma digit_byte: "c \<in> set (fmt_digits n) \<Longrightarrow> 48 \<le> (of_char c :: nat) \<and> (of_char c :: nat) \<le> 57"
  using fmt_digits_chars by (fastforce simp: of_char_of)

lemma digits_no_sign: "CHR ''-'' \<notin> set (fmt_digits n)" "CHR ''+'' \<notin> set (fmt_digits n)"
  using digit_byte [of "CHR ''-''" n] digit_byte [of "CHR ''+''" n] by auto

lemma Atoi_digits:
  assumes "n < 2 ^ 63"
  shows "Atoi (fmt_digits n) = Inr (int n)"
proof -
  have hd: "hd (fmt_digits n) \<noteq> CHR ''-''" "hd (fmt_digits n) \<noteq> CHR ''+''"
    using digits_no_sign [of n] by (metis fmt_digits_nonempty list.set_sel(1))+
  have "ParseUint (fmt_digits n) = Inr n" using assms by (simp add: ParseUint_digits)
  then show ?thesis using hd assms by (simp add: Atoi_def)
qed

lemma Atoi_bounds: "Atoi s = Inr i \<Longrightarrow> - (2 ^ 63) \<le> i \<and> i < 2 ^ 63"
  by (auto simp: Atoi_def Let_def split: if_splits sum.splits)

lemma ParseUint_loop_bound: "ParseUint_loop s n = Inr m \<Longrightarrow> n < 2 ^ 64 \<Longrightarrow> m < 2 ^ 64"
  by (induction s arbitrary: n) (auto split: option.splits if_splits)

lemma go_int_id: "- (2 ^ 63) \<le> i \<Longrightarrow> i < 2 ^ 63 \<Longrightarrow> go_int i = i"
  by (simp add: go_int_def signed_take_bit_int_eq_self)

text \<open>A string that neither starts nor ends with space is not trimmed.\<close>

lemma trim_prefixes_id: "(\<And>w. w \<in> set ws \<Longrightarrow> w \<noteq> [] \<Longrightarrow> \<not> prefix w s) \<Longrightarrow> trim_prefixes ws s = s"
  by (subst trim_prefixes.simps) (auto simp: find_None_iff split: option.split dest: find_Some_iff [THEN iffD1])

end
