(* ===== verification/Watch_Cache.thy ===== *)
theory Watch_Cache
  imports Cache_Store Strconv "HOL-Library.Word"
begin

text \<open>
  \<^verbatim>\<open>pkg/storage/watch_cache.go\<close>: the state of a resource and a sliding window of its latest
  changes, kept in a cyclic buffer, from which the API server serves lists and watches.

  Each method holds the lock throughout, except \<^verbatim>\<open>WaitUntilFreshAndList\<close>, which releases it while
  it waits.  The handlers are called under the lock; \<open>handler_calls\<close> records the calls, oldest
  first, and \<open>onEvent\<close>, \<open>onReplace\<close> say whether a handler is set.  The indices are mathematical
  numbers: an \<^verbatim>\<open>int\<close> would overflow after 2 to the 63 events.  Resource versions are \<^verbatim>\<open>uint64\<close>.
\<close>

section \<open>Events\<close>

text \<open>\<open>NoType\<close> is the zero value of the string type, in the slots that were never written.\<close>

datatype EventType = NoType | ADDED | MODIFIED | DELETED | ERROR

record 'o watchCacheEvent =
  ev_Type :: EventType
  ev_Object :: "'o iface"
  ev_PrevObject :: "'o iface"

type_synonym 'o watchCacheElement = "64 word \<times> 'o watchCacheEvent"

definition zeroElement :: "'o watchCacheElement" where
  "zeroElement = (0, \<lparr>ev_Type = NoType, ev_Object = None, ev_PrevObject = None\<rparr>)"

datatype 'o handler_call = EventCall "'o watchCacheEvent" | ReplaceCall

record 'o watchCache =
  capacity :: nat
  wc_cache :: "'o watchCacheElement list"
  startIndex :: nat
  endIndex :: nat
  wc_store :: "'o cache"
  wc_resourceVersion :: "64 word"
  onReplace :: bool
  onEvent :: bool
  handler_calls :: "'o handler_call list"

definition newWatchCache :: "'o KeyFunc \<Rightarrow> nat \<Rightarrow> 'o watchCache" where
  "newWatchCache kf cap = \<lparr>capacity = cap, wc_cache = replicate cap zeroElement, startIndex = 0,
     endIndex = 0, wc_store = NewStore kf, wc_resourceVersion = 0, onReplace = False, onEvent = False,
     handler_calls = []\<rparr>"

datatype 'o wc_error =
    NotRuntimeObject "'o iface"
  | AccessorError go_error
  | VersionError num_error
  | StoreError "'o KeyError"
  | Gone "64 word" "64 word"
  | TimeLimitExceeded "64 word" "64 word"
  | DivideByZero \<comment> \<open>a panic, not an error value\<close>

section \<open>Changes\<close>

definition parseResourceVersion :: "string \<Rightarrow> num_error + 64 word" where
  "parseResourceVersion resourceVersion =
     (if resourceVersion = '''' then Inr 0
      else case ParseUint resourceVersion of Inl err \<Rightarrow> Inl err | Inr n \<Rightarrow> Inr (word_of_nat n))"

text \<open>
  What the code asks of an object: whether it implements \<^verbatim>\<open>runtime.Object\<close>, and the resource
  version that \<^verbatim>\<open>meta.Accessor\<close> finds in it.
\<close>

record 'o object_meta =
  implementsObject :: "'o \<Rightarrow> bool"
  getResourceVersion :: "'o \<Rightarrow> go_error + string"

definition objectToVersionedRuntimeObject ::
  "'o object_meta \<Rightarrow> 'o iface \<Rightarrow> 'o wc_error + 'o \<times> 64 word" where
  "objectToVersionedRuntimeObject om obj =
     (case obj of
        None \<Rightarrow> Inl (NotRuntimeObject obj)
      | Some object \<Rightarrow>
          if \<not> implementsObject om object then Inl (NotRuntimeObject obj)
          else case getResourceVersion om object of
            Inl err \<Rightarrow> Inl (AccessorError err)
          | Inr rv \<Rightarrow> (case parseResourceVersion rv of
              Inl err \<Rightarrow> Inl (VersionError err)
            | Inr version \<Rightarrow> Inr (object, version)))"

definition updateCache ::
  "64 word \<Rightarrow> 'o watchCacheEvent \<Rightarrow> 'o watchCache \<Rightarrow> 'o watchCache option" where
  "updateCache resourceVersion event w =
     (let w = (if endIndex w = startIndex w + capacity w then w\<lparr>startIndex := startIndex w + 1\<rparr> else w)
      in if capacity w = 0 then None
         else Some (w\<lparr>wc_cache := (wc_cache w)[endIndex w mod capacity w := (resourceVersion, event)],
                      endIndex := endIndex w + 1\<rparr>))"

definition wc_processEvent ::
  "EventType \<Rightarrow> 'o \<Rightarrow> 64 word \<Rightarrow> ('o iface \<Rightarrow> 'o cache \<Rightarrow> 'o KeyError option \<times> 'o cache)
     \<Rightarrow> 'o watchCache \<Rightarrow> 'o wc_error option \<times> 'o watchCache" where
  "wc_processEvent ty object resourceVersion updateFunc w =
     (case cache_Get (Some object) (wc_store w) of
        Inl err \<Rightarrow> (Some (StoreError err), w)
      | Inr (previous, exists) \<Rightarrow>
          (let prevObject = (if exists then previous else None);
               event = \<lparr>ev_Type = ty, ev_Object = Some object, ev_PrevObject = prevObject\<rparr>;
               w = (if onEvent w then w\<lparr>handler_calls := handler_calls w @ [EventCall event]\<rparr> else w)
           in case updateCache resourceVersion event w of
                None \<Rightarrow> (Some DivideByZero, w)
              | Some w \<Rightarrow>
                  (case updateFunc (Some object) (wc_store w) of
                     (err, s) \<Rightarrow> (map_option StoreError err,
                       w\<lparr>wc_resourceVersion := resourceVersion, wc_store := s\<rparr>))))"

definition wc_change ::
  "EventType \<Rightarrow> ('o iface \<Rightarrow> 'o cache \<Rightarrow> 'o KeyError option \<times> 'o cache) \<Rightarrow> 'o object_meta \<Rightarrow> 'o iface
     \<Rightarrow> 'o watchCache \<Rightarrow> 'o wc_error option \<times> 'o watchCache" where
  "wc_change ty updateFunc om obj w =
     (case objectToVersionedRuntimeObject om obj of
        Inl err \<Rightarrow> (Some err, w)
      | Inr (object, resourceVersion) \<Rightarrow> wc_processEvent ty object resourceVersion updateFunc w)"

definition watchCache_Add ::
  "'o object_meta \<Rightarrow> 'o iface \<Rightarrow> 'o watchCache \<Rightarrow> 'o wc_error option \<times> 'o watchCache" where
  "watchCache_Add om obj w = wc_change ADDED (cache_Add [] []) om obj w"

definition watchCache_Update ::
  "'o object_meta \<Rightarrow> 'o iface \<Rightarrow> 'o watchCache \<Rightarrow> 'o wc_error option \<times> 'o watchCache" where
  "watchCache_Update om obj w = wc_change MODIFIED (cache_Update [] []) om obj w"

definition watchCache_Delete ::
  "'o object_meta \<Rightarrow> 'o iface \<Rightarrow> 'o watchCache \<Rightarrow> 'o wc_error option \<times> 'o watchCache" where
  "watchCache_Delete om obj w = wc_change DELETED (cache_Delete []) om obj w"

definition watchCache_Replace ::
  "(key, 'o iface) go_range \<Rightarrow> 'o iface list \<Rightarrow> string \<Rightarrow> 'o watchCache
     \<Rightarrow> 'o wc_error option \<times> 'o watchCache" where
  "watchCache_Replace rng objs resourceVersion w =
     (case parseResourceVersion resourceVersion of
        Inl err \<Rightarrow> (Some (VersionError err), w)
      | Inr version \<Rightarrow>
          (let w = w\<lparr>startIndex := 0, endIndex := 0\<rparr>
           in case cache_Replace rng (\<lambda>_. []) objs (wc_store w) of
                (Some err, s) \<Rightarrow> (Some (StoreError err), w\<lparr>wc_store := s\<rparr>)
              | (None, s) \<Rightarrow>
                  (let w = w\<lparr>wc_store := s, wc_resourceVersion := version\<rparr>
                   in (None, if onReplace w then w\<lparr>handler_calls := handler_calls w @ [ReplaceCall]\<rparr> else w))))"

definition SetOnReplace :: "'o watchCache \<Rightarrow> 'o watchCache" where
  "SetOnReplace w = w\<lparr>onReplace := True\<rparr>"

definition SetOnEvent :: "'o watchCache \<Rightarrow> 'o watchCache" where
  "SetOnEvent w = w\<lparr>onEvent := True\<rparr>"

section \<open>Reads\<close>

definition watchCache_List :: "(key, 'o iface) go_range \<Rightarrow> 'o watchCache \<Rightarrow> 'o iface list" where
  "watchCache_List rng w = cache_List rng (wc_store w)"

definition watchCache_ListKeys :: "(key, 'o iface) go_range \<Rightarrow> 'o watchCache \<Rightarrow> key list" where
  "watchCache_ListKeys rng w = cache_ListKeys rng (wc_store w)"

definition watchCache_Get :: "'o iface \<Rightarrow> 'o watchCache \<Rightarrow> 'o KeyError + 'o iface \<times> bool" where
  "watchCache_Get obj w = cache_Get obj (wc_store w)"

definition watchCache_GetByKey :: "key \<Rightarrow> 'o watchCache \<Rightarrow> 'o iface \<times> bool" where
  "watchCache_GetByKey key w = cache_GetByKey key (wc_store w)"

text \<open>
  The waiting loop: the states of the cache, with the time since the start, at the first
  check and at each time the condition variable wakes the reader; \<^verbatim>\<open>None\<close> while it waits.
\<close>

definition MaximumListWait :: int where "MaximumListWait = 60 * 1000000000"

fun WaitUntilFreshAndList ::
  "(key, 'o iface) go_range \<Rightarrow> 64 word \<Rightarrow> ('o watchCache \<times> int) list
     \<Rightarrow> ('o wc_error + 'o iface list \<times> 64 word) option" where
  "WaitUntilFreshAndList rng resourceVersion [] = None"
| "WaitUntilFreshAndList rng resourceVersion ((w, since) # wakeups) =
     (if wc_resourceVersion w < resourceVersion
      then if since \<ge> MaximumListWait
           then Some (Inl (TimeLimitExceeded resourceVersion (wc_resourceVersion w)))
           else WaitUntilFreshAndList rng resourceVersion wakeups
      else Some (Inr (cache_List rng (wc_store w), wc_resourceVersion w)))"

text \<open>\<^verbatim>\<open>sort.Search\<close>.\<close>

function sort_Search_loop :: "(nat \<Rightarrow> bool) \<Rightarrow> nat \<Rightarrow> nat \<Rightarrow> nat" where
  "sort_Search_loop f i j =
     (if i < j
      then let h = i + (j - i) div 2 in if \<not> f h then sort_Search_loop f (h + 1) j else sort_Search_loop f i h
      else i)"
  by pat_completeness auto
termination by (relation "measure (\<lambda>(f, i, j). j - i)") auto

declare sort_Search_loop.simps [simp del]

definition sort_Search :: "nat \<Rightarrow> (nat \<Rightarrow> bool) \<Rightarrow> nat" where
  "sort_Search n f = sort_Search_loop f 0 n"

definition GetAllEventsSinceThreadUnsafe ::
  "(key, 'o iface) go_range \<Rightarrow> 64 word \<Rightarrow> 'o watchCache \<Rightarrow> 'o wc_error + 'o watchCacheEvent list" where
  "GetAllEventsSinceThreadUnsafe rng resourceVersion w =
     (let size = endIndex w - startIndex w;
          at = (\<lambda>i. wc_cache w ! (i mod capacity w));
          oldest = (if size > 0 then fst (at (startIndex w)) else wc_resourceVersion w)
      in if resourceVersion = 0
         then Inr (map (\<lambda>item. \<lparr>ev_Type = ADDED, ev_Object = item, ev_PrevObject = None\<rparr>)
                (cache_List rng (wc_store w)))
         else if resourceVersion < oldest then Inl (Gone resourceVersion oldest)
         else let first = sort_Search size (\<lambda>i. fst (at (startIndex w + i)) \<ge> resourceVersion)
              in Inr (map (\<lambda>i. snd (at (startIndex w + first + i))) [0..<size - first]))"

definition GetAllEventsSince ::
  "(key, 'o iface) go_range \<Rightarrow> 64 word \<Rightarrow> 'o watchCache \<Rightarrow> 'o wc_error + 'o watchCacheEvent list" where
  "GetAllEventsSince rng resourceVersion w = GetAllEventsSinceThreadUnsafe rng resourceVersion w"

end
