(* ===== verification/Watch_Cache_Props.thy ===== *)
theory Watch_Cache_Props
  imports Watch_Cache
begin

text \<open>
  The cyclic buffer of the watch cache implements a list, the window of the latest changes,
  and the binary search over it finds what a scan would find.
\<close>

section \<open>Binary search\<close>

lemma sort_Search_loop_spec:
  assumes "\<And>a b. a \<le> b \<Longrightarrow> b < n \<Longrightarrow> f a \<Longrightarrow> f b" and "i \<le> j" and "j \<le> n"
  shows "i \<le> sort_Search_loop f i j \<and> sort_Search_loop f i j \<le> j
    \<and> (\<forall>k. i \<le> k \<and> k < sort_Search_loop f i j \<longrightarrow> \<not> f k)
    \<and> (\<forall>k. sort_Search_loop f i j \<le> k \<and> k < j \<longrightarrow> f k)"
  using assms(2,3)
proof (induction "j - i" arbitrary: i j rule: less_induct)
  case less
  show ?case
  proof (cases "i < j")
    case False
    then have "sort_Search_loop f i j = i" by (subst sort_Search_loop.simps) simp
    then show ?thesis using False less.prems by auto
  next
    case True
    define h where "h = i + (j - i) div 2"
    have h: "i \<le> h" "h < j" using True by (auto simp: h_def)
    have eq: "sort_Search_loop f i j = (if f h then sort_Search_loop f i h else sort_Search_loop f (h + 1) j)"
      using True by (subst sort_Search_loop.simps) (simp add: h_def)
    show ?thesis
    proof (cases "f h")
      case fh: True
      have up: "f k" if "h \<le> k" "k < j" for k using assms(1) [OF that(1) _ fh] that(2) less.prems(2) by simp
      have "i \<le> sort_Search_loop f i h \<and> sort_Search_loop f i h \<le> h
          \<and> (\<forall>k. i \<le> k \<and> k < sort_Search_loop f i h \<longrightarrow> \<not> f k)
          \<and> (\<forall>k. sort_Search_loop f i h \<le> k \<and> k < h \<longrightarrow> f k)"
        by (rule less.hyps) (use h less.prems in auto)
      then show ?thesis using up h fh unfolding eq by (auto simp: not_less [symmetric])
    next
      case fh: False
      have down: "\<not> f k" if "i \<le> k" "k \<le> h" for k using assms(1) [OF that(2)] fh h(2) less.prems(2) by auto
      have S: "h + 1 \<le> sort_Search_loop f (h + 1) j \<and> sort_Search_loop f (h + 1) j \<le> j
          \<and> (\<forall>k. h + 1 \<le> k \<and> k < sort_Search_loop f (h + 1) j \<longrightarrow> \<not> f k)
          \<and> (\<forall>k. sort_Search_loop f (h + 1) j \<le> k \<and> k < j \<longrightarrow> f k)"
        by (rule less.hyps) (use h less.prems in auto)
      have "\<not> f k" if "i \<le> k" "k < sort_Search_loop f (h + 1) j" for k
        using S down [of k] that by (cases "k \<le> h") auto
      then show ?thesis using S h fh unfolding eq by auto
    qed
  qed
qed

lemma sort_Search_loop_cong:
  "(\<And>k. k < j \<Longrightarrow> f k = g k) \<Longrightarrow> sort_Search_loop f i j = sort_Search_loop g i j"
proof (induction "j - i" arbitrary: i j rule: less_induct)
  case less
  show ?case
  proof (cases "i < j")
    case True
    define h where "h = i + (j - i) div 2"
    have h: "i \<le> h" "h < j" using True by (auto simp: h_def)
    have "sort_Search_loop f (h + 1) j = sort_Search_loop g (h + 1) j"
      and "sort_Search_loop f i h = sort_Search_loop g i h"
      by (rule less.hyps; use h less.prems in auto)+
    then show ?thesis using True less.prems [OF h(2)]
      by (subst (1 2) sort_Search_loop.simps) (simp add: h_def)
  qed (subst (1 2) sort_Search_loop.simps, simp)
qed

lemma sort_Search_cong: "(\<And>k. k < n \<Longrightarrow> f k = g k) \<Longrightarrow> sort_Search n f = sort_Search n g"
  unfolding sort_Search_def by (rule sort_Search_loop_cong)

lemma sort_Search_filter:
  assumes "sorted (map fst xs)"
  shows "drop (sort_Search (length xs) (\<lambda>i. rv \<le> fst (xs ! i))) xs = filter (\<lambda>x. rv \<le> fst x) xs"
proof -
  define r where "r = sort_Search (length xs) (\<lambda>i. rv \<le> fst (xs ! i))"
  have mono: "rv \<le> fst (xs ! b)" if "a \<le> b" "b < length xs" "rv \<le> fst (xs ! a)" for a b
    using sorted_nth_mono [OF assms, of a b] that by (simp add: order_trans)
  have S: "0 \<le> r \<and> r \<le> length xs \<and> (\<forall>k. 0 \<le> k \<and> k < r \<longrightarrow> \<not> rv \<le> fst (xs ! k))
      \<and> (\<forall>k. r \<le> k \<and> k < length xs \<longrightarrow> rv \<le> fst (xs ! k))"
    unfolding r_def sort_Search_def
    by (rule sort_Search_loop_spec [where n = "length xs"]) (auto intro: mono)
  have r: "r \<le> length xs" "\<And>k. k < r \<Longrightarrow> \<not> rv \<le> fst (xs ! k)"
    "\<And>k. r \<le> k \<Longrightarrow> k < length xs \<Longrightarrow> rv \<le> fst (xs ! k)"
    using S by auto
  have "filter (\<lambda>x. rv \<le> fst x) (take r xs) = []"
    using r(1) r(2) by (fastforce simp: filter_empty_conv in_set_conv_nth)
  moreover have "filter (\<lambda>x. rv \<le> fst x) (drop r xs) = drop r xs"
  proof (rule filter_id_conv [THEN iffD2], rule ballI)
    fix x assume "x \<in> set (drop r xs)"
    then obtain i where "i < length xs - r" "x = xs ! (r + i)" using r(1) by (auto simp: in_set_conv_nth)
    then show "rv \<le> fst x" using r(3) [of "r + i"] by simp
  qed
  ultimately show ?thesis
    using filter_append [of "\<lambda>x. rv \<le> fst x" "take r xs" "drop r xs"] by (simp add: r_def)
qed

section \<open>The window\<close>

definition window :: "'o watchCache \<Rightarrow> 'o watchCacheElement list" where
  "window w = map (\<lambda>i. wc_cache w ! (i mod capacity w)) [startIndex w..<endIndex w]"

definition ring_ok :: "'o watchCache \<Rightarrow> bool" where
  "ring_ok w \<longleftrightarrow> 0 < capacity w \<and> length (wc_cache w) = capacity w
     \<and> startIndex w \<le> endIndex w \<and> endIndex w \<le> startIndex w + capacity w"

lemma length_window: "length (window w) = endIndex w - startIndex w"
  by (simp add: window_def)

lemma mod_distinct:
  fixes i e c :: nat
  assumes "i < e" and "e < i + c"
  shows "i mod c \<noteq> e mod c"
proof
  assume "i mod c = e mod c"
  then have "c dvd e - i" using assms(1) by (metis mod_eq_dvd_iff_nat less_imp_le)
  then show False using assms by (auto dest: dvd_imp_le)
qed

text \<open>The cyclic buffer refines a list of bounded length: the oldest element makes room.\<close>

lemma updateCache_window:
  assumes "ring_ok w"
  shows "\<exists>w'. updateCache rv ev w = Some w' \<and> ring_ok w'
    \<and> window w' = (if length (window w) = capacity w then tl (window w) else window w) @ [(rv, ev)]
    \<and> w' = w\<lparr>wc_cache := wc_cache w', startIndex := startIndex w', endIndex := endIndex w'\<rparr>"
proof -
  define s where "s = (if endIndex w = startIndex w + capacity w then startIndex w + 1 else startIndex w)"
  define c where "c = (wc_cache w)[endIndex w mod capacity w := (rv, ev)]"
  define w' where "w' = w\<lparr>wc_cache := c, startIndex := s, endIndex := endIndex w + 1\<rparr>"
  have ok: "0 < capacity w" "length (wc_cache w) = capacity w" "startIndex w \<le> endIndex w"
    "endIndex w \<le> startIndex w + capacity w"
    using assms by (simp_all add: ring_ok_def)
  have s: "s \<le> endIndex w" "endIndex w < s + capacity w" using ok by (auto simp: s_def)
  have upd: "updateCache rv ev w = Some w'"
    using ok(1) by (simp add: updateCache_def w'_def c_def s_def)
  have old: "c ! (i mod capacity w) = wc_cache w ! (i mod capacity w)" if "s \<le> i" "i < endIndex w" for i
    using mod_distinct [of i "endIndex w" "capacity w"] that s by (simp add: c_def)
  have new: "c ! (endIndex w mod capacity w) = (rv, ev)" using ok by (simp add: c_def)
  have "window w' = map (\<lambda>i. c ! (i mod capacity w)) [s..<endIndex w] @ [(rv, ev)]"
    using s(1) new by (simp add: window_def w'_def)
  also have "map (\<lambda>i. c ! (i mod capacity w)) [s..<endIndex w]
      = map (\<lambda>i. wc_cache w ! (i mod capacity w)) [s..<endIndex w]"
    using old by auto
  also have "\<dots> = (if length (window w) = capacity w then tl (window w) else window w)"
    using ok unfolding length_window by (auto simp: window_def s_def upt_conv_Cons)
  finally have "window w' = (if length (window w) = capacity w then tl (window w) else window w) @ [(rv, ev)]" .
  moreover have "ring_ok w'" using ok s by (simp add: ring_ok_def w'_def c_def)
  moreover have "w' = w\<lparr>wc_cache := wc_cache w', startIndex := startIndex w', endIndex := endIndex w'\<rparr>"
    by (simp add: w'_def)
  ultimately show ?thesis using upd by blast
qed

text \<open>What \<^verbatim>\<open>GetAllEventsSince\<close> reads is the window.\<close>

definition oldest :: "'o watchCache \<Rightarrow> 64 word" where
  "oldest w = (if window w = [] then wc_resourceVersion w else fst (hd (window w)))"

lemma GetAllEventsSince_window:
  assumes "sorted (map fst (window w))" and "rv \<noteq> 0"
  shows "GetAllEventsSince rng rv w =
    (if rv < oldest w then Inl (Gone rv (oldest w)) else Inr (map snd (filter (\<lambda>x. rv \<le> fst x) (window w))))"
proof -
  define size where "size = endIndex w - startIndex w"
  have nth: "window w ! i = wc_cache w ! ((startIndex w + i) mod capacity w)" if "i < size" for i
    using that by (simp add: window_def size_def)
  have old: "(if size > 0 then fst (wc_cache w ! (startIndex w mod capacity w)) else wc_resourceVersion w) = oldest w"
    by (auto simp: oldest_def size_def window_def hd_map upt_conv_Cons)
  define first where "first = sort_Search size (\<lambda>i. rv \<le> fst (wc_cache w ! ((startIndex w + i) mod capacity w)))"
  have first: "first = sort_Search (length (window w)) (\<lambda>i. rv \<le> fst (window w ! i))"
    unfolding first_def length_window size_def [symmetric] by (rule sort_Search_cong) (simp add: nth)
  have "map (\<lambda>i. snd (wc_cache w ! ((startIndex w + first + i) mod capacity w))) [0..<size - first]
      = map snd (drop first (window w))"
  proof (rule nth_equalityI)
    show "length (map (\<lambda>i. snd (wc_cache w ! ((startIndex w + first + i) mod capacity w))) [0..<size - first])
        = length (map snd (drop first (window w)))"
      by (simp add: length_window size_def)
    fix i assume "i < length (map (\<lambda>i. snd (wc_cache w ! ((startIndex w + first + i) mod capacity w))) [0..<size - first])"
    then have "first + i < size" by simp
    then show "map (\<lambda>i. snd (wc_cache w ! ((startIndex w + first + i) mod capacity w))) [0..<size - first] ! i
        = map snd (drop first (window w)) ! i"
      using nth [of "first + i"] by (simp add: length_window size_def [symmetric] add.assoc)
  qed
  then show ?thesis
    unfolding GetAllEventsSince_def GetAllEventsSinceThreadUnsafe_def Let_def size_def [symmetric] old
      first_def [symmetric]
    using assms(2) sort_Search_filter [OF assms(1), of rv, folded first] by simp
qed

section \<open>The history\<close>

text \<open>
  Every change that the cache accepts: an object that has a key and a version.  The log holds
  the changes since the last \<^verbatim>\<open>Replace\<close>, oldest first.
\<close>

definition change_event :: "EventType \<Rightarrow> 'o \<Rightarrow> 'o watchCache \<Rightarrow> 'o watchCacheEvent" where
  "change_event ty object w = \<lparr>ev_Type = ty, ev_Object = Some object,
     ev_PrevObject = (case keyFunc (wc_store w) (Some object) of Inl _ \<Rightarrow> None
       | Inr k \<Rightarrow> fst (cache_GetByKey k (wc_store w)))\<rparr>"

text \<open>The three changes and what each does to the store.\<close>

definition typed_update :: "EventType \<Rightarrow> ('o iface \<Rightarrow> 'o cache \<Rightarrow> 'o KeyError option \<times> 'o cache) \<Rightarrow> bool" where
  "typed_update ty u \<longleftrightarrow>
     (ty, u) \<in> {(ADDED, cache_Add [] []), (MODIFIED, cache_Update [] []), (DELETED, cache_Delete [])}"

inductive wc_history :: "'o object_meta \<Rightarrow> 'o watchCache \<Rightarrow> 'o watchCacheElement list \<Rightarrow> bool" for om where
  fresh: "0 < cap \<Longrightarrow> wc_history om (newWatchCache kf cap) []"
| handler: "wc_history om w h \<Longrightarrow> wc_history om (SetOnEvent w) h"
| replace_handler: "wc_history om w h \<Longrightarrow> wc_history om (SetOnReplace w) h"
| change: "wc_history om w h \<Longrightarrow> objectToVersionedRuntimeObject om obj = Inr (object, rv) \<Longrightarrow>
     wc_change ty updateFunc om obj w = (None, w') \<Longrightarrow>
     typed_update ty updateFunc \<Longrightarrow>
     wc_history om w' (h @ [(rv, change_event ty object w)])"
| refused: "wc_history om w h \<Longrightarrow> wc_change ty updateFunc om obj w = (Some err, w') \<Longrightarrow>
     typed_update ty updateFunc \<Longrightarrow>
     wc_history om w' h"
| relisted: "wc_history om w h \<Longrightarrow> go_range_ok rng \<Longrightarrow> None \<notin> set objs \<Longrightarrow> parseResourceVersion rv = Inr v \<Longrightarrow>
     wc_history om (snd (watchCache_Replace rng objs rv w)) []"

text \<open>\<^verbatim>\<open>Add\<close>, \<^verbatim>\<open>Update\<close> and \<^verbatim>\<open>Delete\<close>: refused without a change, or appended to the window.\<close>

lemma processEvent_spec:
  assumes "ring_ok w" and "keyFunc (wc_store w) (Some object) = Inr k"
    and "updateFunc (Some object) (wc_store w) = (None, s)"
  shows "\<exists>w'. wc_processEvent ty object rv updateFunc w = (None, w') \<and> ring_ok w'
    \<and> window w' = (if length (window w) = capacity w then tl (window w) else window w)
        @ [(rv, change_event ty object w)]
    \<and> capacity w' = capacity w \<and> wc_store w' = s \<and> wc_resourceVersion w' = rv
    \<and> onEvent w' = onEvent w
    \<and> handler_calls w' = handler_calls w @ (if onEvent w then [EventCall (change_event ty object w)] else [])"
proof -
  define ev where "ev = change_event ty object w"
  define w1 where "w1 = (if onEvent w then w\<lparr>handler_calls := handler_calls w @ [EventCall ev]\<rparr> else w)"
  obtain p e where get: "cache_Get (Some object) (wc_store w) = Inr (p, e)" and gbk: "cache_GetByKey k (wc_store w) = (p, e)"
    using assms(2) by (cases "cache_GetByKey k (wc_store w)") (simp add: cache_Get_def)
  have "e = False \<Longrightarrow> p = None"
    using gbk by (auto simp: cache_GetByKey_def threadSafeMap_Get_def item_at_def split: option.splits)
  then have ev: "\<lparr>ev_Type = ty, ev_Object = Some object, ev_PrevObject = (if e then p else None)\<rparr> = ev"
    using assms(2) gbk by (simp add: ev_def change_event_def)
  have w1: "ring_ok w1" "window w1 = window w" "capacity w1 = capacity w" "wc_store w1 = wc_store w"
    using assms(1) by (simp_all add: w1_def ring_ok_def window_def)
  obtain w2 where w2: "updateCache rv ev w1 = Some w2" "ring_ok w2"
    "window w2 = (if length (window w1) = capacity w1 then tl (window w1) else window w1) @ [(rv, ev)]"
    "w2 = w1\<lparr>wc_cache := wc_cache w2, startIndex := startIndex w2, endIndex := endIndex w2\<rparr>"
    using updateCache_window [OF w1(1)] by blast
  have frame: "capacity w2 = capacity w" "wc_store w2 = wc_store w" "onEvent w2 = onEvent w"
    "handler_calls w2 = handler_calls w @ (if onEvent w then [EventCall ev] else [])"
    by (subst w2(4), simp add: w1 w1_def)+
  have "wc_processEvent ty object rv updateFunc w = (None, w2\<lparr>wc_resourceVersion := rv, wc_store := s\<rparr>)"
    unfolding wc_processEvent_def get sum.case prod.case Let_def ev w1_def [symmetric] w2(1) option.case
      frame(2) assms(3) by simp
  moreover have "window (w2\<lparr>wc_resourceVersion := rv, wc_store := s\<rparr>) = window w2"
    and "ring_ok (w2\<lparr>wc_resourceVersion := rv, wc_store := s\<rparr>)"
    using w2(2) by (simp_all add: window_def ring_ok_def)
  ultimately show ?thesis using w2(3) frame(1,3,4) unfolding w1(2,3) ev_def by simp
qed


lemma typed_update_ok:
  assumes "typed_update ty u" and "keyFunc s (Some object) = Inr k"
  shows "\<exists>s'. u (Some object) s = (None, s')
    \<and> store_contents s' = (store_contents s)(k := (if ty = DELETED then None else Some (Some object)))
    \<and> keyFunc s' = keyFunc s"
  using assms
  by (auto simp: typed_update_def cache_Add_def cache_Update_def cache_Delete_def)

lemma wc_change_cases:
  assumes "wc_change ty u om obj w = (err, w')" and "typed_update ty u" and "ring_ok w"
  obtains (refused) e where "err = Some e" "w' = w"
  | (accepted) object rv k s where "err = None" "objectToVersionedRuntimeObject om obj = Inr (object, rv)"
    "keyFunc (wc_store w) (Some object) = Inr k" "u (Some object) (wc_store w) = (None, s)" "ring_ok w'"
    "window w' = (if length (window w) = capacity w then tl (window w) else window w) @ [(rv, change_event ty object w)]"
    "capacity w' = capacity w" "wc_store w' = s" "wc_resourceVersion w' = rv" "onEvent w' = onEvent w"
    "handler_calls w' = handler_calls w @ (if onEvent w then [EventCall (change_event ty object w)] else [])"
proof (cases "objectToVersionedRuntimeObject om obj")
  case (Inl e)
  then show ?thesis using assms(1) refused [of e] by (auto simp: wc_change_def)
next
  case (Inr orv)
  obtain object rv where orv: "orv = (object, rv)" by (cases orv)
  have ch: "wc_processEvent ty object rv u w = (err, w')" using assms(1) Inr orv by (simp add: wc_change_def)
  show ?thesis
  proof (cases "keyFunc (wc_store w) (Some object)")
    case (Inl e)
    then show ?thesis using ch refused [of "StoreError (KeyError (Some object) e)"]
      by (auto simp: wc_processEvent_def cache_Get_def)
  next
    case k: (Inr k)
    obtain s where s: "u (Some object) (wc_store w) = (None, s)" using typed_update_ok [OF assms(2) k] by blast
    note spec = processEvent_spec [where updateFunc = u and w = w and object = object and rv = rv
        and k = k and s = s and ty = ty, OF assms(3) k s]
    show ?thesis
      using spec ch accepted [where object = object and rv = rv and k = k and s = s, OF _ _ k s] Inr orv by auto
  qed
qed

text \<open>The window is the end of the history.\<close>

lemma last_elements_snoc:
  assumes "0 < n"
  shows "(if length (drop (length h - n) h) = n then tl (drop (length h - n) h) else drop (length h - n) h) @ [x]
    = drop (length (h @ [x]) - n) (h @ [x])"
  using assms by (cases "n \<le> length h") (auto simp: tl_drop drop_Suc [symmetric] Suc_diff_le)

definition wc_inv :: "'o watchCache \<Rightarrow> 'o watchCacheElement list \<Rightarrow> bool" where
  "wc_inv w h \<longleftrightarrow> ring_ok w \<and> window w = drop (length h - capacity w) h
     \<and> (h \<noteq> [] \<longrightarrow> wc_resourceVersion w = fst (last h))"

lemma wc_history_inv: "wc_history om w h \<Longrightarrow> wc_inv w h"
proof (induction rule: wc_history.induct)
  case (fresh cap kf)
  then show ?case by (simp add: wc_inv_def ring_ok_def newWatchCache_def window_def)
next
  case (handler w h)
  then show ?case by (simp add: wc_inv_def ring_ok_def SetOnEvent_def window_def)
next
  case (replace_handler w h)
  then show ?case by (simp add: wc_inv_def ring_ok_def SetOnReplace_def window_def)
next
  case (change w h obj object rv ty updateFunc w')
  then have ok: "ring_ok w" "window w = drop (length h - capacity w) h" and "0 < capacity w"
    by (auto simp: wc_inv_def ring_ok_def)
  from change(3,4) ok(1) show ?case
  proof (cases rule: wc_change_cases)
    case (accepted object' rv' k s)
    then have "window w' = drop (length (h @ [(rv, change_event ty object w)]) - capacity w)
        (h @ [(rv, change_event ty object w)])"
      using last_elements_snoc [OF \<open>0 < capacity w\<close>, of h] change(2) unfolding ok(2) by simp
    then show ?thesis using accepted change(2) by (simp add: wc_inv_def)
  qed simp
next
  case (refused w h ty updateFunc obj err w')
  then have ok: "ring_ok w" by (simp add: wc_inv_def)
  from refused(2,3) ok show ?case by (cases rule: wc_change_cases) (use refused in auto)
next
  case (relisted w h rng objs rv v)
  then have "0 < capacity w" "length (wc_cache w) = capacity w" by (auto simp: wc_inv_def ring_ok_def)
  then show ?case using relisted(4)
    by (simp add: watchCache_Replace_def wc_inv_def ring_ok_def window_def split: prod.split option.split)
qed

text \<open>
  C14: No watcher misses a change.  A watch cache holds the latest changes, up to its capacity;
  asked for the changes from a version on, it either answers that the version is too old, or
  returns exactly the changes since the last \<^verbatim>\<open>Replace\<close> that have at least that version, in
  order, although the cyclic buffer has overwritten the older ones.  Versions increase from
  change to change.
\<close>

theorem watch_cache_complete:
  assumes "wc_history om w h" and "sorted_wrt (<) (map fst h)" and "rv \<noteq> 0"
  shows "window w = drop (length h - capacity w) h
    \<and> GetAllEventsSince rng rv w =
        (if rv < oldest w then Inl (Gone rv (oldest w))
         else Inr (map snd (filter (\<lambda>x. rv \<le> fst x) h)))"
proof -
  have inv: "wc_inv w h" by (rule wc_history_inv [OF assms(1)])
  define n where "n = length h - capacity w"
  have win: "window w = drop n h" using inv by (simp add: wc_inv_def n_def)
  have split: "map fst h = map fst (take n h) @ map fst (window w)"
    unfolding win map_append [symmetric] by simp
  have so: "sorted_wrt (<) (map fst (window w))"
    "\<And>x y. x \<in> set (map fst (take n h)) \<Longrightarrow> y \<in> set (map fst (window w)) \<Longrightarrow> x < y"
    using assms(2) unfolding split sorted_wrt_append by blast+
  have "sorted (map fst (window w))" using so(1) by (rule strict_sorted_imp_sorted)
  note G = GetAllEventsSince_window [OF this assms(3), of rng]
  have "filter (\<lambda>x. rv \<le> fst x) (take n h) = []" if "\<not> rv < oldest w"
  proof (cases "window w = []")
    case True
    then have "length h \<le> n" by (simp add: win)
    then have "h = []" using inv by (cases h) (auto simp: n_def wc_inv_def ring_ok_def)
    then show ?thesis by simp
  next
    case False
    then have "x < rv" if "x \<in> set (map fst (take n h))" for x
      using so(2) [OF that, of "fst (hd (window w))"] \<open>\<not> rv < oldest w\<close> by (simp add: oldest_def)
    then show ?thesis by (auto simp: filter_empty_conv not_le)
  qed
  then have "filter (\<lambda>x. rv \<le> fst x) (window w) = filter (\<lambda>x. rv \<le> fst x) h" if "\<not> rv < oldest w"
    using that filter_append [of "\<lambda>x. rv \<le> fst x" "take n h" "drop n h"] by (simp add: win)
  then show ?thesis using G win by (simp add: n_def)
qed

text \<open>A cache of two places: objects are pairs of a name and a version.\<close>

definition pair_meta :: "(string \<times> string) object_meta" where
  "pair_meta = \<lparr>implementsObject = (\<lambda>_. True), getResourceVersion = (\<lambda>(name, rv). Inr rv)\<rparr>"

definition pair_keyFunc :: "(string \<times> string) KeyFunc" where
  "pair_keyFunc obj = (case obj of None \<Rightarrow> Inl ''nil'' | Some (name, rv) \<Rightarrow> Inr name)"

lemmas watch_cache_eval = watchCache_Add_def wc_change_def objectToVersionedRuntimeObject_def pair_meta_def
  parseResourceVersion_def ParseUint_def digit_value_def wc_processEvent_def cache_Get_def newWatchCache_def
  NewStore_def pair_keyFunc_def cache_GetByKey_def threadSafeMap_Get_def item_at_def NewThreadSafeStore_def
  updateCache_def cache_Add_def

theorem watch_cache_complete_witness:
  "let w0 = newWatchCache pair_keyFunc 2; w = snd (watchCache_Add pair_meta (Some (''a'', ''5'')) w0)
   in GetAllEventsSince sorted_range 5 w = Inr [change_event ADDED (''a'', ''5'') w0]"
proof -
  define w0 :: "(string \<times> string) watchCache" where "w0 = newWatchCache pair_keyFunc 2"
  define w where "w = snd (watchCache_Add pair_meta (Some (''a'', ''5'')) w0)"
  have ok: "wc_change ADDED (cache_Add [] []) pair_meta (Some (''a'', ''5'')) w0 = (None, w)"
    by (simp add: w_def w0_def watch_cache_eval)
  have ver: "objectToVersionedRuntimeObject pair_meta (Some (''a'', ''5'')) = Inr ((''a'', ''5''), 5)"
    by (simp add: watch_cache_eval)
  have start: "wc_history pair_meta w0 []" unfolding w0_def by (rule fresh) simp
  have h: "wc_history pair_meta w ([] @ [(5, change_event ADDED (''a'', ''5'') w0)])"
    by (rule change [OF start ver ok]) (simp add: typed_update_def)
  have "window w = [(5, change_event ADDED (''a'', ''5'') w0)]"
    using wc_history_inv [OF h] by (simp add: wc_inv_def w_def w0_def watch_cache_eval)
  then show ?thesis
    using watch_cache_complete [OF h, of 5 sorted_range]
    unfolding Let_def w0_def [symmetric] w_def [symmetric] by (simp add: oldest_def)
qed

end
