(* ===== verification/Cacher.thy ===== *)
theory Cacher
  imports Watch_Cache_Props
begin

text \<open>
  \<^verbatim>\<open>pkg/storage/cacher.go\<close> with the version parsers of \<^verbatim>\<open>pkg/storage/util.go\<close>: watches served from
  the watch cache.  Each watcher has a goroutine that sends first the changes it missed and
  then those that the cache passes on to it, keeping what its filter lets through.

  A watcher keeps the number it was registered under.  \<open>registered\<close> is the set of the keys of
  the map \<^verbatim>\<open>watchers\<close>, and \<open>allWatchers\<close> also has the watchers that were forgotten.  A channel is
  the list of the values in it, \<open>input\<close>, or of all values sent so far, \<open>result\<close>; a value that
  cannot be sent yet is a step that was not taken yet.  The timeout of \<^verbatim>\<open>add\<close> is an argument.
  Calls that are passed on to the storage (\<^verbatim>\<open>Create\<close>, \<^verbatim>\<open>Get\<close> and the like) are not modelled.
\<close>

section \<open>Watchers\<close>

type_synonym 'o watch_Event = "EventType \<times> 'o iface"

type_synonym 'o FilterFunc = "'o iface \<Rightarrow> bool"

record 'o cacheWatcher =
  initEvents :: "'o watchCacheEvent list"
  input :: "'o watchCacheEvent list"
  result :: "'o watch_Event list"
  cw_filter :: "'o FilterFunc"
  cw_stopped :: bool

definition newCacheWatcher :: "'o watchCacheEvent list \<Rightarrow> 'o FilterFunc \<Rightarrow> 'o cacheWatcher" where
  "newCacheWatcher init flt =
     \<lparr>initEvents = init, input = [], result = [], cw_filter = flt, cw_stopped = False\<rparr>"

text \<open>\<open>copy\<close> is \<^verbatim>\<open>api.Scheme.Copy\<close>.\<close>

definition sendWatchCacheEvent ::
  "('o iface \<Rightarrow> go_error + 'o iface) \<Rightarrow> 'o watchCacheEvent \<Rightarrow> 'o cacheWatcher \<Rightarrow> 'o cacheWatcher" where
  "sendWatchCacheEvent copy event c =
     (let curObjPasses = (ev_Type event \<noteq> DELETED \<and> cw_filter c (ev_Object event));
          oldObjPasses = (ev_PrevObject event \<noteq> None \<and> cw_filter c (ev_PrevObject event))
      in if \<not> curObjPasses \<and> \<not> oldObjPasses then c
         else case copy (ev_Object event) of
           Inl err \<Rightarrow> c
         | Inr object \<Rightarrow>
             if curObjPasses \<and> \<not> oldObjPasses then c\<lparr>result := result c @ [(ADDED, object)]\<rparr>
             else if curObjPasses \<and> oldObjPasses then c\<lparr>result := result c @ [(MODIFIED, object)]\<rparr>
             else c\<lparr>result := result c @ [(DELETED, object)]\<rparr>)"

text \<open>The goroutine \<^verbatim>\<open>process\<close>, one event; \<^verbatim>\<open>None\<close> when it waits for one or has ended.\<close>

definition cacheWatcher_process ::
  "('o iface \<Rightarrow> go_error + 'o iface) \<Rightarrow> 'o cacheWatcher \<Rightarrow> 'o cacheWatcher option" where
  "cacheWatcher_process copy c =
     (case initEvents c of
        event # rest \<Rightarrow> Some (sendWatchCacheEvent copy event (c\<lparr>initEvents := rest\<rparr>))
      | [] \<Rightarrow>
          (case input c of
             event # rest \<Rightarrow> Some (sendWatchCacheEvent copy event (c\<lparr>input := rest\<rparr>))
           | [] \<Rightarrow> None))"

definition cacheWatcher_stop :: "'o cacheWatcher \<Rightarrow> 'o cacheWatcher" where
  "cacheWatcher_stop c = (if \<not> cw_stopped c then c\<lparr>cw_stopped := True\<rparr> else c)"

section \<open>The cacher\<close>

record 'o Cacher =
  watchCache_of :: "'o watchCache"
  usable :: bool
  watcherIdx :: nat
  allWatchers :: "nat \<rightharpoonup> 'o cacheWatcher"
  registered :: "nat set"

definition forgetWatcher :: "nat \<Rightarrow> 'o Cacher \<Rightarrow> 'o Cacher" where
  "forgetWatcher index c = c\<lparr>registered := registered c - {index}\<rparr>"

text \<open>\<^verbatim>\<open>add\<close>, on the watcher of the given index; a send on a closed channel panics, \<^verbatim>\<open>None\<close>.\<close>

definition cacheWatcher_add :: "bool \<Rightarrow> 'o watchCacheEvent \<Rightarrow> nat \<Rightarrow> 'o Cacher \<Rightarrow> 'o Cacher option" where
  "cacheWatcher_add inTime event index c =
     (case allWatchers c index of
        None \<Rightarrow> Some c
      | Some watcher \<Rightarrow>
          if cw_stopped watcher then None
          else if inTime
          then Some (c\<lparr>allWatchers := (allWatchers c)(index \<mapsto> watcher\<lparr>input := input watcher @ [event]\<rparr>)\<rparr>)
          else Some ((forgetWatcher index c)
                 \<lparr>allWatchers := (allWatchers c)(index \<mapsto> cacheWatcher_stop watcher)\<rparr>))"

fun Cacher_processEvent ::
  "(nat \<Rightarrow> bool) \<Rightarrow> nat list \<Rightarrow> 'o watchCacheEvent \<Rightarrow> 'o Cacher \<Rightarrow> 'o Cacher option" where
  "Cacher_processEvent inTime [] event c = Some c"
| "Cacher_processEvent inTime (index # rest) event c =
     (case cacheWatcher_add (inTime index) event index c of
        None \<Rightarrow> None
      | Some c' \<Rightarrow> Cacher_processEvent inTime rest event c')"

definition terminateAllWatchers :: "'o Cacher \<Rightarrow> 'o Cacher" where
  "terminateAllWatchers c = c\<lparr>registered := {},
     allWatchers := (\<lambda>i. if i \<in> registered c then map_option cacheWatcher_stop (allWatchers c i)
                         else allWatchers c i)\<rparr>"

text \<open>\<^verbatim>\<open>Stop\<close> of a watcher: first forgotten, then stopped.\<close>

definition cacheWatcher_Stop :: "nat \<Rightarrow> 'o Cacher \<Rightarrow> 'o Cacher" where
  "cacheWatcher_Stop index c =
     (let c = forgetWatcher index c
      in c\<lparr>allWatchers := (allWatchers c)(index := map_option cacheWatcher_stop (allWatchers c index))\<rparr>)"

definition ParseWatchResourceVersion :: "string \<Rightarrow> num_error + 64 word" where
  "ParseWatchResourceVersion resourceVersion =
     (if resourceVersion = '''' \<or> resourceVersion = ''0'' then Inr 0
      else case ParseUint resourceVersion of Inl err \<Rightarrow> Inl err | Inr version \<Rightarrow> Inr (word_of_nat version))"

definition ParseListResourceVersion :: "string \<Rightarrow> num_error + 64 word" where
  "ParseListResourceVersion resourceVersion =
     (if resourceVersion = '''' then Inr 0
      else case ParseUint resourceVersion of Inl err \<Rightarrow> Inl err | Inr version \<Rightarrow> Inr (word_of_nat version))"

definition filterFunction ::
  "string \<Rightarrow> ('o iface \<Rightarrow> go_error + string) \<Rightarrow> 'o FilterFunc \<Rightarrow> 'o FilterFunc" where
  "filterFunction key storageKey flt obj =
     (case storageKey obj of
        Inl err \<Rightarrow> False
      | Inr objKey \<Rightarrow> if \<not> prefix key objKey then False else flt obj)"

text \<open>\<^verbatim>\<open>Watch\<close> holds both locks from the read of the missed events to the registration.\<close>

definition Cacher_Watch ::
  "(key, 'o iface) go_range \<Rightarrow> ('o iface \<Rightarrow> go_error + string) \<Rightarrow> string \<Rightarrow> string \<Rightarrow> 'o FilterFunc
     \<Rightarrow> 'o Cacher \<Rightarrow> ('o wc_error + nat) \<times> 'o Cacher" where
  "Cacher_Watch rng storageKey key resourceVersion flt c =
     (case ParseWatchResourceVersion resourceVersion of
        Inl err \<Rightarrow> (Inl (VersionError err), c)
      | Inr watchRV \<Rightarrow>
          (case GetAllEventsSinceThreadUnsafe rng watchRV (watchCache_of c) of
             Inl err \<Rightarrow> (Inl err, c)
           | Inr missed \<Rightarrow>
               (let watcher = newCacheWatcher missed (filterFunction key storageKey flt)
                in (Inr (watcherIdx c),
                    c\<lparr>allWatchers := (allWatchers c)(watcherIdx c \<mapsto> watcher),
                      registered := insert (watcherIdx c) (registered c),
                      watcherIdx := watcherIdx c + 1\<rparr>))))"

text \<open>
  The loop of \<^verbatim>\<open>List\<close> over what the cache returned: an object that is no \<^verbatim>\<open>runtime.Object\<close> ends it.
\<close>

fun Cacher_List_loop :: "'o object_meta \<Rightarrow> 'o FilterFunc \<Rightarrow> 'o iface list \<Rightarrow> 'o wc_error + 'o iface list" where
  "Cacher_List_loop om filterFunc [] = Inr []"
| "Cacher_List_loop om filterFunc (obj # objs) =
     (if obj = None \<or> \<not> implementsObject om (the obj) then Inl (NotRuntimeObject obj)
      else case Cacher_List_loop om filterFunc objs of
        Inl err \<Rightarrow> Inl err
      | Inr rest \<Rightarrow> Inr (if filterFunc obj then obj # rest else rest))"

text \<open>
  \<^verbatim>\<open>List\<close>, for the states and times at which the waiting read looks at the cache; \<^verbatim>\<open>None\<close> while it
  waits.  An empty version is served by the storage, whose answer is the argument \<open>storageList\<close>.
  The reflection on the list object that receives the result is left out.
\<close>

definition Cacher_List ::
  "('o wc_error + 'o iface list \<times> 64 word) \<Rightarrow> (key, 'o iface) go_range \<Rightarrow> 'o object_meta
     \<Rightarrow> ('o iface \<Rightarrow> go_error + string) \<Rightarrow> string \<Rightarrow> string \<Rightarrow> 'o FilterFunc
     \<Rightarrow> ('o watchCache \<times> int) list \<Rightarrow> ('o wc_error + 'o iface list \<times> 64 word) option" where
  "Cacher_List storageList rng om storageKey key resourceVersion flt wakeups =
     (if resourceVersion = '''' then Some storageList
      else case ParseListResourceVersion resourceVersion of
        Inl err \<Rightarrow> Some (Inl (VersionError err))
      | Inr listRV \<Rightarrow>
          (case WaitUntilFreshAndList rng listRV wakeups of
             None \<Rightarrow> None
           | Some (Inl err) \<Rightarrow> Some (Inl err)
           | Some (Inr (objs, rv)) \<Rightarrow>
               Some (map_sum id (\<lambda>items. (items, rv)) (Cacher_List_loop om (filterFunction key storageKey flt) objs))))"

text \<open>\<^verbatim>\<open>NewCacherFromConfig\<close>, up to the start of the caching goroutine.\<close>

definition NewCacherFromConfig :: "'o KeyFunc \<Rightarrow> nat \<Rightarrow> 'o Cacher" where
  "NewCacherFromConfig kf cap = \<lparr>watchCache_of = SetOnEvent (newWatchCache kf cap), usable = False,
     watcherIdx = 0, allWatchers = Map.empty, registered = {}\<rparr>"

text \<open>
  A change that the Reflector delivers: the cache calls \<^verbatim>\<open>processEvent\<close> for the events it reports;
  \<open>order\<close> is the order in which the map of watchers is visited.
\<close>

definition Cacher_change ::
  "EventType \<Rightarrow> ('o iface \<Rightarrow> 'o cache \<Rightarrow> 'o KeyError option \<times> 'o cache) \<Rightarrow> 'o object_meta
     \<Rightarrow> (nat \<Rightarrow> bool) \<Rightarrow> nat list \<Rightarrow> 'o iface \<Rightarrow> 'o Cacher \<Rightarrow> 'o Cacher option" where
  "Cacher_change ty updateFunc om inTime order obj c =
     (let w = watchCache_of c; w' = snd (wc_change ty updateFunc om obj w);
          c' = c\<lparr>watchCache_of := w'\<rparr>
      in case drop (length (handler_calls w)) (handler_calls w') of
           [EventCall event] \<Rightarrow> Cacher_processEvent inTime order event c'
         | _ \<Rightarrow> Some c')"

end
