(* ===== verification/Cacher_Props.thy ===== *)
theory Cacher_Props
  imports Cacher
begin

text \<open>
  What a client of a watch sees: replayed from nothing, the events of a watch that starts
  from now give the stored objects that pass the watch's filter.
\<close>

section \<open>What a watcher sends\<close>

definition watch_output ::
  "('o iface \<Rightarrow> go_error + 'o iface) \<Rightarrow> 'o FilterFunc \<Rightarrow> 'o watchCacheEvent \<Rightarrow> 'o watch_Event list" where
  "watch_output copy flt event = result (sendWatchCacheEvent copy event (newCacheWatcher [] flt))"

lemma sendWatchCacheEvent_output:
  "sendWatchCacheEvent copy event c = c\<lparr>result := result c @ watch_output copy (cw_filter c) event\<rparr>"
  by (auto simp: watch_output_def sendWatchCacheEvent_def newCacheWatcher_def split: sum.split)

text \<open>Everything that was sent, and that will be sent of what the watcher has already.\<close>

definition to_send :: "('o iface \<Rightarrow> go_error + 'o iface) \<Rightarrow> 'o cacheWatcher \<Rightarrow> 'o watch_Event list" where
  "to_send copy c = result c @ concat (map (watch_output copy (cw_filter c)) (initEvents c @ input c))"

lemma process_to_send: "cacheWatcher_process copy c = Some c' \<Longrightarrow>
   to_send copy c' = to_send copy c \<and> cw_filter c' = cw_filter c \<and> cw_stopped c' = cw_stopped c"
  by (auto simp: cacheWatcher_process_def to_send_def sendWatchCacheEvent_output split: list.splits)

lemma to_send_input:
  "to_send copy (c\<lparr>input := input c @ [event]\<rparr>) = to_send copy c @ watch_output copy (cw_filter c) event"
  by (simp add: to_send_def)

text \<open>A client that replays a watch, with a key for each object.\<close>

fun watch_replay ::
  "('o iface \<Rightarrow> go_error + key) \<Rightarrow> 'o watch_Event list \<Rightarrow> (key \<rightharpoonup> 'o iface) \<Rightarrow> (key \<rightharpoonup> 'o iface) option" where
  "watch_replay kf [] m = Some m"
| "watch_replay kf ((ty, obj) # es) m =
     (case kf obj of
        Inl err \<Rightarrow> None
      | Inr k \<Rightarrow>
          if ty = ADDED \<and> m k = None \<or> ty = MODIFIED \<and> m k \<noteq> None then watch_replay kf es (m(k \<mapsto> obj))
          else if ty = DELETED \<and> m k \<noteq> None then watch_replay kf es (m(k := None))
          else None)"

lemma watch_replay_append:
  "watch_replay kf (xs @ ys) m = Option.bind (watch_replay kf xs m) (watch_replay kf ys)"
  by (induction xs arbitrary: m) (auto split: sum.split)

text \<open>The stored objects that pass a filter.\<close>

definition shown :: "'o FilterFunc \<Rightarrow> 'o cache \<Rightarrow> key \<rightharpoonup> 'o iface" where
  "shown flt s k = (case store_contents s k of None \<Rightarrow> None | Some ob \<Rightarrow> if flt ob then Some ob else None)"

definition store_keyed :: "'o KeyFunc \<Rightarrow> 'o cache \<Rightarrow> bool" where
  "store_keyed kf s \<longleftrightarrow> keyFunc s = kf \<and> finite (dom (store_contents s))
     \<and> (\<forall>k ob. store_contents s k = Some ob \<longrightarrow> ob \<noteq> None \<and> kf ob = Inr k)"

lemma store_keyed_update:
  assumes "store_keyed kf s" and "kf (Some object) = Inr k" and "keyFunc s' = keyFunc s"
    and "store_contents s' = (store_contents s)(k := (if deleted then None else Some (Some object)))"
  shows "store_keyed kf s'"
  using assms by (auto simp: store_keyed_def split: if_splits)

lemma store_keyed_Replace:
  assumes "cache_Replace rng pso objs s = (None, s')" and "store_keyed kf s" and "None \<notin> set objs"
  shows "store_keyed kf s'"
proof -
  have kf: "keyFunc s = kf" using assms(2) by (simp add: store_keyed_def)
  obtain its where its: "keyItems kf id objs Map.empty = Inr its"
    and s': "store_contents s' = its" "keyFunc s' = kf"
    using assms(1) kf by (auto simp: cache_Replace_def split: sum.splits prod.splits)
  have "its k = Some ob \<Longrightarrow> ob \<in> set objs \<and> kf ob = Inr k" for k ob
    using keyItems_keys [OF its] by auto
  moreover have "its k = Some ob \<Longrightarrow> ob \<noteq> None" for k ob
    using calculation [of k ob] assms(3) by metis
  ultimately show ?thesis using s' keyItems_dom [OF its] by (simp add: store_keyed_def)
qed

lemma cache_Replace_error: "cache_Replace rng pso objs s = (Some e, s') \<Longrightarrow> s' = s"
  by (auto simp: cache_Replace_def split: sum.splits)

section \<open>One change\<close>

lemma cache_GetByKey_prev: "fst (cache_GetByKey k s) = Option.bind (store_contents s k) id"
  by (simp add: cache_GetByKey_def threadSafeMap_Get_def item_at_def split: option.split)

lemma change_shown:
  assumes "store_keyed kf (wc_store w)" and "kf (Some object) = Inr k" and "\<And>ob. copy ob = Inr ob"
    and "store_contents s' = (store_contents (wc_store w))(k := (if ty = DELETED then None else Some (Some object)))"
  shows "watch_replay kf (watch_output copy flt (change_event ty object w)) (shown flt (wc_store w))
    = Some (shown flt s')"
proof -
  define old where "old = store_contents (wc_store w) k"
  have kf: "keyFunc (wc_store w) = kf" using assms(1) by (simp add: store_keyed_def)
  have old: "old = None \<or> (\<exists>x. old = Some (Some x))"
    using assms(1) by (cases old) (auto simp: old_def store_keyed_def)
  have ev: "change_event ty object w
      = \<lparr>ev_Type = ty, ev_Object = Some object, ev_PrevObject = Option.bind old id\<rparr>"
    using assms(2) by (simp add: change_event_def kf cache_GetByKey_prev old_def)
  have now: "shown flt (wc_store w) k = (case old of None \<Rightarrow> None | Some ob \<Rightarrow> if flt ob then Some ob else None)"
    by (simp add: shown_def old_def)
  have then': "shown flt s' = (shown flt (wc_store w))
      (k := (if ty \<noteq> DELETED \<and> flt (Some object) then Some (Some object) else None))"
    using assms(4) by (auto simp: shown_def fun_eq_iff)
  show ?thesis
    using old now assms(2) unfolding ev then'
    by (elim disjE exE)
      (auto simp: watch_output_def sendWatchCacheEvent_def newCacheWatcher_def assms(3) fun_eq_iff)
qed

section \<open>The start of a watch\<close>

abbreviation added_event :: "'o iface \<Rightarrow> 'o watchCacheEvent" where
  "added_event item \<equiv> \<lparr>ev_Type = ADDED, ev_Object = item, ev_PrevObject = None\<rparr>"

lemma added_output:
  assumes "\<And>ob. copy ob = Inr ob"
  shows "watch_output copy flt (added_event item) = (if flt item then [(ADDED, item)] else [])"
  by (simp add: watch_output_def sendWatchCacheEvent_def newCacheWatcher_def assms)

lemma replay_added:
  assumes "\<And>ob. copy ob = Inr ob" and "distinct (map fst es)"
    and "\<And>k ob. (k, ob) \<in> set es \<Longrightarrow> kf ob = Inr k \<and> m k = None"
  shows "watch_replay kf (concat (map (watch_output copy flt) (map added_event (map snd es)))) m
    = Some (m ++ map_of (filter (\<lambda>(k, ob). flt ob) es))"
  using assms(2,3)
proof (induction es arbitrary: m)
  case (Cons e es)
  obtain k ob where e: "e = (k, ob)" by (cases e)
  have k: "kf ob = Inr k" "m k = None" using Cons.prems(2) [of k ob] by (simp_all add: e)
  have none: "map_of (filter (\<lambda>(k, ob). flt ob) es) k = None"
    using Cons.prems(1) by (force simp: e map_of_eq_None_iff)
  show ?case
  proof (cases "flt ob")
    case True
    have "watch_replay kf (concat (map (watch_output copy flt) (map added_event (map snd es)))) (m(k \<mapsto> ob))
        = Some (m(k \<mapsto> ob) ++ map_of (filter (\<lambda>(k, ob). flt ob) es))"
      by (rule Cons.IH) (use Cons.prems e in \<open>auto simp: rev_image_eqI\<close>)
    moreover have "m(k \<mapsto> ob) ++ map_of (filter (\<lambda>(k, ob). flt ob) es)
        = m ++ (map_of (filter (\<lambda>(k, ob). flt ob) es))(k \<mapsto> ob)"
      using none by (auto simp: map_add_def fun_eq_iff split: option.split)
    ultimately show ?thesis using True k
      by (simp add: e added_output [OF assms(1)]) (simp add: map_add_def fun_eq_iff)
  next
    case False
    have "watch_replay kf (concat (map (watch_output copy flt) (map added_event (map snd es)))) m
        = Some (m ++ map_of (filter (\<lambda>(k, ob). flt ob) es))"
      by (rule Cons.IH) (use Cons.prems e in auto)
    then show ?thesis using False by (simp add: e added_output [OF assms(1)])
  qed
qed simp

lemma watch_from_now:
  assumes "store_keyed kf s" and "go_range_ok rng" and "\<And>ob. copy ob = Inr ob"
  shows "watch_replay kf (concat (map (watch_output copy flt) (map added_event (cache_List rng s)))) Map.empty
    = Some (shown flt s)"
proof -
  have es: "map_entries (rng (store_contents s)) (store_contents s)"
    using go_rangeD [OF assms(2)] assms(1) by (simp add: store_keyed_def)
  have lst: "cache_List rng s = map snd (rng (store_contents s))"
    by (simp add: cache_List_def threadSafeMap_List_eq)
  have keyed: "kf ob = Inr k" if "(k, ob) \<in> set (rng (store_contents s))" for k ob
    using that map_entries_mem [OF es] assms(1) by (simp add: store_keyed_def)
  have "map_of (filter (\<lambda>(k, ob). flt ob) (rng (store_contents s))) = shown flt s"
  proof
    fix k
    have d: "distinct (map fst (rng (store_contents s)))" "map_of (rng (store_contents s)) = store_contents s"
      using es by (auto simp: map_entries_def)
    show "map_of (filter (\<lambda>(k, ob). flt ob) (rng (store_contents s))) k = shown flt s k"
      using d by (simp add: shown_def map_of_filter_val)
  qed
  then show ?thesis
    using replay_added [of copy "rng (store_contents s)" kf Map.empty flt, OF assms(3)]
      map_entries_distinct [OF es] keyed by (simp add: lst)
qed

section \<open>Runs of a cacher\<close>

text \<open>
  The caching goroutine goes through three phases, again and again: \<open>Listing\<close>, from the
  termination of the old watchers to a successful \<^verbatim>\<open>Replace\<close>; \<open>Watching\<close>, in which changes come
  in and clients may watch; and \<open>Stopped\<close>, until the next attempt.  The last component is the
  set of the watchers that started from now.
\<close>

datatype phase = Stopped | Listing | Watching

type_synonym 'o cacher_state = "phase \<times> 'o Cacher \<times> nat set"

inductive cacher_step ::
  "'o object_meta \<Rightarrow> ('o iface \<Rightarrow> go_error + 'o iface) \<Rightarrow> 'o cacher_state \<Rightarrow> 'o cacher_state \<Rightarrow> bool"
  for om copy where
  startCaching: "cacher_step om copy (Stopped, c, Z) (Listing, terminateAllWatchers c, Z)"
| replaced: "go_range_ok rng \<Longrightarrow> None \<notin> set objs \<Longrightarrow>
     watchCache_Replace rng objs rv (SetOnReplace (watchCache_of c)) = (None, w) \<Longrightarrow>
     cacher_step om copy (Listing, c, Z) (Watching, c\<lparr>watchCache_of := w, usable := True\<rparr>, Z)"
| not_replaced: "watchCache_Replace rng objs rv (SetOnReplace (watchCache_of c)) = (Some err, w) \<Longrightarrow>
     cacher_step om copy (Listing, c, Z) (Listing, c\<lparr>watchCache_of := w\<rparr>, Z)"
| changed: "typed_update ty u \<Longrightarrow> set_order order (registered c) \<Longrightarrow>
     Cacher_change ty u om inTime order obj c = Some c' \<Longrightarrow>
     cacher_step om copy (Watching, c, Z) (Watching, c', Z)"
| disconnected: "cacher_step om copy (ph, c, Z) (Stopped, c\<lparr>usable := False\<rparr>, Z)"
| watching: "usable c \<Longrightarrow> go_range_ok rng \<Longrightarrow> Cacher_Watch rng storageKey key rv flt c = (r, c') \<Longrightarrow>
     Z' = (case r of Inr i \<Rightarrow> if ParseWatchResourceVersion rv = Inr 0 then insert i Z else Z | Inl _ \<Rightarrow> Z) \<Longrightarrow>
     cacher_step om copy (ph, c, Z) (ph, c', Z')"
| processed: "allWatchers c i = Some cw \<Longrightarrow> cacheWatcher_process copy cw = Some cw' \<Longrightarrow>
     cacher_step om copy (ph, c, Z) (ph, c\<lparr>allWatchers := (allWatchers c)(i \<mapsto> cw')\<rparr>, Z)"
| stopped: "cacher_step om copy (ph, c, Z) (ph, cacheWatcher_Stop i c, Z)"

definition cacher_reachable ::
  "'o object_meta \<Rightarrow> ('o iface \<Rightarrow> go_error + 'o iface) \<Rightarrow> 'o KeyFunc \<Rightarrow> 'o cacher_state \<Rightarrow> bool" where
  "cacher_reachable om copy kf st \<longleftrightarrow> (\<exists>cap > 0. (cacher_step om copy)\<^sup>*\<^sup>* (Stopped, NewCacherFromConfig kf cap, {}) st)"

definition watcher_ok ::
  "('o iface \<Rightarrow> go_error + 'o iface) \<Rightarrow> 'o KeyFunc \<Rightarrow> 'o cache \<Rightarrow> 'o cacheWatcher \<Rightarrow> bool" where
  "watcher_ok copy kf s cw \<longleftrightarrow> watch_replay kf (to_send copy cw) Map.empty = Some (shown (cw_filter cw) s)"

definition cacher_inv ::
  "('o iface \<Rightarrow> go_error + 'o iface) \<Rightarrow> 'o KeyFunc \<Rightarrow> 'o cacher_state \<Rightarrow> bool" where
  "cacher_inv copy kf st \<longleftrightarrow> (case st of (ph, c, Z) \<Rightarrow>
     (ph = Listing \<longrightarrow> registered c = {}) \<and> (usable c \<longrightarrow> ph = Watching) \<and> onEvent (watchCache_of c) \<and> ring_ok (watchCache_of c)
     \<and> store_keyed kf (wc_store (watchCache_of c)) \<and> registered c \<subseteq> dom (allWatchers c)
     \<and> (\<forall>i \<in> Z. i < watcherIdx c)
     \<and> (\<forall>i cw. allWatchers c i = Some cw \<longrightarrow> i < watcherIdx c \<and> (i \<in> registered c \<longrightarrow>
          \<not> cw_stopped cw \<and> (i \<in> Z \<longrightarrow> watcher_ok copy kf (wc_store (watchCache_of c)) cw))))"

lemma cacher_inv_New: "0 < cap \<Longrightarrow> cacher_inv copy kf (Stopped, NewCacherFromConfig kf cap, {})"
  by (simp add: cacher_inv_def NewCacherFromConfig_def SetOnEvent_def newWatchCache_def ring_ok_def
      store_keyed_def NewStore_def NewThreadSafeStore_def)

text \<open>An event passed to the watchers reaches those that stay registered; no send panics.\<close>

lemma processEvent_watchers:
  assumes "distinct order" and "\<And>i cw. i \<in> set order \<Longrightarrow> allWatchers c i = Some cw \<Longrightarrow> \<not> cw_stopped cw"
    and "set order \<subseteq> dom (allWatchers c)"
  shows "\<exists>c'. Cacher_processEvent inTime order event c = Some c'
    \<and> watchCache_of c' = watchCache_of c \<and> watcherIdx c' = watcherIdx c
    \<and> dom (allWatchers c') = dom (allWatchers c) \<and> registered c' \<subseteq> registered c
    \<and> (\<forall>i cw. i \<in> registered c' \<and> allWatchers c' i = Some cw \<longrightarrow>
         (\<exists>cw0. allWatchers c i = Some cw0
            \<and> cw = (if i \<in> set order then cw0\<lparr>input := input cw0 @ [event]\<rparr> else cw0)))"
  using assms
proof (induction order arbitrary: c)
  case (Cons index order)
  obtain cw1 where Some: "allWatchers c index = Some cw1" using Cons.prems(3) by auto
  have open1: "\<not> cw_stopped cw1" using Cons.prems(2) [OF _ Some] by simp
  define c1 where "c1 = (if inTime index
      then c\<lparr>allWatchers := (allWatchers c)(index \<mapsto> cw1\<lparr>input := input cw1 @ [event]\<rparr>)\<rparr>
      else (forgetWatcher index c)\<lparr>allWatchers := (allWatchers c)(index \<mapsto> cacheWatcher_stop cw1)\<rparr>)"
  have add: "cacheWatcher_add (inTime index) event index c = Some c1"
    using Some open1 by (simp add: cacheWatcher_add_def c1_def)
  have other: "i \<noteq> index \<Longrightarrow> allWatchers c1 i = allWatchers c i" for i
    by (simp add: c1_def forgetWatcher_def)
  have c1: "watchCache_of c1 = watchCache_of c" "watcherIdx c1 = watcherIdx c"
    "dom (allWatchers c1) = dom (allWatchers c)" "registered c1 \<subseteq> registered c"
    "index \<in> registered c1 \<Longrightarrow> allWatchers c1 index = Some (cw1\<lparr>input := input cw1 @ [event]\<rparr>)"
    using Some by (auto simp: c1_def forgetWatcher_def split: if_splits)
  have "\<not> cw_stopped cw" if "i \<in> set order" "allWatchers c1 i = Some cw" for i cw
    using Cons.prems(2) [of i cw] Cons.prems(1) other [of i] that by fastforce
  moreover have "set order \<subseteq> dom (allWatchers c1)" using Cons.prems(3) c1(3) by simp
  ultimately obtain c2 where c2:
    "Cacher_processEvent inTime order event c1 = Some c2" "watchCache_of c2 = watchCache_of c1"
    "watcherIdx c2 = watcherIdx c1" "dom (allWatchers c2) = dom (allWatchers c1)"
    "registered c2 \<subseteq> registered c1"
    "\<And>i cw. i \<in> registered c2 \<Longrightarrow> allWatchers c2 i = Some cw \<Longrightarrow>
       (\<exists>cw0. allWatchers c1 i = Some cw0
          \<and> cw = (if i \<in> set order then cw0\<lparr>input := input cw0 @ [event]\<rparr> else cw0))"
    using Cons.IH [of c1] Cons.prems(1) by fastforce
  have "\<exists>cw0. allWatchers c i = Some cw0
      \<and> cw = (if i \<in> set (index # order) then cw0\<lparr>input := input cw0 @ [event]\<rparr> else cw0)"
    if "i \<in> registered c2" "allWatchers c2 i = Some cw" for i cw
    using c2(5) c2(6) [OF that] c1(5) other [of i] Some Cons.prems(1) that(1)
    by (cases "i = index") auto
  then show ?case using c2(1-5) c1(1-4) add by auto
qed auto


lemma Cacher_change_inv:
  assumes inv: "cacher_inv copy kf (Watching, c, Z)" and ty: "typed_update ty u"
    and ord: "set_order order (registered c)" and copy: "\<And>ob. copy ob = Inr ob"
  shows "\<exists>c'. Cacher_change ty u om inTime order obj c = Some c' \<and> cacher_inv copy kf (Watching, c', Z)"
proof -
  define w where "w = watchCache_of c"
  obtain err w' where ch: "wc_change ty u om obj w = (err, w')" by (cases "wc_change ty u om obj w")
  have I: "onEvent w" "ring_ok w" "store_keyed kf (wc_store w)" "registered c \<subseteq> dom (allWatchers c)"
    "\<And>i cw. i \<in> registered c \<Longrightarrow> allWatchers c i = Some cw \<Longrightarrow> \<not> cw_stopped cw"
    "\<And>i cw. i \<in> registered c \<inter> Z \<Longrightarrow> allWatchers c i = Some cw \<Longrightarrow> watcher_ok copy kf (wc_store w) cw"
    "\<And>i. i \<in> dom (allWatchers c) \<Longrightarrow> i < watcherIdx c" "\<forall>i \<in> Z. i < watcherIdx c"
    using inv by (auto simp: cacher_inv_def w_def)
  from ch ty I(2) show ?thesis
  proof (cases rule: wc_change_cases)
    case (refused e)
    then show ?thesis using ch inv
      by (simp add: Cacher_change_def w_def [symmetric]) (simp add: w_def cacher_inv_def)
  next
    case (accepted object rv k s)
    define ev where "ev = change_event ty object w"
    have kf: "kf (Some object) = Inr k" using accepted(3) I(3) by (simp add: store_keyed_def)
    have s: "store_contents s = (store_contents (wc_store w))(k := (if ty = DELETED then None else Some (Some object)))"
      "keyFunc s = keyFunc (wc_store w)"
      using typed_update_ok [OF ty accepted(3)] accepted(4) by auto
    have "\<exists>c'. Cacher_processEvent inTime order ev (c\<lparr>watchCache_of := w'\<rparr>) = Some c'
      \<and> watchCache_of c' = w' \<and> watcherIdx c' = watcherIdx c
      \<and> dom (allWatchers c') = dom (allWatchers c) \<and> registered c' \<subseteq> registered c
      \<and> (\<forall>i cw. i \<in> registered c' \<and> allWatchers c' i = Some cw \<longrightarrow>
         (\<exists>cw0. allWatchers c i = Some cw0
            \<and> cw = (if i \<in> set order then cw0\<lparr>input := input cw0 @ [ev]\<rparr> else cw0)))"
      using processEvent_watchers [of order "c\<lparr>watchCache_of := w'\<rparr>" inTime ev] ord I(4,5)
      by (simp add: set_order_def)
    then obtain c' where c': "Cacher_processEvent inTime order ev (c\<lparr>watchCache_of := w'\<rparr>) = Some c'"
      "watchCache_of c' = w'" "watcherIdx c' = watcherIdx c" "dom (allWatchers c') = dom (allWatchers c)"
      "registered c' \<subseteq> registered c"
      and got: "\<And>i cw. i \<in> registered c' \<Longrightarrow> allWatchers c' i = Some cw \<Longrightarrow>
         (\<exists>cw0. allWatchers c i = Some cw0 \<and> cw = cw0\<lparr>input := input cw0 @ [ev]\<rparr>)"
      unfolding set_order_set [OF ord] by (metis subsetD)
    have eq: "Cacher_change ty u om inTime order obj c = Some c'"
      using c'(1) ch accepted(10,11) I(1) by (simp add: Cacher_change_def w_def [symmetric] ev_def)
    have keyed: "store_keyed kf s" by (rule store_keyed_update [OF I(3) kf s(2,1)])
    have "watcher_ok copy kf s cw" if i: "i \<in> registered c' \<inter> Z" "allWatchers c' i = Some cw" for i cw
    proof -
      obtain cw0 where cw0: "allWatchers c i = Some cw0" "cw = cw0\<lparr>input := input cw0 @ [ev]\<rparr>"
        using got i by blast
      have "watcher_ok copy kf (wc_store w) cw0" using I(6) cw0(1) c'(5) i(1) by blast
      then show ?thesis
        using change_shown [OF I(3) kf copy s(1), of "cw_filter cw0"] unfolding cw0(2)
        by (simp add: watcher_ok_def to_send_input watch_replay_append ev_def)
    qed
    moreover have "\<not> cw_stopped cw" if "i \<in> registered c'" "allWatchers c' i = Some cw" for i cw
      using got [OF that] I(5) c'(5) that(1) by auto
    moreover have "i < watcherIdx c'" if "allWatchers c' i = Some cw" for i cw
      using I(7) c'(3,4) that by (metis domI)
    ultimately have "cacher_inv copy kf (Watching, c', Z)"
      using c' I(1,4,8) accepted(5,8,10) keyed by (auto simp: cacher_inv_def)
    then show ?thesis using eq by blast
  qed
qed


lemma Cacher_Watch_inv:
  assumes inv: "cacher_inv copy kf (ph, c, Z)" and us: "usable c" and rng: "go_range_ok rng"
    and watch: "Cacher_Watch rng storageKey key rv flt c = (r, c')" and copy: "\<And>ob. copy ob = Inr ob"
    and Z': "Z' = (case r of Inr i \<Rightarrow> if ParseWatchResourceVersion rv = Inr 0 then insert i Z else Z | Inl _ \<Rightarrow> Z)"
  shows "cacher_inv copy kf (ph, c', Z')"
proof (cases r)
  case (Inl e)
  then have "c' = c" using watch by (auto simp: Cacher_Watch_def split: sum.splits)
  then show ?thesis using inv Inl Z' by simp
next
  case (Inr i)
  obtain v evs where v: "ParseWatchResourceVersion rv = Inr v"
    "GetAllEventsSinceThreadUnsafe rng v (watchCache_of c) = Inr evs" "i = watcherIdx c"
    and c': "c' = c\<lparr>allWatchers := (allWatchers c)(i \<mapsto> newCacheWatcher evs (filterFunction key storageKey flt)),
        registered := insert i (registered c), watcherIdx := i + 1\<rparr>"
    using watch Inr by (auto simp: Cacher_Watch_def split: sum.splits)
  have ph: "ph = Watching" using inv us by (simp add: cacher_inv_def)
  have new: "i \<notin> registered c" using inv v(3) by (auto simp: cacher_inv_def)
  have "watcher_ok copy kf (wc_store (watchCache_of c)) (newCacheWatcher evs (filterFunction key storageKey flt))"
    if "v = 0"
  proof -
    have "evs = map added_event (cache_List rng (wc_store (watchCache_of c)))"
      using v(2) that by (simp add: GetAllEventsSinceThreadUnsafe_def)
    moreover have "store_keyed kf (wc_store (watchCache_of c))" using inv by (simp add: cacher_inv_def)
    ultimately show ?thesis
      using watch_from_now [OF _ rng copy, of kf "wc_store (watchCache_of c)" "filterFunction key storageKey flt"]
      by (simp add: watcher_ok_def to_send_def newCacheWatcher_def)
  qed
  then show ?thesis
    using inv new Inr v(1,3) Z' unfolding c' ph
    by (auto simp: cacher_inv_def newCacheWatcher_def less_SucI split: if_splits)
qed

lemma Replace_frame:
  assumes "watchCache_Replace rng objs rv (SetOnReplace w) = (err, w')"
  shows "onEvent w \<Longrightarrow> onEvent w'" and "ring_ok w \<Longrightarrow> ring_ok w'"
    and "store_keyed kf (wc_store w) \<Longrightarrow> err \<noteq> None \<or> None \<notin> set objs \<Longrightarrow> store_keyed kf (wc_store w')"
  using assms store_keyed_Replace [of rng "\<lambda>_. []" objs "wc_store w" _ kf]
  by (auto simp: watchCache_Replace_def SetOnReplace_def ring_ok_def dest: cache_Replace_error
      split: sum.splits prod.splits option.splits if_splits)

lemma cacher_step_inv:
  assumes "cacher_step om copy st st'" and "cacher_inv copy kf st" and "\<And>ob. copy ob = Inr ob"
  shows "cacher_inv copy kf st'"
  using assms(1)
proof cases
  case (startCaching c Z)
  then show ?thesis using assms(2) by (auto simp: cacher_inv_def terminateAllWatchers_def)
next
  case (replaced rng objs rv c w Z)
  then show ?thesis using assms(2) by (auto simp: cacher_inv_def intro: Replace_frame)
next
  case (not_replaced rng objs rv c err w Z)
  then show ?thesis using assms(2) by (auto simp: cacher_inv_def intro: Replace_frame)
next
  case (changed ty u order c inTime obj c' Z)
  then show ?thesis
    using Cacher_change_inv [OF assms(2) [unfolded changed(1)] changed(3,4) assms(3), of om inTime obj] by auto
next
  case (disconnected ph c Z)
  then show ?thesis using assms(2) by (auto simp: cacher_inv_def)
next
  case (watching c rng storageKey key rv flt r c' Z' Z ph)
  then show ?thesis using Cacher_Watch_inv [OF assms(2) [unfolded watching(1)] watching(3-5) assms(3)] by blast
next
  case (processed c i cw cw' ph Z)
  then show ?thesis
    using assms(2) process_to_send [OF processed(4)]
    by (auto simp: cacher_inv_def watcher_ok_def split: if_splits)
next
  case (stopped ph c Z i)
  then show ?thesis
    using assms(2) by (auto simp: cacher_inv_def cacheWatcher_Stop_def forgetWatcher_def)
qed

lemma cacher_reachable_inv:
  assumes "cacher_reachable om copy kf st" and "\<And>ob. copy ob = Inr ob"
  shows "cacher_inv copy kf st"
proof -
  obtain cap where "0 < cap" and run: "(cacher_step om copy)\<^sup>*\<^sup>* (Stopped, NewCacherFromConfig kf cap, {}) st"
    using assms(1) by (auto simp: cacher_reachable_def)
  from run show ?thesis
    by (induction rule: rtranclp_induct) (auto intro: cacher_inv_New [OF \<open>0 < cap\<close>] cacher_step_inv assms(2))
qed

text \<open>
  C11: A watch shows its client the filtered store.  In every run of a cacher, with reconnections,
  slow watchers and watchers that stop, the events sent to a registered watcher that started
  from now are a consistent history: additions of absent objects, changes and deletions of
  present ones.  Together with those still on their way they lead to exactly the stored
  objects that pass the watcher's filter, objects that start or cease to pass it included.
\<close>

theorem cacher_watch_consistent:
  assumes "cacher_reachable om copy kf (ph, c, Z)" and "\<And>ob. copy ob = Inr ob"
    and "i \<in> registered c" and "i \<in> Z" and "allWatchers c i = Some cw"
  shows "watch_replay kf (result cw) Map.empty \<noteq> None
    \<and> watch_replay kf (to_send copy cw) Map.empty = Some (shown (cw_filter cw) (wc_store (watchCache_of c)))
    \<and> (initEvents cw = [] \<and> input cw = [] \<longrightarrow> to_send copy cw = result cw)"
proof -
  have ok: "watch_replay kf (to_send copy cw) Map.empty = Some (shown (cw_filter cw) (wc_store (watchCache_of c)))"
    using cacher_reachable_inv [OF assms(1,2)] assms(3-5) by (auto simp: cacher_inv_def watcher_ok_def)
  then have "watch_replay kf (result cw) Map.empty \<noteq> None"
    by (auto simp: to_send_def watch_replay_append bind_eq_Some_conv)
  then show ?thesis using ok by (simp add: to_send_def)
qed

text \<open>
  No event is sent on a closed channel.  Whatever order the runtime visits the watchers in and
  whichever of them are too slow, delivering a change to the registered watchers does not panic.
\<close>

theorem cacher_delivery_never_panics:
  assumes "cacher_reachable om copy kf (Watching, c, Z)" and "\<And>ob. copy ob = Inr ob"
    and "typed_update ty u" and "set_order order (registered c)"
  shows "Cacher_change ty u om inTime order obj c \<noteq> None"
  using Cacher_change_inv [OF cacher_reachable_inv [OF assms(1,2)] assms(3,4,2), of om inTime obj] by auto

text \<open>A run for the examples: an empty list is loaded, a client watches, an object is added.\<close>

definition listed_cacher :: "(string \<times> string) Cacher" where
  "listed_cacher = (let c = terminateAllWatchers (NewCacherFromConfig pair_keyFunc 2)
     in c\<lparr>watchCache_of := snd (watchCache_Replace sorted_range [] '''' (SetOnReplace (watchCache_of c))),
          usable := True\<rparr>)"

definition watched_cacher :: "(string \<times> string) Cacher" where
  "watched_cacher = snd (Cacher_Watch sorted_range (\<lambda>_. Inr ''/pods'') ''/pods'' ''0'' (\<lambda>_. True) listed_cacher)"

lemmas cacher_eval = NewCacherFromConfig_def terminateAllWatchers_def SetOnReplace_def SetOnEvent_def
  watchCache_Replace_def parseResourceVersion_def newWatchCache_def NewStore_def cache_Replace_def
  listed_cacher_def Cacher_Watch_def ParseWatchResourceVersion_def GetAllEventsSinceThreadUnsafe_def
  newCacheWatcher_def

lemma watched_cacher_reachable:
  "cacher_reachable pair_meta Inr pair_keyFunc (Watching, watched_cacher, {0})"
proof -
  let ?step = "cacher_step pair_meta (Inr :: (string \<times> string) iface \<Rightarrow> go_error + _)"
  define c0 where "c0 = terminateAllWatchers (NewCacherFromConfig pair_keyFunc 2)"
  have 1: "?step (Stopped, NewCacherFromConfig pair_keyFunc 2, {}) (Listing, c0, {})"
    unfolding c0_def by (rule startCaching)
  have rep: "watchCache_Replace sorted_range [] '''' (SetOnReplace (watchCache_of c0))
      = (None, snd (watchCache_Replace sorted_range [] '''' (SetOnReplace (watchCache_of c0))))"
    by (simp add: c0_def cacher_eval)
  have 2: "?step (Listing, c0, {}) (Watching, listed_cacher, {})"
    using replaced [OF sorted_range_ok _ rep] by (simp add: listed_cacher_def c0_def)
  have 3: "?step (Watching, listed_cacher, {}) (Watching, watched_cacher, {0})"
  proof (rule watching [OF _ sorted_range_ok])
    show "usable listed_cacher" by (simp add: listed_cacher_def)
    show "Cacher_Watch sorted_range (\<lambda>_. Inr ''/pods'') ''/pods'' ''0'' (\<lambda>_. True) listed_cacher
        = (Inr 0, watched_cacher)"
      by (simp add: watched_cacher_def cacher_eval)
    show "{0} = (case Inr 0 of Inr i \<Rightarrow> if ParseWatchResourceVersion ''0'' = Inr 0 then insert i {} else {} | Inl _ \<Rightarrow> {})"
      by (simp add: ParseWatchResourceVersion_def)
  qed
  show ?thesis
    unfolding cacher_reachable_def using 1 2 3
    by (intro exI [of _ 2] conjI) (auto intro: converse_rtranclp_into_rtranclp)
qed

theorem cacher_delivery_never_panics_witness:
  "Cacher_change ADDED (cache_Add [] []) pair_meta (\<lambda>_. True) [0] (Some (''a'', ''5'')) watched_cacher \<noteq> None"
  by (rule cacher_delivery_never_panics [OF watched_cacher_reachable])
    (simp_all add: typed_update_def set_order_def watched_cacher_def cacher_eval)

theorem cacher_watch_consistent_witness:
  "\<exists>cw. allWatchers watched_cacher 0 = Some cw
     \<and> watch_replay pair_keyFunc (to_send Inr cw) Map.empty
         = Some (shown (cw_filter cw) (wc_store (watchCache_of watched_cacher)))"
proof -
  obtain cw where cw: "allWatchers watched_cacher 0 = Some cw" and "0 \<in> registered watched_cacher"
    by (simp add: watched_cacher_def cacher_eval)
  then show ?thesis using cacher_watch_consistent [OF watched_cacher_reachable, of 0 cw] by simp
qed

text \<open>
  The comment on \<^verbatim>\<open>ParseWatchResourceVersion\<close> promises that a watch from version 1 sees the
  changes from version 2 on.  The parser returns the version itself, and the watch cache
  returns the changes from that version on, so that a client that watches from the version it
  has seen is sent its last change again.
\<close>

theorem watch_repeats_given_version:
  "let c = the (Cacher_change ADDED (cache_Add [] []) pair_meta (\<lambda>_. True) [] (Some (''a'', ''5'')) listed_cacher);
       (r, c') = Cacher_Watch sorted_range (\<lambda>_. Inr ''/pods'') ''/pods'' ''5'' (\<lambda>_. True) c
   in wc_resourceVersion (watchCache_of c) = 5 \<and> r = Inr 0
      \<and> map ev_Object (initEvents (the (allWatchers c' 0))) = [Some (''a'', ''5'')]"
  by (simp add: cacher_eval watch_cache_eval Cacher_change_def sort_Search_def sort_Search_loop.simps)

end
