(* ===== verification/Regexp.thy ===== *)
theory Regexp
  imports Prelude
begin

text \<open>
  The fragment of Go's \<^verbatim>\<open>regexp\<close> package that the validators use, on patterns anchored with
  \<open>^\<close> and \<open>$\<close>: character classes, concatenation, \<open>?\<close>, \<open>*\<close>, \<open>+\<close>.  \<^verbatim>\<open>MatchString\<close> runs by
  derivatives; \<open>lang\<close> is the meaning of a pattern, and the two agree.
\<close>

section \<open>Patterns and matching\<close>

datatype regexp =
    Never
  | Empty
  | Class "char \<Rightarrow> bool"
  | Cat regexp regexp
  | Alt regexp regexp
  | Star regexp

abbreviation Opt :: "regexp \<Rightarrow> regexp" where "Opt r \<equiv> Alt Empty r"
abbreviation Plus :: "regexp \<Rightarrow> regexp" where "Plus r \<equiv> Cat r (Star r)"

fun nullable :: "regexp \<Rightarrow> bool" where
  "nullable Never = False"
| "nullable Empty = True"
| "nullable (Class P) = False"
| "nullable (Cat r s) = (nullable r \<and> nullable s)"
| "nullable (Alt r s) = (nullable r \<or> nullable s)"
| "nullable (Star r) = True"

fun deriv :: "char \<Rightarrow> regexp \<Rightarrow> regexp" where
  "deriv c Never = Never"
| "deriv c Empty = Never"
| "deriv c (Class P) = (if P c then Empty else Never)"
| "deriv c (Cat r s) =
     (if nullable r then Alt (Cat (deriv c r) s) (deriv c s) else Cat (deriv c r) s)"
| "deriv c (Alt r s) = Alt (deriv c r) (deriv c s)"
| "deriv c (Star r) = Cat (deriv c r) (Star r)"

definition MatchString :: "regexp \<Rightarrow> string \<Rightarrow> bool" where
  "MatchString r s = nullable (fold deriv s r)"

section \<open>Meaning\<close>

inductive_set star_lang :: "string set \<Rightarrow> string set" for A where
  star_nil: "[] \<in> star_lang A"
| star_app: "u \<in> A \<Longrightarrow> v \<in> star_lang A \<Longrightarrow> u @ v \<in> star_lang A"

fun lang :: "regexp \<Rightarrow> string set" where
  "lang Never = {}"
| "lang Empty = {[]}"
| "lang (Class P) = {[c] | c. P c}"
| "lang (Cat r s) = {u @ v | u v. u \<in> lang r \<and> v \<in> lang s}"
| "lang (Alt r s) = lang r \<union> lang s"
| "lang (Star r) = star_lang (lang r)"

lemma nullable_lang: "nullable r \<longleftrightarrow> [] \<in> lang r"
  by (induction r) (auto intro: star_nil)

lemma star_lang_Cons:
  "c # s \<in> star_lang A \<longleftrightarrow> (\<exists>u v. c # u \<in> A \<and> v \<in> star_lang A \<and> s = u @ v)"
proof
  assume "c # s \<in> star_lang A"
  then show "\<exists>u v. c # u \<in> A \<and> v \<in> star_lang A \<and> s = u @ v"
    by (induction "c # s" rule: star_lang.induct) (auto simp: append_eq_Cons_conv)
next
  assume "\<exists>u v. c # u \<in> A \<and> v \<in> star_lang A \<and> s = u @ v"
  then show "c # s \<in> star_lang A" using star_app by fastforce
qed

lemma deriv_lang: "s \<in> lang (deriv c r) \<longleftrightarrow> c # s \<in> lang r"
proof (induction r arbitrary: s)
  case (Cat r1 r2)
  then show ?case
    by (auto simp: nullable_lang Cons_eq_append_conv)
qed (auto simp: star_lang_Cons Cons_eq_append_conv)

lemma MatchString_lang: "MatchString r s \<longleftrightarrow> s \<in> lang r"
  unfolding MatchString_def by (induction s arbitrary: r) (simp_all add: nullable_lang deriv_lang)

section \<open>Closed forms\<close>

lemma star_lang_class: "s \<in> star_lang {[c] | c. P c} \<longleftrightarrow> (\<forall>c \<in> set s. P c)"
  by (induction s) (auto simp: star_lang_Cons intro: star_nil)

lemma lang_Cat_first: "s \<in> lang (Cat (Class P) r) \<longleftrightarrow> (\<exists>a t. s = a # t \<and> P a \<and> t \<in> lang r)"
proof
  assume "\<exists>a t. s = a # t \<and> P a \<and> t \<in> lang r"
  then obtain a t where "s = [a] @ t" "P a" "t \<in> lang r" by auto
  then show "s \<in> lang (Cat (Class P) r)" by (simp only: lang.simps) blast
qed auto

lemma lang_Cat_last: "s \<in> lang (Cat r (Class P)) \<longleftrightarrow> (\<exists>t c. s = t @ [c] \<and> P c \<and> t \<in> lang r)"
  by auto

lemmas lang_class_simps = lang_Cat_first lang_Cat_last star_lang_class

declare lang.simps(4) [simp del]

lemma lang_plus_class: "s \<in> lang (Plus (Class P)) \<longleftrightarrow> s \<noteq> [] \<and> (\<forall>c \<in> set s. P c)"
  by (cases s) (simp_all add: lang_class_simps)

text \<open>A first and a last character of one class around characters of another.\<close>

definition bounded_by :: "(char \<Rightarrow> bool) \<Rightarrow> (char \<Rightarrow> bool) \<Rightarrow> string \<Rightarrow> bool" where
  "bounded_by P Q s \<longleftrightarrow> s \<noteq> [] \<and> P (hd s) \<and> P (last s) \<and> (\<forall>c \<in> set s. Q c)"

lemma bounded_by_snoc:
  assumes "\<And>c. P c \<Longrightarrow> Q c"
  shows "bounded_by P Q s \<longleftrightarrow> (\<exists>c. P c \<and> (s = [c] \<or> (\<exists>a t. s = a # t @ [c] \<and> P a \<and> (\<forall>x \<in> set t. Q x))))"
proof (cases s)
  case (Cons a s')
  then show ?thesis using assms by (cases s' rule: rev_cases) (auto simp: bounded_by_def)
qed (simp add: bounded_by_def)

lemma lang_bounded_right:
  assumes "\<And>c. P c \<Longrightarrow> Q c"
  shows "s \<in> lang (Cat (Opt (Cat (Class P) (Star (Class Q)))) (Class P)) \<longleftrightarrow> bounded_by P Q s"
  by (auto simp: lang_class_simps bounded_by_snoc [of P Q s, OF assms])

lemma lang_bounded_left:
  assumes "\<And>c. P c \<Longrightarrow> Q c"
  shows "s \<in> lang (Cat (Class P) (Opt (Cat (Star (Class Q)) (Class P)))) \<longleftrightarrow> bounded_by P Q s"
  by (auto simp: lang_class_simps bounded_by_snoc [of P Q s, OF assms])

lemma lang_bounded_star:
  assumes "\<And>c. P c \<Longrightarrow> Q c"
  shows "s \<in> lang (Cat (Class P) (Star (Cat (Star (Class Q)) (Class P)))) \<longleftrightarrow> bounded_by P Q s"
proof -
  let ?R = "Cat (Star (Class Q)) (Class P)"
  have one: "t \<in> lang ?R \<longleftrightarrow> t \<noteq> [] \<and> P (last t) \<and> (\<forall>c \<in> set t. Q c)" for t
    using assms by (cases t rule: rev_cases) (auto simp: lang_class_simps)
  have "t \<in> star_lang (lang ?R) \<longleftrightarrow> t = [] \<or> t \<in> lang ?R" for t
  proof
    assume "t \<in> star_lang (lang ?R)"
    then show "t = [] \<or> t \<in> lang ?R" by (induction rule: star_lang.induct) (auto simp: one)
  qed (use star_app [of _ "lang ?R" "[]"] in \<open>auto intro: star_nil\<close>)
  then show ?thesis using assms
    unfolding lang_Cat_first lang.simps(6) one by (cases s) (auto simp: bounded_by_def)
qed

text \<open>A character of one class, or a pair, somewhere among characters of another class.\<close>

lemma lang_Cat_star: "s \<in> lang (Cat (Star (Class P)) r) \<longleftrightarrow> (\<exists>u v. s = u @ v \<and> (\<forall>c \<in> set u. P c) \<and> v \<in> lang r)"
  unfolding lang.simps(4) by (simp add: star_lang_class)

lemma lang_contains_class:
  assumes "\<And>c. Q c \<Longrightarrow> P c"
  shows "s \<in> lang (Cat (Star (Class P)) (Cat (Class Q) (Star (Class P)))) \<longleftrightarrow>
    (\<forall>c \<in> set s. P c) \<and> (\<exists>c \<in> set s. Q c)"
proof
  assume "(\<forall>c \<in> set s. P c) \<and> (\<exists>c \<in> set s. Q c)"
  then obtain c u v where "s = u @ c # v" "Q c" "\<forall>c \<in> set s. P c" by (auto dest: split_list)
  then show "s \<in> lang (Cat (Star (Class P)) (Cat (Class Q) (Star (Class P))))"
    unfolding lang_Cat_star lang_Cat_first lang.simps(3,6) star_lang_class
    by (intro exI [of _ u] exI [of _ "c # v"]) auto
qed (use assms in \<open>auto simp: lang_Cat_star lang_Cat_first star_lang_class\<close>)

lemma lang_contains_pair:
  assumes "P h"
  shows "s \<in> lang (Cat (Star (Class P)) (Cat (Class (\<lambda>c. c = h)) (Cat (Class (\<lambda>c. c = h)) (Star (Class P))))) \<longleftrightarrow>
    (\<forall>c \<in> set s. P c) \<and> (\<exists>u v. s = u @ [h, h] @ v)" (is "?lhs = ?rhs")
proof
  assume ?rhs
  then obtain u v where "s = u @ [h, h] @ v" "\<forall>c \<in> set s. P c" by blast
  then show ?lhs
    unfolding lang_Cat_star lang_Cat_first lang.simps(3,6) star_lang_class
    by (intro exI [of _ u] exI [of _ "[h, h] @ v"]) auto
qed (use assms in \<open>auto simp: lang_Cat_star lang_Cat_first star_lang_class\<close>)

text \<open>A first part and then parts each after a separator: all the parts of the split.\<close>

lemma star_lang_split:
  assumes "v \<in> star_lang {c # w | w. w \<in> A}" and "u \<in> A" and "\<And>w. w \<in> A \<Longrightarrow> c \<notin> set w"
  shows "set (strings_Split (u @ v) c) \<subseteq> A"
  using assms(1,2)
proof (induction v arbitrary: u rule: star_lang.induct)
  case star_nil
  then show ?case using assms(3) by (simp add: strings_Split_no_sep)
next
  case (star_app x v)
  then obtain w where "x = c # w" "w \<in> A" by auto
  then show ?case using star_app assms(3) by (simp add: strings_Split_append)
qed

lemma split_star_lang:
  assumes "set (strings_Split s c) \<subseteq> A"
  shows "\<exists>u v. s = u @ v \<and> u \<in> A \<and> v \<in> star_lang {c # w | w. w \<in> A}"
  using assms
proof (induction "length s" arbitrary: s rule: less_induct)
  case less
  show ?case
  proof (cases "c \<in> set s")
    case False
    then show ?thesis using less.prems by (auto simp: strings_Split_no_sep intro: star_nil)
  next
    case True
    then obtain u t where s: "s = u @ c # t" "c \<notin> set u" by (auto dest: split_list_first)
    then have sub: "u \<in> A" "set (strings_Split t c) \<subseteq> A"
      using less.prems by (simp_all add: strings_Split_append)
    obtain x y where t: "t = x @ y" "x \<in> A" "y \<in> star_lang {c # w | w. w \<in> A}"
      using less.hyps [OF _ sub(2)] s by auto
    have "c # x \<in> {c # w | w. w \<in> A}" using t(2) by blast
    from star_app [OF this t(3)] have "(c # x) @ y \<in> star_lang {c # w | w. w \<in> A}" .
    then show ?thesis using s t sub(1) by auto
  qed
qed

lemma lang_separated:
  assumes "\<And>w. w \<in> lang r \<Longrightarrow> sep \<notin> set w"
  shows "s \<in> lang (Cat r (Star (Cat (Class (\<lambda>c. c = sep)) r))) \<longleftrightarrow> set (strings_Split s sep) \<subseteq> lang r"
proof -
  have sep: "lang (Cat (Class (\<lambda>c. c = sep)) r) = {sep # w | w. w \<in> lang r}"
    by (auto simp: lang_Cat_first)
  define B where "B = {sep # w | w. w \<in> lang r}"
  have "s \<in> lang (Cat r (Star (Cat (Class (\<lambda>c. c = sep)) r))) \<longleftrightarrow>
      (\<exists>u v. s = u @ v \<and> u \<in> lang r \<and> v \<in> star_lang B)"
    unfolding lang.simps(4) [of r] lang.simps(6) sep B_def by simp
  moreover have "set (strings_Split (u @ v) sep) \<subseteq> lang r" if "u \<in> lang r" "v \<in> star_lang B" for u v
    using star_lang_split [OF that(2) [unfolded B_def] that(1) assms] .
  moreover have "\<exists>u v. s = u @ v \<and> u \<in> lang r \<and> v \<in> star_lang B" if "set (strings_Split s sep) \<subseteq> lang r"
    unfolding B_def by (rule split_star_lang [OF that])
  ultimately show ?thesis by metis
qed

end
