(* ===== verification/Validation.thy ===== *)
theory Validation
  imports Regexp
begin

text \<open>
  \<^verbatim>\<open>pkg/util/validation/validation.go\<close>: the syntax of names, labels, ports and the like.  The
  patterns are the constants of the source; the theorem says which strings they accept.
\<close>

section \<open>Patterns\<close>

definition az :: "char \<Rightarrow> bool" where "az c \<longleftrightarrow> CHR ''a'' \<le> c \<and> c \<le> CHR ''z''"
definition AZ :: "char \<Rightarrow> bool" where "AZ c \<longleftrightarrow> CHR ''A'' \<le> c \<and> c \<le> CHR ''Z''"
definition digit09 :: "char \<Rightarrow> bool" where "digit09 c \<longleftrightarrow> CHR ''0'' \<le> c \<and> c \<le> CHR ''9''"

abbreviation lower_alnum :: "char \<Rightarrow> bool" where "lower_alnum c \<equiv> az c \<or> digit09 c"
abbreviation lower_ext :: "char \<Rightarrow> bool" where "lower_ext c \<equiv> c = CHR ''-'' \<or> az c \<or> digit09 c"

definition qnameCharFmt :: "char \<Rightarrow> bool" where
  "qnameCharFmt c \<longleftrightarrow> AZ c \<or> az c \<or> digit09 c"

definition qnameExtCharFmt :: "char \<Rightarrow> bool" where
  "qnameExtCharFmt c \<longleftrightarrow> c = CHR ''-'' \<or> AZ c \<or> az c \<or> digit09 c \<or> c = CHR ''_'' \<or> c = CHR ''.''"

definition QualifiedNameFmt :: regexp where
  "QualifiedNameFmt = Cat (Opt (Cat (Class qnameCharFmt) (Star (Class qnameExtCharFmt)))) (Class qnameCharFmt)"

definition LabelValueFmt :: regexp where
  "LabelValueFmt = Opt QualifiedNameFmt"

definition DNS1123LabelFmt :: regexp where
  "DNS1123LabelFmt = Cat (Class lower_alnum) (Opt (Cat (Star (Class lower_ext)) (Class lower_alnum)))"

definition DNS1123SubdomainFmt :: regexp where
  "DNS1123SubdomainFmt = Cat DNS1123LabelFmt (Star (Cat (Class (\<lambda>c. c = CHR ''.'')) DNS1123LabelFmt))"

definition DNS952LabelFmt :: regexp where
  "DNS952LabelFmt = Cat (Class az) (Opt (Cat (Star (Class lower_ext)) (Class lower_alnum)))"

definition CIdentifierFmt :: regexp where
  "CIdentifierFmt = Cat (Class (\<lambda>c. AZ c \<or> az c \<or> c = CHR ''_''))
     (Star (Class (\<lambda>c. AZ c \<or> az c \<or> digit09 c \<or> c = CHR ''_'')))"

text \<open>The dot of a pattern matches every character but the newline.\<close>

definition anyChar :: regexp where "anyChar = Class (\<lambda>c. c \<noteq> CHR 0x0A)"

definition doubleHyphensFmt :: regexp where
  "doubleHyphensFmt = Cat (Star anyChar) (Cat (Class (\<lambda>c. c = CHR ''-''))
     (Cat (Class (\<lambda>c. c = CHR ''-'')) (Star anyChar)))"

definition IdentifierNoHyphensBeginEndFmt :: regexp where
  "IdentifierNoHyphensBeginEndFmt =
     Cat (Class lower_alnum) (Star (Cat (Star (Class lower_ext)) (Class lower_alnum)))"

definition atLeastOneLetterFmt :: regexp where
  "atLeastOneLetterFmt = Cat (Star anyChar) (Cat (Class az) (Star anyChar))"

definition percentFmt :: regexp where
  "percentFmt = Cat (Plus (Class digit09)) (Class (\<lambda>c. c = CHR 0x25))"

definition HTTPHeaderNameFmt :: regexp where
  "HTTPHeaderNameFmt = Plus (Class (\<lambda>c. c = CHR ''-'' \<or> AZ c \<or> az c \<or> digit09 c))"

section \<open>Validators\<close>

definition IsDNS1123Label :: "string \<Rightarrow> bool" where
  "IsDNS1123Label value \<longleftrightarrow> length value \<le> 63 \<and> MatchString DNS1123LabelFmt value"

definition IsDNS1123Subdomain :: "string \<Rightarrow> bool" where
  "IsDNS1123Subdomain value \<longleftrightarrow> length value \<le> 253 \<and> MatchString DNS1123SubdomainFmt value"

definition IsQualifiedName :: "string \<Rightarrow> bool" where
  "IsQualifiedName value =
     (let ok = (\<lambda>name. name \<noteq> '''' \<and> length name \<le> 63 \<and> MatchString QualifiedNameFmt name)
      in case strings_Split value (CHR ''/'') of
           [name] \<Rightarrow> ok name
         | [prefix, name] \<Rightarrow>
             if prefix = '''' \<or> \<not> IsDNS1123Subdomain prefix then False else ok name
         | _ \<Rightarrow> False)"

definition IsValidLabelValue :: "string \<Rightarrow> bool" where
  "IsValidLabelValue value \<longleftrightarrow> length value \<le> 63 \<and> MatchString LabelValueFmt value"

definition IsDNS952Label :: "string \<Rightarrow> bool" where
  "IsDNS952Label value \<longleftrightarrow> length value \<le> 24 \<and> MatchString DNS952LabelFmt value"

definition IsCIdentifier :: "string \<Rightarrow> bool" where
  "IsCIdentifier value \<longleftrightarrow> MatchString CIdentifierFmt value"

definition IsValidPortNum :: "int \<Rightarrow> bool" where
  "IsValidPortNum port \<longleftrightarrow> 0 < port \<and> port < 65536"

definition IsValidGroupId :: "int \<Rightarrow> bool" where
  "IsValidGroupId gid \<longleftrightarrow> 0 \<le> gid \<and> gid \<le> 2 ^ 31 - 1"

definition IsValidUserId :: "int \<Rightarrow> bool" where
  "IsValidUserId uid \<longleftrightarrow> 0 \<le> uid \<and> uid \<le> 2 ^ 31 - 1"

definition IsValidPortName :: "string \<Rightarrow> bool" where
  "IsValidPortName port =
     (if length port < 1 \<or> length port > 15 then False
      else if MatchString doubleHyphensFmt port then False
      else if MatchString IdentifierNoHyphensBeginEndFmt port \<and> MatchString atLeastOneLetterFmt port then True
      else False)"

definition IsValidPercent :: "string \<Rightarrow> bool" where
  "IsValidPercent percent \<longleftrightarrow> MatchString percentFmt percent"

definition IsHTTPHeaderName :: "string \<Rightarrow> bool" where
  "IsHTTPHeaderName value \<longleftrightarrow> MatchString HTTPHeaderNameFmt value"

section \<open>Object names\<close>

text \<open>
  \<^verbatim>\<open>pkg/api/validation/validation.go\<close>: a slice with a negative bound panics, which is \<^verbatim>\<open>None\<close>.
  A name function returns whether the name is valid; the message that goes with \<^verbatim>\<open>false\<close> is a
  constant and left out.
\<close>

definition maskTrailingDash :: "string \<Rightarrow> string option" where
  "maskTrailingDash name =
     (if name \<noteq> [] \<and> last name = CHR ''-''
      then (if length name < 2 then None else Some (take (length name - 2) name @ ''a''))
      else Some name)"

definition maskIfPrefix :: "bool \<Rightarrow> string \<Rightarrow> string option" where
  "maskIfPrefix prefix name = (if prefix then maskTrailingDash name else Some name)"

definition NameIsDNSSubdomain :: "string \<Rightarrow> bool \<Rightarrow> bool option" where
  "NameIsDNSSubdomain name prefix = map_option IsDNS1123Subdomain (maskIfPrefix prefix name)"

definition NameIsDNSLabel :: "string \<Rightarrow> bool \<Rightarrow> bool option" where
  "NameIsDNSLabel name prefix = map_option IsDNS1123Label (maskIfPrefix prefix name)"

definition NameIsDNS952Label :: "string \<Rightarrow> bool \<Rightarrow> bool option" where
  "NameIsDNS952Label name prefix = map_option IsDNS952Label (maskIfPrefix prefix name)"

definition ValidatePodName :: "string \<Rightarrow> bool \<Rightarrow> bool option" where
  "ValidatePodName name prefix = NameIsDNSSubdomain name prefix"

section \<open>What they accept\<close>

lemma MatchString_QualifiedName: "MatchString QualifiedNameFmt s \<longleftrightarrow> bounded_by qnameCharFmt qnameExtCharFmt s"
  unfolding MatchString_lang QualifiedNameFmt_def
  by (rule lang_bounded_right) (auto simp: qnameCharFmt_def qnameExtCharFmt_def)

lemma lang_DNS1123Label: "s \<in> lang DNS1123LabelFmt \<longleftrightarrow> bounded_by lower_alnum lower_ext s"
  unfolding DNS1123LabelFmt_def by (rule lang_bounded_left) auto

lemma special_chars: "\<not> lower_ext (CHR ''.'')" "\<not> lower_ext (CHR 0x0A)" "\<not> az (CHR 0x0A)"
  by (simp_all add: az_def digit09_def)

lemma lang_DNS1123Subdomain:
  "s \<in> lang DNS1123SubdomainFmt \<longleftrightarrow> (\<forall>part \<in> set (strings_Split s (CHR ''.'')). bounded_by lower_alnum lower_ext part)"
proof -
  have "CHR ''.'' \<notin> set w" if "w \<in> lang DNS1123LabelFmt" for w
    using that special_chars(1) unfolding lang_DNS1123Label bounded_by_def by metis
  then have "s \<in> lang DNS1123SubdomainFmt \<longleftrightarrow> set (strings_Split s (CHR ''.'')) \<subseteq> lang DNS1123LabelFmt"
    unfolding DNS1123SubdomainFmt_def by (rule lang_separated)
  then show ?thesis unfolding subset_iff Ball_def lang_DNS1123Label .
qed

lemma lang_IdentifierNoHyphens: "s \<in> lang IdentifierNoHyphensBeginEndFmt \<longleftrightarrow> bounded_by lower_alnum lower_ext s"
  unfolding IdentifierNoHyphensBeginEndFmt_def by (rule lang_bounded_star) (erule disjI2)

lemma lang_doubleHyphens:
  "s \<in> lang doubleHyphensFmt \<longleftrightarrow> (\<forall>c \<in> set s. c \<noteq> CHR 0x0A) \<and> (\<exists>u v. s = u @ ''--'' @ v)"
  unfolding doubleHyphensFmt_def anyChar_def by (rule lang_contains_pair) simp

lemma lang_atLeastOneLetter:
  "s \<in> lang atLeastOneLetterFmt \<longleftrightarrow> (\<forall>c \<in> set s. c \<noteq> CHR 0x0A) \<and> (\<exists>c \<in> set s. az c)"
  unfolding atLeastOneLetterFmt_def anyChar_def
  by (rule lang_contains_class) (metis special_chars(3))

lemma bounded_by_no_newline: "bounded_by lower_alnum lower_ext s \<Longrightarrow> \<forall>c \<in> set s. c \<noteq> CHR 0x0A"
  unfolding bounded_by_def using special_chars(2) by metis

lemma IsDNS1123Label_iff: "IsDNS1123Label s \<longleftrightarrow> length s \<le> 63 \<and> bounded_by lower_alnum lower_ext s"
  by (simp add: IsDNS1123Label_def MatchString_lang lang_DNS1123Label)

lemma IsDNS1123Subdomain_iff: "IsDNS1123Subdomain s \<longleftrightarrow> length s \<le> 253
    \<and> (\<forall>part \<in> set (strings_Split s (CHR ''.'')). bounded_by lower_alnum lower_ext part)"
  by (simp add: IsDNS1123Subdomain_def MatchString_lang lang_DNS1123Subdomain)

lemma IsValidLabelValue_iff: "IsValidLabelValue s \<longleftrightarrow> length s \<le> 63
    \<and> (s = [] \<or> bounded_by qnameCharFmt qnameExtCharFmt s)"
  by (simp add: IsValidLabelValue_def MatchString_lang LabelValueFmt_def
      MatchString_QualifiedName [unfolded MatchString_lang])

text \<open>
  The validators accept exactly the strings their comments describe: a DNS label has
  at most 63 lower-case letters, digits and inner hyphens; a DNS subdomain is labels joined
  by dots, at most 253 characters; a label value is empty or starts and ends with a letter
  or digit with letters, digits, hyphens, underscores and dots between; a port name has 1 to
  15 characters, at least one letter, and no hyphen at either end or next to another.
\<close>

theorem validators_accept_documented_syntax:
  "(IsDNS1123Label s \<longleftrightarrow> length s \<le> 63 \<and> bounded_by lower_alnum lower_ext s)
   \<and> (IsDNS1123Subdomain s \<longleftrightarrow> length s \<le> 253
        \<and> list_all (bounded_by lower_alnum lower_ext) (strings_Split s (CHR ''.'')))
   \<and> (IsValidLabelValue s \<longleftrightarrow> length s \<le> 63 \<and> (s = [] \<or> bounded_by qnameCharFmt qnameExtCharFmt s))
   \<and> (IsValidPortName s \<longleftrightarrow> 1 \<le> length s \<and> length s \<le> 15 \<and> bounded_by lower_alnum lower_ext s
        \<and> list_ex az s \<and> \<not> (\<exists>u v. s = u @ ''--'' @ v))"
proof -
  have "IsValidPortName s \<longleftrightarrow> 1 \<le> length s \<and> length s \<le> 15 \<and> bounded_by lower_alnum lower_ext s
      \<and> (\<exists>c \<in> set s. az c) \<and> \<not> (\<exists>u v. s = u @ ''--'' @ v)"
    using bounded_by_no_newline [of s]
    unfolding IsValidPortName_def MatchString_lang lang_doubleHyphens lang_atLeastOneLetter
      lang_IdentifierNoHyphens not_less [symmetric]
    by argo
  then show ?thesis
    by (simp add: IsDNS1123Label_iff IsDNS1123Subdomain_iff IsValidLabelValue_iff list_all_iff list_ex_iff)
qed

section \<open>Names with a trailing dash\<close>

text \<open>
  \<^verbatim>\<open>maskTrailingDash\<close> is described as replacing a final dash; it cuts off the character
  before the dash as well.  A prefix with an invalid character there is accepted, and the
  prefix that is a single dash panics.
\<close>

theorem maskTrailingDash_drops_two_characters:
  "maskTrailingDash ''web-'' = Some ''wea''
   \<and> NameIsDNSSubdomain ''web_'' False = Some False \<and> NameIsDNSSubdomain ''web_-'' True = Some True
   \<and> ValidatePodName ''-'' True = None"
  by (simp add: maskTrailingDash_def NameIsDNSSubdomain_def ValidatePodName_def maskIfPrefix_def
      IsDNS1123Subdomain_iff bounded_by_def az_def digit09_def)

end
