(* ===== verification/Labels.thy ===== *)
theory Labels
  imports Sets_String Validation
begin

text \<open>
  \<^verbatim>\<open>pkg/labels/labels.go\<close> and the selectors of \<^verbatim>\<open>pkg/labels/selector.go\<close>, with the conversion of the
  API type in \<^verbatim>\<open>pkg/api/unversioned/helpers.go\<close>: requirements on labels, their meaning and
  their textual form.  The lexer and the parser are in their own theories.

  \<^verbatim>\<open>strconv.ParseFloat\<close> and the comparison of floats are the arguments \<open>pf\<close> and \<open>gt\<close>; nothing
  depends on the number format.  \<^verbatim>\<open>sort.Sort\<close> is not stable, so it is an argument too, any
  function that gives a permutation ordered by key.
\<close>

section \<open>Labels\<close>

type_synonym label_Set = "string \<rightharpoonup> string"

definition Set_Has :: "label_Set \<Rightarrow> string \<Rightarrow> bool" where
  "Set_Has ls label \<longleftrightarrow> ls label \<noteq> None"

definition Set_Get :: "label_Set \<Rightarrow> string \<Rightarrow> string" where
  "Set_Get ls label = (case ls label of None \<Rightarrow> '''' | Some value \<Rightarrow> value)"

definition Set_String :: "(string, string) go_range \<Rightarrow> label_Set \<Rightarrow> string" where
  "Set_String rng ls =
     strings_Join (sort (map (\<lambda>(key, value). key @ ''='' @ value) (rng ls))) '',''"

definition FormatLabels :: "(string, string) go_range \<Rightarrow> label_Set \<Rightarrow> string" where
  "FormatLabels rng labelMap =
     (let l = Set_String rng labelMap in if l = '''' then ''<none>'' else l)"

section \<open>Requirements\<close>

text \<open>An \<^verbatim>\<open>Operator\<close> is a string; those that are none of the constants are the last case.\<close>

datatype Operator =
    DoesNotExistOperator | EqualsOperator | DoubleEqualsOperator | InOperator | NotEqualsOperator
  | NotInOperator | ExistsOperator | GreaterThanOperator | LessThanOperator | OtherOperator string

record Requirement =
  req_key :: string
  operator :: Operator
  strValues :: sets_String

datatype label_error =
    InvalidLabelKey string
  | InvalidLabelValue
  | ValuesSetEmpty
  | OneSingleValue
  | ValuesMustBeEmpty
  | ExactlyOneValue
  | ValueMustBeANumber
  | OperatorNotRecognized Operator
  | NotAPodSelectorOperator string
  | Found string string \<comment> \<open>the parser found a literal where it expected something else\<close>
  | UnableToParseRequirement label_error
  | IndexOutOfRange \<comment> \<open>a panic, not an error value\<close>

definition validateLabelKey :: "string \<Rightarrow> label_error option" where
  "validateLabelKey k = (if \<not> IsQualifiedName k then Some (InvalidLabelKey k) else None)"

definition validateLabelValue :: "string \<Rightarrow> label_error option" where
  "validateLabelValue v = (if \<not> IsValidLabelValue v then Some InvalidLabelValue else None)"

text \<open>The check of the operator against the number of values, the \<^verbatim>\<open>switch\<close> of \<^verbatim>\<open>NewRequirement\<close>.\<close>

definition operatorValues :: "(string \<Rightarrow> 'f option) \<Rightarrow> Operator \<Rightarrow> sets_String \<Rightarrow> label_error option" where
  "operatorValues pf op vals =
     (if op \<in> {InOperator, NotInOperator} then
        (if sets_Len vals = 0 then Some ValuesSetEmpty else None)
      else if op \<in> {EqualsOperator, DoubleEqualsOperator, NotEqualsOperator} then
        (if sets_Len vals \<noteq> 1 then Some OneSingleValue else None)
      else if op \<in> {ExistsOperator, DoesNotExistOperator} then
        (if sets_Len vals \<noteq> 0 then Some ValuesMustBeEmpty else None)
      else if op \<in> {GreaterThanOperator, LessThanOperator} then
        (if sets_Len vals \<noteq> 1 then Some ExactlyOneValue
         else if \<exists>val \<in> vals. pf val = None then Some ValueMustBeANumber else None)
      else Some (OperatorNotRecognized op))"

definition NewRequirement ::
  "(string \<Rightarrow> 'f option) \<Rightarrow> string \<Rightarrow> Operator \<Rightarrow> sets_String \<Rightarrow> label_error + Requirement" where
  "NewRequirement pf key op vals =
     (case validateLabelKey key of
        Some err \<Rightarrow> Inl err
      | None \<Rightarrow>
          (case operatorValues pf op vals of
             Some err \<Rightarrow> Inl err
           | None \<Rightarrow>
               if \<exists>v \<in> vals. validateLabelValue v \<noteq> None then Inl InvalidLabelValue
               else Inr \<lparr>req_key = key, operator = op, strValues = vals\<rparr>))"

definition Requirement_Matches ::
  "(string \<Rightarrow> 'f option) \<Rightarrow> ('f \<Rightarrow> 'f \<Rightarrow> bool) \<Rightarrow> Requirement \<Rightarrow> label_Set \<Rightarrow> bool" where
  "Requirement_Matches pf gt r ls =
     (let op = operator r; key = req_key r
      in if op \<in> {InOperator, EqualsOperator, DoubleEqualsOperator} then
           (if \<not> Set_Has ls key then False else sets_Has (strValues r) (Set_Get ls key))
         else if op \<in> {NotInOperator, NotEqualsOperator} then
           (if \<not> Set_Has ls key then True else \<not> sets_Has (strValues r) (Set_Get ls key))
         else if op = ExistsOperator then Set_Has ls key
         else if op = DoesNotExistOperator then \<not> Set_Has ls key
         else if op \<in> {GreaterThanOperator, LessThanOperator} then
           (if \<not> Set_Has ls key then False
            else case pf (Set_Get ls key) of
                None \<Rightarrow> False
              | Some lsValue \<Rightarrow>
                  if sets_Len (strValues r) \<noteq> 1 then False
                  else case pf (the_elem (strValues r)) of
                      None \<Rightarrow> False
                    | Some rValue \<Rightarrow>
                        (op = GreaterThanOperator \<and> gt lsValue rValue)
                        \<or> (op = LessThanOperator \<and> gt rValue lsValue))
         else False)"

definition Requirement_Values :: "Requirement \<Rightarrow> sets_String" where
  "Requirement_Values r = sets_Insert {} (sorted_list_of_set (strValues r))"

definition operatorString :: "Operator \<Rightarrow> string" where
  "operatorString op = (case op of
      EqualsOperator \<Rightarrow> ''=''
    | DoubleEqualsOperator \<Rightarrow> ''==''
    | NotEqualsOperator \<Rightarrow> ''!=''
    | InOperator \<Rightarrow> '' in ''
    | NotInOperator \<Rightarrow> '' notin ''
    | GreaterThanOperator \<Rightarrow> ''>''
    | LessThanOperator \<Rightarrow> ''<''
    | _ \<Rightarrow> '''')"

definition Requirement_String :: "Requirement \<Rightarrow> string" where
  "Requirement_String r =
     (let op = operator r;
          vals = sorted_list_of_set (strValues r);
          buffer = (if op = DoesNotExistOperator then ''!'' else []) @ req_key r @ operatorString op
      in if op \<in> {ExistsOperator, DoesNotExistOperator} then buffer
         else buffer
           @ (if op \<in> {InOperator, NotInOperator} then ''('' else [])
           @ (if sets_Len (strValues r) = 1 then vals ! 0 else strings_Join vals '','')
           @ (if op \<in> {InOperator, NotInOperator} then '')'' else []))"

section \<open>Selectors\<close>

datatype Selector = Internal "Requirement list" | NothingSelector

definition Everything :: Selector where "Everything = Internal []"
definition Nothing :: Selector where "Nothing = NothingSelector"
definition NewSelector :: Selector where "NewSelector = Internal []"

type_synonym sorter = "Requirement list \<Rightarrow> Requirement list"

definition sort_ok :: "sorter \<Rightarrow> bool" where
  "sort_ok srt \<longleftrightarrow> (\<forall>rs. mset (srt rs) = mset rs \<and> sorted (map req_key (srt rs)))"

fun Selector_Empty :: "Selector \<Rightarrow> bool" where
  "Selector_Empty (Internal lsel) = (length lsel = 0)"
| "Selector_Empty NothingSelector = False"

fun Selector_Add :: "sorter \<Rightarrow> Requirement list \<Rightarrow> Selector \<Rightarrow> Selector" where
  "Selector_Add srt reqs (Internal lsel) = Internal (srt (lsel @ reqs))"
| "Selector_Add srt reqs NothingSelector = NothingSelector"

fun requirements_match ::
  "(string \<Rightarrow> 'f option) \<Rightarrow> ('f \<Rightarrow> 'f \<Rightarrow> bool) \<Rightarrow> Requirement list \<Rightarrow> label_Set \<Rightarrow> bool" where
  "requirements_match pf gt [] l = True"
| "requirements_match pf gt (r # lsel) l =
     (if \<not> Requirement_Matches pf gt r l then False else requirements_match pf gt lsel l)"

fun Selector_Matches ::
  "(string \<Rightarrow> 'f option) \<Rightarrow> ('f \<Rightarrow> 'f \<Rightarrow> bool) \<Rightarrow> Selector \<Rightarrow> label_Set \<Rightarrow> bool" where
  "Selector_Matches pf gt (Internal lsel) l = requirements_match pf gt lsel l"
| "Selector_Matches pf gt NothingSelector l = False"

fun Selector_String :: "Selector \<Rightarrow> string" where
  "Selector_String (Internal lsel) = strings_Join (map Requirement_String lsel) '',''"
| "Selector_String NothingSelector = ''<null>''"

fun SelectorFromSet_loop ::
  "(string \<Rightarrow> 'f option) \<Rightarrow> (string \<times> string) list \<Rightarrow> Requirement list \<Rightarrow> Requirement list option" where
  "SelectorFromSet_loop pf [] requirements = Some requirements"
| "SelectorFromSet_loop pf ((label, value) # ls) requirements =
     (case NewRequirement pf label EqualsOperator (sets_NewString [value]) of
        Inl err \<Rightarrow> None
      | Inr r \<Rightarrow> SelectorFromSet_loop pf ls (requirements @ [r]))"

definition SelectorFromSet ::
  "(string \<Rightarrow> 'f option) \<Rightarrow> sorter \<Rightarrow> (string, string) go_range \<Rightarrow> label_Set option \<Rightarrow> Selector" where
  "SelectorFromSet pf srt rng ls =
     (case ls of
        None \<Rightarrow> Internal []
      | Some ls \<Rightarrow>
          (case SelectorFromSet_loop pf (rng ls) [] of
             None \<Rightarrow> Internal []
           | Some requirements \<Rightarrow> Internal (srt requirements)))"

definition Set_AsSelector ::
  "(string \<Rightarrow> 'f option) \<Rightarrow> sorter \<Rightarrow> (string, string) go_range \<Rightarrow> label_Set option \<Rightarrow> Selector" where
  "Set_AsSelector pf srt rng ls = SelectorFromSet pf srt rng ls"

section \<open>The selector of the API\<close>

record LabelSelectorRequirement =
  lsr_Key :: string
  lsr_Operator :: string
  lsr_Values :: "string list"

record LabelSelector =
  MatchLabels :: label_Set
  MatchExpressions :: "LabelSelectorRequirement list"

definition LabelSelectorOp :: "string \<Rightarrow> Operator option" where
  "LabelSelectorOp op =
     (if op = ''In'' then Some InOperator
      else if op = ''NotIn'' then Some NotInOperator
      else if op = ''Exists'' then Some ExistsOperator
      else if op = ''DoesNotExist'' then Some DoesNotExistOperator
      else None)"

fun addMatchLabels ::
  "(string \<Rightarrow> 'f option) \<Rightarrow> sorter \<Rightarrow> (string \<times> string) list \<Rightarrow> Selector \<Rightarrow> label_error + Selector" where
  "addMatchLabels pf srt [] selector = Inr selector"
| "addMatchLabels pf srt ((k, v) # ls) selector =
     (case NewRequirement pf k InOperator (sets_NewString [v]) of
        Inl err \<Rightarrow> Inl err
      | Inr r \<Rightarrow> addMatchLabels pf srt ls (Selector_Add srt [r] selector))"

fun addMatchExpressions ::
  "(string \<Rightarrow> 'f option) \<Rightarrow> sorter \<Rightarrow> LabelSelectorRequirement list \<Rightarrow> Selector \<Rightarrow> label_error + Selector" where
  "addMatchExpressions pf srt [] selector = Inr selector"
| "addMatchExpressions pf srt (expr # exprs) selector =
     (case LabelSelectorOp (lsr_Operator expr) of
        None \<Rightarrow> Inl (NotAPodSelectorOperator (lsr_Operator expr))
      | Some op \<Rightarrow>
          (case NewRequirement pf (lsr_Key expr) op (sets_NewString (lsr_Values expr)) of
             Inl err \<Rightarrow> Inl err
           | Inr r \<Rightarrow> addMatchExpressions pf srt exprs (Selector_Add srt [r] selector)))"

definition LabelSelectorAsSelector ::
  "(string \<Rightarrow> 'f option) \<Rightarrow> sorter \<Rightarrow> (string, string) go_range \<Rightarrow> LabelSelector option
     \<Rightarrow> label_error + Selector" where
  "LabelSelectorAsSelector pf srt rng ps =
     (case ps of
        None \<Rightarrow> Inr Nothing
      | Some ps \<Rightarrow>
          if length (rng (MatchLabels ps)) + length (MatchExpressions ps) = 0 then Inr Everything
          else (case addMatchLabels pf srt (rng (MatchLabels ps)) NewSelector of
                  Inl err \<Rightarrow> Inl err
                | Inr selector \<Rightarrow> addMatchExpressions pf srt (MatchExpressions ps) selector))"

definition SetAsLabelSelector :: "(string, string) go_range \<Rightarrow> label_Set option \<Rightarrow> LabelSelector option" where
  "SetAsLabelSelector rng ls =
     (case ls of
        None \<Rightarrow> None
      | Some ls \<Rightarrow> Some \<lparr>MatchLabels = fold (\<lambda>(label, value) m. m(label \<mapsto> value)) (rng ls) Map.empty,
                           MatchExpressions = []\<rparr>)"

definition FormatLabelSelector ::
  "(string \<Rightarrow> 'f option) \<Rightarrow> sorter \<Rightarrow> (string, string) go_range \<Rightarrow> LabelSelector option \<Rightarrow> string" where
  "FormatLabelSelector pf srt rng labelSelector =
     (case LabelSelectorAsSelector pf srt rng labelSelector of
        Inl err \<Rightarrow> ''<error>''
      | Inr selector \<Rightarrow>
          (let l = Selector_String selector in if length l = 0 then ''<none>'' else l))"

end
