(* ===== verification/Label_Lexer.thy ===== *)
theory Label_Lexer
  imports Labels
begin

text \<open>
  The lexer of \<^verbatim>\<open>pkg/labels/selector.go\<close>: a position in a string, read and unread one byte at a
  time.  Its loops are recursions on the rest of the string; reading past the end gives the
  byte 0, which the source takes for the end.
\<close>

section \<open>Tokens\<close>

datatype Token =
    ErrorToken | EndOfStringToken | ClosedParToken | CommaToken | DoesNotExistToken
  | DoubleEqualsToken | EqualsToken | GreaterThanToken | IdentifierToken | InToken
  | LessThanToken | NotEqualsToken | NotInToken | OpenParToken

type_synonym ScannedItem = "Token \<times> string"

definition string2token :: "string \<rightharpoonup> Token" where
  "string2token = [
     '')'' \<mapsto> ClosedParToken, '','' \<mapsto> CommaToken, ''!'' \<mapsto> DoesNotExistToken, ''=='' \<mapsto> DoubleEqualsToken,
     ''='' \<mapsto> EqualsToken, ''>'' \<mapsto> GreaterThanToken, ''in'' \<mapsto> InToken, ''<'' \<mapsto> LessThanToken,
     ''!='' \<mapsto> NotEqualsToken, ''notin'' \<mapsto> NotInToken, ''('' \<mapsto> OpenParToken]"

abbreviation NUL :: char where "NUL \<equiv> CHR 0x00"

definition isWhitespace :: "char \<Rightarrow> bool" where
  "isWhitespace ch \<longleftrightarrow> ch = CHR '' '' \<or> ch = CHR 0x09 \<or> ch = CHR 0x0D \<or> ch = CHR 0x0A"

definition isSpecialSymbol :: "char \<Rightarrow> bool" where
  "isSpecialSymbol ch \<longleftrightarrow> ch = CHR ''='' \<or> ch = CHR ''!'' \<or> ch = CHR ''('' \<or> ch = CHR '')''
     \<or> ch = CHR '','' \<or> ch = CHR ''>'' \<or> ch = CHR ''<''"

section \<open>The lexer\<close>

record Lexer =
  lex_s :: string
  lex_pos :: nat

definition Lexer_read :: "Lexer \<Rightarrow> char \<times> Lexer" where
  "Lexer_read l =
     (if lex_pos l < length (lex_s l) then (lex_s l ! lex_pos l, l\<lparr>lex_pos := lex_pos l + 1\<rparr>) else (NUL, l))"

definition Lexer_unread :: "Lexer \<Rightarrow> Lexer" where
  "Lexer_unread l = l\<lparr>lex_pos := lex_pos l - 1\<rparr>"

abbreviation lex_left :: "Lexer \<Rightarrow> nat" where "lex_left l \<equiv> length (lex_s l) - lex_pos l"

lemma Lexer_read_progress:
  "Lexer_read l = (ch, l') \<Longrightarrow> ch \<noteq> NUL \<Longrightarrow>
   lex_pos l' = Suc (lex_pos l) \<and> lex_pos l < length (lex_s l) \<and> lex_s l' = lex_s l"
  by (auto simp: Lexer_read_def split: if_splits)

lemma Lexer_read_left: "Lexer_read l = (ch, l') \<Longrightarrow> ch \<noteq> NUL \<Longrightarrow> lex_left l' < lex_left l"
  using Lexer_read_progress [of l ch l'] by auto

function scanIdOrKeyword_loop :: "Lexer \<Rightarrow> string \<Rightarrow> string \<times> Lexer" where
  "scanIdOrKeyword_loop l buffer =
     (case Lexer_read l of
        (ch, l') \<Rightarrow>
          if ch = NUL then (buffer, l')
          else if isSpecialSymbol ch \<or> isWhitespace ch then (buffer, Lexer_unread l')
          else scanIdOrKeyword_loop l' (buffer @ [ch]))"
  by pat_completeness auto

termination
  by (relation "measure (\<lambda>(l, _). lex_left l)") (auto dest: Lexer_read_left [OF sym])

definition scanIdOrKeyword :: "Lexer \<Rightarrow> ScannedItem \<times> Lexer" where
  "scanIdOrKeyword l =
     (case scanIdOrKeyword_loop l [] of
        (s, l') \<Rightarrow> (case string2token s of
            Some val \<Rightarrow> ((val, s), l')
          | None \<Rightarrow> ((IdentifierToken, s), l')))"

function scanSpecialSymbol_loop :: "Lexer \<Rightarrow> ScannedItem \<Rightarrow> string \<Rightarrow> ScannedItem \<times> string \<times> Lexer" where
  "scanSpecialSymbol_loop l lastScannedItem buffer =
     (case Lexer_read l of
        (ch, l') \<Rightarrow>
          if ch = NUL then (lastScannedItem, buffer, l')
          else if isSpecialSymbol ch then
            (let buffer = buffer @ [ch]
             in case string2token buffer of
                  Some token \<Rightarrow> scanSpecialSymbol_loop l' (token, buffer) buffer
                | None \<Rightarrow>
                    if fst lastScannedItem \<noteq> ErrorToken then (lastScannedItem, buffer, Lexer_unread l')
                    else scanSpecialSymbol_loop l' lastScannedItem buffer)
          else (lastScannedItem, buffer, Lexer_unread l'))"
  by pat_completeness auto

termination
  by (relation "measure (\<lambda>(l, _). lex_left l)") (auto dest: Lexer_read_left [OF sym])

definition scanSpecialSymbol :: "Lexer \<Rightarrow> ScannedItem \<times> Lexer" where
  "scanSpecialSymbol l =
     (case scanSpecialSymbol_loop l (ErrorToken, []) [] of
        (lastScannedItem, buffer, l') \<Rightarrow>
          if fst lastScannedItem = ErrorToken
          then ((ErrorToken, ''error expected: keyword found '' @ buffer), l')
          else (lastScannedItem, l'))"

lemma skipWhiteSpaces_measure:
  assumes "\<not> \<not> isWhitespace ch" and "p = Lexer_read l" and "(ch', l') = p"
  shows "((ch', l'), ch, l) \<in> measures [\<lambda>(ch, l). lex_left l, \<lambda>(ch, l). of_bool (isWhitespace ch)]"
proof -
  have "lex_left l' < lex_left l \<or> lex_left l' = lex_left l \<and> \<not> isWhitespace ch'"
    using assms by (auto simp: Lexer_read_def isWhitespace_def split: if_splits)
  then show ?thesis using assms(1) by auto
qed

function skipWhiteSpaces :: "char \<Rightarrow> Lexer \<Rightarrow> char \<times> Lexer" where
  "skipWhiteSpaces ch l =
     (if \<not> isWhitespace ch then (ch, l)
      else case Lexer_read l of (ch', l') \<Rightarrow> skipWhiteSpaces ch' l')"
  by pat_completeness auto

termination
  by (relation "measures [\<lambda>(ch, l). lex_left l, \<lambda>(ch, l). of_bool (isWhitespace ch)]")
    (simp, erule skipWhiteSpaces_measure, assumption, rule refl)

definition Lexer_Lex :: "Lexer \<Rightarrow> ScannedItem \<times> Lexer" where
  "Lexer_Lex l =
     (case Lexer_read l of
        (ch, l) \<Rightarrow> (case skipWhiteSpaces ch l of
            (ch, l) \<Rightarrow>
              if ch = NUL then ((EndOfStringToken, ''''), l)
              else if isSpecialSymbol ch then scanSpecialSymbol (Lexer_unread l)
              else scanIdOrKeyword (Lexer_unread l)))"

declare scanIdOrKeyword_loop.simps [simp del] scanSpecialSymbol_loop.simps [simp del]
  skipWhiteSpaces.simps [simp del]

section \<open>What is left to read\<close>

definition lexer_at :: "Lexer \<Rightarrow> string \<Rightarrow> bool" where
  "lexer_at l u \<longleftrightarrow> lex_pos l \<le> length (lex_s l) \<and> drop (lex_pos l) (lex_s l) = u"

lemma lexer_at_left: "lexer_at l u \<Longrightarrow> lex_left l = length u"
  by (auto simp: lexer_at_def)

lemma read_at_end: "lexer_at l [] \<Longrightarrow> Lexer_read l = (NUL, l)"
  by (simp add: lexer_at_def Lexer_read_def)

lemma read_at:
  assumes "lexer_at l (c # u)"
  obtains l' where "Lexer_read l = (c, l')" "lexer_at l' u" "Lexer_unread l' = l"
proof -
  have lt: "lex_pos l < length (lex_s l)" using assms unfolding lexer_at_def by (metis drop_all list.distinct(1) not_le)
  then have "drop (lex_pos l) (lex_s l) = lex_s l ! lex_pos l # drop (Suc (lex_pos l)) (lex_s l)"
    by (simp add: Cons_nth_drop_Suc)
  then show thesis using that assms lt by (simp add: lexer_at_def Lexer_read_def Lexer_unread_def)
qed

definition ident :: "char \<Rightarrow> bool" where
  "ident c \<longleftrightarrow> c \<noteq> NUL \<and> \<not> isSpecialSymbol c \<and> \<not> isWhitespace c"

text \<open>The lexer swallows a zero byte after a word.\<close>

definition skipNUL :: "string \<Rightarrow> string" where
  "skipNUL u = (case u of [] \<Rightarrow> [] | c # v \<Rightarrow> if c = NUL then v else u)"

lemma scanIdOrKeyword_loop_at:
  "lexer_at l u \<Longrightarrow> \<exists>l'. scanIdOrKeyword_loop l buffer = (buffer @ takeWhile ident u, l')
    \<and> lexer_at l' (skipNUL (dropWhile ident u))"
proof (induction u arbitrary: l buffer)
  case Nil
  then show ?case by (simp add: scanIdOrKeyword_loop.simps [of l] read_at_end skipNUL_def)
next
  case (Cons c u)
  obtain l1 where l1: "Lexer_read l = (c, l1)" "lexer_at l1 u" "Lexer_unread l1 = l"
    using read_at [OF Cons.prems] .
  show ?case
    using Cons.IH [OF l1(2), of "buffer @ [c]"] l1 Cons.prems
    by (auto simp: scanIdOrKeyword_loop.simps [of l] ident_def skipNUL_def)
qed

lemma skipWhiteSpaces_at:
  "lexer_at l u \<Longrightarrow> \<exists>l1. lexer_at l1 (dropWhile isWhitespace u)
    \<and> (case Lexer_read l of (ch, l') \<Rightarrow> skipWhiteSpaces ch l') = Lexer_read l1"
proof (induction u arbitrary: l)
  case Nil
  then show ?case
    by (intro exI [of _ l]) (simp add: read_at_end skipWhiteSpaces.simps [of NUL] isWhitespace_def)
next
  case (Cons c u)
  obtain l1 where l1: "Lexer_read l = (c, l1)" "lexer_at l1 u" "Lexer_unread l1 = l"
    using read_at [OF Cons.prems] .
  show ?case
  proof (cases "isWhitespace c")
    case True
    then show ?thesis using Cons.IH [OF l1(2)] l1(1) by (simp add: skipWhiteSpaces.simps [of c])
  next
    case False
    then show ?thesis using l1(1) Cons.prems
      by (intro exI [of _ l]) (simp add: skipWhiteSpaces.simps [of c])
  qed
qed

lemma Lex_at:
  assumes "lexer_at l u"
  obtains l1 where "lexer_at l1 (dropWhile isWhitespace u)"
    "Lexer_Lex l = (case dropWhile isWhitespace u of
        [] \<Rightarrow> ((EndOfStringToken, ''''), l1)
      | c # v \<Rightarrow> if c = NUL then ((EndOfStringToken, ''''), snd (Lexer_read l1))
          else if isSpecialSymbol c then scanSpecialSymbol l1 else scanIdOrKeyword l1)"
proof -
  obtain l1 where l1: "lexer_at l1 (dropWhile isWhitespace u)"
    "(case Lexer_read l of (ch, l') \<Rightarrow> skipWhiteSpaces ch l') = Lexer_read l1"
    using skipWhiteSpaces_at [OF assms] by blast
  have lex: "Lexer_Lex l = (case Lexer_read l1 of (ch, l) \<Rightarrow>
      if ch = NUL then ((EndOfStringToken, ''''), l)
      else if isSpecialSymbol ch then scanSpecialSymbol (Lexer_unread l)
      else scanIdOrKeyword (Lexer_unread l))"
    unfolding l1(2) [symmetric] Lexer_Lex_def by (simp split: prod.split)
  show thesis
  proof (cases "dropWhile isWhitespace u")
    case Nil
    have "Lexer_read l1 = (NUL, l1)" using l1(1) unfolding Nil by (rule read_at_end)
    then show ?thesis using that [OF l1(1)] Nil lex by simp
  next
    case (Cons c v)
    obtain l2 where "Lexer_read l1 = (c, l2)" "Lexer_unread l2 = l1"
      using read_at [of l1 c v] l1(1) Cons by auto
    then show ?thesis using that [OF l1(1)] lex Cons by simp
  qed
qed

section \<open>Tokens at a position\<close>

lemma string2token_simps [simp]:
  "string2token '')'' = Some ClosedParToken" "string2token '','' = Some CommaToken"
  "string2token ''!'' = Some DoesNotExistToken" "string2token ''=='' = Some DoubleEqualsToken"
  "string2token ''='' = Some EqualsToken" "string2token ''>'' = Some GreaterThanToken"
  "string2token ''in'' = Some InToken" "string2token ''<'' = Some LessThanToken"
  "string2token ''!='' = Some NotEqualsToken" "string2token ''notin'' = Some NotInToken"
  "string2token ''('' = Some OpenParToken" "string2token [] = None"
  by (simp_all add: string2token_def)

lemma string2token_proper:
  "string2token w = Some t \<Longrightarrow> t \<noteq> ErrorToken \<and> t \<noteq> EndOfStringToken \<and> t \<noteq> IdentifierToken"
  by (auto simp: string2token_def split: if_splits)

lemma special_is_token: "isSpecialSymbol c \<Longrightarrow> \<exists>t. string2token [c] = Some t"
  by (auto simp: isSpecialSymbol_def)

lemma scanSpecialSymbol_loop_at:
  "lexer_at l u \<Longrightarrow> fst item \<notin> {ErrorToken, EndOfStringToken} \<Longrightarrow>
   \<exists>item' buffer' l' u'. scanSpecialSymbol_loop l item buffer = (item', buffer', l') \<and> lexer_at l' u'
     \<and> length u' \<le> length u \<and> fst item' \<notin> {ErrorToken, EndOfStringToken}"
proof (induction u arbitrary: l item buffer)
  case Nil
  then show ?case by (auto simp: scanSpecialSymbol_loop.simps [of l] read_at_end)
next
  case (Cons c u)
  obtain l1 where l1: "Lexer_read l = (c, l1)" "lexer_at l1 u" "Lexer_unread l1 = l"
    using read_at [OF Cons.prems(1)] .
  note step = scanSpecialSymbol_loop.simps [of l, unfolded l1(1)]
  consider "c = NUL" | "\<not> isSpecialSymbol c" "c \<noteq> NUL"
    | t where "c \<noteq> NUL" "isSpecialSymbol c" "string2token (buffer @ [c]) = Some t"
    | "c \<noteq> NUL" "isSpecialSymbol c" "string2token (buffer @ [c]) = None"
    by (cases "string2token (buffer @ [c])") auto
  then show ?case
  proof cases
    case 1
    then show ?thesis using l1 Cons.prems by (auto simp: step intro!: exI [of _ u])
  next
    case (3 t)
    then show ?thesis
      using Cons.IH [OF l1(2), of "(t, buffer @ [c])" "buffer @ [c]"] string2token_proper [OF 3(3)]
      by (fastforce simp: step)
  qed (use l1 Cons.prems in \<open>auto simp: step intro!: exI [of _ "c # u"]\<close>)
qed

lemma Lex_progress:
  assumes "lexer_at l u"
  obtains tok lit l' u' where "Lexer_Lex l = ((tok, lit), l')" "lexer_at l' u'" "tok \<noteq> ErrorToken"
    "length u' \<le> length u" "tok \<noteq> EndOfStringToken \<Longrightarrow> length u' < length u"
proof -
  obtain l1 where l1: "lexer_at l1 (dropWhile isWhitespace u)"
    and lex: "Lexer_Lex l = (case dropWhile isWhitespace u of
        [] \<Rightarrow> ((EndOfStringToken, ''''), l1)
      | c # v \<Rightarrow> if c = NUL then ((EndOfStringToken, ''''), snd (Lexer_read l1))
          else if isSpecialSymbol c then scanSpecialSymbol l1 else scanIdOrKeyword l1)"
    using Lex_at [OF assms] .
  show thesis
  proof (cases "dropWhile isWhitespace u")
    case Nil
    then show ?thesis using that [of EndOfStringToken "''''" l1 "[]"] l1 [unfolded Nil] lex [unfolded Nil] by simp
  next
    case (Cons c v)
    have len: "Suc (length v) \<le> length u" using length_dropWhile_le [of isWhitespace u] Cons by simp
    obtain l2 where l2: "Lexer_read l1 = (c, l2)" "lexer_at l2 v"
      using read_at [of l1 c v] l1 Cons by auto
    consider "c = NUL" | "c \<noteq> NUL" "isSpecialSymbol c" | "ident c"
      using Cons hd_dropWhile [of isWhitespace u] by (auto simp: ident_def)
    then show ?thesis
    proof cases
      case 1
      then show ?thesis using that [of EndOfStringToken "''''" l2 v] l2 lex Cons len by simp
    next
      case 2
      obtain t where t: "string2token [c] = Some t" using special_is_token [OF 2(2)] by blast
      obtain item' buffer' l' u' where loop: "scanSpecialSymbol_loop l2 (t, [c]) [c] = (item', buffer', l')"
        "lexer_at l' u'" "length u' \<le> length v" "fst item' \<notin> {ErrorToken, EndOfStringToken}"
        using scanSpecialSymbol_loop_at [OF l2(2), of "(t, [c])" "[c]"] string2token_proper [OF t] by auto
      have "Lexer_Lex l = (item', l')"
        using lex Cons 2 t loop(1,4) l2(1)
        by (simp add: scanSpecialSymbol_def scanSpecialSymbol_loop.simps [of l1])
      then show ?thesis using that [of "fst item'" "snd item'" l' u'] loop len by simp
    next
      case 3
      obtain l' where l': "scanIdOrKeyword_loop l1 [] = (takeWhile ident (c # v), l')"
        "lexer_at l' (skipNUL (dropWhile ident (c # v)))"
        using scanIdOrKeyword_loop_at [OF l1, of "[]"] Cons by auto
      have "length (skipNUL (dropWhile ident v)) \<le> length v"
        using length_dropWhile_le [of ident v] by (auto simp: skipNUL_def split: list.splits)
      moreover have "scanIdOrKeyword l1 = ((t, takeWhile ident (c # v)), l') \<Longrightarrow>
          Lexer_Lex l = ((t, takeWhile ident (c # v)), l')" for t
        using 3 lex Cons by (simp add: ident_def)
      ultimately show ?thesis
        using that l' 3 len string2token_proper
        by (cases "string2token (takeWhile ident (c # v))")
          (fastforce simp: scanIdOrKeyword_def)+
    qed
  qed
qed

end
