(* ===== verification/Label_Parser.thy ===== *)
theory Label_Parser
  imports Label_Lexer
begin

text \<open>
  The parser of \<^verbatim>\<open>pkg/labels/selector.go\<close>: it scans the whole string into items and then walks
  them with a position.  The items do not change during the parse, so an operation takes them
  and the position and returns the new position; an index past the items is the panic of the
  source, \<^verbatim>\<open>IndexOutOfRange\<close>.  Loops are recursions on the items that are left.
\<close>

section \<open>Scanning\<close>

lemma Lex_left:
  assumes "Lexer_Lex l = ((tok, lit), l')" and "tok \<noteq> EndOfStringToken"
  shows "lex_left l' < lex_left l"
proof (cases "lex_pos l \<le> length (lex_s l)")
  case True
  define u where "u = drop (lex_pos l) (lex_s l)"
  have at: "lexer_at l u" using True by (simp add: lexer_at_def u_def)
  obtain u' where "lexer_at l' u'" "length u' < length u"
    using Lex_progress [OF at] assms by (metis prod.inject)
  then show ?thesis using lexer_at_left [OF at] lexer_at_left by metis
next
  case False
  then show ?thesis using assms
    by (simp add: Lexer_Lex_def Lexer_read_def skipWhiteSpaces.simps [of NUL] isWhitespace_def split: if_splits)
qed

function Parser_scan_loop :: "Lexer \<Rightarrow> ScannedItem list \<Rightarrow> ScannedItem list" where
  "Parser_scan_loop l scannedItems =
     (case Lexer_Lex l of
        ((token, literal), l') \<Rightarrow>
          (let scannedItems = scannedItems @ [(token, literal)]
           in if token = EndOfStringToken then scannedItems else Parser_scan_loop l' scannedItems))"
  by pat_completeness auto

termination
  by (relation "measure (\<lambda>(l, _). lex_left l)") (auto dest: Lex_left [OF sym])

declare Parser_scan_loop.simps [simp del]

definition Parser_scan :: "string \<Rightarrow> ScannedItem list" where
  "Parser_scan s = Parser_scan_loop \<lparr>lex_s = s, lex_pos = 0\<rparr> []"

section \<open>Looking at and taking items\<close>

datatype ParserContext = KeyAndOperator | Values

definition inContext :: "ParserContext \<Rightarrow> ScannedItem \<Rightarrow> ScannedItem" where
  "inContext context item =
     (case item of (tok, lit) \<Rightarrow>
        (if context = Values \<and> tok \<in> {InToken, NotInToken} then IdentifierToken else tok, lit))"

definition lookahead :: "ScannedItem list \<Rightarrow> nat \<Rightarrow> ParserContext \<Rightarrow> label_error + ScannedItem" where
  "lookahead items position context =
     (if position < length items then Inr (inContext context (items ! position)) else Inl IndexOutOfRange)"

definition consume :: "ScannedItem list \<Rightarrow> nat \<Rightarrow> ParserContext \<Rightarrow> label_error + ScannedItem \<times> nat" where
  "consume items position context =
     (let position = position + 1
      in if position - 1 < length items then Inr (inContext context (items ! (position - 1)), position)
         else Inl IndexOutOfRange)"

lemma consume_Inr: "consume items p context = Inr (item, p') \<Longrightarrow> p' = Suc p \<and> p < length items"
  by (auto simp: consume_def split: if_splits)

section \<open>Requirements\<close>

definition takeKey :: "ScannedItem list \<Rightarrow> nat \<Rightarrow> label_error + Operator \<times> ScannedItem \<times> nat" where
  "takeKey items p =
     (case consume items p Values of
        Inl err \<Rightarrow> Inl err
      | Inr ((tok, literal), p) \<Rightarrow>
          if tok = DoesNotExistToken
          then (case consume items p Values of
                  Inl err \<Rightarrow> Inl err
                | Inr (item, p) \<Rightarrow> Inr (DoesNotExistOperator, item, p))
          else Inr (OtherOperator '''', (tok, literal), p))"

definition parseKeyAndInferOperator ::
  "ScannedItem list \<Rightarrow> nat \<Rightarrow> label_error + (string \<times> Operator) \<times> nat" where
  "parseKeyAndInferOperator items p =
     (case takeKey items p of
        Inl err \<Rightarrow> Inl err
      | Inr (op, (tok, literal), p) \<Rightarrow>
          if tok \<noteq> IdentifierToken then Inl (Found literal ''identifier'')
          else (case validateLabelKey literal of
                  Some err \<Rightarrow> Inl err
                | None \<Rightarrow>
                    (case lookahead items p Values of
                       Inl err \<Rightarrow> Inl err
                     | Inr (t, _) \<Rightarrow>
                         (let op = (if t = EndOfStringToken \<or> t = CommaToken
                              then (if op \<noteq> DoesNotExistOperator then ExistsOperator else op)
                              else op)
                          in Inr ((literal, op), p)))))"

definition operatorOfToken :: "Token \<Rightarrow> Operator option" where
  "operatorOfToken tok = (case tok of
      InToken \<Rightarrow> Some InOperator
    | EqualsToken \<Rightarrow> Some EqualsOperator
    | DoubleEqualsToken \<Rightarrow> Some DoubleEqualsOperator
    | GreaterThanToken \<Rightarrow> Some GreaterThanOperator
    | LessThanToken \<Rightarrow> Some LessThanOperator
    | NotInToken \<Rightarrow> Some NotInOperator
    | NotEqualsToken \<Rightarrow> Some NotEqualsOperator
    | _ \<Rightarrow> None)"

definition parseOperator :: "ScannedItem list \<Rightarrow> nat \<Rightarrow> label_error + Operator \<times> nat" where
  "parseOperator items p =
     (case consume items p KeyAndOperator of
        Inl err \<Rightarrow> Inl err
      | Inr ((tok, lit), p) \<Rightarrow>
          (case operatorOfToken tok of
             None \<Rightarrow> Inl (Found lit ''operator'')
           | Some op \<Rightarrow> Inr (op, p)))"

function parseIdentifiersList ::
  "ScannedItem list \<Rightarrow> nat \<Rightarrow> sets_String \<Rightarrow> label_error + sets_String \<times> nat" where
  "parseIdentifiersList items p s =
     (case consume items p Values of
        Inl err \<Rightarrow> Inl err
      | Inr ((tok, lit), p1) \<Rightarrow>
          if tok = IdentifierToken then
            (let s = sets_Insert s [lit]
             in case lookahead items p1 Values of
                  Inl err \<Rightarrow> Inl err
                | Inr (tok2, lit2) \<Rightarrow>
                    if tok2 = CommaToken then parseIdentifiersList items p1 s
                    else if tok2 = ClosedParToken then Inr (s, p1)
                    else Inl (Found lit2 '', or )''))
          else if tok = CommaToken then
            (let s = (if sets_Len s = 0 then sets_Insert s [''''] else s)
             in case lookahead items p1 Values of
                  Inl err \<Rightarrow> Inl err
                | Inr (tok2, _) \<Rightarrow>
                    if tok2 = ClosedParToken then Inr (sets_Insert s [''''], p1)
                    else if tok2 = CommaToken then
                      (case consume items p1 Values of
                         Inl err \<Rightarrow> Inl err
                       | Inr (_, p2) \<Rightarrow> parseIdentifiersList items p2 (sets_Insert s ['''']))
                    else parseIdentifiersList items p1 s)
          else Inl (Found lit '', or identifier''))"
  by pat_completeness auto

termination
  by (relation "measure (\<lambda>(items, p, _). length items - p)") (auto dest!: consume_Inr)

declare parseIdentifiersList.simps [simp del]

definition parseValues :: "ScannedItem list \<Rightarrow> nat \<Rightarrow> label_error + sets_String \<times> nat" where
  "parseValues items p =
     (case consume items p Values of
        Inl err \<Rightarrow> Inl err
      | Inr ((tok, lit), p) \<Rightarrow>
          if tok \<noteq> OpenParToken then Inl (Found lit ''('')
          else (case lookahead items p Values of
                  Inl err \<Rightarrow> Inl err
                | Inr (tok, lit) \<Rightarrow>
                    if tok \<in> {IdentifierToken, CommaToken} then
                      (case parseIdentifiersList items p (sets_NewString []) of
                         Inl err \<Rightarrow> Inl err
                       | Inr (s, p) \<Rightarrow>
                           (case consume items p Values of
                              Inl err \<Rightarrow> Inl err
                            | Inr ((tok, _), p) \<Rightarrow>
                                if tok \<noteq> ClosedParToken then Inl (Found lit '')'') else Inr (s, p)))
                    else if tok = ClosedParToken then
                      (case consume items p Values of
                         Inl err \<Rightarrow> Inl err
                       | Inr (_, p) \<Rightarrow> Inr (sets_NewString [''''], p))
                    else Inl (Found lit '', ) or identifier'')))"

definition parseExactValue :: "ScannedItem list \<Rightarrow> nat \<Rightarrow> label_error + sets_String \<times> nat" where
  "parseExactValue items p =
     (let s = sets_NewString []
      in case lookahead items p Values of
           Inl err \<Rightarrow> Inl err
         | Inr (tok, lit) \<Rightarrow>
             if tok = EndOfStringToken \<or> tok = CommaToken then Inr (sets_Insert s [''''], p)
             else (case consume items p Values of
                     Inl err \<Rightarrow> Inl err
                   | Inr ((tok, lit), p) \<Rightarrow>
                       if tok = IdentifierToken then Inr (sets_Insert s [lit], p)
                       else Inl (Found lit ''identifier'')))"

text \<open>\<^verbatim>\<open>NewRequirement\<close> at the end of \<^verbatim>\<open>parseRequirement\<close>, keeping the position.\<close>

definition finishRequirement ::
  "(string \<Rightarrow> 'f option) \<Rightarrow> string \<Rightarrow> Operator \<Rightarrow> sets_String \<Rightarrow> nat \<Rightarrow> label_error + Requirement \<times> nat" where
  "finishRequirement pf key op vals p =
     (case NewRequirement pf key op vals of Inl err \<Rightarrow> Inl err | Inr r \<Rightarrow> Inr (r, p))"

definition parseRequirement ::
  "(string \<Rightarrow> 'f option) \<Rightarrow> ScannedItem list \<Rightarrow> nat \<Rightarrow> label_error + Requirement \<times> nat" where
  "parseRequirement pf items p =
     (case parseKeyAndInferOperator items p of
        Inl err \<Rightarrow> Inl err
      | Inr ((key, op), p) \<Rightarrow>
          if op = ExistsOperator \<or> op = DoesNotExistOperator
          then finishRequirement pf key op {} p
          else (case parseOperator items p of
                  Inl err \<Rightarrow> Inl err
                | Inr (op, p) \<Rightarrow>
                    (case (if op \<in> {InOperator, NotInOperator} then parseValues items p
                           else if op \<in> {EqualsOperator, DoubleEqualsOperator, NotEqualsOperator,
                                               GreaterThanOperator, LessThanOperator}
                           then parseExactValue items p
                           else Inr ({}, p)) of
                       Inl err \<Rightarrow> Inl err
                     | Inr (values, p) \<Rightarrow> finishRequirement pf key op values p)))"

section \<open>Positions only grow\<close>

lemma takeKey_pos: "takeKey items p = Inr (op, item, p') \<Longrightarrow> p < p'"
  by (auto simp: takeKey_def split: sum.splits if_splits prod.splits dest!: consume_Inr)

lemma parseKeyAndInferOperator_pos: "parseKeyAndInferOperator items p = Inr (x, p') \<Longrightarrow> p < p'"
  by (auto simp: parseKeyAndInferOperator_def split: sum.splits if_splits prod.splits option.splits
      dest!: takeKey_pos)

lemma parseOperator_pos: "parseOperator items p = Inr (x, p') \<Longrightarrow> p < p'"
  by (auto simp: parseOperator_def split: sum.splits if_splits prod.splits option.splits dest!: consume_Inr)

lemma parseIdentifiersList_pos: "parseIdentifiersList items p s = Inr (x, p') \<Longrightarrow> p < p'"
proof (induction items p s rule: parseIdentifiersList.induct)
  case (1 items p s)
  obtain tok lit where c: "consume items p Values = Inr ((tok, lit), Suc p)"
    using "1.prems" consume_Inr [of items p Values]
    by (cases "consume items p Values") (auto simp: parseIdentifiersList.simps [of items p])
  consider "tok = IdentifierToken" | "tok = CommaToken"
    using "1.prems" c by (auto simp: parseIdentifiersList.simps [of items p] split: if_splits)
  then obtain tok2 lit2 where l: "lookahead items (Suc p) Values = Inr (tok2, lit2)"
    using "1.prems" c
    by cases (cases "lookahead items (Suc p) Values"; force simp: parseIdentifiersList.simps [of items p])+
  note IH = "1.IH" [OF c refl refl]
  consider "tok = IdentifierToken" | "tok = CommaToken" "tok \<noteq> IdentifierToken"
    using "1.prems" c by (auto simp: parseIdentifiersList.simps [of items p] split: if_splits)
  then show ?case
  proof cases
    case 1
    then show ?thesis using "1.prems" c l IH(1) [OF 1 refl l refl]
      by (auto simp: parseIdentifiersList.simps [of items p] split: if_splits)
  next
    case 2
    then show ?thesis using "1.prems" c l IH(2,3) [OF 2(2,1) refl l refl]
      by (auto simp: parseIdentifiersList.simps [of items p] split: if_splits sum.splits dest!: consume_Inr)
        (metis Suc_lessD)+
  qed
qed

lemma parseValues_pos: "parseValues items p = Inr (x, p') \<Longrightarrow> p < p'"
  by (fastforce simp: parseValues_def split: sum.splits if_splits prod.splits
      dest!: consume_Inr parseIdentifiersList_pos)

lemma parseExactValue_pos: "parseExactValue items p = Inr (x, p') \<Longrightarrow> p \<le> p'"
  by (auto simp: parseExactValue_def split: sum.splits if_splits prod.splits dest!: consume_Inr)

lemma parseRequirement_pos:
  assumes "parseRequirement pf items p = Inr (r, p')"
  shows "p < p'"
proof -
  obtain key op p1 where k: "parseKeyAndInferOperator items p = Inr ((key, op), p1)"
    using assms by (cases "parseKeyAndInferOperator items p") (auto simp: parseRequirement_def)
  have "p1 \<le> p'"
    using assms k unfolding parseRequirement_def
    by (auto simp: finishRequirement_def split: sum.splits if_splits
        dest!: parseOperator_pos parseValues_pos parseExactValue_pos)
  then show ?thesis using parseKeyAndInferOperator_pos [OF k] by simp
qed

section \<open>Parse\<close>

text \<open>A panic is not wrapped into the error value.\<close>

definition unableToParse :: "label_error \<Rightarrow> label_error" where
  "unableToParse err = (if err = IndexOutOfRange then err else UnableToParseRequirement err)"

function Parser_parse_loop ::
  "(string \<Rightarrow> 'f option) \<Rightarrow> ScannedItem list \<Rightarrow> nat \<Rightarrow> Requirement list \<Rightarrow> label_error + Requirement list" where
  "Parser_parse_loop pf items p requirements =
     (case lookahead items p Values of
        Inl err \<Rightarrow> Inl err
      | Inr (tok, lit) \<Rightarrow>
          if tok \<in> {IdentifierToken, DoesNotExistToken} then
            (case parseRequirement pf items p of
               Inl err \<Rightarrow> Inl (unableToParse err)
             | Inr (r, p1) \<Rightarrow>
                 (let requirements = requirements @ [r]
                  in case consume items p1 Values of
                       Inl err \<Rightarrow> Inl err
                     | Inr ((t, l), p2) \<Rightarrow>
                         if t = EndOfStringToken then Inr requirements
                         else if t = CommaToken then
                           (case lookahead items p2 Values of
                              Inl err \<Rightarrow> Inl err
                            | Inr (t2, l2) \<Rightarrow>
                                if t2 \<noteq> IdentifierToken \<and> t2 \<noteq> DoesNotExistToken
                                then Inl (Found l2 ''identifier after ,'')
                                else Parser_parse_loop pf items p2 requirements)
                         else Inl (Found l '', or end of string'')))
          else if tok = EndOfStringToken then Inr requirements
          else Inl (Found lit ''!, identifier, or end of string''))"
  by pat_completeness auto

termination
  by (relation "measure (\<lambda>(pf, items, p, _). length items - p)")
    (auto dest!: consume_Inr parseRequirement_pos)

declare Parser_parse_loop.simps [simp del]

definition Parser_parse :: "(string \<Rightarrow> 'f option) \<Rightarrow> string \<Rightarrow> label_error + Requirement list" where
  "Parser_parse pf s = Parser_parse_loop pf (Parser_scan s) 0 []"

definition Parse :: "(string \<Rightarrow> 'f option) \<Rightarrow> sorter \<Rightarrow> string \<Rightarrow> label_error + Selector" where
  "Parse pf srt s =
     (case Parser_parse pf s of
        Inl err \<Rightarrow> Inl err
      | Inr items \<Rightarrow> Inr (Internal (srt items)))"

end
