(* ===== verification/Label_Selectors.thy ===== *)
theory Label_Selectors
  imports Labels
begin

text \<open>
  What selectors mean.  The interface \<^verbatim>\<open>Selector\<close> is a locale: adding requirements conjoins them.
  The conversions that build selectors by repeated \<^verbatim>\<open>Add\<close> are verified against it.
\<close>

section \<open>The Selector interface\<close>

locale label_selector =
  fixes matches :: "'s \<Rightarrow> label_Set \<Rightarrow> bool"
    and is_empty :: "'s \<Rightarrow> bool"
    and add :: "Requirement list \<Rightarrow> 's \<Rightarrow> 's"
    and holds :: "Requirement \<Rightarrow> label_Set \<Rightarrow> bool"
  assumes empty_matches: "is_empty s \<Longrightarrow> matches s l"
    and add_conjoins: "matches (add rs s) l \<longleftrightarrow> matches s l \<and> (\<forall>r \<in> set rs. holds r l)"
begin

lemma matches_adds: "matches (fold (\<lambda>r. add [r]) rs s) l \<longleftrightarrow> matches s l \<and> (\<forall>r \<in> set rs. holds r l)"
  by (induction rs arbitrary: s) (auto simp: add_conjoins)

lemma matches_built: "is_empty s \<Longrightarrow> matches (fold (\<lambda>r. add [r]) rs s) l \<longleftrightarrow> (\<forall>r \<in> set rs. holds r l)"
  by (simp add: matches_adds empty_matches)

end

lemma sort_ok_set: "sort_ok srt \<Longrightarrow> set (srt rs) = set rs"
  unfolding sort_ok_def by (metis set_mset_mset)

lemma sort_ok_sort_key: "sort_ok (sort_key req_key)"
  by (simp add: sort_ok_def)

lemma requirements_match_iff: "requirements_match pf gt lsel l \<longleftrightarrow> (\<forall>r \<in> set lsel. Requirement_Matches pf gt r l)"
  by (induction lsel) auto

lemma selector_laws:
  assumes "sort_ok srt"
  shows "label_selector (Selector_Matches pf gt) Selector_Empty (Selector_Add srt) (Requirement_Matches pf gt)"
proof
  fix s l rs
  show "Selector_Empty s \<Longrightarrow> Selector_Matches pf gt s l" by (cases s) auto
  show "Selector_Matches pf gt (Selector_Add srt rs s) l \<longleftrightarrow>
      Selector_Matches pf gt s l \<and> (\<forall>r \<in> set rs. Requirement_Matches pf gt r l)"
    by (cases s) (auto simp: requirements_match_iff sort_ok_set [OF assms])
qed

interpretation selectors: label_selector "Selector_Matches pf gt" Selector_Empty
  "Selector_Add (sort_key req_key)" "Requirement_Matches pf gt" for pf gt
  by (rule selector_laws [OF sort_ok_sort_key])

section \<open>Valid requirements\<close>

lemma NewRequirement_Inr:
  "NewRequirement pf key op vals = Inr r \<longleftrightarrow> IsQualifiedName key \<and> operatorValues pf op vals = None
    \<and> (\<forall>v \<in> vals. IsValidLabelValue v) \<and> r = \<lparr>req_key = key, operator = op, strValues = vals\<rparr>"
  by (auto simp: NewRequirement_def validateLabelKey_def validateLabelValue_def split: option.splits if_splits)

text \<open>The meaning of a requirement, on the label's value if it has one.\<close>

fun requirement_holds ::
  "(string \<Rightarrow> 'f option) \<Rightarrow> ('f \<Rightarrow> 'f \<Rightarrow> bool) \<Rightarrow> Operator \<Rightarrow> sets_String \<Rightarrow> string option \<Rightarrow> bool" where
  "requirement_holds pf gt InOperator vals v = (\<exists>x. v = Some x \<and> x \<in> vals)"
| "requirement_holds pf gt EqualsOperator vals v = (\<exists>x. v = Some x \<and> vals = {x})"
| "requirement_holds pf gt DoubleEqualsOperator vals v = (\<exists>x. v = Some x \<and> vals = {x})"
| "requirement_holds pf gt NotInOperator vals v = (\<forall>x. v = Some x \<longrightarrow> x \<notin> vals)"
| "requirement_holds pf gt NotEqualsOperator vals v = (\<forall>x. v = Some x \<longrightarrow> vals \<noteq> {x})"
| "requirement_holds pf gt ExistsOperator vals v = (v \<noteq> None)"
| "requirement_holds pf gt DoesNotExistOperator vals v = (v = None)"
| "requirement_holds pf gt GreaterThanOperator vals v =
     (\<exists>x y a b. v = Some x \<and> vals = {y} \<and> pf x = Some a \<and> pf y = Some b \<and> gt a b)"
| "requirement_holds pf gt LessThanOperator vals v =
     (\<exists>x y a b. v = Some x \<and> vals = {y} \<and> pf x = Some a \<and> pf y = Some b \<and> gt b a)"
| "requirement_holds pf gt (OtherOperator s) vals v = False"

lemma single_value: "sets_Len vals = 1 \<Longrightarrow> \<exists>y. vals = {y}"
  by (simp add: sets_Len_def card_1_singleton_iff)

lemma Requirement_Matches_valid:
  assumes "NewRequirement pf key op vals = Inr r"
  shows "Requirement_Matches pf gt r ls \<longleftrightarrow> requirement_holds pf gt op vals (ls key)"
proof -
  have arity: "operatorValues pf op vals = None"
    and r: "r = \<lparr>req_key = key, operator = op, strValues = vals\<rparr>"
    using assms unfolding NewRequirement_Inr by auto
  have one: "\<exists>y. vals = {y}"
    if "op \<in> {EqualsOperator, DoubleEqualsOperator, NotEqualsOperator, GreaterThanOperator, LessThanOperator}"
    using that arity single_value by (auto simp: operatorValues_def split: if_splits)
  show ?thesis
    using one arity
    by (cases op; cases "ls key")
      (auto simp: r Requirement_Matches_def Set_Has_def Set_Get_def sets_Has_def sets_Len_def
        operatorValues_def split: option.splits)
qed

text \<open>
  A requirement accepted by \<^verbatim>\<open>NewRequirement\<close> matches a label set exactly as its operator says:
  \<open>in\<close>, \<open>=\<close> and \<open>==\<close> need the label with one of the values, \<open>notin\<close> and \<open>!=\<close> hold when it is absent
  or has another value, \<open>exists\<close> and \<open>!\<close> look at the presence, and \<open>>\<close> and \<open><\<close> compare the two
  values as numbers and fail when the label is absent or is no number.
\<close>

theorem requirement_matches_meaning:
  assumes "NewRequirement pf key op vals = Inr r"
  shows "Requirement_Matches pf gt r ls \<longleftrightarrow> requirement_holds pf gt op vals (ls key)"
  using assms by (rule Requirement_Matches_valid)

theorem requirement_matches_meaning_witness:
  "Requirement_Matches (\<lambda>s. Some (length s)) (>)
     \<lparr>req_key = ''size'', operator = GreaterThanOperator, strValues = {''11''}\<rparr> [''size'' \<mapsto> ''123'']"
proof -
  have "NewRequirement (\<lambda>s. Some (length s)) ''size'' GreaterThanOperator {''11''}
      = Inr \<lparr>req_key = ''size'', operator = GreaterThanOperator, strValues = {''11''}\<rparr>"
    unfolding NewRequirement_Inr
    by (simp add: IsQualifiedName_def MatchString_QualifiedName bounded_by_def qnameCharFmt_def
        qnameExtCharFmt_def az_def AZ_def digit09_def operatorValues_def sets_Len_def IsValidLabelValue_iff)
  from requirement_matches_meaning [OF this, of "(>)" "[''size'' \<mapsto> ''123'']"] show ?thesis by simp
qed

section \<open>Selectors built from sets and from the API type\<close>

lemma addMatchLabels_Inr:
  "addMatchLabels pf srt ls s = Inr s' \<Longrightarrow> \<exists>rs. s' = fold (\<lambda>r. Selector_Add srt [r]) rs s
    \<and> list_all2 (\<lambda>x r. NewRequirement pf (fst x) InOperator {snd x} = Inr r) ls rs"
proof (induction pf srt ls s rule: addMatchLabels.induct)
  case (2 pf srt k v ls s)
  then obtain r where r: "NewRequirement pf k InOperator {v} = Inr r"
    and rest: "addMatchLabels pf srt ls (Selector_Add srt [r] s) = Inr s'"
    by (auto simp: sets_NewString_def split: sum.splits)
  then obtain rs where "s' = fold (\<lambda>r. Selector_Add srt [r]) rs (Selector_Add srt [r] s)"
    "list_all2 (\<lambda>x r. NewRequirement pf (fst x) InOperator {snd x} = Inr r) ls rs"
    using "2.IH" by (auto simp: sets_NewString_def)
  then show ?case using r by (intro exI [of _ "r # rs"]) simp
qed auto

lemma addMatchExpressions_Inr:
  "addMatchExpressions pf srt es s = Inr s' \<Longrightarrow> \<exists>rs. s' = fold (\<lambda>r. Selector_Add srt [r]) rs s
    \<and> list_all2 (\<lambda>e r. \<exists>op. LabelSelectorOp (lsr_Operator e) = Some op
         \<and> NewRequirement pf (lsr_Key e) op (set (lsr_Values e)) = Inr r) es rs"
proof (induction pf srt es s rule: addMatchExpressions.induct)
  case (2 pf srt e es s)
  then obtain op r where r: "LabelSelectorOp (lsr_Operator e) = Some op"
    "NewRequirement pf (lsr_Key e) op (set (lsr_Values e)) = Inr r"
    and rest: "addMatchExpressions pf srt es (Selector_Add srt [r] s) = Inr s'"
    by (auto simp: sets_NewString_def split: sum.splits option.splits)
  then obtain rs where "s' = fold (\<lambda>r. Selector_Add srt [r]) rs (Selector_Add srt [r] s)"
    "list_all2 (\<lambda>e r. \<exists>op. LabelSelectorOp (lsr_Operator e) = Some op
         \<and> NewRequirement pf (lsr_Key e) op (set (lsr_Values e)) = Inr r) es rs"
    using "2.IH" by (auto simp: sets_NewString_def)
  then show ?case using r by (intro exI [of _ "r # rs"]) simp
qed auto

lemma all2_requirements:
  assumes "list_all2 (\<lambda>x r. NewRequirement pf (key x) (op x) (vals x) = Inr r) xs rs"
  shows "(\<forall>r \<in> set rs. Requirement_Matches pf gt r l) \<longleftrightarrow>
    (\<forall>x \<in> set xs. requirement_holds pf gt (op x) (vals x) (l (key x)))"
  using assms by (induction rule: list_all2_induct) (auto simp: Requirement_Matches_valid)

lemma addMatchLabels_match:
  assumes "sort_ok srt" and "addMatchLabels pf srt ls s = Inr s'"
  shows "Selector_Matches pf gt s' l \<longleftrightarrow> Selector_Matches pf gt s l \<and> (\<forall>(k, v) \<in> set ls. l k = Some v)"
proof -
  obtain rs where rs: "s' = fold (\<lambda>r. Selector_Add srt [r]) rs s"
    "list_all2 (\<lambda>x r. NewRequirement pf (fst x) InOperator {snd x} = Inr r) ls rs"
    using addMatchLabels_Inr [OF assms(2)] by blast
  show ?thesis
    unfolding rs(1) label_selector.matches_adds [OF selector_laws [OF assms(1)]]
      all2_requirements [OF rs(2)] by auto
qed

definition expression_holds ::
  "(string \<Rightarrow> 'f option) \<Rightarrow> ('f \<Rightarrow> 'f \<Rightarrow> bool) \<Rightarrow> LabelSelectorRequirement \<Rightarrow> label_Set \<Rightarrow> bool" where
  "expression_holds pf gt e l \<longleftrightarrow> (\<exists>op. LabelSelectorOp (lsr_Operator e) = Some op
     \<and> requirement_holds pf gt op (set (lsr_Values e)) (l (lsr_Key e)))"

lemma addMatchExpressions_match:
  assumes "sort_ok srt" and "addMatchExpressions pf srt es s = Inr s'"
  shows "Selector_Matches pf gt s' l \<longleftrightarrow>
    Selector_Matches pf gt s l \<and> (\<forall>e \<in> set es. expression_holds pf gt e l)"
proof -
  obtain rs where rs: "s' = fold (\<lambda>r. Selector_Add srt [r]) rs s"
    "list_all2 (\<lambda>e r. \<exists>op. LabelSelectorOp (lsr_Operator e) = Some op
         \<and> NewRequirement pf (lsr_Key e) op (set (lsr_Values e)) = Inr r) es rs"
    using addMatchExpressions_Inr [OF assms(2)] by blast
  have "(\<forall>r \<in> set rs. Requirement_Matches pf gt r l) \<longleftrightarrow> (\<forall>e \<in> set es. expression_holds pf gt e l)"
    using rs(2) by (induction rule: list_all2_induct)
      (auto simp: expression_holds_def Requirement_Matches_valid)
  then show ?thesis
    unfolding rs(1) label_selector.matches_adds [OF selector_laws [OF assms(1)]] by blast
qed

text \<open>
  C28: The selector that \<^verbatim>\<open>LabelSelectorAsSelector\<close> makes of an API selector matches exactly the
  label sets that have every pair of \<^verbatim>\<open>matchLabels\<close> and satisfy every one of
  \<^verbatim>\<open>matchExpressions\<close>; of a nil selector it makes one that matches nothing.
\<close>

theorem label_selector_meaning:
  assumes "sort_ok srt" and "go_range_ok rng" and "finite (dom (MatchLabels ps))"
    and "LabelSelectorAsSelector pf srt rng (Some ps) = Inr sel"
    and "LabelSelectorAsSelector pf srt rng None = Inr nil_sel"
  shows "(Selector_Matches pf gt sel l \<longleftrightarrow> (\<forall>k v. MatchLabels ps k = Some v \<longrightarrow> l k = Some v)
      \<and> (\<forall>e \<in> set (MatchExpressions ps). expression_holds pf gt e l))
    \<and> \<not> Selector_Matches pf gt nil_sel l"
proof -
  have ent: "map_entries (rng (MatchLabels ps)) (MatchLabels ps)" by (rule go_rangeD [OF assms(2,3)])
  then have labels: "(\<forall>(k, v) \<in> set (rng (MatchLabels ps)). l k = Some v)
      \<longleftrightarrow> (\<forall>k v. MatchLabels ps k = Some v \<longrightarrow> l k = Some v)"
    by (auto simp: map_entries_mem)
  have "Selector_Matches pf gt sel l \<longleftrightarrow> (\<forall>(k, v) \<in> set (rng (MatchLabels ps)). l k = Some v)
      \<and> (\<forall>e \<in> set (MatchExpressions ps). expression_holds pf gt e l)"
  proof (cases "length (rng (MatchLabels ps)) + length (MatchExpressions ps) = 0")
    case True
    then show ?thesis using assms(4) by (auto simp: LabelSelectorAsSelector_def Everything_def)
  next
    case False
    then obtain s where s: "addMatchLabels pf srt (rng (MatchLabels ps)) NewSelector = Inr s"
      "addMatchExpressions pf srt (MatchExpressions ps) s = Inr sel"
      using assms(4) by (auto simp: LabelSelectorAsSelector_def split: sum.splits)
    show ?thesis
      using addMatchLabels_match [OF assms(1) s(1), of gt l] addMatchExpressions_match [OF assms(1) s(2), of gt l]
      by (simp add: NewSelector_def)
  qed
  then show ?thesis using labels assms(5) by (auto simp: LabelSelectorAsSelector_def Nothing_def)
qed

lemma valid_example: "NewRequirement pf ''app'' op {''web''} =
    (case operatorValues pf op {''web''} of None \<Rightarrow> Inr \<lparr>req_key = ''app'', operator = op, strValues = {''web''}\<rparr> | Some e \<Rightarrow> Inl e)"
  by (simp add: NewRequirement_def validateLabelKey_def validateLabelValue_def IsQualifiedName_def
      MatchString_QualifiedName bounded_by_def qnameCharFmt_def qnameExtCharFmt_def az_def AZ_def digit09_def
      sets_Len_def IsValidLabelValue_iff split: option.split)

theorem label_selector_meaning_witness:
  "\<not> Selector_Matches (\<lambda>_. None :: nat option) (>) (Internal [\<lparr>req_key = ''app'', operator = InOperator,
      strValues = {''web''}\<rparr>]) [''app'' \<mapsto> ''db'']"
proof -
  let ?ps = "\<lparr>MatchLabels = [''app'' \<mapsto> ''web''], MatchExpressions = []\<rparr>"
  let ?pf = "\<lambda>_. None :: nat option"
  have rng: "sorted_range [''app'' \<mapsto> ''web''] = [(''app'', ''web'')]" by (simp add: sorted_range_def)
  have "LabelSelectorAsSelector ?pf (sort_key req_key) sorted_range (Some ?ps)
      = Inr (Internal [\<lparr>req_key = ''app'', operator = InOperator, strValues = {''web''}\<rparr>])"
    by (simp add: LabelSelectorAsSelector_def rng sets_NewString_def valid_example operatorValues_def sets_Len_def
        NewSelector_def)
  from label_selector_meaning [OF sort_ok_sort_key sorted_range_ok _ this, of Nothing "(>)" "[''app'' \<mapsto> ''db'']"]
  show ?thesis by (simp add: LabelSelectorAsSelector_def)
qed

lemma SelectorFromSet_loop_valid:
  assumes "\<forall>(k, v) \<in> set ls. IsQualifiedName k \<and> IsValidLabelValue v"
  shows "SelectorFromSet_loop pf ls rs =
    Some (rs @ map (\<lambda>(k, v). \<lparr>req_key = k, operator = EqualsOperator, strValues = {v}\<rparr>) ls)"
  using assms
proof (induction pf ls rs rule: SelectorFromSet_loop.induct)
  case (2 pf k v ls rs)
  have new: "NewRequirement pf k EqualsOperator {v} = Inr \<lparr>req_key = k, operator = EqualsOperator, strValues = {v}\<rparr>"
    using "2.prems" unfolding NewRequirement_Inr by (simp add: operatorValues_def sets_Len_def)
  show ?case using "2.IH" "2.prems" by (simp add: sets_NewString_def new)
qed simp

lemma equals_single:
  "Requirement_Matches pf gt \<lparr>req_key = k, operator = EqualsOperator, strValues = {v}\<rparr> l \<longleftrightarrow> l k = Some v"
  by (auto simp: Requirement_Matches_def Set_Has_def Set_Get_def sets_Has_def split: option.split)

text \<open>
  \<^verbatim>\<open>SelectorFromSet\<close> of a set of valid labels matches exactly the label sets that contain it;
  of nil it matches everything.
\<close>

theorem selector_from_set_matches_supersets:
  assumes "sort_ok srt" and "go_range_ok rng" and "finite (dom ls)"
    and "\<forall>k v. ls k = Some v \<longrightarrow> IsQualifiedName k \<and> IsValidLabelValue v"
  shows "(Selector_Matches pf gt (SelectorFromSet pf srt rng (Some ls)) l \<longleftrightarrow> ls \<subseteq>\<^sub>m l)
    \<and> Selector_Matches pf gt (SelectorFromSet pf srt rng None) l"
proof -
  have ent: "map_entries (rng ls) ls" by (rule go_rangeD [OF assms(2,3)])
  have valid: "\<forall>(k, v) \<in> set (rng ls). IsQualifiedName k \<and> IsValidLabelValue v"
    using assms(4) map_entries_mem [OF ent] by auto
  have "Selector_Matches pf gt (SelectorFromSet pf srt rng (Some ls)) l \<longleftrightarrow> (\<forall>(k, v) \<in> set (rng ls). l k = Some v)"
    unfolding SelectorFromSet_def
    by (simp add: SelectorFromSet_loop_valid [OF valid] requirements_match_iff sort_ok_set [OF assms(1)] case_prod_beta equals_single)
  also have "\<dots> \<longleftrightarrow> (\<forall>k v. ls k = Some v \<longrightarrow> l k = Some v)"
    unfolding map_entries_mem [OF ent, symmetric] by blast
  also have "\<dots> \<longleftrightarrow> ls \<subseteq>\<^sub>m l" by (auto simp: map_le_def dom_def)
  finally show ?thesis by (simp add: SelectorFromSet_def)
qed

theorem selector_from_set_matches_supersets_witness:
  "Selector_Matches (\<lambda>_. None :: nat option) (>)
     (SelectorFromSet (\<lambda>_. None :: nat option) (sort_key req_key) sorted_range (Some [''app'' \<mapsto> ''web'']))
     [''app'' \<mapsto> ''web'', ''tier'' \<mapsto> ''a'']"
proof -
  define ls where "ls = [''app'' \<mapsto> ''web'']"
  have "IsQualifiedName ''app'' \<and> IsValidLabelValue ''web''"
    using valid_example [of "\<lambda>_. None :: nat option" EqualsOperator]
    by (simp add: operatorValues_def sets_Len_def NewRequirement_Inr)
  then have "\<forall>k v. ls k = Some v \<longrightarrow> IsQualifiedName k \<and> IsValidLabelValue v" by (simp add: ls_def)
  moreover have "finite (dom ls)" and "ls \<subseteq>\<^sub>m [''app'' \<mapsto> ''web'', ''tier'' \<mapsto> ''a'']"
    by (simp_all add: ls_def map_le_def)
  ultimately show ?thesis
    using selector_from_set_matches_supersets [OF sort_ok_sort_key sorted_range_ok, of ls]
    unfolding ls_def [symmetric] by blast
qed

text \<open>
  \<^verbatim>\<open>SelectorFromSet\<close> is described as matching exactly the given set.  Of a set with an
  invalid label it returns the selector that matches everything, whatever the other labels
  say.
\<close>

theorem selector_from_invalid_set_matches_everything:
  "Selector_Matches pf gt (SelectorFromSet pf srt (\<lambda>_. [(''app'', ''web''), (''a b'', ''x'')])
      (Some [''app'' \<mapsto> ''web'', ''a b'' \<mapsto> ''x''])) Map.empty
   \<and> map_entries [(''app'', ''web''), (''a b'', ''x'')] [''app'' \<mapsto> ''web'', ''a b'' \<mapsto> ''x'']"
proof -
  have "\<not> IsQualifiedName ''a b''"
    by (simp add: IsQualifiedName_def MatchString_QualifiedName bounded_by_def qnameExtCharFmt_def
        az_def AZ_def digit09_def)
  then show ?thesis
    by (simp add: SelectorFromSet_def valid_example operatorValues_def sets_Len_def sets_NewString_def
        NewRequirement_def [of _ "''a b''"] validateLabelKey_def map_entries_def fun_eq_iff)
qed

end
