(* ===== verification/Label_Parser_Props.thy ===== *)
theory Label_Parser_Props
  imports Label_Parser Label_Selectors
begin

text \<open>
  The parser is total and safe: on every string it stops, and it never reads past the items.
  Counterexamples to what its comments say of the syntax are at the end.
\<close>

section \<open>The items of a string\<close>

definition items_ok :: "ScannedItem list \<Rightarrow> bool" where
  "items_ok items \<longleftrightarrow> (\<exists>ys lit. items = ys @ [(EndOfStringToken, lit)]
     \<and> (\<forall>item \<in> set ys. fst item \<notin> {EndOfStringToken, ErrorToken}))"

lemma scan_loop_ok:
  "lexer_at l u \<Longrightarrow> \<exists>ys lit. Parser_scan_loop l acc = acc @ ys @ [(EndOfStringToken, lit)]
    \<and> (\<forall>item \<in> set ys. fst item \<notin> {EndOfStringToken, ErrorToken})"
proof (induction "length u" arbitrary: l u acc rule: less_induct)
  case less
  obtain tok lit l' u' where lex: "Lexer_Lex l = ((tok, lit), l')" "lexer_at l' u'" "tok \<noteq> ErrorToken"
    "tok \<noteq> EndOfStringToken \<Longrightarrow> length u' < length u"
    using Lex_progress [OF less.prems] by metis
  show ?case
  proof (cases "tok = EndOfStringToken")
    case True
    then show ?thesis using lex(1) by (intro exI [of _ "[]"] exI [of _ lit]) (simp add: Parser_scan_loop.simps [of l])
  next
    case False
    obtain ys lit' where "Parser_scan_loop l' (acc @ [(tok, lit)]) = (acc @ [(tok, lit)]) @ ys @ [(EndOfStringToken, lit')]"
      "\<forall>item \<in> set ys. fst item \<notin> {EndOfStringToken, ErrorToken}"
      using less.hyps [OF lex(4) [OF False] lex(2), of "acc @ [(tok, lit)]"] by metis
    then show ?thesis using lex(1,3) False
      by (intro exI [of _ "(tok, lit) # ys"]) (simp add: Parser_scan_loop.simps [of l])
  qed
qed

lemma items_ok_scan: "items_ok (Parser_scan s)"
  using scan_loop_ok [of "\<lparr>lex_s = s, lex_pos = 0\<rparr>" s "[]"]
  by (simp add: items_ok_def Parser_scan_def lexer_at_def)

lemma inContext_EOS [simp]: "fst (inContext context item) = EndOfStringToken \<longleftrightarrow> fst item = EndOfStringToken"
  by (cases item) (auto simp: inContext_def)

lemma items_ok_nth: "items_ok items \<Longrightarrow> p < length items \<Longrightarrow> fst (items ! p) \<noteq> EndOfStringToken \<Longrightarrow> Suc p < length items"
  by (auto simp: items_ok_def nth_append less_Suc_eq split: if_splits)

section \<open>No index is out of range\<close>

lemma lookahead_ok: "p < length items \<Longrightarrow> \<exists>tok lit. lookahead items p context = Inr (tok, lit)"
  by (auto simp: lookahead_def inContext_def split: prod.splits)

lemma lookahead_consume: "lookahead items p context = Inr item \<Longrightarrow> consume items p context = Inr (item, Suc p)"
  by (auto simp: lookahead_def consume_def split: if_splits)

lemma consume_ok:
  assumes "items_ok items" and "p < length items"
  shows "\<exists>tok lit. consume items p context = Inr ((tok, lit), Suc p)
    \<and> (tok \<noteq> EndOfStringToken \<longrightarrow> Suc p < length items)"
proof -
  obtain tok lit where it: "inContext context (items ! p) = (tok, lit)" by (metis prod.collapse)
  then have "fst (items ! p) = EndOfStringToken \<longleftrightarrow> tok = EndOfStringToken"
    using inContext_EOS [of "context" "items ! p"] by simp
  then show ?thesis using items_ok_nth [OF assms] assms(2) it by (auto simp: consume_def)
qed

definition in_range :: "ScannedItem list \<Rightarrow> label_error + 'a \<times> nat \<Rightarrow> bool" where
  "in_range items res = (case res of Inl err \<Rightarrow> err \<noteq> IndexOutOfRange | Inr (_, p) \<Rightarrow> p < length items)"

lemma in_range_simps [simp]:
  "in_range items (Inl err) \<longleftrightarrow> err \<noteq> IndexOutOfRange" "in_range items (Inr (x, p)) \<longleftrightarrow> p < length items"
  by (simp_all add: in_range_def)

lemma in_range_Inr: "in_range items res \<Longrightarrow> res = Inr (x, p) \<Longrightarrow> p < length items"
  by simp

lemma NewRequirement_no_panic: "NewRequirement pf key op vals \<noteq> Inl IndexOutOfRange"
  by (auto simp: NewRequirement_def validateLabelKey_def operatorValues_def split: option.splits if_splits)

lemma takeKey_safe:
  assumes "items_ok items" and "p < length items"
  shows "takeKey items p \<noteq> Inl IndexOutOfRange"
    and "takeKey items p = Inr (op, (IdentifierToken, lit), p') \<Longrightarrow> p' < length items"
proof -
  obtain tok l where c: "consume items p Values = Inr ((tok, l), Suc p)" "tok \<noteq> EndOfStringToken \<longrightarrow> Suc p < length items"
    using consume_ok [OF assms, of Values] by blast
  show "takeKey items p \<noteq> Inl IndexOutOfRange"
    using c consume_ok [OF assms(1), of "Suc p" Values]
    by (cases "tok = DoesNotExistToken") (auto simp: takeKey_def)
  show "p' < length items" if t: "takeKey items p = Inr (op, (IdentifierToken, lit), p')"
  proof (cases "tok = DoesNotExistToken")
    case True
    then obtain tok' l' where "consume items (Suc p) Values = Inr ((tok', l'), Suc (Suc p))"
      "tok' \<noteq> EndOfStringToken \<longrightarrow> Suc (Suc p) < length items"
      using c(2) consume_ok [OF assms(1), of "Suc p" Values] by auto
    then show ?thesis using t c(1) True by (auto simp: takeKey_def)
  next
    case False
    then show ?thesis using t c by (auto simp: takeKey_def)
  qed
qed

lemma parseKeyAndInferOperator_safe:
  assumes "items_ok items" and "p < length items"
  shows "in_range items (parseKeyAndInferOperator items p)"
proof (cases "takeKey items p")
  case (Inl e)
  then show ?thesis using takeKey_safe(1) [OF assms] by (simp add: parseKeyAndInferOperator_def)
next
  case (Inr x)
  obtain op tok lit p' where x: "x = (op, (tok, lit), p')" by (metis prod.collapse)
  show ?thesis
  proof (cases "tok = IdentifierToken")
    case False
    then show ?thesis using Inr x by (simp add: parseKeyAndInferOperator_def)
  next
    case True
    then have p': "p' < length items" using takeKey_safe(2) [OF assms] Inr x by blast
    then show ?thesis using Inr x True lookahead_ok [OF p', of Values]
      by (auto simp: parseKeyAndInferOperator_def validateLabelKey_def)
  qed
qed

lemma parseOperator_safe:
  assumes "items_ok items" and "p < length items"
  shows "in_range items (parseOperator items p)"
proof -
  obtain tok lit where c: "consume items p KeyAndOperator = Inr ((tok, lit), Suc p)"
    "tok \<noteq> EndOfStringToken \<longrightarrow> Suc p < length items"
    using consume_ok [OF assms, of KeyAndOperator] by blast
  then show ?thesis by (cases tok) (auto simp: parseOperator_def operatorOfToken_def)
qed

lemma parseExactValue_safe:
  assumes "items_ok items" and "p < length items"
  shows "in_range items (parseExactValue items p)"
proof -
  obtain tok lit where c: "consume items p Values = Inr ((tok, lit), Suc p)"
    "tok \<noteq> EndOfStringToken \<longrightarrow> Suc p < length items"
    using consume_ok [OF assms, of Values] by blast
  moreover have "lookahead items p Values = Inr (tok, lit)"
    using c(1) by (simp add: consume_def lookahead_def split: if_splits)
  ultimately show ?thesis using assms(2) by (auto simp: parseExactValue_def)
qed

lemma parseIdentifiersList_safe:
  "items_ok items \<Longrightarrow> p < length items \<Longrightarrow> in_range items (parseIdentifiersList items p s)"
proof (induction items p s rule: parseIdentifiersList.induct)
  case (1 items p s)
  obtain tok lit where c: "consume items p Values = Inr ((tok, lit), Suc p)"
    "tok \<noteq> EndOfStringToken \<longrightarrow> Suc p < length items"
    using consume_ok [OF "1.prems", of Values] by blast
  note IH = "1.IH" [OF c(1) refl refl]
  note step = parseIdentifiersList.simps [of items p]
  consider "tok = IdentifierToken" | "tok = CommaToken" "tok \<noteq> IdentifierToken"
    | "tok \<notin> {IdentifierToken, CommaToken}" by auto
  then show ?case
  proof cases
    case 1
    obtain tok2 lit2 where l: "lookahead items (Suc p) Values = Inr (tok2, lit2)"
      using lookahead_ok c(2) 1 by blast
    then show ?thesis using 1 c IH(1) [OF 1 refl l refl _ "1.prems"(1)] by (auto simp: step)
  next
    case 2
    have p: "Suc p < length items" using 2 c(2) by simp
    obtain tok2 lit2 where l: "lookahead items (Suc p) Values = Inr (tok2, lit2)"
      using lookahead_ok [OF p] by blast
    show ?thesis
    proof (cases "tok2 = CommaToken")
      case False
      then show ?thesis using 2 c(1) p l IH(3) [OF 2(2,1) refl l refl _ False "1.prems"(1) p]
        by (auto simp: step)
    next
      case True
      have c2: "consume items (Suc p) Values = Inr ((CommaToken, lit2), Suc (Suc p))" "Suc (Suc p) < length items"
        using consume_ok [OF "1.prems"(1) p, of Values] lookahead_consume [OF l] True by auto
      then show ?thesis using 2 c(1) p l True IH(2) [OF 2(2,1) refl l refl _ True c2(1) refl "1.prems"(1)]
        by (auto simp: step)
    qed
  next
    case 3
    then show ?thesis using c by (auto simp: step)
  qed
qed

lemma parseValues_safe:
  assumes "items_ok items" and "p < length items"
  shows "in_range items (parseValues items p)"
proof -
  obtain tok lit where c: "consume items p Values = Inr ((tok, lit), Suc p)"
    "tok \<noteq> EndOfStringToken \<longrightarrow> Suc p < length items"
    using consume_ok [OF assms, of Values] by blast
  show ?thesis
  proof (cases "tok = OpenParToken")
    case False
    then show ?thesis using c by (simp add: parseValues_def)
  next
    case True
    then have p: "Suc p < length items" using c(2) by simp
    obtain tok2 lit2 where l: "lookahead items (Suc p) Values = Inr (tok2, lit2)"
      using lookahead_ok [OF p] by blast
    note c2 = lookahead_consume [OF l]
    note safe = parseIdentifiersList_safe [OF assms(1) p, of "{}"]
    have last: "in_range items (case consume items q Values of Inl err \<Rightarrow> Inl err
        | Inr ((tok, _), r) \<Rightarrow> if tok \<noteq> ClosedParToken then Inl (Found lit2 '')'') else Inr (s, r))"
      if "q < length items" for q s
      using consume_ok [OF assms(1) that, of Values] by auto
    have closed: "Suc (Suc p) < length items" if "tok2 = ClosedParToken"
      using consume_ok [OF assms(1) p, of Values] c2 that by auto
    show ?thesis
      using c(1) True l c2 closed last safe
      by (cases "parseIdentifiersList items (Suc p) {}")
        (auto simp: parseValues_def sets_NewString_def)
  qed
qed

lemma finishRequirement_safe: "p < length items \<Longrightarrow> in_range items (finishRequirement pf key op vals p)"
  using NewRequirement_no_panic [of pf key op vals] by (auto simp: finishRequirement_def split: sum.split)

lemma parseRequirement_safe:
  assumes "items_ok items" and "p < length items"
  shows "in_range items (parseRequirement pf items p)"
proof -
  note key = parseKeyAndInferOperator_safe [OF assms]
  show ?thesis
  proof (cases "parseKeyAndInferOperator items p")
    case (Inl e)
    then show ?thesis using key by (simp add: parseRequirement_def)
  next
    case (Inr x)
    obtain k op q where x: "x = ((k, op), q)" by (metis prod.collapse)
    have q: "q < length items" using key Inr x by simp
    note oper = parseOperator_safe [OF assms(1) q]
    show ?thesis
    proof (cases "op = ExistsOperator \<or> op = DoesNotExistOperator")
      case True
      then show ?thesis using Inr x q finishRequirement_safe by (simp add: parseRequirement_def)
    next
      case False
      show ?thesis
      proof (cases "parseOperator items q")
        case (Inl e)
        then show ?thesis using oper Inr x False by (simp add: parseRequirement_def)
      next
        case op: (Inr y)
        obtain op' q' where y: "y = (op', q')" by (cases y)
        have q': "q' < length items" using oper op y by simp
        define res where "res = (if op' \<in> {InOperator, NotInOperator} then parseValues items q'
           else if op' \<in> {EqualsOperator, DoubleEqualsOperator, NotEqualsOperator, GreaterThanOperator, LessThanOperator}
           then parseExactValue items q' else Inr ({}, q'))"
        have "in_range items res"
          using parseValues_safe [OF assms(1) q'] parseExactValue_safe [OF assms(1) q'] q' by (simp add: res_def)
        moreover have "parseRequirement pf items p = (case res of Inl err \<Rightarrow> Inl err
            | Inr (values, r) \<Rightarrow> finishRequirement pf k op' values r)"
          using Inr x False op y by (simp add: parseRequirement_def res_def)
        ultimately show ?thesis
          using finishRequirement_safe [of _ items pf k op'] by (cases res) auto
      qed
    qed
  qed
qed

lemma parse_loop_safe:
  "items_ok items \<Longrightarrow> p < length items \<Longrightarrow> Parser_parse_loop pf items p reqs \<noteq> Inl IndexOutOfRange"
proof (induction pf items p reqs rule: Parser_parse_loop.induct)
  case (1 pf items p reqs)
  note step = Parser_parse_loop.simps [of pf items p]
  obtain tok lit where l: "lookahead items p Values = Inr (tok, lit)"
    using lookahead_ok [OF "1.prems"(2)] by blast
  show ?case
  proof (cases "tok \<in> {IdentifierToken, DoesNotExistToken}")
    case False
    then show ?thesis using l by (auto simp: step)
  next
    case tok: True
    note safe = parseRequirement_safe [OF "1.prems", of pf]
    show ?thesis
    proof (cases "parseRequirement pf items p")
      case (Inl e)
      then show ?thesis using l tok safe by (auto simp: step unableToParse_def)
    next
      case (Inr x)
      obtain r q where x: "x = (r, q)" by (cases x)
      have q: "q < length items" using safe Inr x by simp
      obtain t l2 where c: "consume items q Values = Inr ((t, l2), Suc q)"
        "t \<noteq> EndOfStringToken \<longrightarrow> Suc q < length items"
        using consume_ok [OF "1.prems"(1) q, of Values] by blast
      show ?thesis
      proof (cases "t = CommaToken")
        case False
        then show ?thesis using l tok Inr x c(1) by (auto simp: step)
      next
        case comma: True
        then have q': "Suc q < length items" using c(2) by simp
        obtain t2 l3 where l2: "lookahead items (Suc q) Values = Inr (t2, l3)"
          using lookahead_ok [OF q'] by blast
        have parse: "parseRequirement pf items p = Inr (r, q)" using Inr x by simp
        show ?thesis
          using "1.IH" [OF l refl tok parse refl refl c(1) refl refl _ comma l2 refl _ "1.prems"(1) q']
            l tok parse c(1) comma l2
          by (cases "t2 \<noteq> IdentifierToken \<and> t2 \<noteq> DoesNotExistToken") (auto simp: step)
      qed
    qed
  qed
qed

text \<open>
  C29: \<^verbatim>\<open>Parse\<close> is total and does not panic: on every string, valid or not, it stops with a
  selector or an error value, and no read of the scanned items is out of range; the lexer
  never produces its error token.
\<close>

theorem parse_never_panics:
  "Parse pf srt s \<noteq> Inl IndexOutOfRange \<and> ErrorToken \<notin> fst ` set (Parser_scan s)"
proof
  have "0 < length (Parser_scan s)" using items_ok_scan [of s] by (auto simp: items_ok_def)
  then show "Parse pf srt s \<noteq> Inl IndexOutOfRange"
    using parse_loop_safe [OF items_ok_scan, of 0 s pf "[]"]
    by (auto simp: Parse_def Parser_parse_def split: sum.split)
  show "ErrorToken \<notin> fst ` set (Parser_scan s)"
    using items_ok_scan [of s] by (fastforce simp: items_ok_def)
qed

text \<open>
  Where \<^verbatim>\<open>Parse\<close> departs from the grammar of its comment.  Values may be empty anywhere in
  a list, \<open>(foo,,baz)\<close> is the comment's example, and \<open>(a,)\<close> is accepted, but two commas before
  the closing parenthesis are refused.  A zero byte ends the input: what follows it is never
  looked at, however malformed.
\<close>

theorem parse_departs_from_documented_grammar:
  "Parse (\<lambda>_. None :: nat option) (\<lambda>rs. rs) ''x in (a,)''
     = Inr (Internal [\<lparr>req_key = ''x'', operator = InOperator, strValues = {''a'', ''''}\<rparr>])
   \<and> Parse (\<lambda>_. None :: nat option) (\<lambda>rs. rs) ''x in (a,,)''
     = Inl (UnableToParseRequirement (Found '')'' '', or identifier''))
   \<and> Parse (\<lambda>_. None :: nat option) (\<lambda>rs. rs) (''x '' @ [CHR 0x00] @ ''=!((>'')
     = Inr (Internal [\<lparr>req_key = ''x'', operator = ExistsOperator, strValues = {}\<rparr>])"
  by code_simp

end
