(* ===== verification/Label_Roundtrip.thy ===== *)
theory Label_Roundtrip
  imports Label_Parser_Props
begin

text \<open>
  Printing a selector and parsing the text gives the selector back.  The proof follows the
  text twice: once through the lexer, which gives the items of each requirement, and once
  through the parser over those items.
\<close>

section \<open>Lexing words and symbols\<close>

definition kw :: "string \<Rightarrow> Token" where
  "kw w = (case string2token w of Some t \<Rightarrow> t | None \<Rightarrow> IdentifierToken)"

definition word :: "string \<Rightarrow> bool" where
  "word w \<longleftrightarrow> w \<noteq> [] \<and> (\<forall>c \<in> set w. ident c)"

definition lexes :: "string \<Rightarrow> ScannedItem list \<Rightarrow> bool" where
  "lexes u items \<longleftrightarrow> (\<forall>l acc. lexer_at l u \<longrightarrow> Parser_scan_loop l acc = acc @ items)"

definition stops :: "string \<Rightarrow> bool" where
  "stops u \<longleftrightarrow> (case u of [] \<Rightarrow> True | c # _ \<Rightarrow> isSpecialSymbol c \<or> isWhitespace c)"

definition clean :: "string \<Rightarrow> bool" where
  "clean u \<longleftrightarrow> (case u of [] \<Rightarrow> True | c # _ \<Rightarrow> c \<noteq> NUL)"

lemma not_NUL: "isSpecialSymbol c \<or> isWhitespace c \<Longrightarrow> c \<noteq> NUL"
  by (auto simp: isSpecialSymbol_def isWhitespace_def)

lemma NUL_simps [simp]: "\<not> isSpecialSymbol NUL" "\<not> isWhitespace NUL"
  using not_NUL by blast+

lemma stops_clean: "stops u \<Longrightarrow> clean u"
  by (auto simp: stops_def clean_def dest: not_NUL split: list.splits)

lemma word_clean: "word w \<Longrightarrow> clean (w @ u)"
  by (cases w) (auto simp: word_def clean_def ident_def)

lemma special_not_space: "isSpecialSymbol c \<Longrightarrow> \<not> isWhitespace c"
  by (auto simp: isSpecialSymbol_def isWhitespace_def)

lemma lexes_nil: "lexes [] [(EndOfStringToken, '''')]"
  unfolding lexes_def
proof (intro allI impI)
  fix l :: Lexer and acc
  assume "lexer_at l []"
  then obtain l1 where "Lexer_Lex l = ((EndOfStringToken, ''''), l1)" using Lex_at [of l "[]"] by auto
  then show "Parser_scan_loop l acc = acc @ [(EndOfStringToken, '''')]"
    by (simp add: Parser_scan_loop.simps [of l])
qed

lemma lexes_space:
  assumes "isWhitespace c" and "lexes u items"
  shows "lexes (c # u) items"
  unfolding lexes_def
proof (intro allI impI)
  fix l :: Lexer and acc
  assume "lexer_at l (c # u)"
  then obtain l1 where l1: "Lexer_read l = (c, l1)" "lexer_at l1 u" by (rule read_at)
  have "Lexer_Lex l = Lexer_Lex l1"
    unfolding Lexer_Lex_def l1(1) using assms(1)
    by (simp add: skipWhiteSpaces.simps [of c] split: prod.split)
  then have "Parser_scan_loop l acc = Parser_scan_loop l1 acc"
    by (simp add: Parser_scan_loop.simps [of l] Parser_scan_loop.simps [of l1])
  then show "Parser_scan_loop l acc = acc @ items" using assms(2) l1(2) by (simp add: lexes_def)
qed

text \<open>A token that \<^verbatim>\<open>Lex\<close> takes off the front.\<close>

lemma lexes_token:
  assumes "\<And>l. lexer_at l u \<Longrightarrow> \<exists>l'. Lexer_Lex l = (item, l') \<and> lexer_at l' v"
    and "fst item \<noteq> EndOfStringToken" and "lexes v items"
  shows "lexes u (item # items)"
  unfolding lexes_def
proof (intro allI impI)
  fix l :: Lexer and acc
  assume "lexer_at l u"
  then obtain l' where "Lexer_Lex l = (item, l')" "lexer_at l' v" using assms(1) by blast
  then show "Parser_scan_loop l acc = acc @ item # items"
    using assms(2,3) by (cases item) (simp add: Parser_scan_loop.simps [of l] lexes_def)
qed

lemma kw_proper: "kw w \<noteq> EndOfStringToken"
  by (auto simp: kw_def dest: string2token_proper split: option.split)

lemma lexes_word:
  assumes "word w" and "stops u" and "lexes u items"
  shows "lexes (w @ u) ((kw w, w) # items)"
proof (rule lexes_token [OF _ _ assms(3)])
  fix l :: Lexer
  assume at: "lexer_at l (w @ u)"
  obtain c w' where w: "w = c # w'" "ident c" using assms(1) by (cases w) (auto simp: word_def)
  have no_space: "dropWhile isWhitespace (w @ u) = w @ u" using w by (simp add: ident_def)
  obtain l1 where l1: "lexer_at l1 (w @ u)" "Lexer_Lex l = scanIdOrKeyword l1"
    using Lex_at [OF at] w unfolding no_space by (auto simp: ident_def)
  have "\<forall>c \<in> set w. ident c" using assms(1) by (simp add: word_def)
  moreover have "takeWhile ident u = []" "skipNUL (dropWhile ident u) = u"
    using assms(2) by (auto simp: stops_def ident_def skipNUL_def dest: not_NUL split: list.splits)
  ultimately have "takeWhile ident (w @ u) = w" "skipNUL (dropWhile ident (w @ u)) = u"
    by (simp_all add: takeWhile_append2 dropWhile_append2)
  then show "\<exists>l'. Lexer_Lex l = ((kw w, w), l') \<and> lexer_at l' u"
    using scanIdOrKeyword_loop_at [OF l1(1), of "[]"] l1(2)
    by (auto simp: scanIdOrKeyword_def kw_def split: option.split)
qed (simp add: kw_proper)

text \<open>The loop over special symbols stops where the text is no token any more.\<close>

lemma special_loop_stop:
  assumes "lexer_at l u" and "fst item \<noteq> ErrorToken" and "clean u"
    and "\<And>c v. u = c # v \<Longrightarrow> isSpecialSymbol c \<Longrightarrow> string2token (buffer @ [c]) = None"
  shows "\<exists>buffer'. scanSpecialSymbol_loop l item buffer = (item, buffer', l)"
proof (cases u)
  case Nil
  then show ?thesis using assms(1) by (simp add: scanSpecialSymbol_loop.simps [of l] read_at_end)
next
  case (Cons c v)
  then obtain l1 where "Lexer_read l = (c, l1)" "Lexer_unread l1 = l"
    using assms(1) read_at [of l c v] by metis
  then show ?thesis using assms(2,3) assms(4) [OF Cons] Cons
    by (simp add: scanSpecialSymbol_loop.simps [of l] clean_def)
qed

lemma Lex_special:
  assumes "lexer_at l (c # u)" and "isSpecialSymbol c"
  obtains l1 where "lexer_at l1 (c # u)" "Lexer_Lex l = scanSpecialSymbol l1"
proof -
  have "dropWhile isWhitespace (c # u) = c # u" using special_not_space [OF assms(2)] by simp
  then show thesis using Lex_at [OF assms(1)] that assms(2) not_NUL [of c] by (auto split: if_splits)
qed

lemma lexes_symbol:
  assumes "isSpecialSymbol c" and "string2token [c] = Some t" and "clean u"
    and "\<And>d v. u = d # v \<Longrightarrow> isSpecialSymbol d \<Longrightarrow> string2token [c, d] = None"
    and "lexes u items"
  shows "lexes (c # u) ((t, [c]) # items)"
proof (rule lexes_token [OF _ _ assms(5)])
  fix l :: Lexer
  assume "lexer_at l (c # u)"
  then obtain l1 where l1: "lexer_at l1 (c # u)" "Lexer_Lex l = scanSpecialSymbol l1"
    by (rule Lex_special [OF _ assms(1)])
  obtain l2 where l2: "Lexer_read l1 = (c, l2)" "lexer_at l2 u" using l1(1) by (rule read_at)
  note t = string2token_proper [OF assms(2)]
  obtain b where "scanSpecialSymbol_loop l2 (t, [c]) [c] = ((t, [c]), b, l2)"
    using special_loop_stop [OF l2(2), of "(t, [c])" "[c]"] t assms(3,4) by auto
  then show "\<exists>l'. Lexer_Lex l = ((t, [c]), l') \<and> lexer_at l' u"
    using l1(2) l2 t assms(1,2) not_NUL [of c]
    by (simp add: scanSpecialSymbol_def scanSpecialSymbol_loop.simps [of l1])
qed (use string2token_proper [OF assms(2)] in simp)

lemma lexes_symbols:
  assumes "isSpecialSymbol c" and "isSpecialSymbol d" and "string2token [c] = Some t0"
    and "string2token [c, d] = Some t" and "clean u"
    and "\<And>e v. u = e # v \<Longrightarrow> isSpecialSymbol e \<Longrightarrow> string2token [c, d, e] = None"
    and "lexes u items"
  shows "lexes (c # d # u) ((t, [c, d]) # items)"
proof (rule lexes_token [OF _ _ assms(7)])
  fix l :: Lexer
  assume "lexer_at l (c # d # u)"
  then obtain l1 where l1: "lexer_at l1 (c # d # u)" "Lexer_Lex l = scanSpecialSymbol l1"
    by (rule Lex_special [OF _ assms(1)])
  obtain l2 where l2: "Lexer_read l1 = (c, l2)" "lexer_at l2 (d # u)" using l1(1) by (rule read_at)
  obtain l3 where l3: "Lexer_read l2 = (d, l3)" "lexer_at l3 u" using l2(2) by (rule read_at)
  note t = string2token_proper [OF assms(4)]
  obtain b where "scanSpecialSymbol_loop l3 (t, [c, d]) [c, d] = ((t, [c, d]), b, l3)"
    using special_loop_stop [OF l3(2), of "(t, [c, d])" "[c, d]"] t assms(5,6) by auto
  then show "\<exists>l'. Lexer_Lex l = ((t, [c, d]), l') \<and> lexer_at l' u"
    using l1(2) l2(1) l3 t assms(1-4) not_NUL [of c] not_NUL [of d]
    by (simp add: scanSpecialSymbol_def scanSpecialSymbol_loop.simps [of l1] scanSpecialSymbol_loop.simps [of l2])
qed (use string2token_proper [OF assms(4)] in simp)

section \<open>The items of a requirement\<close>

fun csv_items :: "string list \<Rightarrow> ScannedItem list" where
  "csv_items [] = []"
| "csv_items [v] = (if v = [] then [] else [(kw v, v)])"
| "csv_items (v # w # vs) = (if v = [] then [] else [(kw v, v)]) @ (CommaToken, '','') # csv_items (w # vs)"

definition operator_items :: "Operator \<Rightarrow> ScannedItem list" where
  "operator_items op = (case op of
      EqualsOperator \<Rightarrow> [(EqualsToken, ''='')]
    | DoubleEqualsOperator \<Rightarrow> [(DoubleEqualsToken, ''=='')]
    | NotEqualsOperator \<Rightarrow> [(NotEqualsToken, ''!='')]
    | InOperator \<Rightarrow> [(InToken, ''in'')]
    | NotInOperator \<Rightarrow> [(NotInToken, ''notin'')]
    | GreaterThanOperator \<Rightarrow> [(GreaterThanToken, ''>'')]
    | LessThanOperator \<Rightarrow> [(LessThanToken, ''<'')]
    | _ \<Rightarrow> [])"

definition requirement_items :: "Requirement \<Rightarrow> ScannedItem list" where
  "requirement_items r =
     (let op = operator r; vs = csv_items (sorted_list_of_set (strValues r)); key = (kw (req_key r), req_key r)
      in if op = DoesNotExistOperator then [(DoesNotExistToken, ''!''), key]
         else if op = ExistsOperator then [key]
         else key # operator_items op
           @ (if op \<in> {InOperator, NotInOperator} then (OpenParToken, ''('') # vs @ [(ClosedParToken, '')'')] else vs))"

definition valid_requirement :: "(string \<Rightarrow> 'f option) \<Rightarrow> Requirement \<Rightarrow> bool" where
  "valid_requirement pf r \<longleftrightarrow> finite (strValues r)
     \<and> NewRequirement pf (req_key r) (operator r) (strValues r) = Inr r"

lemma ext_ident: "qnameExtCharFmt c \<Longrightarrow> ident c"
  by (auto simp: qnameExtCharFmt_def ident_def isSpecialSymbol_def isWhitespace_def az_def AZ_def digit09_def)

lemma slash_ident: "ident (CHR ''/'')"
  by (simp add: ident_def isSpecialSymbol_def isWhitespace_def)

lemma lower_ext_qname: "lower_ext c \<Longrightarrow> qnameExtCharFmt c"
  by (auto simp: qnameExtCharFmt_def)

lemma split_chars: "c \<in> set s \<Longrightarrow> c = sep \<or> (\<exists>part \<in> set (strings_Split s sep). c \<in> set part)"
proof (induction s)
  case (Cons a s)
  obtain p ps where "strings_Split s sep = p # ps" by (metis strings_Split_nonempty list.exhaust)
  then show ?case using Cons by auto
qed simp

lemma subdomain_ident:
  assumes "IsDNS1123Subdomain s"
  shows "\<forall>c \<in> set s. ident c"
proof
  fix c
  assume "c \<in> set s"
  from split_chars [OF this, of "CHR ''.''"] show "ident c"
    using assms ext_ident lower_ext_qname
    unfolding IsDNS1123Subdomain_iff bounded_by_def
    by (metis qnameExtCharFmt_def)
qed

lemma qualified_word:
  assumes "IsQualifiedName s"
  shows "word s"
proof -
  have name: "word name" if "name \<noteq> [] \<and> length name \<le> 63 \<and> MatchString QualifiedNameFmt name" for name
    using that ext_ident unfolding MatchString_QualifiedName bounded_by_def word_def by blast
  define parts where "parts = strings_Split s (CHR ''/'')"
  have "(\<exists>name. parts = [name] \<and> word name)
      \<or> (\<exists>prefix name. parts = [prefix, name] \<and> word name \<and> (\<forall>c \<in> set prefix. ident c))"
    using assms name subdomain_ident unfolding IsQualifiedName_def Let_def parts_def [symmetric]
    by (simp split: list.splits if_splits) metis
  then have ident: "\<forall>part \<in> set parts. \<forall>c \<in> set part. ident c" and ne: "\<exists>part \<in> set parts. part \<noteq> []"
    by (auto simp: word_def)
  have "\<forall>c \<in> set s. ident c"
    using split_chars [of _ s "CHR ''/''"] ident slash_ident unfolding parts_def by metis
  moreover have "s \<noteq> []" using ne by (cases s) (auto simp: parts_def)
  ultimately show ?thesis by (simp add: word_def)
qed

lemma label_value_word: "IsValidLabelValue v \<Longrightarrow> v = [] \<or> word v"
  unfolding IsValidLabelValue_iff bounded_by_def word_def using ext_ident by blast

lemma string2token_comma: "string2token [CHR '','', d] = None"
  by (simp add: string2token_def)

lemma lexes_comma: "clean u \<Longrightarrow> lexes u items \<Longrightarrow> lexes (CHR '','' # u) ((CommaToken, '','') # items)"
  by (rule lexes_symbol) (simp_all add: isSpecialSymbol_def string2token_comma)

lemma stops_symbol: "isSpecialSymbol c \<Longrightarrow> stops (c # u)"
  by (simp add: stops_def)

lemma lexes_value:
  assumes "v = [] \<or> word v" and "stops u" and "lexes u items"
  shows "lexes (v @ u) ((if v = [] then [] else [(kw v, v)]) @ items)"
  using assms lexes_word by auto

lemma value_clean: "v = [] \<or> word v \<Longrightarrow> stops u \<Longrightarrow> clean (v @ u)"
  using word_clean stops_clean by auto

lemma lexes_csv:
  assumes "\<forall>v \<in> set vs. v = [] \<or> word v" and "stops u" and "lexes u items"
  shows "lexes (strings_Join vs '','' @ u) (csv_items vs @ items) \<and> clean (strings_Join vs '','' @ u)"
  using assms(1)
proof (induction vs rule: csv_items.induct)
  case 1
  then show ?case using assms stops_clean by simp
next
  case (2 v)
  then show ?case using lexes_value [OF _ assms(2,3)] value_clean [OF _ assms(2)] by simp
next
  case (3 v w vs)
  define rest where "rest = strings_Join (w # vs) '','' @ u"
  have "lexes (CHR '','' # rest) ((CommaToken, '','') # csv_items (w # vs) @ items)"
    using "3.IH" "3.prems" lexes_comma by (simp add: rest_def)
  moreover have "stops (CHR '','' # rest)" by (simp add: stops_def isSpecialSymbol_def)
  ultimately show ?case
    using lexes_value [of v "CHR '','' # rest"] value_clean [of v "CHR '','' # rest"] "3.prems"
    by (simp add: rest_def)
qed

lemma valid_requirementD:
  assumes "valid_requirement pf r"
  shows "word (req_key r)" and "\<forall>v \<in> strValues r. v = [] \<or> word v" and "finite (strValues r)"
    and "operatorValues pf (operator r) (strValues r) = None"
  using assms qualified_word label_value_word unfolding valid_requirement_def NewRequirement_Inr by auto

lemma strValues_join:
  "finite A \<Longrightarrow> (if sets_Len A = 1 then sorted_list_of_set A ! 0 else strings_Join (sorted_list_of_set A) '','')
     = strings_Join (sorted_list_of_set A) '',''"
  by (auto simp: sets_Len_def card_1_singleton_iff)

lemma Requirement_String_eq:
  assumes "finite (strValues r)"
  shows "Requirement_String r =
    (let op = operator r; vs = strings_Join (sorted_list_of_set (strValues r)) '',''
     in if op = DoesNotExistOperator then ''!'' @ req_key r
        else if op = ExistsOperator then req_key r
        else req_key r @ operatorString op
          @ (if op \<in> {InOperator, NotInOperator} then ''('' @ vs @ '')'' else vs))"
  using strValues_join [OF assms] by (simp add: Requirement_String_def operatorString_def)

lemma lexes_operator:
  assumes "op \<in> {EqualsOperator, DoubleEqualsOperator, NotEqualsOperator, GreaterThanOperator, LessThanOperator}"
    and "clean u" and "lexes u items" and "\<And>c v. u = c # v \<Longrightarrow> c \<noteq> CHR ''=''"
  shows "lexes (operatorString op @ u) (operator_items op @ items) \<and> stops (operatorString op @ u)"
proof -
  have none: "isSpecialSymbol d \<Longrightarrow> d \<noteq> CHR ''='' \<Longrightarrow> string2token [c, d] = None"
    "string2token [c, d', d] = None" if "isSpecialSymbol c" for c d d'
    using that by (auto simp: string2token_def isSpecialSymbol_def)
  have sym: "isSpecialSymbol (CHR ''='')" "isSpecialSymbol (CHR ''!'')" "isSpecialSymbol (CHR ''>'')"
    "isSpecialSymbol (CHR ''<'')" by (simp_all add: isSpecialSymbol_def)
  have one: "lexes (c # u) ((t, [c]) # items)" if "isSpecialSymbol c" "string2token [c] = Some t" for c t
    by (rule lexes_symbol [OF that assms(2) _ assms(3)]) (use that none(1) assms(4) in blast)
  have two: "lexes (c # CHR ''='' # u) ((t, [c, CHR ''='']) # items)"
    if "isSpecialSymbol c" "string2token [c] = Some t0" "string2token [c, CHR ''=''] = Some t" for c t0 t
    by (rule lexes_symbols [OF that(1) sym(1) that(2,3) assms(2) _ assms(3)]) (use that none(2) in blast)
  show ?thesis
    using assms(1) one two sym
    by (auto simp: operatorString_def operator_items_def stops_def)
qed

lemma lexes_values:
  assumes "\<forall>v \<in> set vs. v = [] \<or> word v" and "stops u" and "lexes u items"
    and "op \<in> {InOperator, NotInOperator}"
  shows "lexes (operatorString op @ ''('' @ strings_Join vs '','' @ '')'' @ u)
     (operator_items op @ (OpenParToken, ''('') # csv_items vs @ (ClosedParToken, '')'') # items)"
proof -
  have close: "lexes ('')'' @ u) ((ClosedParToken, '')'') # items)" "stops ('')'' @ u)"
    using lexes_symbol [OF _ _ stops_clean [OF assms(2)] _ assms(3), of "CHR '')''" ClosedParToken]
    by (simp_all add: isSpecialSymbol_def string2token_def stops_def)
  note csv = lexes_csv [OF assms(1) close(2,1)]
  define rest where "rest = ''('' @ strings_Join vs '','' @ '')'' @ u"
  have "lexes rest ((OpenParToken, ''('') # csv_items vs @ (ClosedParToken, '')'') # items)"
    using lexes_symbol [OF _ _ csv [THEN conjunct2] _ csv [THEN conjunct1], of "CHR ''(''" OpenParToken]
    by (simp add: rest_def isSpecialSymbol_def string2token_def)
  then have sp: "lexes ('' '' @ rest) ((OpenParToken, ''('') # csv_items vs @ (ClosedParToken, '')'') # items)"
    "stops ('' '' @ rest)"
    using lexes_space [of "CHR '' ''"] by (simp_all add: isWhitespace_def stops_def)
  have words: "word ''in''" "word ''notin''"
    by (simp_all add: word_def ident_def isSpecialSymbol_def isWhitespace_def)
  show ?thesis
    using assms(4) lexes_word [OF words(1) sp(2,1)] lexes_word [OF words(2) sp(2,1)] lexes_space [of "CHR '' ''"]
    unfolding rest_def [symmetric]
    by (auto simp: operatorString_def operator_items_def kw_def isWhitespace_def)
qed

definition ends :: "string \<Rightarrow> bool" where
  "ends u \<longleftrightarrow> (case u of [] \<Rightarrow> True | c # _ \<Rightarrow> c = CHR '','')"

lemma ends_stops: "ends u \<Longrightarrow> stops u"
  by (auto simp: ends_def stops_def isSpecialSymbol_def split: list.splits)

lemma word_hd: "word w \<Longrightarrow> w @ u = c # v \<Longrightarrow> ident c"
  by (cases w) (auto simp: word_def)

lemma csv_hd:
  assumes "\<forall>v \<in> set vs. v = [] \<or> word v" and "ends u" and "strings_Join vs '','' @ u = c # v"
  shows "c \<noteq> CHR ''=''"
proof -
  have "ident c \<or> c = CHR '',''"
    using assms
  proof (induction vs rule: csv_items.induct)
    case (3 x w vs)
    then show ?case by (cases x) (auto simp: word_def)
  qed (auto simp: ends_def word_def Cons_eq_append_conv append_eq_Cons_conv split: list.splits)
  then show ?thesis by (auto simp: ident_def isSpecialSymbol_def)
qed

lemma requirement_operator_cases:
  assumes "valid_requirement pf r"
  obtains "operator r = DoesNotExistOperator" | "operator r = ExistsOperator"
    | "operator r \<in> {InOperator, NotInOperator}"
    | "operator r \<in> {EqualsOperator, DoubleEqualsOperator, NotEqualsOperator, GreaterThanOperator, LessThanOperator}"
  using valid_requirementD(4) [OF assms] by (cases "operator r") (auto simp: operatorValues_def)

lemma lexes_requirement:
  assumes "valid_requirement pf r" and "ends u" and "lexes u items"
  shows "lexes (Requirement_String r @ u) (requirement_items r @ items) \<and> clean (Requirement_String r @ u)"
proof -
  note key = valid_requirementD(1) [OF assms(1)] and fin = valid_requirementD(3) [OF assms(1)]
  note u = ends_stops [OF assms(2)]
  define vs where "vs = sorted_list_of_set (strValues r)"
  have vals: "\<forall>v \<in> set vs. v = [] \<or> word v"
    using valid_requirementD(2) [OF assms(1)] fin by (simp add: vs_def)
  show ?thesis
  proof (cases rule: requirement_operator_cases [OF assms(1)])
    case 1
    have "lexes (''!'' @ req_key r @ u) ((DoesNotExistToken, ''!'') # (kw (req_key r), req_key r) # items)"
      using lexes_symbol [OF _ _ word_clean [OF key] _ lexes_word [OF key u assms(3)], of "CHR ''!''" DoesNotExistToken]
        word_hd [OF key] by (auto simp: isSpecialSymbol_def ident_def)
    then show ?thesis using 1 by (simp add: Requirement_String_eq [OF fin] requirement_items_def clean_def)
  next
    case 2
    then show ?thesis using lexes_word [OF key u assms(3)] word_clean [OF key]
      by (simp add: Requirement_String_eq [OF fin] requirement_items_def)
  next
    case 3
    have "stops (operatorString (operator r) @ x)" for x
      using 3 by (auto simp: operatorString_def stops_def isWhitespace_def)
    then show ?thesis
      using lexes_word [OF key _ lexes_values [OF vals u assms(3) 3]] word_clean [OF key] 3
      by (auto simp: Requirement_String_eq [OF fin] requirement_items_def vs_def)
  next
    case 4
    note csv = lexes_csv [OF vals u assms(3)]
    have "lexes (operatorString (operator r) @ strings_Join vs '','' @ u) (operator_items (operator r) @ csv_items vs @ items)
        \<and> stops (operatorString (operator r) @ strings_Join vs '','' @ u)"
      using csv csv_hd [OF vals assms(2)] by (intro lexes_operator [OF 4]) auto
    then show ?thesis
      using lexes_word [OF key] word_clean [OF key] 4
      by (auto simp: Requirement_String_eq [OF fin] requirement_items_def vs_def)
  qed
qed

fun selector_items :: "Requirement list \<Rightarrow> ScannedItem list" where
  "selector_items [] = [(EndOfStringToken, '''')]"
| "selector_items [r] = requirement_items r @ [(EndOfStringToken, '''')]"
| "selector_items (r # q # rs) = requirement_items r @ (CommaToken, '','') # selector_items (q # rs)"

lemma lexes_selector:
  assumes "\<forall>r \<in> set rs. valid_requirement pf r"
  shows "lexes (strings_Join (map Requirement_String rs) '','') (selector_items rs)
    \<and> clean (strings_Join (map Requirement_String rs) '','')"
  using assms
proof (induction rs rule: selector_items.induct)
  case 1
  then show ?case by (simp add: lexes_nil clean_def)
next
  case (2 r)
  then show ?case using lexes_requirement [of pf r "[]", OF _ _ lexes_nil] by (simp add: ends_def)
next
  case (3 r q rs)
  define rest where "rest = strings_Join (map Requirement_String (q # rs)) '',''"
  have "lexes (CHR '','' # rest) ((CommaToken, '','') # selector_items (q # rs))"
    using "3.IH" "3.prems" lexes_comma by (simp add: rest_def)
  then show ?case
    using lexes_requirement [of pf r "CHR '','' # rest"] "3.prems" by (simp add: rest_def ends_def)
qed

lemma scan_selector:
  assumes "\<forall>r \<in> set rs. valid_requirement pf r"
  shows "Parser_scan (strings_Join (map Requirement_String rs) '','') = selector_items rs"
  using lexes_selector [OF assms] by (simp add: Parser_scan_def lexes_def lexer_at_def)

section \<open>Parsing the items\<close>

lemma parser_at:
  assumes "drop p items = x # xs"
  shows "lookahead items p context = Inr (inContext context x)"
    and "consume items p context = Inr (inContext context x, Suc p)"
    and "drop (Suc p) items = xs"
proof -
  have p: "p < length items" using assms by (metis drop_all list.distinct(1) not_le)
  then have "items ! p = x" "drop (Suc p) items = xs"
    using assms by (simp_all add: Cons_nth_drop_Suc [symmetric])
  then show "lookahead items p context = Inr (inContext context x)"
    "consume items p context = Inr (inContext context x, Suc p)" "drop (Suc p) items = xs"
    using p by (simp_all add: lookahead_def consume_def)
qed

lemma kw_word:
  assumes "word w"
  shows "kw w = IdentifierToken \<or> kw w = InToken \<or> kw w = NotInToken"
proof -
  have "t = InToken \<or> t = NotInToken" if "string2token w = Some t" for t
    using that assms by (auto simp: string2token_def word_def ident_def isSpecialSymbol_def split: if_splits)
  then show ?thesis by (auto simp: kw_def split: option.split)
qed

lemma inContext_word [simp]: "word w \<Longrightarrow> inContext Values (kw w, w) = (IdentifierToken, w)"
  using kw_word by (auto simp: inContext_def)

lemma inContext_other [simp]:
  "inContext c (CommaToken, s) = (CommaToken, s)" "inContext c (ClosedParToken, s) = (ClosedParToken, s)"
  "inContext c (OpenParToken, s) = (OpenParToken, s)" "inContext c (EndOfStringToken, s) = (EndOfStringToken, s)"
  "inContext c (DoesNotExistToken, s) = (DoesNotExistToken, s)" "inContext KeyAndOperator x = x"
  by (simp_all add: inContext_def split: prod.split)

lemma parse_words:
  assumes "\<forall>v \<in> set vs. word v" and "vs \<noteq> []" and "finite s"
    and "drop p items = csv_items vs @ (ClosedParToken, '')'') # rest"
  shows "parseIdentifiersList items p s = Inr (s \<union> set vs, p + length (csv_items vs))
    \<and> drop (p + length (csv_items vs)) items = (ClosedParToken, '')'') # rest"
  using assms
proof (induction vs arbitrary: p s rule: csv_items.induct)
  case (2 v)
  then have v: "word v" "v \<noteq> []" by (auto simp: word_def)
  then have "drop p items = (kw v, v) # (ClosedParToken, '')'') # rest" using "2.prems" by simp
  note at = parser_at [OF this] and next_at = parser_at [OF parser_at(3) [OF this]]
  show ?case using v at next_at by (simp add: parseIdentifiersList.simps [of items p])
next
  case (3 v w vs)
  then have v: "word v" "v \<noteq> []" "word w" "w \<noteq> []" by (auto simp: word_def)
  have d: "drop p items = (kw v, v) # (CommaToken, '','') # csv_items (w # vs) @ (ClosedParToken, '')'') # rest"
    using "3.prems"(4) v by simp
  note at = parser_at [OF d] and at1 = parser_at [OF parser_at(3) [OF d]]
  obtain more' where w: "csv_items (w # vs) @ (ClosedParToken, '')'') # rest = (kw w, w) # more'"
    using v by (cases vs) auto
  note at2 = parser_at [OF at1(3) [unfolded w]]
  have "parseIdentifiersList items p s = parseIdentifiersList items (Suc (Suc p)) (insert v s)"
    using v at at1 at2 "3.prems"(3)
    by (simp add: parseIdentifiersList.simps [of items p] parseIdentifiersList.simps [of items "Suc p"] sets_Len_def)
  then show ?case using "3.IH" [OF _ _ _ at1(3), of "insert v s"] "3.prems" v by auto
qed simp

lemma parse_value_list:
  assumes "\<forall>v \<in> A. v = [] \<or> word v" and "finite A" and "A \<noteq> {}"
    and "drop p items = (OpenParToken, ''('') # csv_items (sorted_list_of_set A) @ (ClosedParToken, '')'') # rest"
  shows "parseValues items p = Inr (A, p + 2 + length (csv_items (sorted_list_of_set A)))"
proof -
  define vs where "vs = sorted_list_of_set A"
  obtain v ws where vs: "vs = v # ws" using assms(2,3) by (cases vs) (auto simp: vs_def)
  have A: "set vs = A" "sorted vs" "distinct vs" using assms(2) by (auto simp: vs_def)
  have ws: "\<forall>w \<in> set ws. word w"
  proof
    fix w
    assume w: "w \<in> set ws"
    have "w \<noteq> []" using A(2,3) w by (auto simp: vs)
    then show "word w" using assms(1) A(1) w vs by auto
  qed
  note at = parser_at [OF assms(4)]
  note d = at(3) [folded vs_def]
  show ?thesis
  proof (cases "v = []")
    case False
    then have words: "\<forall>v \<in> set vs. word v" using ws assms(1) A(1) vs by auto
    then have "word v" by (simp add: vs)
    note parse = parse_words [OF words _ finite.emptyI d]
    obtain more' where "csv_items vs @ (ClosedParToken, '')'') # rest = (kw v, v) # more'"
      using False vs by (cases ws) auto
    note at1 = parser_at [OF d [unfolded this]]
    show ?thesis
      using at at1 parse parser_at [OF parse [THEN conjunct2]] \<open>word v\<close> vs A(1)
      by (simp add: parseValues_def sets_NewString_def vs_def)
  next
    case True
    show ?thesis
    proof (cases ws)
      case Nil
      then show ?thesis using True vs A(1) at parser_at [OF d [unfolded vs Nil True, simplified]]
        by (simp add: parseValues_def sets_NewString_def flip: vs_def)
    next
      case (Cons w ws')
      have d1: "drop (Suc p) items = (CommaToken, '','') # csv_items ws @ (ClosedParToken, '')'') # rest"
        using d vs True Cons by simp
      note at1 = parser_at [OF d1]
      note parse = parse_words [OF ws _ _ at1(3), of "{[]}"]
      have "word w" using ws Cons by simp
      obtain more' where "csv_items ws @ (ClosedParToken, '')'') # rest = (kw w, w) # more'"
        using \<open>word w\<close> Cons by (cases ws') (auto simp: word_def)
      note at2 = parser_at [OF at1(3) [unfolded this]]
      have "parseIdentifiersList items (Suc p) {} = parseIdentifiersList items (Suc (Suc p)) {[]}"
        using at1 at2 \<open>word w\<close> by (simp add: parseIdentifiersList.simps [of items "Suc p"] sets_Len_def)
      then show ?thesis
        using at at1 parse parser_at [OF parse [THEN conjunct2]] vs A(1) True Cons
        by (auto simp: parseValues_def sets_NewString_def simp flip: vs_def)
    qed
  qed
qed

text \<open>The item after a requirement: a comma or the end.\<close>

definition terminator :: "ScannedItem \<Rightarrow> bool" where
  "terminator x \<longleftrightarrow> x = (CommaToken, '','') \<or> x = (EndOfStringToken, '''')"

lemma finish_valid:
  "valid_requirement pf r \<Longrightarrow> finishRequirement pf (req_key r) (operator r) (strValues r) p = Inr (r, p)"
  by (simp add: valid_requirement_def finishRequirement_def)

lemma validateLabelKey_valid: "valid_requirement pf r \<Longrightarrow> validateLabelKey (req_key r) = None"
  by (simp add: valid_requirement_def NewRequirement_Inr validateLabelKey_def)

lemma parseKey_plain:
  assumes "valid_requirement pf r" and "drop p items = (kw (req_key r), req_key r) # y # rest"
  shows "parseKeyAndInferOperator items p = Inr ((req_key r,
    if fst (inContext Values y) \<in> {EndOfStringToken, CommaToken} then ExistsOperator else OtherOperator ''''), Suc p)"
  using parser_at [OF assms(2)] parser_at [OF parser_at(3) [OF assms(2)]] valid_requirementD(1) [OF assms(1)]
    validateLabelKey_valid [OF assms(1)]
  by (cases "inContext Values y") (simp add: parseKeyAndInferOperator_def takeKey_def)

lemma parseOperator_items:
  assumes "operator_items op = [y]" and "drop p items = y # rest"
  shows "parseOperator items p = Inr (op, Suc p)" and "fst (inContext Values y) \<notin> {EndOfStringToken, CommaToken}"
  using assms parser_at(2) [OF assms(2), of KeyAndOperator]
  by (cases op; auto simp: operator_items_def parseOperator_def operatorOfToken_def inContext_def)+

lemma operator_items_single:
  "op \<in> {InOperator, NotInOperator, EqualsOperator, DoubleEqualsOperator, NotEqualsOperator, GreaterThanOperator, LessThanOperator}
   \<Longrightarrow> \<exists>y. operator_items op = [y]"
  by (auto simp: operator_items_def)

lemma parseExactValue_items:
  assumes "v = [] \<or> word v" and "drop p items = csv_items [v] @ x # rest" and "terminator x"
  shows "parseExactValue items p = Inr ({v}, p + length (csv_items [v]))"
proof (cases "v = []")
  case True
  then have "drop p items = x # rest" using assms(2) by simp
  from parser_at [OF this] show ?thesis using True assms(3)
    by (auto simp: parseExactValue_def terminator_def sets_NewString_def)
next
  case False
  then have "drop p items = (kw v, v) # x # rest" using assms(2) by simp
  from parser_at [OF this] show ?thesis using False assms(1)
    by (auto simp: parseExactValue_def sets_NewString_def)
qed

lemma parse_requirement_items:
  assumes "valid_requirement pf r" and "drop p items = requirement_items r @ x # rest" and "terminator x"
  shows "parseRequirement pf items p = Inr (r, p + length (requirement_items r))"
proof -
  note key = valid_requirementD(1) [OF assms(1)] and vals = valid_requirementD(2,3) [OF assms(1)]
  note arity = valid_requirementD(4) [OF assms(1)]
  have x: "fst (inContext Values x) \<in> {EndOfStringToken, CommaToken}"
    using assms(3) by (auto simp: terminator_def)
  show ?thesis
  proof (cases rule: requirement_operator_cases [OF assms(1)])
    case 1
    then have d: "drop p items = (DoesNotExistToken, ''!'') # (kw (req_key r), req_key r) # x # rest"
      using assms(2) by (simp add: requirement_items_def)
    note at = parser_at [OF d] and at1 = parser_at [OF parser_at(3) [OF d]]
    note at2 = parser_at [OF at1(3)]
    have "strValues r = {}" using arity 1 vals(2) by (simp add: operatorValues_def sets_Len_def split: if_splits)
    then show ?thesis
      using at at1 at2 key 1 x validateLabelKey_valid [OF assms(1)] finish_valid [OF assms(1), of "Suc (Suc p)"]
      by (cases "inContext Values x")
        (simp add: parseRequirement_def parseKeyAndInferOperator_def takeKey_def requirement_items_def)
  next
    case 2
    then have d: "drop p items = (kw (req_key r), req_key r) # x # rest"
      using assms(2) by (simp add: requirement_items_def)
    have "strValues r = {}" using arity 2 vals(2) by (simp add: operatorValues_def sets_Len_def split: if_splits)
    then show ?thesis
      using parseKey_plain [OF assms(1) d] 2 x finish_valid [OF assms(1), of "Suc p"]
      by (simp add: parseRequirement_def requirement_items_def)
  next
    case 3
    then obtain y where y: "operator_items (operator r) = [y]" using operator_items_single by blast
    define vs where "vs = csv_items (sorted_list_of_set (strValues r))"
    have d: "drop p items = (kw (req_key r), req_key r) # y # (OpenParToken, ''('') # vs @ (ClosedParToken, '')'') # x # rest"
      using assms(2) 3 y by (auto simp: requirement_items_def vs_def)
    note d1 = parser_at(3) [OF d] and oper = parseOperator_items [OF y parser_at(3) [OF d]]
    have "strValues r \<noteq> {}" using arity 3 by (auto simp: operatorValues_def sets_Len_def split: if_splits)
    note parsed = parse_value_list [OF vals this, folded vs_def, OF parser_at(3) [OF d1]]
    show ?thesis
      using parseKey_plain [OF assms(1) d] oper parsed 3 y finish_valid [OF assms(1)]
      by (auto simp: parseRequirement_def requirement_items_def vs_def)
  next
    case 4
    then obtain y where y: "operator_items (operator r) = [y]" using operator_items_single by blast
    have other: "operator r \<noteq> InOperator" "operator r \<noteq> NotInOperator" "operator r \<noteq> ExistsOperator"
      "operator r \<noteq> DoesNotExistOperator" using 4 by auto
    have "sets_Len (strValues r) = 1"
      using arity 4 by (cases "operator r") (simp_all add: operatorValues_def split: if_splits)
    from single_value [OF this] obtain v where v: "strValues r = {v}" "v = [] \<or> word v" using vals(1) by blast
    have d: "drop p items = (kw (req_key r), req_key r) # y # csv_items [v] @ x # rest"
      using assms(2) other y v(1) by (simp add: requirement_items_def)
    note d1 = parser_at(3) [OF d] and oper = parseOperator_items [OF y parser_at(3) [OF d]]
    note exact = parseExactValue_items [OF v(2) parser_at(3) [OF d1] assms(3)]
    have "length (requirement_items r) = 2 + length (csv_items [v])"
      using other y v(1) by (simp add: requirement_items_def)
    moreover have "fst (inContext Values y) \<noteq> EndOfStringToken \<and> fst (inContext Values y) \<noteq> CommaToken"
      using oper(2) by blast
    ultimately show ?thesis
      using parseKey_plain [OF assms(1) d] oper(1) exact 4 other v(1) finish_valid [OF assms(1)]
      by (simp add: parseRequirement_def del: csv_items.simps)
  qed
qed

text \<open>The first item of a requirement starts one.\<close>

lemma requirement_items_first:
  assumes "valid_requirement pf r"
  obtains x xs where "requirement_items r = x # xs" "fst (inContext Values x) \<in> {IdentifierToken, DoesNotExistToken}"
proof (cases "operator r = DoesNotExistOperator")
  case True
  then show thesis using that [of "(DoesNotExistToken, ''!'')"] by (simp add: requirement_items_def)
next
  case False
  then have "\<exists>xs. requirement_items r = (kw (req_key r), req_key r) # xs"
    by (cases "operator r = ExistsOperator") (simp_all add: requirement_items_def)
  then show thesis using that valid_requirementD(1) [OF assms] by auto
qed

lemma drop_append_length: "drop p xs = ys @ zs \<Longrightarrow> drop (p + length ys) xs = zs"
  by (metis add.commute append_eq_conv_conj drop_drop)

lemma parse_loop_items:
  assumes "\<forall>r \<in> set rs. valid_requirement pf r" and "drop p items = selector_items rs" and "rs \<noteq> []"
  shows "Parser_parse_loop pf items p acc = Inr (acc @ rs)"
  using assms
proof (induction rs arbitrary: p acc rule: selector_items.induct)
  case (2 r)
  then have r: "valid_requirement pf r" and d: "drop p items = requirement_items r @ (EndOfStringToken, '''') # []" by auto
  obtain x xs where x: "requirement_items r = x # xs" "fst (inContext Values x) \<in> {IdentifierToken, DoesNotExistToken}"
    by (rule requirement_items_first [OF r])
  note at = parser_at(1) [of p items x, OF d [unfolded x(1) append_Cons]]
  show ?case
    using at x(2) parse_requirement_items [OF r d] parser_at [OF drop_append_length [OF d]]
    by (cases "inContext Values x") (simp add: Parser_parse_loop.simps [of pf items p] terminator_def)
next
  case (3 r q rs)
  then have r: "valid_requirement pf r" "valid_requirement pf q"
    and d: "drop p items = requirement_items r @ (CommaToken, '','') # selector_items (q # rs)" by auto
  obtain x xs where x: "requirement_items r = x # xs" "fst (inContext Values x) \<in> {IdentifierToken, DoesNotExistToken}"
    by (rule requirement_items_first [OF r(1)])
  obtain y ys where y: "requirement_items q = y # ys" "fst (inContext Values y) \<in> {IdentifierToken, DoesNotExistToken}"
    by (rule requirement_items_first [OF r(2)])
  obtain zs where z: "selector_items (q # rs) = y # zs" using y(1) by (cases rs) auto
  note at = parser_at(1) [of p items x, OF d [unfolded x(1) append_Cons]]
  note comma = parser_at [OF drop_append_length [OF d]]
  note at2 = parser_at(1) [OF comma(3) [unfolded z], of Values]
  have "Parser_parse_loop pf items p acc = Parser_parse_loop pf items (Suc (p + length (requirement_items r))) (acc @ [r])"
    using at x(2) y(2) parse_requirement_items [OF r(1) d] comma(2) at2
    by (cases "inContext Values x"; cases "inContext Values y")
      (auto simp: Parser_parse_loop.simps [of pf items p] terminator_def)
  then show ?case using "3.IH" [OF _ comma(3), of "acc @ [r]"] "3.prems"(1) by simp
qed simp

text \<open>
  C16: Printing and parsing agree: the text of a selector whose requirements \<^verbatim>\<open>NewRequirement\<close>
  accepts, with any operators, any keys, \<open>in\<close> and \<open>notin\<close> among them, and any values, the empty
  one among them, parses to the same requirements, sorted by key.
\<close>

theorem selector_string_parses_back:
  assumes "\<forall>r \<in> set rs. valid_requirement pf r"
  shows "Parse pf srt (Selector_String (Internal rs)) = Inr (Internal (srt rs))"
proof (cases "rs = []")
  case True
  have "Parser_scan [] = [(EndOfStringToken, '''')]" using scan_selector [of "[]" pf] by simp
  then show ?thesis using True
    by (simp add: Parse_def Parser_parse_def Parser_parse_loop.simps [of pf "[(EndOfStringToken, '''')]"] lookahead_def)
next
  case False
  show ?thesis using parse_loop_items [OF assms _ False, of 0 "selector_items rs" "[]"]
    by (simp add: Parse_def Parser_parse_def scan_selector [OF assms])
qed

theorem selector_string_parses_back_witness:
  "Parse (\<lambda>_. None :: nat option) (\<lambda>rs. rs) ''in notin (,a)''
     = Inr (Internal [\<lparr>req_key = ''in'', operator = NotInOperator, strValues = {'''', ''a''}\<rparr>])"
proof -
  have "valid_requirement (\<lambda>_. None :: nat option)
      \<lparr>req_key = ''in'', operator = NotInOperator, strValues = {'''', ''a''}\<rparr>"
    unfolding valid_requirement_def NewRequirement_Inr
    by (simp add: IsQualifiedName_def MatchString_QualifiedName bounded_by_def qnameCharFmt_def
        qnameExtCharFmt_def az_def AZ_def digit09_def operatorValues_def sets_Len_def IsValidLabelValue_iff)
  then have "\<forall>r \<in> set [\<lparr>req_key = ''in'', operator = NotInOperator, strValues = {'''', ''a''}\<rparr>].
      valid_requirement (\<lambda>_. None :: nat option) r" by simp
  from selector_string_parses_back [OF this, of "\<lambda>rs. rs"] show ?thesis
    by (simp add: Requirement_String_def operatorString_def sets_Len_def)
qed

end
