(* ===== verification/Allocator.thy ===== *)
theory Allocator
  imports Prelude
begin

text \<open>
  \<^verbatim>\<open>pkg/registry/service/allocator\<close>: the bitmap behind the allocation of service IPs and node
  ports.  A \<^verbatim>\<open>big.Int\<close> that is never negative is a natural number; \<^verbatim>\<open>Bit\<close> and \<^verbatim>\<open>SetBit\<close> are the bit
  operations of \<^verbatim>\<open>nat\<close>, \<^verbatim>\<open>Bytes\<close> its big-endian bytes without leading zeros.  An offset is a
  natural number: \<^verbatim>\<open>math/big\<close> panics on a negative bit index, and no caller passes one.

  The \<^verbatim>\<open>Interface\<close> of the package is a record of operations, as a Go interface value is; its
  contract is a locale.
\<close>

section \<open>Counting bits\<close>

function big_Bytes :: "nat \<Rightarrow> nat list" where
  "big_Bytes n = (if n = 0 then [] else big_Bytes (n div 256) @ [n mod 256])"
  by pat_completeness auto

termination
  by (relation "measure (\<lambda>n. n)") auto

declare big_Bytes.simps [simp del]

definition big_SetBytes :: "nat list \<Rightarrow> nat" where
  "big_SetBytes bs = fold (\<lambda>b n. n * 256 + b) bs 0"

definition bitCounts :: "nat list" where
  "bitCounts = [
     0, 1, 1, 2, 1, 2, 2, 3, 1, 2, 2, 3, 2, 3, 3, 4,
     1, 2, 2, 3, 2, 3, 3, 4, 2, 3, 3, 4, 3, 4, 4, 5,
     1, 2, 2, 3, 2, 3, 3, 4, 2, 3, 3, 4, 3, 4, 4, 5,
     2, 3, 3, 4, 3, 4, 4, 5, 3, 4, 4, 5, 4, 5, 5, 6,
     1, 2, 2, 3, 2, 3, 3, 4, 2, 3, 3, 4, 3, 4, 4, 5,
     2, 3, 3, 4, 3, 4, 4, 5, 3, 4, 4, 5, 4, 5, 5, 6,
     2, 3, 3, 4, 3, 4, 4, 5, 3, 4, 4, 5, 4, 5, 5, 6,
     3, 4, 4, 5, 4, 5, 5, 6, 4, 5, 5, 6, 5, 6, 6, 7,
     1, 2, 2, 3, 2, 3, 3, 4, 2, 3, 3, 4, 3, 4, 4, 5,
     2, 3, 3, 4, 3, 4, 4, 5, 3, 4, 4, 5, 4, 5, 5, 6,
     2, 3, 3, 4, 3, 4, 4, 5, 3, 4, 4, 5, 4, 5, 5, 6,
     3, 4, 4, 5, 4, 5, 5, 6, 4, 5, 5, 6, 5, 6, 6, 7,
     2, 3, 3, 4, 3, 4, 4, 5, 3, 4, 4, 5, 4, 5, 5, 6,
     3, 4, 4, 5, 4, 5, 5, 6, 4, 5, 5, 6, 5, 6, 6, 7,
     3, 4, 4, 5, 4, 5, 5, 6, 4, 5, 5, 6, 5, 6, 6, 7,
     4, 5, 5, 6, 5, 6, 6, 7, 5, 6, 6, 7, 6, 7, 7, 8]"

definition countBits :: "nat \<Rightarrow> nat" where
  "countBits n = fold (\<lambda>b n. n + bitCounts ! b) (big_Bytes n) 0"

section \<open>The bitmap\<close>

type_synonym allocateStrategy = "nat \<Rightarrow> int \<Rightarrow> int \<Rightarrow> nat option"

record AllocationBitmap =
  strategy :: allocateStrategy
  bm_max :: int
  rangeSpec :: string
  bm_count :: int
  allocated :: nat

text \<open>
  The scans try the offsets in order and take the first that is free; \<^verbatim>\<open>None\<close> is \<^verbatim>\<open>(0, false)\<close>.
  \<open>rnd\<close> is what \<^verbatim>\<open>rand.Intn\<close> draws.
\<close>

definition randomScanStrategy :: "(int \<Rightarrow> nat) \<Rightarrow> allocateStrategy" where
  "randomScanStrategy rnd a mx cnt =
     (if cnt \<ge> mx then None
      else let offset = rnd mx
           in find (\<lambda>at. \<not> bit a at) (map (\<lambda>i. (offset + i) mod nat mx) [0..<nat mx]))"

definition contiguousScanStrategy :: allocateStrategy where
  "contiguousScanStrategy a mx cnt =
     (if cnt \<ge> mx then None else find (\<lambda>i. \<not> bit a i) [0..<nat mx])"

definition NewAllocationMap :: "(int \<Rightarrow> nat) \<Rightarrow> int \<Rightarrow> string \<Rightarrow> AllocationBitmap" where
  "NewAllocationMap rnd mx spec = \<lparr>strategy = randomScanStrategy rnd, bm_max = mx, rangeSpec = spec,
     bm_count = 0, allocated = 0\<rparr>"

definition NewContiguousAllocationMap :: "int \<Rightarrow> string \<Rightarrow> AllocationBitmap" where
  "NewContiguousAllocationMap mx spec = \<lparr>strategy = contiguousScanStrategy, bm_max = mx, rangeSpec = spec,
     bm_count = 0, allocated = 0\<rparr>"

definition AllocationBitmap_Allocate :: "nat \<Rightarrow> AllocationBitmap \<Rightarrow> bool \<times> AllocationBitmap" where
  "AllocationBitmap_Allocate offset r =
     (if bit (allocated r) offset then (False, r)
      else (True, r\<lparr>allocated := set_bit offset (allocated r), bm_count := bm_count r + 1\<rparr>))"

definition AllocationBitmap_AllocateNext :: "AllocationBitmap \<Rightarrow> nat option \<times> AllocationBitmap" where
  "AllocationBitmap_AllocateNext r =
     (case strategy r (allocated r) (bm_max r) (bm_count r) of
        None \<Rightarrow> (None, r)
      | Some nxt \<Rightarrow> (Some nxt, r\<lparr>bm_count := bm_count r + 1, allocated := set_bit nxt (allocated r)\<rparr>))"

definition AllocationBitmap_Release :: "nat \<Rightarrow> AllocationBitmap \<Rightarrow> AllocationBitmap" where
  "AllocationBitmap_Release offset r =
     (if \<not> bit (allocated r) offset then r
      else r\<lparr>allocated := unset_bit offset (allocated r), bm_count := bm_count r - 1\<rparr>)"

definition AllocationBitmap_Has :: "nat \<Rightarrow> AllocationBitmap \<Rightarrow> bool" where
  "AllocationBitmap_Has offset r = bit (allocated r) offset"

definition AllocationBitmap_Free :: "AllocationBitmap \<Rightarrow> int" where
  "AllocationBitmap_Free r = bm_max r - bm_count r"

definition AllocationBitmap_Snapshot :: "AllocationBitmap \<Rightarrow> string \<times> nat list" where
  "AllocationBitmap_Snapshot r = (rangeSpec r, big_Bytes (allocated r))"

definition AllocationBitmap_Restore ::
  "string \<Rightarrow> nat list \<Rightarrow> AllocationBitmap \<Rightarrow> go_error option \<times> AllocationBitmap" where
  "AllocationBitmap_Restore spec data r =
     (if rangeSpec r \<noteq> spec then (Some ''the provided range does not match the current range'', r)
      else let a = big_SetBytes data in (None, r\<lparr>allocated := a, bm_count := int (countBits a)\<rparr>))"

section \<open>Bits, bytes and counts\<close>

definition bits :: "nat \<Rightarrow> nat set" where "bits n = {i. bit n i}"

lemma bits_bound: "i \<in> bits n \<Longrightarrow> i < n"
proof -
  assume "i \<in> bits n"
  then have "2 ^ i \<le> n" by (auto simp: bits_def bit_iff_odd not_less [symmetric] dest: div_less)
  then show "i < n" using less_exp [of i] by linarith
qed

lemma finite_bits [simp]: "finite (bits n)"
  by (rule finite_subset [of _ "{..<n}"]) (auto dest: bits_bound)

lemma bits_simps [simp]: "bits 0 = {}" "bits (set_bit i n) = insert i (bits n)" "bits (unset_bit i n) = bits n - {i}"
  by (auto simp: bits_def bit_simps)

lemma big_Bytes_less: "b \<in> set (big_Bytes n) \<Longrightarrow> b < 256"
  by (induction n rule: big_Bytes.induct) (subst (asm) (2) big_Bytes.simps, auto split: if_splits)

lemma big_SetBytes_snoc: "big_SetBytes (bs @ [b]) = big_SetBytes bs * 256 + b"
  by (simp add: big_SetBytes_def)

lemma SetBytes_Bytes: "big_SetBytes (big_Bytes n) = n"
proof (induction n rule: big_Bytes.induct)
  case (1 n)
  then show ?case
    by (cases "n = 0") (simp_all add: big_Bytes.simps [of n] big_SetBytes_snoc, simp add: big_SetBytes_def big_Bytes.simps [of 0])
qed

text \<open>Counting by halves, which the kernel can run.\<close>

fun pop :: "nat \<Rightarrow> nat" where
  "pop n = (if n = 0 then 0 else n mod 2 + pop (n div 2))"

declare pop.simps [simp del]

lemma bits_halve: "bits n = (if odd n then {0} else {}) \<union> Suc ` bits (n div 2)"
proof (rule set_eqI)
  fix i
  show "i \<in> bits n \<longleftrightarrow> i \<in> (if odd n then {0} else {}) \<union> Suc ` bits (n div 2)"
    by (cases i) (auto simp: bits_def bit_0 bit_Suc)
qed

lemma card_bits_pop: "card (bits n) = pop n"
proof (induction n rule: pop.induct)
  case (1 n)
  show ?case
  proof (cases "n = 0")
    case True
    then show ?thesis by (simp add: pop.simps [of 0])
  next
    case False
    have "card (bits n) = n mod 2 + card (Suc ` bits (n div 2))"
      by (subst bits_halve) (auto simp: card_insert_if odd_iff_mod_2_eq_one)
    then show ?thesis using 1 False by (simp add: card_image pop.simps [of n])
  qed
qed

lemma bitCounts_popcount:
  assumes "b < 256"
  shows "bitCounts ! b = card (bits b)"
proof -
  have "map pop (upt 0 256) = bitCounts"
    unfolding bitCounts_def by (simp add: upt_conv_Cons pop.simps)
  then show ?thesis using assms by (simp add: card_bits_pop nth_map [symmetric] flip: \<open>map pop (upt 0 256) = bitCounts\<close>)
qed

lemma bits_bytes: "bits n = bits (n mod 256) \<union> (\<lambda>j. 8 + j) ` bits (n div 256)"
proof -
  have eq: "n mod 256 = take_bit 8 n" "n div 256 = drop_bit 8 n"
    by (simp_all add: take_bit_eq_mod drop_bit_eq_div)
  show ?thesis
  proof (rule set_eqI)
    fix i
    show "i \<in> bits n \<longleftrightarrow> i \<in> bits (n mod 256) \<union> (\<lambda>j. 8 + j) ` bits (n div 256)"
    proof (cases "i < 8")
      case False
      then obtain j where "i = 8 + j" by (metis le_Suc_ex not_less)
      then show ?thesis unfolding eq by (auto simp: bits_def bit_simps)
    qed (auto simp: eq bits_def bit_simps)
  qed
qed

lemma card_bits_bytes: "card (bits n) = card (bits (n div 256)) + card (bits (n mod 256))"
proof -
  have "bits (n mod 256) \<inter> (\<lambda>j. 8 + j) ` bits (n div 256) = {}"
    by (auto simp: bits_def bit_simps simp flip: take_bit_eq_mod [of 8, simplified])
  then show ?thesis
    by (subst bits_bytes) (simp add: card_Un_disjoint card_image)
qed

lemma countBits_snoc: "n \<noteq> 0 \<Longrightarrow> countBits n = countBits (n div 256) + bitCounts ! (n mod 256)"
  by (simp add: countBits_def big_Bytes.simps [of n])

lemma countBits_eq: "countBits n = card (bits n)"
proof (induction n rule: big_Bytes.induct)
  case (1 n)
  show ?case
  proof (cases "n = 0")
    case True
    then show ?thesis by (simp add: countBits_def big_Bytes.simps [of 0])
  next
    case False
    then show ?thesis
      using 1 by (simp add: countBits_snoc bitCounts_popcount card_bits_bytes [of n])
  qed
qed

end
