(* ===== verification/Allocator_Interface.thy ===== *)
theory Allocator_Interface
  imports Allocator
begin

text \<open>
  \<^verbatim>\<open>pkg/registry/service/allocator/interfaces.go\<close> as a contract, and the bitmap as its
  implementation.  The abstract state is the set of offsets that are taken.
\<close>

section \<open>The interface\<close>

text \<open>The methods of an \<^verbatim>\<open>allocator.Interface\<close> that can be snapshotted; an error is \<^verbatim>\<open>Inl\<close>.\<close>

record 's allocator_ops =
  al_Allocate :: "nat \<Rightarrow> 's \<Rightarrow> (go_error + bool) \<times> 's"
  al_AllocateNext :: "'s \<Rightarrow> (go_error + nat option) \<times> 's"
  al_Release :: "nat \<Rightarrow> 's \<Rightarrow> go_error option \<times> 's"
  al_Has :: "nat \<Rightarrow> 's \<Rightarrow> bool"
  al_Free :: "'s \<Rightarrow> int"
  al_Snapshot :: "'s \<Rightarrow> string \<times> nat list"
  al_Restore :: "string \<Rightarrow> nat list \<Rightarrow> 's \<Rightarrow> go_error option \<times> 's"

definition bitmap_ops :: "AllocationBitmap allocator_ops" where
  "bitmap_ops = \<lparr>
     al_Allocate = (\<lambda>offset r. case AllocationBitmap_Allocate offset r of (ok, r) \<Rightarrow> (Inr ok, r)),
     al_AllocateNext = (\<lambda>r. case AllocationBitmap_AllocateNext r of (nxt, r) \<Rightarrow> (Inr nxt, r)),
     al_Release = (\<lambda>offset r. (None, AllocationBitmap_Release offset r)),
     al_Has = AllocationBitmap_Has,
     al_Free = AllocationBitmap_Free,
     al_Snapshot = AllocationBitmap_Snapshot,
     al_Restore = AllocationBitmap_Restore\<rparr>"

locale allocator =
  fixes ops :: "'s allocator_ops"
    and taken :: "'s \<Rightarrow> nat set"
    and sz :: "'s \<Rightarrow> nat"
    and invar :: "'s \<Rightarrow> bool"
  assumes allocate: "invar s \<Longrightarrow> i < sz s \<Longrightarrow> \<exists>s'. al_Allocate ops i s = (Inr (i \<notin> taken s), s')
      \<and> taken s' = insert i (taken s) \<and> sz s' = sz s \<and> invar s'"
    and allocate_next: "invar s \<Longrightarrow>
      (\<exists>i s'. al_AllocateNext ops s = (Inr (Some i), s') \<and> i < sz s \<and> i \<notin> taken s
         \<and> taken s' = insert i (taken s) \<and> sz s' = sz s \<and> invar s')
      \<or> al_AllocateNext ops s = (Inr None, s) \<and> taken s = {..<sz s}"
    and release: "invar s \<Longrightarrow> i < sz s \<Longrightarrow> \<exists>s'. al_Release ops i s = (None, s')
      \<and> taken s' = taken s - {i} \<and> sz s' = sz s \<and> invar s'"
    and has: "invar s \<Longrightarrow> al_Has ops i s \<longleftrightarrow> i \<in> taken s"
    and free: "invar s \<Longrightarrow> al_Free ops s = int (sz s) - int (card (taken s))"
    and in_size: "invar s \<Longrightarrow> taken s \<subseteq> {..<sz s}"
begin

lemma allocate_next_full_iff:
  assumes "invar s"
  shows "fst (al_AllocateNext ops s) = Inr None \<longleftrightarrow> taken s = {..<sz s}"
  using allocate_next [OF assms]
proof
  assume "\<exists>i s'. al_AllocateNext ops s = (Inr (Some i), s') \<and> i < sz s \<and> i \<notin> taken s
    \<and> taken s' = insert i (taken s) \<and> sz s' = sz s \<and> invar s'"
  then obtain i s' where "al_AllocateNext ops s = (Inr (Some i), s')" "i < sz s" "i \<notin> taken s" by blast
  then show ?thesis by (metis Inr_inject fst_conv lessThan_iff option.distinct(1))
qed simp

lemma release_allocated:
  assumes "invar s" and "i < sz s" and "i \<notin> taken s"
  shows "taken (snd (al_Release ops i (snd (al_Allocate ops i s)))) = taken s"
proof -
  obtain s1 where s1: "al_Allocate ops i s = (Inr (i \<notin> taken s), s1)" "taken s1 = insert i (taken s)"
    "sz s1 = sz s" "invar s1"
    using allocate [OF assms(1,2)] by blast
  obtain s2 where "al_Release ops i s1 = (None, s2)" "taken s2 = taken s1 - {i}"
    using release [OF s1(4)] s1(3) assms(2) by metis
  then show ?thesis using s1(1,2) assms(3) by simp
qed

end

section \<open>The bitmap implements it\<close>

definition strategy_ok :: "allocateStrategy \<Rightarrow> bool" where
  "strategy_ok st \<longleftrightarrow> (\<forall>a mx cnt. case st a mx cnt of
      Some i \<Rightarrow> int i < mx \<and> \<not> bit a i
    | None \<Rightarrow> cnt \<ge> mx \<or> (\<forall>i. int i < mx \<longrightarrow> bit a i))"

lemma strategy_ok_None: "strategy_ok st \<Longrightarrow> st a mx cnt = None \<Longrightarrow> cnt \<ge> mx \<or> (\<forall>i. int i < mx \<longrightarrow> bit a i)"
  unfolding strategy_ok_def by (drule spec [of _ a], drule spec [of _ mx], drule spec [of _ cnt]) simp

lemma strategy_ok_Some: "strategy_ok st \<Longrightarrow> st a mx cnt = Some i \<Longrightarrow> int i < mx \<and> \<not> bit a i"
  unfolding strategy_ok_def by (drule spec [of _ a], drule spec [of _ mx], drule spec [of _ cnt]) simp

definition bitmap_inv :: "AllocationBitmap \<Rightarrow> bool" where
  "bitmap_inv r \<longleftrightarrow> strategy_ok (strategy r) \<and> 0 \<le> bm_max r
     \<and> bm_count r = int (card (bits (allocated r))) \<and> bits (allocated r) \<subseteq> {..<nat (bm_max r)}"

lemma strategy_ok_contiguous: "strategy_ok contiguousScanStrategy"
  unfolding strategy_ok_def contiguousScanStrategy_def
  by (auto simp: find_None_iff find_Some_iff nat_less_iff split: option.split)

lemma shifted_range:
  fixes n :: nat
  assumes "0 < n"
  shows "(\<lambda>i. (k + i) mod n) ` {0..<n} = {0..<n}"
proof
  show "{0..<n} \<subseteq> (\<lambda>i. (k + i) mod n) ` {0..<n}"
  proof
    fix x
    assume x: "x \<in> {0..<n}"
    have "k + (x + (n - k mod n)) = x + n * (k div n + 1)"
      using mult_div_mod_eq [of n k] mod_less_divisor [OF assms, of k]
      unfolding distrib_left mult_1_right by linarith
    then have "(k + (x + (n - k mod n)) mod n) mod n = (x + n * (k div n + 1)) mod n"
      by (metis mod_add_right_eq)
    then have "(k + (x + (n - k mod n)) mod n) mod n = x" using x by (simp only: mod_mult_self2) simp
    then show "x \<in> (\<lambda>i. (k + i) mod n) ` {0..<n}"
      using assms by (intro image_eqI [of _ _ "(x + (n - k mod n)) mod n"]) auto
  qed
qed (use assms in auto)

lemma strategy_ok_random: "strategy_ok (randomScanStrategy rnd)"
  unfolding strategy_ok_def
proof (intro allI)
  fix a mx cnt
  let ?at = "map (\<lambda>i. (rnd mx + i) mod nat mx) [0..<nat mx]"
  show "case randomScanStrategy rnd a mx cnt of
      Some i \<Rightarrow> int i < mx \<and> \<not> bit a i | None \<Rightarrow> cnt \<ge> mx \<or> (\<forall>i. int i < mx \<longrightarrow> bit a i)"
  proof (cases "cnt \<ge> mx \<or> mx \<le> 0")
    case True
    then show ?thesis by (auto simp: randomScanStrategy_def)
  next
    case False
    then have "set ?at = {0..<nat mx}" using shifted_range [of "nat mx" "rnd mx"] by simp
    then have "\<And>i. int i < mx \<longleftrightarrow> i \<in> set ?at" by auto
    then show ?thesis using False
      by (auto simp: randomScanStrategy_def find_None_iff find_Some_iff nth_mem split: option.split)
  qed
qed

lemma bitmap_inv_New:
  assumes "0 \<le> mx"
  shows "bitmap_inv (NewAllocationMap rnd mx spec)" and "bitmap_inv (NewContiguousAllocationMap mx spec)"
  using assms strategy_ok_random strategy_ok_contiguous
  by (simp_all add: bitmap_inv_def NewAllocationMap_def NewContiguousAllocationMap_def)

lemma bitmap_invD:
  assumes "bitmap_inv r"
  shows "bm_count r = int (card (bits (allocated r)))" and "bits (allocated r) \<subseteq> {..<nat (bm_max r)}"
    and "strategy_ok (strategy r)" and "0 \<le> bm_max r"
  using assms by (simp_all add: bitmap_inv_def)

lemma bitmap_take:
  assumes "bitmap_inv r" and "i < nat (bm_max r)" and "i \<notin> bits (allocated r)"
  shows "bitmap_inv (r\<lparr>bm_count := bm_count r + 1, allocated := set_bit i (allocated r)\<rparr>)"
  using assms by (simp add: bitmap_inv_def)

lemma bitmap_swap: "r\<lparr>allocated := a, bm_count := c\<rparr> = r\<lparr>bm_count := c, allocated := a\<rparr>"
  by (cases r) simp

lemma bitmap_drop:
  assumes "bitmap_inv r" and "i \<in> bits (allocated r)"
  shows "bitmap_inv (r\<lparr>bm_count := bm_count r - 1, allocated := unset_bit i (allocated r)\<rparr>)"
proof -
  have "0 < card (bits (allocated r))" using assms(2) by (auto simp: card_gt_0_iff)
  then show ?thesis using assms by (auto simp: bitmap_inv_def card_Diff_singleton of_nat_diff)
qed

text \<open>A search that finds nothing in a map of the invariant means that the map is full.\<close>

lemma bitmap_full:
  assumes "bitmap_inv r" and "strategy r (allocated r) (bm_max r) (bm_count r) = None"
  shows "bits (allocated r) = {..<nat (bm_max r)}"
proof -
  note inv = bitmap_invD [OF assms(1)]
  from strategy_ok_None [OF inv(3) assms(2)] show ?thesis
  proof
    assume "bm_count r \<ge> bm_max r"
    then have "card {..<nat (bm_max r)} \<le> card (bits (allocated r))" using inv(1) by simp
    then show ?thesis using card_seteq [OF _ inv(2)] by simp
  next
    assume "\<forall>i. int i < bm_max r \<longrightarrow> bit (allocated r) i"
    then show ?thesis using inv(2) by (auto simp: bits_def)
  qed
qed

interpretation bitmap: allocator bitmap_ops "\<lambda>r. bits (allocated r)" "\<lambda>r. nat (bm_max r)" bitmap_inv
proof
  fix r i
  assume inv: "bitmap_inv r"
  note D = bitmap_invD [OF inv]
  show "\<exists>r'. al_Allocate bitmap_ops i r = (Inr (i \<notin> bits (allocated r)), r')
      \<and> bits (allocated r') = insert i (bits (allocated r)) \<and> nat (bm_max r') = nat (bm_max r) \<and> bitmap_inv r'"
    if "i < nat (bm_max r)"
    using inv bitmap_take [OF inv that]
    by (cases "i \<in> bits (allocated r)")
      (auto simp: bitmap_ops_def AllocationBitmap_Allocate_def bitmap_swap bits_def [of "allocated r"])
  show "(\<exists>i r'. al_AllocateNext bitmap_ops r = (Inr (Some i), r') \<and> i < nat (bm_max r) \<and> i \<notin> bits (allocated r)
         \<and> bits (allocated r') = insert i (bits (allocated r)) \<and> nat (bm_max r') = nat (bm_max r) \<and> bitmap_inv r')
      \<or> al_AllocateNext bitmap_ops r = (Inr None, r) \<and> bits (allocated r) = {..<nat (bm_max r)}"
  proof (cases "strategy r (allocated r) (bm_max r) (bm_count r)")
    case None
    then show ?thesis using bitmap_full [OF inv None]
      by (simp add: bitmap_ops_def AllocationBitmap_AllocateNext_def)
  next
    case (Some i)
    then have i: "i < nat (bm_max r)" "i \<notin> bits (allocated r)"
      using strategy_ok_Some [OF D(3) Some] by (auto simp: bits_def)
    then show ?thesis using Some bitmap_take [OF inv i]
      by (simp add: bitmap_ops_def AllocationBitmap_AllocateNext_def)
  qed
  show "\<exists>r'. al_Release bitmap_ops i r = (None, r')
      \<and> bits (allocated r') = bits (allocated r) - {i} \<and> nat (bm_max r') = nat (bm_max r) \<and> bitmap_inv r'"
    using inv bitmap_drop [OF inv, of i]
    by (cases "i \<in> bits (allocated r)")
      (auto simp: bitmap_ops_def AllocationBitmap_Release_def bitmap_swap bits_def [of "allocated r"])
  show "al_Has bitmap_ops i r \<longleftrightarrow> i \<in> bits (allocated r)"
    by (simp add: bitmap_ops_def AllocationBitmap_Has_def bits_def)
  show "al_Free bitmap_ops r = int (nat (bm_max r)) - int (card (bits (allocated r)))"
    using D by (simp add: bitmap_ops_def AllocationBitmap_Free_def)
  show "bits (allocated r) \<subseteq> {..<nat (bm_max r)}" by (rule D(2))
qed

section \<open>Snapshots\<close>

text \<open>
  A snapshot restores: the bytes of one map, restored into another of the same range,
  give the same taken offsets and the same count, recounted from the bytes with the table of
  bit counts; a snapshot of another range is refused and changes nothing.
\<close>

theorem bitmap_snapshot_restores:
  assumes "bitmap_inv r" and "AllocationBitmap_Snapshot r = (spec, data)"
    and "strategy_ok (strategy r')" and "bm_max r' = bm_max r"
  shows "(rangeSpec r' = spec \<longrightarrow> (\<exists>r''. AllocationBitmap_Restore spec data r' = (None, r'')
        \<and> allocated r'' = allocated r \<and> bm_count r'' = bm_count r \<and> bitmap_inv r''))
    \<and> (rangeSpec r' \<noteq> spec \<longrightarrow> (\<exists>err. AllocationBitmap_Restore spec data r' = (Some err, r')))"
proof -
  have data: "big_SetBytes data = allocated r"
    using assms(2) by (auto simp: AllocationBitmap_Snapshot_def SetBytes_Bytes)
  then show ?thesis
    using assms(1,3,4) by (simp add: AllocationBitmap_Restore_def countBits_eq bitmap_inv_def)
qed

theorem bitmap_snapshot_restores_witness:
  "\<exists>r''. AllocationBitmap_Restore ''s'' [1] (NewContiguousAllocationMap 8 ''s'') = (None, r'')
    \<and> allocated r'' = 1 \<and> bm_count r'' = 1"
proof -
  define r where "r = snd (AllocationBitmap_Allocate 0 (NewContiguousAllocationMap 8 ''s''))"
  have bit0: "set_bit 0 (0 :: nat) = 1" by (simp add: set_bit_eq_or)
  have r: "r = NewContiguousAllocationMap 8 ''s''\<lparr>bm_count := 1, allocated := 1\<rparr>"
    by (simp add: r_def AllocationBitmap_Allocate_def NewContiguousAllocationMap_def bit0)
  have bits1: "bits 1 = {0}" using bits_simps(2) [of 0 0] bit0 by simp
  have "bitmap_inv r"
    using strategy_ok_contiguous bits1 by (simp add: r bitmap_inv_def NewContiguousAllocationMap_def)
  moreover have "AllocationBitmap_Snapshot r = (''s'', [1])"
    by (simp add: r AllocationBitmap_Snapshot_def NewContiguousAllocationMap_def big_Bytes.simps)
  ultimately show ?thesis
    using bitmap_snapshot_restores [of r "''s''" "[1]" "NewContiguousAllocationMap 8 ''s''"] strategy_ok_contiguous
    by (auto simp: r NewContiguousAllocationMap_def)
qed

text \<open>
  \<^verbatim>\<open>Allocate\<close> of the bitmap does not check the range, though the map counts what it allocates
  against its size: after allocating offset 5 of a map of size 1, the map reports itself full
  and \<^verbatim>\<open>AllocateNext\<close> finds nothing, while offset 0 is free.
\<close>

theorem bitmap_allocate_ignores_range:
  "let (ok, r) = AllocationBitmap_Allocate 5 (NewContiguousAllocationMap 1 ''s'')
   in ok \<and> AllocationBitmap_Free r = 0 \<and> \<not> AllocationBitmap_Has 0 r
      \<and> fst (AllocationBitmap_AllocateNext r) = None"
  by (simp add: AllocationBitmap_Allocate_def NewContiguousAllocationMap_def AllocationBitmap_Free_def
      AllocationBitmap_Has_def AllocationBitmap_AllocateNext_def contiguousScanStrategy_def bit_set_bit_iff)

end
