(* ===== verification/Port_Range.thy ===== *)
theory Port_Range
  imports Strconv
begin

text \<open>
  \<^verbatim>\<open>pkg/util/net/port_range.go\<close>: a range of ports, its text and the parser of that text, which is
  the setter of a command-line flag.
\<close>

section \<open>Port ranges\<close>

record PortRange =
  Base :: int
  Size :: int

definition PortRange_Contains :: "PortRange \<Rightarrow> int \<Rightarrow> bool" where
  "PortRange_Contains pr p \<longleftrightarrow> p \<ge> Base pr \<and> p - Base pr < Size pr"

definition PortRange_String :: "PortRange \<Rightarrow> string" where
  "PortRange_String pr =
     (if Size pr = 0 then '''' else fmt_d (Base pr) @ ''-'' @ fmt_d (Base pr + Size pr - 1))"

datatype port_range_error = ExpectedHyphen | UnableToParsePortRange string | EndBeforeStart string

text \<open>The receiver of \<^verbatim>\<open>Set\<close> is changed only on success.\<close>

definition strings_Index :: "string \<Rightarrow> char \<Rightarrow> nat option" where
  "strings_Index s c = (let n = length (takeWhile (\<lambda>x. x \<noteq> c) s) in if n < length s then Some n else None)"

definition PortRange_Set :: "string \<Rightarrow> PortRange \<Rightarrow> port_range_error option \<times> PortRange" where
  "PortRange_Set value0 pr =
     (let value = strings_TrimSpace value0
      in if value = '''' then (None, pr\<lparr>Base := 0, Size := 0\<rparr>)
         else case strings_Index value (CHR ''-'') of
           None \<Rightarrow> (Some ExpectedHyphen, pr)
         | Some hyphenIndex \<Rightarrow>
             (case (Atoi (take hyphenIndex value), Atoi (drop (hyphenIndex + 1) value)) of
                (Inr low, Inr high) \<Rightarrow>
                  if high < low then (Some (EndBeforeStart value), pr)
                  else (None, pr\<lparr>Base := low, Size := go_int (go_int (1 + high) - low)\<rparr>)
              | _ \<Rightarrow> (Some (UnableToParsePortRange value), pr)))"

definition ParsePortRange :: "string \<Rightarrow> port_range_error + PortRange" where
  "ParsePortRange value =
     (case PortRange_Set value \<lparr>Base = 0, Size = 0\<rparr> of
        (Some err, _) \<Rightarrow> Inl err
      | (None, pr) \<Rightarrow> Inr pr)"

text \<open>\<^verbatim>\<open>None\<close> is the panic.\<close>

definition ParsePortRangeOrDie :: "string \<Rightarrow> PortRange option" where
  "ParsePortRangeOrDie value = (case ParsePortRange value of Inl err \<Rightarrow> None | Inr pr \<Rightarrow> Some pr)"

section \<open>Printing and parsing\<close>

lemma trim_id:
  assumes "s \<noteq> []" and "(of_char (hd s) :: nat) \<in> {48..57}" and "(of_char (last s) :: nat) \<in> {48..57}"
  shows "strings_TrimSpace s = s"
proof -
  have left: "\<not> prefix w s" if "w \<in> set white_space" for w
    using that assms(1,2) by (cases s) (auto simp: white_space_def)
  have right: "\<not> prefix w (rev s)" if "w \<in> set (map rev white_space)" for w
    using that assms(1,3) by (cases "rev s") (auto simp: white_space_def last_rev hd_rev [symmetric])
  have "trim_prefixes (map rev white_space) (rev s) = rev s"
    by (rule trim_prefixes_id) (rule right)
  moreover have "trim_prefixes white_space s = s" by (rule trim_prefixes_id) (rule left)
  ultimately show ?thesis by (simp add: strings_TrimSpace_def)
qed

lemma digits_ends:
  "(of_char (hd (fmt_digits n)) :: nat) \<in> {48..57}" "(of_char (last (fmt_digits n)) :: nat) \<in> {48..57}"
  using digit_byte [of "hd (fmt_digits n)" n] digit_byte [of "last (fmt_digits n)" n] by auto

lemma strings_Index_first: "c \<notin> set s \<Longrightarrow> strings_Index (s @ c # t) c = Some (length s)"
proof -
  assume "c \<notin> set s"
  then have "takeWhile (\<lambda>x. x \<noteq> c) (s @ c # t) = s" by (induction s) auto
  then show ?thesis by (simp add: strings_Index_def)
qed

lemma strings_Index_prefix: "strings_Index s c = Some i \<Longrightarrow> c \<notin> set (take i s)"
  by (auto simp: strings_Index_def takeWhile_eq_take [symmetric] dest: set_takeWhileD split: if_splits)

lemma Atoi_nonneg: "Atoi s = Inr i \<Longrightarrow> CHR ''-'' \<notin> set s \<Longrightarrow> 0 \<le> i"
  by (cases s) (auto simp: Atoi_def split: if_splits sum.splits)

lemma go_int_eq: "go_int i = (i + 2 ^ 63) mod 2 ^ 64 - 2 ^ 63"
  by (simp add: go_int_def signed_take_bit_eq_take_bit_shift take_bit_eq_mod)

lemma go_int_size:
  assumes "0 \<le> low" and "low \<le> high" and "high < 2 ^ 63"
  shows "go_int (go_int (1 + high) - low) = (if low = 0 \<and> high = 2 ^ 63 - 1 then - (2 ^ 63) else high - low + 1)"
proof (cases "high = 2 ^ 63 - 1")
  case True
  have wrap: "go_int (1 + high) = - (2 ^ 63)" using True by (simp add: go_int_eq)
  have "(- low) mod 2 ^ 64 = (if low = 0 then 0 else 2 ^ 64 - low)"
    using assms by (simp add: zmod_zminus1_eq_if)
  then show ?thesis unfolding wrap using True by (simp add: go_int_eq)
next
  case False
  then have "go_int (1 + high) = 1 + high" using assms by (intro go_int_id) simp_all
  then show ?thesis using False assms by (simp add: go_int_id)
qed

lemma PortRange_Set_text:
  assumes "low \<le> high" and "high < 2 ^ 63 - 1"
  shows "PortRange_Set (fmt_digits low @ ''-'' @ fmt_digits high) pr
    = (None, pr\<lparr>Base := int low, Size := 1 + int high - int low\<rparr>)"
proof -
  define s where "s = fmt_digits low @ ''-'' @ fmt_digits high"
  have "s \<noteq> []" "(of_char (hd s) :: nat) \<in> {48..57}" "(of_char (last s) :: nat) \<in> {48..57}"
    using digits_ends by (simp_all add: s_def)
  then have trim: "strings_TrimSpace s = s" by (rule trim_id)
  have idx: "strings_Index s (CHR ''-'') = Some (length (fmt_digits low))"
    using strings_Index_first [OF digits_no_sign(1)] by (simp add: s_def)
  have parts: "Atoi (take (length (fmt_digits low)) s) = Inr (int low)"
    "Atoi (drop (length (fmt_digits low) + 1) s) = Inr (int high)"
    using assms by (simp_all add: s_def Atoi_digits)
  have "go_int (go_int (1 + int high) - int low) = 1 + int high - int low"
    using assms by (simp add: go_int_id)
  then show ?thesis
    unfolding s_def [symmetric] using \<open>s \<noteq> []\<close> trim idx parts assms(1)
    by (simp add: PortRange_Set_def)
qed

text \<open>
  The text of a port range parses back: what \<^verbatim>\<open>String\<close> prints for a range of ports from 0 up,
  \<^verbatim>\<open>Set\<close> and \<^verbatim>\<open>ParsePortRange\<close> read as the same range; the empty range is printed as the empty
  string and read as the range of base and size 0.
\<close>

theorem port_range_roundtrip:
  assumes "0 \<le> Base pr" and "0 \<le> Size pr" and "Base pr + Size pr < 2 ^ 63"
  shows "ParsePortRange (PortRange_String pr)
      = Inr (if Size pr = 0 then \<lparr>Base = 0, Size = 0\<rparr> else \<lparr>Base = Base pr, Size = Size pr\<rparr>)
    \<and> PortRange_Set (PortRange_String pr) old
      = (None, old\<lparr>Base := (if Size pr = 0 then 0 else Base pr), Size := Size pr\<rparr>)"
proof (cases "Size pr = 0")
  case True
  have "strings_TrimSpace [] = []"
    by (simp add: strings_TrimSpace_def trim_prefixes_id)
  then show ?thesis using True by (simp add: PortRange_String_def ParsePortRange_def PortRange_Set_def)
next
  case False
  define low high where "low = nat (Base pr)" and "high = nat (Base pr + Size pr - 1)"
  have lh: "low \<le> high" "high < 2 ^ 63 - 1" "int low = Base pr" "1 + int high - int low = Size pr"
    using assms False by (simp_all add: low_def high_def)
  have "PortRange_String pr = fmt_digits low @ ''-'' @ fmt_digits high"
    using assms False by (simp add: PortRange_String_def fmt_d_def low_def high_def)
  then show ?thesis
    using PortRange_Set_text [OF lh(1,2)] lh(3,4) False by (simp add: ParsePortRange_def)
qed

theorem port_range_roundtrip_witness:
  "ParsePortRange (PortRange_String \<lparr>Base = 30000, Size = 2768\<rparr>) = Inr \<lparr>Base = 30000, Size = 2768\<rparr>"
  using port_range_roundtrip [of "\<lparr>Base = 30000, Size = 2768\<rparr>" "\<lparr>Base = 0, Size = 0\<rparr>"] by simp

text \<open>
  What \<^verbatim>\<open>Set\<close> accepts: either the flag is blank and the range empty, or no port is negative
  and the size counts the ports from the first number to the last.  The one exception is the
  range of all non-negative \<^verbatim>\<open>int\<close> values, whose size wraps around to the smallest one, so that it
  contains no port.  On an error the receiver is unchanged.
\<close>

theorem port_range_bounds:
  assumes "PortRange_Set value pr = (err, pr')"
  shows "(err \<noteq> None \<longrightarrow> pr' = pr)
    \<and> (err = None \<longrightarrow> Base pr' = 0 \<and> Size pr' = 0
         \<or> (\<exists>high. 0 \<le> Base pr' \<and> Base pr' \<le> high \<and> high < 2 ^ 63
              \<and> (if Base pr' = 0 \<and> high = 2 ^ 63 - 1 then Size pr' = - (2 ^ 63)
                 else Size pr' = high - Base pr' + 1 \<and> 0 < Size pr' \<and> Size pr' < 2 ^ 63)))"
proof -
  define s where "s = strings_TrimSpace value"
  show ?thesis
  proof (cases "s = [] \<or> err \<noteq> None")
    case True
    then show ?thesis using assms
      by (auto simp: PortRange_Set_def s_def [symmetric] split: option.splits sum.splits if_splits)
  next
    case False
    then obtain i low high where i: "strings_Index s (CHR ''-'') = Some i"
      and low: "Atoi (take i s) = Inr low" and high: "Atoi (drop (i + 1) s) = Inr high" and le: "low \<le> high"
      and pr': "pr' = pr\<lparr>Base := low, Size := go_int (go_int (1 + high) - low)\<rparr>"
      using assms by (auto simp: PortRange_Set_def s_def [symmetric] split: option.splits sum.splits if_splits)
    have "0 \<le> low" by (rule Atoi_nonneg [OF low strings_Index_prefix [OF i]])
    moreover have "high < 2 ^ 63" using Atoi_bounds [OF high] by blast
    moreover have "go_int (go_int (1 + high) - low) = (if low = 0 \<and> high = 2 ^ 63 - 1 then - (2 ^ 63) else high - low + 1)"
      using go_int_size [OF \<open>0 \<le> low\<close> le \<open>high < 2 ^ 63\<close>] .
    ultimately show ?thesis using False le pr' by (intro conjI impI disjI2 exI [of _ high]) auto
  qed
qed

theorem port_range_bounds_witness:
  "\<exists>pr' high. PortRange_Set (fmt_digits 80 @ ''-'' @ fmt_digits 90) \<lparr>Base = 1, Size = 1\<rparr> = (None, pr')
     \<and> Base pr' = 80 \<and> Size pr' = high - 80 + 1"
  using port_range_bounds [OF PortRange_Set_text [of 80 90 "\<lparr>Base = 1, Size = 1\<rparr>"]]
    PortRange_Set_text [of 80 90 "\<lparr>Base = 1, Size = 1\<rparr>"] by auto

end
