(* ===== verification/Port_Allocator.thy ===== *)
theory Port_Allocator
  imports Allocator_Interface Port_Range
begin

text \<open>
  \<^verbatim>\<open>pkg/registry/service/portallocator\<close>: node ports out of a range, and the
  operation that undoes its allocations unless it is committed.  The port allocator works on any \<^verbatim>\<open>allocator.Interface\<close>, given by its operations; the verification is in
  the locale of that interface and applied to the bitmap.
\<close>

section \<open>The port allocator\<close>

datatype port_error =
    PortErrFull | PortErrNotInRange | PortErrAllocated | PortErrMismatchedNetwork | PortErrBackend go_error

record 's PortAllocator =
  portRange :: PortRange
  pa_alloc :: 's

definition NewPortAllocatorCustom :: "PortRange \<Rightarrow> (int \<Rightarrow> string \<Rightarrow> 's) \<Rightarrow> 's PortAllocator" where
  "NewPortAllocatorCustom pr allocatorFactory =
     \<lparr>portRange = pr, pa_alloc = allocatorFactory (Size pr) (PortRange_String pr)\<rparr>"

definition NewPortAllocator :: "(int \<Rightarrow> nat) \<Rightarrow> PortRange \<Rightarrow> AllocationBitmap PortAllocator" where
  "NewPortAllocator rnd pr = NewPortAllocatorCustom pr (NewAllocationMap rnd)"

definition PortAllocator_Free :: "'s allocator_ops \<Rightarrow> 's PortAllocator \<Rightarrow> int" where
  "PortAllocator_Free ops r = al_Free ops (pa_alloc r)"

text \<open>\<^verbatim>\<open>contains\<close>: the offset of a port of the range.\<close>

definition PortAllocator_contains :: "'s PortAllocator \<Rightarrow> int \<Rightarrow> nat option" where
  "PortAllocator_contains r port =
     (if \<not> PortRange_Contains (portRange r) port then None else Some (nat (port - Base (portRange r))))"

definition PortAllocator_Allocate ::
  "'s allocator_ops \<Rightarrow> int \<Rightarrow> 's PortAllocator \<Rightarrow> port_error option \<times> 's PortAllocator" where
  "PortAllocator_Allocate ops port r =
     (case PortAllocator_contains r port of
        None \<Rightarrow> (Some PortErrNotInRange, r)
      | Some offset \<Rightarrow>
          (case al_Allocate ops offset (pa_alloc r) of
             (res, a) \<Rightarrow> (case res of Inl err \<Rightarrow> Some (PortErrBackend err)
                | Inr ok \<Rightarrow> if \<not> ok then Some PortErrAllocated else None, r\<lparr>pa_alloc := a\<rparr>)))"

definition PortAllocator_AllocateNext ::
  "'s allocator_ops \<Rightarrow> 's PortAllocator \<Rightarrow> (port_error + int) \<times> 's PortAllocator" where
  "PortAllocator_AllocateNext ops r =
     (case al_AllocateNext ops (pa_alloc r) of
        (res, a) \<Rightarrow> (case res of
            Inl err \<Rightarrow> Inl (PortErrBackend err)
          | Inr None \<Rightarrow> Inl PortErrFull
          | Inr (Some offset) \<Rightarrow> Inr (Base (portRange r) + int offset), r\<lparr>pa_alloc := a\<rparr>))"

definition PortAllocator_Release ::
  "'s allocator_ops \<Rightarrow> int \<Rightarrow> 's PortAllocator \<Rightarrow> port_error option \<times> 's PortAllocator" where
  "PortAllocator_Release ops port r =
     (case PortAllocator_contains r port of
        None \<Rightarrow> (None, r)
      | Some offset \<Rightarrow>
          (case al_Release ops offset (pa_alloc r) of
             (err, a) \<Rightarrow> (map_option PortErrBackend err, r\<lparr>pa_alloc := a\<rparr>)))"

definition PortAllocator_Has :: "'s allocator_ops \<Rightarrow> int \<Rightarrow> 's PortAllocator \<Rightarrow> bool" where
  "PortAllocator_Has ops port r =
     (case PortAllocator_contains r port of None \<Rightarrow> False | Some offset \<Rightarrow> al_Has ops offset (pa_alloc r))"

definition PortAllocator_Snapshot :: "'s allocator_ops \<Rightarrow> 's PortAllocator \<Rightarrow> string \<times> nat list" where
  "PortAllocator_Snapshot ops r = al_Snapshot ops (pa_alloc r)"

definition PortAllocator_Restore ::
  "'s allocator_ops \<Rightarrow> PortRange \<Rightarrow> nat list \<Rightarrow> 's PortAllocator \<Rightarrow> port_error option \<times> 's PortAllocator" where
  "PortAllocator_Restore ops pr data r =
     (if PortRange_String pr \<noteq> PortRange_String (portRange r) then (Some PortErrMismatchedNetwork, r)
      else case al_Restore ops (PortRange_String pr) data (pa_alloc r) of
             (err, a) \<Rightarrow> (map_option PortErrBackend err, r\<lparr>pa_alloc := a\<rparr>))"

section \<open>Operations\<close>

record 's portAllocationOperation =
  pa :: "'s PortAllocator"
  op_allocated :: "int list"
  releaseDeferred :: "int list"
  shouldRollback :: bool

definition StartOperation :: "'s PortAllocator \<Rightarrow> 's portAllocationOperation" where
  "StartOperation r = \<lparr>pa = r, op_allocated = [], releaseDeferred = [], shouldRollback = True\<rparr>"

text \<open>The loop that releases ports and collects the errors.\<close>

fun releaseAll ::
  "'s allocator_ops \<Rightarrow> int list \<Rightarrow> port_error list \<Rightarrow> 's PortAllocator \<Rightarrow> port_error list \<times> 's PortAllocator" where
  "releaseAll ops [] errs r = (errs, r)"
| "releaseAll ops (port # ports) errs r =
     (case PortAllocator_Release ops port r of
        (err, r) \<Rightarrow> releaseAll ops ports (case err of None \<Rightarrow> errs | Some e \<Rightarrow> errs @ [e]) r)"

definition op_Rollback ::
  "'s allocator_ops \<Rightarrow> 's portAllocationOperation \<Rightarrow> port_error list \<times> 's portAllocationOperation" where
  "op_Rollback ops op = (case releaseAll ops (op_allocated op) [] (pa op) of (errs, r) \<Rightarrow> (errs, op\<lparr>pa := r\<rparr>))"

definition op_Finish :: "'s allocator_ops \<Rightarrow> 's portAllocationOperation \<Rightarrow> 's portAllocationOperation" where
  "op_Finish ops op = (if shouldRollback op then snd (op_Rollback ops op) else op)"

definition op_Commit ::
  "'s allocator_ops \<Rightarrow> 's portAllocationOperation \<Rightarrow> port_error list \<times> 's portAllocationOperation" where
  "op_Commit ops op =
     (case releaseAll ops (releaseDeferred op) [] (pa op) of
        (errs, r) \<Rightarrow> (errs, op\<lparr>pa := r, shouldRollback := False\<rparr>))"

definition op_Allocate ::
  "'s allocator_ops \<Rightarrow> int \<Rightarrow> 's portAllocationOperation \<Rightarrow> port_error option \<times> 's portAllocationOperation" where
  "op_Allocate ops port op =
     (case PortAllocator_Allocate ops port (pa op) of
        (err, r) \<Rightarrow> (err, let op = op\<lparr>pa := r\<rparr>
           in if err = None then op\<lparr>op_allocated := op_allocated op @ [port]\<rparr> else op))"

definition op_AllocateNext ::
  "'s allocator_ops \<Rightarrow> 's portAllocationOperation \<Rightarrow> (port_error + int) \<times> 's portAllocationOperation" where
  "op_AllocateNext ops op =
     (case PortAllocator_AllocateNext ops (pa op) of
        (res, r) \<Rightarrow> (res, let op = op\<lparr>pa := r\<rparr>
           in case res of Inl _ \<Rightarrow> op | Inr port \<Rightarrow> op\<lparr>op_allocated := op_allocated op @ [port]\<rparr>))"

definition op_ReleaseDeferred :: "int \<Rightarrow> 's portAllocationOperation \<Rightarrow> 's portAllocationOperation" where
  "op_ReleaseDeferred port op = op\<lparr>releaseDeferred := releaseDeferred op @ [port]\<rparr>"

section \<open>Ports over any allocator\<close>

definition port_set :: "PortRange \<Rightarrow> int set" where
  "port_set pr = {Base pr..<Base pr + Size pr}"

definition ports_of :: "('s \<Rightarrow> nat set) \<Rightarrow> 's PortAllocator \<Rightarrow> int set" where
  "ports_of tk r = (\<lambda>i. Base (portRange r) + int i) ` tk (pa_alloc r)"

definition pa_inv :: "('s \<Rightarrow> nat) \<Rightarrow> ('s \<Rightarrow> bool) \<Rightarrow> 's PortAllocator \<Rightarrow> bool" where
  "pa_inv size_of ok r \<longleftrightarrow> ok (pa_alloc r) \<and> Size (portRange r) = int (size_of (pa_alloc r))"

lemma contains_Some:
  "port \<in> port_set (portRange r) \<Longrightarrow> PortAllocator_contains r port = Some (nat (port - Base (portRange r)))"
  by (simp add: PortAllocator_contains_def PortRange_Contains_def port_set_def)

lemma contains_None: "port \<notin> port_set (portRange r) \<Longrightarrow> PortAllocator_contains r port = None"
  by (auto simp: PortAllocator_contains_def PortRange_Contains_def port_set_def)

lemma ports_of_mem:
  "Base (portRange r) \<le> port \<Longrightarrow> port \<in> ports_of tk r \<longleftrightarrow> nat (port - Base (portRange r)) \<in> tk (pa_alloc r)"
  by (auto simp: ports_of_def image_iff intro!: bexI [of _ "nat (port - Base (portRange r))"])

context allocator
begin

abbreviation "ports \<equiv> ports_of taken"
abbreviation "pinv \<equiv> pa_inv sz invar"

lemma port_offset:
  assumes "pinv r" and "port \<in> port_set (portRange r)"
  shows "nat (port - Base (portRange r)) < sz (pa_alloc r)"
    and "Base (portRange r) + int (nat (port - Base (portRange r))) = port"
  using assms by (auto simp: pa_inv_def port_set_def)

lemma ports_in_range: "pinv r \<Longrightarrow> ports r \<subseteq> port_set (portRange r)"
  using in_size [of "pa_alloc r"] by (auto simp: pa_inv_def ports_of_def port_set_def)

lemma port_allocate:
  assumes "pinv r"
  shows "\<exists>r'. PortAllocator_Allocate ops port r =
      (if port \<notin> port_set (portRange r) then Some PortErrNotInRange
       else if port \<in> ports r then Some PortErrAllocated else None, r')
    \<and> pinv r' \<and> portRange r' = portRange r
    \<and> ports r' = (if port \<in> port_set (portRange r) then insert port (ports r) else ports r)"
proof (cases "port \<in> port_set (portRange r)")
  case False
  then show ?thesis using assms by (simp add: PortAllocator_Allocate_def contains_None)
next
  case True
  let ?i = "nat (port - Base (portRange r))"
  note off = port_offset [OF assms True]
  obtain a where a: "al_Allocate ops ?i (pa_alloc r) = (Inr (?i \<notin> taken (pa_alloc r)), a)"
    "taken a = insert ?i (taken (pa_alloc r))" "sz a = sz (pa_alloc r)" "invar a"
    using allocate [OF _ off(1)] assms by (auto simp: pa_inv_def)
  have "port \<in> ports r \<longleftrightarrow> ?i \<in> taken (pa_alloc r)"
    using True by (intro ports_of_mem) (simp add: port_set_def)
  then show ?thesis
    using True a assms off(2)
    by (auto simp: PortAllocator_Allocate_def contains_Some pa_inv_def ports_of_def)
qed

lemma port_allocate_next:
  assumes "pinv r"
  shows "(\<exists>port r'. PortAllocator_AllocateNext ops r = (Inr port, r') \<and> port \<in> port_set (portRange r)
      \<and> port \<notin> ports r \<and> pinv r' \<and> portRange r' = portRange r \<and> ports r' = insert port (ports r))
    \<or> PortAllocator_AllocateNext ops r = (Inl PortErrFull, r) \<and> ports r = port_set (portRange r)"
proof -
  have inv: "invar (pa_alloc r)" "Size (portRange r) = int (sz (pa_alloc r))" using assms by (auto simp: pa_inv_def)
  from allocate_next [OF inv(1)] show ?thesis
  proof
    assume "\<exists>i s'. al_AllocateNext ops (pa_alloc r) = (Inr (Some i), s') \<and> i < sz (pa_alloc r) \<and> i \<notin> taken (pa_alloc r)
         \<and> taken s' = insert i (taken (pa_alloc r)) \<and> sz s' = sz (pa_alloc r) \<and> invar s'"
    then obtain i a where a: "al_AllocateNext ops (pa_alloc r) = (Inr (Some i), a)" "i < sz (pa_alloc r)"
      "i \<notin> taken (pa_alloc r)" "taken a = insert i (taken (pa_alloc r))" "sz a = sz (pa_alloc r)" "invar a" by blast
    have "PortAllocator_AllocateNext ops r = (Inr (Base (portRange r) + int i), r\<lparr>pa_alloc := a\<rparr>)"
      using a(1) by (simp add: PortAllocator_AllocateNext_def)
    then show ?thesis using a inv by (auto simp: pa_inv_def ports_of_def port_set_def)
  next
    assume full: "al_AllocateNext ops (pa_alloc r) = (Inr None, pa_alloc r) \<and> taken (pa_alloc r) = {..<sz (pa_alloc r)}"
    have "(\<lambda>i. Base (portRange r) + int i) ` {..<sz (pa_alloc r)} = port_set (portRange r)"
    proof
      show "port_set (portRange r) \<subseteq> (\<lambda>i. Base (portRange r) + int i) ` {..<sz (pa_alloc r)}"
      proof
        fix p
        assume "p \<in> port_set (portRange r)"
        from port_offset [OF assms this] show "p \<in> (\<lambda>i. Base (portRange r) + int i) ` {..<sz (pa_alloc r)}"
          by (intro image_eqI [of _ _ "nat (p - Base (portRange r))"]) auto
      qed
    qed (use inv in \<open>auto simp: port_set_def\<close>)
    then show ?thesis using full by (simp add: PortAllocator_AllocateNext_def ports_of_def)
  qed
qed

lemma port_release:
  assumes "pinv r"
  shows "\<exists>r'. PortAllocator_Release ops port r = (None, r') \<and> pinv r' \<and> portRange r' = portRange r
    \<and> ports r' = ports r - {port}"
proof (cases "port \<in> port_set (portRange r)")
  case False
  then show ?thesis using assms ports_in_range [OF assms]
    by (auto simp: PortAllocator_Release_def contains_None)
next
  case True
  let ?i = "nat (port - Base (portRange r))"
  note off = port_offset [OF assms True]
  obtain a where a: "al_Release ops ?i (pa_alloc r) = (None, a)"
    "taken a = taken (pa_alloc r) - {?i}" "sz a = sz (pa_alloc r)" "invar a"
    using release [OF _ off(1)] assms by (auto simp: pa_inv_def)
  have "(\<lambda>i. Base (portRange r) + int i) ` (taken (pa_alloc r) - {?i}) = ports r - {port}"
    using off(2) by (auto simp: ports_of_def)
  then show ?thesis using a assms True
    by (simp add: PortAllocator_Release_def contains_Some pa_inv_def ports_of_def)
qed

lemma port_has: "pinv r \<Longrightarrow> PortAllocator_Has ops port r \<longleftrightarrow> port \<in> ports r"
  using ports_of_mem [of r port taken] ports_in_range [of r]
  by (cases "port \<in> port_set (portRange r)")
    (auto simp: PortAllocator_Has_def contains_Some contains_None has pa_inv_def port_set_def)

lemma port_free: "pinv r \<Longrightarrow> PortAllocator_Free ops r = Size (portRange r) - int (card (ports r))"
  by (simp add: PortAllocator_Free_def free pa_inv_def ports_of_def card_image inj_on_def)

end

section \<open>Rollback and commit\<close>

datatype op_step = AllocateStep int | AllocateNextStep | ReleaseDeferredStep int

fun run_step :: "'s allocator_ops \<Rightarrow> op_step \<Rightarrow> 's portAllocationOperation \<Rightarrow> 's portAllocationOperation" where
  "run_step ops (AllocateStep port) op = snd (op_Allocate ops port op)"
| "run_step ops AllocateNextStep op = snd (op_AllocateNext ops op)"
| "run_step ops (ReleaseDeferredStep port) op = op_ReleaseDeferred port op"

context allocator
begin

text \<open>What an operation that started from the ports \<open>P\<close> keeps true.\<close>

definition op_inv :: "int set \<Rightarrow> 's portAllocationOperation \<Rightarrow> bool" where
  "op_inv P op \<longleftrightarrow> pinv (pa op) \<and> ports (pa op) = P \<union> set (op_allocated op)
     \<and> P \<inter> set (op_allocated op) = {} \<and> shouldRollback op"

lemma op_inv_start: "pinv r \<Longrightarrow> op_inv (ports r) (StartOperation r)"
  by (simp add: op_inv_def StartOperation_def)

lemma op_inv_allocate: "op_inv P op \<Longrightarrow> op_inv P (snd (op_Allocate ops port op))"
proof -
  assume op: "op_inv P op"
  then obtain r' where r': "PortAllocator_Allocate ops port (pa op) =
      (if port \<notin> port_set (portRange (pa op)) then Some PortErrNotInRange
       else if port \<in> ports (pa op) then Some PortErrAllocated else None, r')" "pinv r'"
    "ports r' = (if port \<in> port_set (portRange (pa op)) then insert port (ports (pa op)) else ports (pa op))"
    using port_allocate [of "pa op" port] by (auto simp: op_inv_def)
  then show ?thesis using op
    by (cases "port \<in> port_set (portRange (pa op))"; cases "port \<in> ports (pa op)")
      (auto simp: op_inv_def op_Allocate_def insert_absorb)
qed

lemma op_inv_allocate_next: "op_inv P op \<Longrightarrow> op_inv P (snd (op_AllocateNext ops op))"
  using port_allocate_next [of "pa op"] by (auto simp: op_inv_def op_AllocateNext_def)

lemma op_inv_step: "op_inv P op \<Longrightarrow> op_inv P (run_step ops step op)"
  by (cases step) (simp_all add: op_inv_allocate op_inv_allocate_next, simp add: op_inv_def op_ReleaseDeferred_def)

lemma op_inv_steps: "op_inv P op \<Longrightarrow> op_inv P (fold (run_step ops) steps op)"
  by (induction steps arbitrary: op) (simp_all add: op_inv_step)

lemma releaseAll_ports:
  "pinv r \<Longrightarrow> \<exists>r'. releaseAll ops ps errs r = (errs, r') \<and> pinv r' \<and> ports r' = ports r - set ps"
proof (induction ps arbitrary: r)
  case (Cons p ps)
  obtain r1 where r1: "PortAllocator_Release ops p r = (None, r1)" "pinv r1" "ports r1 = ports r - {p}"
    using port_release [OF Cons.prems] by blast
  from Cons.IH [OF r1(2)] show ?case using r1(1,3) by auto
qed simp

lemma rollback_restores:
  assumes "op_inv P op"
  shows "fst (op_Rollback ops op) = [] \<and> ports (pa (op_Finish ops op)) = P"
proof -
  obtain r' where "releaseAll ops (op_allocated op) [] (pa op) = ([], r')"
    "ports r' = ports (pa op) - set (op_allocated op)"
    using releaseAll_ports [of "pa op" "op_allocated op" "[]"] assms by (auto simp: op_inv_def)
  then show ?thesis using assms by (auto simp: op_inv_def op_Rollback_def op_Finish_def)
qed

lemma commit_keeps:
  assumes "op_inv P op"
  shows "fst (op_Commit ops op) = []
    \<and> ports (pa (op_Finish ops (snd (op_Commit ops op)))) = (P \<union> set (op_allocated op)) - set (releaseDeferred op)"
proof -
  obtain r' where "releaseAll ops (releaseDeferred op) [] (pa op) = ([], r')"
    "ports r' = ports (pa op) - set (releaseDeferred op)"
    using releaseAll_ports [of "pa op" "releaseDeferred op" "[]"] assms by (auto simp: op_inv_def)
  then show ?thesis using assms by (simp add: op_inv_def op_Commit_def op_Finish_def)
qed

end

section \<open>Node ports on the bitmap\<close>

abbreviation taken_ports :: "AllocationBitmap PortAllocator \<Rightarrow> int set" where
  "taken_ports \<equiv> ports_of (\<lambda>a. bits (allocated a))"

abbreviation port_inv :: "AllocationBitmap PortAllocator \<Rightarrow> bool" where
  "port_inv \<equiv> pa_inv (\<lambda>a. nat (bm_max a)) bitmap_inv"

lemma port_inv_New: "0 \<le> Size pr \<Longrightarrow> port_inv (NewPortAllocator rnd pr)"
  using bitmap_inv_New(1) [of "Size pr"]
  by (simp add: pa_inv_def NewPortAllocator_def NewPortAllocatorCustom_def) (simp add: NewAllocationMap_def)

lemma taken_ports_New: "taken_ports (NewPortAllocator rnd pr) = {}"
  by (simp add: ports_of_def NewPortAllocator_def NewPortAllocatorCustom_def NewAllocationMap_def)

text \<open>
  C21: No port is handed out twice or outside the range: \<^verbatim>\<open>Allocate\<close> succeeds exactly on a port of
  the range that is not taken, and its error says which; \<^verbatim>\<open>AllocateNext\<close>, whatever the random
  start, gives a free port of the range as long as there is one; \<^verbatim>\<open>Release\<close> frees just its port;
  \<^verbatim>\<open>Has\<close> and \<^verbatim>\<open>Free\<close> agree with that; and the invariant holds after each.
\<close>

theorem port_allocator_contract:
  assumes "port_inv r"
  shows "(\<exists>r'. PortAllocator_Allocate bitmap_ops port r =
        (if port \<notin> port_set (portRange r) then Some PortErrNotInRange
         else if port \<in> taken_ports r then Some PortErrAllocated else None, r')
      \<and> port_inv r' \<and> portRange r' = portRange r
      \<and> taken_ports r' = (if port \<in> port_set (portRange r) then insert port (taken_ports r) else taken_ports r))
    \<and> ((\<exists>p r'. PortAllocator_AllocateNext bitmap_ops r = (Inr p, r') \<and> p \<in> port_set (portRange r)
          \<and> p \<notin> taken_ports r \<and> port_inv r' \<and> portRange r' = portRange r
          \<and> taken_ports r' = insert p (taken_ports r))
       \<or> PortAllocator_AllocateNext bitmap_ops r = (Inl PortErrFull, r) \<and> taken_ports r = port_set (portRange r))
    \<and> (\<exists>r'. PortAllocator_Release bitmap_ops port r = (None, r') \<and> port_inv r' \<and> portRange r' = portRange r
      \<and> taken_ports r' = taken_ports r - {port})
    \<and> (PortAllocator_Has bitmap_ops port r \<longleftrightarrow> port \<in> taken_ports r)
    \<and> PortAllocator_Free bitmap_ops r = Size (portRange r) - int (card (taken_ports r))"
  by (intro conjI bitmap.port_allocate bitmap.port_allocate_next bitmap.port_release bitmap.port_has
      bitmap.port_free assms)

theorem port_allocator_contract_witness:
  "fst (PortAllocator_Allocate bitmap_ops 30000 (NewPortAllocator (\<lambda>_. 0) \<lparr>Base = 30000, Size = 10\<rparr>)) = None"
proof -
  define r where "r = NewPortAllocator (\<lambda>_. 0) \<lparr>Base = 30000, Size = 10\<rparr>"
  have "port_inv r" and tk: "taken_ports r = {}"
    unfolding r_def by (rule port_inv_New, simp) (rule taken_ports_New)
  moreover have "30000 \<in> port_set (portRange r)"
    by (simp add: r_def NewPortAllocator_def NewPortAllocatorCustom_def port_set_def)
  ultimately show ?thesis
    using port_allocator_contract [of r 30000] unfolding r_def [symmetric] by auto
qed

text \<open>
  C30: A port operation that is not committed leaves no trace: after any sequence of
  \<^verbatim>\<open>Allocate\<close>, \<^verbatim>\<open>AllocateNext\<close> and \<^verbatim>\<open>ReleaseDeferred\<close>, failed ones included, \<^verbatim>\<open>Finish\<close> restores exactly
  the ports that were taken at the start.  A committed one keeps its allocations and releases
  the deferred ports, and \<^verbatim>\<open>Finish\<close> changes nothing more.
\<close>

theorem port_operation_rolls_back:
  assumes "port_inv r" and "op = fold (run_step bitmap_ops) steps (StartOperation r)"
  shows "taken_ports (pa (op_Finish bitmap_ops op)) = taken_ports r
    \<and> taken_ports (pa (op_Finish bitmap_ops (snd (op_Commit bitmap_ops op))))
        = (taken_ports r \<union> set (op_allocated op)) - set (releaseDeferred op)"
proof -
  have "bitmap.op_inv (taken_ports r) op"
    unfolding assms(2) by (rule bitmap.op_inv_steps [OF bitmap.op_inv_start [OF assms(1)]])
  then show ?thesis using bitmap.rollback_restores bitmap.commit_keeps by blast
qed

theorem port_operation_rolls_back_witness:
  "taken_ports (pa (op_Finish bitmap_ops (fold (run_step bitmap_ops) [AllocateStep 30000, AllocateNextStep]
     (StartOperation (NewPortAllocator (\<lambda>_. 0) \<lparr>Base = 30000, Size = 10\<rparr>))))) = {}"
  using port_operation_rolls_back [OF port_inv_New refl, of "\<lparr>Base = 30000, Size = 10\<rparr>"
      "[AllocateStep 30000, AllocateNextStep]" "\<lambda>_. 0"] taken_ports_New by simp

text \<open>
  The comment on \<^verbatim>\<open>Allocate\<close> promises \<^verbatim>\<open>ErrFull\<close> when no ports are left.  \<^verbatim>\<open>Allocate\<close> never returns
  it, whatever the allocator behind it does.
\<close>

theorem port_allocate_never_full: "fst (PortAllocator_Allocate ops port r) \<noteq> Some PortErrFull"
  by (auto simp: PortAllocator_Allocate_def split: option.split prod.split sum.split)

end
