(* ===== verification/Net_IP.thy ===== *)
theory Net_IP
  imports Allocator Strconv
begin

text \<open>
  What the modelled code uses of Go's \<^verbatim>\<open>net\<close>: addresses, masks and networks.  An address is a
  list of bytes, of length 4 or 16 when it is valid; \<^verbatim>\<open>nil\<close> is the empty list.
\<close>

unbundle bit_operations_syntax

section \<open>Addresses\<close>

type_synonym net_IP = "nat list"

definition To4 :: "net_IP \<Rightarrow> net_IP option" where
  "To4 ip =
     (if length ip = 4 then Some ip
      else if length ip = 16 \<and> take 12 ip = replicate 10 0 @ [255, 255] then Some (drop 12 ip)
      else None)"

definition To16 :: "net_IP \<Rightarrow> net_IP option" where
  "To16 ip =
     (if length ip = 4 then Some (replicate 10 0 @ [255, 255] @ ip)
      else if length ip = 16 then Some ip
      else None)"

definition IP_Equal :: "net_IP \<Rightarrow> net_IP \<Rightarrow> bool" where
  "IP_Equal ip x =
     (if length ip = length x then ip = x
      else if length ip = 4 \<and> length x = 16 then take 12 x = replicate 10 0 @ [255, 255] \<and> ip = drop 12 x
      else if length ip = 16 \<and> length x = 4 then take 12 ip = replicate 10 0 @ [255, 255] \<and> drop 12 ip = x
      else False)"

section \<open>Masks\<close>

text \<open>The leading ones of a byte and what is left when they are shifted out.\<close>

function leading_ones :: "nat \<Rightarrow> nat \<Rightarrow> nat \<times> nat" where
  "leading_ones v n = (if 128 \<le> v \<and> v < 256 then leading_ones ((2 * v) mod 256) (n + 1) else (n, v))"
  by pat_completeness auto
termination
proof (relation "measure fst")
  fix v n :: nat
  assume "128 \<le> v \<and> v < 256"
  moreover from this have "(2 * v) mod 256 = 2 * v - 256"
    by (subst le_mod_geq, simp, intro mod_less, linarith)
  ultimately show "(((2 * v) mod 256, n + 1), v, n) \<in> measure fst" by (simp only: in_measure fst_conv) linarith
qed simp

declare leading_ones.simps [simp del]

text \<open>\<^verbatim>\<open>None\<close> is -1: the mask is not a number of ones followed by zeros.\<close>

fun simpleMaskLength :: "nat list \<Rightarrow> nat option" where
  "simpleMaskLength [] = Some 0"
| "simpleMaskLength (v # vs) =
     (if v = 255 then map_option (\<lambda>n. 8 + n) (simpleMaskLength vs)
      else case leading_ones v 0 of
        (n, rest) \<Rightarrow> if rest \<noteq> 0 then None else if \<exists>b \<in> set vs. b \<noteq> 0 then None else Some n)"

definition Mask_Size :: "nat list \<Rightarrow> nat \<times> nat" where
  "Mask_Size m = (case simpleMaskLength m of Some ones \<Rightarrow> (ones, 8 * length m) | None \<Rightarrow> (0, 0))"

section \<open>Networks\<close>

record IPNet =
  net_ip :: net_IP
  net_mask :: "nat list"

definition networkNumberAndMask :: "IPNet \<Rightarrow> (net_IP \<times> nat list) option" where
  "networkNumberAndMask n =
     (let ip = (case To4 (net_ip n) of Some ip \<Rightarrow> Some ip
                | None \<Rightarrow> if length (net_ip n) = 16 then Some (net_ip n) else None);
          m = net_mask n
      in case ip of
           None \<Rightarrow> None
         | Some ip \<Rightarrow>
             if length m = 4 then (if length ip \<noteq> 4 then None else Some (ip, m))
             else if length m = 16 then Some (ip, if length ip = 4 then drop 12 m else m)
             else None)"

definition IPNet_Contains :: "IPNet \<Rightarrow> net_IP \<Rightarrow> bool" where
  "IPNet_Contains n ip0 =
     (let (nn, m) = (case networkNumberAndMask n of None \<Rightarrow> ([], []) | Some p \<Rightarrow> p);
          ip = (case To4 ip0 of Some x \<Rightarrow> x | None \<Rightarrow> ip0)
      in if length ip \<noteq> length nn then False
         else list_all (\<lambda>(x, y, z). (x AND z) = (y AND z)) (zip nn (zip ip m)))"

section \<open>Printing\<close>

definition hexDigit :: "nat \<Rightarrow> char" where
  "hexDigit d = ''0123456789abcdef'' ! (d mod 16)"

text \<open>\<^verbatim>\<open>hexString\<close>: two digits for each byte.\<close>

definition hexString :: "nat list \<Rightarrow> string" where
  "hexString bs = concat (map (\<lambda>b. [hexDigit (b div 16), hexDigit b]) bs)"

definition IPMask_String :: "nat list \<Rightarrow> string" where
  "IPMask_String m = (if m = [] then ''<nil>'' else hexString m)"

text \<open>\<^verbatim>\<open>appendHex\<close>: a 16-bit field without leading zeros.\<close>

definition appendHex :: "nat \<Rightarrow> string" where
  "appendHex i =
     (let ds = dropWhile (\<lambda>d. d = CHR ''0'') [hexDigit (i div 4096), hexDigit (i div 256), hexDigit (i div 16)]
      in ds @ [hexDigit i])"

text \<open>The eight fields of a 16-byte address, and the number of zero fields at the front.\<close>

fun ip_fields :: "net_IP \<Rightarrow> nat list" where
  "ip_fields (a # b # bs) = (a * 256 + b) # ip_fields bs"
| "ip_fields _ = []"

definition zero_run :: "nat list \<Rightarrow> nat" where
  "zero_run fs = length (takeWhile (\<lambda>f. f = 0) fs)"

text \<open>
  The search for the longest run of zero fields: \<open>i\<close> is the position, \<open>(e0, len)\<close> the best run so
  far.  After a run that is taken the search goes on behind the field that ended it.
\<close>

function longest_zeros :: "nat list \<Rightarrow> nat \<Rightarrow> nat \<times> nat \<Rightarrow> nat \<times> nat" where
  "longest_zeros fs i best =
     (if i < length fs
      then let run = zero_run (drop i fs)
           in if run > snd best then longest_zeros fs (i + run + 1) (i, run)
              else longest_zeros fs (i + 1) best
      else best)"
  by pat_completeness auto
termination by (relation "measure (\<lambda>(fs, i, best). length fs - i)") auto

declare longest_zeros.simps [simp del]

definition IP_String :: "net_IP \<Rightarrow> string" where
  "IP_String ip =
     (if ip = [] then ''<nil>''
      else case To4 ip of
        Some p4 \<Rightarrow> strings_Join (map fmt_digits p4) ''.''
      | None \<Rightarrow>
          if length ip \<noteq> 16 then ''?''
          else let fs = map appendHex (ip_fields ip); (e0, len) = longest_zeros (ip_fields ip) 0 (0, 0)
               in if len \<le> 1 then strings_Join fs '':''
                  else strings_Join (take e0 fs) '':'' @ ''::'' @ strings_Join (drop (e0 + len) fs) '':'')"

definition IPNet_String :: "IPNet \<Rightarrow> string" where
  "IPNet_String n =
     (case networkNumberAndMask n of
        None \<Rightarrow> ''<nil>''
      | Some (nn, m) \<Rightarrow>
          IP_String nn @ ''/'' @ (case simpleMaskLength m of None \<Rightarrow> IPMask_String m | Some l \<Rightarrow> fmt_digits l))"

section \<open>Masked comparison is division\<close>

text \<open>The mask of \<open>ones\<close> ones in \<open>n\<close> bytes.\<close>

fun cidr_mask :: "nat \<Rightarrow> nat \<Rightarrow> nat list" where
  "cidr_mask ones 0 = []"
| "cidr_mask ones (Suc n) = (if 8 \<le> ones then 255 # cidr_mask (ones - 8) n
     else (256 - 2 ^ (8 - ones)) # replicate n 0)"

lemma length_cidr_mask [simp]: "length (cidr_mask ones n) = n"
  by (induction n arbitrary: ones) auto

lemma leading_ones_bytes:
  "leading_ones 0 0 = (0, 0)" "leading_ones 128 0 = (1, 0)" "leading_ones 192 0 = (2, 0)"
  "leading_ones 224 0 = (3, 0)" "leading_ones 240 0 = (4, 0)" "leading_ones 248 0 = (5, 0)"
  "leading_ones 252 0 = (6, 0)" "leading_ones 254 0 = (7, 0)"
  by code_simp+

lemma simpleMaskLength_zeros: "simpleMaskLength (replicate n 0) = Some 0"
  by (cases n) (auto simp: leading_ones_bytes)

lemma nat_less_8_cases: "(k::nat) < 8 \<Longrightarrow> k \<in> {0, 1, 2, 3, 4, 5, 6, 7}"
  by auto

lemma leading_ones_partial: "k < 8 \<Longrightarrow> leading_ones (256 - 2 ^ (8 - k)) 0 = (k, 0)"
  by (drule nat_less_8_cases) (auto simp: leading_ones_bytes)

lemma partial_byte: "k < 8 \<Longrightarrow> (256::nat) - 2 ^ (8 - k) \<noteq> 255"
  by (drule nat_less_8_cases) auto

lemma simpleMaskLength_cidr: "ones \<le> 8 * n \<Longrightarrow> simpleMaskLength (cidr_mask ones n) = Some ones"
proof (induction n arbitrary: ones)
  case (Suc n)
  then show ?case
    by (auto simp: simpleMaskLength_zeros leading_ones_partial partial_byte)
qed simp

lemma Mask_Size_cidr: "ones \<le> 8 * n \<Longrightarrow> Mask_Size (cidr_mask ones n) = (ones, 8 * n)"
  by (simp add: Mask_Size_def simpleMaskLength_cidr)

lemma radix_eq_iff:
  fixes a b q r m :: nat
  assumes "q < m" and "r < m"
  shows "a * m + q = b * m + r \<longleftrightarrow> a = b \<and> q = r"
proof
  assume eq: "a * m + q = b * m + r"
  then have "(a * m + q) div m = (b * m + r) div m" and "(a * m + q) mod m = (b * m + r) mod m" by simp_all
  then show "a = b \<and> q = r" using assms by simp
qed simp

text \<open>A byte masked with the leading ones is the byte divided by the rest.\<close>

lemma and_leading_ones:
  assumes "x < 256" and "k \<le> 8"
  shows "x AND (256 - 2 ^ (8 - k)) = 2 ^ (8 - k) * (x div 2 ^ (8 - k) :: nat)"
proof -
  have "2 ^ (8 - k) * (2 ^ k - 1) = (256 - 2 ^ (8 - k) :: nat)"
    using assms(2) by (simp add: right_diff_distrib' power_add [symmetric])
  then have mask: "(256 - 2 ^ (8 - k) :: nat) = push_bit (8 - k) (mask k)"
    by (simp add: push_bit_eq_mult mask_eq_exp_minus_1 mult.commute)
  have byte: "take_bit 8 x = x" using assms(1) by (simp add: take_bit_nat_eq_self_iff)
  have "x AND push_bit (8 - k) (mask k) = push_bit (8 - k) (drop_bit (8 - k) x)"
    by (rule bit_eqI, subst byte [symmetric]) (use assms(2) in \<open>auto simp: bit_simps\<close>)
  then show ?thesis unfolding mask by (simp add: push_bit_eq_mult drop_bit_eq_div mult.commute)
qed

lemma big_SetBytes_Cons: "big_SetBytes (b # bs) = b * 256 ^ length bs + big_SetBytes bs"
proof (induction bs rule: rev_induct)
  case (snoc x bs)
  have "big_SetBytes (b # bs @ [x]) = big_SetBytes (b # bs) * 256 + x"
    using big_SetBytes_snoc [of "b # bs" x] by simp
  then show ?case using snoc by (simp add: big_SetBytes_snoc algebra_simps)
qed (simp add: big_SetBytes_def)

lemma big_SetBytes_less: "\<forall>b \<in> set bs. b < 256 \<Longrightarrow> big_SetBytes bs < 256 ^ length bs"
proof (induction bs)
  case (Cons b bs)
  have "b \<le> 255" using Cons.prems by simp
  then have "b * 256 ^ length bs \<le> 255 * 256 ^ length bs" by (rule mult_le_mono1)
  moreover have "big_SetBytes bs < 256 ^ length bs" using Cons by simp
  ultimately have "b * 256 ^ length bs + big_SetBytes bs < 255 * 256 ^ length bs + 256 ^ length bs"
    by (rule add_le_less_mono)
  then show ?case by (simp add: big_SetBytes_Cons)
qed (simp add: big_SetBytes_def)

text \<open>Comparing two addresses under a mask compares them divided by the size of the network.\<close>

lemma masked_eq_div:
  assumes "length xs = n" and "length ys = n" and "ones \<le> 8 * n"
    and "\<forall>b \<in> set xs. b < 256" and "\<forall>b \<in> set ys. b < 256"
  shows "list_all (\<lambda>(x, y, z). (x AND z) = (y AND z)) (zip xs (zip ys (cidr_mask ones n)))
    \<longleftrightarrow> big_SetBytes xs div 2 ^ (8 * n - ones) = big_SetBytes ys div 2 ^ (8 * n - ones)"
  using assms
proof (induction n arbitrary: xs ys ones)
  case (Suc n)
  obtain x xs' y ys' where xs: "xs = x # xs'" and ys: "ys = y # ys'" and len: "length xs' = n" "length ys' = n"
    using Suc.prems(1,2) by (metis length_Suc_conv)
  have byte: "x < 256" "y < 256" using Suc.prems(4,5) xs ys by auto
  have less: "big_SetBytes xs' < 256 ^ n" "big_SetBytes ys' < 256 ^ n"
    using big_SetBytes_less [of xs'] big_SetBytes_less [of ys'] Suc.prems(4,5) xs ys len by auto
  have pow: "(256::nat) ^ n = 2 ^ (8 * n)" by (simp add: power_mult)
  show ?case
  proof (cases "8 \<le> ones")
    case True
    define h where "h = 8 * n - (ones - 8)"
    have h: "8 * Suc n - ones = h" "h \<le> 8 * n" using True Suc.prems(3) by (auto simp: h_def)
    have IH: "list_all (\<lambda>(x, y, z). (x AND z) = (y AND z)) (zip xs' (zip ys' (cidr_mask (ones - 8) n)))
        \<longleftrightarrow> big_SetBytes xs' div 2 ^ h = big_SetBytes ys' div 2 ^ h"
      unfolding h_def by (rule Suc.IH) (use Suc.prems xs ys len True in auto)
    have full: "v AND 255 = v" if "v < 256" for v :: nat using and_leading_ones [OF that, of 8] by simp
    have split: "(b * 256 ^ n + r) div 2 ^ h = b * 2 ^ (8 * n - h) + r div 2 ^ h" for b r :: nat
    proof -
      have "b * 256 ^ n = 2 ^ h * (b * 2 ^ (8 * n - h))"
        unfolding pow using h(2) by (simp add: power_add [symmetric] mult.left_commute)
      then show ?thesis by (simp only: div_mult_self2 [OF power_not_zero [OF numeral_neq_zero]] add.commute [of _ r])
    qed
    have small: "r div 2 ^ h < 2 ^ (8 * n - h)" if "r < 256 ^ n" for r :: nat
      using that unfolding pow using h(2)
      by (simp add: less_mult_imp_div_less power_add [symmetric])
    have "x * 2 ^ (8 * n - h) + big_SetBytes xs' div 2 ^ h = y * 2 ^ (8 * n - h) + big_SetBytes ys' div 2 ^ h
        \<longleftrightarrow> x = y \<and> big_SetBytes xs' div 2 ^ h = big_SetBytes ys' div 2 ^ h"
      by (rule radix_eq_iff) (use small less in auto)
    then show ?thesis
      unfolding h(1) using True IH byte full by (simp add: xs ys big_SetBytes_Cons len split)
  next
    case False
    define k where "k = 8 - ones"
    have k: "8 * Suc n - ones = 8 * n + k" "k \<le> 8" using False by (auto simp: k_def)
    have head: "(b * 256 ^ n + r) div 2 ^ (8 * n + k) = b div 2 ^ k" if "r < 256 ^ n" for b r :: nat
      using that unfolding pow by (simp add: power_add div_mult2_eq)
    have zeros: "list_all (\<lambda>(x, y, z). (x AND z) = (y AND z)) (zip xs' (zip ys' (replicate n 0)))"
      by (auto simp: list_all_iff set_zip)
    have "(x AND (256 - 2 ^ k)) = (y AND (256 - 2 ^ k)) \<longleftrightarrow> x div 2 ^ k = y div 2 ^ k"
      using and_leading_ones [OF byte(1), of ones] and_leading_ones [OF byte(2), of ones] False
      by (simp add: k_def)
    then show ?thesis
      unfolding k(1) using False zeros less by (simp add: xs ys big_SetBytes_Cons len head) (simp add: k_def)
  qed
qed (simp add: big_SetBytes_def)

end
