(* ===== verification/Ip_Allocator.thy ===== *)
theory Ip_Allocator
  imports Port_Allocator Net_IP
begin

text \<open>
  \<^verbatim>\<open>pkg/registry/service/ipallocator\<close>: cluster addresses out of a network, on any
  \<^verbatim>\<open>allocator.Interface\<close>.  An address and its number are related by \<^verbatim>\<open>bigForIP\<close>; the first and the last
  address of the network are never handed out.  A \<^verbatim>\<open>big.Int\<close> that is not negative is a natural
  number.
\<close>

section \<open>Addresses and numbers\<close>

datatype ip_error =
    IPErrFull | IPErrNotInRange | IPErrAllocated | IPErrMismatchedNetwork | IPErrBackend go_error

record 's Range =
  range_net :: IPNet
  range_base :: nat
  range_max :: int
  range_alloc :: 's

definition bigForIP :: "net_IP \<Rightarrow> nat" where
  "bigForIP ip =
     (let b = (case To4 ip of Some b \<Rightarrow> b | None \<Rightarrow> (case To16 ip of Some b \<Rightarrow> b | None \<Rightarrow> []))
      in big_SetBytes b)"

text \<open>\<^verbatim>\<open>Bytes\<close> is the absolute value, without leading zero bytes.\<close>

definition addIPOffset :: "nat \<Rightarrow> int \<Rightarrow> net_IP" where
  "addIPOffset base offset = big_Bytes (nat \<bar>int base + offset\<bar>)"

definition calculateIPOffset :: "nat \<Rightarrow> net_IP \<Rightarrow> int" where
  "calculateIPOffset base ip = go_int (int (bigForIP ip) - int base)"

text \<open>\<^verbatim>\<open>None\<close> is a panic.\<close>

definition RangeSize :: "IPNet \<Rightarrow> int option" where
  "RangeSize subnet =
     (case Mask_Size (net_mask subnet) of
        (ones, nbits) \<Rightarrow> if int nbits - int ones \<ge> 31 then None else Some (push_bit (nbits - ones) 1))"

definition GetIndexedIP :: "IPNet \<Rightarrow> int \<Rightarrow> net_IP option" where
  "GetIndexedIP subnet index =
     (let ip = addIPOffset (bigForIP (net_ip subnet)) index
      in if \<not> IPNet_Contains subnet ip then None else Some ip)"

definition maximum :: "int \<Rightarrow> int \<Rightarrow> int" where
  "maximum a b = (if a > b then a else b)"

section \<open>The range\<close>

definition NewAllocatorCIDRRange :: "IPNet \<Rightarrow> (int \<Rightarrow> string \<Rightarrow> 's) \<Rightarrow> 's Range option" where
  "NewAllocatorCIDRRange cidr allocatorFactory =
     (case RangeSize cidr of
        None \<Rightarrow> None
      | Some mx \<Rightarrow>
          (let m = maximum 0 (mx - 2)
           in Some \<lparr>range_net = cidr, range_base = bigForIP (net_ip cidr) + 1, range_max = m,
                    range_alloc = allocatorFactory m (IPNet_String cidr)\<rparr>))"

definition NewCIDRRange :: "(int \<Rightarrow> nat) \<Rightarrow> IPNet \<Rightarrow> AllocationBitmap Range option" where
  "NewCIDRRange rnd cidr = NewAllocatorCIDRRange cidr (NewAllocationMap rnd)"

definition Range_Free :: "'s allocator_ops \<Rightarrow> 's Range \<Rightarrow> int" where
  "Range_Free ops r = al_Free ops (range_alloc r)"

definition Range_contains :: "'s Range \<Rightarrow> net_IP \<Rightarrow> nat option" where
  "Range_contains r ip =
     (if \<not> IPNet_Contains (range_net r) ip then None
      else let offset = calculateIPOffset (range_base r) ip
           in if offset < 0 \<or> offset \<ge> range_max r then None else Some (nat offset))"

definition Range_Allocate :: "'s allocator_ops \<Rightarrow> net_IP \<Rightarrow> 's Range \<Rightarrow> ip_error option \<times> 's Range" where
  "Range_Allocate ops ip r =
     (case Range_contains r ip of
        None \<Rightarrow> (Some IPErrNotInRange, r)
      | Some offset \<Rightarrow>
          (case al_Allocate ops offset (range_alloc r) of
             (res, a) \<Rightarrow> (case res of Inl err \<Rightarrow> Some (IPErrBackend err)
                | Inr ok \<Rightarrow> if \<not> ok then Some IPErrAllocated else None, r\<lparr>range_alloc := a\<rparr>)))"

definition Range_AllocateNext :: "'s allocator_ops \<Rightarrow> 's Range \<Rightarrow> (ip_error + net_IP) \<times> 's Range" where
  "Range_AllocateNext ops r =
     (case al_AllocateNext ops (range_alloc r) of
        (res, a) \<Rightarrow> (case res of
            Inl err \<Rightarrow> Inl (IPErrBackend err)
          | Inr None \<Rightarrow> Inl IPErrFull
          | Inr (Some offset) \<Rightarrow> Inr (addIPOffset (range_base r) (int offset)), r\<lparr>range_alloc := a\<rparr>))"

definition Range_Release :: "'s allocator_ops \<Rightarrow> net_IP \<Rightarrow> 's Range \<Rightarrow> ip_error option \<times> 's Range" where
  "Range_Release ops ip r =
     (case Range_contains r ip of
        None \<Rightarrow> (None, r)
      | Some offset \<Rightarrow>
          (case al_Release ops offset (range_alloc r) of
             (err, a) \<Rightarrow> (map_option IPErrBackend err, r\<lparr>range_alloc := a\<rparr>)))"

definition Range_Has :: "'s allocator_ops \<Rightarrow> net_IP \<Rightarrow> 's Range \<Rightarrow> bool" where
  "Range_Has ops ip r =
     (case Range_contains r ip of None \<Rightarrow> False | Some offset \<Rightarrow> al_Has ops offset (range_alloc r))"

definition Range_Snapshot :: "'s allocator_ops \<Rightarrow> 's Range \<Rightarrow> string \<times> nat list" where
  "Range_Snapshot ops r = al_Snapshot ops (range_alloc r)"

text \<open>The error of the allocator's \<^verbatim>\<open>Restore\<close> is dropped.\<close>

definition Range_Restore ::
  "'s allocator_ops \<Rightarrow> IPNet \<Rightarrow> nat list \<Rightarrow> 's Range \<Rightarrow> ip_error option \<times> 's Range" where
  "Range_Restore ops net data r =
     (if \<not> IP_Equal (net_ip net) (net_ip (range_net r))
         \<or> IPMask_String (net_mask net) \<noteq> IPMask_String (net_mask (range_net r))
      then (Some IPErrMismatchedNetwork, r)
      else (None, r\<lparr>range_alloc := snd (al_Restore ops (IPNet_String net) data (range_alloc r))\<rparr>))"

section \<open>Valid networks\<close>

text \<open>
  A network as \<^verbatim>\<open>net.ParseCIDR\<close> returns it, a network number with a mask of leading ones, with
  less than 31 bits for the hosts and a first byte that is not zero.
\<close>

definition ip_bytes :: "net_IP \<Rightarrow> bool" where
  "ip_bytes ip \<longleftrightarrow> list_all (\<lambda>b. b < 256) ip"

definition host_bits :: "IPNet \<Rightarrow> nat" where
  "host_bits cidr = (case Mask_Size (net_mask cidr) of (ones, nbits) \<Rightarrow> nbits - ones)"

definition cidr_ok :: "IPNet \<Rightarrow> bool" where
  "cidr_ok cidr \<longleftrightarrow> (length (net_ip cidr) = 4 \<or> length (net_ip cidr) = 16) \<and> ip_bytes (net_ip cidr)
     \<and> hd (net_ip cidr) \<noteq> 0 \<and> host_bits cidr < 31
     \<and> net_mask cidr = cidr_mask (8 * length (net_ip cidr) - host_bits cidr) (length (net_ip cidr))
     \<and> big_SetBytes (net_ip cidr) mod 2 ^ host_bits cidr = 0"

text \<open>The addresses of the network other than its first and last one.\<close>

definition usable_ip :: "IPNet \<Rightarrow> net_IP \<Rightarrow> bool" where
  "usable_ip cidr ip \<longleftrightarrow> IPNet_Contains cidr ip \<and> bigForIP ip \<noteq> bigForIP (net_ip cidr)
     \<and> bigForIP ip + 1 \<noteq> bigForIP (net_ip cidr) + 2 ^ host_bits cidr"

lemma length_big_Bytes: "256 ^ n \<le> v \<Longrightarrow> v < 256 ^ Suc n \<Longrightarrow> length (big_Bytes v) = Suc n"
proof (induction n arbitrary: v)
  case 0
  then show ?case by (simp add: big_Bytes.simps [of v] big_Bytes.simps [of 0])
next
  case (Suc n)
  have "256 ^ n \<le> v div 256" using div_le_mono [OF Suc.prems(1), of 256] by simp
  moreover have "v div 256 < 256 ^ Suc n" using Suc.prems(2) by (simp add: less_mult_imp_div_less)
  moreover have "v \<noteq> 0" using Suc.prems(1) by (cases v) simp_all
  ultimately show ?case using Suc.IH by (simp add: big_Bytes.simps [of v])
qed

text \<open>A 16-byte address with a number that large is not a 4-byte address in disguise.\<close>

lemma To4_large:
  assumes "length ip = 16" and "256 ^ 15 \<le> big_SetBytes ip" and "ip_bytes ip"
  shows "To4 ip = None"
proof -
  obtain b bs where ip: "ip = b # bs" "length bs = 15" using assms(1) by (cases ip) auto
  have "big_SetBytes bs < 256 ^ 15" using big_SetBytes_less [of bs] assms(3) ip by (simp add: ip_bytes_def list_all_iff)
  then have "b \<noteq> 0" using assms(2) ip by (auto simp: big_SetBytes_Cons)
  then show ?thesis using ip by (auto simp: To4_def numeral_eq_Suc)
qed

lemma bigForIP_valid: "length ip = 4 \<or> length ip = 16 \<and> To4 ip = None \<Longrightarrow> bigForIP ip = big_SetBytes ip"
  by (auto simp: bigForIP_def To4_def To16_def)

lemma cidr_numbers:
  assumes "cidr_ok cidr" and "n = length (net_ip cidr)" and "h = host_bits cidr" and "N = bigForIP (net_ip cidr)"
  shows "n = 4 \<or> n = 16" and "N = big_SetBytes (net_ip cidr)" and "256 ^ (n - 1) \<le> N" and "N + 2 ^ h \<le> 256 ^ n"
    and "h < 31" and "n = 16 \<Longrightarrow> To4 (net_ip cidr) = None" and "N mod 2 ^ h = 0"
proof -
  note ok = assms(1) [unfolded cidr_ok_def]
  show n: "n = 4 \<or> n = 16" and h: "h < 31" using ok assms by auto
  obtain b bs where ip: "net_ip cidr = b # bs" and len: "length bs = n - 1"
    using n assms(2) by (cases "net_ip cidr") auto
  have "256 ^ (n - 1) \<le> b * 256 ^ (n - 1)" using ok ip by simp
  then have low: "256 ^ (n - 1) \<le> big_SetBytes (net_ip cidr)"
    unfolding ip big_SetBytes_Cons len by (rule trans_le_add1)
  show To4: "To4 (net_ip cidr) = None" if "n = 16"
    using To4_large [of "net_ip cidr"] that low ok assms(2) by simp
  show N: "N = big_SetBytes (net_ip cidr)" using n To4 assms(2,4) bigForIP_valid by metis
  show "256 ^ (n - 1) \<le> N" and mod: "N mod 2 ^ h = 0" using low ok N assms(3) by auto
  have less: "N < 256 ^ n"
    using big_SetBytes_less [of "net_ip cidr"] ok assms(2) N by (simp add: ip_bytes_def list_all_iff)
  have split: "(256::nat) ^ n = 2 ^ h * 2 ^ (8 * n - h)"
  proof -
    have "(256::nat) ^ n = 2 ^ (8 * n)" by (simp add: power_mult)
    moreover have "h + (8 * n - h) = 8 * n" using n h by auto
    ultimately show ?thesis by (simp add: power_add [symmetric])
  qed
  obtain q where q: "N = 2 ^ h * q" using mod by (auto simp: mod_eq_0_iff_dvd dvd_def)
  then have "q < 2 ^ (8 * n - h)" using less unfolding split by simp
  then have "2 ^ h * (q + 1) \<le> 2 ^ h * 2 ^ (8 * n - h)" by (intro mult_le_mono2) simp
  then show "N + 2 ^ h \<le> 256 ^ n" unfolding split by (simp add: q)
qed

section \<open>What the network contains\<close>

definition ip_norm :: "net_IP \<Rightarrow> net_IP" where
  "ip_norm ip = (case To4 ip of Some x \<Rightarrow> x | None \<Rightarrow> ip)"

lemma ip_norm_bytes: "ip_bytes ip \<Longrightarrow> ip_bytes (ip_norm ip)"
  by (auto simp: ip_norm_def To4_def ip_bytes_def list_all_iff dest: in_set_dropD)

lemma bigForIP_norm: "length (ip_norm ip) = 4 \<or> length (ip_norm ip) = 16 \<Longrightarrow> bigForIP ip = big_SetBytes (ip_norm ip)"
  by (auto simp: ip_norm_def bigForIP_def To4_def To16_def)

lemma networkNumberAndMask_ok:
  assumes "cidr_ok cidr"
  shows "networkNumberAndMask cidr = Some (net_ip cidr, net_mask cidr)"
proof -
  have "length (net_mask cidr) = length (net_ip cidr)" using assms length_cidr_mask by (metis cidr_ok_def)
  moreover have "To4 (net_ip cidr) = (if length (net_ip cidr) = 4 then Some (net_ip cidr) else None)"
    using cidr_numbers(1,6) [OF assms refl refl refl] by (auto simp: To4_def)
  ultimately show ?thesis
    using cidr_numbers(1) [OF assms refl refl refl] by (auto simp: networkNumberAndMask_def Let_def)
qed

lemma IPNet_Contains_iff:
  assumes "cidr_ok cidr" and "ip_bytes ip"
  shows "IPNet_Contains cidr ip \<longleftrightarrow> length (ip_norm ip) = length (net_ip cidr)
    \<and> bigForIP (net_ip cidr) \<le> bigForIP ip \<and> bigForIP ip < bigForIP (net_ip cidr) + 2 ^ host_bits cidr"
proof (cases "length (ip_norm ip) = length (net_ip cidr)")
  case True
  define n h N a where "n = length (net_ip cidr)" and "h = host_bits cidr" and "N = bigForIP (net_ip cidr)"
    and "a = bigForIP ip"
  note num = cidr_numbers [OF assms(1) n_def h_def N_def]
  have bytes: "\<forall>b \<in> set (net_ip cidr). b < 256" "\<forall>b \<in> set (ip_norm ip). b < 256"
    using assms ip_norm_bytes by (auto simp: cidr_ok_def ip_bytes_def list_all_iff)
  have h: "8 * n - (8 * n - h) = h" using num(1,5) by auto
  have mask: "net_mask cidr = cidr_mask (8 * n - h) n" using assms(1) by (simp add: cidr_ok_def n_def h_def)
  have a: "a = big_SetBytes (ip_norm ip)" unfolding a_def using True num(1) by (intro bigForIP_norm) (simp add: n_def)
  have "IPNet_Contains cidr ip \<longleftrightarrow> N div 2 ^ h = a div 2 ^ h"
    using masked_eq_div [of "net_ip cidr" n "ip_norm ip" "8 * n - h", OF _ _ _ bytes] True
    unfolding h num(2) a IPNet_Contains_def networkNumberAndMask_ok [OF assms(1)] mask
    by (simp add: n_def ip_norm_def)
  also have "\<dots> \<longleftrightarrow> N \<le> a \<and> a < N + 2 ^ h"
  proof -
    obtain q where q: "N = q * 2 ^ h" using num(7) by (auto simp: mod_eq_0_iff_dvd dvd_def mult.commute)
    have "q = a div 2 ^ h \<longleftrightarrow> q * 2 ^ h \<le> a \<and> a < (q + 1) * 2 ^ h"
    proof
      assume "q * 2 ^ h \<le> a \<and> a < (q + 1) * 2 ^ h"
      then show "q = a div 2 ^ h" by (intro div_nat_eqI [symmetric]) (simp_all add: mult.commute)
    next
      assume "q = a div 2 ^ h"
      then show "q * 2 ^ h \<le> a \<and> a < (q + 1) * 2 ^ h"
        using dividend_less_div_times [of "2 ^ h" a] by (simp add: add.commute)
    qed
    then show ?thesis by (simp add: q add.commute)
  qed
  finally show ?thesis using True by (simp add: N_def a_def h_def)
next
  case False
  then show ?thesis
    by (simp add: IPNet_Contains_def networkNumberAndMask_ok [OF assms(1)] ip_norm_def split: option.splits)
qed

text \<open>Inside the network, numbers and addresses correspond.\<close>

lemma addIPOffset_valid:
  assumes "cidr_ok cidr" and "bigForIP (net_ip cidr) \<le> a" and "a < bigForIP (net_ip cidr) + 2 ^ host_bits cidr"
    and "int base + i = int a"
  shows "length (addIPOffset base i) = length (net_ip cidr)" and "bigForIP (addIPOffset base i) = a"
    and "IPNet_Contains cidr (addIPOffset base i)" and "ip_bytes (addIPOffset base i)"
proof -
  define n where "n = length (net_ip cidr)"
  note num = cidr_numbers [OF assms(1) n_def refl refl]
  have ip: "addIPOffset base i = big_Bytes a" using assms(4) by (simp add: addIPOffset_def)
  have "a < 256 ^ Suc (n - 1)" "256 ^ (n - 1) \<le> a" using assms(2,3) num(1,3,4) by auto
  then have len: "length (big_Bytes a) = n" using length_big_Bytes [of "n - 1" a] num(1) by auto
  show bytes: "ip_bytes (addIPOffset base i)" by (auto simp: ip ip_bytes_def list_all_iff big_Bytes_less)
  have To4: "To4 (big_Bytes a) = None" if "n = 16"
    using To4_large [of "big_Bytes a"] len that \<open>256 ^ (n - 1) \<le> a\<close> bytes by (simp add: ip SetBytes_Bytes)
  show big: "bigForIP (addIPOffset base i) = a"
    using bigForIP_valid [of "big_Bytes a"] num(1) len To4 by (auto simp: ip SetBytes_Bytes)
  show "length (addIPOffset base i) = length (net_ip cidr)" using len by (simp add: ip n_def)
  have "length (ip_norm (big_Bytes a)) = n" using num(1) len To4 by (auto simp: ip_norm_def To4_def)
  then show "IPNet_Contains cidr (addIPOffset base i)"
    using IPNet_Contains_iff [OF assms(1) bytes] big assms(2,3) by (simp add: ip n_def)
qed

section \<open>An address range is a port range of numbers\<close>

text \<open>
  On the addresses of the network the range does what the port allocator does on the numbers
  of the addresses; what is proved about the one is used for the other.
\<close>

definition as_ports :: "'s Range \<Rightarrow> 's PortAllocator" where
  "as_ports r = \<lparr>portRange = \<lparr>Base = int (range_base r), Size = range_max r\<rparr>, pa_alloc = range_alloc r\<rparr>"

fun ip_error_of :: "port_error \<Rightarrow> ip_error" where
  "ip_error_of PortErrFull = IPErrFull"
| "ip_error_of PortErrNotInRange = IPErrNotInRange"
| "ip_error_of PortErrAllocated = IPErrAllocated"
| "ip_error_of PortErrMismatchedNetwork = IPErrMismatchedNetwork"
| "ip_error_of (PortErrBackend err) = IPErrBackend err"

text \<open>What \<^verbatim>\<open>NewAllocatorCIDRRange\<close> makes of the network.\<close>

definition range_of :: "IPNet \<Rightarrow> 's Range \<Rightarrow> bool" where
  "range_of cidr r \<longleftrightarrow> range_net r = cidr \<and> range_base r = bigForIP (net_ip cidr) + 1
     \<and> range_max r = maximum 0 (2 ^ host_bits cidr - 2)"

lemma RangeSize_ok: "cidr_ok cidr \<Longrightarrow> RangeSize cidr = Some (2 ^ host_bits cidr)"
proof -
  assume "cidr_ok cidr"
  moreover obtain ones nbits where "Mask_Size (net_mask cidr) = (ones, nbits)" by force
  ultimately show ?thesis by (auto simp: RangeSize_def cidr_ok_def host_bits_def push_bit_eq_mult)
qed

lemma NewAllocatorCIDRRange_ok:
  "cidr_ok cidr \<Longrightarrow> \<exists>r. NewAllocatorCIDRRange cidr factory = Some r \<and> range_of cidr r
     \<and> range_alloc r = factory (range_max r) (IPNet_String cidr)"
  by (simp add: NewAllocatorCIDRRange_def RangeSize_ok range_of_def Let_def)

lemma Range_contains_ports:
  assumes "cidr_ok cidr" and "range_of cidr r" and "ip_bytes ip"
  shows "Range_contains r ip =
    (if IPNet_Contains cidr ip then PortAllocator_contains (as_ports r) (int (bigForIP ip)) else None)"
proof (cases "IPNet_Contains cidr ip")
  case True
  define N a h where "N = bigForIP (net_ip cidr)" and "a = bigForIP ip" and "h = host_bits cidr"
  have a: "N \<le> a" "a < N + 2 ^ h"
    using True IPNet_Contains_iff [OF assms(1,3)] by (auto simp: N_def a_def h_def)
  have "(2::nat) ^ h \<le> 2 ^ 31" using cidr_numbers(5) [OF assms(1) refl refl refl] by (intro power_increasing) (auto simp: h_def)
  then have "go_int (int a - int (N + 1)) = int a - int (N + 1)" using a by (intro go_int_id) auto
  then have "calculateIPOffset (range_base r) ip = int a - int (N + 1)"
    using assms(2) by (simp add: calculateIPOffset_def range_of_def a_def N_def)
  then show ?thesis using True assms(2)
    by (auto simp: Range_contains_def PortAllocator_contains_def PortRange_Contains_def as_ports_def
        range_of_def a_def N_def Let_def)
qed (use assms(2) in \<open>simp add: Range_contains_def range_of_def\<close>)

lemma usable_iff:
  assumes "cidr_ok cidr" and "range_of cidr r" and "ip_bytes ip"
  shows "usable_ip cidr ip \<longleftrightarrow> IPNet_Contains cidr ip \<and> int (bigForIP ip) \<in> port_set (portRange (as_ports r))"
proof -
  define H where "H = (2::nat) ^ host_bits cidr"
  have "port_set (portRange (as_ports r)) = {int (bigForIP (net_ip cidr)) + 1..<int (bigForIP (net_ip cidr)) + int H - 1}"
    using assms(2) by (auto simp: range_of_def as_ports_def port_set_def maximum_def H_def)
  then show ?thesis
    using IPNet_Contains_iff [OF assms(1,3)] unfolding usable_ip_def H_def [symmetric] by auto
qed

definition ip_range_inv :: "('s \<Rightarrow> nat) \<Rightarrow> ('s \<Rightarrow> bool) \<Rightarrow> IPNet \<Rightarrow> 's Range \<Rightarrow> bool" where
  "ip_range_inv size_of ok cidr r \<longleftrightarrow> range_of cidr r \<and> pa_inv size_of ok (as_ports r)"

text \<open>The numbers of the addresses that are taken.\<close>

definition ips_of :: "('s \<Rightarrow> nat set) \<Rightarrow> 's Range \<Rightarrow> nat set" where
  "ips_of tk r = (\<lambda>i. range_base r + i) ` tk (range_alloc r)"

lemma as_ports_alloc [simp]: "pa_alloc (as_ports r) = range_alloc r"
  by (simp add: as_ports_def)

lemma ips_of_ports: "ips_of tk r = {a. int a \<in> ports_of tk (as_ports r)}"
  by (auto simp: ips_of_def ports_of_def as_ports_def image_iff simp flip: of_nat_add)

lemma range_of_update: "range_of cidr (r\<lparr>range_alloc := a\<rparr>) \<longleftrightarrow> range_of cidr r"
  by (simp add: range_of_def)

lemma as_ports_update: "portRange p = portRange (as_ports r) \<Longrightarrow> as_ports (r\<lparr>range_alloc := pa_alloc p\<rparr>) = p"
  by (cases p) (simp add: as_ports_def)

context allocator
begin

abbreviation "ips \<equiv> ips_of taken"
abbreviation "rinv \<equiv> ip_range_inv sz invar"

lemma rinv_update:
  "rinv cidr r \<Longrightarrow> pinv p \<Longrightarrow> portRange p = portRange (as_ports r) \<Longrightarrow> rinv cidr (r\<lparr>range_alloc := pa_alloc p\<rparr>)"
  by (simp add: ip_range_inv_def range_of_update as_ports_update)

lemma ips_update:
  "portRange p = portRange (as_ports r) \<Longrightarrow> ips (r\<lparr>range_alloc := pa_alloc p\<rparr>) = {a. int a \<in> ports p}"
  by (simp add: ips_of_ports as_ports_update)

lemma ips_usable:
  assumes "rinv cidr r" and "cidr_ok cidr" and "ip_bytes ip" and "IPNet_Contains cidr ip" and "bigForIP ip \<in> ips r"
  shows "usable_ip cidr ip"
proof -
  have "int (bigForIP ip) \<in> port_set (portRange (as_ports r))"
    using assms(1,5) ports_in_range [of "as_ports r"] by (auto simp: ip_range_inv_def ips_of_ports)
  then show ?thesis using usable_iff [OF assms(2) _ assms(3), of r] assms(1,4) by (simp add: ip_range_inv_def)
qed

lemma ip_allocate:
  assumes "rinv cidr r" and "cidr_ok cidr" and "ip_bytes ip"
  shows "\<exists>r'. Range_Allocate ops ip r =
      (if \<not> usable_ip cidr ip then Some IPErrNotInRange
       else if bigForIP ip \<in> ips r then Some IPErrAllocated else None, r')
    \<and> rinv cidr r' \<and> ips r' = (if usable_ip cidr ip then insert (bigForIP ip) (ips r) else ips r)"
proof (cases "usable_ip cidr ip")
  case True
  have r: "range_of cidr r" "pinv (as_ports r)" using assms(1) by (auto simp: ip_range_inv_def)
  have u: "IPNet_Contains cidr ip" "int (bigForIP ip) \<in> port_set (portRange (as_ports r))"
    using True usable_iff [OF assms(2) r(1) assms(3)] by auto
  obtain p where p: "PortAllocator_Allocate ops (int (bigForIP ip)) (as_ports r) =
      (if int (bigForIP ip) \<in> ports (as_ports r) then Some PortErrAllocated else None, p)"
    "pinv p" "portRange p = portRange (as_ports r)" "ports p = insert (int (bigForIP ip)) (ports (as_ports r))"
    using port_allocate [OF r(2), of "int (bigForIP ip)"] u(2) by auto
  have off: "Range_contains r ip = PortAllocator_contains (as_ports r) (int (bigForIP ip))"
    using Range_contains_ports [OF assms(2) r(1) assms(3)] u(1) by simp
  have "Range_Allocate ops ip r = (map_option ip_error_of
      (if int (bigForIP ip) \<in> ports (as_ports r) then Some PortErrAllocated else None), r\<lparr>range_alloc := pa_alloc p\<rparr>)"
    using p(1) unfolding Range_Allocate_def PortAllocator_Allocate_def off contains_Some [OF u(2)]
    by (auto simp: as_ports_def split: prod.splits sum.splits if_splits)
  then show ?thesis using True p(2-4) rinv_update [OF assms(1)] ips_update [OF p(3)]
    by (auto simp: ips_of_ports)
next
  case False
  then have "Range_contains r ip = None"
    using Range_contains_ports [OF assms(2) _ assms(3), of r] usable_iff [OF assms(2) _ assms(3), of r]
      assms(1) contains_None [of "int (bigForIP ip)" "as_ports r"]
    by (auto simp: ip_range_inv_def)
  then show ?thesis using False assms(1) by (simp add: Range_Allocate_def)
qed

end

context allocator
begin

lemma ip_allocate_next:
  assumes "rinv cidr r" and "cidr_ok cidr"
  shows "(\<exists>ip r'. Range_AllocateNext ops r = (Inr ip, r') \<and> usable_ip cidr ip \<and> ip_bytes ip
      \<and> length ip = length (net_ip cidr) \<and> bigForIP ip \<notin> ips r \<and> rinv cidr r'
      \<and> ips r' = insert (bigForIP ip) (ips r))
    \<or> Range_AllocateNext ops r = (Inl IPErrFull, r) \<and> (\<forall>ip. ip_bytes ip \<and> usable_ip cidr ip \<longrightarrow> bigForIP ip \<in> ips r)"
proof -
  have r: "range_of cidr r" "pinv (as_ports r)" using assms(1) by (auto simp: ip_range_inv_def)
  from port_allocate_next [OF r(2)] show ?thesis
  proof (elim disjE exE conjE)
    fix port p
    assume p: "PortAllocator_AllocateNext ops (as_ports r) = (Inr port, p)" "port \<in> port_set (portRange (as_ports r))"
      "port \<notin> ports (as_ports r)" "pinv p" "portRange p = portRange (as_ports r)"
      "ports p = insert port (ports (as_ports r))"
    define a where "a = nat port"
    have port: "port = int a" using p(2) by (auto simp: a_def port_set_def as_ports_def)
    define ip where "ip = addIPOffset (range_base r) (int a - int (range_base r))"
    have next': "Range_AllocateNext ops r = (Inr ip, r\<lparr>range_alloc := pa_alloc p\<rparr>)"
      using p(1) unfolding ip_def port
      by (auto simp: PortAllocator_AllocateNext_def Range_AllocateNext_def addIPOffset_def as_ports_def
          split: prod.splits sum.splits option.splits)
    have a: "bigForIP (net_ip cidr) \<le> a" "a < bigForIP (net_ip cidr) + 2 ^ host_bits cidr"
    proof -
      define H where "H = (2::nat) ^ host_bits cidr"
      have "int a < int (bigForIP (net_ip cidr)) + 1 + maximum 0 (int H - 2)" "int (bigForIP (net_ip cidr)) + 1 \<le> int a"
        using p(2) r(1) by (auto simp: port range_of_def as_ports_def port_set_def H_def)
      then show "bigForIP (net_ip cidr) \<le> a" "a < bigForIP (net_ip cidr) + 2 ^ host_bits cidr"
        unfolding H_def [symmetric] by (auto simp: maximum_def split: if_splits)
    qed
    note ip = addIPOffset_valid [OF assms(2) a, of "range_base r" "int a - int (range_base r)", folded ip_def, simplified]
    have "usable_ip cidr ip" using usable_iff [OF assms(2) r(1) ip(4)] ip p(2) by (simp add: port)
    moreover have "a \<notin> ips r" "ips (r\<lparr>range_alloc := pa_alloc p\<rparr>) = insert a (ips r)"
      using p(3,6) ips_update [OF p(5)] by (auto simp: ips_of_ports port)
    ultimately show ?thesis
      using next' ip rinv_update [OF assms(1) p(4,5)] by blast
  next
    assume full: "PortAllocator_AllocateNext ops (as_ports r) = (Inl PortErrFull, as_ports r)"
      "ports (as_ports r) = port_set (portRange (as_ports r))"
    have "al_AllocateNext ops (range_alloc r) = (Inr None, range_alloc r)"
      using full(1) by (auto simp: PortAllocator_AllocateNext_def as_ports_def split: prod.splits sum.splits option.splits)
    then have "Range_AllocateNext ops r = (Inl IPErrFull, r)" by (simp add: Range_AllocateNext_def)
    then show ?thesis using full(2) usable_iff [OF assms(2) r(1)] by (auto simp: ips_of_ports)
  qed
qed

lemma ip_release:
  assumes "rinv cidr r" and "cidr_ok cidr" and "ip_bytes ip"
  shows "\<exists>r'. Range_Release ops ip r = (None, r') \<and> rinv cidr r'
    \<and> ips r' = (if usable_ip cidr ip then ips r - {bigForIP ip} else ips r)"
proof -
  have r: "range_of cidr r" "pinv (as_ports r)" using assms(1) by (auto simp: ip_range_inv_def)
  note off = Range_contains_ports [OF assms(2) r(1) assms(3)]
  show ?thesis
  proof (cases "usable_ip cidr ip")
    case True
    then have u: "IPNet_Contains cidr ip" "int (bigForIP ip) \<in> port_set (portRange (as_ports r))"
      using usable_iff [OF assms(2) r(1) assms(3)] by auto
    obtain p where p: "PortAllocator_Release ops (int (bigForIP ip)) (as_ports r) = (None, p)"
      "pinv p" "portRange p = portRange (as_ports r)" "ports p = ports (as_ports r) - {int (bigForIP ip)}"
      using port_release [OF r(2)] by blast
    have "Range_Release ops ip r = (None, r\<lparr>range_alloc := pa_alloc p\<rparr>)"
      using p(1) u(1) unfolding Range_Release_def PortAllocator_Release_def off contains_Some [OF u(2)]
      by (auto simp: as_ports_def contains_Some [OF u(2), unfolded as_ports_def] split: prod.splits)
    then show ?thesis using True p(2-4) rinv_update [OF assms(1)] ips_update [OF p(3)]
      by (auto simp: ips_of_ports)
  next
    case False
    then have "Range_contains r ip = None"
      using off usable_iff [OF assms(2) r(1) assms(3)] contains_None [of "int (bigForIP ip)" "as_ports r"] by auto
    then show ?thesis using False assms(1) by (simp add: Range_Release_def)
  qed
qed

lemma ip_has:
  assumes "rinv cidr r" and "cidr_ok cidr" and "ip_bytes ip"
  shows "Range_Has ops ip r \<longleftrightarrow> usable_ip cidr ip \<and> bigForIP ip \<in> ips r"
proof -
  have r: "range_of cidr r" "pinv (as_ports r)" using assms(1) by (auto simp: ip_range_inv_def)
  have "Range_Has ops ip r \<longleftrightarrow> IPNet_Contains cidr ip \<and> PortAllocator_Has ops (int (bigForIP ip)) (as_ports r)"
    using Range_contains_ports [OF assms(2) r(1) assms(3)]
    by (simp add: Range_Has_def PortAllocator_Has_def split: option.split)
  then show ?thesis
    using port_has [OF r(2)] usable_iff [OF assms(2) r(1) assms(3)] ports_in_range [OF r(2)]
    by (auto simp: ips_of_ports)
qed

lemma ip_free:
  assumes "rinv cidr r"
  shows "Range_Free ops r = range_max r - int (card (ips r))"
proof -
  have "Range_Free ops r = PortAllocator_Free ops (as_ports r)"
    by (simp add: Range_Free_def PortAllocator_Free_def as_ports_def)
  moreover have "ports (as_ports r) = int ` ips r"
    by (auto simp: ips_of_def ports_of_def as_ports_def image_image)
  ultimately show ?thesis using assms port_free [of "as_ports r"]
    by (simp add: ip_range_inv_def card_image) (simp add: as_ports_def)
qed

end

section \<open>Cluster addresses on the bitmap\<close>

abbreviation taken_ips :: "AllocationBitmap Range \<Rightarrow> nat set" where
  "taken_ips \<equiv> ips_of (\<lambda>a. bits (allocated a))"

abbreviation ip_inv :: "IPNet \<Rightarrow> AllocationBitmap Range \<Rightarrow> bool" where
  "ip_inv \<equiv> ip_range_inv (\<lambda>a. nat (bm_max a)) bitmap_inv"

lemma ip_inv_New:
  assumes "cidr_ok cidr" and "NewCIDRRange rnd cidr = Some r"
  shows "ip_inv cidr r" and "taken_ips r = {}"
proof -
  have r: "range_of cidr r" "range_alloc r = NewAllocationMap rnd (range_max r) (IPNet_String cidr)"
    using NewAllocatorCIDRRange_ok [OF assms(1), of "NewAllocationMap rnd"] assms(2) by (auto simp: NewCIDRRange_def)
  moreover from this have "0 \<le> range_max r" by (auto simp: range_of_def maximum_def)
  ultimately show "ip_inv cidr r" "taken_ips r = {}"
    using bitmap_inv_New(1) [of "range_max r" rnd "IPNet_String cidr"]
    by (simp_all add: ip_range_inv_def pa_inv_def as_ports_def ips_of_def NewAllocationMap_def bits_def)
qed

text \<open>
  C22: The address allocator keeps its contract on every network: it hands out only addresses of the
  network other than its first and last one, in the form of the network's own address, and
  only free ones; \<^verbatim>\<open>Allocate\<close> tells a foreign address from one that is taken;
  \<^verbatim>\<open>AllocateNext\<close> reports a full range exactly when every usable address is taken; \<^verbatim>\<open>Release\<close>
  gives an address back and ignores a foreign one; \<^verbatim>\<open>Has\<close> and \<^verbatim>\<open>Free\<close> read the set of taken
  addresses; and every operation keeps the invariant, which a new range has with nothing taken.
\<close>

theorem ip_allocator_contract:
  assumes "cidr_ok cidr" and "ip_inv cidr r" and "ip_bytes ip"
  shows "(\<exists>r0. NewCIDRRange rnd cidr = Some r0 \<and> ip_inv cidr r0 \<and> taken_ips r0 = {})
    \<and> (\<exists>r'. Range_Allocate bitmap_ops ip r =
          (if \<not> usable_ip cidr ip then Some IPErrNotInRange
           else if bigForIP ip \<in> taken_ips r then Some IPErrAllocated else None, r')
        \<and> ip_inv cidr r'
        \<and> taken_ips r' = (if usable_ip cidr ip then insert (bigForIP ip) (taken_ips r) else taken_ips r))
    \<and> ((\<exists>next r'. Range_AllocateNext bitmap_ops r = (Inr next, r') \<and> usable_ip cidr next
          \<and> ip_bytes next \<and> length next = length (net_ip cidr) \<and> bigForIP next \<notin> taken_ips r
          \<and> ip_inv cidr r' \<and> taken_ips r' = insert (bigForIP next) (taken_ips r))
       \<or> Range_AllocateNext bitmap_ops r = (Inl IPErrFull, r)
          \<and> (\<forall>ip. ip_bytes ip \<and> usable_ip cidr ip \<longrightarrow> bigForIP ip \<in> taken_ips r))
    \<and> (\<exists>r'. Range_Release bitmap_ops ip r = (None, r') \<and> ip_inv cidr r'
        \<and> taken_ips r' = (if usable_ip cidr ip then taken_ips r - {bigForIP ip} else taken_ips r))
    \<and> (Range_Has bitmap_ops ip r \<longleftrightarrow> usable_ip cidr ip \<and> bigForIP ip \<in> taken_ips r)
    \<and> Range_Free bitmap_ops r = maximum 0 (2 ^ host_bits cidr - 2) - int (card (taken_ips r))"
proof (intro conjI)
  show "\<exists>r0. NewCIDRRange rnd cidr = Some r0 \<and> ip_inv cidr r0 \<and> taken_ips r0 = {}"
    using NewAllocatorCIDRRange_ok [OF assms(1), of "NewAllocationMap rnd"] ip_inv_New [OF assms(1), of rnd]
    by (auto simp: NewCIDRRange_def)
  show "Range_Free bitmap_ops r = maximum 0 (2 ^ host_bits cidr - 2) - int (card (taken_ips r))"
    using bitmap.ip_free [OF assms(2)] assms(2) by (simp add: ip_range_inv_def range_of_def)
qed (rule bitmap.ip_allocate [OF assms(2,1,3)] bitmap.ip_allocate_next [OF assms(2,1)]
    bitmap.ip_release [OF assms(2,1,3)] bitmap.ip_has [OF assms(2,1,3)])+

text \<open>A network of 10.0.0.0/29 for the examples.\<close>

definition example_net :: IPNet where
  "example_net = \<lparr>net_ip = [10, 0, 0, 0], net_mask = [255, 255, 255, 248]\<rparr>"

lemma host_bits_example: "host_bits example_net = 3"
  by (simp add: host_bits_def example_net_def Mask_Size_def leading_ones_bytes)

lemma example_net_ok: "cidr_ok example_net"
proof -
  have "cidr_mask 29 4 = [255, 255, 255, 248]" by code_simp
  then show ?thesis
    unfolding cidr_ok_def host_bits_example by (simp add: example_net_def ip_bytes_def big_SetBytes_def)
qed

theorem ip_allocator_contract_witness:
  "\<exists>r0 r'. NewCIDRRange (\<lambda>_. 0) example_net = Some r0
    \<and> Range_Allocate bitmap_ops [10, 0, 0, 5] r0 = (None, r') \<and> Range_Free bitmap_ops r0 = 6"
proof -
  obtain r0 where new: "NewCIDRRange (\<lambda>_. 0) example_net = Some r0"
    using NewAllocatorCIDRRange_ok [OF example_net_ok] by (auto simp: NewCIDRRange_def)
  note r0 = ip_inv_New [OF example_net_ok new]
  have u: "ip_bytes [10, 0, 0, 5]" "usable_ip example_net [10, 0, 0, 5]"
  proof -
    show b: "ip_bytes [10, 0, 0, 5]" by (simp add: ip_bytes_def)
    have "bigForIP [10, 0, 0, 5] = bigForIP (net_ip example_net) + 5"
      by (simp add: example_net_def bigForIP_def To4_def big_SetBytes_def)
    then show "usable_ip example_net [10, 0, 0, 5]"
      by (simp add: usable_ip_def IPNet_Contains_iff [OF example_net_ok b] host_bits_example)
        (simp add: ip_norm_def To4_def example_net_def)
  qed
  show ?thesis
    using ip_allocator_contract [OF example_net_ok r0(1) u(1), of "\<lambda>_. 0"] new r0(2) u(2)
    by (auto simp: maximum_def host_bits_example)
qed

text \<open>
  A number loses its leading zero bytes on the way to an address: of the network 0.0.1.0/24 the
  address with index 1 cannot be generated, and what the allocator hands out is not an address
  of four bytes.
\<close>

theorem addIPOffset_drops_leading_zeros:
  "let cidr = \<lparr>net_ip = [0, 0, 1, 0], net_mask = [255, 255, 255, 0]\<rparr>
   in IPNet_Contains cidr [0, 0, 1, 1] \<and> GetIndexedIP cidr 1 = None \<and> addIPOffset (bigForIP (net_ip cidr)) 1 = [1, 1]"
  by (simp add: GetIndexedIP_def addIPOffset_def bigForIP_def To4_def big_SetBytes_def big_Bytes.simps
      IPNet_Contains_def networkNumberAndMask_def)

end
