(* ===== verification/Active_Pods.thy ===== *)
theory Active_Pods
  imports Labels Cache_Store "HOL-Library.Product_Lexorder"
begin

text \<open>
  \<^verbatim>\<open>pkg/controller/controller_utils.go\<close>, from \<^verbatim>\<open>FakePodControl\<close> on, with the readiness helpers of
  \<^verbatim>\<open>pkg/api/resource_helpers.go\<close> and \<^verbatim>\<open>pkg/util/integer\<close>: which pods a controller counts and in which
  order it would delete them.  A pod has the fields that this code reads.  A time is its
  distance from Go's zero time, so that the zero time is 0.
\<close>

section \<open>Pods\<close>

type_synonym go_time = int

datatype PodPhase = PodPending | PodRunning | PodSucceeded | PodFailed | PodUnknown | OtherPhase string

datatype ConditionStatus = ConditionTrue | ConditionFalse | ConditionUnknown

datatype PodConditionType = PodReady | OtherCondition string

record PodCondition =
  cond_Type :: PodConditionType
  cond_Status :: ConditionStatus
  LastTransitionTime :: go_time

record Pod =
  pod_Name :: string
  pod_Namespace :: string
  pod_Labels :: label_Set
  CreationTimestamp :: go_time
  DeletionTimestamp :: "go_time option"
  NodeName :: string
  Phase :: PodPhase
  Conditions :: "PodCondition list"
  RestartCounts :: "int list" \<comment> \<open>of the container statuses\<close>

definition IntMax :: "int \<Rightarrow> int \<Rightarrow> int" where "IntMax a b = (if b > a then b else a)"

fun GetPodReadyCondition :: "PodCondition list \<Rightarrow> PodCondition option" where
  "GetPodReadyCondition [] = None"
| "GetPodReadyCondition (c # cs) = (if cond_Type c = PodReady then Some c else GetPodReadyCondition cs)"

definition IsPodReadyConditionTrue :: "PodCondition list \<Rightarrow> bool" where
  "IsPodReadyConditionTrue status =
     (case GetPodReadyCondition status of None \<Rightarrow> False | Some c \<Rightarrow> cond_Status c = ConditionTrue)"

definition IsPodReady :: "Pod \<Rightarrow> bool" where
  "IsPodReady pod = IsPodReadyConditionTrue (Conditions pod)"

fun firstReadyTime :: "PodCondition list \<Rightarrow> go_time" where
  "firstReadyTime [] = 0"
| "firstReadyTime (c # cs) =
     (if cond_Type c = PodReady \<and> cond_Status c = ConditionTrue then LastTransitionTime c else firstReadyTime cs)"

definition podReadyTime :: "Pod \<Rightarrow> go_time" where
  "podReadyTime pod = (if IsPodReady pod then firstReadyTime (Conditions pod) else 0)"

definition maxContainerRestarts :: "Pod \<Rightarrow> int" where
  "maxContainerRestarts pod = fold (\<lambda>c maxRestarts. IntMax maxRestarts c) (RestartCounts pod) 0"

definition afterOrZero :: "go_time \<Rightarrow> go_time \<Rightarrow> bool" where
  "afterOrZero t1 t2 = (if t1 = 0 \<or> t2 = 0 then t1 = 0 else t1 > t2)"

text \<open>The map \<open>m\<close> of \<^verbatim>\<open>Less\<close>, with the zero value for the phases it does not have.\<close>

definition phaseRank :: "PodPhase \<Rightarrow> int" where
  "phaseRank p = (case p of PodPending \<Rightarrow> 0 | PodUnknown \<Rightarrow> 1 | PodRunning \<Rightarrow> 2 | _ \<Rightarrow> 0)"

definition ActivePods_Less :: "Pod \<Rightarrow> Pod \<Rightarrow> bool" where
  "ActivePods_Less p q =
     (if NodeName p \<noteq> NodeName q \<and> (length (NodeName p) = 0 \<or> length (NodeName q) = 0)
        then length (NodeName p) = 0
      else if phaseRank (Phase p) \<noteq> phaseRank (Phase q) then phaseRank (Phase p) < phaseRank (Phase q)
      else if IsPodReady p \<noteq> IsPodReady q then \<not> IsPodReady p
      else if IsPodReady p \<and> IsPodReady q \<and> podReadyTime p \<noteq> podReadyTime q
        then afterOrZero (podReadyTime p) (podReadyTime q)
      else if maxContainerRestarts p \<noteq> maxContainerRestarts q
        then maxContainerRestarts p > maxContainerRestarts q
      else if CreationTimestamp p \<noteq> CreationTimestamp q
        then afterOrZero (CreationTimestamp p) (CreationTimestamp q)
      else False)"

definition IsPodActive :: "Pod \<Rightarrow> bool" where
  "IsPodActive p \<longleftrightarrow> PodSucceeded \<noteq> Phase p \<and> PodFailed \<noteq> Phase p \<and> DeletionTimestamp p = None"

definition FilterActivePods :: "Pod list \<Rightarrow> Pod list" where
  "FilterActivePods pods = fold (\<lambda>p result. if IsPodActive p then result @ [p] else result) pods []"

definition PodKey :: "Pod \<Rightarrow> string" where
  "PodKey pod = pod_Namespace pod @ ''/'' @ pod_Name pod"

section \<open>Controllers\<close>

text \<open>The fields of a replication controller or a replica set that the orders and the filter read.\<close>

record Controller =
  ctl_Name :: string
  ctl_CreationTimestamp :: go_time
  ctl_Replicas :: int

definition FilterActiveReplicaSets :: "Controller list \<Rightarrow> Controller list" where
  "FilterActiveReplicaSets replicaSets =
     fold (\<lambda>rs active. if ctl_Replicas rs > 0 then active @ [rs] else active) replicaSets []"

definition ControllersByCreationTimestamp_Less :: "Controller \<Rightarrow> Controller \<Rightarrow> bool" where
  "ControllersByCreationTimestamp_Less a b =
     (if ctl_CreationTimestamp a = ctl_CreationTimestamp b then ctl_Name a < ctl_Name b
      else ctl_CreationTimestamp a < ctl_CreationTimestamp b)"

definition ReplicaSetsByCreationTimestamp_Less :: "Controller \<Rightarrow> Controller \<Rightarrow> bool" where
  "ReplicaSetsByCreationTimestamp_Less a b =
     (if ctl_CreationTimestamp a = ctl_CreationTimestamp b then ctl_Name a < ctl_Name b
      else ctl_CreationTimestamp a < ctl_CreationTimestamp b)"

section \<open>FakePodControl\<close>

record ('t, 'e) FakePodControl =
  Templates :: "'t list"
  DeletePodName :: "string list"
  Err :: "'e option"

definition FakePodControl_CreatePods :: "'t \<Rightarrow> ('t, 'e) FakePodControl \<Rightarrow> 'e option \<times> ('t, 'e) FakePodControl" where
  "FakePodControl_CreatePods spec f =
     (case Err f of Some e \<Rightarrow> (Some e, f) | None \<Rightarrow> (None, f\<lparr>Templates := Templates f @ [spec]\<rparr>))"

definition FakePodControl_CreatePodsOnNode ::
  "string \<Rightarrow> 't \<Rightarrow> ('t, 'e) FakePodControl \<Rightarrow> 'e option \<times> ('t, 'e) FakePodControl" where
  "FakePodControl_CreatePodsOnNode nodeName template f =
     (case Err f of Some e \<Rightarrow> (Some e, f) | None \<Rightarrow> (None, f\<lparr>Templates := Templates f @ [template]\<rparr>))"

definition FakePodControl_DeletePod :: "string \<Rightarrow> ('t, 'e) FakePodControl \<Rightarrow> 'e option \<times> ('t, 'e) FakePodControl" where
  "FakePodControl_DeletePod podID f =
     (case Err f of Some e \<Rightarrow> (Some e, f) | None \<Rightarrow> (None, f\<lparr>DeletePodName := DeletePodName f @ [podID]\<rparr>))"

definition FakePodControl_Clear :: "('t, 'e) FakePodControl \<Rightarrow> ('t, 'e) FakePodControl" where
  "FakePodControl_Clear f = f\<lparr>DeletePodName := [], Templates := []\<rparr>"

section \<open>The order is an order\<close>

text \<open>A sort key: smaller is deleted first.\<close>

definition time_key :: "go_time \<Rightarrow> bool \<times> int" where
  "time_key t = (t \<noteq> 0, - t)"

definition pod_sort_key :: "Pod \<Rightarrow> bool \<times> int \<times> bool \<times> (bool \<times> int) \<times> int \<times> (bool \<times> int)" where
  "pod_sort_key p = (NodeName p \<noteq> '''', phaseRank (Phase p), IsPodReady p, time_key (podReadyTime p),
     - maxContainerRestarts p, time_key (CreationTimestamp p))"

lemma afterOrZero_key: "t1 \<noteq> t2 \<Longrightarrow> afterOrZero t1 t2 \<longleftrightarrow> time_key t1 < time_key t2"
  by (auto simp: afterOrZero_def time_key_def)

lemma time_key_eq [simp]: "time_key a = time_key b \<longleftrightarrow> a = b"
  by (auto simp: time_key_def)

lemma podReadyTime_not_ready: "\<not> IsPodReady p \<Longrightarrow> podReadyTime p = 0"
  by (simp add: podReadyTime_def)

lemma less_pair_iff: "(a, b) < (c, d) \<longleftrightarrow> a < c \<or> a = c \<and> b < d" for a c :: "'a :: linorder" and b d :: "'b :: linorder"
  by (auto simp: less_prod_def')

lemma Less_sort_key: "ActivePods_Less p q \<longleftrightarrow> pod_sort_key p < pod_sort_key q"
proof -
  have node: "NodeName p \<noteq> NodeName q \<and> (length (NodeName p) = 0 \<or> length (NodeName q) = 0)
      \<longleftrightarrow> (NodeName p \<noteq> '''') \<noteq> (NodeName q \<noteq> '''')" by auto
  have ready: "podReadyTime p = podReadyTime q" if "\<not> IsPodReady p" "\<not> IsPodReady q"
    using that by (simp add: podReadyTime_not_ready)
  show ?thesis
    unfolding ActivePods_Less_def node pod_sort_key_def less_pair_iff
    using ready afterOrZero_key [of "podReadyTime p" "podReadyTime q"]
      afterOrZero_key [of "CreationTimestamp p" "CreationTimestamp q"]
    by (cases "IsPodReady p"; cases "IsPodReady q"; cases "NodeName p"; cases "NodeName q") auto
qed

lemma Controllers_Less_key:
  "ControllersByCreationTimestamp_Less a b \<longleftrightarrow> (ctl_CreationTimestamp a, ctl_Name a) < (ctl_CreationTimestamp b, ctl_Name b)"
  "ReplicaSetsByCreationTimestamp_Less a b \<longleftrightarrow> (ctl_CreationTimestamp a, ctl_Name a) < (ctl_CreationTimestamp b, ctl_Name b)"
  by (auto simp: ControllersByCreationTimestamp_Less_def ReplicaSetsByCreationTimestamp_Less_def less_pair_iff)

lemma fold_filter: "fold (\<lambda>x acc. if P x then acc @ [x] else acc) xs acc = acc @ filter P xs"
  by (induction xs arbitrary: acc) auto

lemma FilterActivePods_eq: "FilterActivePods pods = filter IsPodActive pods"
  by (simp add: FilterActivePods_def fold_filter)

lemma FilterActiveReplicaSets_eq: "FilterActiveReplicaSets rs = filter (\<lambda>r. ctl_Replicas r > 0) rs"
  by (simp add: FilterActiveReplicaSets_def fold_filter)

text \<open>
  \<^verbatim>\<open>ActivePods.Less\<close> is the lexicographic order of a key, hence a strict weak order, as
  \<^verbatim>\<open>sort.Sort\<close> needs: unassigned pods first, then by phase, not ready before ready, those ready
  for an unknown or shorter time first, more restarts first, newer or undated pods first.
  The orders of controllers and replica sets are those of creation time and then name.
\<close>

theorem active_pods_order:
  "(ActivePods_Less p q \<longleftrightarrow> pod_sort_key p < pod_sort_key q)
   \<and> (ControllersByCreationTimestamp_Less a b \<longleftrightarrow>
        (ctl_CreationTimestamp a, ctl_Name a) < (ctl_CreationTimestamp b, ctl_Name b))
   \<and> (ReplicaSetsByCreationTimestamp_Less a b \<longleftrightarrow>
        (ctl_CreationTimestamp a, ctl_Name a) < (ctl_CreationTimestamp b, ctl_Name b))"
  using Less_sort_key Controllers_Less_key by blast

text \<open>
  Scaling down deletes the right pods: however \<^verbatim>\<open>sort.Sort\<close> arranges the active pods, the
  first \<open>n\<close> are active pods of the input, none of those kept comes before one of them, and no
  assigned pod is deleted while an unassigned one is kept, nor a ready one while one
  that is on a node in the same phase and is not ready is kept.
\<close>

theorem scale_down_prefix:
  assumes "mset xs = mset (FilterActivePods pods)"
    and "\<forall>i j. i < j \<longrightarrow> j < length xs \<longrightarrow> \<not> ActivePods_Less (xs ! j) (xs ! i)"
    and "p \<in> set (take n xs)" and "q \<in> set (drop n xs)"
  shows "p \<in> set pods \<and> IsPodActive p \<and> \<not> ActivePods_Less q p
    \<and> (NodeName q = '''' \<longrightarrow> NodeName p = '''')
    \<and> (NodeName q \<noteq> '''' \<and> NodeName p \<noteq> '''' \<and> Phase q = Phase p \<and> \<not> IsPodReady q \<longrightarrow> \<not> IsPodReady p)"
proof -
  have "p \<in> set (FilterActivePods pods)" using assms(1,3) by (metis in_set_takeD mset_eq_setD)
  then have p: "p \<in> set pods" "IsPodActive p" by (auto simp: FilterActivePods_eq)
  obtain i where i: "i < length xs" "i < n" "xs ! i = p" using assms(3) by (auto simp: in_set_conv_nth)
  obtain j where j: "j < length (drop n xs)" "drop n xs ! j = q" using assms(4) by (auto simp: in_set_conv_nth)
  then have "xs ! (n + j) = q" "n + j < length xs" by auto
  then have less: "\<not> ActivePods_Less q p" using assms(2) i by auto
  then have key: "\<not> pod_sort_key q < pod_sort_key p" by (simp add: Less_sort_key)
  then have "NodeName q = '''' \<longrightarrow> NodeName p = ''''"
    and "NodeName q \<noteq> '''' \<and> NodeName p \<noteq> '''' \<and> Phase q = Phase p \<and> \<not> IsPodReady q \<longrightarrow> \<not> IsPodReady p"
    by (auto simp: pod_sort_key_def less_pair_iff)
  then show ?thesis using p less by blast
qed

definition example_pod :: "string \<Rightarrow> Pod" where
  "example_pod node = \<lparr>pod_Name = ''p'', pod_Namespace = ''ns'', pod_Labels = Map.empty, CreationTimestamp = 1, DeletionTimestamp = None,
     NodeName = node, Phase = PodPending, Conditions = [], RestartCounts = []\<rparr>"

theorem scale_down_prefix_witness:
  "\<not> ActivePods_Less (example_pod ''n1'') (example_pod '''')"
proof -
  have keys: "pod_sort_key (example_pod node) = (node \<noteq> '''', 0, False, (False, 0), 0, (True, -1))" for node
    by (simp add: pod_sort_key_def example_pod_def phaseRank_def IsPodReady_def IsPodReadyConditionTrue_def
        podReadyTime_def maxContainerRestarts_def time_key_def)
  have less: "\<not> ActivePods_Less (example_pod ''n1'') (example_pod '''')"
    by (simp add: Less_sort_key keys less_pair_iff)
  have "\<forall>i j. i < j \<longrightarrow> j < length [example_pod '''', example_pod ''n1''] \<longrightarrow>
      \<not> ActivePods_Less ([example_pod '''', example_pod ''n1''] ! j) ([example_pod '''', example_pod ''n1''] ! i)"
    using less by (auto simp: less_Suc_eq)
  from scale_down_prefix [of "[example_pod '''', example_pod ''n1'']" "[example_pod '''', example_pod ''n1'']",
      OF _ this, of "example_pod ''''" 1 "example_pod ''n1''"]
  show ?thesis by (simp add: FilterActivePods_eq IsPodActive_def example_pod_def)
qed

text \<open>
  The comment on \<^verbatim>\<open>PodKey\<close> says that it does exactly what \<^verbatim>\<open>MetaNamespaceKeyFunc\<close> does.  They
  agree on pods with a namespace; without one, \<^verbatim>\<open>PodKey\<close> puts a slash before the name.
\<close>

theorem pod_key_differs_without_namespace:
  "(pod_Namespace p \<noteq> '''' \<longleftrightarrow>
     MetaNamespaceKeyFunc (\<lambda>p. Inr (pod_Namespace p, pod_Name p)) (ApiObject p) = Inr (PodKey p))
   \<and> PodKey (example_pod ''''\<lparr>pod_Namespace := ''''\<rparr>) = ''/p''"
proof -
  have "name \<noteq> ''/'' @ name" for name :: string by (metis append_self_conv2 list.distinct(1))
  then show ?thesis by (auto simp: MetaNamespaceKeyFunc_def PodKey_def example_pod_def)
qed

end
