(* ===== verification/Pod_Control.thy ===== *)
theory Pod_Control
  imports Active_Pods Label_Selectors
begin

text \<open>
  \<^verbatim>\<open>RealPodControl\<close> of \<^verbatim>\<open>pkg/controller/controller_utils.go\<close>: how a controller makes a pod from its
  template and sends it to the API server.  The API server client is a state with its
  operations as arguments; what the code asks of the runtime scheme (the reference to an object,
  its encoding, its metadata, the conversion of a pod spec) is a record of functions.  The
  recorder is the list of the reasons it was called with.
\<close>

section \<open>Templates and requests\<close>

record 'sp PodTemplateSpec =
  tmpl_Labels :: label_Set
  tmpl_Annotations :: label_Set
  tmpl_Spec :: 'sp

text \<open>The pod in a create call.  \<open>req_NodeName\<close> is the node name set by the caller, if any.\<close>

record 'sp pod_request =
  req_Labels :: label_Set
  req_Annotations :: label_Set
  req_GenerateName :: string
  req_Spec :: 'sp
  req_NodeName :: "string option"

datatype pod_control_error =
    NoReference go_error
  | NotSerializable go_error
  | NoObjectMeta go_error
  | NotConvertible go_error
  | NoLabels
  | CreateFailed go_error
  | DeleteFailed go_error
  | SliceOutOfRange \<comment> \<open>a panic, not an error value\<close>

record ('o, 'ref, 'sp) scheme =
  GetReference :: "'o \<Rightarrow> go_error + 'ref"
  EncodeReference :: "'ref \<Rightarrow> go_error + string"
  ObjectMetaName :: "'o \<Rightarrow> go_error + string"
  ConvertSpec :: "'sp \<Rightarrow> go_error + 'sp"

record 'k RealPodControl =
  KubeClient :: 'k
  Recorder :: "string list"

definition CreatedByAnnotation :: string where
  "CreatedByAnnotation = ''kubernetes.io/created-by''"

definition getPodsLabelSet :: "(string, string) go_range \<Rightarrow> 'sp PodTemplateSpec \<Rightarrow> label_Set" where
  "getPodsLabelSet rng template = fold (\<lambda>(k, v) m. m(k \<mapsto> v)) (rng (tmpl_Labels template)) Map.empty"

definition getPodsAnnotationSet ::
  "('o, 'ref, 'sp) scheme \<Rightarrow> (string, string) go_range \<Rightarrow> 'sp PodTemplateSpec \<Rightarrow> 'o
     \<Rightarrow> pod_control_error + label_Set" where
  "getPodsAnnotationSet sch rng template object =
     (let desiredAnnotations = fold (\<lambda>(k, v) m. m(k \<mapsto> v)) (rng (tmpl_Annotations template)) Map.empty
      in case GetReference sch object of
           Inl err \<Rightarrow> Inl (NoReference err)
         | Inr createdByRef \<Rightarrow>
             (case EncodeReference sch createdByRef of
                Inl err \<Rightarrow> Inl (NotSerializable err)
              | Inr createdByRefJson \<Rightarrow> Inr (desiredAnnotations(CreatedByAnnotation \<mapsto> createdByRefJson))))"

text \<open>\<^verbatim>\<open>None\<close> is the panic of the name validator.\<close>

definition getPodsPrefix :: "string \<Rightarrow> string option" where
  "getPodsPrefix controllerName =
     (let prefix = controllerName @ ''-''
      in map_option (\<lambda>ok. if \<not> ok then controllerName else prefix) (ValidatePodName prefix True))"

section \<open>Creating and deleting\<close>

definition createPods ::
  "('o, 'ref, 'sp) scheme \<Rightarrow> (string, string) go_range \<Rightarrow> (string \<Rightarrow> 'f option) \<Rightarrow> sorter
     \<Rightarrow> (string \<Rightarrow> 'sp pod_request \<Rightarrow> 'k \<Rightarrow> (go_error + string) \<times> 'k)
     \<Rightarrow> string \<Rightarrow> string \<Rightarrow> 'sp PodTemplateSpec \<Rightarrow> 'o \<Rightarrow> 'k RealPodControl
     \<Rightarrow> pod_control_error option \<times> 'k RealPodControl" where
  "createPods sch rng pf srt create nodeName namespace template object r =
     (let desiredLabels = getPodsLabelSet rng template
      in case getPodsAnnotationSet sch rng template object of
           Inl err \<Rightarrow> (Some err, r)
         | Inr desiredAnnotations \<Rightarrow>
             (case ObjectMetaName sch object of
                Inl err \<Rightarrow> (Some (NoObjectMeta err), r)
              | Inr name \<Rightarrow>
                  (case getPodsPrefix name of
                     None \<Rightarrow> (Some SliceOutOfRange, r)
                   | Some prefix \<Rightarrow>
                       (case ConvertSpec sch (tmpl_Spec template) of
                          Inl err \<Rightarrow> (Some (NotConvertible err), r)
                        | Inr spec \<Rightarrow>
                            (let pod = \<lparr>req_Labels = desiredLabels, req_Annotations = desiredAnnotations,
                                        req_GenerateName = prefix, req_Spec = spec,
                                        req_NodeName = (if length nodeName \<noteq> 0 then Some nodeName else None)\<rparr>
                             in if Selector_Empty (Set_AsSelector pf srt rng (Some (req_Labels pod)))
                                then (Some NoLabels, r)
                                else case create namespace pod (KubeClient r) of
                                  (Inl err, k) \<Rightarrow>
                                    (Some (CreateFailed err),
                                     r\<lparr>KubeClient := k, Recorder := Recorder r @ [''FailedCreate'']\<rparr>)
                                | (Inr newPod, k) \<Rightarrow>
                                    (None, r\<lparr>KubeClient := k, Recorder := Recorder r @ [''SuccessfulCreate'']\<rparr>))))))"

definition RealPodControl_CreatePods where
  "RealPodControl_CreatePods sch rng pf srt create namespace template object r =
     createPods sch rng pf srt create '''' namespace template object r"

definition RealPodControl_CreatePodsOnNode where
  "RealPodControl_CreatePodsOnNode sch rng pf srt create nodeName namespace template object r =
     createPods sch rng pf srt create nodeName namespace template object r"

definition RealPodControl_DeletePod ::
  "('o, 'ref, 'sp) scheme \<Rightarrow> (string \<Rightarrow> string \<Rightarrow> 'k \<Rightarrow> go_error option \<times> 'k)
     \<Rightarrow> string \<Rightarrow> string \<Rightarrow> 'o \<Rightarrow> 'k RealPodControl \<Rightarrow> pod_control_error option \<times> 'k RealPodControl" where
  "RealPodControl_DeletePod sch delete namespace podID object r =
     (case ObjectMetaName sch object of
        Inl err \<Rightarrow> (Some (NoObjectMeta err), r)
      | Inr name \<Rightarrow>
          (case delete namespace podID (KubeClient r) of
             (Some err, k) \<Rightarrow>
               (Some (DeleteFailed err), r\<lparr>KubeClient := k, Recorder := Recorder r @ [''FailedDelete'']\<rparr>)
           | (None, k) \<Rightarrow>
               (None, r\<lparr>KubeClient := k, Recorder := Recorder r @ [''SuccessfulDelete'']\<rparr>)))"

section \<open>What is created\<close>

lemma fold_upd_entries:
  assumes "map_entries es m"
  shows "fold (\<lambda>(k, v) m. m(k \<mapsto> v)) es Map.empty = m"
proof -
  have "distinct (map fst es) \<Longrightarrow> fold (\<lambda>(k, v) m. m(k \<mapsto> v)) es m0 = m0 ++ map_of es" for m0 :: "'a \<rightharpoonup> 'b"
    by (induction es arbitrary: m0) (auto simp: map_add_upd_left dom_map_of_conv_image_fst)
  then show ?thesis using assms by (simp add: map_entries_def)
qed

lemma SelectorFromSet_loop_Some:
  "SelectorFromSet_loop pf ls rs = Some rs' \<Longrightarrow> length rs' = length rs + length ls
     \<and> (\<forall>(k, v) \<in> set ls. IsQualifiedName k \<and> IsValidLabelValue v)"
proof (induction ls arbitrary: rs)
  case (Cons l ls)
  obtain k v where l: "l = (k, v)" by (cases l)
  obtain r where r: "NewRequirement pf k EqualsOperator (sets_NewString [v]) = Inr r"
    and loop: "SelectorFromSet_loop pf ls (rs @ [r]) = Some rs'"
    using Cons.prems by (auto simp: l split: sum.splits)
  have "IsQualifiedName k \<and> IsValidLabelValue v"
    using r unfolding NewRequirement_Inr by (simp add: sets_NewString_eq)
  then show ?case using Cons.IH [OF loop] by (auto simp: l)
qed simp

lemma AsSelector_not_empty:
  assumes "\<not> Selector_Empty (Set_AsSelector pf srt rng (Some ls))" and "map_entries (rng ls) ls" and "sort_ok srt"
  shows "ls \<noteq> Map.empty \<and> (\<forall>k v. ls k = Some v \<longrightarrow> IsQualifiedName k \<and> IsValidLabelValue v)"
proof -
  obtain rs where rs: "SelectorFromSet_loop pf (rng ls) [] = Some rs" "srt rs \<noteq> []"
    using assms(1) by (auto simp: Set_AsSelector_def SelectorFromSet_def split: option.splits)
  have "length (srt rs) = length rs" using assms(3) unfolding sort_ok_def by (metis size_mset)
  then have "rng ls \<noteq> []" using rs(2) SelectorFromSet_loop_Some [OF rs(1)] by auto
  then show ?thesis
    using SelectorFromSet_loop_Some [OF rs(1)] assms(2) by (auto simp: map_entries_mem map_entries_empty_iff)
qed

text \<open>
  A pod that \<^verbatim>\<open>CreatePods\<close> reports as created was sent to the API server in one call, in the given
  namespace, with exactly the labels of the template, of which there is at least one and all
  are valid, and with the annotation that names its creator; the success was recorded.  When
  it fails before that call, nothing was sent and nothing recorded.
\<close>

theorem created_pods_are_labelled:
  assumes "go_range_ok rng" and "finite (dom (tmpl_Labels template))" and "sort_ok srt"
    and "RealPodControl_CreatePods sch rng pf srt create namespace template object r = (err, r')"
  shows "(err = None \<longrightarrow> (\<exists>pod newPod k. create namespace pod (KubeClient r) = (Inr newPod, k)
        \<and> KubeClient r' = k \<and> Recorder r' = Recorder r @ [''SuccessfulCreate'']
        \<and> req_Labels pod = tmpl_Labels template \<and> req_Labels pod \<noteq> Map.empty
        \<and> (\<forall>key v. req_Labels pod key = Some v \<longrightarrow> IsQualifiedName key \<and> IsValidLabelValue v)
        \<and> (\<exists>ref. GetReference sch object = Inr ref
             \<and> map_sum id Some (EncodeReference sch ref) = Inr (req_Annotations pod CreatedByAnnotation))
        \<and> req_NodeName pod = None))
    \<and> (err \<noteq> None \<and> (\<forall>e. err \<noteq> Some (CreateFailed e)) \<longrightarrow> r' = r)"
proof -
  have ent: "map_entries (rng (tmpl_Labels template)) (tmpl_Labels template)"
    by (rule go_rangeD [OF assms(1,2)])
  have labels: "getPodsLabelSet rng template = tmpl_Labels template"
    by (simp add: getPodsLabelSet_def fold_upd_entries [OF ent])
  show ?thesis
    using assms(4) AsSelector_not_empty [where ls = "tmpl_Labels template" and pf = pf and rng = rng, OF _ ent assms(3)]
    by (auto simp: RealPodControl_CreatePods_def createPods_def labels getPodsAnnotationSet_def Let_def
        split: sum.splits option.splits if_splits prod.splits)
      (intro exI conjI, assumption, simp_all)
qed

theorem created_pods_are_labelled_witness:
  "let sch = \<lparr>GetReference = \<lambda>_. Inr (), EncodeReference = \<lambda>_. Inr ''ref'', ObjectMetaName = \<lambda>_. Inr ''rs'',
              ConvertSpec = Inr\<rparr>;
       r = \<lparr>KubeClient = [], Recorder = []\<rparr>;
       tmpl = \<lparr>tmpl_Labels = [''app'' \<mapsto> ''web''], tmpl_Annotations = Map.empty, tmpl_Spec = ()\<rparr>;
       (err, r') = RealPodControl_CreatePods sch sorted_range (\<lambda>_. Some ()) (sort_key req_key)
         (\<lambda>ns pod pods. (Inr ''rs-1'', pods @ [(ns, req_Labels pod ''app'')])) ''ns'' tmpl () r
   in err = None \<and> KubeClient r' = [(''ns'', Some ''web'')]"
proof -
  define r where "r = \<lparr>KubeClient = [] :: (string \<times> string option) list, Recorder = []\<rparr>"
  define create where "create = (\<lambda>ns (pod :: unit pod_request) pods.
    (Inr ''rs-1'' :: go_error + string, pods @ [(ns :: string, req_Labels pod ''app'')]))"
  define sch where "sch = \<lparr>GetReference = \<lambda>_ :: unit. Inr () :: go_error + unit, EncodeReference = \<lambda>_. Inr ''ref'',
    ObjectMetaName = \<lambda>_. Inr ''rs'', ConvertSpec = Inr :: unit \<Rightarrow> go_error + unit\<rparr>"
  define tmpl where "tmpl = \<lparr>tmpl_Labels = [''app'' \<mapsto> ''web''], tmpl_Annotations = Map.empty, tmpl_Spec = ()\<rparr>"
  obtain err r' where res: "RealPodControl_CreatePods sch sorted_range (\<lambda>_. Some ()) (sort_key req_key) create ''ns'' tmpl () r
      = (err, r')" by fastforce
  have range: "sorted_range [''app'' \<mapsto> ''web''] = [(''app'', ''web'')]" by (simp add: sorted_range_def)
  obtain prefix where "getPodsPrefix ''rs'' = Some prefix"
    by (simp add: getPodsPrefix_def ValidatePodName_def NameIsDNSSubdomain_def maskIfPrefix_def maskTrailingDash_def)
  moreover have "\<not> Selector_Empty (Set_AsSelector (\<lambda>_. Some ()) (sort_key req_key) sorted_range (Some [''app'' \<mapsto> ''web'']))"
    using valid_example [of "\<lambda>_. Some ()" EqualsOperator]
    by (simp add: Set_AsSelector_def SelectorFromSet_def range sets_NewString_def operatorValues_def sets_Len_def)
  ultimately have "err = None"
    using res by (auto simp: RealPodControl_CreatePods_def createPods_def getPodsAnnotationSet_def sch_def
        getPodsLabelSet_def tmpl_def range create_def split: prod.splits)
  then show ?thesis
    using created_pods_are_labelled [OF sorted_range_ok _ sort_ok_sort_key res] res
    by (auto simp: r_def create_def sch_def tmpl_def Let_def)
qed

end
