(* ===== verification/Lookup_Cache.thy ===== *)
theory Lookup_Cache
  imports Labels
begin

text \<open>
  \<^verbatim>\<open>pkg/controller/lookup_cache.go\<close>: which controller manages the pods with given labels, in a
  least-recently-used cache of bounded size, and the cache of \<^verbatim>\<open>groupcache/lru\<close> below it.  The cache
  keeps a linked list and a map from keys to its elements; the model is the list, front first,
  whose keys are those of the map.  The hash of a namespace with labels is the argument \<open>hash\<close>.
\<close>

section \<open>The cache below\<close>

record 'v lru =
  MaxEntries :: int
  lru_list :: "(nat \<times> 'v) list"

definition lru_New :: "int \<Rightarrow> 'v lru" where
  "lru_New maxEntries = \<lparr>MaxEntries = maxEntries, lru_list = []\<rparr>"

definition lru_removeElement :: "nat \<Rightarrow> 'v lru \<Rightarrow> 'v lru" where
  "lru_removeElement key c = c\<lparr>lru_list := filter (\<lambda>e. fst e \<noteq> key) (lru_list c)\<rparr>"

definition lru_RemoveOldest :: "'v lru \<Rightarrow> 'v lru" where
  "lru_RemoveOldest c = (if lru_list c = [] then c else lru_removeElement (fst (last (lru_list c))) c)"

definition lru_Add :: "nat \<Rightarrow> 'v \<Rightarrow> 'v lru \<Rightarrow> 'v lru" where
  "lru_Add key val c =
     (if key \<in> fst ` set (lru_list c)
      then c\<lparr>lru_list := (key, val) # filter (\<lambda>e. fst e \<noteq> key) (lru_list c)\<rparr>
      else let c = c\<lparr>lru_list := (key, val) # lru_list c\<rparr>
           in if MaxEntries c \<noteq> 0 \<and> int (length (lru_list c)) > MaxEntries c then lru_RemoveOldest c else c)"

definition lru_Get :: "nat \<Rightarrow> 'v lru \<Rightarrow> 'v option \<times> 'v lru" where
  "lru_Get key c =
     (case map_of (lru_list c) key of
        None \<Rightarrow> (None, c)
      | Some val \<Rightarrow> (Some val, c\<lparr>lru_list := (key, val) # filter (\<lambda>e. fst e \<noteq> key) (lru_list c)\<rparr>))"

definition lru_Remove :: "nat \<Rightarrow> 'v lru \<Rightarrow> 'v lru" where
  "lru_Remove key c = lru_removeElement key c"

definition lru_Len :: "'v lru \<Rightarrow> nat" where
  "lru_Len c = length (lru_list c)"

section \<open>MatchingCache\<close>

text \<open>What the hash is taken of: the namespace and the labels.\<close>

type_synonym equivalenceLabelObj = "string \<times> label_Set"

type_synonym 'v MatchingCache = "'v lru"

definition NewMatchingCache :: "int \<Rightarrow> 'v MatchingCache" where
  "NewMatchingCache maxCacheEntries = lru_New maxCacheEntries"

definition MatchingCache_Add ::
  "(equivalenceLabelObj \<Rightarrow> nat) \<Rightarrow> equivalenceLabelObj \<Rightarrow> 'v \<Rightarrow> 'v MatchingCache \<Rightarrow> 'v MatchingCache" where
  "MatchingCache_Add hash labelObj selectorObj c = lru_Add (hash labelObj) selectorObj c"

definition GetMatchingObject ::
  "(equivalenceLabelObj \<Rightarrow> nat) \<Rightarrow> equivalenceLabelObj \<Rightarrow> 'v MatchingCache \<Rightarrow> 'v option \<times> 'v MatchingCache" where
  "GetMatchingObject hash labelObj c = lru_Get (hash labelObj) c"

definition MatchingCache_Update ::
  "(equivalenceLabelObj \<Rightarrow> nat) \<Rightarrow> equivalenceLabelObj \<Rightarrow> 'v \<Rightarrow> 'v MatchingCache \<Rightarrow> 'v MatchingCache" where
  "MatchingCache_Update hash labelObj selectorObj c = MatchingCache_Add hash labelObj selectorObj c"

definition InvalidateAll :: "'v MatchingCache \<Rightarrow> 'v MatchingCache" where
  "InvalidateAll c = lru_New (MaxEntries c)"

section \<open>A bounded map\<close>

definition lru_inv :: "'v lru \<Rightarrow> bool" where
  "lru_inv c \<longleftrightarrow> distinct (map fst (lru_list c)) \<and> (0 < MaxEntries c \<longrightarrow> int (lru_Len c) \<le> MaxEntries c)"

lemma distinct_filter_fst: "distinct (map fst xs) \<Longrightarrow> distinct (map fst (filter P xs))"
  by (induction xs) auto

lemma length_filter_other:
  assumes "distinct (map fst xs)" and "k \<in> fst ` set xs"
  shows "Suc (length (filter (\<lambda>e. fst e \<noteq> k) xs)) = length xs"
  using assms
proof (induction xs)
  case (Cons x xs)
  show ?case
  proof (cases "fst x = k")
    case True
    then have "k \<notin> fst ` set xs" using Cons.prems(1) by simp
    then have "filter (\<lambda>e. fst e \<noteq> k) xs = xs" by (metis (mono_tags, lifting) filter_True image_eqI)
    then show ?thesis using True by simp
  next
    case False
    then show ?thesis using Cons by auto
  qed
qed simp

lemma lru_inv_New: "lru_inv (lru_New n)"
  by (simp add: lru_inv_def lru_New_def lru_Len_def)

lemma lru_inv_Get: "lru_inv c \<Longrightarrow> lru_inv (snd (lru_Get k c))"
proof (cases "map_of (lru_list c) k")
  case (Some v)
  assume inv: "lru_inv c"
  have "k \<in> fst ` set (lru_list c)" using Some by (metis domI dom_map_of_conv_image_fst)
  then have "Suc (length (filter (\<lambda>e. fst e \<noteq> k) (lru_list c))) = length (lru_list c)"
    using inv by (intro length_filter_other) (simp_all add: lru_inv_def)
  then show ?thesis using inv Some by (auto simp: lru_inv_def lru_Get_def lru_Len_def distinct_filter_fst)
qed (simp add: lru_Get_def)

lemma lru_inv_Add: "lru_inv c \<Longrightarrow> lru_inv (lru_Add k v c)"
proof -
  assume inv: "lru_inv c"
  show ?thesis
  proof (cases "k \<in> fst ` set (lru_list c)")
    case True
    then have "Suc (length (filter (\<lambda>e. fst e \<noteq> k) (lru_list c))) = length (lru_list c)"
      using inv by (intro length_filter_other) (simp_all add: lru_inv_def)
    then show ?thesis using inv True by (auto simp: lru_inv_def lru_Add_def lru_Len_def distinct_filter_fst)
  next
    case False
    define xs where "xs = (k, v) # lru_list c"
    have d: "distinct (map fst xs)" using inv False by (simp add: lru_inv_def xs_def)
    have "Suc (length (filter (\<lambda>e. fst e \<noteq> fst (last xs)) xs)) = length xs"
      by (rule length_filter_other [OF d]) (simp add: xs_def)
    then show ?thesis using inv False d
      by (auto simp: lru_inv_def lru_Add_def lru_RemoveOldest_def lru_removeElement_def lru_Len_def
          distinct_filter_fst xs_def Let_def)
  qed
qed

lemma lru_Get_values: "set (lru_list (snd (lru_Get k c))) \<subseteq> set (lru_list c)"
  by (auto simp: lru_Get_def dest: map_of_SomeD split: option.split)

lemma lru_Add_values: "set (lru_list (lru_Add k v c)) \<subseteq> insert (k, v) (set (lru_list c))"
  by (auto simp: lru_Add_def lru_RemoveOldest_def lru_removeElement_def Let_def)

end
