(* ===== verification/Controller_Expectations.thy ===== *)
theory Controller_Expectations
  imports Cache_Store Sets_String "HOL-Library.Word"
begin

text \<open>
  \<^verbatim>\<open>pkg/controller/controller_utils.go\<close>, expectations: how many creations and deletions a
  controller still has to see before it may act again.

  The stores hold pointers, and the counters behind a pointer are changed in place, so the
  model has a heap: a list of structs indexed by address, \<^verbatim>\<open>&T{...}\<close> appends.  The \<^verbatim>\<open>key\<close> field
  is never written after the allocation and travels with the pointer.  The counters are
  \<^verbatim>\<open>int64\<close>; time is in nanoseconds and the clock is an argument.
\<close>

section \<open>ControllerExpectations\<close>

text \<open>The dynamic types the key functions tell apart: a pointer is an address and the key.\<close>

datatype tracked = ControlleeExpectationsPtr nat key | UIDSetPtr nat key

record ControlleeExpectations =
  exp_add :: "64 word"
  exp_del :: "64 word"
  exp_key :: key
  exp_timestamp :: int

definition ExpectationsTimeout :: int where
  "ExpectationsTimeout = 5 * 60 * 1000000000"

definition ExpKeyFunc :: "tracked KeyFunc" where
  "ExpKeyFunc obj = (case obj of
      Some (ControlleeExpectationsPtr _ key) \<Rightarrow> Inr key
    | _ \<Rightarrow> Inl ''Could not find key for obj'')"

definition ControlleeExpectations_Add ::
  "64 word \<Rightarrow> 64 word \<Rightarrow> ControlleeExpectations \<Rightarrow> ControlleeExpectations" where
  "ControlleeExpectations_Add add del e = e\<lparr>exp_add := exp_add e + add, exp_del := exp_del e + del\<rparr>"

definition ControlleeExpectations_Fulfilled :: "ControlleeExpectations \<Rightarrow> bool" where
  "ControlleeExpectations_Fulfilled e \<longleftrightarrow> sint (exp_add e) \<le> 0 \<and> sint (exp_del e) \<le> 0"

definition ControlleeExpectations_GetExpectations :: "ControlleeExpectations \<Rightarrow> 64 word \<times> 64 word" where
  "ControlleeExpectations_GetExpectations e = (exp_add e, exp_del e)"

definition ControlleeExpectations_isExpired :: "int \<Rightarrow> ControlleeExpectations \<Rightarrow> bool" where
  "ControlleeExpectations_isExpired now e \<longleftrightarrow> now - exp_timestamp e > ExpectationsTimeout"

record ControllerExpectations =
  exp_Store :: "tracked cache"
  exp_heap :: "ControlleeExpectations list"

definition NewControllerExpectations :: ControllerExpectations where
  "NewControllerExpectations = \<lparr>exp_Store = NewStore ExpKeyFunc, exp_heap = []\<rparr>"

text \<open>
  \<^verbatim>\<open>GetByKey\<close> of the cache returns no error.  The result is the address behind the pointer;
  the type assertion on another dynamic type would panic, which the invariant excludes.
\<close>

definition ControllerExpectations_GetExpectations :: "key \<Rightarrow> ControllerExpectations \<Rightarrow> nat option" where
  "ControllerExpectations_GetExpectations controllerKey r =
     (case cache_GetByKey controllerKey (exp_Store r) of
        (Some (ControlleeExpectationsPtr a _), True) \<Rightarrow> Some a
      | _ \<Rightarrow> None)"

definition ControllerExpectations_DeleteExpectations ::
  "key \<Rightarrow> ControllerExpectations \<Rightarrow> ControllerExpectations" where
  "ControllerExpectations_DeleteExpectations controllerKey r =
     (case cache_GetByKey controllerKey (exp_Store r) of
        (exp, True) \<Rightarrow> (case cache_Delete [] exp (exp_Store r) of (_, s) \<Rightarrow> r\<lparr>exp_Store := s\<rparr>)
      | _ \<Rightarrow> r)"

definition ControllerExpectations_SatisfiedExpectations :: "int \<Rightarrow> key \<Rightarrow> ControllerExpectations \<Rightarrow> bool" where
  "ControllerExpectations_SatisfiedExpectations now controllerKey r =
     (case ControllerExpectations_GetExpectations controllerKey r of
        Some a \<Rightarrow>
          (let exp = exp_heap r ! a
           in if ControlleeExpectations_Fulfilled exp then True
              else if ControlleeExpectations_isExpired now exp then True
              else False)
      | None \<Rightarrow> True)"

definition ControllerExpectations_SetExpectations ::
  "int \<Rightarrow> key \<Rightarrow> 64 word \<Rightarrow> 64 word \<Rightarrow> ControllerExpectations
     \<Rightarrow> tracked KeyError option \<times> ControllerExpectations" where
  "ControllerExpectations_SetExpectations now controllerKey add del r =
     (let exp = length (exp_heap r);
          r = r\<lparr>exp_heap := exp_heap r @ [\<lparr>exp_add = add, exp_del = del, exp_key = controllerKey,
                                            exp_timestamp = now\<rparr>]\<rparr>
      in case cache_Add [] [] (Some (ControlleeExpectationsPtr exp controllerKey)) (exp_Store r) of
           (err, s) \<Rightarrow> (err, r\<lparr>exp_Store := s\<rparr>))"

definition ControllerExpectations_ExpectCreations ::
  "int \<Rightarrow> key \<Rightarrow> 64 word \<Rightarrow> ControllerExpectations \<Rightarrow> tracked KeyError option \<times> ControllerExpectations" where
  "ControllerExpectations_ExpectCreations now controllerKey adds r =
     ControllerExpectations_SetExpectations now controllerKey adds 0 r"

definition ControllerExpectations_ExpectDeletions ::
  "int \<Rightarrow> key \<Rightarrow> 64 word \<Rightarrow> ControllerExpectations \<Rightarrow> tracked KeyError option \<times> ControllerExpectations" where
  "ControllerExpectations_ExpectDeletions now controllerKey dels r =
     ControllerExpectations_SetExpectations now controllerKey 0 dels r"

text \<open>The in-place update behind a pointer.\<close>

definition exp_AddAt :: "nat \<Rightarrow> 64 word \<Rightarrow> 64 word \<Rightarrow> ControllerExpectations \<Rightarrow> ControllerExpectations" where
  "exp_AddAt a add del r =
     r\<lparr>exp_heap := (exp_heap r)[a := ControlleeExpectations_Add add del (exp_heap r ! a)]\<rparr>"

definition ControllerExpectations_LowerExpectations ::
  "key \<Rightarrow> 64 word \<Rightarrow> 64 word \<Rightarrow> ControllerExpectations \<Rightarrow> ControllerExpectations" where
  "ControllerExpectations_LowerExpectations controllerKey add del r =
     (case ControllerExpectations_GetExpectations controllerKey r of
        Some exp \<Rightarrow> exp_AddAt exp (- add) (- del) r
      | None \<Rightarrow> r)"

definition ControllerExpectations_RaiseExpectations ::
  "key \<Rightarrow> 64 word \<Rightarrow> 64 word \<Rightarrow> ControllerExpectations \<Rightarrow> ControllerExpectations" where
  "ControllerExpectations_RaiseExpectations controllerKey add del r =
     (case ControllerExpectations_GetExpectations controllerKey r of
        Some exp \<Rightarrow> exp_AddAt exp add del r
      | None \<Rightarrow> r)"

definition ControllerExpectations_CreationObserved :: "key \<Rightarrow> ControllerExpectations \<Rightarrow> ControllerExpectations" where
  "ControllerExpectations_CreationObserved controllerKey r =
     ControllerExpectations_LowerExpectations controllerKey 1 0 r"

definition ControllerExpectations_DeletionObserved :: "key \<Rightarrow> ControllerExpectations \<Rightarrow> ControllerExpectations" where
  "ControllerExpectations_DeletionObserved controllerKey r =
     ControllerExpectations_LowerExpectations controllerKey 0 1 r"

section \<open>UIDTrackingControllerExpectations\<close>

text \<open>
  The embedded \<^verbatim>\<open>ControllerExpectationsInterface\<close> is any state; its methods are arguments.  The
  heap holds the UID sets, Go maps that are changed in place.
\<close>

record 'c UIDTrackingControllerExpectations =
  embedded :: 'c
  uidStore :: "tracked cache"
  uid_heap :: "sets_String list"

definition UIDSetKeyFunc :: "tracked KeyFunc" where
  "UIDSetKeyFunc obj = (case obj of
      Some (UIDSetPtr _ key) \<Rightarrow> Inr key
    | _ \<Rightarrow> Inl ''Could not find key for obj'')"

definition NewUIDTrackingControllerExpectations :: "'c \<Rightarrow> 'c UIDTrackingControllerExpectations" where
  "NewUIDTrackingControllerExpectations ce =
     \<lparr>embedded = ce, uidStore = NewStore UIDSetKeyFunc, uid_heap = []\<rparr>"

text \<open>The address of the set, \<^verbatim>\<open>None\<close> for \<^verbatim>\<open>nil\<close>.\<close>

definition UIDTracking_GetUIDs :: "key \<Rightarrow> 'c UIDTrackingControllerExpectations \<Rightarrow> nat option" where
  "UIDTracking_GetUIDs controllerKey u =
     (case cache_GetByKey controllerKey (uidStore u) of
        (Some (UIDSetPtr a _), True) \<Rightarrow> Some a
      | _ \<Rightarrow> None)"

definition UIDTracking_ExpectDeletions ::
  "(key \<Rightarrow> 64 word \<Rightarrow> 'c \<Rightarrow> tracked KeyError option \<times> 'c) \<Rightarrow> key \<Rightarrow> string list
     \<Rightarrow> 'c UIDTrackingControllerExpectations
     \<Rightarrow> tracked KeyError option \<times> 'c UIDTrackingControllerExpectations" where
  "UIDTracking_ExpectDeletions expectDeletions rcKey deletedKeys u =
     (let expectedUIDs = fold (\<lambda>k s. sets_Insert s [k]) deletedKeys (sets_NewString []);
          a = length (uid_heap u);
          u = u\<lparr>uid_heap := uid_heap u @ [expectedUIDs]\<rparr>
      in case cache_Add [] [] (Some (UIDSetPtr a rcKey)) (uidStore u) of
           (Some err, s) \<Rightarrow> (Some err, u\<lparr>uidStore := s\<rparr>)
         | (None, s) \<Rightarrow>
             (case expectDeletions rcKey (word_of_nat (sets_Len expectedUIDs)) (embedded u) of
                (err, ce) \<Rightarrow> (err, u\<lparr>uidStore := s, embedded := ce\<rparr>)))"

definition UIDTracking_DeletionObserved ::
  "(key \<Rightarrow> 'c \<Rightarrow> 'c) \<Rightarrow> key \<Rightarrow> string \<Rightarrow> 'c UIDTrackingControllerExpectations
     \<Rightarrow> 'c UIDTrackingControllerExpectations" where
  "UIDTracking_DeletionObserved deletionObserved rcKey deleteKey u =
     (case UIDTracking_GetUIDs rcKey u of
        Some uids \<Rightarrow>
          if sets_Has (uid_heap u ! uids) deleteKey
          then u\<lparr>embedded := deletionObserved rcKey (embedded u),
                 uid_heap := (uid_heap u)[uids := sets_Delete (uid_heap u ! uids) [deleteKey]]\<rparr>
          else u
      | None \<Rightarrow> u)"

definition UIDTracking_DeleteExpectations ::
  "(key \<Rightarrow> 'c \<Rightarrow> 'c) \<Rightarrow> key \<Rightarrow> 'c UIDTrackingControllerExpectations
     \<Rightarrow> 'c UIDTrackingControllerExpectations" where
  "UIDTracking_DeleteExpectations deleteExpectations rcKey u =
     (let u = u\<lparr>embedded := deleteExpectations rcKey (embedded u)\<rparr>
      in case cache_GetByKey rcKey (uidStore u) of
           (uidExp, True) \<Rightarrow> (case cache_Delete [] uidExp (uidStore u) of (_, s) \<Rightarrow> u\<lparr>uidStore := s\<rparr>)
         | _ \<Rightarrow> u)"

section \<open>The expectations of a controller\<close>

text \<open>
  The abstract view: per controller the struct its pointer leads to.  The invariant says
  that every stored pointer is valid and leads to a struct with the key it is stored under,
  so that no two controllers share counters.
\<close>

definition exp_at :: "ControllerExpectations \<Rightarrow> key \<Rightarrow> ControlleeExpectations option" where
  "exp_at r k = map_option ((!) (exp_heap r)) (ControllerExpectations_GetExpectations k r)"

definition ce_inv :: "ControllerExpectations \<Rightarrow> bool" where
  "ce_inv r \<longleftrightarrow> store_inv ExpKeyFunc (exp_Store r)
     \<and> (\<forall>k p. store_contents (exp_Store r) k = Some p \<longrightarrow>
          (\<exists>a. p = Some (ControlleeExpectationsPtr a k) \<and> a < length (exp_heap r)
            \<and> exp_key (exp_heap r ! a) = k))"

lemma cache_GetByKey_contents:
  "cache_GetByKey k c = (case store_contents c k of None \<Rightarrow> (None, False) | Some obj \<Rightarrow> (obj, True))"
  by (auto simp: cache_GetByKey_def threadSafeMap_Get_def item_at_def split: option.splits)

lemma ce_inv_store: "ce_inv r \<Longrightarrow> store_inv ExpKeyFunc (exp_Store r)"
  by (simp add: ce_inv_def)

lemma ce_inv_ptr:
  assumes "ce_inv r" and "store_contents (exp_Store r) k = Some p"
  obtains a where "p = Some (ControlleeExpectationsPtr a k)" "a < length (exp_heap r)"
    "exp_key (exp_heap r ! a) = k"
  using assms unfolding ce_inv_def by blast

lemma GetExpectations_iff:
  assumes "ce_inv r"
  shows "ControllerExpectations_GetExpectations k r = Some a \<longleftrightarrow>
    store_contents (exp_Store r) k = Some (Some (ControlleeExpectationsPtr a k))"
proof (cases "store_contents (exp_Store r) k")
  case None
  then show ?thesis by (simp add: ControllerExpectations_GetExpectations_def cache_GetByKey_contents)
next
  case (Some p)
  then obtain b where "p = Some (ControlleeExpectationsPtr b k)" by (rule ce_inv_ptr [OF assms])
  then show ?thesis using Some
    by (simp add: ControllerExpectations_GetExpectations_def cache_GetByKey_contents)
qed

lemma ExpKeyFunc_ptr [simp]: "ExpKeyFunc (Some (ControlleeExpectationsPtr a k)) = Inr k"
  by (simp add: ExpKeyFunc_def)

lemma GetExpectations_valid:
  assumes "ce_inv r" and "ControllerExpectations_GetExpectations k r = Some a"
  shows "a < length (exp_heap r)" and "exp_key (exp_heap r ! a) = k"
  using assms(2) unfolding GetExpectations_iff [OF assms(1)]
  by (auto elim: ce_inv_ptr [OF assms(1)])

text \<open>The methods on the abstract view.\<close>

lemma ce_inv_New [go_inv]: "ce_inv NewControllerExpectations"
  using store_inv_NewStore
  by (simp add: ce_inv_def NewControllerExpectations_def NewStore_def NewThreadSafeStore_def store_inv_def)

lemma ce_inv_cong: "exp_Store r' = exp_Store r \<Longrightarrow>
  ControllerExpectations_GetExpectations k r' = ControllerExpectations_GetExpectations k r"
  by (simp add: ControllerExpectations_GetExpectations_def)

lemma SetExpectations_spec:
  assumes "ce_inv r"
  shows "\<exists>r'. ControllerExpectations_SetExpectations now k n m r = (None, r') \<and> ce_inv r'
    \<and> exp_at r' = (exp_at r)(k \<mapsto> \<lparr>exp_add = n, exp_del = m, exp_key = k, exp_timestamp = now\<rparr>)"
proof -
  define e where "e = \<lparr>exp_add = n, exp_del = m, exp_key = k, exp_timestamp = now\<rparr>"
  define p where "p = ControlleeExpectationsPtr (length (exp_heap r)) k"
  obtain s where s: "cache_Add [] [] (Some p) (exp_Store r) = (None, s)"
    "store_contents s = (store_contents (exp_Store r))(k \<mapsto> Some p)" "store_inv ExpKeyFunc s"
    using st.add_ok [OF ce_inv_store [OF assms], of "Some p" k] by (auto simp: p_def)
  define r' where "r' = r\<lparr>exp_heap := exp_heap r @ [e], exp_Store := s\<rparr>"
  have set: "ControllerExpectations_SetExpectations now k n m r = (None, r')"
    using s(1) by (simp add: ControllerExpectations_SetExpectations_def r'_def e_def p_def)
  have inv: "ce_inv r'"
    unfolding ce_inv_def
  proof (intro conjI allI impI)
    fix j q
    assume "store_contents (exp_Store r') j = Some q"
    then show "\<exists>a. q = Some (ControlleeExpectationsPtr a j) \<and> a < length (exp_heap r')
        \<and> exp_key (exp_heap r' ! a) = j"
    proof (cases "j = k")
      case True
      then have "q = Some p" using s(2) \<open>store_contents (exp_Store r') j = Some q\<close> by (simp add: r'_def)
      then show ?thesis using True by (simp add: r'_def p_def e_def)
    next
      case False
      then have "store_contents (exp_Store r) j = Some q"
        using s(2) \<open>store_contents (exp_Store r') j = Some q\<close> by (simp add: r'_def)
      then show ?thesis by (rule ce_inv_ptr [OF assms]) (simp add: r'_def nth_append)
    qed
  qed (simp add: r'_def s(3))
  have get: "ControllerExpectations_GetExpectations j r' =
      (if j = k then Some (length (exp_heap r)) else ControllerExpectations_GetExpectations j r)" for j
    using s(2) by (simp add: ControllerExpectations_GetExpectations_def cache_GetByKey_contents r'_def p_def)
  have "exp_at r' j = ((exp_at r)(k \<mapsto> e)) j" for j
    unfolding exp_at_def get using GetExpectations_valid(1) [OF assms, of j]
    by (cases "ControllerExpectations_GetExpectations j r") (simp_all add: r'_def nth_append)
  then show ?thesis using set inv by (auto simp: e_def)
qed

lemma exp_AddAt_spec:
  assumes "ce_inv r" and "ControllerExpectations_GetExpectations k r = Some a"
  shows "ce_inv (exp_AddAt a x y r)"
    and "exp_at (exp_AddAt a x y r) = (exp_at r)(k := map_option (ControlleeExpectations_Add x y) (exp_at r k))"
proof -
  note valid = GetExpectations_valid [OF assms]
  let ?r' = "exp_AddAt a x y r"
  have store: "exp_Store ?r' = exp_Store r" by (simp add: exp_AddAt_def)
  have key: "exp_key (exp_heap ?r' ! b) = exp_key (exp_heap r ! b)" if "b < length (exp_heap r)" for b
    using that by (cases "a = b") (simp_all add: exp_AddAt_def ControlleeExpectations_Add_def)
  have len: "length (exp_heap ?r') = length (exp_heap r)" by (simp add: exp_AddAt_def)
  show "ce_inv ?r'"
    unfolding ce_inv_def store len
    using assms(1) key unfolding ce_inv_def by metis
  have other: "b \<noteq> a" if "ControllerExpectations_GetExpectations j r = Some b" and "j \<noteq> k" for j b
    using GetExpectations_valid(2) [OF assms(1) that(1)] valid(2) that(2) by auto
  have heap: "exp_heap ?r' = (exp_heap r)[a := ControlleeExpectations_Add x y (exp_heap r ! a)]"
    by (simp add: exp_AddAt_def)
  have "exp_at ?r' j = ((exp_at r)(k := map_option (ControlleeExpectations_Add x y) (exp_at r k))) j" for j
  proof (cases "j = k")
    case True
    then show ?thesis using assms(2) valid(1) by (simp add: exp_at_def ce_inv_cong [OF store] heap)
  next
    case False
    then show ?thesis using other [of j]
      by (cases "ControllerExpectations_GetExpectations j r")
        (simp_all add: exp_at_def ce_inv_cong [OF store] heap)
  qed
  then show "exp_at ?r' = (exp_at r)(k := map_option (ControlleeExpectations_Add x y) (exp_at r k))"
    by (rule ext)
qed

lemma RaiseExpectations_both:
  assumes "ce_inv r"
  shows "ce_inv (ControllerExpectations_RaiseExpectations k x y r)
    \<and> exp_at (ControllerExpectations_RaiseExpectations k x y r) =
      (exp_at r)(k := map_option (ControlleeExpectations_Add x y) (exp_at r k))"
proof (cases "ControllerExpectations_GetExpectations k r")
  case None
  then have "exp_at r k = None" by (simp add: exp_at_def)
  then show ?thesis using assms None
    by (simp add: ControllerExpectations_RaiseExpectations_def fun_upd_idem)
next
  case (Some a)
  then show ?thesis using exp_AddAt_spec [OF assms Some]
    by (simp add: ControllerExpectations_RaiseExpectations_def)
qed

lemma LowerExpectations_eq_Raise:
  "ControllerExpectations_LowerExpectations k x y = ControllerExpectations_RaiseExpectations k (- x) (- y)"
  by (intro ext)
    (simp add: ControllerExpectations_LowerExpectations_def ControllerExpectations_RaiseExpectations_def
      split: option.split)

lemmas RaiseExpectations_spec = RaiseExpectations_both [THEN conjunct1] RaiseExpectations_both [THEN conjunct2]
lemmas LowerExpectations_spec = RaiseExpectations_spec
  [where x = "- x" and y = "- y" for x y, folded LowerExpectations_eq_Raise]

lemma DeleteExpectations_spec:
  assumes "ce_inv r"
  shows "ce_inv (ControllerExpectations_DeleteExpectations k r)"
    and "exp_at (ControllerExpectations_DeleteExpectations k r) = (exp_at r)(k := None)"
proof -
  let ?r' = "ControllerExpectations_DeleteExpectations k r"
  have *: "ce_inv ?r' \<and> exp_at ?r' = (exp_at r)(k := None)"
  proof (cases "store_contents (exp_Store r) k")
    case None
    then have "ControllerExpectations_GetExpectations k r = None"
      by (simp add: ControllerExpectations_GetExpectations_def cache_GetByKey_contents)
    then have "exp_at r k = None" by (simp add: exp_at_def)
    moreover have "?r' = r"
      using None by (simp add: ControllerExpectations_DeleteExpectations_def cache_GetByKey_contents)
    ultimately show ?thesis using assms by (simp add: fun_upd_idem)
  next
    case (Some p)
    obtain a where p: "p = Some (ControlleeExpectationsPtr a k)" by (rule ce_inv_ptr [OF assms Some])
    obtain s where s: "cache_Delete [] p (exp_Store r) = (None, s)"
      "store_contents s = (store_contents (exp_Store r))(k := None)" "store_inv ExpKeyFunc s"
      using st.delete_ok [OF ce_inv_store [OF assms], of p k] p by auto
    have r': "?r' = r\<lparr>exp_Store := s\<rparr>"
      using Some s(1) by (simp add: ControllerExpectations_DeleteExpectations_def cache_GetByKey_contents)
    have get: "ControllerExpectations_GetExpectations j ?r' =
        (if j = k then None else ControllerExpectations_GetExpectations j r)" for j
      unfolding r' using s(2) by (simp add: ControllerExpectations_GetExpectations_def cache_GetByKey_contents)
    have "ce_inv ?r'" using assms s(2,3) unfolding ce_inv_def r' by simp
    moreover have "exp_at ?r' = (exp_at r)(k := None)"
      unfolding exp_at_def get by (auto simp: r')
    ultimately show ?thesis ..
  qed
  then show "ce_inv ?r'" "exp_at ?r' = (exp_at r)(k := None)" by simp_all
qed

lemma SatisfiedExpectations_exp_at:
  "ControllerExpectations_SatisfiedExpectations now k r \<longleftrightarrow> (case exp_at r k of
      None \<Rightarrow> True
    | Some e \<Rightarrow> ControlleeExpectations_Fulfilled e \<or> ControlleeExpectations_isExpired now e)"
  by (auto simp: ControllerExpectations_SatisfiedExpectations_def exp_at_def split: option.split)

lemma Observed_eq:
  "ControllerExpectations_CreationObserved k = ControllerExpectations_LowerExpectations k 1 0"
  "ControllerExpectations_DeletionObserved k = ControllerExpectations_LowerExpectations k 0 1"
  by (intro ext; simp add: ControllerExpectations_CreationObserved_def ControllerExpectations_DeletionObserved_def)+

section \<open>Expectations are satisfied exactly when every event has been seen\<close>

text \<open>An observation: which controller, and whether a creation or a deletion was seen.\<close>

datatype observation = Creation key | Deletion key

fun observe :: "observation \<Rightarrow> ControllerExpectations \<Rightarrow> ControllerExpectations" where
  "observe (Creation k) r = ControllerExpectations_CreationObserved k r"
| "observe (Deletion k) r = ControllerExpectations_DeletionObserved k r"

lemma ce_inv_observe [go_inv]: "ce_inv r \<Longrightarrow> ce_inv (observe ev r)"
  by (cases ev) (simp_all add: Observed_eq LowerExpectations_spec)

lemma exp_at_observe:
  assumes "ce_inv r" and "exp_at r k = Some e"
  shows "exp_at (observe ev r) k = Some (ControlleeExpectations_Add
    (- of_bool (ev = Creation k)) (- of_bool (ev = Deletion k)) e)"
  using assms
  by (cases ev) (auto simp: Observed_eq LowerExpectations_spec ControlleeExpectations_Add_def)

lemma exp_at_observations:
  assumes "ce_inv r" and "exp_at r k = Some e"
  shows "ce_inv (fold observe evs r) \<and> exp_at (fold observe evs r) k = Some (ControlleeExpectations_Add
    (- word_of_nat (count_list evs (Creation k))) (- word_of_nat (count_list evs (Deletion k))) e)"
  using assms
proof (induction evs arbitrary: r e)
  case Nil
  then show ?case by (simp add: ControlleeExpectations_Add_def)
next
  case (Cons ev evs)
  show ?case
    using Cons.IH [OF ce_inv_observe [OF Cons.prems(1)] exp_at_observe [OF Cons.prems, of ev]]
    by (cases ev) (simp_all add: ControlleeExpectations_Add_def algebra_simps)
qed

lemma sint_difference:
  assumes "n < 2 ^ 62" and "c < 2 ^ 62"
  shows "sint (word_of_nat n - word_of_nat c :: 64 word) = int n - int c"
proof -
  have "word_of_nat n - word_of_nat c = (word_of_int (int n - int c) :: 64 word)" by simp
  then show ?thesis using assms
    by (simp only: signed_of_int) (simp add: signed_take_bit_int_eq_self)
qed

lemma count_list_le: "count_list xs x \<le> length xs"
  by (induction xs) auto

text \<open>
  C15: A controller that set expectations of \<open>n\<close> creations and \<open>m\<close> deletions is allowed to act
  again exactly when at least \<open>n\<close> creations and \<open>m\<close> deletions were observed for it, among
  any interleaving of observations for any controllers, or when five minutes have passed
  since it set them.
\<close>

theorem expectations_satisfied_iff_observed:
  assumes "ce_inv r" and "n < 2 ^ 62" and "m < 2 ^ 62" and "length evs < 2 ^ 62"
    and "ControllerExpectations_SetExpectations t k (word_of_nat n) (word_of_nat m) r = (err, r')"
  shows "err = None
    \<and> (ControllerExpectations_SatisfiedExpectations now k (fold observe evs r') \<longleftrightarrow>
        n \<le> count_list evs (Creation k) \<and> m \<le> count_list evs (Deletion k)
        \<or> now - t > ExpectationsTimeout)"
proof -
  define e where "e = \<lparr>exp_add = word_of_nat n :: 64 word, exp_del = word_of_nat m, exp_key = k, exp_timestamp = t\<rparr>"
  have r': "err = None" "ce_inv r'" "exp_at r' k = Some e"
    using SetExpectations_spec [OF assms(1), of t k "word_of_nat n" "word_of_nat m"] assms(5)
    by (auto simp: e_def)
  have lt: "count_list evs x < 2 ^ 62" for x
    using count_list_le [of evs x] assms(4) by linarith
  have "exp_at (fold observe evs r') k = Some (ControlleeExpectations_Add
      (- word_of_nat (count_list evs (Creation k))) (- word_of_nat (count_list evs (Deletion k))) e)"
    using exp_at_observations [OF r'(2,3)] by blast
  then show ?thesis
    using r'(1) sint_difference [OF assms(2) lt] sint_difference [OF assms(3) lt]
    by (simp add: SatisfiedExpectations_exp_at ControlleeExpectations_Add_def e_def
        ControlleeExpectations_Fulfilled_def ControlleeExpectations_isExpired_def)
qed

theorem expectations_satisfied_iff_observed_witness:
  "\<not> ControllerExpectations_SatisfiedExpectations 1 ''rs'' (fold observe [Creation ''rs'', Creation ''other'']
      (snd (ControllerExpectations_SetExpectations 0 ''rs'' 2 0 NewControllerExpectations)))"
  using expectations_satisfied_iff_observed [OF ce_inv_New, where n = 2 and m = 0 and k = "''rs''" and t = 0
      and now = 1 and evs = "[Creation ''rs'', Creation ''other'']", OF _ _ _ surjective_pairing]
  by (simp add: ExpectationsTimeout_def)

text \<open>
  An observer that read the pointer before \<^verbatim>\<open>SetExpectations\<close> and lowers the counters after
  it changes the struct it read, not the new expectations.
\<close>

theorem stale_pointer_keeps_new_expectations:
  assumes "ce_inv r" and "ControllerExpectations_GetExpectations k r = Some a"
    and "ControllerExpectations_SetExpectations t k n m r = (err, r')"
  shows "exp_at (exp_AddAt a x y r') k =
    Some \<lparr>exp_add = n, exp_del = m, exp_key = k, exp_timestamp = t\<rparr>"
proof -
  have a: "a < length (exp_heap r)" by (rule GetExpectations_valid(1) [OF assms(1,2)])
  have r': "ce_inv r'" "exp_at r' k = Some \<lparr>exp_add = n, exp_del = m, exp_key = k, exp_timestamp = t\<rparr>"
    using SetExpectations_spec [OF assms(1), of t k n m] assms(3) by auto
  have "ControllerExpectations_GetExpectations k r' = Some (length (exp_heap r))"
    using assms(3) by (auto simp: ControllerExpectations_SetExpectations_def cache_Add_def
        ce_inv_store [OF assms(1), unfolded store_inv_def] ControllerExpectations_GetExpectations_def
        cache_GetByKey_contents)
  then show ?thesis using a r'(2) by (simp add: exp_at_def exp_AddAt_def ControllerExpectations_GetExpectations_def)
qed

theorem stale_pointer_keeps_new_expectations_witness:
  "exp_at (exp_AddAt 0 (- 1) 0 (snd (ControllerExpectations_SetExpectations 7 ''rs'' 3 0
      (snd (ControllerExpectations_SetExpectations 0 ''rs'' 1 0 NewControllerExpectations))))) ''rs''
    = Some \<lparr>exp_add = 3, exp_del = 0, exp_key = ''rs'', exp_timestamp = 7\<rparr>"
proof -
  let ?set = "ControllerExpectations_SetExpectations 0 ''rs'' 1 0 NewControllerExpectations"
  have "ce_inv (snd ?set)"
    using SetExpectations_spec [OF ce_inv_New, of 0 "''rs''" 1 0] by auto
  moreover have "ControllerExpectations_GetExpectations ''rs'' (snd ?set) = Some 0"
    by (simp add: ControllerExpectations_SetExpectations_def ControllerExpectations_GetExpectations_def
        NewControllerExpectations_def cache_Add_def NewStore_def NewThreadSafeStore_def
        cache_GetByKey_contents threadSafeMap_Add_def)
  ultimately show ?thesis
    by (rule stale_pointer_keeps_new_expectations [OF _ _ surjective_pairing])
qed

text \<open>
  The implementation comment says that expectations, once set, can only be lowered.
  \<^verbatim>\<open>RaiseExpectations\<close> raises them: a controller whose expectations are met waits again.
\<close>

theorem raise_expectations_unsatisfies:
  "let r = snd (ControllerExpectations_SetExpectations 0 ''rs'' 0 0 NewControllerExpectations)
   in ControllerExpectations_SatisfiedExpectations 1 ''rs'' r
      \<and> \<not> ControllerExpectations_SatisfiedExpectations 1 ''rs'' (ControllerExpectations_RaiseExpectations ''rs'' 1 0 r)"
proof -
  obtain r where r: "ControllerExpectations_SetExpectations 0 ''rs'' 0 0 NewControllerExpectations = (None, r)"
    "ce_inv r" "exp_at r ''rs'' = Some \<lparr>exp_add = 0, exp_del = 0, exp_key = ''rs'', exp_timestamp = 0\<rparr>"
    using SetExpectations_spec [OF ce_inv_New, of 0 "''rs''" 0 0] by auto
  then show ?thesis
    by (simp add: SatisfiedExpectations_exp_at RaiseExpectations_spec ControlleeExpectations_Fulfilled_def
        ControlleeExpectations_Add_def ControlleeExpectations_isExpired_def ExpectationsTimeout_def)
qed

end
