(* ===== verification/Uid_Expectations.thy ===== *)
theory Uid_Expectations
  imports Controller_Expectations
begin

text \<open>
  \<^verbatim>\<open>UIDTrackingControllerExpectations\<close> is written against \<^verbatim>\<open>ControllerExpectationsInterface\<close>, and so
  is its verification: the interface is a locale over an abstract view of the counters, the
  tracking is verified inside it, and \<^verbatim>\<open>ControllerExpectations\<close> is the interpretation.
\<close>

section \<open>The UID sets\<close>

definition uids_at :: "'c UIDTrackingControllerExpectations \<Rightarrow> key \<Rightarrow> sets_String option" where
  "uids_at u k = map_option ((!) (uid_heap u)) (UIDTracking_GetUIDs k u)"

definition uid_inv :: "'c UIDTrackingControllerExpectations \<Rightarrow> bool" where
  "uid_inv u \<longleftrightarrow> store_inv UIDSetKeyFunc (uidStore u)
     \<and> (\<forall>k p. store_contents (uidStore u) k = Some p \<longrightarrow>
          (\<exists>a. p = Some (UIDSetPtr a k) \<and> a < length (uid_heap u) \<and> finite (uid_heap u ! a)))
     \<and> (\<forall>j k a. UIDTracking_GetUIDs j u = Some a \<longrightarrow> UIDTracking_GetUIDs k u = Some a \<longrightarrow> j = k)"

lemma UIDSetKeyFunc_ptr [simp]: "UIDSetKeyFunc (Some (UIDSetPtr a k)) = Inr k"
  by (simp add: UIDSetKeyFunc_def)

lemma uid_invD:
  assumes "uid_inv u"
  shows "store_inv UIDSetKeyFunc (uidStore u)"
    and "UIDTracking_GetUIDs j u = Some a \<Longrightarrow> UIDTracking_GetUIDs k u = Some a \<Longrightarrow> j = k"
  using assms unfolding uid_inv_def by blast+

lemma uid_inv_ptr:
  assumes "uid_inv u" and "store_contents (uidStore u) k = Some p"
  obtains a where "p = Some (UIDSetPtr a k)" "a < length (uid_heap u)" "finite (uid_heap u ! a)"
  using assms unfolding uid_inv_def by blast

lemma GetUIDs_iff:
  assumes "uid_inv u"
  shows "UIDTracking_GetUIDs k u = Some a \<longleftrightarrow> store_contents (uidStore u) k = Some (Some (UIDSetPtr a k))"
proof (cases "store_contents (uidStore u) k")
  case None
  then show ?thesis by (simp add: UIDTracking_GetUIDs_def cache_GetByKey_contents)
next
  case (Some p)
  then obtain b where "p = Some (UIDSetPtr b k)" by (rule uid_inv_ptr [OF assms])
  then show ?thesis using Some by (simp add: UIDTracking_GetUIDs_def cache_GetByKey_contents)
qed

lemma GetUIDs_valid:
  assumes "uid_inv u" and "UIDTracking_GetUIDs k u = Some a"
  shows "a < length (uid_heap u)" and "finite (uid_heap u ! a)"
  using assms(2) unfolding GetUIDs_iff [OF assms(1)] by (auto elim: uid_inv_ptr [OF assms(1)])

lemma uid_inv_New [go_inv]: "uid_inv (NewUIDTrackingControllerExpectations ce)"
  using store_inv_NewStore
  by (simp add: uid_inv_def NewUIDTrackingControllerExpectations_def NewStore_def NewThreadSafeStore_def
      store_inv_def UIDTracking_GetUIDs_def cache_GetByKey_contents)

text \<open>\<^verbatim>\<open>ExpectDeletions\<close>: the store accepts the new set, whatever was there.\<close>

lemma UIDTracking_ExpectDeletions_spec:
  assumes "uid_inv u" and "expectDeletions k (word_of_nat (card (set ks))) (embedded u) = (err, ce)"
  shows "\<exists>u'. UIDTracking_ExpectDeletions expectDeletions k ks u = (err, u') \<and> uid_inv u'
    \<and> embedded u' = ce \<and> uids_at u' = (uids_at u)(k \<mapsto> set ks)"
proof -
  define p where "p = UIDSetPtr (length (uid_heap u)) k"
  obtain s where s: "cache_Add [] [] (Some p) (uidStore u) = (None, s)"
    "store_contents s = (store_contents (uidStore u))(k \<mapsto> Some p)" "store_inv UIDSetKeyFunc s"
    using st.add_ok [OF uid_invD(1) [OF assms(1)], of "Some p" k] by (auto simp: p_def)
  define u' where "u' = u\<lparr>uid_heap := uid_heap u @ [set ks], uidStore := s, embedded := ce\<rparr>"
  have eq: "UIDTracking_ExpectDeletions expectDeletions k ks u = (err, u')"
    using s(1) assms(2)
    by (simp add: UIDTracking_ExpectDeletions_def fold_insert_set u'_def p_def sets_NewString_def sets_Len_def)
  have get: "UIDTracking_GetUIDs j u' = (if j = k then Some (length (uid_heap u)) else UIDTracking_GetUIDs j u)" for j
    using s(2) by (simp add: UIDTracking_GetUIDs_def cache_GetByKey_contents u'_def p_def)
  have ptr: "\<exists>a. q = Some (UIDSetPtr a j) \<and> a < length (uid_heap u') \<and> finite (uid_heap u' ! a)"
    if q: "store_contents (uidStore u') j = Some q" for j q
  proof (cases "j = k")
    case True
    then have "q = Some p" using s(2) q by (simp add: u'_def)
    then show ?thesis using True by (simp add: u'_def p_def)
  next
    case False
    then have "store_contents (uidStore u) j = Some q" using s(2) q by (simp add: u'_def)
    then show ?thesis by (rule uid_inv_ptr [OF assms(1)]) (simp add: u'_def nth_append)
  qed
  have "i = j" if "UIDTracking_GetUIDs i u' = Some a" and "UIDTracking_GetUIDs j u' = Some a" for i j a
    using that GetUIDs_valid(1) [OF assms(1)] uid_invD(2) [OF assms(1)]
    unfolding get by (metis less_irrefl option.inject)
  then have "uid_inv u'" using ptr s(3) unfolding uid_inv_def by (simp add: u'_def)
  moreover have "uids_at u' j = ((uids_at u)(k \<mapsto> set ks)) j" for j
    unfolding uids_at_def get using GetUIDs_valid(1) [OF assms(1), of j]
    by (cases "UIDTracking_GetUIDs j u") (simp_all add: u'_def nth_append)
  ultimately show ?thesis using eq by (auto simp: u'_def)
qed

lemma UIDTracking_DeletionObserved_spec:
  assumes "uid_inv u"
  shows "uid_inv (UIDTracking_DeletionObserved del k x u)
    \<and> uids_at (UIDTracking_DeletionObserved del k x u) = (uids_at u)(k := map_option (\<lambda>S. S - {x}) (uids_at u k))
    \<and> embedded (UIDTracking_DeletionObserved del k x u) =
        (case uids_at u k of Some S \<Rightarrow> if x \<in> S then del k (embedded u) else embedded u | None \<Rightarrow> embedded u)"
proof (cases "UIDTracking_GetUIDs k u")
  case None
  then have "uids_at u k = None" by (simp add: uids_at_def)
  then show ?thesis using None assms by (simp add: UIDTracking_DeletionObserved_def fun_upd_idem)
next
  case (Some a)
  then have at: "uids_at u k = Some (uid_heap u ! a)" by (simp add: uids_at_def)
  show ?thesis
  proof (cases "x \<in> uid_heap u ! a")
    case False
    then show ?thesis using Some assms at
      by (simp add: UIDTracking_DeletionObserved_def sets_Has_def fun_upd_idem)
  next
    case True
    define u' where "u' = u\<lparr>embedded := del k (embedded u), uid_heap := (uid_heap u)[a := uid_heap u ! a - {x}]\<rparr>"
    have eq: "UIDTracking_DeletionObserved del k x u = u'"
      using Some True by (simp add: UIDTracking_DeletionObserved_def sets_Has_def sets_Delete_def u'_def)
    have get: "UIDTracking_GetUIDs j u' = UIDTracking_GetUIDs j u" for j
      by (simp add: UIDTracking_GetUIDs_def u'_def)
    have fin: "finite (uid_heap u' ! b)" if "finite (uid_heap u ! b)" for b
      using that by (cases "b = a"; cases "a < length (uid_heap u)") (simp_all add: u'_def list_update_beyond)
    have "uid_inv u'"
      using assms fin unfolding uid_inv_def get by (simp add: u'_def) blast
    moreover have "uids_at u' j = ((uids_at u)(k := map_option (\<lambda>S. S - {x}) (uids_at u k))) j" for j
    proof (cases "j = k")
      case True
      then show ?thesis using GetUIDs_valid(1) [OF assms Some] Some
        unfolding uids_at_def get by (simp add: u'_def)
    next
      case False
      then have "b \<noteq> a" if "UIDTracking_GetUIDs j u = Some b" for b
        using uid_invD(2) [OF assms Some, of j] that by auto
      then show ?thesis using False unfolding uids_at_def get
        by (cases "UIDTracking_GetUIDs j u") (simp_all add: u'_def)
    qed
    ultimately show ?thesis using True at unfolding eq by (auto simp: u'_def)
  qed
qed

lemma UIDTracking_DeleteExpectations_spec:
  assumes "uid_inv u"
  shows "uid_inv (UIDTracking_DeleteExpectations del k u)
    \<and> uids_at (UIDTracking_DeleteExpectations del k u) = (uids_at u)(k := None)
    \<and> embedded (UIDTracking_DeleteExpectations del k u) = del k (embedded u)"
proof (cases "store_contents (uidStore u) k")
  case None
  then have "uids_at u k = None" by (simp add: uids_at_def UIDTracking_GetUIDs_def cache_GetByKey_contents)
  then show ?thesis using None assms
    by (simp add: UIDTracking_DeleteExpectations_def cache_GetByKey_contents fun_upd_idem uid_inv_def
        uids_at_def UIDTracking_GetUIDs_def fun_eq_iff)
next
  case (Some p)
  obtain a where p: "p = Some (UIDSetPtr a k)" by (rule uid_inv_ptr [OF assms Some])
  obtain s where s: "cache_Delete [] p (uidStore u) = (None, s)"
    "store_contents s = (store_contents (uidStore u))(k := None)" "store_inv UIDSetKeyFunc s"
    using st.delete_ok [OF uid_invD(1) [OF assms], of p k] p by auto
  define u' where "u' = u\<lparr>embedded := del k (embedded u), uidStore := s\<rparr>"
  have eq: "UIDTracking_DeleteExpectations del k u = u'"
    using Some s(1) by (simp add: UIDTracking_DeleteExpectations_def cache_GetByKey_contents u'_def)
  have get: "UIDTracking_GetUIDs j u' = (if j = k then None else UIDTracking_GetUIDs j u)" for j
    using s(2) by (simp add: UIDTracking_GetUIDs_def cache_GetByKey_contents u'_def)
  have "i = j" if "UIDTracking_GetUIDs i u' = Some b" and "UIDTracking_GetUIDs j u' = Some b" for i j b
    using that uid_invD(2) [OF assms] unfolding get by (metis option.distinct(1))
  moreover have "\<exists>b. q = Some (UIDSetPtr b j) \<and> b < length (uid_heap u') \<and> finite (uid_heap u' ! b)"
    if "store_contents (uidStore u') j = Some q" for j q
    using that s(2) by (auto simp: u'_def split: if_splits elim: uid_inv_ptr [OF assms])
  ultimately have "uid_inv u'" using s(3) unfolding uid_inv_def by (simp add: u'_def)
  moreover have "uids_at u' = (uids_at u)(k := None)" unfolding uids_at_def get by (auto simp: u'_def)
  ultimately show ?thesis unfolding eq by (simp add: u'_def)
qed

section \<open>The interface and its client\<close>

text \<open>
  The view of a controller's expectations: outstanding creations, outstanding deletions and
  the time they were set.
\<close>

type_synonym exp_view = "key \<Rightarrow> (int \<times> int \<times> int) option"

locale expectations_interface =
  fixes expectDeletions :: "int \<Rightarrow> key \<Rightarrow> 64 word \<Rightarrow> 'c \<Rightarrow> tracked KeyError option \<times> 'c"
    and deletionObserved :: "key \<Rightarrow> 'c \<Rightarrow> 'c"
    and deleteExpectations :: "key \<Rightarrow> 'c \<Rightarrow> 'c"
    and satisfied :: "int \<Rightarrow> key \<Rightarrow> 'c \<Rightarrow> bool"
    and view :: "'c \<Rightarrow> exp_view"
    and invar :: "'c \<Rightarrow> bool"
  assumes expect_deletions: "invar c \<Longrightarrow> n < 2 ^ 63 \<Longrightarrow> \<exists>c'. expectDeletions t k (word_of_nat n) c = (None, c')
      \<and> invar c' \<and> view c' = (view c)(k \<mapsto> (0, int n, t))"
    and deletion_observed: "invar c \<Longrightarrow> view c k = Some (a, d, t) \<Longrightarrow> 0 < d \<Longrightarrow>
      view (deletionObserved k c) = (view c)(k \<mapsto> (a, d - 1, t))"
    and deletion_observed_other: "invar c \<Longrightarrow> j \<noteq> k \<Longrightarrow> view (deletionObserved j c) k = view c k"
    and deletion_observed_inv: "invar c \<Longrightarrow> invar (deletionObserved k c)"
    and delete_expectations: "invar c \<Longrightarrow> invar (deleteExpectations k c)
      \<and> view (deleteExpectations k c) = (view c)(k := None)"
    and satisfied_view: "invar c \<Longrightarrow> satisfied now k c \<longleftrightarrow> (case view c k of None \<Rightarrow> True
      | Some (a, d, t) \<Rightarrow> a \<le> 0 \<and> d \<le> 0 \<or> now - t > ExpectationsTimeout)"
begin

definition observeAll where
  "observeAll = fold (\<lambda>(j, x). UIDTracking_DeletionObserved deletionObserved j x)"

lemma observe_step:
  assumes "uid_inv u" and "invar (embedded u)" and "uids_at u k = Some S" and "finite S"
    and "view (embedded u) k = Some (a, int (card S), t)"
    and u'_def: "u' = UIDTracking_DeletionObserved deletionObserved j x u"
  shows "uid_inv u' \<and> invar (embedded u')
    \<and> (let S' = S - {y. (k, y) \<in> {(j, x)}} in uids_at u' k = Some S' \<and> view (embedded u') k = Some (a, int (card S'), t))"
proof (cases "j = k")
  case True
  have "0 < int (card S)" if "x \<in> S" using that assms(4) by (auto simp: card_gt_0_iff)
  then show ?thesis
    using UIDTracking_DeletionObserved_spec [OF assms(1), of deletionObserved j x] assms True
      deletion_observed [OF assms(2,5)] deletion_observed_inv [OF assms(2)]
    unfolding u'_def
    by (cases "x \<in> S") (auto simp: Diff_insert0 card_Diff_singleton of_nat_diff)
next
  case False
  then show ?thesis
    using UIDTracking_DeletionObserved_spec [OF assms(1), of deletionObserved j x] assms
      deletion_observed_other [OF assms(2) False] deletion_observed_inv [OF assms(2)]
    unfolding u'_def by (auto split: option.splits)
qed

lemma observe_all:
  assumes "uid_inv u" and "invar (embedded u)" and "uids_at u k = Some S" and "finite S"
    and "view (embedded u) k = Some (a, int (card S), t)"
  shows "invar (embedded (observeAll evs u)) \<and> uids_at (observeAll evs u) k = Some (S - {x. (k, x) \<in> set evs})
    \<and> view (embedded (observeAll evs u)) k = Some (a, int (card (S - {x. (k, x) \<in> set evs})), t)"
  using assms
proof (induction evs arbitrary: u S)
  case (Cons ev evs)
  obtain j x where ev: "ev = (j, x)" by (cases ev)
  let ?S = "S - {y. (k, y) \<in> {(j, x)}}"
  have "?S - {y. (k, y) \<in> set evs} = S - {y. (k, y) \<in> set (ev # evs)}" by (auto simp: ev)
  then show ?case
    using Cons.IH [of "UIDTracking_DeletionObserved deletionObserved j x u" ?S]
      observe_step [OF Cons.prems refl, of j x] Cons.prems(4)
    by (simp add: observeAll_def ev)
qed (simp add: observeAll_def)

lemma tracked_deletions:
  assumes "uid_inv u" and "invar (embedded u)" and "length ks < 2 ^ 63"
    and "UIDTracking_ExpectDeletions (expectDeletions t) k ks u = (err, u')"
  shows "err = None \<and> (satisfied now k (embedded (observeAll evs u')) \<longleftrightarrow>
      set ks \<subseteq> {x. (k, x) \<in> set evs} \<or> now - t > ExpectationsTimeout)"
proof -
  have "card (set ks) < 2 ^ 63" using card_length [of ks] assms(3) by linarith
  then obtain c where c: "expectDeletions t k (word_of_nat (card (set ks))) (embedded u) = (None, c)" "invar c"
    "view c = (view (embedded u))(k \<mapsto> (0, int (card (set ks)), t))"
    using expect_deletions [OF assms(2)] by blast
  have u': "err = None" "uid_inv u'" "embedded u' = c" "uids_at u' k = Some (set ks)"
    using UIDTracking_ExpectDeletions_spec [where expectDeletions = "expectDeletions t", OF assms(1) c(1)]
      assms(4) by auto
  have "invar (embedded (observeAll evs u'))"
    and "view (embedded (observeAll evs u')) k = Some (0, int (card (set ks - {x. (k, x) \<in> set evs})), t)"
    using observe_all [OF u'(2) _ u'(4), of 0 t evs] u'(3) c(2,3) by auto
  then show ?thesis
    using u'(1) by (auto simp: satisfied_view card_eq_0_iff)
qed

end

section \<open>ControllerExpectations implements it\<close>

definition ce_view :: "ControllerExpectations \<Rightarrow> exp_view" where
  "ce_view r k = map_option (\<lambda>e. (sint (exp_add e), sint (exp_del e), exp_timestamp e)) (exp_at r k)"

lemma sint_of_nat_64: "n < 2 ^ 63 \<Longrightarrow> sint (word_of_nat n :: 64 word) = int n"
  by (simp add: signed_of_nat signed_take_bit_int_eq_self)

lemma sint_pred_64:
  assumes "0 < sint (w :: 64 word)"
  shows "sint (w - 1) = sint w - 1"
proof -
  have "w - 1 = word_of_int (sint w - 1)" by simp
  moreover have "sint w < 2 ^ 63" using sint_lt [of w] by simp
  ultimately show ?thesis using assms
    by (simp only: signed_of_int) (simp add: signed_take_bit_int_eq_self)
qed

interpretation ce: expectations_interface ControllerExpectations_ExpectDeletions
  ControllerExpectations_DeletionObserved ControllerExpectations_DeleteExpectations
  ControllerExpectations_SatisfiedExpectations ce_view ce_inv
proof
  fix c :: ControllerExpectations and n :: nat and t k
  assume inv: "ce_inv c"
  show "\<exists>c'. ControllerExpectations_ExpectDeletions t k (word_of_nat n) c = (None, c') \<and> ce_inv c'
      \<and> ce_view c' = (ce_view c)(k \<mapsto> (0, int n, t))" if "n < 2 ^ 63"
    using SetExpectations_spec [OF inv, of t k 0 "word_of_nat n"] sint_of_nat_64 [OF that]
    by (auto simp: ControllerExpectations_ExpectDeletions_def ce_view_def fun_eq_iff)
  show "ce_view (ControllerExpectations_DeletionObserved k c) = (ce_view c)(k \<mapsto> (a, m - 1, s))"
    if "ce_view c k = Some (a, m, s)" and "0 < m" for a m s
    using that sint_pred_64
    by (auto simp: Observed_eq LowerExpectations_spec [OF inv] ce_view_def fun_eq_iff ControlleeExpectations_Add_def)
  show "ce_view (ControllerExpectations_DeletionObserved j c) k = ce_view c k" if "j \<noteq> k" for j
    using that by (simp add: Observed_eq LowerExpectations_spec [OF inv] ce_view_def)
  show "ce_inv (ControllerExpectations_DeletionObserved k c)"
    by (simp add: Observed_eq LowerExpectations_spec [OF inv])
  show "ce_inv (ControllerExpectations_DeleteExpectations k c)
      \<and> ce_view (ControllerExpectations_DeleteExpectations k c) = (ce_view c)(k := None)"
    by (auto simp: DeleteExpectations_spec [OF inv] ce_view_def)
  show "ControllerExpectations_SatisfiedExpectations now k c \<longleftrightarrow> (case ce_view c k of None \<Rightarrow> True
      | Some (a, d, t) \<Rightarrow> a \<le> 0 \<and> d \<le> 0 \<or> now - t > ExpectationsTimeout)" for now
    by (simp add: SatisfiedExpectations_exp_at ce_view_def ControlleeExpectations_Fulfilled_def
        ControlleeExpectations_isExpired_def split: option.split)
qed

text \<open>
  C24: Deletions are counted once per UID: after \<^verbatim>\<open>ExpectDeletions\<close> with a list of UIDs, however
  often and in whatever order deletions are observed, of these or other pods and for this or
  other controllers, the controller is satisfied exactly when each of the UIDs was observed
  at least once, or when five minutes have passed.
\<close>

theorem uid_deletions_counted_once:
  assumes "uid_inv u" and "ce_inv (embedded u)" and "length ks < 2 ^ 63"
    and "UIDTracking_ExpectDeletions (ControllerExpectations_ExpectDeletions t) k ks u = (err, u')"
  shows "err = None
    \<and> (ControllerExpectations_SatisfiedExpectations now k (embedded
          (fold (\<lambda>(j, x). UIDTracking_DeletionObserved ControllerExpectations_DeletionObserved j x) evs u'))
        \<longleftrightarrow> set ks \<subseteq> {x. (k, x) \<in> set evs} \<or> now - t > ExpectationsTimeout)"
  using ce.tracked_deletions [OF assms] unfolding ce.observeAll_def by blast

theorem uid_deletions_counted_once_witness:
  "\<not> ControllerExpectations_SatisfiedExpectations 1 ''rs'' (embedded
      (fold (\<lambda>(j, x). UIDTracking_DeletionObserved ControllerExpectations_DeletionObserved j x)
        [(''rs'', ''p''), (''rs'', ''p'')]
        (snd (UIDTracking_ExpectDeletions (ControllerExpectations_ExpectDeletions 0) ''rs'' [''p'', ''q'']
          (NewUIDTrackingControllerExpectations NewControllerExpectations)))))"
proof -
  have "ce_inv (embedded (NewUIDTrackingControllerExpectations NewControllerExpectations))"
    by (simp add: NewUIDTrackingControllerExpectations_def ce_inv_New)
  from uid_deletions_counted_once [OF uid_inv_New this, of "[''p'', ''q'']" 0 "''rs''", OF _ surjective_pairing,
      of 1 "[(''rs'', ''p''), (''rs'', ''p'')]"]
  show ?thesis by (simp add: ExpectationsTimeout_def)
qed

end
