(* ===== verification/Replica_Set.thy ===== *)
theory Replica_Set
  imports Pod_Control Lookup_Cache Uid_Expectations Workqueue Informer
begin

text \<open>
  \<^verbatim>\<open>pkg/controller/replicaset\<close>: the controller that keeps as many pods running as a replica set
  asks for, with the lister of \<^verbatim>\<open>pkg/client/cache/listers.go\<close> it looks replica sets up with.  It puts
  together the expectations, the work queue, the pod order, the selectors and the lookup cache.

  The two stores are filled by informers; the model has their contents.  A handler of an
  informer runs from start to end for one notification.  \<^verbatim>\<open>syncReplicaSet\<close> runs concurrently with
  the handlers, and so it is built from the parts between which they can run: the check of the
  expectations, the listing of the pods, the start of \<^verbatim>\<open>manageReplicas\<close>, and the goroutines that
  create or delete one pod each.  The API server client is a state with its operations as arguments.
\<close>

section \<open>State\<close>

record 'sp ReplicaSet =
  rs_Name :: string
  rs_Namespace :: string
  rs_CreationTimestamp :: go_time
  rs_Generation :: int
  rs_Replicas :: int
  rs_Selector :: "LabelSelector option"
  rs_Template :: "'sp PodTemplateSpec"
  status_Replicas :: int
  status_ObservedGeneration :: int

record 'sp ReplicaSetController =
  burstReplicas :: int
  expectations :: "ControllerExpectations UIDTrackingControllerExpectations"
  rsStore :: "key \<rightharpoonup> 'sp ReplicaSet"
  podStore :: "key \<rightharpoonup> Pod"
  lookupCache :: "'sp ReplicaSet MatchingCache"
  rsc_queue :: "key workqueue"

definition NewReplicaSetController :: "int \<Rightarrow> int \<Rightarrow> 'sp ReplicaSetController" where
  "NewReplicaSetController burst lookupCacheSize =
     \<lparr>burstReplicas = burst,
      expectations = NewUIDTrackingControllerExpectations NewControllerExpectations,
      rsStore = Map.empty, podStore = Map.empty,
      lookupCache = NewMatchingCache lookupCacheSize, rsc_queue = workqueue_New\<rparr>"

text \<open>
  What the code takes from the language and its libraries: the numbers of selectors, sorting
  (which is not stable), the iteration of maps and the hash of the lookup cache.
\<close>

record ('f, 'sp) rs_env =
  parse_float :: "string \<Rightarrow> 'f option"
  float_greater :: "'f \<Rightarrow> 'f \<Rightarrow> bool"
  sort_reqs :: sorter
  label_range :: "(string, string) go_range"
  hashKey :: "equivalenceLabelObj \<Rightarrow> nat"
  sort_overlapping :: "'sp ReplicaSet list \<Rightarrow> 'sp ReplicaSet list"
  sort_active :: "Pod list \<Rightarrow> Pod list"
  rs_range :: "(key, 'sp ReplicaSet) go_range"
  pod_range :: "(key, Pod) go_range"

section \<open>Keys and matching\<close>

definition rs_accessor :: "'sp ReplicaSet Accessor" where
  "rs_accessor obj = (case obj of
      Some (Plain (ApiObject rs)) \<Rightarrow> Inr (rs_Namespace rs, rs_Name rs)
    | _ \<Rightarrow> Inl ''object does not implement the Object interfaces'')"

abbreviation rs_object :: "'sp ReplicaSet \<Rightarrow> 'sp ReplicaSet resource" where
  "rs_object rs \<equiv> Plain (ApiObject rs)"

definition rs_KeyFunc :: "'sp ReplicaSet resource \<Rightarrow> go_error + key" where
  "rs_KeyFunc obj = DeletionHandlingMetaNamespaceKeyFunc rs_accessor (Some obj)"

definition rs_selector :: "('f, 'sp) rs_env \<Rightarrow> 'sp ReplicaSet \<Rightarrow> label_error + Selector" where
  "rs_selector env rs = LabelSelectorAsSelector (parse_float env) (sort_reqs env) (label_range env) (rs_Selector rs)"

abbreviation pod_matches :: "('f, 'sp) rs_env \<Rightarrow> Selector \<Rightarrow> Pod \<Rightarrow> bool" where
  "pod_matches env selector pod \<equiv> Selector_Matches (parse_float env) (float_greater env) selector (pod_Labels pod)"

definition isReplicaSetMatch :: "('f, 'sp) rs_env \<Rightarrow> Pod \<Rightarrow> 'sp ReplicaSet \<Rightarrow> bool" where
  "isReplicaSetMatch env pod rs =
     (if rs_Namespace rs \<noteq> pod_Namespace pod then False
      else case rs_selector env rs of
        Inl err \<Rightarrow> False
      | Inr selector \<Rightarrow> if Selector_Empty selector \<or> \<not> pod_matches env selector pod then False else True)"

datatype lister_error = PodHasNoLabels | InvalidSelector label_error | NoReplicaSetForPod

fun GetPodReplicaSets_loop ::
  "('f, 'sp) rs_env \<Rightarrow> Pod \<Rightarrow> 'sp ReplicaSet list \<Rightarrow> 'sp ReplicaSet list \<Rightarrow> lister_error + 'sp ReplicaSet list" where
  "GetPodReplicaSets_loop env pod [] rss = Inr rss"
| "GetPodReplicaSets_loop env pod (rs # ms) rss =
     (if rs_Namespace rs \<noteq> pod_Namespace pod then GetPodReplicaSets_loop env pod ms rss
      else case rs_selector env rs of
        Inl err \<Rightarrow> Inl (InvalidSelector err)
      | Inr selector \<Rightarrow>
          if Selector_Empty selector \<or> \<not> pod_matches env selector pod
          then GetPodReplicaSets_loop env pod ms rss
          else GetPodReplicaSets_loop env pod ms (rss @ [rs]))"

definition GetPodReplicaSets ::
  "('f, 'sp) rs_env \<Rightarrow> Pod \<Rightarrow> (key \<rightharpoonup> 'sp ReplicaSet) \<Rightarrow> lister_error + 'sp ReplicaSet list" where
  "GetPodReplicaSets env pod s =
     (if pod_Labels pod = Map.empty then Inl PodHasNoLabels
      else case GetPodReplicaSets_loop env pod (map snd (rs_range env s)) [] of
        Inl err \<Rightarrow> Inl err
      | Inr rss \<Rightarrow> if length rss = 0 then Inl NoReplicaSetForPod else Inr rss)"

definition overlappingReplicaSets_Less :: "'sp ReplicaSet \<Rightarrow> 'sp ReplicaSet \<Rightarrow> bool" where
  "overlappingReplicaSets_Less a b =
     (if rs_CreationTimestamp a = rs_CreationTimestamp b then rs_Name a < rs_Name b
      else rs_CreationTimestamp a < rs_CreationTimestamp b)"

definition isCacheValid ::
  "('f, 'sp) rs_env \<Rightarrow> Pod \<Rightarrow> 'sp ReplicaSet \<Rightarrow> 'sp ReplicaSetController \<Rightarrow> bool" where
  "isCacheValid env pod cachedRS c =
     (case rs_KeyFunc (rs_object cachedRS) of
        Inl err \<Rightarrow> False
      | Inr k \<Rightarrow> if rsStore c k = None \<or> \<not> isReplicaSetMatch env pod cachedRS then False else True)"

definition getPodReplicaSet ::
  "('f, 'sp) rs_env \<Rightarrow> Pod \<Rightarrow> 'sp ReplicaSetController \<Rightarrow> 'sp ReplicaSet option \<times> 'sp ReplicaSetController" where
  "getPodReplicaSet env pod c =
     (let labelObj = (pod_Namespace pod, pod_Labels pod);
          (cached, lc) = GetMatchingObject (hashKey env) labelObj (lookupCache c);
          c = c\<lparr>lookupCache := lc\<rparr>;
          search = (case GetPodReplicaSets env pod (rsStore c) of
             Inl err \<Rightarrow> (None, c)
           | Inr rss \<Rightarrow>
               (let rss = (if length rss > 1 then sort_overlapping env rss else rss)
                in (Some (rss ! 0),
                    c\<lparr>lookupCache := MatchingCache_Update (hashKey env) labelObj (rss ! 0) (lookupCache c)\<rparr>)))
      in case cached of
           Some rs \<Rightarrow> if isCacheValid env pod rs c then (Some rs, c) else search
         | None \<Rightarrow> search)"

section \<open>Handlers\<close>

definition enqueueReplicaSet ::
  "'sp ReplicaSet resource \<Rightarrow> 'sp ReplicaSetController \<Rightarrow> 'sp ReplicaSetController" where
  "enqueueReplicaSet obj c =
     (case rs_KeyFunc obj of
        Inl err \<Rightarrow> c
      | Inr key \<Rightarrow> c\<lparr>rsc_queue := workqueue_Add key (rsc_queue c)\<rparr>)"

definition rsc_CreationObserved :: "key \<Rightarrow> 'sp ReplicaSetController \<Rightarrow> 'sp ReplicaSetController" where
  "rsc_CreationObserved rsKey c = c\<lparr>expectations := (expectations c)
     \<lparr>embedded := ControllerExpectations_CreationObserved rsKey (embedded (expectations c))\<rparr>\<rparr>"

definition rsc_DeletionObserved :: "key \<Rightarrow> string \<Rightarrow> 'sp ReplicaSetController \<Rightarrow> 'sp ReplicaSetController" where
  "rsc_DeletionObserved rsKey podKey c = c\<lparr>expectations :=
     UIDTracking_DeletionObserved ControllerExpectations_DeletionObserved rsKey podKey (expectations c)\<rparr>"

definition deletePod ::
  "('f, 'sp) rs_env \<Rightarrow> Pod resource \<Rightarrow> 'sp ReplicaSetController \<Rightarrow> 'sp ReplicaSetController" where
  "deletePod env obj c =
     (case (case obj of
              Plain (ApiObject pod) \<Rightarrow> Some pod
            | DeletedFinalStateUnknown k (Some (Plain (ApiObject pod))) \<Rightarrow> Some pod
            | _ \<Rightarrow> None) of
        None \<Rightarrow> c
      | Some pod \<Rightarrow>
          (case getPodReplicaSet env pod c of
             (None, c) \<Rightarrow> c
           | (Some rs, c) \<Rightarrow>
               (case rs_KeyFunc (rs_object rs) of
                  Inl err \<Rightarrow> c
                | Inr rsKey \<Rightarrow>
                    enqueueReplicaSet (rs_object rs) (rsc_DeletionObserved rsKey (PodKey pod) c))))"

definition addPod :: "('f, 'sp) rs_env \<Rightarrow> Pod \<Rightarrow> 'sp ReplicaSetController \<Rightarrow> 'sp ReplicaSetController" where
  "addPod env pod c =
     (case getPodReplicaSet env pod c of
        (None, c) \<Rightarrow> c
      | (Some rs, c) \<Rightarrow>
          (case rs_KeyFunc (rs_object rs) of
             Inl err \<Rightarrow> c
           | Inr rsKey \<Rightarrow>
               if DeletionTimestamp pod \<noteq> None then deletePod env (Plain (ApiObject pod)) c
               else enqueueReplicaSet (rs_object rs) (rsc_CreationObserved rsKey c)))"

text \<open>\<open>deepEqual\<close> is \<^verbatim>\<open>api.Semantic.DeepEqual\<close>, which also sees the fields a pod has beyond the model.\<close>

definition updatePod ::
  "('f, 'sp) rs_env \<Rightarrow> (Pod \<Rightarrow> Pod \<Rightarrow> bool) \<Rightarrow> Pod \<Rightarrow> Pod \<Rightarrow> 'sp ReplicaSetController
     \<Rightarrow> 'sp ReplicaSetController" where
  "updatePod env deepEqual oldPod curPod c =
     (if deepEqual oldPod curPod then c
      else case getPodReplicaSet env curPod c of
        (None, c) \<Rightarrow> c
      | (Some rs, c) \<Rightarrow>
          if DeletionTimestamp curPod \<noteq> None then deletePod env (Plain (ApiObject curPod)) c
          else let c = enqueueReplicaSet (rs_object rs) c
               in if pod_Labels curPod \<noteq> pod_Labels oldPod
                  then (case getPodReplicaSet env oldPod c of
                          (None, c) \<Rightarrow> c
                        | (Some oldRS, c) \<Rightarrow> enqueueReplicaSet (rs_object oldRS) c)
                  else c)"

text \<open>The update handler of the replica set informer, given in \<^verbatim>\<open>NewReplicaSetController\<close>.\<close>

definition updateReplicaSet ::
  "'sp ReplicaSet \<Rightarrow> 'sp ReplicaSet \<Rightarrow> 'sp ReplicaSetController \<Rightarrow> 'sp ReplicaSetController" where
  "updateReplicaSet oldRS curRS c =
     (let c = (if rs_Selector oldRS \<noteq> rs_Selector curRS
               then c\<lparr>lookupCache := InvalidateAll (lookupCache c)\<rparr> else c)
      in enqueueReplicaSet (rs_object curRS) c)"

section \<open>Managing replicas\<close>

datatype pod_task = CreateTask | DeleteTask Pod

text \<open>
  \<^verbatim>\<open>manageReplicas\<close> up to the start of the goroutines, one task each.  \<^verbatim>\<open>None\<close> is a panic: an
  index out of range when the number of replicas is negative, a negative counter of the wait
  group when \<^verbatim>\<open>burstReplicas\<close> is.
\<close>

definition manageReplicas_begin ::
  "('f, 'sp) rs_env \<Rightarrow> int \<Rightarrow> Pod list \<Rightarrow> 'sp ReplicaSet \<Rightarrow> 'sp ReplicaSetController
     \<Rightarrow> (pod_task list \<times> 'sp ReplicaSetController) option" where
  "manageReplicas_begin env now filteredPods rs c =
     (let diff = int (length filteredPods) - rs_Replicas rs
      in case rs_KeyFunc (rs_object rs) of
           Inl err \<Rightarrow> Some ([], c)
         | Inr rsKey \<Rightarrow>
             if diff < 0 then
               (let diff = diff * (- 1);
                    diff = (if diff > burstReplicas c then burstReplicas c else diff);
                    e = expectations c;
                    (err, ce) = ControllerExpectations_ExpectCreations now rsKey (word_of_int diff) (embedded e);
                    c = c\<lparr>expectations := e\<lparr>embedded := ce\<rparr>\<rparr>
                in if diff < 0 then None else Some (replicate (nat diff) CreateTask, c))
             else if diff > 0 then
               (let diff = (if diff > burstReplicas c then burstReplicas c else diff);
                    filteredPods = (if rs_Replicas rs \<noteq> 0 then sort_active env filteredPods else filteredPods)
                in if diff > int (length filteredPods) then None
                   else
                     (let deleted = take (nat diff) filteredPods;
                          (err, u) = UIDTracking_ExpectDeletions (ControllerExpectations_ExpectDeletions now)
                             rsKey (map PodKey deleted) (expectations c);
                          c = c\<lparr>expectations := u\<rparr>
                      in if diff < 0 then None else Some (map DeleteTask deleted, c)))
             else Some ([], c))"

text \<open>The end of a goroutine: \<open>ok\<close> says whether the pod control returned no error.\<close>

definition finish_task ::
  "'sp ReplicaSet \<Rightarrow> pod_task \<Rightarrow> bool \<Rightarrow> 'sp ReplicaSetController \<Rightarrow> 'sp ReplicaSetController" where
  "finish_task rs task ok c =
     (case rs_KeyFunc (rs_object rs) of
        Inl err \<Rightarrow> c
      | Inr rsKey \<Rightarrow>
          if ok then c
          else case task of
            CreateTask \<Rightarrow> rsc_CreationObserved rsKey c
          | DeleteTask pod \<Rightarrow> rsc_DeletionObserved rsKey (PodKey pod) c)"

text \<open>The clients: the pod control and the replica sets of the API server.\<close>

record ('k, 'sp) rs_client =
  CreatePods :: "string \<Rightarrow> 'sp PodTemplateSpec \<Rightarrow> 'sp ReplicaSet \<Rightarrow> 'k \<Rightarrow> go_error option \<times> 'k"
  DeletePod :: "string \<Rightarrow> string \<Rightarrow> 'sp ReplicaSet \<Rightarrow> 'k \<Rightarrow> go_error option \<times> 'k"
  UpdateStatus :: "'sp ReplicaSet \<Rightarrow> 'k \<Rightarrow> go_error option \<times> 'k"
  GetReplicaSet :: "string \<Rightarrow> 'k \<Rightarrow> (go_error + 'sp ReplicaSet) \<times> 'k"

definition run_task ::
  "('k, 'sp) rs_client \<Rightarrow> 'sp ReplicaSet \<Rightarrow> pod_task \<Rightarrow> 'sp ReplicaSetController \<times> 'k
     \<Rightarrow> 'sp ReplicaSetController \<times> 'k" where
  "run_task cl rs task ck =
     (case ck of (c, k) \<Rightarrow>
        (case (case task of
                 CreateTask \<Rightarrow> CreatePods cl (rs_Namespace rs) (rs_Template rs) rs k
               | DeleteTask pod \<Rightarrow> DeletePod cl (rs_Namespace rs) (pod_Name pod) rs k) of
           (err, k) \<Rightarrow> (finish_task rs task (err = None) c, k)))"

text \<open>\<^verbatim>\<open>manageReplicas\<close> on its own, with the goroutines one after the other.\<close>

definition manageReplicas ::
  "('f, 'sp) rs_env \<Rightarrow> ('k, 'sp) rs_client \<Rightarrow> int \<Rightarrow> Pod list \<Rightarrow> 'sp ReplicaSet
     \<Rightarrow> 'sp ReplicaSetController \<times> 'k \<Rightarrow> ('sp ReplicaSetController \<times> 'k) option" where
  "manageReplicas env cl now filteredPods rs ck =
     (case ck of (c, k) \<Rightarrow>
        (case manageReplicas_begin env now filteredPods rs c of
           None \<Rightarrow> None
         | Some (tasks, c) \<Rightarrow> Some (fold (run_task cl rs) tasks (c, k))))"

section \<open>Syncing\<close>

definition statusUpdateRetries :: nat where "statusUpdateRetries = 1"

text \<open>The first argument is the number of retries left.\<close>

fun updateReplicaCount_loop ::
  "nat \<Rightarrow> ('k, 'sp) rs_client \<Rightarrow> int \<Rightarrow> int \<Rightarrow> 'sp ReplicaSet \<Rightarrow> 'k \<Rightarrow> go_error option \<times> 'k" where
  "updateReplicaCount_loop n cl numReplicas generation rs k =
     (let rs = rs\<lparr>status_Replicas := numReplicas, status_ObservedGeneration := generation\<rparr>
      in case UpdateStatus cl rs k of
           (None, k) \<Rightarrow> (None, k)
         | (Some updateErr, k) \<Rightarrow>
             (case n of
                0 \<Rightarrow> (Some updateErr, k)
              | Suc n \<Rightarrow>
                  (case GetReplicaSet cl (rs_Name rs) k of
                     (Inl getErr, k) \<Rightarrow> (Some getErr, k)
                   | (Inr rs, k) \<Rightarrow> updateReplicaCount_loop n cl numReplicas generation rs k)))"

definition updateReplicaCount ::
  "('k, 'sp) rs_client \<Rightarrow> 'sp ReplicaSet \<Rightarrow> int \<Rightarrow> 'k \<Rightarrow> go_error option \<times> 'k" where
  "updateReplicaCount cl rs numReplicas k =
     (if status_Replicas rs = numReplicas \<and> rs_Generation rs = status_ObservedGeneration rs then (None, k)
      else updateReplicaCount_loop statusUpdateRetries cl numReplicas (rs_Generation rs) rs k)"

datatype sync_error = SyncKeyError go_error | SyncSelectorError label_error

text \<open>
  The part of \<^verbatim>\<open>syncReplicaSet\<close> up to the listing of the pods: either it is over, or it goes on with
  the replica set, whether it needs a sync, and its selector.
\<close>

definition syncReplicaSet_check ::
  "('f, 'sp) rs_env \<Rightarrow> bool \<Rightarrow> int \<Rightarrow> key \<Rightarrow> 'sp ReplicaSetController
     \<Rightarrow> (sync_error option + 'sp ReplicaSet \<times> bool \<times> Selector) \<times> 'sp ReplicaSetController" where
  "syncReplicaSet_check env podStoreSynced now key c =
     (if \<not> podStoreSynced then (Inl None, c\<lparr>rsc_queue := workqueue_Add key (rsc_queue c)\<rparr>)
      else case rsStore c key of
        None \<Rightarrow> (Inl None, c\<lparr>expectations :=
            UIDTracking_DeleteExpectations ControllerExpectations_DeleteExpectations key (expectations c)\<rparr>)
      | Some rs \<Rightarrow>
          (case rs_KeyFunc (rs_object rs) of
             Inl err \<Rightarrow> (Inl (Some (SyncKeyError err)), c)
           | Inr rsKey \<Rightarrow>
               (let rsNeedsSync = ControllerExpectations_SatisfiedExpectations now rsKey (embedded (expectations c))
                in case rs_selector env rs of
                     Inl err \<Rightarrow> (Inl (Some (SyncSelectorError err)), c)
                   | Inr selector \<Rightarrow> (Inr (rs, rsNeedsSync, selector), c))))"

text \<open>\<^verbatim>\<open>podStore.Pods(namespace).List(selector)\<close> and the active pods among them.\<close>

definition podStore_List :: "('f, 'sp) rs_env \<Rightarrow> string \<Rightarrow> Selector \<Rightarrow> (key \<rightharpoonup> Pod) \<Rightarrow> Pod list" where
  "podStore_List env namespace selector s =
     filter (\<lambda>pod. (namespace = '''' \<or> namespace = pod_Namespace pod) \<and> pod_matches env selector pod)
       (map snd (pod_range env s))"

definition syncReplicaSet_list ::
  "('f, 'sp) rs_env \<Rightarrow> 'sp ReplicaSet \<Rightarrow> Selector \<Rightarrow> 'sp ReplicaSetController \<Rightarrow> Pod list" where
  "syncReplicaSet_list env rs selector c =
     FilterActivePods (podStore_List env (rs_Namespace rs) selector (podStore c))"

definition syncReplicaSet ::
  "('f, 'sp) rs_env \<Rightarrow> ('k, 'sp) rs_client \<Rightarrow> bool \<Rightarrow> int \<Rightarrow> key \<Rightarrow> 'sp ReplicaSetController \<times> 'k
     \<Rightarrow> (sync_error option \<times> 'sp ReplicaSetController \<times> 'k) option" where
  "syncReplicaSet env cl podStoreSynced now key ck =
     (case ck of (c, k) \<Rightarrow>
        (case syncReplicaSet_check env podStoreSynced now key c of
           (Inl err, c) \<Rightarrow> Some (err, c, k)
         | (Inr (rs, rsNeedsSync, selector), c) \<Rightarrow>
             (let filteredPods = syncReplicaSet_list env rs selector c
              in case (if rsNeedsSync then manageReplicas env cl now filteredPods rs (c, k) else Some (c, k)) of
                   None \<Rightarrow> None
                 | Some (c, k) \<Rightarrow>
                     (case updateReplicaCount cl rs (int (length filteredPods)) k of
                        (None, k) \<Rightarrow> Some (None, c, k)
                      | (Some err, k) \<Rightarrow> Some (None, enqueueReplicaSet (rs_object rs) c, k)))))"

text \<open>One round of \<^verbatim>\<open>worker\<close>; it returns when the queue is shut down, and \<^verbatim>\<open>Get\<close> may wait.\<close>

definition rsc_worker ::
  "('f, 'sp) rs_env \<Rightarrow> ('k, 'sp) rs_client \<Rightarrow> bool \<Rightarrow> int \<Rightarrow> 'sp ReplicaSetController \<times> 'k
     \<Rightarrow> ('sp ReplicaSetController \<times> 'k) option" where
  "rsc_worker env cl podStoreSynced now ck =
     (case ck of (c, k) \<Rightarrow>
        (case workqueue_Get (rsc_queue c) of
           (Got key, q) \<Rightarrow>
             (case syncReplicaSet env cl podStoreSynced now key (c\<lparr>rsc_queue := q\<rparr>, k) of
                None \<Rightarrow> None
              | Some (err, c, k) \<Rightarrow> Some (c\<lparr>rsc_queue := workqueue_Done key (rsc_queue c)\<rparr>, k))
         | (_, q) \<Rightarrow> Some (c\<lparr>rsc_queue := q\<rparr>, k)))"

end
