(* ===== verification/Replica_Set_Props.thy ===== *)
theory Replica_Set_Props
  imports Replica_Set
begin

text \<open>
  The replica set controller against an API server.  The controller sees the pods with a delay,
  through an informer, and acts on what it sees; the expectations keep it from acting twice.
  The theory closes the loop: the server's pods, the watch events on their way, the handlers and
  one worker that syncs the replica set, in any interleaving.
\<close>

section \<open>Finding the replica set of a pod\<close>

lemma GetPodReplicaSets_loop_spec:
  "GetPodReplicaSets_loop env pod ms rss = Inr rss' \<Longrightarrow> rss' = rss @ filter (isReplicaSetMatch env pod) ms"
  by (induction env pod ms rss rule: GetPodReplicaSets_loop.induct)
    (auto simp: isReplicaSetMatch_def split: sum.splits if_splits)

lemma GetPodReplicaSets_Inr:
  "GetPodReplicaSets env pod s = Inr rss \<Longrightarrow> rss \<noteq> [] \<and> rss = filter (isReplicaSetMatch env pod) (map snd (rs_range env s))"
  by (auto simp: GetPodReplicaSets_def dest: GetPodReplicaSets_loop_spec split: sum.splits if_splits)

text \<open>
  Only the lookup cache changes.  What is found has the key of a stored replica set and matches
  the pod, whatever the lookup cache holds.
\<close>

lemma getPodReplicaSet_spec:
  assumes "getPodReplicaSet env pod c = (r, c')"
    and "\<And>xs. mset (sort_overlapping env xs) = mset xs" and "go_range_ok (rs_range env)" and "finite (dom (rsStore c))"
    and keyed: "\<And>j x. rsStore c j = Some x \<Longrightarrow> rs_KeyFunc (rs_object x) = Inr j"
  shows "\<exists>lc. c' = c\<lparr>lookupCache := lc\<rparr>"
    and "r = Some rs \<Longrightarrow> isReplicaSetMatch env pod rs \<and> (\<exists>j. rs_KeyFunc (rs_object rs) = Inr j \<and> rsStore c j \<noteq> None)"
proof -
  have found: "isReplicaSetMatch env pod (rss' ! 0) \<and> (\<exists>j. rs_KeyFunc (rs_object (rss' ! 0)) = Inr j \<and> rsStore c j \<noteq> None)"
    if "GetPodReplicaSets env pod (rsStore c) = Inr rss" and "rss' = (if length rss > 1 then sort_overlapping env rss else rss)"
    for rss rss'
  proof -
    have mset: "mset rss' = mset rss" using that(2) assms(2) by simp
    then have "rss' \<noteq> []" using GetPodReplicaSets_Inr [OF that(1)] by (metis mset_zero_iff)
    then have "rss' ! 0 \<in> set rss'" by (intro nth_mem) simp
    then have "rss' ! 0 \<in> set rss" using mset by (metis set_mset_mset)
    then have "isReplicaSetMatch env pod (rss' ! 0)" and "rss' ! 0 \<in> set (map snd (rs_range env (rsStore c)))"
      using GetPodReplicaSets_Inr [OF that(1)] by auto
    then obtain j where "isReplicaSetMatch env pod (rss' ! 0)" "rsStore c j = Some (rss' ! 0)"
      using map_entries_mem [OF go_rangeD [OF assms(3,4)]] by auto
    then show ?thesis using keyed by auto
  qed
  show "\<exists>lc. c' = c\<lparr>lookupCache := lc\<rparr>"
    using assms(1) by (auto simp: getPodReplicaSet_def Let_def split: prod.splits option.splits sum.splits if_splits)
  show "isReplicaSetMatch env pod rs \<and> (\<exists>j. rs_KeyFunc (rs_object rs) = Inr j \<and> rsStore c j \<noteq> None)" if "r = Some rs"
    using assms(1) that
    by (auto simp: getPodReplicaSet_def Let_def isCacheValid_def dest: found [OF _ refl]
        split: prod.splits option.splits sum.splits if_splits)
qed

section \<open>Outstanding creations\<close>

text \<open>The number of creations a controller still expects, \<^verbatim>\<open>None\<close> when it expects nothing at all.\<close>

definition adds :: "ControllerExpectations \<Rightarrow> key \<Rightarrow> int option" where
  "adds c k = map_option fst (ce_view c k)"

definition expectations_inv :: "ControllerExpectations UIDTrackingControllerExpectations \<Rightarrow> bool" where
  "expectations_inv u \<longleftrightarrow> uid_inv u \<and> ce_inv (embedded u)"

lemma adds_CreationObserved:
  assumes "ce_inv c"
  shows "ce_inv (ControllerExpectations_CreationObserved k c)"
    and "adds c k = None \<Longrightarrow> adds (ControllerExpectations_CreationObserved k c) k = None"
    and "adds c k = Some a \<Longrightarrow> 0 < a \<Longrightarrow> adds (ControllerExpectations_CreationObserved k c) k = Some (a - 1)"
  using sint_pred_64
  by (auto simp: Observed_eq LowerExpectations_spec [OF assms] adds_def ce_view_def ControlleeExpectations_Add_def)

lemma adds_DeletionObserved:
  assumes "ce_inv c"
  shows "ce_inv (ControllerExpectations_DeletionObserved j c)"
    and "adds (ControllerExpectations_DeletionObserved j c) k = adds c k"
  by (auto simp: Observed_eq LowerExpectations_spec [OF assms] adds_def ce_view_def ControlleeExpectations_Add_def
      option.map_comp comp_def)

lemma adds_ExpectCreations:
  assumes "ce_inv c" and "n < 2 ^ 63"
  shows "\<exists>c'. ControllerExpectations_ExpectCreations t k (word_of_nat n) c = (None, c') \<and> ce_inv c'
    \<and> adds c' k = Some (int n)"
  using SetExpectations_spec [OF assms(1), of t k "word_of_nat n" 0] sint_of_nat_64 [OF assms(2)]
  by (auto simp: ControllerExpectations_ExpectCreations_def adds_def ce_view_def)

lemma uid_DeletionObserved_keeps:
  assumes "expectations_inv u"
  shows "expectations_inv (UIDTracking_DeletionObserved ControllerExpectations_DeletionObserved j x u)"
    and "adds (embedded (UIDTracking_DeletionObserved ControllerExpectations_DeletionObserved j x u)) k
      = adds (embedded u) k"
  using assms UIDTracking_DeletionObserved_spec [of u ControllerExpectations_DeletionObserved j x]
    adds_DeletionObserved [of "embedded u" j]
  by (auto simp: expectations_inv_def split: option.splits)

lemma uid_ExpectDeletions_adds:
  assumes "expectations_inv u" and "length ks < 2 ^ 63"
  shows "\<exists>u'. UIDTracking_ExpectDeletions (ControllerExpectations_ExpectDeletions t) k ks u = (None, u')
    \<and> expectations_inv u' \<and> adds (embedded u') k = Some 0"
proof -
  have "card (set ks) < 2 ^ 63" using card_length [of ks] assms(2) by linarith
  then obtain c where "ControllerExpectations_ExpectDeletions t k (word_of_nat (card (set ks))) (embedded u) = (None, c)"
    "ce_inv c" "ce_view c = (ce_view (embedded u))(k \<mapsto> (0, int (card (set ks)), t))"
    using ce.expect_deletions [of "embedded u" "card (set ks)" t k] assms(1) by (auto simp: expectations_inv_def)
  then show ?thesis
    using UIDTracking_ExpectDeletions_spec [where expectDeletions = "ControllerExpectations_ExpectDeletions t"
        and u = u and k = k and ks = ks] assms(1)
    by (fastforce simp: expectations_inv_def adds_def)
qed

section \<open>Counting active pods\<close>

definition active_pods :: "(key \<rightharpoonup> Pod) \<Rightarrow> key set" where
  "active_pods s = {k. \<exists>p. s k = Some p \<and> IsPodActive p}"

lemma finite_active_pods: "finite (dom s) \<Longrightarrow> finite (active_pods s)"
  by (rule finite_subset [of _ "dom s"]) (auto simp: active_pods_def)

lemma length_filter_entries:
  assumes "map_entries es m"
  shows "length (filter P (map snd es)) = card {k. \<exists>v. m k = Some v \<and> P v}"
proof -
  have "{k. \<exists>v. m k = Some v \<and> P v} = fst ` set (filter (\<lambda>e. P (snd e)) es)"
    using map_entries_mem [OF assms] by (force simp: image_iff)
  moreover have "distinct (map fst (filter (\<lambda>e. P (snd e)) es))"
    by (rule distinct_filter_fst) (rule map_entries_distinct [OF assms])
  ultimately show ?thesis
    by (simp add: filter_map comp_def distinct_card [symmetric, of "map fst _", simplified])
qed

section \<open>The closed loop\<close>

text \<open>
  Watch events on their way to the controller; a notification that the informer has applied to
  the store and not yet given to the handler; and what the worker is about to do: read the
  pods after the check, start managing, wait for its tasks.
\<close>

datatype pod_event = PodAdded Pod | PodModified Pod | PodDeleted Pod

datatype pod_notice = NoticeAdd Pod | NoticeUpdate Pod Pod | NoticeDelete "Pod resource"

datatype 'sp rs_worker =
    Idle
  | Checked bool Selector
  | Listed bool "Pod list"
  | Managing "pod_task list"

record 'sp rs_system =
  server :: "key \<rightharpoonup> Pod"
  events :: "pod_event list"
  notice :: "pod_notice option"
  ctl :: "'sp ReplicaSetController"
  worker :: "'sp rs_worker"

fun apply_event :: "pod_event \<Rightarrow> (key \<rightharpoonup> Pod) \<Rightarrow> (key \<rightharpoonup> Pod)" where
  "apply_event (PodAdded p) s = s(PodKey p \<mapsto> p)"
| "apply_event (PodModified p) s = s(PodKey p \<mapsto> p)"
| "apply_event (PodDeleted p) s = s(PodKey p := None)"

text \<open>What the informer tells the handler about an event, given the store before it.\<close>

fun notice_of :: "pod_event \<Rightarrow> (key \<rightharpoonup> Pod) \<Rightarrow> pod_notice" where
  "notice_of (PodDeleted p) s = NoticeDelete (Plain (ApiObject p))"
| "notice_of (PodAdded p) s = (case s (PodKey p) of None \<Rightarrow> NoticeAdd p | Some old \<Rightarrow> NoticeUpdate old p)"
| "notice_of (PodModified p) s = (case s (PodKey p) of None \<Rightarrow> NoticeAdd p | Some old \<Rightarrow> NoticeUpdate old p)"

fun handle ::
  "('f, 'sp) rs_env \<Rightarrow> (Pod \<Rightarrow> Pod \<Rightarrow> bool) \<Rightarrow> pod_notice \<Rightarrow> 'sp ReplicaSetController \<Rightarrow> 'sp ReplicaSetController" where
  "handle env eq (NoticeAdd p) c = addPod env p c"
| "handle env eq (NoticeUpdate old p) c = updatePod env eq old p c"
| "handle env eq (NoticeDelete obj) c = deletePod env obj c"

text \<open>What may happen to a pod: it stays in its namespace, keeps its labels, and does not come back to life.\<close>

definition pod_decays :: "Pod \<Rightarrow> Pod \<Rightarrow> bool" where
  "pod_decays old p \<longleftrightarrow> PodKey p = PodKey old \<and> pod_Namespace p = pod_Namespace old
     \<and> pod_Labels p = pod_Labels old \<and> (IsPodActive p \<longrightarrow> IsPodActive old)"

text \<open>
  The steps.  A created pod has the labels of the template and a new name.  The expectations do
  not time out: no check comes later than the timeout after the expectations were set.  A create
  call that fails has created nothing; a delete call that succeeds removes the pod or marks it.
\<close>

inductive rs_step ::
  "('f, 'sp) rs_env \<Rightarrow> 'sp ReplicaSet \<Rightarrow> key \<Rightarrow> 'sp rs_system \<Rightarrow> 'sp rs_system \<Rightarrow> bool"
  for env rs k where
  deliver: "events s = e # es \<Longrightarrow> notice s = None \<Longrightarrow>
     rs_step env rs k s (s\<lparr>events := es, notice := Some (notice_of e (podStore (ctl s))),
       ctl := (ctl s)\<lparr>podStore := apply_event e (podStore (ctl s))\<rparr>\<rparr>)"
| handle: "notice s = Some n \<Longrightarrow>
     rs_step env rs k s (s\<lparr>notice := None, ctl := handle env eq n (ctl s)\<rparr>)"
| resync: "rs_step env rs k s (s\<lparr>ctl := updateReplicaSet rs rs (ctl s)\<rparr>)"
| check: "worker s = Idle \<Longrightarrow>
     (\<forall>a d t. ce_view (embedded (expectations (ctl s))) k = Some (a, d, t) \<longrightarrow> now - t \<le> ExpectationsTimeout) \<Longrightarrow>
     syncReplicaSet_check env synced now k (ctl s) = (r, c) \<Longrightarrow>
     rs_step env rs k s (s\<lparr>ctl := c,
       worker := (case r of Inl err \<Rightarrow> Idle | Inr (rs', needsSync, sel) \<Rightarrow> Checked needsSync sel)\<rparr>)"
| list_pods: "worker s = Checked needsSync sel \<Longrightarrow>
     rs_step env rs k s (s\<lparr>worker := Listed needsSync (syncReplicaSet_list env rs sel (ctl s))\<rparr>)"
| manage: "worker s = Listed True pods \<Longrightarrow> manageReplicas_begin env now pods rs (ctl s) = Some (tasks, c) \<Longrightarrow>
     rs_step env rs k s (s\<lparr>ctl := c, worker := Managing tasks\<rparr>)"
| not_needed: "worker s = Listed False pods \<Longrightarrow> rs_step env rs k s (s\<lparr>worker := Managing []\<rparr>)"
| created: "worker s = Managing (xs @ CreateTask # ys) \<Longrightarrow> server s (PodKey p) = None \<Longrightarrow>
     pod_Namespace p = rs_Namespace rs \<Longrightarrow> pod_Labels p = tmpl_Labels (rs_Template rs) \<Longrightarrow>
     rs_step env rs k s (s\<lparr>server := (server s)(PodKey p \<mapsto> p), events := events s @ [PodAdded p],
       ctl := finish_task rs CreateTask True (ctl s), worker := Managing (xs @ ys)\<rparr>)"
| create_failed: "worker s = Managing (xs @ CreateTask # ys) \<Longrightarrow>
     rs_step env rs k s (s\<lparr>ctl := finish_task rs CreateTask False (ctl s), worker := Managing (xs @ ys)\<rparr>)"
| delete_returned: "worker s = Managing (xs @ DeleteTask p # ys) \<Longrightarrow>
     rs_step env rs k s (s\<lparr>ctl := finish_task rs (DeleteTask p) ok (ctl s), worker := Managing (xs @ ys)\<rparr>)"
| synced: "worker s = Managing [] \<Longrightarrow> rs_step env rs k s (s\<lparr>worker := Idle\<rparr>)"
| status_failed: "worker s = Managing [] \<Longrightarrow>
     rs_step env rs k s (s\<lparr>ctl := enqueueReplicaSet (rs_object rs) (ctl s), worker := Idle\<rparr>)"
| pod_changed: "server s (PodKey p) = Some old \<Longrightarrow> pod_decays old p \<Longrightarrow>
     rs_step env rs k s (s\<lparr>server := (server s)(PodKey p \<mapsto> p), events := events s @ [PodModified p]\<rparr>)"
| pod_deleted: "server s (PodKey p) = Some p \<Longrightarrow>
     rs_step env rs k s (s\<lparr>server := (server s)(PodKey p := None), events := events s @ [PodDeleted p]\<rparr>)"

text \<open>
  The replica set is the only one in the store, under its key; its template has labels that its
  selector matches.  At the start the controller has an exact view of the pods.
\<close>

definition rs_setup :: "('f, 'sp) rs_env \<Rightarrow> 'sp ReplicaSet \<Rightarrow> key \<Rightarrow> bool" where
  "rs_setup env rs k \<longleftrightarrow> rs_KeyFunc (rs_object rs) = Inr k
     \<and> (\<forall>p. pod_Namespace p = rs_Namespace rs \<and> pod_Labels p = tmpl_Labels (rs_Template rs) \<longrightarrow> isReplicaSetMatch env p rs)
     \<and> go_range_ok (pod_range env) \<and> go_range_ok (rs_range env)
     \<and> (\<forall>xs. mset (sort_overlapping env xs) = mset xs)
     \<and> (\<forall>xs. mset (sort_active env xs) = mset xs)"

definition rs_start :: "('f, 'sp) rs_env \<Rightarrow> 'sp ReplicaSet \<Rightarrow> key \<Rightarrow> 'sp rs_system \<Rightarrow> bool" where
  "rs_start env rs k s \<longleftrightarrow> events s = [] \<and> notice s = None \<and> worker s = Idle \<and> podStore (ctl s) = server s
     \<and> finite (dom (server s)) \<and> (\<forall>j p. server s j = Some p \<longrightarrow> j = PodKey p \<and> isReplicaSetMatch env p rs)
     \<and> rsStore (ctl s) = [k \<mapsto> rs] \<and> 0 \<le> burstReplicas (ctl s) \<and> burstReplicas (ctl s) < 2 ^ 63
     \<and> expectations (ctl s) = NewUIDTrackingControllerExpectations NewControllerExpectations"

section \<open>The invariant\<close>

fun is_added :: "pod_event \<Rightarrow> bool" where
  "is_added (PodAdded p) = True" | "is_added _ = False"

fun create_tasks :: "'sp rs_worker \<Rightarrow> nat" where
  "create_tasks (Managing tasks) = length (filter (\<lambda>t. t = CreateTask) tasks)"
| "create_tasks _ = 0"

text \<open>The creations that the controller has asked for and not yet observed.\<close>

fun notice_creations :: "pod_notice option \<Rightarrow> nat" where
  "notice_creations (Some (NoticeAdd p)) = 1" | "notice_creations _ = 0"

definition pending_creations :: "'sp rs_system \<Rightarrow> nat" where
  "pending_creations s = length (filter is_added (events s))
     + notice_creations (notice s) + create_tasks (worker s)"

text \<open>The events lead from the controller's store to the server's pods.\<close>

fun leads :: "('f, 'sp) rs_env \<Rightarrow> 'sp ReplicaSet \<Rightarrow> pod_event list \<Rightarrow> (key \<rightharpoonup> Pod) \<Rightarrow> (key \<rightharpoonup> Pod) \<Rightarrow> bool" where
  "leads env rs [] v s = (v = s)"
| "leads env rs (PodAdded p # es) v s = (v (PodKey p) = None \<and> isReplicaSetMatch env p rs
     \<and> leads env rs es (v(PodKey p \<mapsto> p)) s)"
| "leads env rs (PodModified p # es) v s = (\<exists>old. v (PodKey p) = Some old \<and> pod_decays old p
     \<and> isReplicaSetMatch env p rs \<and> leads env rs es (v(PodKey p \<mapsto> p)) s)"
| "leads env rs (PodDeleted p # es) v s = leads env rs es (v(PodKey p := None)) s"

lemma leads_finite: "leads env rs es v s \<Longrightarrow> finite (dom v) \<Longrightarrow> finite (dom s)"
  by (induction env rs es v s rule: leads.induct) auto

lemma leads_snoc_added:
  "leads env rs es v s \<Longrightarrow> s (PodKey p) = None \<Longrightarrow> isReplicaSetMatch env p rs \<Longrightarrow>
     leads env rs (es @ [PodAdded p]) v (s(PodKey p \<mapsto> p))"
  by (induction env rs es v s rule: leads.induct) auto

lemma leads_snoc_modified:
  "leads env rs es v s \<Longrightarrow> s (PodKey p) = Some old \<Longrightarrow> pod_decays old p \<Longrightarrow> isReplicaSetMatch env p rs \<Longrightarrow>
     leads env rs (es @ [PodModified p]) v (s(PodKey p \<mapsto> p))"
  by (induction env rs es v s rule: leads.induct) auto

lemma leads_snoc_deleted:
  "leads env rs es v s \<Longrightarrow> leads env rs (es @ [PodDeleted p]) v (s(PodKey p := None))"
  by (induction env rs es v s rule: leads.induct) auto

lemma active_pods_put:
  "active_pods (m(j \<mapsto> p)) = (if IsPodActive p then insert j (active_pods m) else active_pods m - {j})"
  by (auto simp: active_pods_def)

lemma active_pods_drop: "active_pods (m(j := None)) = active_pods m - {j}"
  by (auto simp: active_pods_def)

lemma active_pods_decay:
  "m (PodKey p) = Some old \<Longrightarrow> pod_decays old p \<Longrightarrow> active_pods (m(PodKey p \<mapsto> p)) \<subseteq> active_pods m"
  by (auto simp: active_pods_def pod_decays_def)

lemma leads_Cons:
  assumes "leads env rs (e # es) v s"
  shows "leads env rs es (apply_event e v) s"
    and "finite (dom v) \<Longrightarrow> card (active_pods (apply_event e v)) \<le> card (active_pods v) + of_bool (is_added e)"
    and "\<forall>j p. v j = Some p \<longrightarrow> j = PodKey p \<and> isReplicaSetMatch env p rs \<Longrightarrow>
      \<forall>j p. apply_event e v j = Some p \<longrightarrow> j = PodKey p \<and> isReplicaSetMatch env p rs"
proof -
  show "leads env rs es (apply_event e v) s" using assms by (cases e) auto
  show "\<forall>j p. apply_event e v j = Some p \<longrightarrow> j = PodKey p \<and> isReplicaSetMatch env p rs"
    if "\<forall>j p. v j = Some p \<longrightarrow> j = PodKey p \<and> isReplicaSetMatch env p rs"
    using assms that by (cases e) auto
  assume fin: "finite (dom v)"
  show "card (active_pods (apply_event e v)) \<le> card (active_pods v) + of_bool (is_added e)"
  proof (cases e)
    case (PodAdded p)
    then show ?thesis using finite_active_pods [OF fin]
      by (auto simp: active_pods_put card_insert_if intro: card_mono le_SucI)
  next
    case (PodModified p)
    then obtain old where "v (PodKey p) = Some old" "pod_decays old p" using assms by auto
    from active_pods_decay [where m = v, OF this] PodModified finite_active_pods [OF fin] show ?thesis
      by (auto intro: card_mono)
  next
    case (PodDeleted p)
    then show ?thesis using finite_active_pods [OF fin] by (auto simp: active_pods_drop intro: card_mono)
  qed
qed

text \<open>What the controller sees is at most the creations behind what there is.\<close>

lemma leads_active:
  "leads env rs es v s \<Longrightarrow> finite (dom v) \<Longrightarrow> card (active_pods s) \<le> card (active_pods v) + length (filter is_added es)"
proof (induction es arbitrary: v)
  case (Cons e es)
  have "finite (dom (apply_event e v))" using Cons.prems(2) by (cases e) auto
  from Cons.IH [OF leads_Cons(1) [OF Cons.prems(1)] this] leads_Cons(2) [OF Cons.prems] show ?case
    by (cases "is_added e") simp_all
qed simp

section \<open>Handlers and tasks keep what matters\<close>

text \<open>What the other parts of the system see of the controller, apart from the outstanding creations.\<close>

definition rs_ctl_ok :: "'sp ReplicaSet \<Rightarrow> key \<Rightarrow> 'sp ReplicaSetController \<Rightarrow> bool" where
  "rs_ctl_ok rs k c \<longleftrightarrow> rsStore c = [k \<mapsto> rs] \<and> expectations_inv (expectations c)
     \<and> 0 \<le> burstReplicas c \<and> burstReplicas c < 2 ^ 63"

abbreviation rs_adds :: "key \<Rightarrow> 'sp ReplicaSetController \<Rightarrow> int option" where
  "rs_adds k c \<equiv> adds (embedded (expectations c)) k"

text \<open>A step of the controller that does not observe a creation.\<close>

definition quiet :: "key \<Rightarrow> 'sp ReplicaSetController \<Rightarrow> 'sp ReplicaSetController \<Rightarrow> bool" where
  "quiet k c c' \<longleftrightarrow> rsStore c' = rsStore c \<and> podStore c' = podStore c \<and> burstReplicas c' = burstReplicas c
     \<and> (expectations_inv (expectations c) \<longrightarrow> expectations_inv (expectations c') \<and> rs_adds k c' = rs_adds k c)"

lemma quiet_refl [simp]: "quiet k c c"
  by (simp add: quiet_def)

lemma quiet_trans: "quiet k a b \<Longrightarrow> quiet k b c \<Longrightarrow> quiet k a c"
  by (auto simp: quiet_def)

lemma quiet_cache [simp]: "quiet k c (c\<lparr>lookupCache := lc\<rparr>)"
  by (simp add: quiet_def)

lemma quiet_enqueue [simp]: "quiet k c (enqueueReplicaSet obj c)"
  by (auto simp: quiet_def enqueueReplicaSet_def split: sum.split)

lemma quiet_DeletionObserved [simp]: "quiet k c (rsc_DeletionObserved j x c)"
  using uid_DeletionObserved_keeps by (auto simp: quiet_def rsc_DeletionObserved_def)

lemma quiet_getPodReplicaSet:
  "getPodReplicaSet env pod c = (r, c') \<Longrightarrow> quiet k c c'"
  by (auto simp: getPodReplicaSet_def Let_def quiet_def split: prod.splits option.splits sum.splits if_splits)

lemma quiet_deletePod: "quiet k c (deletePod env obj c)"
  unfolding deletePod_def
  by (auto split: option.split prod.split sum.split
      intro: quiet_trans [OF quiet_getPodReplicaSet] quiet_trans [OF quiet_DeletionObserved quiet_enqueue] dest: quiet_getPodReplicaSet)

lemma quiet_updatePod: "quiet k c (updatePod env eq old p c)"
  unfolding updatePod_def Let_def
  by (auto split: option.split prod.split simp: quiet_deletePod
      intro: quiet_trans [OF quiet_getPodReplicaSet] quiet_trans [OF quiet_enqueue]
        quiet_trans [OF quiet_getPodReplicaSet quiet_trans [OF quiet_enqueue
            quiet_trans [OF quiet_getPodReplicaSet quiet_enqueue]]]
      dest: quiet_getPodReplicaSet)

text \<open>The controller observes at most one creation.\<close>

definition lowers :: "key \<Rightarrow> 'sp ReplicaSetController \<Rightarrow> 'sp ReplicaSetController \<Rightarrow> bool" where
  "lowers k c c' \<longleftrightarrow> rsStore c' = rsStore c \<and> podStore c' = podStore c \<and> burstReplicas c' = burstReplicas c
     \<and> (expectations_inv (expectations c) \<longrightarrow> expectations_inv (expectations c')
        \<and> (rs_adds k c = None \<longrightarrow> rs_adds k c' = None)
        \<and> (\<forall>a. rs_adds k c = Some a \<longrightarrow> 0 < a \<longrightarrow> rs_adds k c' \<in> {Some a, Some (a - 1)}))"

lemma quiet_lowers: "quiet k c c' \<Longrightarrow> lowers k c c'"
  by (auto simp: quiet_def lowers_def)

lemma lowers_quiet: "lowers k a b \<Longrightarrow> quiet k b c \<Longrightarrow> lowers k a c"
  by (auto simp: quiet_def lowers_def)

lemma quiet_then_lowers: "quiet k a b \<Longrightarrow> lowers k b c \<Longrightarrow> lowers k a c"
  by (auto simp: quiet_def lowers_def)

lemma lowers_CreationObserved: "lowers k c (rsc_CreationObserved k c)"
proof -
  have "expectations_inv (expectations (rsc_CreationObserved k c))" if "expectations_inv (expectations c)"
    using that adds_CreationObserved(1)
    by (auto simp: rsc_CreationObserved_def expectations_inv_def uid_inv_def UIDTracking_GetUIDs_def)
  then show ?thesis
    using adds_CreationObserved [of "embedded (expectations c)" k]
    by (auto simp: lowers_def rsc_CreationObserved_def expectations_inv_def)
qed

lemma lowers_addPod:
  assumes "rs_setup env rs k" and "rs_ctl_ok rs k c"
  shows "lowers k c (addPod env p c)"
proof -
  obtain r c1 where get: "getPodReplicaSet env p c = (r, c1)" by force
  note q = quiet_getPodReplicaSet [OF get, of k]
  show ?thesis
  proof (cases r)
    case None
    then show ?thesis using get q by (simp add: addPod_def quiet_lowers)
  next
    case (Some rs')
    have store: "rsStore c = [k \<mapsto> rs]" and key: "rs_KeyFunc (rs_object rs) = Inr k"
      using assms by (auto simp: rs_setup_def rs_ctl_ok_def)
    have "\<exists>j. rs_KeyFunc (rs_object rs') = Inr j \<and> rsStore c j \<noteq> None"
      by (rule getPodReplicaSet_spec(2) [OF get _ _ _ _ Some, THEN conjunct2])
        (use assms(1) store key in \<open>auto simp: rs_setup_def split: if_splits\<close>)
    then have "rs_KeyFunc (rs_object rs') = Inr k" by (auto simp: store split: if_splits)
    then show ?thesis
      using get Some
      by (simp add: addPod_def quiet_then_lowers [OF q quiet_lowers [OF quiet_deletePod]]
          quiet_then_lowers [OF q lowers_quiet [OF lowers_CreationObserved quiet_enqueue]])
  qed
qed

lemma lowers_finish_task:
  assumes "rs_setup env rs k"
  shows "lowers k c (finish_task rs CreateTask ok c)" and "quiet k c (finish_task rs (DeleteTask p) ok c)"
    and "quiet k c (finish_task rs CreateTask True c)"
  using assms lowers_CreationObserved by (auto simp: finish_task_def rs_setup_def quiet_lowers)

section \<open>The number of pods\<close>

text \<open>What a worker that needs a sync knows, with the pending creations and the number of active pods.\<close>

fun rs_worker_ok :: "('f, 'sp) rs_env \<Rightarrow> 'sp ReplicaSet \<Rightarrow> 'sp rs_worker \<Rightarrow> nat \<Rightarrow> nat \<Rightarrow> bool" where
  "rs_worker_ok env rs (Checked needsSync sel) pend n = (needsSync \<longrightarrow> rs_selector env rs = Inr sel \<and> pend = 0)"
| "rs_worker_ok env rs (Listed needsSync pods) pend n = (needsSync \<longrightarrow> pend = 0 \<and> n \<le> length pods)"
| "rs_worker_ok env rs _ pend n = True"

lemma rs_worker_ok_mono:
  "rs_worker_ok env rs w pend n \<Longrightarrow> pend' \<le> pend \<Longrightarrow> n' \<le> n \<Longrightarrow> rs_worker_ok env rs w pend' n'"
  by (cases w) auto

definition rs_inv :: "('f, 'sp) rs_env \<Rightarrow> 'sp ReplicaSet \<Rightarrow> key \<Rightarrow> int \<Rightarrow> 'sp rs_system \<Rightarrow> bool" where
  "rs_inv env rs k B s \<longleftrightarrow> rs_ctl_ok rs k (ctl s) \<and> finite (dom (podStore (ctl s)))
     \<and> (\<forall>j p. podStore (ctl s) j = Some p \<longrightarrow> j = PodKey p \<and> isReplicaSetMatch env p rs)
     \<and> leads env rs (events s) (podStore (ctl s)) (server s)
     \<and> (pending_creations s = 0 \<or> (\<exists>a. rs_adds k (ctl s) = Some a \<and> int (pending_creations s) \<le> a))
     \<and> rs_worker_ok env rs (worker s) (pending_creations s) (card (active_pods (server s)))
     \<and> int (card (active_pods (server s)) + create_tasks (worker s)) \<le> B"

lemma rs_invD:
  assumes "rs_inv env rs k B s"
  shows "rs_ctl_ok rs k (ctl s)" and "finite (dom (podStore (ctl s)))"
    and "\<forall>j p. podStore (ctl s) j = Some p \<longrightarrow> j = PodKey p \<and> isReplicaSetMatch env p rs"
    and "leads env rs (events s) (podStore (ctl s)) (server s)"
    and "finite (active_pods (server s))"
proof -
  show leads: "leads env rs (events s) (podStore (ctl s)) (server s)" and fin: "finite (dom (podStore (ctl s)))"
    and "rs_ctl_ok rs k (ctl s)"
    and "\<forall>j p. podStore (ctl s) j = Some p \<longrightarrow> j = PodKey p \<and> isReplicaSetMatch env p rs"
    using assms unfolding rs_inv_def by blast+
  show "finite (active_pods (server s))" by (rule finite_active_pods [OF leads_finite [OF leads fin]])
qed

lemma leads_match:
  "leads env rs es v s \<Longrightarrow> \<forall>j p. v j = Some p \<longrightarrow> j = PodKey p \<and> isReplicaSetMatch env p rs \<Longrightarrow>
     \<forall>j p. s j = Some p \<longrightarrow> j = PodKey p \<and> isReplicaSetMatch env p rs"
proof (induction es arbitrary: v)
  case (Cons e es)
  from Cons.IH [OF leads_Cons(1,3) [OF Cons.prems(1)]] Cons.prems(2) show ?case by blast
qed simp

text \<open>A step that changes only the controller, quietly.\<close>

lemma rs_inv_quiet:
  assumes "rs_inv env rs k B s" and "quiet k (ctl s) c"
  shows "rs_inv env rs k B (s\<lparr>ctl := c\<rparr>)"
proof -
  have "rs_adds k c = rs_adds k (ctl s)" "rs_ctl_ok rs k c" "podStore c = podStore (ctl s)"
    using assms by (auto simp: rs_inv_def quiet_def rs_ctl_ok_def)
  then show ?thesis using assms(1)
    by (auto simp: rs_inv_def pending_creations_def)
qed

text \<open>A step in which a creation is observed that was pending.\<close>

lemma rs_inv_lowers:
  assumes inv: "rs_inv env rs k B s" and low: "lowers k (ctl s) c"
    and s': "server s' = server s" "events s' = events s" "ctl s' = c"
    and one: "pending_creations s = Suc (pending_creations s')" "create_tasks (worker s') \<le> create_tasks (worker s)"
    and work: "worker s' = worker s \<or> worker s' = Managing ts"
  shows "rs_inv env rs k B s'"
proof -
  obtain a where a: "rs_adds k (ctl s) = Some a" "int (pending_creations s) \<le> a"
    using inv one(1) by (auto simp: rs_inv_def)
  then have "0 < a" using one(1) by simp
  then have c: "rs_adds k c \<in> {Some a, Some (a - 1)}" "rs_ctl_ok rs k c" "podStore c = podStore (ctl s)"
    using low inv a(1) by (auto simp: lowers_def rs_inv_def rs_ctl_ok_def)
  have "rs_worker_ok env rs (worker s') (pending_creations s') (card (active_pods (server s)))"
    using inv work rs_worker_ok_mono [of env rs "worker s" "pending_creations s" _ "pending_creations s'"] one(1)
    by (auto simp: rs_inv_def)
  then show ?thesis using inv a(2) c one by (auto simp: rs_inv_def s')
qed

lemma length_syncReplicaSet_list:
  assumes "rs_setup env rs k" and "finite (dom (podStore c))" and "rs_selector env rs = Inr sel"
    and "\<forall>j p. podStore c j = Some p \<longrightarrow> j = PodKey p \<and> isReplicaSetMatch env p rs"
  shows "length (syncReplicaSet_list env rs sel c) = card (active_pods (podStore c))"
proof -
  have es: "map_entries (pod_range env (podStore c)) (podStore c)"
    using assms(1,2) by (intro go_rangeD) (simp_all add: rs_setup_def)
  let ?P = "\<lambda>pod. IsPodActive pod \<and> (rs_Namespace rs = '''' \<or> rs_Namespace rs = pod_Namespace pod) \<and> pod_matches env sel pod"
  have "syncReplicaSet_list env rs sel c = filter ?P (map snd (pod_range env (podStore c)))"
    by (simp add: syncReplicaSet_list_def podStore_List_def FilterActivePods_eq conj_commute conj_left_commute)
  moreover have "{j. \<exists>p. podStore c j = Some p \<and> ?P p} = active_pods (podStore c)"
    using assms(3,4) by (auto simp: active_pods_def isReplicaSetMatch_def split: if_splits)
  ultimately show ?thesis using length_filter_entries [OF es, of ?P] by simp
qed

lemma manage_creates:
  assumes "rs_setup env rs k" and "rs_ctl_ok rs k c"
    and "manageReplicas_begin env now pods rs c = Some (tasks, c')"
  shows "rs_ctl_ok rs k c' \<and> podStore c' = podStore c
    \<and> (let n = length (filter (\<lambda>t. t = CreateTask) tasks) in
         (0 < n \<longrightarrow> rs_adds k c' = Some (int n) \<and> int n + int (length pods) \<le> rs_Replicas rs))"
proof -
  have key: "rs_KeyFunc (rs_object rs) = Inr k" using assms(1) by (simp add: rs_setup_def)
  have inv: "expectations_inv (expectations c)" "0 \<le> burstReplicas c" "burstReplicas c < 2 ^ 63"
    using assms(2) by (auto simp: rs_ctl_ok_def)
  define diff where "diff = int (length pods) - rs_Replicas rs"
  consider "diff < 0" | "diff = 0" | "0 < diff" by linarith
  then show ?thesis
  proof cases
    case 1
    define n where "n = nat (min (- diff) (burstReplicas c))"
    have n: "(if burstReplicas c < - diff then burstReplicas c else - diff) = int n" "n < 2 ^ 63" "int n \<le> - diff"
      using 1 inv by (auto simp: n_def)
    obtain ce where ce: "ControllerExpectations_ExpectCreations now k (word_of_nat n) (embedded (expectations c)) = (None, ce)"
      "ce_inv ce" "adds ce k = Some (int n)"
      using adds_ExpectCreations [OF _ n(2), of "embedded (expectations c)" now k] inv(1) by (auto simp: expectations_inv_def)
    have "tasks = replicate n CreateTask \<and> c' = c\<lparr>expectations := (expectations c)\<lparr>embedded := ce\<rparr>\<rparr>"
      using assms(3) 1 ce(1) unfolding manageReplicas_begin_def diff_def [symmetric] key
      by (simp add: n(1) Let_def)
    then show ?thesis using ce assms(2) n(3)
      by (auto simp: rs_ctl_ok_def expectations_inv_def uid_inv_def UIDTracking_GetUIDs_def diff_def Let_def)
  next
    case 2
    then show ?thesis using assms(2,3) unfolding manageReplicas_begin_def diff_def [symmetric] key by simp
  next
    case 3
    define fp where "fp = (if rs_Replicas rs \<noteq> 0 then sort_active env pods else pods)"
    obtain ds u where t: "tasks = map DeleteTask ds" "c' = c\<lparr>expectations := u\<rparr>" "int (length ds) \<le> burstReplicas c"
      "snd (UIDTracking_ExpectDeletions (ControllerExpectations_ExpectDeletions now) k (map PodKey ds) (expectations c)) = u"
      using assms(3) 3 inv(2) unfolding manageReplicas_begin_def diff_def [symmetric] key
      by (auto simp: Let_def fp_def [symmetric] split: prod.splits if_splits)
    have "length (map PodKey ds) < 2 ^ 63" using t(3) inv(3) by simp
    from uid_ExpectDeletions_adds [OF inv(1) this, of now k] t assms(2) show ?thesis
      by (auto simp: rs_ctl_ok_def comp_def)
  qed
qed

lemma rs_inv_deliver:
  assumes inv: "rs_inv env rs k B s" and ev: "events s = e # es" "notice s = None"
  shows "rs_inv env rs k B (s\<lparr>events := es, notice := Some (notice_of e (podStore (ctl s))),
       ctl := (ctl s)\<lparr>podStore := apply_event e (podStore (ctl s))\<rparr>\<rparr>)" (is "rs_inv env rs k B ?s")
proof -
  define v where "v = podStore (ctl s)"
  note D = rs_invD [OF inv, unfolded ev v_def [symmetric]]
  have "finite (dom (apply_event e v))" using D(2) by (cases e) auto
  moreover have "pending_creations ?s = pending_creations s"
    using D(4) ev by (cases e) (auto simp: pending_creations_def v_def)
  moreover have "rs_ctl_ok rs k (ctl ?s)" using D(1) by (simp add: rs_ctl_ok_def)
  moreover have "leads env rs (events ?s) (podStore (ctl ?s)) (server ?s)"
    and "\<forall>j p. podStore (ctl ?s) j = Some p \<longrightarrow> j = PodKey p \<and> isReplicaSetMatch env p rs"
    using leads_Cons(1) [OF D(4)] leads_Cons(3) [OF D(4,3)] by (simp_all add: v_def)
  ultimately show ?thesis using inv unfolding rs_inv_def by (simp add: v_def)
qed

lemma rs_inv_handle:
  assumes su: "rs_setup env rs k" and inv: "rs_inv env rs k B s" and n: "notice s = Some n"
  shows "rs_inv env rs k B (s\<lparr>notice := None, ctl := handle env eq n (ctl s)\<rparr>)"
proof (cases n)
  case (NoticeAdd p)
  show ?thesis
    by (rule rs_inv_lowers [OF inv lowers_addPod [OF su rs_invD(1) [OF inv]], of _ p])
      (simp_all add: NoticeAdd n pending_creations_def)
next
  case (NoticeUpdate old p)
  have "rs_inv env rs k B (s\<lparr>ctl := updatePod env eq old p (ctl s)\<rparr>)"
    by (rule rs_inv_quiet [OF inv quiet_updatePod])
  then show ?thesis using NoticeUpdate n by (simp add: rs_inv_def pending_creations_def)
next
  case (NoticeDelete obj)
  have "rs_inv env rs k B (s\<lparr>ctl := deletePod env obj (ctl s)\<rparr>)"
    by (rule rs_inv_quiet [OF inv quiet_deletePod])
  then show ?thesis using NoticeDelete n by (simp add: rs_inv_def pending_creations_def)
qed

text \<open>A satisfied controller whose expectations have not timed out has seen all it created.\<close>

lemma satisfied_no_pending:
  assumes inv: "rs_inv env rs k B s"
    and "\<forall>a d t. ce_view (embedded (expectations (ctl s))) k = Some (a, d, t) \<longrightarrow> now - t \<le> ExpectationsTimeout"
    and "ControllerExpectations_SatisfiedExpectations now k (embedded (expectations (ctl s)))"
  shows "pending_creations s = 0"
proof -
  have "ce_inv (embedded (expectations (ctl s)))"
    using rs_invD(1) [OF inv] by (simp add: rs_ctl_ok_def expectations_inv_def)
  from ce.satisfied_view [OF this, of now k] assms(2,3) have "\<forall>a. rs_adds k (ctl s) = Some a \<longrightarrow> a \<le> 0"
    by (auto simp: adds_def split: option.splits)
  then show ?thesis using inv by (fastforce simp: rs_inv_def)
qed

lemma rs_inv_check:
  assumes su: "rs_setup env rs k" and inv: "rs_inv env rs k B s" and "worker s = Idle"
    and in_time: "\<forall>a d t. ce_view (embedded (expectations (ctl s))) k = Some (a, d, t) \<longrightarrow> now - t \<le> ExpectationsTimeout"
    and check: "syncReplicaSet_check env synced now k (ctl s) = (r, c)"
  shows "rs_inv env rs k B (s\<lparr>ctl := c,
       worker := (case r of Inl err \<Rightarrow> Idle | Inr (rs', needsSync, sel) \<Rightarrow> Checked needsSync sel)\<rparr>)"
proof -
  have store: "rsStore (ctl s) k = Some rs" and key: "rs_KeyFunc (rs_object rs) = Inr k"
    using rs_invD(1) [OF inv] su by (auto simp: rs_ctl_ok_def rs_setup_def)
  have "quiet k (ctl s) c"
    using check store key by (auto simp: syncReplicaSet_check_def Let_def quiet_def split: sum.splits if_splits)
  from rs_inv_quiet [OF inv this] have "rs_inv env rs k B (s\<lparr>ctl := c\<rparr>)" .
  moreover have "case r of Inl err \<Rightarrow> True | Inr (rs', needsSync, sel) \<Rightarrow>
      needsSync \<longrightarrow> rs_selector env rs = Inr sel \<and> pending_creations s = 0"
    using check store key satisfied_no_pending [OF inv in_time]
    by (auto simp: syncReplicaSet_check_def Let_def split: sum.splits if_splits)
  ultimately show ?thesis using assms(3)
    by (auto simp: rs_inv_def pending_creations_def split: sum.splits prod.splits)
qed

lemma rs_inv_list:
  assumes su: "rs_setup env rs k" and inv: "rs_inv env rs k B s" and w: "worker s = Checked needsSync sel"
  shows "rs_inv env rs k B (s\<lparr>worker := Listed needsSync (syncReplicaSet_list env rs sel (ctl s))\<rparr>)"
proof -
  note D = rs_invD [OF inv]
  have "needsSync \<Longrightarrow> card (active_pods (server s)) \<le> length (syncReplicaSet_list env rs sel (ctl s))"
  proof -
    assume "needsSync"
    then have sel: "rs_selector env rs = Inr sel" "pending_creations s = 0" using inv w by (auto simp: rs_inv_def)
    then show ?thesis
      using leads_active [OF D(4,2)] length_syncReplicaSet_list [OF su D(2) sel(1) D(3)]
      by (simp add: pending_creations_def)
  qed
  then show ?thesis using inv w by (auto simp: rs_inv_def pending_creations_def)
qed

lemma rs_inv_manage:
  assumes su: "rs_setup env rs k" and inv: "rs_inv env rs k B s" and w: "worker s = Listed True pods"
    and manage: "manageReplicas_begin env now pods rs (ctl s) = Some (tasks, c)" and B: "rs_Replicas rs \<le> B"
  shows "rs_inv env rs k B (s\<lparr>ctl := c, worker := Managing tasks\<rparr>)"
proof -
  note m = manage_creates [OF su rs_invD(1) [OF inv] manage]
  have w': "pending_creations s = 0" "card (active_pods (server s)) \<le> length pods"
    "length (filter is_added (events s)) = 0" "notice_creations (notice s) = 0"
    using inv w by (auto simp: rs_inv_def pending_creations_def)
  let ?n = "length (filter (\<lambda>t. t = CreateTask) tasks)"
  have "?n = 0 \<or> rs_adds k c = Some (int ?n) \<and> int ?n + int (length pods) \<le> rs_Replicas rs"
    using m by (auto simp: Let_def)
  moreover have "pending_creations (s\<lparr>ctl := c, worker := Managing tasks\<rparr>) = ?n"
    using w'(3,4) by (simp add: pending_creations_def)
  ultimately show ?thesis using inv m w'(2) B w
    by (auto simp: rs_inv_def)
qed

lemma rs_inv_created:
  assumes su: "rs_setup env rs k" and inv: "rs_inv env rs k B s" and w: "worker s = Managing (xs @ CreateTask # ys)"
    and p: "server s (PodKey p) = None" "pod_Namespace p = rs_Namespace rs" "pod_Labels p = tmpl_Labels (rs_Template rs)"
  shows "rs_inv env rs k B (s\<lparr>server := (server s)(PodKey p \<mapsto> p), events := events s @ [PodAdded p],
       ctl := finish_task rs CreateTask True (ctl s), worker := Managing (xs @ ys)\<rparr>)" (is "rs_inv env rs k B ?s")
proof -
  define c where "c = finish_task rs CreateTask True (ctl s)"
  have "isReplicaSetMatch env p rs" using su p(2,3) by (simp add: rs_setup_def)
  then have "leads env rs (events s @ [PodAdded p]) (podStore (ctl s)) ((server s)(PodKey p \<mapsto> p))"
    by (rule leads_snoc_added [OF rs_invD(4) [OF inv] p(1)])
  moreover have "rs_inv env rs k B (s\<lparr>ctl := c\<rparr>)" "podStore c = podStore (ctl s)"
    using rs_inv_quiet [OF inv lowers_finish_task(3) [OF su]] lowers_finish_task(3) [OF su, of "ctl s"]
    by (simp_all add: c_def quiet_def)
  moreover have "pending_creations ?s = pending_creations s" using w by (simp add: pending_creations_def)
  moreover have "card (active_pods ((server s)(PodKey p \<mapsto> p))) \<le> Suc (card (active_pods (server s)))"
    using rs_invD(5) [OF inv] by (auto simp: active_pods_put card_insert_if intro: card_mono le_SucI)
  ultimately show ?thesis using w
    by (simp add: rs_inv_def c_def [symmetric]) (simp add: pending_creations_def)
qed

lemma rs_inv_server:
  assumes inv: "rs_inv env rs k B s" and "leads env rs (events s @ [e]) (podStore (ctl s)) m" and "\<not> is_added e"
    and "active_pods m \<subseteq> active_pods (server s)"
  shows "rs_inv env rs k B (s\<lparr>server := m, events := events s @ [e]\<rparr>)"
proof -
  have "card (active_pods m) \<le> card (active_pods (server s))" by (rule card_mono [OF rs_invD(5) [OF inv] assms(4)])
  moreover have "pending_creations (s\<lparr>server := m, events := events s @ [e]\<rparr>) = pending_creations s"
    using assms(3) by (simp add: pending_creations_def)
  ultimately show ?thesis using inv assms(2) rs_worker_ok_mono [of env rs "worker s"]
    by (auto simp: rs_inv_def)
qed

lemma rs_step_inv:
  assumes su: "rs_setup env rs k" and B: "rs_Replicas rs \<le> B"
    and "rs_step env rs k s s'" and inv: "rs_inv env rs k B s"
  shows "rs_inv env rs k B s'"
  using assms(3)
proof cases
  case (deliver e es)
  then show ?thesis using rs_inv_deliver [OF inv] by simp
next
  case (handle n eq)
  then show ?thesis using rs_inv_handle [OF su inv] by simp
next
  case resync
  then show ?thesis using rs_inv_quiet [OF inv] by (simp add: updateReplicaSet_def)
next
  case (check now synced r c)
  then show ?thesis using rs_inv_check [OF su inv] by simp
next
  case (list_pods needsSync sel)
  then show ?thesis using rs_inv_list [OF su inv] by simp
next
  case (manage pods now tasks c)
  then show ?thesis using rs_inv_manage [OF su inv _ _ B] by simp
next
  case (not_needed pods)
  then show ?thesis using inv by (simp add: rs_inv_def pending_creations_def)
next
  case (created xs ys p)
  then show ?thesis using rs_inv_created [OF su inv] by simp
next
  case (create_failed xs ys)
  show ?thesis
    by (rule rs_inv_lowers [OF inv lowers_finish_task(1) [OF su, of _ False]])
      (simp_all add: create_failed pending_creations_def)
next
  case (delete_returned xs p ys ok)
  have "rs_inv env rs k B (s\<lparr>ctl := finish_task rs (DeleteTask p) ok (ctl s)\<rparr>)"
    by (rule rs_inv_quiet [OF inv lowers_finish_task(2) [OF su]])
  then show ?thesis using delete_returned by (simp add: rs_inv_def pending_creations_def)
next
  case synced
  then show ?thesis using inv by (simp add: rs_inv_def pending_creations_def)
next
  case status_failed
  have "rs_inv env rs k B (s\<lparr>ctl := enqueueReplicaSet (rs_object rs) (ctl s)\<rparr>)"
    by (rule rs_inv_quiet [OF inv quiet_enqueue])
  then show ?thesis using status_failed by (simp add: rs_inv_def pending_creations_def)
next
  case (pod_changed p old)
  note D = rs_invD [OF inv]
  have "isReplicaSetMatch env old rs" using leads_match [OF D(4,3)] pod_changed(2) by blast
  then have "isReplicaSetMatch env p rs" using pod_changed(3)
    by (auto simp: isReplicaSetMatch_def pod_decays_def split: sum.splits if_splits)
  from leads_snoc_modified [OF D(4) pod_changed(2,3) this] show ?thesis
    unfolding pod_changed(1)
    by (rule rs_inv_server [OF inv]) (simp_all add: active_pods_decay [where m = "server s", OF pod_changed(2,3)])
next
  case (pod_deleted p)
  show ?thesis
    unfolding pod_deleted(1)
    by (rule rs_inv_server [OF inv leads_snoc_deleted [OF rs_invD(4) [OF inv]]])
      (auto simp: active_pods_drop)
qed

lemma rs_inv_start:
  assumes "rs_start env rs k s" and "int (card (active_pods (server s))) \<le> B"
  shows "rs_inv env rs k B s"
  using assms uid_inv_New ce_inv_New
  by (auto simp: rs_start_def rs_inv_def rs_ctl_ok_def expectations_inv_def pending_creations_def
      NewUIDTrackingControllerExpectations_def)

text \<open>
  C2: A replica set is never scaled beyond what it asks for.  However the watch events, the handlers
  and the worker interleave, and although the worker acts on pods it sees with a delay, the
  active pods on the server and the create calls still to come are together never more than
  the number of replicas, or than there were at the start when there were more: the
  expectations, checked before the pods are listed, keep the controller from creating a pod
  again that it has not seen yet.
\<close>

theorem replica_set_never_overshoots:
  assumes "rs_setup env rs k" and "rs_start env rs k s0" and "(rs_step env rs k)\<^sup>*\<^sup>* s0 s"
  shows "int (card (active_pods (server s)) + create_tasks (worker s))
    \<le> max (rs_Replicas rs) (int (card (active_pods (server s0))))"
proof -
  have "rs_inv env rs k (max (rs_Replicas rs) (int (card (active_pods (server s0))))) s"
    using assms(3)
    by (induction rule: rtranclp_induct) (auto intro: rs_inv_start [OF assms(2)] rs_step_inv [OF assms(1)])
  then show ?thesis by (simp add: rs_inv_def)
qed

text \<open>A run for the example: a replica set of one pod, of which there is none yet.\<close>

definition example_rs :: "unit ReplicaSet" where
  "example_rs = \<lparr>rs_Name = ''web'', rs_Namespace = ''ns'', rs_CreationTimestamp = 0, rs_Generation = 0, rs_Replicas = 1,
     rs_Selector = Some \<lparr>MatchLabels = [''app'' \<mapsto> ''web''], MatchExpressions = []\<rparr>,
     rs_Template = \<lparr>tmpl_Labels = [''app'' \<mapsto> ''web''], tmpl_Annotations = Map.empty, tmpl_Spec = ()\<rparr>,
     status_Replicas = 0, status_ObservedGeneration = 0\<rparr>"

definition example_env :: "(nat, unit) rs_env" where
  "example_env = \<lparr>parse_float = \<lambda>_. None, float_greater = (>), sort_reqs = sort_key req_key, label_range = sorted_range,
     hashKey = \<lambda>_. 0, sort_overlapping = id, sort_active = id, rs_range = sorted_range, pod_range = sorted_range\<rparr>"

definition example_start :: "unit rs_system" where
  "example_start = \<lparr>server = Map.empty, events = [], notice = None,
     ctl = (NewReplicaSetController 500 16)\<lparr>rsStore := [''ns/web'' \<mapsto> example_rs]\<rparr>, worker = Idle\<rparr>"

lemma example_key: "rs_KeyFunc (rs_object example_rs) = Inr ''ns/web''"
  by (simp add: rs_KeyFunc_def DeletionHandlingMetaNamespaceKeyFunc_def MetaNamespaceKeyFunc_def rs_accessor_def example_rs_def)

lemma example_selector: "rs_selector example_env example_rs
    = Inr (Internal [\<lparr>req_key = ''app'', operator = InOperator, strValues = {''web''}\<rparr>])"
proof -
  have "sorted_range [''app'' \<mapsto> ''web''] = [(''app'', ''web'')]" by (simp add: sorted_range_def)
  then show ?thesis
    by (simp add: rs_selector_def example_env_def example_rs_def LabelSelectorAsSelector_def sets_NewString_def
        valid_example operatorValues_def sets_Len_def NewSelector_def)
qed

lemma example_setup: "rs_setup example_env example_rs ''ns/web''"
proof -
  have "isReplicaSetMatch example_env p example_rs"
    if "pod_Namespace p = rs_Namespace example_rs" "pod_Labels p = tmpl_Labels (rs_Template example_rs)" for p
    using that by (simp add: isReplicaSetMatch_def example_selector)
      (simp add: example_rs_def Requirement_Matches_def Set_Has_def Set_Get_def sets_Has_def)
  then show ?thesis using example_key by (simp add: rs_setup_def) (simp add: example_env_def sorted_range_ok)
qed

lemma example_start_ok: "rs_start example_env example_rs ''ns/web'' example_start"
  by (simp add: rs_start_def example_start_def NewReplicaSetController_def)

theorem replica_set_never_overshoots_witness:
  "\<exists>s. (rs_step example_env example_rs ''ns/web'')\<^sup>*\<^sup>* example_start s
     \<and> create_tasks (worker s) = 1 \<and> int (card (active_pods (server s)) + create_tasks (worker s)) \<le> 1"
proof -
  let ?step = "rs_step example_env example_rs ''ns/web''"
  note eval = example_start_def NewReplicaSetController_def NewUIDTrackingControllerExpectations_def
    NewControllerExpectations_def NewStore_def NewThreadSafeStore_def
  have none: "exp_at (embedded (expectations (ctl example_start))) k = None" for k
    by (simp add: eval exp_at_def ControllerExpectations_GetExpectations_def cache_GetByKey_contents)
  have check: "syncReplicaSet_check example_env True 0 ''ns/web'' (ctl example_start)
      = (Inr (example_rs, True, Internal [\<lparr>req_key = ''app'', operator = InOperator, strValues = {''web''}\<rparr>]), ctl example_start)"
  proof -
    have "rsStore (ctl example_start) ''ns/web'' = Some example_rs" by (simp add: example_start_def)
    then show ?thesis
      using none by (simp add: syncReplicaSet_check_def example_key example_selector SatisfiedExpectations_exp_at Let_def)
  qed
  define s1 where "s1 = example_start\<lparr>worker := Checked True (Internal [\<lparr>req_key = ''app'', operator = InOperator, strValues = {''web''}\<rparr>])\<rparr>"
  have 1: "?step example_start s1"
    using rs_step.check [OF _ _ check] none by (simp add: s1_def ce_view_def) (simp add: example_start_def)
  define s2 where "s2 = s1\<lparr>worker := Listed True []\<rparr>"
  have "syncReplicaSet_list example_env example_rs sel (ctl s1) = []" for sel
    by (simp add: s1_def eval syncReplicaSet_list_def podStore_List_def FilterActivePods_eq) (simp add: example_env_def sorted_range_def)
  then have 2: "?step s1 s2" using rs_step.list_pods [of s1 True _ example_env example_rs] by (simp add: s1_def s2_def)
  obtain c where "manageReplicas_begin example_env 0 [] example_rs (ctl s2) = Some ([CreateTask], c)"
    by (cases "ControllerExpectations_ExpectCreations 0 ''ns/web'' 1 (embedded (expectations (ctl s2)))")
      (simp add: manageReplicas_begin_def example_key example_rs_def [THEN arg_cong, of rs_Replicas] s2_def s1_def eval Let_def)
  from rs_step.manage [where s = s2, OF _ this] have 3: "?step s2 (s2\<lparr>ctl := c, worker := Managing [CreateTask]\<rparr>)"
    by (simp add: s2_def)
  have run: "?step\<^sup>*\<^sup>* example_start (s2\<lparr>ctl := c, worker := Managing [CreateTask]\<rparr>)"
    using 1 2 3 by (meson converse_rtranclp_into_rtranclp rtranclp.rtrancl_refl)
  show ?thesis
    using replica_set_never_overshoots [OF example_setup example_start_ok run] run
    by (intro exI [of _ "s2\<lparr>ctl := c, worker := Managing [CreateTask]\<rparr>"])
      (simp add: s2_def s1_def eval active_pods_def example_rs_def)
qed

end
