(* ===== verification/Inf_Dec.thy ===== *)
theory Inf_Dec
  imports Strconv Complex_Main "HOL-Library.Signed_Division" "HOL-Library.Monad_Syntax"
begin

text \<open>
  \<^verbatim>\<open>inf.Dec\<close>, the decimal numbers below \<^verbatim>\<open>resource.Quantity\<close>
  (\<^verbatim>\<open>Godeps/_workspace/src/speter.net/go/exp/math/dec/inf\<close>, \<^verbatim>\<open>dec.go\<close> and \<^verbatim>\<open>rounder.go\<close>).  A
  \<^verbatim>\<open>big.Int\<close> is an integer.  The scale is an \<^verbatim>\<open>int32\<close> and wraps around; an index out of the
  cached powers of ten and a division by zero are panics, \<^verbatim>\<open>None\<close>.  The methods set their receiver
  and return it; here they return its new value.
\<close>

section \<open>Decimals\<close>

record Dec =
  unscaled :: int
  scale :: int

definition go_int32 :: "int \<Rightarrow> int" where
  "go_int32 i = signed_take_bit 31 i"

definition NewDec :: "int \<Rightarrow> int \<Rightarrow> Dec" where
  "NewDec u s = \<lparr>unscaled = u, scale = s\<rparr>"

definition Dec_Sign :: "Dec \<Rightarrow> int" where
  "Dec_Sign x = sgn (unscaled x)"

definition Dec_Neg :: "Dec \<Rightarrow> Dec" where
  "Dec_Neg x = \<lparr>unscaled = - unscaled x, scale = scale x\<rparr>"

definition Dec_Abs :: "Dec \<Rightarrow> Dec" where
  "Dec_Abs x = \<lparr>unscaled = \<bar>unscaled x\<bar>, scale = scale x\<rparr>"

definition Dec_Mul :: "Dec \<Rightarrow> Dec \<Rightarrow> Dec" where
  "Dec_Mul x y = \<lparr>unscaled = unscaled x * unscaled y, scale = go_int32 (scale x + scale y)\<rparr>"

definition exp10 :: "int \<Rightarrow> int option" where
  "exp10 x = (if x < 0 then None else Some (10 ^ nat x))"

definition rescale :: "Dec \<Rightarrow> int \<Rightarrow> Dec option" where
  "rescale x newScale =
     (let shift = go_int32 (newScale - scale x)
      in if shift < 0 then
           do { e \<leftarrow> exp10 (go_int32 (- shift)); Some \<lparr>unscaled = unscaled x sdiv e, scale = newScale\<rparr> }
         else if shift > 0 then
           do { e \<leftarrow> exp10 shift; Some \<lparr>unscaled = unscaled x * e, scale = newScale\<rparr> }
         else Some x)"

definition upscale :: "Dec \<Rightarrow> Dec \<Rightarrow> (Dec \<times> Dec) option" where
  "upscale a b =
     (if scale a = scale b then Some (a, b)
      else if scale a > scale b then do { bb \<leftarrow> rescale b (scale a); Some (a, bb) }
      else do { aa \<leftarrow> rescale a (scale b); Some (aa, b) })"

definition big_Cmp :: "int \<Rightarrow> int \<Rightarrow> int" where
  "big_Cmp x y = (if x < y then -1 else if x = y then 0 else 1)"

definition Dec_Cmp :: "Dec \<Rightarrow> Dec \<Rightarrow> int option" where
  "Dec_Cmp x y = do { (xx, yy) \<leftarrow> upscale x y; Some (big_Cmp (unscaled xx) (unscaled yy)) }"

definition Dec_Add :: "Dec \<Rightarrow> Dec \<Rightarrow> Dec option" where
  "Dec_Add x y = do { (xx, yy) \<leftarrow> upscale x y; Some \<lparr>unscaled = unscaled xx + unscaled yy, scale = scale xx\<rparr> }"

definition Dec_Sub :: "Dec \<Rightarrow> Dec \<Rightarrow> Dec option" where
  "Dec_Sub x y = do { (xx, yy) \<leftarrow> upscale x y; Some \<lparr>unscaled = unscaled xx - unscaled yy, scale = scale xx\<rparr> }"

section \<open>Rounding\<close>

text \<open>
  A rounder gets the quotient truncated towards zero and the numerator and the denominator of
  the remainder; \<^verbatim>\<open>None\<close> is a nil result.  The quotient keeps its scale.
\<close>

type_synonym rounder = "Dec \<Rightarrow> int \<Rightarrow> int \<Rightarrow> Dec option"

abbreviation add_unscaled :: "int \<Rightarrow> Dec \<Rightarrow> Dec" where
  "add_unscaled i z \<equiv> z\<lparr>unscaled := unscaled z + i\<rparr>"

definition RoundExact :: rounder where
  "RoundExact q rA rB = (if sgn rA \<noteq> 0 then None else Some q)"

definition RoundDown :: rounder where
  "RoundDown q rA rB = Some q"

definition RoundUp :: rounder where
  "RoundUp q rA rB = Some (if sgn rA \<noteq> 0 then add_unscaled (sgn rA * sgn rB) q else q)"

definition RoundFloor :: rounder where
  "RoundFloor q rA rB = Some (if sgn rA * sgn rB < 0 then add_unscaled (-1) q else q)"

definition RoundCeil :: rounder where
  "RoundCeil q rA rB = Some (if sgn rA * sgn rB > 0 then add_unscaled 1 q else q)"

text \<open>The number of bits of the absolute value.\<close>

fun nat_bits :: "nat \<Rightarrow> nat" where
  "nat_bits n = (if n = 0 then 0 else Suc (nat_bits (n div 2)))"

declare nat_bits.simps [simp del]

definition BitLen :: "int \<Rightarrow> int" where
  "BitLen x = int (nat_bits (nat \<bar>x\<bar>))"

definition roundHalf :: "(int \<Rightarrow> int \<Rightarrow> bool) \<Rightarrow> rounder" where
  "roundHalf f q rA rB =
     (let brA = BitLen rA; brB = BitLen rB
      in if brA < brB - 1 then Some q
         else let srB = sgn rB; s = sgn rA * srB;
                  roundUp = (if brA = brB - 1
                             then let rA2 = rA * 2; rA2 = (if s < 0 then - rA2 else rA2)
                                  in f (big_Cmp rA2 rB * srB) (\<bar>unscaled q\<bar> mod 2)
                             else True)
              in Some (if roundUp then add_unscaled s q else q))"

definition RoundHalfDown :: rounder where "RoundHalfDown = roundHalf (\<lambda>c odd. c > 0)"
definition RoundHalfUp :: rounder where "RoundHalfUp = roundHalf (\<lambda>c odd. c \<ge> 0)"
definition RoundHalfEven :: rounder where "RoundHalfEven = roundHalf (\<lambda>c odd. c > 0 \<or> (c = 0 \<and> odd = 1))"

text \<open>The quotient of \<open>x\<close> and \<open>y\<close> at the scale \<open>s\<close>, with the remainder.\<close>

definition quoRem :: "Dec \<Rightarrow> Dec \<Rightarrow> int \<Rightarrow> (Dec \<times> int \<times> int) option" where
  "quoRem x y s =
     (let shift = go_int32 (s - go_int32 (scale x - scale y))
      in do {
        (ix, iy) \<leftarrow>
          (if shift > 0 then do { e \<leftarrow> exp10 shift; Some (unscaled x * e, unscaled y) }
           else if shift < 0 then do { e \<leftarrow> exp10 (go_int32 (- shift)); Some (unscaled x, unscaled y * e) }
           else Some (unscaled x, unscaled y));
        (if iy = 0 then None else Some (\<lparr>unscaled = ix sdiv iy, scale = s\<rparr>, ix smod iy, iy))
      })"

definition Dec_QuoRound :: "Dec \<Rightarrow> Dec \<Rightarrow> int \<Rightarrow> rounder \<Rightarrow> Dec option option" where
  "Dec_QuoRound x y s r = do { (zz, rA, rB) \<leftarrow> quoRem x y s; Some (r zz rA rB) }"

definition Dec_Round :: "Dec \<Rightarrow> int \<Rightarrow> rounder \<Rightarrow> Dec option option" where
  "Dec_Round x s r = Dec_QuoRound x (NewDec 1 0) s r"

section \<open>Reading\<close>

text \<open>\<^verbatim>\<open>big.Int.SetString(s, 10)\<close>.\<close>

fun big_digits :: "string \<Rightarrow> nat \<Rightarrow> nat option" where
  "big_digits [] n = Some n"
| "big_digits (c # cs) n = (case digit_value c of None \<Rightarrow> None | Some v \<Rightarrow> big_digits cs (n * 10 + v))"

definition big_SetString :: "string \<Rightarrow> int option" where
  "big_SetString s =
     (let neg = (s \<noteq> [] \<and> hd s = CHR ''-'');
          t = (if s \<noteq> [] \<and> (hd s = CHR ''-'' \<or> hd s = CHR ''+'') then tl s else s)
      in if t = [] then None
         else map_option (\<lambda>n. if neg then - int n else int n) (big_digits t 0))"

text \<open>The loop of \<^verbatim>\<open>scan\<close>; the last component of the result is the input that is left.\<close>

fun scan_loop :: "string \<Rightarrow> string \<Rightarrow> int \<Rightarrow> int \<Rightarrow> string \<times> int \<times> int \<times> string" where
  "scan_loop [] u dp dg = (u, dp, dg, [])"
| "scan_loop (ch # r) u dp dg =
     (if ch = CHR ''+'' \<or> ch = CHR ''-'' then
        (if length u > 0 \<or> dp \<ge> 0 then (u, dp, dg, ch # r) else scan_loop r (u @ [ch]) dp dg)
      else if ch = CHR ''.'' then
        (if dp \<ge> 0 then (u, dp, dg, ch # r) else scan_loop r u (int (length u)) dg)
      else if CHR ''0'' \<le> ch \<and> ch \<le> CHR ''9'' then
        scan_loop r (u @ [ch]) dp (if dg = -1 then int (length u) else dg)
      else (u, dp, dg, ch # r))"

definition Dec_scan :: "string \<Rightarrow> (Dec \<times> string) option" where
  "Dec_scan s =
     (case scan_loop s [] (-1) (-1) of
        (u, dp, dg, rest) \<Rightarrow>
          if dg = -1 then None
          else do {
            i \<leftarrow> big_SetString u;
            Some (\<lparr>unscaled = i, scale = (if dp \<ge> 0 then go_int32 (int (length u) - dp) else 0)\<rparr>, rest)
          })"

text \<open>\<^verbatim>\<open>None\<close> is a failure.\<close>

definition Dec_SetString :: "string \<Rightarrow> Dec option" where
  "Dec_SetString s = (case Dec_scan s of None \<Rightarrow> None | Some (z, rest) \<Rightarrow> if rest = [] then Some z else None)"

section \<open>Values\<close>

text \<open>
  The number a decimal stands for.  As long as the scales are below \<open>2 ^ 30\<close> their differences do
  not wrap around.
\<close>

definition dec_value :: "Dec \<Rightarrow> rat" where
  "dec_value d = of_int (unscaled d) * 10 powi (- scale d)"

definition scale_ok :: "int \<Rightarrow> bool" where
  "scale_ok s \<longleftrightarrow> \<bar>s\<bar> < 2 ^ 30"

lemma go_int32_id: "- (2 ^ 31) \<le> i \<Longrightarrow> i < 2 ^ 31 \<Longrightarrow> go_int32 i = i"
  by (simp add: go_int32_def signed_take_bit_int_eq_self)

lemma scale_ok_diff:
  assumes "scale_ok s" and "scale_ok t"
  shows "go_int32 (s - t) = s - t" and "go_int32 (- (s - t)) = t - s" and "go_int32 (s + t) = s + t"
  using assms by (simp_all add: scale_ok_def go_int32_id)

lemma scale_ok_0 [simp]: "scale_ok 0"
  by (simp add: scale_ok_def)

lemma exp10_nonneg: "0 \<le> x \<Longrightarrow> exp10 x = Some (10 ^ nat x)"
  by (simp add: exp10_def)

lemma powi_split:
  assumes "s \<le> t"
  shows "10 powi (- s) = (10 :: rat) ^ nat (t - s) * 10 powi (- t)"
proof -
  have "- s = int (nat (t - s)) + (- t)" using assms by simp
  then have "10 powi (- s) = (10 :: rat) powi (int (nat (t - s)) + (- t))" by (rule arg_cong)
  also have "\<dots> = 10 powi int (nat (t - s)) * 10 powi (- t)" by (rule power_int_add) simp
  finally show ?thesis by (simp only: power_int_of_nat)
qed

lemma rescale_up:
  assumes "scale_ok (scale x)" and "scale_ok s" and "scale x \<le> s"
  obtains y where "rescale x s = Some y" "scale y = s" "dec_value y = dec_value x"
    "unscaled y = unscaled x * 10 ^ nat (s - scale x)"
proof
  have "nat (s - scale x) = 0" if "\<not> 0 < s - scale x" using that assms(3) by simp
  then show "rescale x s = Some \<lparr>unscaled = unscaled x * 10 ^ nat (s - scale x), scale = s\<rparr>"
    using assms by (auto simp: rescale_def scale_ok_diff exp10_def)
  show "dec_value \<lparr>unscaled = unscaled x * 10 ^ nat (s - scale x), scale = s\<rparr> = dec_value x"
    by (simp add: dec_value_def powi_split [OF assms(3)])
qed simp_all

lemma upscale_value:
  assumes "scale_ok (scale a)" and "scale_ok (scale b)"
  obtains aa bb where "upscale a b = Some (aa, bb)" "scale aa = scale bb" "scale_ok (scale aa)"
    "dec_value aa = dec_value a" "dec_value bb = dec_value b"
proof (cases "scale a" "scale b" rule: linorder_cases)
  case equal
  then show ?thesis using that assms by (simp add: upscale_def)
next
  case less
  then obtain y where "rescale a (scale b) = Some y" "scale y = scale b" "dec_value y = dec_value a"
    using rescale_up [OF assms] by auto
  then show ?thesis using less assms by (intro that [of y b]) (simp_all add: upscale_def)
next
  case greater
  then obtain y where "rescale b (scale a) = Some y" "scale y = scale a" "dec_value y = dec_value b"
    using rescale_up [OF assms(2,1)] by auto
  then show ?thesis using greater assms by (intro that [of a y]) (simp_all add: upscale_def)
qed

lemma dec_value_same_scale:
  assumes "scale a = scale b"
  shows "dec_value a < dec_value b \<longleftrightarrow> unscaled a < unscaled b"
    and "dec_value a = dec_value b \<longleftrightarrow> unscaled a = unscaled b"
  using assms by (simp_all add: dec_value_def)

text \<open>The operations compute with the values.\<close>

definition rat_cmp :: "rat \<Rightarrow> rat \<Rightarrow> int" where
  "rat_cmp x y = (if x < y then -1 else if x = y then 0 else 1)"

lemma Dec_Cmp_value:
  assumes "scale_ok (scale a)" and "scale_ok (scale b)"
  shows "Dec_Cmp a b = Some (rat_cmp (dec_value a) (dec_value b))"
proof -
  obtain aa bb where "upscale a b = Some (aa, bb)" "scale aa = scale bb"
    "dec_value aa = dec_value a" "dec_value bb = dec_value b" using upscale_value [OF assms] by metis
  then show ?thesis using dec_value_same_scale [of aa bb]
    by (simp add: Dec_Cmp_def big_Cmp_def rat_cmp_def)
qed

lemma Dec_Add_value:
  assumes "scale_ok (scale a)" and "scale_ok (scale b)"
  obtains z where "Dec_Add a b = Some z" "dec_value z = dec_value a + dec_value b" "scale_ok (scale z)"
proof -
  obtain aa bb where *: "upscale a b = Some (aa, bb)" "scale aa = scale bb" "scale_ok (scale aa)"
    "dec_value aa = dec_value a" "dec_value bb = dec_value b" using upscale_value [OF assms] by metis
  then show ?thesis
    using that [of "\<lparr>unscaled = unscaled aa + unscaled bb, scale = scale aa\<rparr>"]
    by (simp add: Dec_Add_def) (simp add: dec_value_def distrib_right)
qed

lemma Dec_Sub_value:
  assumes "scale_ok (scale a)" and "scale_ok (scale b)"
  obtains z where "Dec_Sub a b = Some z" "dec_value z = dec_value a - dec_value b" "scale_ok (scale z)"
proof -
  obtain aa bb where *: "upscale a b = Some (aa, bb)" "scale aa = scale bb" "scale_ok (scale aa)"
    "dec_value aa = dec_value a" "dec_value bb = dec_value b" using upscale_value [OF assms] by metis
  then show ?thesis
    using that [of "\<lparr>unscaled = unscaled aa - unscaled bb, scale = scale aa\<rparr>"]
    by (simp add: Dec_Sub_def) (simp add: dec_value_def left_diff_distrib)
qed

lemma Dec_Neg_value: "dec_value (Dec_Neg a) = - dec_value a"
  by (simp add: Dec_Neg_def dec_value_def)

lemma Dec_Sign_value: "Dec_Sign a = rat_cmp (dec_value a) 0"
proof -
  define e where "e = (10 :: rat) powi (- scale a)"
  have "0 < e" unfolding e_def by (rule zero_less_power_int) simp
  then show ?thesis unfolding dec_value_def e_def [symmetric]
    by (auto simp: Dec_Sign_def rat_cmp_def sgn_if mult_less_0_iff)
qed

lemma Dec_Mul_value:
  assumes "scale_ok (scale a)" and "scale_ok (scale b)"
  shows "dec_value (Dec_Mul a b) = dec_value a * dec_value b"
proof -
  have "10 powi (- scale a - scale b) = (10 :: rat) powi (- scale a) * 10 powi (- scale b)"
    by (simp flip: power_int_add)
  then show ?thesis using assms by (simp add: Dec_Mul_def dec_value_def scale_ok_diff)
qed

section \<open>What the rounders do\<close>

lemma sdiv_pos: "0 < d \<Longrightarrow> n sdiv d = (if 0 \<le> n then n div d else - ((- n) div d))" for n d :: int
  by (cases n "0 :: int" rule: linorder_cases) (simp_all add: signed_divide_int_def)

lemma sgn_smod_pos: "0 < d \<Longrightarrow> sgn (n smod d) = (if d dvd n then 0 else sgn n)" for n d :: int
proof -
  assume d: "0 < d"
  have mod: "n smod d = (if 0 \<le> n then n mod d else - ((- n) mod d))"
    using d by (cases n "0 :: int" rule: linorder_cases) (simp_all add: signed_modulo_int_def)
  have "0 \<le> n mod d" "0 \<le> (- n) mod d" using d by simp_all
  moreover have "d dvd n \<longleftrightarrow> n mod d = 0" "d dvd n \<longleftrightarrow> (- n) mod d = 0"
    by (simp_all add: dvd_eq_mod_eq_0 [symmetric])
  ultimately show ?thesis unfolding mod by (auto simp: sgn_if)
qed

lemma ceiling_div_of_int: "\<lceil>(of_int n :: rat) / of_int d\<rceil> = - ((- n) div d)"
  using floor_divide_of_int_eq [of "- n" d, where ?'a = rat] by (simp add: ceiling_def)

lemma ceiling_div_dvd: "0 < d \<Longrightarrow> - ((- n) div d) = (if d dvd n then n div d else n div d + 1)" for n d :: int
  by (subst zdiv_zminus1_eq_if) (auto simp: dvd_eq_mod_eq_0)

lemma powi_nonneg_nat: "0 \<le> k \<Longrightarrow> 10 powi k = (of_int (10 ^ nat k) :: rat)"
  by (simp add: power_int_def)

lemma quoRem_one:
  assumes "scale_ok (scale x)" and "scale_ok s"
  obtains ix iy where "0 < iy" "dec_value x * 10 powi s = of_int ix / of_int iy"
    "quoRem x (NewDec 1 0) s = Some (NewDec (ix sdiv iy) s, ix smod iy, iy)"
proof -
  note ok = scale_ok_diff [OF assms(2,1)]
  have sc: "go_int32 (scale x - 0) = scale x"
    using assms(1) by (simp add: scale_ok_def go_int32_id)
  have v: "dec_value x * 10 powi s = of_int (unscaled x) * 10 powi (s - scale x)"
    by (simp add: dec_value_def mult.assoc flip: power_int_add)
  show ?thesis
  proof (cases "0 \<le> s - scale x")
    case True
    then have "quoRem x (NewDec 1 0) s =
        Some (NewDec ((unscaled x * 10 ^ nat (s - scale x)) sdiv 1) s, (unscaled x * 10 ^ nat (s - scale x)) smod 1, 1)"
      using ok sc by (auto simp: quoRem_def NewDec_def exp10_def)
    then show ?thesis using True v
      by (intro that [of 1 "unscaled x * 10 ^ nat (s - scale x)"]) (simp_all add: powi_nonneg_nat)
  next
    case False
    have "10 powi (s - scale x) = inverse ((10 :: rat) powi (scale x - s))"
      by (simp flip: power_int_minus)
    then have "dec_value x * 10 powi s = of_int (unscaled x) / of_int (10 ^ nat (scale x - s))"
      using False v by (simp add: powi_nonneg_nat divide_inverse)
    moreover have "quoRem x (NewDec 1 0) s = Some (NewDec (unscaled x sdiv 10 ^ nat (scale x - s)) s,
        unscaled x smod 10 ^ nat (scale x - s), 10 ^ nat (scale x - s))"
      using False ok sc by (simp add: quoRem_def NewDec_def exp10_def)
    ultimately show ?thesis by (intro that [of "10 ^ nat (scale x - s)" "unscaled x"]) simp_all
  qed
qed

definition away_from_zero :: "rat \<Rightarrow> int" where
  "away_from_zero v = (if 0 \<le> v then \<lceil>v\<rceil> else \<lfloor>v\<rfloor>)"

definition towards_zero :: "rat \<Rightarrow> int" where
  "towards_zero v = (if 0 \<le> v then \<lfloor>v\<rfloor> else \<lceil>v\<rceil>)"

lemma Dec_Round_value:
  assumes "scale_ok (scale x)" and "scale_ok s"
  defines "v \<equiv> dec_value x * 10 powi s"
  shows "Dec_Round x s RoundUp = Some (Some (NewDec (away_from_zero v) s))"
    and "Dec_Round x s RoundDown = Some (Some (NewDec (towards_zero v) s))"
    and "Dec_Round x s RoundFloor = Some (Some (NewDec \<lfloor>v\<rfloor> s))"
    and "Dec_Round x s RoundCeil = Some (Some (NewDec \<lceil>v\<rceil> s))"
    and "Dec_Round x s RoundExact = Some (if v \<in> \<int> then Some (NewDec \<lfloor>v\<rfloor> s) else None)"
proof -
  obtain n d where d: "0 < d" and v: "v = of_int n / of_int d"
    and q: "quoRem x (NewDec 1 0) s = Some (NewDec (n sdiv d) s, n smod d, d)"
    using quoRem_one [OF assms(1,2)] unfolding v_def by metis
  have sg: "0 \<le> v \<longleftrightarrow> 0 \<le> n" using d by (simp add: v zero_le_divide_iff)
  have fl: "\<lfloor>v\<rfloor> = n div d" by (simp add: v floor_divide_of_int_eq)
  have ce: "\<lceil>v\<rceil> = (if d dvd n then n div d else n div d + 1)"
    unfolding v ceiling_div_of_int using d by (rule ceiling_div_dvd)
  have tr: "n sdiv d = (if 0 \<le> n \<or> d dvd n then n div d else n div d + 1)"
    using sdiv_pos [OF d, of n] ceiling_div_dvd [OF d, of n] by auto
  have int: "v \<in> \<int> \<longleftrightarrow> d dvd n"
  proof
    assume "v \<in> \<int>"
    then obtain k where "of_int n / of_int d = (of_int k :: rat)" unfolding v by (auto elim: Ints_cases)
    then have "(of_int n :: rat) = of_int (k * d)" using d by (simp add: field_simps)
    then show "d dvd n" by (simp only: of_int_eq_iff dvd_triv_right)
  qed (use d in \<open>auto simp: v elim!: dvdE\<close>)
  have n: "\<not> d dvd n \<Longrightarrow> n \<noteq> 0" by auto
  have sg_n: "n < 0 \<Longrightarrow> sgn n = -1" "0 < n \<Longrightarrow> sgn n = 1" by simp_all
  have round: "Dec_Round x s r = Some (r (NewDec (n sdiv d) s) (n smod d) d)" for r
    by (simp add: Dec_Round_def Dec_QuoRound_def q)
  note simps = round NewDec_def sgn_smod_pos [OF d] fl ce sg tr
  show "Dec_Round x s RoundUp = Some (Some (NewDec (away_from_zero v) s))"
    using n d sg_n by (auto simp: simps RoundUp_def away_from_zero_def)
  show "Dec_Round x s RoundDown = Some (Some (NewDec (towards_zero v) s))"
    by (simp add: simps RoundDown_def towards_zero_def)
  show "Dec_Round x s RoundFloor = Some (Some (NewDec \<lfloor>v\<rfloor> s))"
    using n d sg_n by (auto simp: simps RoundFloor_def)
  show "Dec_Round x s RoundCeil = Some (Some (NewDec \<lceil>v\<rceil> s))"
    using n d sg_n by (auto simp: simps RoundCeil_def)
  show "Dec_Round x s RoundExact = Some (if v \<in> \<int> then Some (NewDec \<lfloor>v\<rfloor> s) else None)"
    using n by (auto simp: simps RoundExact_def int sgn_eq_0_iff)
qed

text \<open>The half-way rounders compare the bit lengths first; what they decide is twice the remainder.\<close>

lemma nat_bits_bounds: "n < 2 ^ nat_bits n \<and> (n \<noteq> 0 \<longrightarrow> 2 ^ (nat_bits n - 1) \<le> n)"
proof (induction n rule: nat_bits.induct)
  case (1 n)
  show ?case
  proof (cases "n = 0")
    case False
    then have IH: "n div 2 < 2 ^ nat_bits (n div 2)" "n div 2 \<noteq> 0 \<longrightarrow> 2 ^ (nat_bits (n div 2) - 1) \<le> n div 2"
      and bits: "nat_bits n = Suc (nat_bits (n div 2))"
      using 1 by (simp_all add: nat_bits.simps [of n])
    have "2 ^ nat_bits (n div 2) \<le> n"
    proof (cases "n div 2 = 0")
      case True
      then show ?thesis using False by (simp add: nat_bits.simps [of 0])
    next
      case d: False
      then have "nat_bits (n div 2) = Suc (nat_bits (n div 2) - 1)" by (simp add: nat_bits.simps [of "n div 2"])
      then have "2 ^ nat_bits (n div 2) = 2 * (2 :: nat) ^ (nat_bits (n div 2) - 1)" by (metis power_Suc)
      then show ?thesis using IH(2) d by linarith
    qed
    then show ?thesis using IH(1) bits by simp
  qed (simp add: nat_bits.simps)
qed

lemma nat_bits_half:
  assumes "a < b"
  shows "nat_bits a < nat_bits b - 1 \<Longrightarrow> 2 * a < b" and "nat_bits b \<le> nat_bits a \<Longrightarrow> b < 2 * a"
proof -
  assume *: "nat_bits a < nat_bits b - 1"
  then have "2 * 2 ^ nat_bits a \<le> (2 :: nat) ^ (nat_bits b - 1)"
    using power_increasing [of "Suc (nat_bits a)" "nat_bits b - 1" "2 :: nat"] by simp
  then show "2 * a < b" using nat_bits_bounds [of a] nat_bits_bounds [of b] assms by simp
next
  assume *: "nat_bits b \<le> nat_bits a"
  have "0 < nat_bits b" using assms by (simp add: nat_bits.simps [of b])
  then obtain k where k: "nat_bits a = Suc k" using * by (cases "nat_bits a") auto
  then have "a \<noteq> 0" using nat_bits.simps [of 0] by (cases "a = 0") simp_all
  then have "2 ^ nat_bits a \<le> 2 * a" using nat_bits_bounds [of a] k by simp
  moreover have "(2 :: nat) ^ nat_bits b \<le> 2 ^ nat_bits a" using * by (intro power_increasing) simp_all
  ultimately show "b < 2 * a" using nat_bits_bounds [of b] by linarith
qed

lemma roundHalf_eq:
  assumes "0 < d" and "\<bar>r\<bar> < d" and "\<And>c i. 0 < c \<Longrightarrow> f c i" and "\<And>c i. c < 0 \<Longrightarrow> \<not> f c i"
  shows "roundHalf f q r d = Some (if 2 * \<bar>r\<bar> > d \<or> 2 * \<bar>r\<bar> = d \<and> f 0 (\<bar>unscaled q\<bar> mod 2)
    then add_unscaled (sgn r) q else q)"
proof -
  have lt: "nat \<bar>r\<bar> < nat d" using assms(1,2) by simp
  have abs_d: "nat \<bar>d\<bar> = nat d" using assms(1) by simp
  have small: "BitLen r < BitLen d - 1 \<Longrightarrow> 2 * \<bar>r\<bar> < d"
    using nat_bits_half(1) [OF lt] assms(1) unfolding BitLen_def abs_d by linarith
  have big: "BitLen d \<le> BitLen r \<Longrightarrow> d < 2 * \<bar>r\<bar>"
    using nat_bits_half(2) [OF lt] assms(1) unfolding BitLen_def abs_d by linarith
  have r2: "(if sgn r * sgn d < 0 then - (r * 2) else r * 2) = 2 * \<bar>r\<bar>" "sgn r * sgn d = sgn r"
    using assms(1) by (auto simp: sgn_if)
  show ?thesis
    using small big assms(1,3,4) unfolding roundHalf_def Let_def r2
    by (auto simp: big_Cmp_def)
qed

lemma Dec_Round_half:
  assumes "scale_ok (scale x)" and "scale_ok s" and "\<And>c i. 0 < c \<Longrightarrow> f c i" and "\<And>c i. c < 0 \<Longrightarrow> \<not> f c i"
  defines "v \<equiv> dec_value x * 10 powi s"
  defines "t \<equiv> towards_zero v"
  shows "Dec_Round x s (roundHalf f) = Some (Some (NewDec
    (if 2 * \<bar>v - of_int t\<bar> > 1 \<or> 2 * \<bar>v - of_int t\<bar> = 1 \<and> f 0 (\<bar>t\<bar> mod 2) then away_from_zero v else t) s))"
proof -
  obtain n d where d: "0 < d" and v: "v = of_int n / of_int d"
    and q: "quoRem x (NewDec 1 0) s = Some (NewDec (n sdiv d) s, n smod d, d)"
    using quoRem_one [OF assms(1,2)] unfolding v_def by metis
  have down: "t = n sdiv d"
    using Dec_Round_value(2) [OF assms(1,2)] q
    by (simp add: Dec_Round_def Dec_QuoRound_def RoundDown_def NewDec_def t_def v_def)
  have up: "away_from_zero v = n sdiv d + sgn (n smod d)"
    using Dec_Round_value(1) [OF assms(1,2)] q d
    by (simp add: Dec_Round_def Dec_QuoRound_def RoundUp_def NewDec_def v_def split: if_splits)
  have rem: "n = n sdiv d * d + n smod d" by (simp add: sdiv_mult_smod_eq)
  then have "(of_int n :: rat) = of_int (n sdiv d) * of_int d + of_int (n smod d)"
    by (metis of_int_add of_int_mult)
  then have diff: "v - of_int t = of_int (n smod d) / of_int d"
    using d by (simp add: v down field_simps)
  have lt: "\<bar>n smod d\<bar> < d"
    using d by (cases n "0 :: int" rule: linorder_cases) (simp_all add: signed_modulo_int_def)
  have "2 * \<bar>v - of_int t\<bar> = of_int (2 * \<bar>n smod d\<bar>) / of_int d" using d by (simp add: diff)
  then have cmp: "2 * \<bar>v - of_int t\<bar> > 1 \<longleftrightarrow> 2 * \<bar>n smod d\<bar> > d" "2 * \<bar>v - of_int t\<bar> = 1 \<longleftrightarrow> 2 * \<bar>n smod d\<bar> = d"
    using d by (simp_all only: less_divide_eq_1_pos of_int_0_less_iff of_int_less_iff divide_eq_1_iff of_int_eq_iff)
      simp
  show ?thesis
    unfolding cmp up
    by (simp add: Dec_Round_def Dec_QuoRound_def q roundHalf_eq [OF d lt assms(3,4)])
      (auto simp: NewDec_def down)
qed

end
