(* ===== verification/Quantity.thy ===== *)
theory Quantity
  imports Inf_Dec Regexp
begin

text \<open>
  \<^verbatim>\<open>pkg/api/resource\<close>: amounts of cpu, memory and other resources, with their suffixes
  (\<^verbatim>\<open>suffix.go\<close>), the parser and the canonical form (\<^verbatim>\<open>quantity.go\<close>) and the conversion to machine
  integers (\<^verbatim>\<open>scale_int.go\<close>).  \<^verbatim>\<open>None\<close> where an error is not meant is a panic of the decimals below.
  The methods of a quantity change it in place; here they return its new value.
\<close>

section \<open>Quantities\<close>

type_synonym Format = string

definition DecimalExponent :: Format where "DecimalExponent = ''DecimalExponent''"
definition BinarySI :: Format where "BinarySI = ''BinarySI''"
definition DecimalSI :: Format where "DecimalSI = ''DecimalSI''"

record Quantity =
  Amount :: "Dec option" \<comment> \<open>a pointer that may be nil\<close>
  Format :: Format

text \<open>\<^verbatim>\<open>Scale.infScale\<close>: negated as an \<^verbatim>\<open>int\<close>, then cut off to 32 bits.\<close>

definition infScale :: "int \<Rightarrow> int" where
  "infScale s = go_int32 (go_int (- s))"

definition Nano :: int where "Nano = -9"
definition Milli :: int where "Milli = -3"

section \<open>Suffixes\<close>

type_synonym suffix = string

record listSuffixer =
  suffixToBE :: "suffix \<rightharpoonup> int \<times> int"
  beToSuffix :: "int \<times> int \<rightharpoonup> suffix"

definition addSuffix :: "suffix \<Rightarrow> int \<times> int \<Rightarrow> listSuffixer \<Rightarrow> listSuffixer" where
  "addSuffix s pair ls = \<lparr>suffixToBE = (suffixToBE ls)(s \<mapsto> pair), beToSuffix = (beToSuffix ls)(pair \<mapsto> s)\<rparr>"

definition listSuffixer_lookup :: "suffix \<Rightarrow> listSuffixer \<Rightarrow> (int \<times> int) option" where
  "listSuffixer_lookup s ls = suffixToBE ls s"

definition listSuffixer_construct :: "int \<Rightarrow> int \<Rightarrow> listSuffixer \<Rightarrow> suffix \<times> bool" where
  "listSuffixer_construct base exponent ls =
     (case beToSuffix ls (base, exponent) of None \<Rightarrow> ('''', False) | Some s \<Rightarrow> (s, True))"

record suffixHandler =
  decSuffixes :: listSuffixer
  binSuffixes :: listSuffixer

definition newSuffixer :: suffixHandler where
  "newSuffixer =
     (let empty = \<lparr>suffixToBE = Map.empty, beToSuffix = Map.empty\<rparr>;
          bin = addSuffix ''Ki'' (2, 10) empty;
          bin = addSuffix ''Mi'' (2, 20) bin;
          bin = addSuffix ''Gi'' (2, 30) bin;
          bin = addSuffix ''Ti'' (2, 40) bin;
          bin = addSuffix ''Pi'' (2, 50) bin;
          bin = addSuffix ''Ei'' (2, 60) bin;
          dec = addSuffix '''' (2, 0) empty;
          dec = addSuffix ''n'' (10, -9) dec;
          dec = addSuffix ''u'' (10, -6) dec;
          dec = addSuffix ''m'' (10, -3) dec;
          dec = addSuffix '''' (10, 0) dec;
          dec = addSuffix ''k'' (10, 3) dec;
          dec = addSuffix ''M'' (10, 6) dec;
          dec = addSuffix ''G'' (10, 9) dec;
          dec = addSuffix ''T'' (10, 12) dec;
          dec = addSuffix ''P'' (10, 15) dec;
          dec = addSuffix ''E'' (10, 18) dec
      in \<lparr>decSuffixes = dec, binSuffixes = bin\<rparr>)"

definition suffix_construct :: "int \<Rightarrow> int \<Rightarrow> Format \<Rightarrow> suffix \<times> bool" where
  "suffix_construct base exponent fmt =
     (if fmt = DecimalSI then listSuffixer_construct base exponent (decSuffixes newSuffixer)
      else if fmt = BinarySI then listSuffixer_construct base exponent (binSuffixes newSuffixer)
      else if fmt = DecimalExponent then
        (if base \<noteq> 10 then ('''', False)
         else if exponent = 0 then ('''', True)
         else (''e'' @ fmt_d exponent, True))
      else ('''', False))"

text \<open>\<^verbatim>\<open>None\<close> is the result that is not \<^verbatim>\<open>ok\<close>.\<close>

definition suffix_interpret :: "suffix \<Rightarrow> (int \<times> int \<times> Format) option" where
  "suffix_interpret s =
     (case listSuffixer_lookup s (decSuffixes newSuffixer) of
        Some (b, e) \<Rightarrow> Some (b, e, DecimalSI)
      | None \<Rightarrow>
          (case listSuffixer_lookup s (binSuffixes newSuffixer) of
             Some (b, e) \<Rightarrow> Some (b, e, BinarySI)
           | None \<Rightarrow>
               (if length s > 1 \<and> (s ! 0 = CHR ''E'' \<or> s ! 0 = CHR ''e'') then
                  (case Atoi (drop 1 s) of
                     Inl err \<Rightarrow> None
                   | Inr parsed \<Rightarrow> Some (10, parsed, DecimalExponent))
                else None)))"

section \<open>Parsing\<close>

datatype quantity_error = ErrFormatWrong | ErrNumeric | ErrSuffix

definition sign_char :: "char \<Rightarrow> bool" where
  "sign_char c \<longleftrightarrow> c = CHR ''+'' \<or> c = CHR ''-''"

definition digit_char :: "char \<Rightarrow> bool" where
  "digit_char c \<longleftrightarrow> CHR ''0'' \<le> c \<and> c \<le> CHR ''9''"

definition suffix_char :: "char \<Rightarrow> bool" where
  "suffix_char c \<longleftrightarrow> c \<in> set ''eEinumkKMGTP''"

text \<open>
  The two groups of the expression that splits a quantity.  Both loops of the first group are
  greedy, so \<^verbatim>\<open>FindStringSubmatch\<close> prefers the longest first group.
\<close>

definition number_re :: regexp where
  "number_re = Cat (Opt (Class sign_char)) (Plus (Class (\<lambda>c. digit_char c \<or> c = CHR ''.'')))"

definition suffix_re :: regexp where
  "suffix_re = Cat (Star (Class suffix_char)) (Cat (Opt (Class sign_char)) (Star (Class digit_char)))"

definition splitRE :: "string \<Rightarrow> string list" where
  "splitRE s =
     (case List.find (\<lambda>i. MatchString number_re (take i s) \<and> MatchString suffix_re (drop i s)) (rev [0..<Suc (length s)]) of
        None \<Rightarrow> []
      | Some i \<Rightarrow> [s, take i s, drop i s])"

definition maxAllowed :: Dec where "maxAllowed = NewDec (2 ^ 63 - 1) 0"
definition decZero :: Dec where "decZero = NewDec 0 0"
definition decOne :: Dec where "decOne = NewDec 1 0"
definition dec1024 :: Dec where "dec1024 = NewDec 1024 0"
definition decMinus1024 :: Dec where "decMinus1024 = NewDec (- 1024) 0"

text \<open>\<^verbatim>\<open>amount.Unscaled()\<close>: the value as an \<^verbatim>\<open>int64\<close> and whether that is exact.\<close>

definition Dec_Unscaled :: "Dec \<Rightarrow> int \<times> bool" where
  "Dec_Unscaled x = (go_int (unscaled x), go_int (unscaled x) = unscaled x)"

definition ParseQuantity :: "string \<Rightarrow> (quantity_error + Quantity) option" where
  "ParseQuantity str =
     (let parts = splitRE (strings_TrimSpace str)
      in if length parts \<noteq> 3 then Some (Inl ErrFormatWrong)
         else case Dec_SetString (parts ! 1) of
           None \<Rightarrow> Some (Inl ErrNumeric)
         | Some amount \<Rightarrow>
             (case suffix_interpret (parts ! 2) of
                None \<Rightarrow> Some (Inl ErrSuffix)
              | Some (base, exponent, format) \<Rightarrow>
                  (let amount = (if base = 10 then amount\<lparr>scale := go_int32 (scale amount + infScale exponent)\<rparr>
                                 else if base = 2 then amount\<lparr>unscaled := unscaled amount * 2 ^ nat exponent\<rparr>
                                 else amount);
                       sign = Dec_Sign amount;
                       amount = (if sign = -1 then Dec_Neg amount else amount)
                   in do {
                     amount \<leftarrow> (case Dec_Unscaled amount of (v, ok) \<Rightarrow>
                         if v \<noteq> 0 \<or> \<not> ok
                         then do { r \<leftarrow> Dec_Round amount (infScale Nano) RoundUp; r }
                         else Some amount);
                     c \<leftarrow> Dec_Cmp amount maxAllowed;
                     let amount = (if c > 0 then maxAllowed else amount);
                     below \<leftarrow> (if format = BinarySI then do { c \<leftarrow> Dec_Cmp amount decOne; Some (c < 0) } else Some False);
                     small \<leftarrow> (if below then do { c \<leftarrow> Dec_Cmp amount decZero; Some (c > 0) } else Some False);
                     let format = (if small then DecimalSI else format);
                     let amount = (if sign = -1 then Dec_Neg amount else amount);
                     Some (Inr \<lparr>Amount = Some amount, Format = format\<rparr>)
                   })))"

text \<open>\<^verbatim>\<open>MustParse\<close>; \<^verbatim>\<open>None\<close> is a panic.\<close>

definition MustParse :: "string \<Rightarrow> Quantity option" where
  "MustParse str = (case ParseQuantity str of Some (Inr q) \<Rightarrow> Some q | _ \<Rightarrow> None)"

section \<open>Canonical form\<close>

text \<open>
  A loop that need not end (with a factor of one) and panics on a factor of zero; \<^verbatim>\<open>None\<close> for both.
\<close>

partial_function (option) removeFactors_loop :: "int \<Rightarrow> int \<Rightarrow> int \<Rightarrow> (int \<times> int) option" where
  "removeFactors_loop d factor n =
     (if d = 0 then Some (d, n)
      else if factor = 0 then None
      else if d mod factor \<noteq> 0 then Some (d, n)
      else removeFactors_loop (d div factor) factor (n + 1))"

declare removeFactors_loop.simps [code]

definition removeFactors :: "int \<Rightarrow> int \<Rightarrow> (int \<times> int) option" where
  "removeFactors d factor = removeFactors_loop d factor 0"

lemma smod_3: "e smod 3 \<noteq> 0 \<longleftrightarrow> e mod 3 \<noteq> 0" for e :: int
  by (cases "0 \<le> e") (auto simp: signed_modulo_int_def sgn_if mod_eq_0_iff_dvd dvd_eq_mod_eq_0 [symmetric] split: if_splits)

text \<open>The loop that makes the exponent a multiple of three; \<^verbatim>\<open>%\<close> truncates towards zero.\<close>

function multiple_of_3 :: "int \<Rightarrow> int \<Rightarrow> int \<times> int" where
  "multiple_of_3 amount exponent =
     (if exponent smod 3 \<noteq> 0 then multiple_of_3 (amount * 10) (exponent - 1) else (amount, exponent))"
  by pat_completeness auto
termination
proof (relation "measure (\<lambda>(amount, exponent). nat (exponent mod 3))")
  fix amount exponent :: int
  assume "exponent smod 3 \<noteq> 0"
  then have "exponent mod 3 \<noteq> 0" by (simp add: smod_3)
  then have "(exponent - 1) mod 3 = exponent mod 3 - 1" by presburger
  then show "((amount * 10, exponent - 1), amount, exponent) \<in> measure (\<lambda>(amount, exponent). nat (exponent mod 3))"
    using \<open>exponent mod 3 \<noteq> 0\<close> by simp
qed simp

declare multiple_of_3.simps [simp del]

definition Canonicalize :: "Quantity \<Rightarrow> (string \<times> suffix) option" where
  "Canonicalize q =
     (case Amount q of
        None \<Rightarrow> Some (''0'', '''')
      | Some a \<Rightarrow> do {
          z \<leftarrow> Dec_Cmp a (NewDec 0 0);
          (if z = 0 then Some (''0'', '''')
           else do {
             format \<leftarrow>
               (if Format q = DecimalExponent \<or> Format q = DecimalSI then Some (Format q)
                else if Format q = BinarySI then do {
                  lo \<leftarrow> Dec_Cmp a decMinus1024;
                  small \<leftarrow> (if lo > 0 then do { hi \<leftarrow> Dec_Cmp a dec1024; Some (hi < 0) } else Some False);
                  (if small then Some DecimalSI
                   else do {
                     r \<leftarrow> Dec_Round a 0 RoundUp;
                     tmp \<leftarrow> r;
                     c \<leftarrow> Dec_Cmp tmp a;
                     Some (if c \<noteq> 0 then DecimalSI else BinarySI)
                   })
                }
                else Some DecimalExponent);
             (if format = DecimalExponent \<or> format = DecimalSI then do {
                (amount, n) \<leftarrow> removeFactors (unscaled a) 10;
                let (amount, exponent) = multiple_of_3 amount (go_int32 (- scale a) + n);
                Some (fmt_d amount, fst (suffix_construct 10 exponent format))
              }
              else do {
                r \<leftarrow> Dec_Round a 0 RoundUp;
                tmp \<leftarrow> r;
                (amount, exponent) \<leftarrow> removeFactors (unscaled tmp) 1024;
                Some (fmt_d amount, fst (suffix_construct 2 (exponent * 10) format))
              })
           })
        })"

definition Quantity_String :: "Quantity \<Rightarrow> string option" where
  "Quantity_String q = map_option (\<lambda>(number, suffix). number @ suffix) (Canonicalize q)"

section \<open>Arithmetic\<close>

definition Quantity_Cmp :: "Quantity \<Rightarrow> Quantity \<Rightarrow> int option" where
  "Quantity_Cmp q y =
     (case (Amount q, Amount y) of
        (None, None) \<Rightarrow> Some 0
      | (None, Some b) \<Rightarrow> Some (- Dec_Sign b)
      | (Some a, None) \<Rightarrow> Some (Dec_Sign a)
      | (Some a, Some b) \<Rightarrow> Dec_Cmp a b)"

text \<open>What \<^verbatim>\<open>Add\<close> and \<^verbatim>\<open>Sub\<close> have in common: \<open>f\<close> is the operation on the amounts.\<close>

definition keep_nonzero_format :: "Dec \<Rightarrow> Dec \<Rightarrow> Quantity \<Rightarrow> Quantity \<Rightarrow> Format option" where
  "keep_nonzero_format a b q y = do {
     za \<leftarrow> Dec_Cmp a (NewDec 0 0);
     (if za = 0 then do { zb \<leftarrow> Dec_Cmp b (NewDec 0 0); Some (if zb \<noteq> 0 then Format y else Format q) }
      else Some (Format q)) }"

definition Quantity_Add :: "Quantity \<Rightarrow> Quantity \<Rightarrow> Quantity option" where
  "Quantity_Add q y =
     (case Amount y of
        None \<Rightarrow> Some q
      | Some b \<Rightarrow>
          (let a = (case Amount q of None \<Rightarrow> NewDec 0 0 | Some a \<Rightarrow> a)
           in do { fmt \<leftarrow> keep_nonzero_format a b q y; z \<leftarrow> Dec_Add a b; Some \<lparr>Amount = Some z, Format = fmt\<rparr> }))"

definition Quantity_Sub :: "Quantity \<Rightarrow> Quantity \<Rightarrow> Quantity option" where
  "Quantity_Sub q y =
     (case Amount y of
        None \<Rightarrow> Some q
      | Some b \<Rightarrow>
          (let a = (case Amount q of None \<Rightarrow> NewDec 0 0 | Some a \<Rightarrow> a)
           in do { fmt \<leftarrow> keep_nonzero_format a b q y; z \<leftarrow> Dec_Sub a b; Some \<lparr>Amount = Some z, Format = fmt\<rparr> }))"

definition Quantity_Neg :: "Quantity \<Rightarrow> Quantity \<Rightarrow> Quantity" where
  "Quantity_Neg q y = (case Amount y of None \<Rightarrow> y | Some b \<Rightarrow> \<lparr>Amount = Some (Dec_Neg b), Format = Format y\<rparr>)"

definition NewQuantity :: "int \<Rightarrow> Format \<Rightarrow> Quantity" where
  "NewQuantity value format = \<lparr>Amount = Some (NewDec value 0), Format = format\<rparr>"

definition NewMilliQuantity :: "int \<Rightarrow> Format \<Rightarrow> Quantity" where
  "NewMilliQuantity value format = \<lparr>Amount = Some (NewDec value 3), Format = format\<rparr>"

definition NewScaledQuantity :: "int \<Rightarrow> int \<Rightarrow> Quantity" where
  "NewScaledQuantity value sc = \<lparr>Amount = Some (NewDec value (infScale sc)), Format = DecimalSI\<rparr>"

definition SetScaled :: "int \<Rightarrow> int \<Rightarrow> Quantity \<Rightarrow> Quantity" where
  "SetScaled value sc q = q\<lparr>Amount := Some (NewDec value (infScale sc))\<rparr>"

definition Quantity_Set :: "int \<Rightarrow> Quantity \<Rightarrow> Quantity" where
  "Quantity_Set value q = SetScaled value 0 q"

definition SetMilli :: "int \<Rightarrow> Quantity \<Rightarrow> Quantity" where
  "SetMilli value q = SetScaled value Milli q"

definition Quantity_Copy :: "Quantity \<Rightarrow> Quantity" where
  "Quantity_Copy q = (case Amount q of None \<Rightarrow> NewQuantity 0 (Format q) | Some a \<Rightarrow> \<lparr>Amount = Some a, Format = Format q\<rparr>)"

section \<open>Machine integers\<close>

text \<open>
  \<^verbatim>\<open>int64(math.Pow10(n))\<close> for a positive \<open>n\<close>: exact as long as it fits, and for larger numbers
  what the amd64 instruction gives, the least \<^verbatim>\<open>int64\<close>.
\<close>

definition int64_Pow10 :: "int \<Rightarrow> int" where
  "int64_Pow10 n = (if n < 19 then 10 ^ nat n else - (2 ^ 63))"

definition scaledValue :: "int \<Rightarrow> int \<Rightarrow> int \<Rightarrow> int" where
  "scaledValue u oldScale newScale =
     (let dif = oldScale - newScale
      in if dif = 0 then go_int u
         else if dif < 0 then go_int (go_int u * int64_Pow10 (- dif))
         else if u < 2 ^ 63 - 1 \<and> dif < 19 then
           (let divide = int64_Pow10 dif;
                result = go_int u sdiv divide;
                modulus = go_int u smod divide
            in if modulus \<noteq> 0 then go_int (result + 1) else result)
         else
           (let divisor = 10 ^ nat dif;
                result = u div divisor
            in if u mod divisor \<noteq> 0 then go_int (go_int result + 1) else go_int result))"

definition ScaledValue :: "int \<Rightarrow> Quantity \<Rightarrow> int" where
  "ScaledValue s q = (case Amount q of None \<Rightarrow> 0 | Some a \<Rightarrow> scaledValue (unscaled a) (scale a) (infScale s))"

definition Quantity_Value :: "Quantity \<Rightarrow> int" where
  "Quantity_Value q = ScaledValue 0 q"

definition MilliValue :: "Quantity \<Rightarrow> int" where
  "MilliValue q = ScaledValue Milli q"

section \<open>Encoding\<close>

definition MarshalJSON :: "Quantity \<Rightarrow> string option" where
  "MarshalJSON q = map_option (\<lambda>s. ''\"'' @ s @ ''\"'') (Quantity_String q)"

text \<open>\<^verbatim>\<open>strings.Trim\<close> with a set of one byte.\<close>

definition strings_Trim :: "char \<Rightarrow> string \<Rightarrow> string" where
  "strings_Trim c s = rev (dropWhile (\<lambda>x. x = c) (rev (dropWhile (\<lambda>x. x = c) s)))"

definition UnmarshalJSON :: "string \<Rightarrow> (quantity_error + Quantity) option" where
  "UnmarshalJSON value = ParseQuantity (strings_Trim (CHR 0x22) value)"

end
