(* ===== verification/Quantity_Props.thy ===== *)
theory Quantity_Props
  imports Quantity
begin

text \<open>
  Parsing, printing and converting quantities, in terms of the rational number a quantity stands
  for.  Errors of the conversions that the comments of the code deny are at the end.
\<close>

section \<open>Rounding up to a nano unit\<close>

definition ceil_nano :: "rat \<Rightarrow> rat" where
  "ceil_nano v = of_int \<lceil>v * 10 ^ 9\<rceil> / 10 ^ 9"

lemma infScale_simps [simp]: "infScale Nano = 9" "infScale Milli = 3" "infScale 0 = 0"
  by (simp_all add: infScale_def Nano_def Milli_def go_int_id go_int32_id)

lemma scale_ok_9 [simp]: "scale_ok 9" by (simp add: scale_ok_def)

lemma dec_value_9: "dec_value (NewDec i 9) = of_int i / 10 ^ 9"
proof -
  have "(10 :: rat) powi (- 9) = inverse (10 ^ 9)" by (simp only: power_int_minus power_int_numeral)
  then show ?thesis by (simp only: dec_value_def NewDec_def Dec.simps divide_inverse)
qed

lemma dec_value_0 [simp]: "dec_value (NewDec i 0) = of_int i"
  by (simp add: dec_value_def NewDec_def)

lemma scale_NewDec [simp]: "scale (NewDec i s) = s" "unscaled (NewDec i s) = i"
  by (simp_all add: NewDec_def)

lemma go_int_zero: "go_int u \<noteq> 0 \<or> go_int u \<noteq> u \<longleftrightarrow> u \<noteq> 0"
  by (auto simp: go_int_def)

lemma dec_value_pos: "0 \<le> dec_value x \<longleftrightarrow> 0 \<le> unscaled x" "dec_value x = 0 \<longleftrightarrow> unscaled x = 0"
proof -
  define e where "e = (10 :: rat) powi (- scale x)"
  have "0 < e" unfolding e_def by (rule zero_less_power_int) simp
  then show "0 \<le> dec_value x \<longleftrightarrow> 0 \<le> unscaled x" "dec_value x = 0 \<longleftrightarrow> unscaled x = 0"
    unfolding dec_value_def e_def [symmetric] by (auto simp: zero_le_mult_iff)
qed

definition round_nano :: "Dec \<Rightarrow> Dec option" where
  "round_nano amount = (case Dec_Unscaled amount of (v, ok) \<Rightarrow>
     if v \<noteq> 0 \<or> \<not> ok then do { r \<leftarrow> Dec_Round amount (infScale Nano) RoundUp; r } else Some amount)"

lemma round_nano:
  assumes "scale_ok (scale a)" and "0 \<le> dec_value a"
  obtains b where "round_nano a = Some b" "scale_ok (scale b)" "dec_value b = ceil_nano (dec_value a)"
proof (cases "unscaled a = 0")
  case True
  moreover have "dec_value a = 0" using True by (simp add: dec_value_pos)
  ultimately show ?thesis using assms
    by (intro that [of a]) (simp_all add: round_nano_def Dec_Unscaled_def ceil_nano_def go_int_id)
next
  case False
  have "Dec_Round a 9 RoundUp = Some (Some (NewDec \<lceil>dec_value a * 10 ^ 9\<rceil> 9))"
    using Dec_Round_value(1) [OF assms(1) scale_ok_9] assms(2)
    by (simp add: away_from_zero_def power_int_def)
  then show ?thesis using False go_int_zero [of "unscaled a"]
    by (intro that [of "NewDec \<lceil>dec_value a * 10 ^ 9\<rceil> 9"])
      (simp_all add: round_nano_def Dec_Unscaled_def dec_value_9 ceil_nano_def)
qed

section \<open>The value of a parsed quantity\<close>

definition quantity_value :: "Quantity \<Rightarrow> rat" where
  "quantity_value q = (case Amount q of None \<Rightarrow> 0 | Some a \<Rightarrow> dec_value a)"

definition quantity_ok :: "Quantity \<Rightarrow> bool" where
  "quantity_ok q \<longleftrightarrow> (case Amount q of None \<Rightarrow> True | Some a \<Rightarrow> scale_ok (scale a))"

text \<open>What a literal is worth: rounded away from zero to a nano unit and capped.\<close>

definition parsed_value :: "rat \<Rightarrow> rat" where
  "parsed_value v = sgn v * min (ceil_nano \<bar>v\<bar>) (2 ^ 63 - 1)"

definition scale_suffix :: "int \<times> int \<times> Format \<Rightarrow> Dec \<Rightarrow> Dec" where
  "scale_suffix s amount = (case s of (base, exponent, format) \<Rightarrow>
     if base = 10 then amount\<lparr>scale := go_int32 (scale amount + infScale exponent)\<rparr>
     else if base = 2 then amount\<lparr>unscaled := unscaled amount * 2 ^ nat exponent\<rparr>
     else amount)"

definition cap_finish :: "Format \<Rightarrow> int \<Rightarrow> Dec \<Rightarrow> (quantity_error + Quantity) option" where
  "cap_finish format sign amount = do {
     below \<leftarrow> (if format = BinarySI then do { c \<leftarrow> Dec_Cmp amount decOne; Some (c < 0) } else Some False);
     small \<leftarrow> (if below then do { c \<leftarrow> Dec_Cmp amount decZero; Some (c > 0) } else Some False);
     let format = (if small then DecimalSI else format);
     let amount = (if sign = -1 then Dec_Neg amount else amount);
     Some (Inr \<lparr>Amount = Some amount, Format = format\<rparr>)
   }"

definition cap_abs :: "Format \<Rightarrow> int \<Rightarrow> Dec \<Rightarrow> (quantity_error + Quantity) option" where
  "cap_abs format sign amount = do {
     amount \<leftarrow> round_nano amount;
     c \<leftarrow> Dec_Cmp amount maxAllowed;
     cap_finish format sign (if c > 0 then maxAllowed else amount)
   }"

definition cap_amount :: "Format \<Rightarrow> Dec \<Rightarrow> (quantity_error + Quantity) option" where
  "cap_amount format amount =
     cap_abs format (Dec_Sign amount) (if Dec_Sign amount = -1 then Dec_Neg amount else amount)"

lemma ParseQuantity_parts:
  assumes "splitRE (strings_TrimSpace str) = [s, num, suf]"
  shows "ParseQuantity str =
    (case Dec_SetString num of
       None \<Rightarrow> Some (Inl ErrNumeric)
     | Some d \<Rightarrow> (case suffix_interpret suf of
         None \<Rightarrow> Some (Inl ErrSuffix)
       | Some (b, e, f) \<Rightarrow> cap_amount f (scale_suffix (b, e, f) d)))"
  by (simp add: ParseQuantity_def assms cap_amount_def cap_abs_def cap_finish_def scale_suffix_def round_nano_def
      cong: option.case_cong split: option.split prod.split)

lemma rat_cmp_simps:
  "rat_cmp x y > 0 \<longleftrightarrow> y < x" "rat_cmp x y < 0 \<longleftrightarrow> x < y" "rat_cmp x y = 0 \<longleftrightarrow> x = y" "rat_cmp x y = -1 \<longleftrightarrow> x < y"
  by (auto simp: rat_cmp_def)

lemma ceil_nano_nonneg: "0 \<le> v \<Longrightarrow> 0 \<le> ceil_nano v"
  by (simp add: ceil_nano_def)

lemma ceil_nano_pos: "0 < v \<Longrightarrow> 0 < ceil_nano v"
  by (simp add: ceil_nano_def)

lemma cap_amount_value:
  assumes "scale_ok (scale d)"
  obtains a where "cap_amount f d = Some (Inr \<lparr>Amount = Some a, Format =
      (if f = BinarySI \<and> dec_value d \<noteq> 0 \<and> ceil_nano \<bar>dec_value d\<bar> < 1 then DecimalSI else f)\<rparr>)"
    "scale_ok (scale a)" "dec_value a = parsed_value (dec_value d)"
proof -
  let ?v = "dec_value d"
  define d1 where "d1 = (if Dec_Sign d = -1 then Dec_Neg d else d)"
  have d1: "scale_ok (scale d1)" "dec_value d1 = \<bar>?v\<bar>"
    using assms by (auto simp: d1_def Dec_Sign_value rat_cmp_simps Dec_Neg_value) (simp add: Dec_Neg_def)
  then obtain b where b: "round_nano d1 = Some b" "scale_ok (scale b)" "dec_value b = ceil_nano \<bar>?v\<bar>"
    using round_nano [of d1] by (metis abs_ge_zero)
  define b1 where "b1 = (if ceil_nano \<bar>?v\<bar> > 2 ^ 63 - 1 then maxAllowed else b)"
  have max: "dec_value maxAllowed = 2 ^ 63 - 1" "scale_ok (scale maxAllowed)" "dec_value decOne = 1"
    "scale_ok (scale decOne)" "dec_value decZero = 0" "scale_ok (scale decZero)"
    by (simp_all add: maxAllowed_def decOne_def decZero_def)
  have b1: "scale_ok (scale b1)" "dec_value b1 = min (ceil_nano \<bar>?v\<bar>) (2 ^ 63 - 1)"
    using b max by (auto simp: b1_def min_def)
  define a where "a = (if ?v < 0 then Dec_Neg b1 else b1)"
  have pos: "0 < dec_value b1 \<longleftrightarrow> ?v \<noteq> 0"
    using b1(2) ceil_nano_pos [of "\<bar>?v\<bar>"] by (auto simp: min_def ceil_nano_def)
  have lt1: "dec_value b1 < 1 \<longleftrightarrow> ceil_nano \<bar>?v\<bar> < 1" using b1(2) by (simp add: min_def)
  have "cap_amount f d = cap_finish f (Dec_Sign d) b1"
    unfolding cap_amount_def d1_def [symmetric] cap_abs_def b(1)
    by (simp add: Dec_Cmp_value [OF b(2) max(2)] rat_cmp_simps b(3) max(1) b1_def)
  also have "\<dots> = Some (Inr \<lparr>Amount = Some a, Format =
      (if f = BinarySI \<and> ?v \<noteq> 0 \<and> ceil_nano \<bar>?v\<bar> < 1 then DecimalSI else f)\<rparr>)"
    using pos lt1 max
    by (simp add: cap_finish_def Dec_Cmp_value [OF b1(1)] rat_cmp_simps Dec_Sign_value a_def)
  finally have "cap_amount f d = Some (Inr \<lparr>Amount = Some a, Format =
      (if f = BinarySI \<and> ?v \<noteq> 0 \<and> ceil_nano \<bar>?v\<bar> < 1 then DecimalSI else f)\<rparr>)" .
  moreover have "scale_ok (scale a)" using b1(1) by (simp add: a_def Dec_Neg_def)
  moreover have "dec_value a = parsed_value ?v"
    using b1(2) by (auto simp: a_def Dec_Neg_value parsed_value_def sgn_if min_def ceil_nano_def)
  ultimately show ?thesis using that by blast
qed

section \<open>Splitting and reading numbers\<close>

lemma find_rev_upt:
  "P i \<Longrightarrow> i \<le> n \<Longrightarrow> (\<And>j. i < j \<Longrightarrow> j \<le> n \<Longrightarrow> \<not> P j) \<Longrightarrow> List.find P (rev [0..<Suc n]) = Some i"
proof (induction n)
  case (Suc n)
  then show ?case by (cases "i = Suc n") auto
qed simp

lemma splitRE_D:
  assumes "splitRE s = parts" and "length parts = 3"
  shows "parts = [s, parts ! 1, parts ! 2]" "s = parts ! 1 @ parts ! 2"
    "parts ! 1 \<in> lang number_re" "parts ! 2 \<in> lang suffix_re"
proof -
  obtain i where i: "List.find (\<lambda>i. MatchString number_re (take i s) \<and> MatchString suffix_re (drop i s))
      (rev [0..<Suc (length s)]) = Some i" "parts = [s, take i s, drop i s]"
    using assms unfolding splitRE_def by (auto split: option.splits)
  have "MatchString number_re (take i s) \<and> MatchString suffix_re (drop i s)"
    using i(1) unfolding find_Some_iff by auto
  then show "parts = [s, parts ! 1, parts ! 2]" "s = parts ! 1 @ parts ! 2"
    "parts ! 1 \<in> lang number_re" "parts ! 2 \<in> lang suffix_re"
    using i(2) by (auto simp: MatchString_lang numeral_2_eq_2)
qed

lemma number_re_lang: "s \<in> lang number_re \<longleftrightarrow>
  (\<exists>sg ds. s = sg @ ds \<and> (sg = [] \<or> (\<exists>c. sg = [c] \<and> sign_char c)) \<and> ds \<noteq> []
     \<and> (\<forall>c \<in> set ds. digit_char c \<or> c = CHR ''.''))"
  by (auto simp: number_re_def lang.simps(4) [of "Opt _"] lang_plus_class)

lemma splitRE_append:
  assumes "n \<in> lang number_re" and "t \<in> lang suffix_re" and "t = [] \<or> \<not> (digit_char (hd t) \<or> hd t = CHR ''.'')"
  shows "splitRE (n @ t) = [n @ t, n, t]"
proof -
  have "List.find (\<lambda>i. MatchString number_re (take i (n @ t)) \<and> MatchString suffix_re (drop i (n @ t)))
      (rev [0..<Suc (length (n @ t))]) = Some (length n)"
  proof (rule find_rev_upt)
    fix j assume j: "length n < j" "j \<le> length (n @ t)"
    then have t: "t \<noteq> []" by auto
    have "take j (n @ t) = n @ hd t # take (j - length n - 1) (tl t)"
      using j t by (cases t) (auto simp: take_Cons')
    moreover have "n \<noteq> []" using assms(1) by (auto simp: number_re_lang)
    ultimately have "take j (n @ t) \<notin> lang number_re"
      using assms(3) t unfolding number_re_lang by (auto simp: append_eq_append_conv2 Cons_eq_append_conv append_eq_Cons_conv)
    then show "\<not> (MatchString number_re (take j (n @ t)) \<and> MatchString suffix_re (drop j (n @ t)))"
      by (simp add: MatchString_lang)
  qed (use assms in \<open>simp_all add: MatchString_lang\<close>)
  then show ?thesis by (simp add: splitRE_def)
qed

lemma scan_loop_digits:
  "(\<forall>c \<in> set r. digit_char c) \<Longrightarrow> scan_loop (r @ t) u dp dg
     = scan_loop t (u @ r) dp (if dg = -1 \<and> r \<noteq> [] then int (length u) else dg)"
proof (induction r arbitrary: u dg)
  case (Cons c r)
  then have "c \<noteq> CHR ''+''" "c \<noteq> CHR ''-''" "c \<noteq> CHR ''.''" "CHR ''0'' \<le> c" "c \<le> CHR ''9''"
    by (auto simp: digit_char_def less_eq_char_def)
  then show ?case using Cons by simp
qed simp

lemma scan_loop_length:
  "scan_loop r u dp dg = (u', dp', dg', rest) \<Longrightarrow> -1 \<le> dp \<Longrightarrow> dp \<le> int (length u) \<Longrightarrow>
     length u' \<le> length u + length r \<and> -1 \<le> dp' \<and> dp' \<le> int (length u')"
proof (induction r arbitrary: u dp dg)
  case (Cons c r)
  show ?case
    using Cons.prems Cons.IH [of "u @ [c]" dp dg] Cons.IH [of "u @ [c]" dp "int (length u)"]
      Cons.IH [of u "int (length u)" dg]
    by (simp split: if_splits)
qed simp

lemma Dec_SetString_scale:
  assumes "Dec_SetString s = Some d" and "length s < 2 ^ 31"
  shows "0 \<le> scale d" "scale d \<le> int (length s)"
proof -
  obtain u dp dg where l: "scan_loop s [] (-1) (-1) = (u, dp, dg, [])"
    and d: "scale d = (if dp \<ge> 0 then go_int32 (int (length u) - dp) else 0)"
    using assms(1) by (auto simp: Dec_SetString_def Dec_scan_def bind_eq_Some_conv split: option.splits prod.splits if_splits)
  have b: "length u \<le> length s" "-1 \<le> dp" "dp \<le> int (length u)"
    using scan_loop_length [OF l] by auto
  then have "go_int32 (int (length u) - dp) = int (length u) - dp" if "dp \<ge> 0"
    using that assms(2) by (intro go_int32_id) simp_all
  then show "0 \<le> scale d" "scale d \<le> int (length s)" using b by (simp_all add: d)
qed

lemma trim_prefixes_length: "length (trim_prefixes ws s) \<le> length s"
proof (induction ws s rule: trim_prefixes.induct)
  case (1 ws s)
  show ?case
  proof (cases "List.find (\<lambda>w. w \<noteq> [] \<and> prefix w s) ws")
    case None
    then show ?thesis by (simp add: trim_prefixes.simps [of ws s])
  next
    case (Some w)
    then show ?thesis using 1 [OF Some] by (simp add: trim_prefixes.simps [of ws s])
  qed
qed

lemma TrimSpace_length: "length (strings_TrimSpace s) \<le> length s"
  using trim_prefixes_length [of "map rev white_space" "rev (trim_prefixes white_space s)"]
    trim_prefixes_length [of white_space s] by (simp add: strings_TrimSpace_def)

section \<open>What a suffix stands for\<close>

lemma dec_suffixes: "listSuffixer_lookup s (decSuffixes newSuffixer) = map_of
    [(''n'', 10, -9), (''u'', 10, -6), (''m'', 10, -3), ('''', 10, 0), (''k'', 10, 3), (''M'', 10, 6),
     (''G'', 10, 9), (''T'', 10, 12), (''P'', 10, 15), (''E'', 10, 18)] s"
  by (simp add: listSuffixer_lookup_def newSuffixer_def addSuffix_def)

lemma bin_suffixes: "listSuffixer_lookup s (binSuffixes newSuffixer) = map_of
    [(''Ki'', 2, 10), (''Mi'', 2, 20), (''Gi'', 2, 30), (''Ti'', 2, 40), (''Pi'', 2, 50), (''Ei'', 2, 60)] s"
  by (simp add: listSuffixer_lookup_def newSuffixer_def addSuffix_def)

lemma suffix_interpret_base:
  assumes "suffix_interpret s = Some (b, e, f)"
  shows "b = 10 \<and> f \<noteq> BinarySI \<or> b = 2 \<and> f = BinarySI \<and> 0 \<le> e"
proof -
  have "DecimalSI \<noteq> BinarySI" "DecimalExponent \<noteq> BinarySI"
    by (simp_all add: DecimalSI_def BinarySI_def DecimalExponent_def)
  then show ?thesis using assms
    unfolding suffix_interpret_def dec_suffixes bin_suffixes
    by (auto split: option.splits sum.splits if_splits)
qed

lemma scale_suffix_value:
  assumes "suffix_interpret suf = Some (b, e, f)" and "\<bar>e\<bar> < 2 ^ 29" and "0 \<le> scale d" and "scale d < 2 ^ 29"
  shows "scale_ok (scale (scale_suffix (b, e, f) d))"
    and "dec_value (scale_suffix (b, e, f) d) = dec_value d * of_int b powi e"
proof -
  have inf: "infScale e = - e" "go_int32 (scale d - e) = scale d - e"
    using assms(2-4) by (simp_all add: infScale_def go_int_id go_int32_id)
  have p: "10 powi (- scale d + e) = (10 :: rat) powi (- scale d) * 10 powi e"
    by (rule power_int_add) simp
  consider "b = 10" | "b = 2" "0 \<le> e" using suffix_interpret_base [OF assms(1)] by blast
  then show "dec_value (scale_suffix (b, e, f) d) = dec_value d * of_int b powi e"
  proof cases
    case 1
    then show ?thesis using p by (simp add: scale_suffix_def dec_value_def inf mult.assoc)
  next
    case 2
    then show ?thesis by (simp add: scale_suffix_def dec_value_def power_int_def)
  qed
  show "scale_ok (scale (scale_suffix (b, e, f) d))"
    using assms(2-4) by (auto simp: scale_suffix_def scale_ok_def inf)
qed

text \<open>
  C18: Parsing splits the text into a number and a suffix; a quantity it accepts is worth the number
  times the power its suffix stands for, rounded away from zero to a nano unit, and capped at
  the largest \<^verbatim>\<open>int64\<close>.  It keeps the kind of the suffix, except that a binary quantity below one
  becomes a decimal one.
\<close>

theorem parse_quantity_value:
  assumes "splitRE (strings_TrimSpace str) = [s, num, suf]" and "Dec_SetString num = Some d"
    and "suffix_interpret suf = Some (b, e, f)" and "\<bar>e\<bar> < 2 ^ 29" and "length str < 2 ^ 29"
  defines "v \<equiv> dec_value d * rat_of_int b powi e"
  shows "\<exists>q. ParseQuantity str = Some (Inr q) \<and> quantity_ok q \<and> quantity_value q = parsed_value v
    \<and> Format q = (if f = BinarySI \<and> v \<noteq> 0 \<and> ceil_nano \<bar>v\<bar> < 1 then DecimalSI else f)"
proof -
  have "strings_TrimSpace str = num @ suf" using splitRE_D [OF assms(1)] by simp
  then have "length num < 2 ^ 29" using TrimSpace_length [of str] assms(5) by simp
  then have "0 \<le> scale d" "scale d < 2 ^ 29" using Dec_SetString_scale [OF assms(2)] by simp_all
  note val = scale_suffix_value [OF assms(3,4) this]
  obtain a where "cap_amount f (scale_suffix (b, e, f) d) = Some (Inr \<lparr>Amount = Some a, Format =
      (if f = BinarySI \<and> v \<noteq> 0 \<and> ceil_nano \<bar>v\<bar> < 1 then DecimalSI else f)\<rparr>)"
    "scale_ok (scale a)" "dec_value a = parsed_value v"
    using cap_amount_value [OF val(1), of f] unfolding val(2) v_def by metis
  then show ?thesis
    by (simp add: ParseQuantity_parts [OF assms(1)] assms(2,3) quantity_ok_def quantity_value_def)
qed

section \<open>Printing and parsing back\<close>

lemma removeFactors_loop:
  assumes "1 < factor"
  obtains r k where "removeFactors_loop d factor n = Some (r, n + int k)" "d = r * factor ^ k"
    "d \<noteq> 0 \<Longrightarrow> \<not> factor dvd r"
proof (induction "nat \<bar>d\<bar>" arbitrary: d n thesis rule: less_induct)
  case less
  show ?case
  proof (cases "d = 0 \<or> d mod factor \<noteq> 0")
    case True
    then have "removeFactors_loop d factor n = Some (d, n)"
      using assms by (subst removeFactors_loop.simps) auto
    then show ?thesis using True less.prems [of d 0] by (auto simp: dvd_eq_mod_eq_0)
  next
    case False
    then obtain q where q: "d = q * factor" "q \<noteq> 0" by (auto simp: dvd_eq_mod_eq_0 [symmetric] elim!: dvdE)
    have "nat \<bar>q\<bar> < nat \<bar>d\<bar>"
      using q assms mult_strict_left_mono [of 1 factor "\<bar>q\<bar>"] by (simp add: abs_mult)
    from less.hyps [OF this, of "n + 1"] obtain r k where
      "removeFactors_loop q factor (n + 1) = Some (r, n + 1 + int k)" "q = r * factor ^ k" "\<not> factor dvd r"
      using q(2) by metis
    moreover have "removeFactors_loop d factor n = removeFactors_loop q factor (n + 1)"
      using False q(1) assms by (subst removeFactors_loop.simps) simp
    ultimately show ?thesis using less.prems [of r "Suc k"] q(1) by (simp add: algebra_simps)
  qed
qed

lemma multiple_of_3:
  obtains k where "multiple_of_3 a e = (a * 10 ^ k, e - int k)" "(e - int k) mod 3 = 0" "k < 3"
proof (induction a e arbitrary: thesis rule: multiple_of_3.induct)
  case (1 a e)
  show ?case
  proof (cases "e mod 3 = 0")
    case True
    then show ?thesis using 1(2) [of 0] by (simp add: multiple_of_3.simps [of a] smod_3)
  next
    case False
    obtain k where k: "multiple_of_3 (a * 10) (e - 1) = (a * 10 * 10 ^ k, e - 1 - int k)"
      "(e - 1 - int k) mod 3 = 0" "k < 3" using 1(1) smod_3 False by metis
    have "k \<noteq> 2"
    proof
      assume "k = 2"
      then have "(e - 3) mod 3 = 0" using k(2) by simp
      then show False using False by presburger
    qed
    then show ?thesis using k False 1(2) [of "Suc k"]
      by (simp add: multiple_of_3.simps [of a] smod_3 algebra_simps)
  qed
qed

text \<open>The suffixes that \<^verbatim>\<open>construct\<close> makes are read back.\<close>

lemma digits_are_digits: "c \<in> set (fmt_digits n) \<Longrightarrow> digit_char c"
  using digit_byte [of c n] by (simp add: digit_char_def less_eq_char_def)

lemma Atoi_fmt_d:
  assumes "- (2 ^ 63) < i" and "i < 2 ^ 63"
  shows "Atoi (fmt_d i) = Inr i"
proof (cases "i < 0")
  case True
  then have "ParseUint (fmt_digits (nat (- i))) = Inr (nat (- i))" using assms by (simp add: ParseUint_digits)
  then show ?thesis using True assms by (simp add: fmt_d_def Atoi_def)
next
  case False
  then show ?thesis using Atoi_digits [of "nat i"] assms by (simp add: fmt_d_def)
qed

definition suffix_ok :: "suffix \<Rightarrow> bool" where
  "suffix_ok t \<longleftrightarrow> MatchString suffix_re t \<and> (t = [] \<or> \<not> (digit_char (hd t) \<or> hd t = CHR ''.''))"

lemma suffix_re_I:
  assumes "\<forall>c \<in> set a. suffix_char c" and "b = [] \<or> (\<exists>c. b = [c] \<and> sign_char c)" and "\<forall>c \<in> set ds. digit_char c"
  shows "a @ b @ ds \<in> lang suffix_re"
proof -
  have "b @ ds \<in> lang (Cat (Opt (Class sign_char)) (Star (Class digit_char)))"
    using assms(2,3) unfolding lang.simps(4) by (auto simp: star_lang_class)
  then show ?thesis using assms(1) unfolding suffix_re_def lang_Cat_star by blast
qed

lemma decimal_suffix:
  assumes "e \<in> {-9, -6, -3, 0, 3, 6, 9, 12, 15, 18}" and "f = DecimalSI \<or> f = DecimalExponent"
  shows "suffix_ok (fst (suffix_construct 10 e f))"
    and "suffix_interpret (fst (suffix_construct 10 e f)) = Some (10, e, if e = 0 then DecimalSI else f)"
proof -
  have si: "\<forall>e \<in> {-9, -6, -3, 0, 3, 6, 9, 12, 15, 18}. suffix_ok (fst (suffix_construct 10 e DecimalSI))
      \<and> suffix_interpret (fst (suffix_construct 10 e DecimalSI)) = Some (10, e, DecimalSI)"
    by code_simp
  have exp: "suffix_construct 10 e DecimalExponent = (if e = 0 then '''' else ''e'' @ fmt_d e, True)"
    by (simp add: suffix_construct_def DecimalExponent_def DecimalSI_def BinarySI_def)
  have "suffix_ok '''' \<and> suffix_interpret '''' = Some (10, 0, DecimalSI)" by code_simp
  moreover have "suffix_ok (''e'' @ fmt_d e)"
  proof -
    have "''e'' @ (if e < 0 then ''-'' else '''') @ fmt_digits (nat \<bar>e\<bar>) \<in> lang suffix_re"
      using digits_are_digits by (intro suffix_re_I) (auto simp: suffix_char_def sign_char_def)
    then show ?thesis
      by (simp add: suffix_ok_def MatchString_lang fmt_d_def digit_char_def less_eq_char_def split: if_splits)
  qed
  moreover have "suffix_interpret (''e'' @ fmt_d e) = Some (10, e, DecimalExponent)"
  proof -
    have "fmt_d e \<noteq> []" by (simp add: fmt_d_def)
    moreover have "Atoi (fmt_d e) = Inr e" using assms(1) by (intro Atoi_fmt_d) auto
    ultimately show ?thesis by (simp add: suffix_interpret_def dec_suffixes bin_suffixes)
  qed
  ultimately show "suffix_ok (fst (suffix_construct 10 e f))"
    "suffix_interpret (fst (suffix_construct 10 e f)) = Some (10, e, if e = 0 then DecimalSI else f)"
    using assms si exp by auto
qed

lemma binary_suffix:
  assumes "e \<in> {0, 10, 20, 30, 40, 50, 60}"
  shows "suffix_ok (fst (suffix_construct 2 e BinarySI))"
    and "suffix_interpret (fst (suffix_construct 2 e BinarySI))
      = Some (if e = 0 then (10, 0, DecimalSI) else (2, e, BinarySI))"
proof -
  have "\<forall>e \<in> {0, 10, 20, 30, 40, 50, 60}. suffix_ok (fst (suffix_construct 2 e BinarySI))
      \<and> suffix_interpret (fst (suffix_construct 2 e BinarySI))
        = Some (if e = 0 then (10, 0, DecimalSI) else (2, e, BinarySI))"
    by code_simp
  then show "suffix_ok (fst (suffix_construct 2 e BinarySI))"
    "suffix_interpret (fst (suffix_construct 2 e BinarySI))
      = Some (if e = 0 then (10, 0, DecimalSI) else (2, e, BinarySI))" using assms by blast+
qed

text \<open>A printed number is read back.\<close>

lemma fmt_d_number: "fmt_d m \<in> lang number_re"
  unfolding number_re_lang
  by (intro exI [of _ "if m < 0 then ''-'' else ''''"] exI [of _ "fmt_digits (nat \<bar>m\<bar>)"])
    (auto simp: fmt_d_def sign_char_def digits_are_digits)

lemma big_digits_digits: "big_digits (s @ t) n = (case big_digits s n of None \<Rightarrow> None | Some m \<Rightarrow> big_digits t m)"
  by (induction s arbitrary: n) (auto split: option.split)

lemma big_digits_fmt: "big_digits (fmt_digits m) 0 = Some m"
proof (induction m rule: fmt_digits.induct)
  case (1 m)
  then show ?case by (subst fmt_digits.simps) (simp add: big_digits_digits)
qed

lemma big_SetString_fmt_d: "big_SetString (fmt_d m) = Some m"
proof -
  have "hd (fmt_digits n) \<noteq> CHR ''-''" "hd (fmt_digits n) \<noteq> CHR ''+''" for n
    using digits_no_sign [of n] by (metis fmt_digits_nonempty list.set_sel(1))+
  then show ?thesis by (simp add: big_SetString_def fmt_d_def big_digits_fmt)
qed

lemma Dec_SetString_fmt_d: "Dec_SetString (fmt_d m) = Some (NewDec m 0)"
proof -
  define sg where "sg = (if m < 0 then ''-'' else '''')"
  define ds where "ds = fmt_digits (nat \<bar>m\<bar>)"
  have "\<forall>c \<in> set ds. digit_char c" using digits_are_digits by (simp add: ds_def)
  note loop = scan_loop_digits [OF this, of "[]", simplified]
  have "scan_loop (sg @ ds) [] (-1) (-1) = (sg @ ds, -1, int (length sg), [])"
    using loop fmt_digits_nonempty by (auto simp: sg_def ds_def)
  moreover have "sg @ ds = fmt_d m" by (simp add: sg_def ds_def fmt_d_def)
  ultimately show ?thesis
    by (simp add: Dec_SetString_def Dec_scan_def big_SetString_fmt_d NewDec_def)
qed

text \<open>No character of a printed quantity is part of white space.\<close>

lemma TrimSpace_id:
  assumes "\<And>c. c \<in> set s \<Longrightarrow> sign_char c \<or> digit_char c \<or> suffix_char c"
  shows "strings_TrimSpace s = s"
proof -
  have "\<forall>w \<in> set (white_space @ map rev white_space). w \<noteq> []
      \<longrightarrow> \<not> (sign_char (hd w) \<or> digit_char (hd w) \<or> suffix_char (hd w))"
    by code_simp
  then have hd: "\<not> (sign_char (hd w) \<or> digit_char (hd w) \<or> suffix_char (hd w))"
    if "w \<in> set white_space \<union> rev ` set white_space" "w \<noteq> []" for w using that by auto
  have ws: "\<not> prefix w t" if "w \<in> set white_space \<union> rev ` set white_space" "w \<noteq> []" "set t = set s" for w t
  proof
    assume "prefix w t"
    then have "hd w \<in> set s" using set_mono_prefix that(2,3) by (metis hd_in_set subsetD)
    then show False using assms hd [OF that(1,2)] by blast
  qed
  have "trim_prefixes white_space s = s" by (rule trim_prefixes_id, rule ws) simp_all
  moreover have "trim_prefixes (map rev white_space) (rev s) = rev s"
    by (rule trim_prefixes_id, rule ws) simp_all
  ultimately show ?thesis by (simp add: strings_TrimSpace_def)
qed

lemma suffix_re_chars:
  assumes "t \<in> lang suffix_re" and "c \<in> set t"
  shows "sign_char c \<or> digit_char c \<or> suffix_char c"
  using assms unfolding suffix_re_def lang_Cat_star lang.simps(4) by (auto simp: star_lang_class)

lemma printed_splits:
  assumes "suffix_ok t"
  shows "splitRE (strings_TrimSpace (fmt_d m @ t)) = [fmt_d m @ t, fmt_d m, t]"
proof -
  have t: "t \<in> lang suffix_re" "t = [] \<or> \<not> (digit_char (hd t) \<or> hd t = CHR ''.'')"
    using assms by (auto simp: suffix_ok_def MatchString_lang)
  have "sign_char c \<or> digit_char c" if "c \<in> set (fmt_d m)" for c
    using that digits_are_digits by (auto simp: fmt_d_def sign_char_def split: if_splits)
  then have "strings_TrimSpace (fmt_d m @ t) = fmt_d m @ t"
    using suffix_re_chars [OF t(1)] by (intro TrimSpace_id) auto
  then show ?thesis using splitRE_append [OF fmt_d_number t] by simp
qed

text \<open>Quantities that can be written: nano units, below the cap.\<close>

definition representable :: "rat \<Rightarrow> bool" where
  "representable v \<longleftrightarrow> v * 10 ^ 9 \<in> \<int> \<and> \<bar>v\<bar> \<le> 2 ^ 63 - 1"

lemma parsed_value_representable: "representable v \<Longrightarrow> parsed_value v = v"
proof -
  assume v: "representable v"
  then obtain i where i: "v * 10 ^ 9 = of_int i" by (auto simp: representable_def elim: Ints_cases)
  then have "\<bar>v\<bar> * 10 ^ 9 = of_int \<bar>i\<bar>" by (metis abs_mult abs_numeral of_int_abs power_abs)
  then have "ceil_nano \<bar>v\<bar> = \<bar>v\<bar>" by (simp add: ceil_nano_def)
  then show ?thesis using v by (simp add: parsed_value_def representable_def mult_sgn_abs)
qed

lemma decimal_exponent_range:
  assumes "v = of_int r * 10 powi e" and "\<not> 10 dvd r" and "representable v"
  shows "-9 \<le> e" and "e \<le> 18"
proof -
  have r: "r \<noteq> 0" using assms(2) by auto
  show "-9 \<le> e"
  proof (rule ccontr)
    assume e: "\<not> -9 \<le> e"
    obtain i where "v * 10 ^ 9 = of_int i" using assms(3) by (auto simp: representable_def elim: Ints_cases)
    moreover have "(10 :: rat) powi e * 10 ^ 9 = 10 powi (e + 9)"
      by (simp add: power_int_add)
    moreover have "(10 :: rat) powi (e + 9) * 10 ^ nat (- e - 9) = 1"
    proof -
      have "(10 :: rat) powi (e + 9) * 10 powi (- e - 9) = 10 powi ((e + 9) + (- e - 9))"
        by (rule power_int_add [symmetric]) simp
      then show ?thesis using e by (simp add: power_int_def split: if_splits)
    qed
    ultimately have "of_int r = (of_int i * 10 ^ nat (- e - 9) :: rat)"
      using assms(1) by (metis mult.assoc mult.right_neutral)
    then have "(of_int r :: rat) = of_int (i * 10 ^ nat (- e - 9))" by simp
    then have "r = i * 10 ^ nat (- e - 9)" by (simp only: of_int_eq_iff)
    moreover have "10 dvd (10 :: int) ^ nat (- e - 9)" using e by (intro dvd_power) simp
    ultimately show False using assms(2) by simp
  qed
  show "e \<le> 18"
  proof (rule ccontr)
    assume e: "\<not> e \<le> 18"
    have "(10 :: rat) ^ 19 \<le> 10 ^ nat e" using e by (intro power_increasing) simp_all
    moreover have "\<bar>v\<bar> = of_int \<bar>r\<bar> * 10 ^ nat e" using assms(1) e by (simp add: abs_mult power_int_def)
    moreover have "1 \<le> \<bar>r\<bar>" using r by linarith
    then have "(1 :: rat) * 10 ^ nat e \<le> of_int \<bar>r\<bar> * 10 ^ nat e"
      by (intro mult_right_mono) simp_all
    ultimately have "10 ^ 19 \<le> \<bar>v\<bar>" by (simp only: of_int_abs mult_1)
    then show False using assms(3) by (simp add: representable_def)
  qed
qed

lemma canonical_decimal:
  assumes "Amount q = Some a" and "quantity_ok q" and "quantity_value q \<noteq> 0" and "representable (quantity_value q)"
  obtains m e where "\<And>f. (do { (amount, n) \<leftarrow> removeFactors (unscaled a) 10;
      let (amount, exponent) = multiple_of_3 amount (go_int32 (- scale a) + n);
      Some (fmt_d amount, fst (suffix_construct 10 exponent f)) })
      = Some (fmt_d m, fst (suffix_construct 10 e f))"
    "quantity_value q = of_int m * 10 powi e" "e \<in> {-9, -6, -3, 0, 3, 6, 9, 12, 15, 18}"
proof -
  have a: "scale_ok (scale a)" "quantity_value q = dec_value a" "unscaled a \<noteq> 0"
    using assms(1-3) by (auto simp: quantity_ok_def quantity_value_def dec_value_pos)
  obtain r k where rk: "removeFactors_loop (unscaled a) 10 0 = Some (r, 0 + int k)" "unscaled a = r * 10 ^ k" "\<not> 10 dvd r"
    using removeFactors_loop [of 10 "unscaled a" 0] a(3) by (metis one_less_numeral_iff semiring_norm(76))
  define E where "E = int k - scale a"
  have powi: "(10 :: rat) powi (int k + - scale a) = 10 powi int k * 10 powi (- scale a)"
    by (rule power_int_add) simp
  have v: "quantity_value q = of_int r * 10 powi E"
    using powi by (simp add: a(2) dec_value_def rk(2) E_def)
  note range = decimal_exponent_range [OF v rk(3) assms(4)]
  obtain j where j: "multiple_of_3 r E = (r * 10 ^ j, E - int j)" "(E - int j) mod 3 = 0" "j < 3"
    using multiple_of_3 by metis
  have "-9 \<le> E - int j" using range j(2,3) by presburger
  then have e: "E - int j \<in> {-9, -6, -3, 0, 3, 6, 9, 12, 15, 18}"
    using range j(2) by (simp only: insert_iff empty_iff) presburger
  have "go_int32 (- scale a) = - scale a" using a(1) by (simp add: scale_ok_def go_int32_id)
  then have sc: "go_int32 (- scale a) + int k = E" by (simp add: E_def)
  have powi: "(10 :: rat) powi (int j + (E - int j)) = 10 powi int j * 10 powi (E - int j)"
    by (rule power_int_add) simp
  have "quantity_value q = of_int (r * 10 ^ j) * 10 powi (E - int j)"
    using powi by (simp add: v mult.assoc)
  then show ?thesis using that [of "r * 10 ^ j" "E - int j"] rk(1) j(1) sc e
    by (simp add: removeFactors_def)
qed

lemma integer_amount:
  assumes "scale_ok (scale a)"
  shows "Dec_Round a 0 RoundUp = Some (Some (NewDec (away_from_zero (dec_value a)) 0))"
    and "dec_value a \<in> \<int> \<longleftrightarrow> of_int (away_from_zero (dec_value a)) = dec_value a"
proof -
  show "Dec_Round a 0 RoundUp = Some (Some (NewDec (away_from_zero (dec_value a)) 0))"
    using Dec_Round_value(1) [OF assms scale_ok_0] by simp
  show "dec_value a \<in> \<int> \<longleftrightarrow> of_int (away_from_zero (dec_value a)) = dec_value a"
    by (auto simp: away_from_zero_def elim: Ints_cases)
qed

lemma canonical_binary:
  assumes "i \<noteq> 0" and "\<bar>of_int i :: rat\<bar> \<le> 2 ^ 63 - 1"
  obtains m e where "removeFactors i 1024 = Some (m, e)" "i = m * 2 ^ nat (e * 10)"
    "e * 10 \<in> {0, 10, 20, 30, 40, 50, 60}"
proof -
  obtain r k where rk: "removeFactors_loop i 1024 0 = Some (r, 0 + int k)" "i = r * 1024 ^ k" "\<not> 1024 dvd r"
    using removeFactors_loop [of 1024 i 0] assms(1) by (metis one_less_numeral_iff semiring_norm(76))
  have "r \<noteq> 0" using rk(3) by auto
  then have "1 * 1024 ^ k \<le> \<bar>r\<bar> * 1024 ^ k" by (intro mult_right_mono) simp_all
  then have le: "1024 ^ k \<le> \<bar>i\<bar>" by (simp add: rk(2) abs_mult)
  have "of_int \<bar>i\<bar> \<le> (of_int (2 ^ 63 - 1) :: rat)" using assms(2) by simp
  then have "\<bar>i\<bar> \<le> 2 ^ 63 - 1" by (simp only: of_int_le_iff)
  then have "(1024 :: int) ^ k < 1024 ^ 7" using le by simp
  then have "k < 7" by (rule power_less_imp_less_exp [rotated]) simp
  then have "k \<in> {0, 1, 2, 3, 4, 5, 6}" by auto
  moreover have "(1024 :: int) ^ k = 2 ^ nat (int k * 10)"
  proof -
    have "(1024 :: int) ^ k = 2 ^ (10 * k)" by (simp add: power_mult)
    moreover have "nat (int k * 10) = 10 * k" by simp
    ultimately show ?thesis by simp
  qed
  ultimately show ?thesis using that [of r "int k"] rk by (auto simp: removeFactors_def)
qed

lemma Canonicalize_value:
  assumes "quantity_ok q" and "representable (quantity_value q)"
  obtains m t b e f where "Canonicalize q = Some (fmt_d m, t)" "suffix_ok t" "suffix_interpret t = Some (b, e, f)"
    "quantity_value q = of_int m * of_int b powi e" "\<bar>e\<bar> < 2 ^ 29"
    "Format q \<noteq> BinarySI \<Longrightarrow> Format q = DecimalSI \<Longrightarrow> f = DecimalSI"
proof (cases "quantity_value q = 0")
  case True
  have "Canonicalize q = Some (''0'', '''')"
    using True assms(1) by (auto simp: Canonicalize_def quantity_value_def quantity_ok_def Dec_Cmp_value rat_cmp_simps split: option.splits)
  moreover have "''0'' = fmt_d 0" by code_simp
  moreover have "suffix_ok '''' \<and> suffix_interpret '''' = Some (10, 0, DecimalSI)" by code_simp
  ultimately show ?thesis using True by (intro that [of 0 "''''" 10 0 DecimalSI]) simp_all
next
  case nz: False
  then obtain a where a: "Amount q = Some a" "scale_ok (scale a)" "quantity_value q = dec_value a"
    using assms(1) by (auto simp: quantity_value_def quantity_ok_def split: option.splits)
  have cmp0: "Dec_Cmp a (NewDec 0 0) = Some (rat_cmp (dec_value a) 0)" "rat_cmp (dec_value a) 0 \<noteq> 0"
    using a nz by (simp_all add: Dec_Cmp_value rat_cmp_simps)
  have fmts: "DecimalSI \<noteq> BinarySI" "DecimalExponent \<noteq> BinarySI" "DecimalSI \<noteq> DecimalExponent"
    by (simp_all add: DecimalSI_def BinarySI_def DecimalExponent_def)
  define dec where "dec f = (do { (amount, n) \<leftarrow> removeFactors (unscaled a) 10;
      let (amount, exponent) = multiple_of_3 amount (go_int32 (- scale a) + n);
      Some (fmt_d amount, fst (suffix_construct 10 exponent f)) })" for f
  obtain m e where me: "\<And>f. dec f = Some (fmt_d m, fst (suffix_construct 10 e f))"
    "quantity_value q = of_int m * 10 powi e" "e \<in> {-9, -6, -3, 0, 3, 6, 9, 12, 15, 18}"
    using canonical_decimal [OF a(1) assms(1) nz assms(2)] unfolding dec_def by metis
  have e29: "\<bar>e\<bar> < 2 ^ 29" using me(3) by auto
  note result = that
  have decimal: thesis if "Canonicalize q = dec f" "f = DecimalSI \<or> f = DecimalExponent"
    "Format q \<noteq> BinarySI \<Longrightarrow> Format q = DecimalSI \<Longrightarrow> f = DecimalSI" for f
    using that(1,3) me e29 decimal_suffix [OF me(3) that(2)]
    by (intro result [of m "fst (suffix_construct 10 e f)" 10 e "if e = 0 then DecimalSI else f"]) auto
  show ?thesis
  proof (cases "Format q = BinarySI")
    case False
    then have "Canonicalize q = dec (if Format q = DecimalSI then DecimalSI else DecimalExponent)"
      using cmp0 fmts by (auto simp: Canonicalize_def a(1) dec_def)
    then show ?thesis using decimal by (metis fmts(3))
  next
    case bin: True
    define i where "i = away_from_zero (dec_value a)"
    note round = integer_amount [OF a(2), folded i_def]
    have small: "\<bar>dec_value a\<bar> < 1024 \<longleftrightarrow> - 1024 < dec_value a \<and> dec_value a < 1024" by auto
    note cmps = Dec_Cmp_value [OF a(2), of decMinus1024] Dec_Cmp_value [OF a(2), of dec1024]
      Dec_Cmp_value [of "NewDec i 0", OF _ a(2)]
    have fmt: "Canonicalize q = (if dec_value a \<in> \<int> \<and> \<not> \<bar>dec_value a\<bar> < 1024
        then do { (amount, exponent) \<leftarrow> removeFactors i 1024;
                  Some (fmt_d amount, fst (suffix_construct 2 (exponent * 10) BinarySI)) }
        else dec DecimalSI)"
      using cmp0 cmps fmts unfolding small round(2)
      by (auto simp: Canonicalize_def a(1) bin dec_def round(1) rat_cmp_simps decMinus1024_def dec1024_def)
    show ?thesis
    proof (cases "dec_value a \<in> \<int> \<and> \<not> \<bar>dec_value a\<bar> < 1024")
      case True
      then have v: "dec_value a = of_int i" using round(2) by simp
      then have "i \<noteq> 0" "\<bar>of_int i :: rat\<bar> \<le> 2 ^ 63 - 1"
        using nz assms(2) a(3) by (auto simp: representable_def)
      then obtain m e where me: "removeFactors i 1024 = Some (m, e)" "i = m * 2 ^ nat (e * 10)"
        "e * 10 \<in> {0, 10, 20, 30, 40, 50, 60}" using canonical_binary by metis
      have "of_int i = (of_int m * 2 powi (e * 10) :: rat)" using me(2,3) by (auto simp: power_int_def)
      then show ?thesis
        using fmt True me(1,3) binary_suffix [OF me(3)] v bin a(3)
        by (intro that [of m "fst (suffix_construct 2 (e * 10) BinarySI)"
              "if e = 0 then 10 else 2" "e * 10" "if e = 0 then DecimalSI else BinarySI"]) (auto split: if_splits)
    next
      case False
      then show ?thesis using decimal [of DecimalSI] fmt bin by auto
    qed
  qed
qed

text \<open>
  C17: Printing a quantity and parsing the text gives a quantity of the same worth, whatever the
  format it is printed in, as long as it is a whole number of nano units and not above the cap.
\<close>

theorem quantity_string_parses_back:
  assumes "quantity_ok q" and "representable (quantity_value q)"
  shows "\<exists>s q'. Quantity_String q = Some s \<and> ParseQuantity s = Some (Inr q') \<and> Quantity_Cmp q' q = Some 0"
proof -
  obtain m t b e f where c: "Canonicalize q = Some (fmt_d m, t)" "suffix_ok t" "suffix_interpret t = Some (b, e, f)"
    "quantity_value q = of_int m * of_int b powi e" "\<bar>e\<bar> < 2 ^ 29"
    using Canonicalize_value [OF assms] by metis
  note val = scale_suffix_value [OF c(3,5), of "NewDec m 0", simplified]
  obtain a fmt where "cap_amount f (scale_suffix (b, e, f) (NewDec m 0)) = Some (Inr \<lparr>Amount = Some a, Format = fmt\<rparr>)"
    "scale_ok (scale a)" "dec_value a = parsed_value (quantity_value q)"
    using cap_amount_value [OF val(1), of f] unfolding val(2) c(4) by metis
  then have "ParseQuantity (fmt_d m @ t) = Some (Inr \<lparr>Amount = Some a, Format = fmt\<rparr>)"
    "Quantity_Cmp \<lparr>Amount = Some a, Format = fmt\<rparr> q = Some 0"
    using assms parsed_value_representable [OF assms(2)]
    by (auto simp: ParseQuantity_parts [OF printed_splits [OF c(2)]] Dec_SetString_fmt_d c(3) Quantity_Cmp_def
        Dec_Cmp_value rat_cmp_simps quantity_value_def quantity_ok_def Dec_Sign_value split: option.splits)
  then show ?thesis using c(1) by (simp add: Quantity_String_def)
qed

section \<open>Conversion to machine integers\<close>

lemma ceiling_pow10:
  "0 < n \<Longrightarrow> \<lceil>of_int u * (10 :: rat) powi (- n)\<rceil> = - ((- u) div 10 ^ nat n)"
proof -
  assume "0 < n"
  then have "of_int u * (10 :: rat) powi (- n) = of_int u / of_int (10 ^ nat n)"
    by (simp add: power_int_minus divide_inverse) (simp add: power_int_def)
  then show ?thesis by (simp only: ceiling_div_of_int)
qed

lemma go_int_0 [simp]: "go_int 0 = 0"
  by (simp add: go_int_def)

lemma scaledValue_up:
  assumes "0 \<le> u" and "dif < 0" and "u * 10 ^ nat (- dif) < 2 ^ 63"
  shows "go_int (go_int u * int64_Pow10 (- dif)) = u * 10 ^ nat (- dif)"
proof (cases "u = 0")
  case False
  then have "1 * 10 ^ nat (- dif) \<le> u * 10 ^ nat (- dif)" using assms(1) by (intro mult_right_mono) simp_all
  then have "(10 :: int) ^ nat (- dif) < 2 ^ 63" using assms(3) by linarith
  also have "(2 :: int) ^ 63 < 10 ^ 19" by simp
  finally have "(10 :: int) ^ nat (- dif) < 10 ^ 19" .
  then have "nat (- dif) < 19" by (rule power_less_imp_less_exp [rotated]) simp
  then have "int64_Pow10 (- dif) = 10 ^ nat (- dif)" by (simp add: int64_Pow10_def)
  moreover have "u * 1 \<le> u * 10 ^ nat (- dif)" using assms(1) by (intro mult_left_mono) simp_all
  then have "go_int u = u" using assms(1,3) by (intro go_int_id) linarith+
  moreover have "go_int (u * 10 ^ nat (- dif)) = u * 10 ^ nat (- dif)"
    using assms(1,3) by (intro go_int_id) (simp_all add: order_trans [of _ 0])
  ultimately show ?thesis by simp
qed simp

lemma scaledValue_down:
  assumes "0 \<le> u" and "0 < dif" and "- ((- u) div 10 ^ nat dif) < 2 ^ 63"
  shows "scaledValue u dif 0 = - ((- u) div 10 ^ nat dif)"
proof -
  define d where "d = (10 :: int) ^ nat dif"
  have d: "0 < d" by (simp add: d_def)
  have c: "- ((- u) div d) = (if d dvd u then u div d else u div d + 1)"
    by (rule ceiling_div_dvd [OF d])
  have q: "0 \<le> u div d" "u div d < 2 ^ 63" "\<not> d dvd u \<Longrightarrow> u div d + 1 < 2 ^ 63"
    using assms(1,3) d c by (auto simp: d_def [symmetric] pos_imp_zdiv_nonneg_iff split: if_splits)
  show ?thesis
  proof (cases "u < 2 ^ 63 - 1 \<and> dif < 19")
    case True
    then have "go_int u = u" "int64_Pow10 dif = d" using assms(1) by (simp_all add: go_int_id int64_Pow10_def d_def)
    moreover have "u sdiv d = u div d" "u smod d = u mod d"
      using assms(1) d by (simp_all add: sdiv_pos minus_sdiv_mult_eq_smod [symmetric] minus_div_mult_eq_mod)
    ultimately show ?thesis
      using True assms(2) q unfolding d_def [symmetric] c
      by (simp add: scaledValue_def go_int_id dvd_eq_mod_eq_0)
  next
    case False
    then show ?thesis
      using assms(2) q unfolding d_def [symmetric] c
      by (auto simp: scaledValue_def d_def [symmetric] go_int_id dvd_eq_mod_eq_0)
  qed
qed

text \<open>
  \<^verbatim>\<open>ScaledValue\<close>, and so \<^verbatim>\<open>Value\<close> and \<^verbatim>\<open>MilliValue\<close>, round a quantity that is not negative up to a
  whole number of the unit, exactly, whenever that number fits into an \<^verbatim>\<open>int64\<close>.
\<close>

theorem scaled_value_rounds_up:
  assumes "quantity_ok q" and "0 \<le> quantity_value q" and "\<bar>s\<bar> < 2 ^ 29"
    and "\<lceil>quantity_value q * 10 powi (- s)\<rceil> < 2 ^ 63"
  shows "ScaledValue s q = \<lceil>quantity_value q * 10 powi (- s)\<rceil>"
proof (cases "Amount q")
  case None
  then show ?thesis by (simp add: ScaledValue_def quantity_value_def)
next
  case (Some a)
  define dif where "dif = scale a + s"
  have inf: "infScale s = - s" using assms(3) by (simp add: infScale_def go_int_id go_int32_id)
  have u: "0 \<le> unscaled a" using assms(2) Some by (simp add: quantity_value_def dec_value_pos)
  have "(10 :: rat) powi (- scale a + - s) = 10 powi (- scale a) * 10 powi (- s)"
    by (rule power_int_add) simp
  then have v: "quantity_value q * 10 powi (- s) = of_int (unscaled a) * 10 powi (- dif)"
    using Some by (simp add: quantity_value_def dec_value_def dif_def mult.assoc)
  have sv: "ScaledValue s q = scaledValue (unscaled a) dif 0"
    using Some by (simp add: ScaledValue_def inf scaledValue_def dif_def)
  note bound = assms(4) [unfolded v]
  consider "dif = 0" | "dif < 0" | "0 < dif" by linarith
  then show ?thesis
  proof cases
    case 1
    then show ?thesis using u bound v unfolding sv by (simp add: scaledValue_def go_int_id)
  next
    case 2
    then have "of_int (unscaled a) * (10 :: rat) powi (- dif) = of_int (unscaled a * 10 ^ nat (- dif))"
      by (simp add: power_int_def)
    then have "\<lceil>of_int (unscaled a) * (10 :: rat) powi (- dif)\<rceil> = unscaled a * 10 ^ nat (- dif)"
      by (simp only: ceiling_of_int)
    then show ?thesis using 2 u bound v scaledValue_up [OF u 2] unfolding sv by (simp add: scaledValue_def)
  next
    case 3
    then show ?thesis using scaledValue_down [OF u 3] bound v ceiling_pow10 [OF 3] unfolding sv by simp
  qed
qed

section \<open>Arithmetic\<close>

lemma keep_nonzero_format:
  assumes "scale_ok (scale a)" and "scale_ok (scale b)"
  shows "keep_nonzero_format a b q y = Some (if dec_value a = 0 \<and> dec_value b \<noteq> 0 then Format y else Format q)"
  using assms by (simp add: keep_nonzero_format_def Dec_Cmp_value rat_cmp_simps)

text \<open>
  C32: Comparing, adding, subtracting and negating quantities is exact, and a sum or a difference
  keeps the format of the first quantity, or of the second when the first is zero.
\<close>

theorem quantity_arithmetic:
  assumes "quantity_ok q" and "quantity_ok y"
  shows "Quantity_Cmp q y = Some (rat_cmp (quantity_value q) (quantity_value y))
    \<and> (\<exists>z. Quantity_Add q y = Some z \<and> quantity_ok z \<and> quantity_value z = quantity_value q + quantity_value y
         \<and> Format z = (if quantity_value q = 0 \<and> quantity_value y \<noteq> 0 then Format y else Format q))
    \<and> (\<exists>z. Quantity_Sub q y = Some z \<and> quantity_ok z \<and> quantity_value z = quantity_value q - quantity_value y
         \<and> Format z = (if quantity_value q = 0 \<and> quantity_value y \<noteq> 0 then Format y else Format q))
    \<and> quantity_value (Quantity_Neg q y) = - quantity_value y"
proof (intro conjI)
  show "Quantity_Cmp q y = Some (rat_cmp (quantity_value q) (quantity_value y))"
    using assms by (auto simp: Quantity_Cmp_def quantity_value_def quantity_ok_def Dec_Cmp_value Dec_Sign_value
        rat_cmp_def split: option.splits)
  show "quantity_value (Quantity_Neg q y) = - quantity_value y"
    by (simp add: Quantity_Neg_def quantity_value_def Dec_Neg_value split: option.splits)
  define a where "a = (case Amount q of None \<Rightarrow> NewDec 0 0 | Some a \<Rightarrow> a)"
  have a: "scale_ok (scale a)" "dec_value a = quantity_value q"
    using assms(1) by (auto simp: a_def quantity_value_def quantity_ok_def split: option.splits)
  let ?fmt = "if quantity_value q = 0 \<and> quantity_value y \<noteq> 0 then Format y else Format q"
  show "\<exists>z. Quantity_Add q y = Some z \<and> quantity_ok z \<and> quantity_value z = quantity_value q + quantity_value y
      \<and> Format z = ?fmt"
  proof (cases "Amount y")
    case None
    then show ?thesis using assms by (simp add: Quantity_Add_def quantity_value_def)
  next
    case (Some b)
    then have b: "scale_ok (scale b)" "dec_value b = quantity_value y"
      using assms(2) by (auto simp: quantity_value_def quantity_ok_def)
    obtain z where "Dec_Add a b = Some z" "dec_value z = dec_value a + dec_value b" "scale_ok (scale z)"
      using Dec_Add_value [OF a(1) b(1)] by metis
    then show ?thesis using a b
      by (simp add: Quantity_Add_def Some a_def [symmetric] keep_nonzero_format)
        (simp add: quantity_ok_def quantity_value_def)
  qed
  show "\<exists>z. Quantity_Sub q y = Some z \<and> quantity_ok z \<and> quantity_value z = quantity_value q - quantity_value y
      \<and> Format z = ?fmt"
  proof (cases "Amount y")
    case None
    then show ?thesis using assms by (simp add: Quantity_Sub_def quantity_value_def)
  next
    case (Some b)
    then have b: "scale_ok (scale b)" "dec_value b = quantity_value y"
      using assms(2) by (auto simp: quantity_value_def quantity_ok_def)
    obtain z where "Dec_Sub a b = Some z" "dec_value z = dec_value a - dec_value b" "scale_ok (scale z)"
      using Dec_Sub_value [OF a(1) b(1)] by metis
    then show ?thesis using a b
      by (simp add: Quantity_Sub_def Some a_def [symmetric] keep_nonzero_format)
        (simp add: quantity_ok_def quantity_value_def)
  qed
qed

section \<open>Examples and errors\<close>

theorem parse_quantity_value_witness:
  "\<exists>q. ParseQuantity ''1.5Ki'' = Some (Inr q) \<and> quantity_value q = 1536"
proof -
  have s: "splitRE (strings_TrimSpace ''1.5Ki'') = [''1.5Ki'', ''1.5'', ''Ki'']" by code_simp
  have d: "Dec_SetString ''1.5'' = Some (NewDec 15 1)" by code_simp
  have t: "suffix_interpret ''Ki'' = Some (2, 10, BinarySI)" by code_simp
  have v: "dec_value (NewDec 15 1) * rat_of_int 2 powi 10 = 1536"
    by (simp add: dec_value_def NewDec_def power_int_minus)
  have "parsed_value 1536 = 1536" by (simp add: parsed_value_def ceil_nano_def)
  then show ?thesis
    using parse_quantity_value [OF s d t] unfolding v by auto
qed

theorem quantity_string_parses_back_witness:
  "\<exists>s q'. Quantity_String (NewMilliQuantity 1500 DecimalSI) = Some s \<and> ParseQuantity s = Some (Inr q')
     \<and> Quantity_Cmp q' (NewMilliQuantity 1500 DecimalSI) = Some 0"
proof (rule quantity_string_parses_back)
  have v: "quantity_value (NewMilliQuantity 1500 DecimalSI) = 3 / 2"
    by (simp add: quantity_value_def NewMilliQuantity_def dec_value_def NewDec_def power_int_minus)
  have "(3 / 2 * 10 ^ 9 :: rat) = of_int 1500000000" by simp
  then have "(3 / 2 * 10 ^ 9 :: rat) \<in> \<int>" by (simp only: Ints_of_int)
  then show "representable (quantity_value (NewMilliQuantity 1500 DecimalSI))"
    unfolding representable_def v by simp
qed (simp add: quantity_ok_def NewMilliQuantity_def scale_ok_def)

theorem scaled_value_rounds_up_witness: "Quantity_Value (NewMilliQuantity 1500 DecimalSI) = 2"
proof -
  have v: "quantity_value (NewMilliQuantity 1500 DecimalSI) = 3 / 2"
    by (simp add: quantity_value_def NewMilliQuantity_def dec_value_def NewDec_def power_int_minus)
  have "\<lceil>(3 / 2 :: rat)\<rceil> = 2" by (simp add: ceiling_eq_iff)
  moreover have "quantity_ok (NewMilliQuantity 1500 DecimalSI)"
    by (simp add: quantity_ok_def NewMilliQuantity_def scale_ok_def)
  ultimately show ?thesis
    using scaled_value_rounds_up [of "NewMilliQuantity 1500 DecimalSI" 0] v by (simp add: Quantity_Value_def)
qed

theorem quantity_arithmetic_witness:
  "\<exists>z. Quantity_Add (NewQuantity 0 BinarySI) (NewQuantity 5 DecimalSI) = Some z \<and> quantity_value z = 5 \<and> Format z = DecimalSI"
proof -
  have "quantity_ok (NewQuantity i f)" "quantity_value (NewQuantity i f) = of_int i" "Format (NewQuantity i f) = f" for i f
    by (simp_all add: quantity_ok_def quantity_value_def NewQuantity_def)
  then show ?thesis using quantity_arithmetic [of "NewQuantity 0 BinarySI" "NewQuantity 5 DecimalSI"] by auto
qed

text \<open>
  The exponent of a literal is cut off to 32 bits without a check: one text panics, and another
  is read as the number one.  The value of a negative quantity is rounded past its ceiling.  A
  number above the cap, which only arithmetic can give, loses its suffix when it is printed, and a
  binary quantity printed without a suffix comes back as a decimal one.
\<close>

theorem quantity_conversions_overflow:
  "ParseQuantity ''1e2147483639'' = None
   \<and> ParseQuantity ''1e4294967296'' = Some (Inr \<lparr>Amount = Some (NewDec 1000000000 9), Format = DecimalExponent\<rparr>)
   \<and> Quantity_Value (NewMilliQuantity (-1500) DecimalSI) = 0
   \<and> \<lceil>quantity_value (NewMilliQuantity (-1500) DecimalSI)\<rceil> = -1
   \<and> Quantity_String (NewScaledQuantity 1000 18) = Some ''1''
   \<and> Quantity_String (NewQuantity 2000 BinarySI) = Some ''2000''
   \<and> map_option (map_sum id Quantity_String) (ParseQuantity ''2000'') = Some (Inr (Some ''2k''))"
proof (intro conjI)
  note eval_suffix = suffix_interpret_def dec_suffixes bin_suffixes Atoi_def ParseUint_def digit_value_def DecimalExponent_def
  have num: "Dec_SetString ''1'' = Some (NewDec 1 0)" by code_simp
  have "splitRE (strings_TrimSpace ''1e2147483639'') = [''1e2147483639'', ''1'', ''e2147483639'']" by code_simp
  moreover have "suffix_interpret ''e2147483639'' = Some (10, 2147483639, DecimalExponent)" by (simp add: eval_suffix)
  moreover have "cap_amount DecimalExponent (scale_suffix (10, 2147483639, DecimalExponent) (NewDec 1 0)) = None" by code_simp
  ultimately show "ParseQuantity ''1e2147483639'' = None" by (simp add: ParseQuantity_parts num)
  have "splitRE (strings_TrimSpace ''1e4294967296'') = [''1e4294967296'', ''1'', ''e4294967296'']" by code_simp
  moreover have "suffix_interpret ''e4294967296'' = Some (10, 4294967296, DecimalExponent)" by (simp add: eval_suffix)
  moreover have "cap_amount DecimalExponent (scale_suffix (10, 4294967296, DecimalExponent) (NewDec 1 0))
      = Some (Inr \<lparr>Amount = Some (NewDec 1000000000 9), Format = DecimalExponent\<rparr>)" by code_simp
  ultimately show "ParseQuantity ''1e4294967296''
      = Some (Inr \<lparr>Amount = Some (NewDec 1000000000 9), Format = DecimalExponent\<rparr>)" by (simp add: ParseQuantity_parts num)
  show "Quantity_Value (NewMilliQuantity (-1500) DecimalSI) = 0" by code_simp
  have "quantity_value (NewMilliQuantity (-1500) DecimalSI) = - 3 / 2"
    by (simp add: quantity_value_def NewMilliQuantity_def dec_value_def NewDec_def power_int_minus)
  then show "\<lceil>quantity_value (NewMilliQuantity (-1500) DecimalSI)\<rceil> = -1" by (simp add: ceiling_eq_iff)
  show "Quantity_String (NewScaledQuantity 1000 18) = Some ''1''" by code_simp
  show "Quantity_String (NewQuantity 2000 BinarySI) = Some ''2000''" by code_simp
  show "map_option (map_sum id Quantity_String) (ParseQuantity ''2000'') = Some (Inr (Some ''2k''))" by code_simp
qed

end
