(* ===== verification/Scheduler_Cache.thy ===== *)
theory Scheduler_Cache
  imports Quantity Labels Cache_Store
begin

text \<open>
  \<^verbatim>\<open>plugin/pkg/scheduler/schedulercache\<close>: what the scheduler knows of the pods on each node
  (\<^verbatim>\<open>node_info.go\<close>) and the cache that keeps it up to date from the events of pods (\<^verbatim>\<open>cache.go\<close>), with
  the requests of a pod (\<^verbatim>\<open>pkg/api/resource_helpers.go\<close>, \<^verbatim>\<open>priorities/util/non_zero.go\<close>).

  The aggregates of a node are behind pointers, which a copy of the node's information shares.  The
  model keeps the \<^verbatim>\<open>Resource\<close> structs in a memory, a list, and a pointer is an index.  An \<^verbatim>\<open>int64\<close>
  is an integer, cut off by \<open>go_int\<close> after each step.  \<^verbatim>\<open>None\<close> is a panic.
\<close>

section \<open>Pods and nodes\<close>

type_synonym ResourceList = "string \<rightharpoonup> Quantity"

record GCEDisk =
  PDName :: string
  gce_ReadOnly :: bool

record RBDVolume =
  CephMonitors :: "string list"
  RBDPool :: string
  RBDImage :: string

record Volume =
  GCEPersistentDisk :: "GCEDisk option"
  AWSElasticBlockStore :: "string option" \<comment> \<open>the volume ID\<close>
  RBD :: "RBDVolume option"
  PersistentVolumeClaim :: "string option" \<comment> \<open>the claim's name\<close>

record Container =
  Requests :: ResourceList
  HostPorts :: "int list"
  Image :: string

text \<open>A pod with the fields that the scheduler reads.\<close>

record SchedPod =
  sp_Name :: string
  sp_Namespace :: string
  sp_Labels :: label_Set
  sp_Annotations :: "string \<rightharpoonup> string"
  sp_NodeName :: string
  sp_NodeSelector :: label_Set
  Containers :: "Container list"
  Volumes :: "Volume list"

definition ResourceCPU :: string where "ResourceCPU = ''cpu''"
definition ResourceMemory :: string where "ResourceMemory = ''memory''"
definition ResourcePods :: string where "ResourcePods = ''pods''"

definition rl_Cpu :: "ResourceList \<Rightarrow> Quantity" where
  "rl_Cpu rl = (case rl ResourceCPU of Some val \<Rightarrow> val | None \<Rightarrow> \<lparr>Amount = None, Format = DecimalSI\<rparr>)"

definition rl_Memory :: "ResourceList \<Rightarrow> Quantity" where
  "rl_Memory rl = (case rl ResourceMemory of Some val \<Rightarrow> val | None \<Rightarrow> \<lparr>Amount = None, Format = BinarySI\<rparr>)"

definition rl_Pods :: "ResourceList \<Rightarrow> Quantity" where
  "rl_Pods rl = (case rl ResourcePods of Some val \<Rightarrow> val | None \<Rightarrow> \<lparr>Amount = None, Format = ''''\<rparr>)"

definition DefaultMilliCpuRequest :: int where "DefaultMilliCpuRequest = 100"
definition DefaultMemoryRequest :: int where "DefaultMemoryRequest = 200 * 1024 * 1024"

definition GetNonzeroRequests :: "ResourceList \<Rightarrow> int \<times> int" where
  "GetNonzeroRequests requests =
     (if requests ResourceCPU = None then DefaultMilliCpuRequest else MilliValue (rl_Cpu requests),
      if requests ResourceMemory = None then DefaultMemoryRequest else Quantity_Value (rl_Memory requests))"

section \<open>Information of a node\<close>

record Resource =
  MilliCPU :: int
  Memory :: int

type_synonym memory = "Resource list"
type_synonym ptr = nat

definition emptyResource :: Resource where
  "emptyResource = \<lparr>MilliCPU = 0, Memory = 0\<rparr>"

record NodeInfo =
  requestedResource :: ptr
  ni_pods :: "SchedPod list"
  nonzeroRequest :: ptr

definition calculateResource :: "SchedPod \<Rightarrow> int \<times> int \<times> int \<times> int" where
  "calculateResource pod =
     fold (\<lambda>c (cpu, mem, non0_cpu, non0_mem).
         let req = Requests c;
             (non0_cpu_req, non0_mem_req) = GetNonzeroRequests req
         in (go_int (cpu + MilliValue (rl_Cpu req)), go_int (mem + Quantity_Value (rl_Memory req)),
             go_int (non0_cpu + non0_cpu_req), go_int (non0_mem + non0_mem_req)))
       (Containers pod) (0, 0, 0, 0)"

text \<open>\<^verbatim>\<open>+=\<close> and \<^verbatim>\<open>-=\<close> on the two fields behind a pointer.\<close>

definition add_resource :: "ptr \<Rightarrow> int \<Rightarrow> int \<Rightarrow> memory \<Rightarrow> memory" where
  "add_resource p cpu mem h =
     h[p := \<lparr>MilliCPU = go_int (MilliCPU (h ! p) + cpu), Memory = go_int (Memory (h ! p) + mem)\<rparr>]"

definition sub_resource :: "ptr \<Rightarrow> int \<Rightarrow> int \<Rightarrow> memory \<Rightarrow> memory" where
  "sub_resource p cpu mem h =
     h[p := \<lparr>MilliCPU = go_int (MilliCPU (h ! p) - cpu), Memory = go_int (Memory (h ! p) - mem)\<rparr>]"

definition ni_addPod :: "SchedPod \<Rightarrow> NodeInfo \<times> memory \<Rightarrow> NodeInfo \<times> memory" where
  "ni_addPod pod nh =
     (case nh of (n, h) \<Rightarrow>
        (case calculateResource pod of (cpu, mem, non0_cpu, non0_mem) \<Rightarrow>
           (n\<lparr>ni_pods := ni_pods n @ [pod]\<rparr>,
            add_resource (nonzeroRequest n) non0_cpu non0_mem (add_resource (requestedResource n) cpu mem h))))"

definition NewNodeInfo :: "SchedPod list \<Rightarrow> memory \<Rightarrow> NodeInfo \<times> memory" where
  "NewNodeInfo pods h =
     fold ni_addPod pods
       (\<lparr>requestedResource = length h, ni_pods = [], nonzeroRequest = Suc (length h)\<rparr>, h @ [emptyResource, emptyResource])"

text \<open>The methods for reading also work on a nil pointer.\<close>

definition ni_Pods :: "NodeInfo option \<Rightarrow> SchedPod list" where
  "ni_Pods n = (case n of None \<Rightarrow> [] | Some n \<Rightarrow> ni_pods n)"

definition RequestedResource :: "NodeInfo option \<Rightarrow> memory \<Rightarrow> Resource" where
  "RequestedResource n h = (case n of None \<Rightarrow> emptyResource | Some n \<Rightarrow> h ! requestedResource n)"

definition NonZeroRequest :: "NodeInfo option \<Rightarrow> memory \<Rightarrow> Resource" where
  "NonZeroRequest n h = (case n of None \<Rightarrow> emptyResource | Some n \<Rightarrow> h ! nonzeroRequest n)"

text \<open>
  \<^verbatim>\<open>Clone\<close> copies the pods.  It writes \<^verbatim>\<open>&(*n.requestedResource)\<close> for the aggregates, which is the
  pointer itself and not one to a copy.
\<close>

definition ni_Clone :: "NodeInfo \<Rightarrow> NodeInfo" where
  "ni_Clone n = \<lparr>requestedResource = requestedResource n, ni_pods = ni_pods n, nonzeroRequest = nonzeroRequest n\<rparr>"

definition pod_accessor :: "SchedPod \<Rightarrow> go_error + string \<times> string" where
  "pod_accessor pod = Inr (sp_Namespace pod, sp_Name pod)"

definition getPodKey :: "SchedPod \<Rightarrow> go_error + key" where
  "getPodKey pod = MetaNamespaceKeyFunc pod_accessor (ApiObject pod)"

text \<open>The loop of \<^verbatim>\<open>removePod\<close>: the first pod with the key.\<close>

fun find_pod :: "key \<Rightarrow> SchedPod list \<Rightarrow> nat option" where
  "find_pod k1 [] = None"
| "find_pod k1 (p # ps) =
     (case getPodKey p of
        Inl err \<Rightarrow> map_option Suc (find_pod k1 ps)
      | Inr k2 \<Rightarrow> if k1 = k2 then Some 0 else map_option Suc (find_pod k1 ps))"

definition ni_removePod :: "SchedPod \<Rightarrow> NodeInfo \<times> memory \<Rightarrow> go_error option \<times> NodeInfo \<times> memory" where
  "ni_removePod pod nh =
     (case nh of (n, h) \<Rightarrow>
        (case getPodKey pod of
           Inl err \<Rightarrow> (Some err, n, h)
         | Inr k1 \<Rightarrow>
             (case calculateResource pod of (cpu, mem, non0_cpu, non0_mem) \<Rightarrow>
                (let h = sub_resource (nonzeroRequest n) non0_cpu non0_mem (sub_resource (requestedResource n) cpu mem h)
                 in case find_pod k1 (ni_pods n) of
                      None \<Rightarrow> (Some ''no corresponding pod in pods'', n, h)
                    | Some i \<Rightarrow> (None, n\<lparr>ni_pods := butlast ((ni_pods n)[i := last (ni_pods n)])\<rparr>, h)))))"

text \<open>\<^verbatim>\<open>util.go\<close>\<close>

definition CreateNodeNameToInfoMap :: "SchedPod list \<Rightarrow> memory \<Rightarrow> (string \<rightharpoonup> NodeInfo) \<times> memory" where
  "CreateNodeNameToInfoMap pods h =
     fold (\<lambda>pod (m, h).
         let nodeName = sp_NodeName pod;
             (nodeInfo, h) = (case m nodeName of Some n \<Rightarrow> (n, h) | None \<Rightarrow> NewNodeInfo [] h);
             (nodeInfo, h) = ni_addPod pod (nodeInfo, h)
         in (m(nodeName \<mapsto> nodeInfo), h))
       pods (Map.empty, h)"

section \<open>The cache\<close>

record podState =
  ps_pod :: SchedPod
  deadline :: int

record schedulerCache =
  sc_memory :: memory
  ttl :: int
  assumedPods :: "key set"
  podStates :: "key \<rightharpoonup> podState"
  sc_nodes :: "string \<rightharpoonup> NodeInfo"

definition newSchedulerCache :: "int \<Rightarrow> schedulerCache" where
  "newSchedulerCache t =
     \<lparr>sc_memory = [], ttl = t, assumedPods = {}, podStates = Map.empty, sc_nodes = Map.empty\<rparr>"

definition GetNodeNameToInfoMap :: "schedulerCache \<Rightarrow> (string \<rightharpoonup> NodeInfo)" where
  "GetNodeNameToInfoMap cache = (\<lambda>name. map_option ni_Clone (sc_nodes cache name))"

definition sc_List ::
  "(string, NodeInfo) go_range \<Rightarrow> (label_Set \<Rightarrow> bool) \<Rightarrow> schedulerCache \<Rightarrow> SchedPod list" where
  "sc_List rng matches cache =
     concat (map (\<lambda>(name, info). filter (\<lambda>pod. matches (sp_Labels pod)) (ni_pods info)) (rng (sc_nodes cache)))"

definition sc_addPod :: "SchedPod \<Rightarrow> schedulerCache \<Rightarrow> schedulerCache" where
  "sc_addPod pod cache =
     (let (n, h) = (case sc_nodes cache (sp_NodeName pod) of
                      Some n \<Rightarrow> (n, sc_memory cache)
                    | None \<Rightarrow> NewNodeInfo [] (sc_memory cache));
          (n, h) = ni_addPod pod (n, h)
      in cache\<lparr>sc_nodes := (sc_nodes cache)(sp_NodeName pod \<mapsto> n), sc_memory := h\<rparr>)"

text \<open>A method call on a missing node dereferences nil, unless the pod has no key.\<close>

definition sc_deletePod :: "SchedPod \<Rightarrow> schedulerCache \<Rightarrow> (go_error option \<times> schedulerCache) option" where
  "sc_deletePod pod cache =
     (case sc_nodes cache (sp_NodeName pod) of
        None \<Rightarrow> (case getPodKey pod of Inl err \<Rightarrow> Some (Some err, cache) | Inr _ \<Rightarrow> None)
      | Some n \<Rightarrow>
          (case ni_removePod pod (n, sc_memory cache) of
             (Some err, n, h) \<Rightarrow>
               Some (Some err, cache\<lparr>sc_nodes := (sc_nodes cache)(sp_NodeName pod \<mapsto> n), sc_memory := h\<rparr>)
           | (None, n, h) \<Rightarrow>
               Some (None, cache\<lparr>sc_nodes := (sc_nodes cache)(sp_NodeName pod := (if length (ni_pods n) = 0 then None else Some n)),
                                 sc_memory := h\<rparr>)))"

definition sc_updatePod ::
  "SchedPod \<Rightarrow> SchedPod \<Rightarrow> schedulerCache \<Rightarrow> (go_error option \<times> schedulerCache) option" where
  "sc_updatePod oldPod newPod cache =
     (case sc_deletePod oldPod cache of
        None \<Rightarrow> None
      | Some (Some err, cache) \<Rightarrow> Some (Some err, cache)
      | Some (None, cache) \<Rightarrow> Some (None, sc_addPod newPod cache))"

text \<open>\<open>bound\<close> is the result of the binding function.\<close>

definition AssumePodIfBindSucceed ::
  "SchedPod \<Rightarrow> bool \<Rightarrow> int \<Rightarrow> schedulerCache \<Rightarrow> go_error option \<times> schedulerCache" where
  "AssumePodIfBindSucceed pod bound now cache =
     (if \<not> bound then (None, cache)
      else case getPodKey pod of
        Inl err \<Rightarrow> (Some err, cache)
      | Inr key \<Rightarrow>
          if podStates cache key \<noteq> None
          then (Some ''pod state wasn't initial but get assumed'', cache)
          else let cache = sc_addPod pod cache
               in (None, cache\<lparr>podStates := (podStates cache)(key \<mapsto> \<lparr>ps_pod = pod, deadline = now + ttl cache\<rparr>),
                               assumedPods := insert key (assumedPods cache)\<rparr>))"

definition sc_AddPod :: "SchedPod \<Rightarrow> schedulerCache \<Rightarrow> go_error option \<times> schedulerCache" where
  "sc_AddPod pod cache =
     (case getPodKey pod of
        Inl err \<Rightarrow> (Some err, cache)
      | Inr key \<Rightarrow>
          let ok = (podStates cache key \<noteq> None)
          in if ok \<and> key \<in> assumedPods cache then (None, cache\<lparr>assumedPods := assumedPods cache - {key}\<rparr>)
             else if \<not> ok then (None, sc_addPod pod cache)
             else (Some ''pod was already in added state'', cache))"

definition sc_UpdatePod ::
  "SchedPod \<Rightarrow> SchedPod \<Rightarrow> schedulerCache \<Rightarrow> (go_error option \<times> schedulerCache) option" where
  "sc_UpdatePod oldPod newPod cache =
     (case getPodKey oldPod of
        Inl err \<Rightarrow> Some (Some err, cache)
      | Inr key \<Rightarrow>
          if podStates cache key \<noteq> None \<and> key \<notin> assumedPods cache then sc_updatePod oldPod newPod cache
          else Some (Some ''pod state wasn't added but get updated'', cache))"

definition sc_RemovePod :: "SchedPod \<Rightarrow> schedulerCache \<Rightarrow> (go_error option \<times> schedulerCache) option" where
  "sc_RemovePod pod cache =
     (case getPodKey pod of
        Inl err \<Rightarrow> Some (Some err, cache)
      | Inr key \<Rightarrow>
          if podStates cache key \<noteq> None \<and> key \<notin> assumedPods cache
          then (case sc_deletePod pod cache of
                  None \<Rightarrow> None
                | Some (Some err, cache) \<Rightarrow> Some (Some err, cache)
                | Some (None, cache) \<Rightarrow> Some (None, cache\<lparr>podStates := (podStates cache)(key := None)\<rparr>))
          else Some (Some ''pod state wasn't added but get removed'', cache))"

definition expirePod ::
  "key \<Rightarrow> podState \<Rightarrow> schedulerCache \<Rightarrow> (go_error option \<times> schedulerCache) option" where
  "expirePod key ps cache =
     (case sc_deletePod (ps_pod ps) cache of
        None \<Rightarrow> None
      | Some (Some err, cache) \<Rightarrow> Some (Some err, cache)
      | Some (None, cache) \<Rightarrow>
          Some (None, cache\<lparr>assumedPods := assumedPods cache - {key}, podStates := (podStates cache)(key := None)\<rparr>))"

text \<open>The loop ranges over the assumed pods; \<open>ks\<close> is the order.  Errors are only logged.\<close>

fun cleanup_loop :: "key list \<Rightarrow> int \<Rightarrow> schedulerCache \<Rightarrow> schedulerCache option" where
  "cleanup_loop [] now cache = Some cache"
| "cleanup_loop (key # ks) now cache =
     (case podStates cache key of
        None \<Rightarrow> None
      | Some ps \<Rightarrow>
          if now > deadline ps
          then (case expirePod key ps cache of None \<Rightarrow> None | Some (err, cache) \<Rightarrow> cleanup_loop ks now cache)
          else cleanup_loop ks now cache)"

definition cleanupAssumedPods :: "key set_range \<Rightarrow> int \<Rightarrow> schedulerCache \<Rightarrow> schedulerCache option" where
  "cleanupAssumedPods rng now cache = cleanup_loop (rng (assumedPods cache)) now cache"

end
