(* ===== verification/Predicates.thy ===== *)
theory Predicates
  imports Scheduler_Cache
begin

text \<open>
  \<^verbatim>\<open>plugin/pkg/scheduler/algorithm/predicates\<close>: the functions that say whether a pod fits on a node.

  A predicate gets the pod, the name of the node, and the node's information, a pointer into the
  memory of \<^verbatim>\<open>Resource\<close> structs.  \<^verbatim>\<open>None\<close> is a panic, of a nil pointer or an index out of range.
  What the predicates ask of listers and clients are arguments: \<^verbatim>\<open>GetNodeInfo\<close> and the functions for
  volumes and claims return an error or a pointer, which can be nil.
\<close>

section \<open>Nodes and errors\<close>

record ContainerImage =
  Names :: "string list"
  SizeBytes :: int

record Node =
  n_Name :: string
  n_Labels :: label_Set
  Allocatable :: ResourceList
  Images :: "ContainerImage list"

type_synonym 'o getter = "string \<Rightarrow> go_error + 'o option"

datatype fit_error = InsufficientResourceError string int int int | FitErr go_error

definition podCountResourceName :: string where "podCountResourceName = ''PodCount''"
definition cpuResourceName :: string where "cpuResourceName = ''CPU''"
definition memoryResoureceName :: string where "memoryResoureceName = ''Memory''"

fun fit_error_Error :: "fit_error \<Rightarrow> string" where
  "fit_error_Error (InsufficientResourceError name requested used capacity) =
     ''Node didn't have enough resource: '' @ name @ '', requested: '' @ fmt_d requested
       @ '', used: '' @ fmt_d used @ '', capacity: '' @ fmt_d capacity"
| "fit_error_Error (FitErr err) = err"

type_synonym fit = "bool \<times> fit_error option"
type_synonym FitPredicate = "SchedPod \<Rightarrow> string \<Rightarrow> NodeInfo option \<Rightarrow> memory \<Rightarrow> fit option"

definition fit_err :: "go_error \<Rightarrow> fit option" where
  "fit_err err = Some (False, Some (FitErr err))"

fun StaticNodeInfo_GetNodeInfo :: "Node list \<Rightarrow> Node getter" where
  "StaticNodeInfo_GetNodeInfo [] nodeID = Inl (''failed to find node: '' @ nodeID)"
| "StaticNodeInfo_GetNodeInfo (n # nodes) nodeID =
     (if n_Name n = nodeID then Inr (Some n) else StaticNodeInfo_GetNodeInfo nodes nodeID)"

section \<open>Disks\<close>

definition haveSame :: "string list \<Rightarrow> string list \<Rightarrow> bool" where
  "haveSame a1 a2 = list_ex (\<lambda>val1. list_ex (\<lambda>val2. val1 = val2) a2) a1"

text \<open>The body of the loop of \<^verbatim>\<open>isVolumeConflict\<close>.\<close>

definition gce_conflict :: "GCEDisk option \<Rightarrow> GCEDisk option \<Rightarrow> bool" where
  "gce_conflict d e = (case (d, e) of
      (Some disk, Some existingDisk) \<Rightarrow>
        PDName disk = PDName existingDisk \<and> \<not> (gce_ReadOnly disk \<and> gce_ReadOnly existingDisk)
    | _ \<Rightarrow> False)"

definition ebs_conflict :: "string option \<Rightarrow> string option \<Rightarrow> bool" where
  "ebs_conflict d e = (case (d, e) of (Some v, Some ev) \<Rightarrow> v = ev | _ \<Rightarrow> False)"

definition rbd_conflict :: "RBDVolume option \<Rightarrow> RBDVolume option \<Rightarrow> bool" where
  "rbd_conflict d e = (case (d, e) of
      (Some r, Some er) \<Rightarrow> haveSame (CephMonitors r) (CephMonitors er) \<and> RBDPool r = RBDPool er \<and> RBDImage r = RBDImage er
    | _ \<Rightarrow> False)"

definition isVolumeConflict :: "Volume \<Rightarrow> SchedPod \<Rightarrow> bool" where
  "isVolumeConflict volume pod =
     (if GCEPersistentDisk volume = None \<and> AWSElasticBlockStore volume = None \<and> RBD volume = None then False
      else list_ex (\<lambda>existingVolume.
             if gce_conflict (GCEPersistentDisk volume) (GCEPersistentDisk existingVolume) then True
             else if ebs_conflict (AWSElasticBlockStore volume) (AWSElasticBlockStore existingVolume) then True
             else rbd_conflict (RBD volume) (RBD existingVolume)) (Volumes pod))"

definition NoDiskConflict :: FitPredicate where
  "NoDiskConflict pod nodeName nodeInfo h =
     Some (if list_ex (\<lambda>v. list_ex (isVolumeConflict v) (ni_Pods nodeInfo)) (Volumes pod)
           then (False, None) else (True, None))"

section \<open>The number of volumes\<close>

record PersistentVolume =
  pv_Labels :: label_Set
  pv_GCE :: "GCEDisk option"
  pv_AWS :: "string option"

record PVClaim =
  VolumeName :: string

record VolumeFilter =
  FilterVolume :: "Volume \<Rightarrow> string option"
  FilterPersistentVolume :: "PersistentVolume \<Rightarrow> string option"

record MaxPDVolumeCountChecker =
  vfilter :: VolumeFilter
  maxVolumes :: int
  pvInfo :: "PersistentVolume getter"
  pvcInfo :: "string \<Rightarrow> PVClaim getter"

text \<open>Both filters of the code panic on a nil volume.\<close>

fun filterVolumes ::
  "MaxPDVolumeCountChecker \<Rightarrow> Volume list \<Rightarrow> string \<Rightarrow> string set \<Rightarrow> (go_error + string set) option" where
  "filterVolumes c [] namespace filteredVolumes = Some (Inr filteredVolumes)"
| "filterVolumes c (vol # volumes) namespace filteredVolumes =
     (case FilterVolume (vfilter c) vol of
        Some vid \<Rightarrow> filterVolumes c volumes namespace (insert vid filteredVolumes)
      | None \<Rightarrow>
          (case PersistentVolumeClaim vol of
             None \<Rightarrow> filterVolumes c volumes namespace filteredVolumes
           | Some pvcName \<Rightarrow>
               if pvcName = '''' then Some (Inl ''PersistentVolumeClaim had no name'')
               else case pvcInfo c namespace pvcName of
                 Inl err \<Rightarrow> Some (Inl err)
               | Inr None \<Rightarrow> None
               | Inr (Some pvc) \<Rightarrow>
                   if VolumeName pvc = '''' then Some (Inl ''PersistentVolumeClaim is not bound'')
                   else case pvInfo c (VolumeName pvc) of
                     Inl err \<Rightarrow> Some (Inl err)
                   | Inr None \<Rightarrow> None
                   | Inr (Some pv) \<Rightarrow>
                       filterVolumes c volumes namespace
                         (case FilterPersistentVolume (vfilter c) pv of
                            Some vid \<Rightarrow> insert vid filteredVolumes
                          | None \<Rightarrow> filteredVolumes)))"

fun filterPods :: "MaxPDVolumeCountChecker \<Rightarrow> SchedPod list \<Rightarrow> string set \<Rightarrow> (go_error + string set) option" where
  "filterPods c [] existingVolumes = Some (Inr existingVolumes)"
| "filterPods c (p # pods) existingVolumes =
     (case filterVolumes c (Volumes p) (sp_Namespace p) existingVolumes of
        None \<Rightarrow> None
      | Some (Inl err) \<Rightarrow> Some (Inl err)
      | Some (Inr vs) \<Rightarrow> filterPods c pods vs)"

definition MaxPDVolumeCount_predicate :: "MaxPDVolumeCountChecker \<Rightarrow> FitPredicate" where
  "MaxPDVolumeCount_predicate c pod nodeName nodeInfo h =
     (case filterVolumes c (Volumes pod) (sp_Namespace pod) {} of
        None \<Rightarrow> None
      | Some (Inl err) \<Rightarrow> fit_err err
      | Some (Inr newVolumes) \<Rightarrow>
          if newVolumes = {} then Some (True, None)
          else case filterPods c (ni_Pods nodeInfo) {} of
            None \<Rightarrow> None
          | Some (Inl err) \<Rightarrow> fit_err err
          | Some (Inr existingVolumes) \<Rightarrow>
              let numExistingVolumes = int (card existingVolumes);
                  numNewVolumes = int (card (newVolumes - existingVolumes))
              in if numExistingVolumes + numNewVolumes > maxVolumes c then Some (False, None) else Some (True, None))"

definition EBSVolumeFilter :: VolumeFilter where
  "EBSVolumeFilter = \<lparr>FilterVolume = AWSElasticBlockStore, FilterPersistentVolume = pv_AWS\<rparr>"

definition GCEPDVolumeFilter :: VolumeFilter where
  "GCEPDVolumeFilter = \<lparr>FilterVolume = (\<lambda>vol. map_option PDName (GCEPersistentDisk vol)),
                        FilterPersistentVolume = (\<lambda>pv. map_option PDName (pv_GCE pv))\<rparr>"

section \<open>Zones of volumes\<close>

definition LabelZoneFailureDomain :: string where
  "LabelZoneFailureDomain = ''failure-domain.beta.kubernetes.io/zone''"
definition LabelZoneRegion :: string where
  "LabelZoneRegion = ''failure-domain.beta.kubernetes.io/region''"

definition nodeConstraints :: "(string \<times> string) list \<Rightarrow> label_Set" where
  "nodeConstraints ls =
     fold (\<lambda>(k, v) m. if k \<noteq> LabelZoneFailureDomain \<and> k \<noteq> LabelZoneRegion then m else m(k \<mapsto> v)) ls Map.empty"

fun zone_mismatch :: "label_Set \<Rightarrow> (string \<times> string) list \<Rightarrow> bool" where
  "zone_mismatch constraints [] = False"
| "zone_mismatch constraints ((k, v) # ls) =
     (if k \<noteq> LabelZoneFailureDomain \<and> k \<noteq> LabelZoneRegion then zone_mismatch constraints ls
      else if v \<noteq> (case constraints k of Some nodeV \<Rightarrow> nodeV | None \<Rightarrow> '''') then True
      else zone_mismatch constraints ls)"

fun zone_volumes ::
  "PersistentVolume getter \<Rightarrow> (string \<Rightarrow> PVClaim getter) \<Rightarrow> (string, string) go_range \<Rightarrow> label_Set \<Rightarrow> string
     \<Rightarrow> Volume list \<Rightarrow> fit option" where
  "zone_volumes pvs pvcs rng constraints namespace [] = Some (True, None)"
| "zone_volumes pvs pvcs rng constraints namespace (volume # volumes) =
     (case PersistentVolumeClaim volume of
        None \<Rightarrow> zone_volumes pvs pvcs rng constraints namespace volumes
      | Some pvcName \<Rightarrow>
          if pvcName = '''' then fit_err ''PersistentVolumeClaim had no name''
          else case pvcs namespace pvcName of
            Inl err \<Rightarrow> fit_err err
          | Inr None \<Rightarrow> fit_err ''PersistentVolumeClaim was not found''
          | Inr (Some pvc) \<Rightarrow>
              if VolumeName pvc = '''' then fit_err ''PersistentVolumeClaim is not bound''
              else case pvs (VolumeName pvc) of
                Inl err \<Rightarrow> fit_err err
              | Inr None \<Rightarrow> fit_err ''PersistentVolume not found''
              | Inr (Some pv) \<Rightarrow>
                  if zone_mismatch constraints (rng (pv_Labels pv)) then Some (False, None)
                  else zone_volumes pvs pvcs rng constraints namespace volumes)"

definition VolumeZone_predicate ::
  "Node getter \<Rightarrow> PersistentVolume getter \<Rightarrow> (string \<Rightarrow> PVClaim getter) \<Rightarrow> (string, string) go_range \<Rightarrow> FitPredicate" where
  "VolumeZone_predicate GetNodeInfo pvs pvcs rng pod nodeName nodeInfo h =
     (case GetNodeInfo nodeName of
        Inl err \<Rightarrow> fit_err err
      | Inr None \<Rightarrow> fit_err (''node not found: '' @ nodeName)
      | Inr (Some node) \<Rightarrow>
          let constraints = nodeConstraints (rng (n_Labels node))
          in if dom constraints = {} then Some (True, None)
             else zone_volumes pvs pvcs rng constraints (sp_Namespace pod) (Volumes pod))"

section \<open>Resources\<close>

record resourceRequest =
  rr_milliCPU :: int
  rr_memory :: int

definition getResourceRequest :: "SchedPod \<Rightarrow> resourceRequest" where
  "getResourceRequest pod =
     fold (\<lambda>container result.
         let requests = Requests container;
             result = result\<lparr>rr_memory := go_int (rr_memory result + Quantity_Value (rl_Memory requests))\<rparr>
         in result\<lparr>rr_milliCPU := go_int (rr_milliCPU result + MilliValue (rl_Cpu requests))\<rparr>)
       (Containers pod) \<lparr>rr_milliCPU = 0, rr_memory = 0\<rparr>"

record free_check =
  milliCPURequested :: int
  memoryRequested :: int
  fitting :: "SchedPod list"
  notFittingCPU :: "SchedPod list"
  notFittingMemory :: "SchedPod list"

definition check_free :: "int \<Rightarrow> int \<Rightarrow> SchedPod \<Rightarrow> free_check \<Rightarrow> free_check" where
  "check_free totalMilliCPU totalMemory pod s =
     (let podRequest = getResourceRequest pod;
          fitsCPU = (go_int (totalMilliCPU - milliCPURequested s) \<ge> rr_milliCPU podRequest);
          fitsMemory = (go_int (totalMemory - memoryRequested s) \<ge> rr_memory podRequest)
      in if \<not> fitsCPU then s\<lparr>notFittingCPU := notFittingCPU s @ [pod]\<rparr>
         else if \<not> fitsMemory then s\<lparr>notFittingMemory := notFittingMemory s @ [pod]\<rparr>
         else s\<lparr>milliCPURequested := go_int (milliCPURequested s + rr_milliCPU podRequest),
                memoryRequested := go_int (memoryRequested s + rr_memory podRequest),
                fitting := fitting s @ [pod]\<rparr>)"

definition CheckPodsExceedingFreeResources ::
  "SchedPod list \<Rightarrow> ResourceList \<Rightarrow> SchedPod list \<times> SchedPod list \<times> SchedPod list" where
  "CheckPodsExceedingFreeResources pods allocatable =
     (let s = fold (check_free (MilliValue (rl_Cpu allocatable)) (Quantity_Value (rl_Memory allocatable))) pods
            \<lparr>milliCPURequested = 0, memoryRequested = 0, fitting = [], notFittingCPU = [], notFittingMemory = []\<rparr>
      in (fitting s, notFittingCPU s, notFittingMemory s))"

definition insufficient :: "string \<Rightarrow> int \<Rightarrow> int \<Rightarrow> int \<Rightarrow> fit option" where
  "insufficient name requested used capacity =
     Some (False, Some (InsufficientResourceError name requested used capacity))"

definition PodFitsResources :: "Node getter \<Rightarrow> FitPredicate" where
  "PodFitsResources GetNodeInfo pod nodeName nodeInfo h =
     (case GetNodeInfo nodeName of
        Inl err \<Rightarrow> fit_err err
      | Inr None \<Rightarrow> None
      | Inr (Some info) \<Rightarrow>
          let allocatable = Allocatable info;
              allowedPodNumber = Quantity_Value (rl_Pods allocatable);
              numPods = int (length (ni_Pods nodeInfo))
          in if numPods + 1 > allowedPodNumber then insufficient podCountResourceName 1 numPods allowedPodNumber
             else let podRequest = getResourceRequest pod
               in if rr_milliCPU podRequest = 0 \<and> rr_memory podRequest = 0 then Some (True, None)
                  else let totalMilliCPU = MilliValue (rl_Cpu allocatable);
                           totalMemory = Quantity_Value (rl_Memory allocatable);
                           used = RequestedResource nodeInfo h
                    in if totalMilliCPU < go_int (rr_milliCPU podRequest + MilliCPU used)
                       then insufficient cpuResourceName (rr_milliCPU podRequest) (MilliCPU used) totalMilliCPU
                       else if totalMemory < go_int (rr_memory podRequest + Memory used)
                       then insufficient memoryResoureceName (rr_memory podRequest) (Memory used) totalMemory
                       else Some (True, None))"

section \<open>Labels of nodes\<close>

text \<open>The selector of nodes (\<^verbatim>\<open>pkg/api/types.go\<close>, \<^verbatim>\<open>pkg/api/helpers.go\<close>).\<close>

record NodeSelectorRequirement =
  nsr_Key :: string
  nsr_Operator :: string
  nsr_Values :: "string list"

type_synonym NodeSelectorTerm = "NodeSelectorRequirement list"

record PreferredSchedulingTerm =
  Weight :: int
  Preference :: NodeSelectorTerm

record NodeAffinity =
  RequiredTerms :: "NodeSelectorTerm list option"
  PreferredTerms :: "PreferredSchedulingTerm list"

type_synonym Affinity = "NodeAffinity option"

datatype node_selector_error = NotANodeSelectorOperator string | NodeRequirementError label_error

definition NodeSelectorOp :: "string \<Rightarrow> Operator option" where
  "NodeSelectorOp op =
     (if op = ''In'' then Some InOperator
      else if op = ''NotIn'' then Some NotInOperator
      else if op = ''Exists'' then Some ExistsOperator
      else if op = ''DoesNotExist'' then Some DoesNotExistOperator
      else if op = ''Gt'' then Some GreaterThanOperator
      else if op = ''Lt'' then Some LessThanOperator
      else None)"

fun addNodeRequirements ::
  "(string \<Rightarrow> 'f option) \<Rightarrow> sorter \<Rightarrow> NodeSelectorRequirement list \<Rightarrow> Selector \<Rightarrow> node_selector_error + Selector" where
  "addNodeRequirements pf srt [] selector = Inr selector"
| "addNodeRequirements pf srt (expr # nsm) selector =
     (case NodeSelectorOp (nsr_Operator expr) of
        None \<Rightarrow> Inl (NotANodeSelectorOperator (nsr_Operator expr))
      | Some op \<Rightarrow>
          (case NewRequirement pf (nsr_Key expr) op (sets_NewString (nsr_Values expr)) of
             Inl err \<Rightarrow> Inl (NodeRequirementError err)
           | Inr r \<Rightarrow> addNodeRequirements pf srt nsm (Selector_Add srt [r] selector)))"

definition NodeSelectorRequirementsAsSelector ::
  "(string \<Rightarrow> 'f option) \<Rightarrow> sorter \<Rightarrow> NodeSelectorRequirement list \<Rightarrow> node_selector_error + Selector" where
  "NodeSelectorRequirementsAsSelector pf srt nsm =
     (if length nsm = 0 then Inr Nothing else addNodeRequirements pf srt nsm NewSelector)"

definition AffinityAnnotationKey :: string where
  "AffinityAnnotationKey = ''scheduler.alpha.kubernetes.io/affinity''"

text \<open>\<open>json\<close> is the decoder of \<^verbatim>\<open>encoding/json\<close> for the type \<^verbatim>\<open>Affinity\<close>.\<close>

definition GetAffinityFromPodAnnotations ::
  "(string \<Rightarrow> go_error + Affinity) \<Rightarrow> (string \<rightharpoonup> string) \<Rightarrow> go_error + Affinity" where
  "GetAffinityFromPodAnnotations json annotations =
     (case annotations AffinityAnnotationKey of
        None \<Rightarrow> Inr None
      | Some data \<Rightarrow> if data \<noteq> '''' then json data else Inr None)"

fun nodeMatchesNodeSelectorTerms ::
  "(string \<Rightarrow> 'f option) \<Rightarrow> ('f \<Rightarrow> 'f \<Rightarrow> bool) \<Rightarrow> sorter \<Rightarrow> Node \<Rightarrow> NodeSelectorTerm list \<Rightarrow> bool" where
  "nodeMatchesNodeSelectorTerms pf gt srt node [] = False"
| "nodeMatchesNodeSelectorTerms pf gt srt node (req # terms) =
     (case NodeSelectorRequirementsAsSelector pf srt req of
        Inl err \<Rightarrow> False
      | Inr nodeSelector \<Rightarrow>
          if Selector_Matches pf gt nodeSelector (n_Labels node) then True
          else nodeMatchesNodeSelectorTerms pf gt srt node terms)"

definition PodMatchesNodeLabels ::
  "(string \<Rightarrow> 'f option) \<Rightarrow> ('f \<Rightarrow> 'f \<Rightarrow> bool) \<Rightarrow> sorter \<Rightarrow> (string, string) go_range \<Rightarrow> (string \<Rightarrow> go_error + Affinity)
     \<Rightarrow> SchedPod \<Rightarrow> Node \<Rightarrow> bool" where
  "PodMatchesNodeLabels pf gt srt rng json pod node =
     (if dom (sp_NodeSelector pod) \<noteq> {}
         \<and> \<not> Selector_Matches pf gt (SelectorFromSet pf srt rng (Some (sp_NodeSelector pod))) (n_Labels node) then False
      else case GetAffinityFromPodAnnotations json (sp_Annotations pod) of
        Inl err \<Rightarrow> False
      | Inr None \<Rightarrow> True
      | Inr (Some nodeAffinity) \<Rightarrow>
          (case RequiredTerms nodeAffinity of
             None \<Rightarrow> True
           | Some nodeSelectorTerms \<Rightarrow> nodeMatchesNodeSelectorTerms pf gt srt node nodeSelectorTerms))"

definition PodSelectorMatches ::
  "(string \<Rightarrow> 'f option) \<Rightarrow> ('f \<Rightarrow> 'f \<Rightarrow> bool) \<Rightarrow> sorter \<Rightarrow> (string, string) go_range \<Rightarrow> (string \<Rightarrow> go_error + Affinity)
     \<Rightarrow> Node getter \<Rightarrow> FitPredicate" where
  "PodSelectorMatches pf gt srt rng json GetNodeInfo pod nodeName nodeInfo h =
     (case GetNodeInfo nodeName of
        Inl err \<Rightarrow> fit_err err
      | Inr None \<Rightarrow> None
      | Inr (Some node) \<Rightarrow> Some (PodMatchesNodeLabels pf gt srt rng json pod node, None))"

definition PodFitsHost :: FitPredicate where
  "PodFitsHost pod nodeName nodeInfo h =
     (if length (sp_NodeName pod) = 0 then Some (True, None) else Some (sp_NodeName pod = nodeName, None))"

fun label_presence :: "label_Set \<Rightarrow> bool \<Rightarrow> string list \<Rightarrow> bool" where
  "label_presence nodeLabels presence [] = True"
| "label_presence nodeLabels presence (label # ls) =
     (let exists = Set_Has nodeLabels label
      in if (exists \<and> \<not> presence) \<or> (\<not> exists \<and> presence) then False else label_presence nodeLabels presence ls)"

definition CheckNodeLabelPresence :: "Node getter \<Rightarrow> string list \<Rightarrow> bool \<Rightarrow> FitPredicate" where
  "CheckNodeLabelPresence GetNodeInfo ls presence pod nodeName nodeInfo h =
     (case GetNodeInfo nodeName of
        Inl err \<Rightarrow> fit_err err
      | Inr None \<Rightarrow> None
      | Inr (Some node) \<Rightarrow> Some (label_presence (n_Labels node) presence ls, None))"

text \<open>
  \<^verbatim>\<open>CheckServiceAffinity\<close>: the labels the pod itself asks for, then the labels of the node of a pod
  of the same service.
\<close>

definition own_affinity :: "label_Set \<Rightarrow> string list \<Rightarrow> label_Set" where
  "own_affinity nodeSelector ls =
     fold (\<lambda>l m. if Set_Has nodeSelector l then m(l \<mapsto> Set_Get nodeSelector l) else m) ls Map.empty"

definition peer_affinity :: "label_Set \<Rightarrow> string list \<Rightarrow> label_Set \<Rightarrow> label_Set" where
  "peer_affinity otherLabels ls affinityLabels =
     fold (\<lambda>l m. if m l \<noteq> None then m
                 else if Set_Has otherLabels l then m(l \<mapsto> Set_Get otherLabels l) else m) ls affinityLabels"

definition serviceAffinityLabels ::
  "(string \<Rightarrow> 'f option) \<Rightarrow> sorter \<Rightarrow> (string, string) go_range
     \<Rightarrow> (Selector \<Rightarrow> go_error + SchedPod list) \<Rightarrow> (SchedPod \<Rightarrow> go_error + label_Set option list) \<Rightarrow> Node getter
     \<Rightarrow> string list \<Rightarrow> SchedPod \<Rightarrow> (go_error + label_Set) option" where
  "serviceAffinityLabels pf srt rng podList GetPodServices GetNodeInfo ls pod =
     (let nodeSelector = sp_NodeSelector pod;
          affinityLabels = own_affinity nodeSelector ls;
          labelsExist = list_all (Set_Has nodeSelector) ls
      in if labelsExist then Some (Inr affinityLabels)
         else case GetPodServices pod of
           Inl err \<Rightarrow> Some (Inr affinityLabels)
         | Inr [] \<Rightarrow> None
         | Inr (svc # _) \<Rightarrow>
             (case podList (SelectorFromSet pf srt rng svc) of
                Inl err \<Rightarrow> Some (Inl err)
              | Inr servicePods \<Rightarrow>
                  (case filter (\<lambda>nsPod. sp_Namespace nsPod = sp_Namespace pod) servicePods of
                     [] \<Rightarrow> Some (Inr affinityLabels)
                   | p # _ \<Rightarrow>
                       (case GetNodeInfo (sp_NodeName p) of
                          Inl err \<Rightarrow> Some (Inl err)
                        | Inr None \<Rightarrow> None
                        | Inr (Some otherNode) \<Rightarrow> Some (Inr (peer_affinity (n_Labels otherNode) ls affinityLabels))))))"

definition CheckServiceAffinity ::
  "(string \<Rightarrow> 'f option) \<Rightarrow> ('f \<Rightarrow> 'f \<Rightarrow> bool) \<Rightarrow> sorter \<Rightarrow> (string, string) go_range
     \<Rightarrow> (Selector \<Rightarrow> go_error + SchedPod list) \<Rightarrow> (SchedPod \<Rightarrow> go_error + label_Set option list) \<Rightarrow> Node getter
     \<Rightarrow> string list \<Rightarrow> FitPredicate" where
  "CheckServiceAffinity pf gt srt rng podList GetPodServices GetNodeInfo ls pod nodeName nodeInfo h =
     (case serviceAffinityLabels pf srt rng podList GetPodServices GetNodeInfo ls pod of
        None \<Rightarrow> None
      | Some (Inl err) \<Rightarrow> fit_err err
      | Some (Inr affinityLabels) \<Rightarrow>
          let affinitySelector = (if dom affinityLabels = {} then Everything else Set_AsSelector pf srt rng (Some affinityLabels))
          in (case GetNodeInfo nodeName of
                Inl err \<Rightarrow> fit_err err
              | Inr None \<Rightarrow> None
              | Inr (Some node) \<Rightarrow> Some (Selector_Matches pf gt affinitySelector (n_Labels node), None)))"

section \<open>Ports\<close>

definition getUsedPorts :: "SchedPod list \<Rightarrow> int set" where
  "getUsedPorts pods =
     fold (\<lambda>pod. fold (\<lambda>container. fold insert (HostPorts container)) (Containers pod)) pods {}"

definition PodFitsHostPorts :: FitPredicate where
  "PodFitsHostPorts pod nodeName nodeInfo h =
     (let wantPorts = getUsedPorts [pod]
      in if wantPorts = {} then Some (True, None)
         else let existingPorts = getUsedPorts (ni_Pods nodeInfo)
           in if \<exists>wport \<in> wantPorts. wport \<noteq> 0 \<and> wport \<in> existingPorts then Some (False, None) else Some (True, None))"


end
