(* ===== verification/Node_Labels.thy ===== *)
theory Node_Labels
  imports Predicates Label_Selectors
begin

text \<open>
  What the predicate on the labels of a node means: the node selector of the pod, and the terms that
  its affinity requires.
\<close>

definition node_expression_holds ::
  "(string \<Rightarrow> 'f option) \<Rightarrow> ('f \<Rightarrow> 'f \<Rightarrow> bool) \<Rightarrow> NodeSelectorRequirement \<Rightarrow> label_Set \<Rightarrow> bool" where
  "node_expression_holds pf gt e l \<longleftrightarrow> (\<exists>op. NodeSelectorOp (nsr_Operator e) = Some op
     \<and> requirement_holds pf gt op (set (nsr_Values e)) (l (nsr_Key e)))"

definition term_holds ::
  "(string \<Rightarrow> 'f option) \<Rightarrow> ('f \<Rightarrow> 'f \<Rightarrow> bool) \<Rightarrow> NodeSelectorTerm \<Rightarrow> label_Set \<Rightarrow> bool" where
  "term_holds pf gt t l \<longleftrightarrow> t \<noteq> [] \<and> (\<forall>e \<in> set t. node_expression_holds pf gt e l)"

lemma addNodeRequirements_match:
  assumes "sort_ok srt"
  shows "addNodeRequirements pf srt es s = Inr s' \<Longrightarrow>
    Selector_Matches pf gt s' l \<longleftrightarrow> Selector_Matches pf gt s l \<and> (\<forall>e \<in> set es. node_expression_holds pf gt e l)"
proof (induction es arbitrary: s)
  case (Cons e es)
  then obtain op r where r: "NodeSelectorOp (nsr_Operator e) = Some op"
    "NewRequirement pf (nsr_Key e) op (set (nsr_Values e)) = Inr r"
    and rest: "addNodeRequirements pf srt es (Selector_Add srt [r] s) = Inr s'"
    by (auto simp: sets_NewString_def split: sum.splits option.splits)
  have "Requirement_Matches pf gt r l \<longleftrightarrow> node_expression_holds pf gt e l"
    unfolding Requirement_Matches_valid [OF r(2)] by (simp add: node_expression_holds_def r(1))
  then show ?case
    using Cons.IH [OF rest] label_selector.add_conjoins [OF selector_laws [OF assms], of pf gt "[r]" s l] by auto
qed simp

lemma node_term_match:
  assumes "sort_ok srt" and "NodeSelectorRequirementsAsSelector pf srt t = Inr s"
  shows "Selector_Matches pf gt s l \<longleftrightarrow> term_holds pf gt t l"
  using assms(2) addNodeRequirements_match [OF assms(1), of pf t NewSelector s gt l]
  by (auto simp: NodeSelectorRequirementsAsSelector_def term_holds_def Nothing_def NewSelector_def split: if_splits)

text \<open>A term is well formed if each of its expressions has a known operator and makes a requirement.\<close>

definition term_well_formed :: "(string \<Rightarrow> 'f option) \<Rightarrow> NodeSelectorTerm \<Rightarrow> bool" where
  "term_well_formed pf t \<longleftrightarrow> (\<forall>e \<in> set t. \<exists>op r. NodeSelectorOp (nsr_Operator e) = Some op
     \<and> NewRequirement pf (nsr_Key e) op (set (nsr_Values e)) = Inr r)"

lemma addNodeRequirements_well_formed:
  "(\<exists>s'. addNodeRequirements pf srt es s = Inr s') \<longleftrightarrow> term_well_formed pf es"
  by (induction es arbitrary: s) (auto simp: term_well_formed_def sets_NewString_def split: sum.split option.split)

lemma node_term_well_formed:
  "(\<exists>s. NodeSelectorRequirementsAsSelector pf srt t = Inr s) \<longleftrightarrow> term_well_formed pf t"
  using addNodeRequirements_well_formed [of pf srt t NewSelector]
  by (auto simp: NodeSelectorRequirementsAsSelector_def term_well_formed_def)

lemma nodeMatchesNodeSelectorTerms_iff:
  assumes "sort_ok srt"
  shows "nodeMatchesNodeSelectorTerms pf gt srt node terms \<longleftrightarrow>
    (\<exists>t \<in> set (takeWhile (term_well_formed pf) terms). term_holds pf gt t (n_Labels node))"
proof (induction terms)
  case (Cons t terms)
  show ?case
  proof (cases "NodeSelectorRequirementsAsSelector pf srt t")
    case (Inl e)
    then have "\<not> term_well_formed pf t" using node_term_well_formed [of pf srt t] by simp
    then show ?thesis using Inl by simp
  next
    case (Inr s)
    then have "term_well_formed pf t" using node_term_well_formed [of pf srt t] by blast
    then show ?thesis using Inr Cons.IH node_term_match [OF assms Inr, of gt "n_Labels node"] by simp
  qed
qed simp

lemma SelectorFromSet_valid:
  assumes "sort_ok srt" and "go_range_ok rng" and "finite (dom ls)"
    and "\<forall>k v. ls k = Some v \<longrightarrow> IsQualifiedName k \<and> IsValidLabelValue v"
  shows "Selector_Matches pf gt (SelectorFromSet pf srt rng (Some ls)) l \<longleftrightarrow> ls \<subseteq>\<^sub>m l"
proof -
  have ent: "map_entries (rng ls) ls" by (rule go_rangeD [OF assms(2,3)])
  have valid: "\<forall>(k, v) \<in> set (rng ls). IsQualifiedName k \<and> IsValidLabelValue v"
    using assms(4) map_entries_mem [OF ent] by auto
  have "Selector_Matches pf gt (SelectorFromSet pf srt rng (Some ls)) l \<longleftrightarrow> (\<forall>(k, v) \<in> set (rng ls). l k = Some v)"
    unfolding SelectorFromSet_def
    by (simp add: SelectorFromSet_loop_valid [OF valid] requirements_match_iff sort_ok_set [OF assms(1)] case_prod_beta equals_single)
  also have "\<dots> \<longleftrightarrow> (\<forall>k v. ls k = Some v \<longrightarrow> l k = Some v)"
    unfolding map_entries_mem [OF ent, symmetric] by blast
  also have "\<dots> \<longleftrightarrow> ls \<subseteq>\<^sub>m l" by (auto simp: map_le_def dom_def)
  finally show ?thesis .
qed

lemma SelectorFromSet_loop_invalid:
  assumes "(k, v) \<in> set ls" and "\<not> IsQualifiedName k \<or> \<not> IsValidLabelValue v"
  shows "SelectorFromSet_loop pf ls rs = None"
  using assms(1)
proof (induction pf ls rs rule: SelectorFromSet_loop.induct)
  case (2 pf k1 v1 ls rs)
  show ?case
  proof (cases "NewRequirement pf k1 EqualsOperator {v1}")
    case (Inr r)
    then have "IsQualifiedName k1" "IsValidLabelValue v1" by (auto simp: NewRequirement_Inr)
    then have "(k, v) \<in> set ls" using "2.prems" assms(2) by auto
    then show ?thesis using "2.IH" Inr by (simp add: sets_NewString_def)
  qed (simp add: sets_NewString_def)
qed simp

definition labels_valid :: "label_Set \<Rightarrow> bool" where
  "labels_valid ls \<longleftrightarrow> (\<forall>k v. ls k = Some v \<longrightarrow> IsQualifiedName k \<and> IsValidLabelValue v)"

lemma SelectorFromSet_invalid:
  assumes "go_range_ok rng" and "finite (dom ls)" and "\<not> labels_valid ls"
  shows "Selector_Matches pf gt (SelectorFromSet pf srt rng (Some ls)) l"
proof -
  obtain k v where kv: "ls k = Some v" "\<not> IsQualifiedName k \<or> \<not> IsValidLabelValue v"
    using assms(3) by (auto simp: labels_valid_def)
  have "(k, v) \<in> set (rng ls)" using map_entries_mem [OF go_rangeD [OF assms(1,2)]] kv(1) by simp
  from SelectorFromSet_loop_invalid [OF this kv(2), of pf "[]"] show ?thesis by (simp add: SelectorFromSet_def)
qed

text \<open>
  C31: For every pod and node, whatever labels and terms the pod carries: the node matches exactly
  when it has every pair of the pod's node selector, or one pair of the selector is not a valid
  label, in which case the code ignores the whole selector; and, if the pod's affinity requires
  terms, one of the terms before the first that is not well formed is nonempty and has all its
  expressions true of the node's labels.  An affinity that cannot be decoded matches no node.
\<close>

theorem pod_matches_node_labels:
  assumes "sort_ok srt" and "go_range_ok rng" and "finite (dom (sp_NodeSelector pod))"
  shows "PodMatchesNodeLabels pf gt srt rng json pod node \<longleftrightarrow>
    (sp_NodeSelector pod \<subseteq>\<^sub>m n_Labels node \<or> \<not> labels_valid (sp_NodeSelector pod))
    \<and> (case GetAffinityFromPodAnnotations json (sp_Annotations pod) of
         Inl err \<Rightarrow> False
       | Inr None \<Rightarrow> True
       | Inr (Some na) \<Rightarrow>
           (case RequiredTerms na of
              None \<Rightarrow> True
            | Some terms \<Rightarrow> \<exists>t \<in> set (takeWhile (term_well_formed pf) terms). term_holds pf gt t (n_Labels node)))"
proof -
  have "dom (sp_NodeSelector pod) \<noteq> {}
      \<and> \<not> Selector_Matches pf gt (SelectorFromSet pf srt rng (Some (sp_NodeSelector pod))) (n_Labels node)
    \<longleftrightarrow> \<not> (sp_NodeSelector pod \<subseteq>\<^sub>m n_Labels node \<or> \<not> labels_valid (sp_NodeSelector pod))"
  proof (cases "labels_valid (sp_NodeSelector pod)")
    case True
    then show ?thesis
      using SelectorFromSet_valid [OF assms(1-3), where pf = pf and gt = gt and l = "n_Labels node"]
      by (auto simp: map_le_def labels_valid_def)
  next
    case False
    then show ?thesis using SelectorFromSet_invalid [OF assms(2,3) False] by blast
  qed
  then show ?thesis
    unfolding PodMatchesNodeLabels_def
    by (simp add: nodeMatchesNodeSelectorTerms_iff [OF assms(1)] split: sum.split option.split)
qed

text \<open>
  When one label of a pod's node selector is not valid, the whole selector is ignored: a pod
  that requires no affinity then matches every node, whatever the other labels ask for.
\<close>

theorem invalid_node_selector_is_ignored:
  assumes "go_range_ok rng" and "finite (dom (sp_NodeSelector pod))" and "sp_NodeSelector pod k = Some v"
    and "\<not> IsQualifiedName k \<or> \<not> IsValidLabelValue v" and "sp_Annotations pod AffinityAnnotationKey = None"
  shows "PodMatchesNodeLabels pf gt srt rng json pod node"
proof -
  have "(k, v) \<in> set (rng (sp_NodeSelector pod))"
    using map_entries_mem [OF go_rangeD [OF assms(1,2)]] assms(3) by simp
  from SelectorFromSet_loop_invalid [OF this assms(4), of pf "[]"] show ?thesis
    by (simp add: PodMatchesNodeLabels_def SelectorFromSet_def GetAffinityFromPodAnnotations_def assms(5))
qed

section \<open>Examples\<close>

definition selecting_pod :: "label_Set \<Rightarrow> (string \<rightharpoonup> string) \<Rightarrow> SchedPod" where
  "selecting_pod ls annotations = \<lparr>sp_Name = ''p'', sp_Namespace = ''ns'', sp_Labels = Map.empty,
     sp_Annotations = annotations, sp_NodeName = '''', sp_NodeSelector = ls, Containers = [], Volumes = []\<rparr>"

definition labelled_node :: "label_Set \<Rightarrow> Node" where
  "labelled_node ls = \<lparr>n_Name = ''n'', n_Labels = ls, Allocatable = Map.empty, Images = []\<rparr>"

definition web_affinity :: Affinity where
  "web_affinity = Some \<lparr>RequiredTerms = Some [[], [\<lparr>nsr_Key = ''app'', nsr_Operator = ''Exists'', nsr_Values = []\<rparr>]],
     PreferredTerms = []\<rparr>"

lemma valid_names: "IsQualifiedName ''app''" "IsValidLabelValue ''web''"
  using valid_example [of "\<lambda>_. None :: nat option" EqualsOperator]
  by (simp_all add: operatorValues_def sets_Len_def NewRequirement_Inr)

theorem pod_matches_node_labels_witness:
  "PodMatchesNodeLabels (\<lambda>_. None :: nat option) (>) (sort_key req_key) sorted_range (\<lambda>_. Inr web_affinity)
     (selecting_pod [''app'' \<mapsto> ''web''] [AffinityAnnotationKey \<mapsto> ''data'']) (labelled_node [''app'' \<mapsto> ''web''])
   \<and> \<not> PodMatchesNodeLabels (\<lambda>_. None :: nat option) (>) (sort_key req_key) sorted_range (\<lambda>_. Inr web_affinity)
     (selecting_pod [''app'' \<mapsto> ''web''] [AffinityAnnotationKey \<mapsto> ''data'']) (labelled_node [''app'' \<mapsto> ''db''])"
proof -
  let ?pf = "\<lambda>_. None :: nat option"
  let ?pod = "selecting_pod [''app'' \<mapsto> ''web''] [AffinityAnnotationKey \<mapsto> ''data'']"
  have affinity: "GetAffinityFromPodAnnotations (\<lambda>_. Inr web_affinity) (sp_Annotations ?pod) = Inr web_affinity"
    by (simp add: GetAffinityFromPodAnnotations_def selecting_pod_def)
  have wf: "term_well_formed ?pf [\<lparr>nsr_Key = ''app'', nsr_Operator = ''Exists'', nsr_Values = []\<rparr>]" "term_well_formed ?pf []"
    using valid_names
    by (auto simp: term_well_formed_def NodeSelectorOp_def NewRequirement_def
        validateLabelKey_def operatorValues_def sets_NewString_def sets_Len_def)
  have valid: "labels_valid (sp_NodeSelector ?pod)"
    by (simp add: labels_valid_def selecting_pod_def valid_names)
  have fin: "finite (dom (sp_NodeSelector ?pod))" by (simp add: selecting_pod_def)
  have "term_holds ?pf (>) [\<lparr>nsr_Key = ''app'', nsr_Operator = ''Exists'', nsr_Values = []\<rparr>] [''app'' \<mapsto> ''web'']"
    by (simp add: term_holds_def node_expression_holds_def NodeSelectorOp_def)
  moreover note pod_matches_node_labels [OF sort_ok_sort_key sorted_range_ok fin, of ?pf "(>)" "\<lambda>_. Inr web_affinity",
      unfolded affinity]
  ultimately show ?thesis
    using wf valid by (simp add: selecting_pod_def labelled_node_def web_affinity_def map_le_def)
qed

theorem invalid_node_selector_is_ignored_witness:
  "PodMatchesNodeLabels (\<lambda>_. None :: nat option) (>) (sort_key req_key) sorted_range (\<lambda>_. Inl ''never called'')
     (selecting_pod [''app'' \<mapsto> ''web'', ''a b'' \<mapsto> ''x''] Map.empty) (labelled_node Map.empty)"
proof -
  have "\<not> IsQualifiedName ''a b''"
    by (simp add: IsQualifiedName_def MatchString_QualifiedName bounded_by_def qnameExtCharFmt_def
        az_def AZ_def digit09_def)
  then show ?thesis
    by (intro invalid_node_selector_is_ignored [OF sorted_range_ok, of _ "''a b''" "''x''"]) (simp_all add: selecting_pod_def)
qed

end
