(* ===== verification/Generic_Scheduler.thy ===== *)
theory Generic_Scheduler
  imports Predicates
begin

text \<open>
  \<^verbatim>\<open>plugin/pkg/scheduler/generic_scheduler.go\<close>: filter the nodes by the predicates, add up the scores
  of those that fit, and pick one of the best.

  What a run leaves open is a record of the definitions: the orders in which the maps are ranged
  over, the order in which the goroutines of the priority functions finish, how many of them have
  finished when the errors are looked at, and the random number.  An \<^verbatim>\<open>int\<close> has 64 bits.
\<close>

record HostPriority =
  Host :: string
  Score :: int

type_synonym PriorityFunction =
  "SchedPod \<Rightarrow> (string \<rightharpoonup> NodeInfo) \<Rightarrow> memory \<Rightarrow> go_error + Node list \<Rightarrow> go_error + HostPriority list"

record PriorityConfig =
  pc_Function :: PriorityFunction
  pc_Weight :: int

text \<open>The extenders are other processes: what they answer.\<close>

record SchedulerExtender =
  ext_Filter :: "SchedPod \<Rightarrow> Node list \<Rightarrow> go_error + Node list"
  ext_Prioritize :: "SchedPod \<Rightarrow> Node list \<Rightarrow> go_error + HostPriority list \<times> int"

type_synonym FailedPredicateMap = "string \<rightharpoonup> string set"

datatype sched_error =
  SchedErr go_error | ErrNoNodesAvailable | FitError SchedPod FailedPredicateMap | Aggregate "go_error list"

record sched_choices =
  predicate_range :: "Node \<Rightarrow> (string, FitPredicate) go_range"
  priority_order :: "PriorityConfig list \<Rightarrow> PriorityConfig list"
  finished_at_check :: nat
  extender_order :: "SchedulerExtender list \<Rightarrow> SchedulerExtender list"
  score_range :: "(string, int) go_range"
  random_Int :: nat

record genericScheduler =
  predicates :: "string \<rightharpoonup> FitPredicate"
  prioritizers :: "PriorityConfig list"
  extenders :: "SchedulerExtender list"
  gs_pods :: "go_error + SchedPod list" \<comment> \<open>what the lister of pods answers\<close>

section \<open>Filtering\<close>

text \<open>
  The inner loop, for one node: an error, or the reason that is recorded when it does not fit.
\<close>

fun try_predicates ::
  "(string \<times> FitPredicate) list \<Rightarrow> SchedPod \<Rightarrow> string \<Rightarrow> NodeInfo option \<Rightarrow> memory \<Rightarrow> (go_error + string option) option" where
  "try_predicates [] pod nodeName nodeInfo h = Some (Inr None)"
| "try_predicates ((name, predicate) # ps) pod nodeName nodeInfo h =
     (case predicate pod nodeName nodeInfo h of
        None \<Rightarrow> None
      | Some (fit, Some (FitErr err)) \<Rightarrow> Some (Inl err)
      | Some (fit, Some (InsufficientResourceError r requested used capacity)) \<Rightarrow>
          (let e = InsufficientResourceError r requested used capacity
           in if fit
              then Some (Inl (''got InsufficientResourceError: '' @ fit_error_Error e @ '', but also fit='true' which is unexpected''))
              else Some (Inr (Some (fit_error_Error e))))
      | Some (fit, None) \<Rightarrow>
          if \<not> fit then Some (Inr (Some name)) else try_predicates ps pod nodeName nodeInfo h)"

fun filter_nodes ::
  "(Node \<Rightarrow> (string, FitPredicate) go_range) \<Rightarrow> SchedPod \<Rightarrow> (string \<rightharpoonup> NodeInfo) \<Rightarrow> memory \<Rightarrow> (string \<rightharpoonup> FitPredicate)
     \<Rightarrow> Node list \<Rightarrow> Node list \<Rightarrow> FailedPredicateMap \<Rightarrow> (go_error + Node list \<times> FailedPredicateMap) option" where
  "filter_nodes rng pod nodeNameToInfo h predicateFuncs [] filtered failedPredicateMap =
     Some (Inr (filtered, failedPredicateMap))"
| "filter_nodes rng pod nodeNameToInfo h predicateFuncs (node # nodes) filtered failedPredicateMap =
     (case try_predicates (rng node predicateFuncs) pod (n_Name node) (nodeNameToInfo (n_Name node)) h of
        None \<Rightarrow> None
      | Some (Inl err) \<Rightarrow> Some (Inl err)
      | Some (Inr None) \<Rightarrow> filter_nodes rng pod nodeNameToInfo h predicateFuncs nodes (filtered @ [node]) failedPredicateMap
      | Some (Inr (Some reason)) \<Rightarrow>
          filter_nodes rng pod nodeNameToInfo h predicateFuncs nodes filtered
            (failedPredicateMap(n_Name node \<mapsto>
               insert reason (case failedPredicateMap (n_Name node) of None \<Rightarrow> {} | Some s \<Rightarrow> s))))"

fun extender_filters :: "SchedulerExtender list \<Rightarrow> SchedPod \<Rightarrow> Node list \<Rightarrow> go_error + Node list" where
  "extender_filters [] pod filtered = Inr filtered"
| "extender_filters (ext # exts) pod filtered =
     (case ext_Filter ext pod filtered of
        Inl err \<Rightarrow> Inl err
      | Inr filtered \<Rightarrow> if length filtered = 0 then Inr filtered else extender_filters exts pod filtered)"

definition findNodesThatFit ::
  "(Node \<Rightarrow> (string, FitPredicate) go_range) \<Rightarrow> SchedPod \<Rightarrow> (string \<rightharpoonup> NodeInfo) \<Rightarrow> memory \<Rightarrow> (string \<rightharpoonup> FitPredicate)
     \<Rightarrow> Node list \<Rightarrow> SchedulerExtender list \<Rightarrow> (go_error + Node list \<times> FailedPredicateMap) option" where
  "findNodesThatFit rng pod nodeNameToInfo h predicateFuncs nodes exts =
     (case filter_nodes rng pod nodeNameToInfo h predicateFuncs nodes [] Map.empty of
        None \<Rightarrow> None
      | Some (Inl err) \<Rightarrow> Some (Inl err)
      | Some (Inr (filtered, failedPredicateMap)) \<Rightarrow>
          if length filtered > 0 \<and> length exts \<noteq> 0
          then (case extender_filters exts pod filtered of
                  Inl err \<Rightarrow> Some (Inl err)
                | Inr filtered \<Rightarrow> Some (Inr (filtered, failedPredicateMap)))
          else Some (Inr (filtered, failedPredicateMap)))"

section \<open>Scoring\<close>

definition EqualPriority :: PriorityFunction where
  "EqualPriority pod nodeNameToInfo h nodeLister =
     (case nodeLister of
        Inl err \<Rightarrow> Inl err
      | Inr nodes \<Rightarrow> Inr (map (\<lambda>node. \<lparr>Host = n_Name node, Score = 1\<rparr>) nodes))"

definition add_scores :: "int \<Rightarrow> HostPriority list \<Rightarrow> (string \<rightharpoonup> int) \<Rightarrow> (string \<rightharpoonup> int)" where
  "add_scores weight l combinedScores =
     fold (\<lambda>e m. m(Host e \<mapsto> go_int ((case m (Host e) of None \<Rightarrow> 0 | Some x \<Rightarrow> x) + go_int (Score e * weight))))
       l combinedScores"

text \<open>One goroutine, from its start to its end: the critical sections exclude each other.\<close>

definition run_priority ::
  "SchedPod \<Rightarrow> (string \<rightharpoonup> NodeInfo) \<Rightarrow> memory \<Rightarrow> go_error + Node list \<Rightarrow> PriorityConfig
     \<Rightarrow> go_error list \<times> (string \<rightharpoonup> int) \<Rightarrow> go_error list \<times> (string \<rightharpoonup> int)" where
  "run_priority pod nodeNameToInfo h nodeLister config s =
     (case s of (errs, combinedScores) \<Rightarrow>
        (case pc_Function config pod nodeNameToInfo h nodeLister of
           Inl err \<Rightarrow> (errs @ [err], combinedScores)
         | Inr prioritizedList \<Rightarrow> (errs, add_scores (pc_Weight config) prioritizedList combinedScores)))"

definition run_extender ::
  "SchedPod \<Rightarrow> Node list \<Rightarrow> SchedulerExtender \<Rightarrow> (string \<rightharpoonup> int) \<Rightarrow> (string \<rightharpoonup> int)" where
  "run_extender pod nodes ext combinedScores =
     (case ext_Prioritize ext pod nodes of
        Inl err \<Rightarrow> combinedScores
      | Inr (prioritizedList, weight) \<Rightarrow> add_scores weight prioritizedList combinedScores)"

definition PrioritizeNodes ::
  "sched_choices \<Rightarrow> SchedPod \<Rightarrow> (string \<rightharpoonup> NodeInfo) \<Rightarrow> memory \<Rightarrow> PriorityConfig list \<Rightarrow> go_error + Node list
     \<Rightarrow> SchedulerExtender list \<Rightarrow> sched_error + HostPriority list" where
  "PrioritizeNodes ch pod nodeNameToInfo h priorityConfigs nodeLister exts =
     (if length priorityConfigs = 0 \<and> length exts = 0
      then (case EqualPriority pod nodeNameToInfo h nodeLister of Inl err \<Rightarrow> Inl (SchedErr err) | Inr l \<Rightarrow> Inr l)
      else let finished = priority_order ch (filter (\<lambda>config. pc_Weight config \<noteq> 0) priorityConfigs);
               run = run_priority pod nodeNameToInfo h nodeLister;
               errs = fst (fold run (take (finished_at_check ch) finished) ([], Map.empty))
           in if length errs \<noteq> 0 then Inl (Aggregate errs)
              else let combinedScores = snd (fold run finished ([], Map.empty));
                       scores = (if length exts \<noteq> 0
                                 then (case nodeLister of
                                         Inl err \<Rightarrow> Inl (SchedErr err)
                                       | Inr nodes \<Rightarrow>
                                           Inr (fold (run_extender pod nodes) (extender_order ch exts) combinedScores))
                                 else Inr combinedScores)
                   in (case scores of
                         Inl err \<Rightarrow> Inl err
                       | Inr combinedScores \<Rightarrow>
                           Inr (map (\<lambda>(host, score). \<lparr>Host = host, Score = score\<rparr>) (score_range ch combinedScores))))"

section \<open>Choosing\<close>

definition select_step :: "nat \<times> HostPriority \<Rightarrow> int \<times> nat list \<Rightarrow> int \<times> nat list" where
  "select_step x s =
     (case (x, s) of ((i, entry), (maxScore, idx)) \<Rightarrow>
        if Score entry > maxScore then (Score entry, [i])
        else if Score entry = maxScore then (maxScore, idx @ [i])
        else (maxScore, idx))"

definition selectHost :: "nat \<Rightarrow> HostPriority list \<Rightarrow> sched_error + string" where
  "selectHost rand priorityList =
     (if length priorityList = 0 then Inl (SchedErr ''empty priorityList'')
      else let idx = snd (fold select_step (enumerate 0 priorityList) (Score (priorityList ! 0), []));
               ix = rand mod length idx
           in Inr (Host (priorityList ! (idx ! ix))))"

section \<open>Scheduling\<close>

definition Schedule ::
  "genericScheduler \<Rightarrow> sched_choices \<Rightarrow> SchedPod \<Rightarrow> go_error + Node list \<Rightarrow> (sched_error + string) option" where
  "Schedule g ch pod nodeLister =
     (case nodeLister of
        Inl err \<Rightarrow> Some (Inl (SchedErr err))
      | Inr nodes \<Rightarrow>
          if length nodes = 0 then Some (Inl ErrNoNodesAvailable)
          else case gs_pods g of
            Inl err \<Rightarrow> Some (Inl (SchedErr err))
          | Inr pods \<Rightarrow>
              (case CreateNodeNameToInfoMap pods [] of (nodeNameToInfo, h) \<Rightarrow>
                 (case findNodesThatFit (predicate_range ch) pod nodeNameToInfo h (predicates g) nodes (extenders g) of
                    None \<Rightarrow> None
                  | Some (Inl err) \<Rightarrow> Some (Inl (SchedErr err))
                  | Some (Inr (filteredNodes, failedPredicateMap)) \<Rightarrow>
                      if length filteredNodes = 0 then Some (Inl (FitError pod failedPredicateMap))
                      else case PrioritizeNodes ch pod nodeNameToInfo h (prioritizers g) (Inr filteredNodes) (extenders g) of
                        Inl err \<Rightarrow> Some (Inl err)
                      | Inr priorityList \<Rightarrow> Some (selectHost (random_Int ch) priorityList))))"

section \<open>One round\<close>

text \<open>
  \<^verbatim>\<open>scheduler.go\<close>: schedule the next pod, bind it, and assume that the binding took effect.  \<open>Bind\<close>
  is the call to the API server, of the pod's namespace and name and the node; the effect says
  which of the callbacks is called in the end.
\<close>

datatype sched_effect =
    SchedulingFailed SchedPod sched_error
  | BindingRejected SchedPod go_error
  | AssumePod SchedPod

definition scheduleOne ::
  "genericScheduler \<Rightarrow> sched_choices \<Rightarrow> SchedPod \<Rightarrow> go_error + Node list
     \<Rightarrow> (string \<Rightarrow> string \<Rightarrow> string \<Rightarrow> go_error option) \<Rightarrow> sched_effect option" where
  "scheduleOne g ch pod nodeLister Bind =
     (case Schedule g ch pod nodeLister of
        None \<Rightarrow> None
      | Some (Inl err) \<Rightarrow> Some (SchedulingFailed pod err)
      | Some (Inr dest) \<Rightarrow>
          (case Bind (sp_Namespace pod) (sp_Name pod) dest of
             Some err \<Rightarrow> Some (BindingRejected pod err)
           | None \<Rightarrow> Some (AssumePod (pod\<lparr>sp_NodeName := dest\<rparr>))))"

end
