(* ===== verification/Priorities.thy ===== *)
theory Priorities
  imports Generic_Scheduler
begin

text \<open>
  \<^verbatim>\<open>plugin/pkg/scheduler/algorithm/priorities\<close>: the functions that score the nodes a pod fits on, as
  far as they compute with integers; those that compute with floating-point numbers follow in
  \<^verbatim>\<open>Priorities_Float\<close>.

  All scores are on a scale of 0 to 10; the integers have 64 bits, and \<open>sdiv\<close> is the division of Go.
\<close>

section \<open>Least requested\<close>

definition calculateScore :: "int \<Rightarrow> int \<Rightarrow> int" where
  "calculateScore req capacity =
     (if capacity = 0 then 0
      else if req > capacity then 0
      else go_int (go_int (go_int (capacity - req) * 10) sdiv capacity))"

text \<open>The two loops over containers, of the pods on the node and of the pod itself.\<close>

definition add_nonzero :: "Container \<Rightarrow> int \<times> int \<Rightarrow> int \<times> int" where
  "add_nonzero container s =
     (case s of (totalMilliCPU, totalMemory) \<Rightarrow>
        (case GetNonzeroRequests (Requests container) of (cpu, memory) \<Rightarrow>
           (go_int (totalMilliCPU + cpu), go_int (totalMemory + memory))))"

definition calculateResourceOccupancy :: "SchedPod \<Rightarrow> Node \<Rightarrow> SchedPod list \<Rightarrow> HostPriority" where
  "calculateResourceOccupancy pod node pods =
     (let capacityMilliCPU = MilliValue (rl_Cpu (Allocatable node));
          capacityMemory = Quantity_Value (rl_Memory (Allocatable node));
          totals = fold (\<lambda>existingPod. fold add_nonzero (Containers existingPod)) pods (0, 0);
          (totalMilliCPU, totalMemory) = fold add_nonzero (Containers pod) totals;
          cpuScore = calculateScore totalMilliCPU capacityMilliCPU;
          memoryScore = calculateScore totalMemory capacityMemory
      in \<lparr>Host = n_Name node, Score = go_int (cpuScore + memoryScore) sdiv 2\<rparr>)"

definition LeastRequestedPriority :: PriorityFunction where
  "LeastRequestedPriority pod nodeNameToInfo h nodeLister =
     (case nodeLister of
        Inl err \<Rightarrow> Inl err
      | Inr nodes \<Rightarrow>
          Inr (map (\<lambda>node. calculateResourceOccupancy pod node (ni_Pods (nodeNameToInfo (n_Name node)))) nodes))"

section \<open>Labels\<close>

definition CalculateNodeLabelPriority :: "(string, bool) go_range \<Rightarrow> string \<Rightarrow> bool \<Rightarrow> PriorityFunction" where
  "CalculateNodeLabelPriority rng label presence pod nodeNameToInfo h nodeLister =
     (case nodeLister of
        Inl err \<Rightarrow> Inl err
      | Inr nodes \<Rightarrow>
          let labeledNodes = fold (\<lambda>node m.
                let exists = Set_Has (n_Labels node) label
                in m(n_Name node \<mapsto> (exists \<and> presence) \<or> (\<not> exists \<and> \<not> presence))) nodes Map.empty
          in Inr (map (\<lambda>(nodeName, success). \<lparr>Host = nodeName, Score = if success then 10 else 0\<rparr>) (rng labeledNodes)))"

section \<open>Images\<close>

definition minImgSize :: int where "minImgSize = 23 * (1024 * 1024)"
definition maxImgSize :: int where "maxImgSize = 1000 * (1024 * 1024)"

fun image_size :: "ContainerImage list \<Rightarrow> string \<Rightarrow> int" where
  "image_size [] img = 0"
| "image_size (i # images) img =
     (if list_ex (\<lambda>name. img = name) (Names i) then SizeBytes i else image_size images img)"

definition checkContainerImageOnNode :: "Node \<Rightarrow> Container \<Rightarrow> int" where
  "checkContainerImageOnNode node container = image_size (Images node) (Image container)"

definition calculateScoreFromSize :: "int \<Rightarrow> int" where
  "calculateScoreFromSize sumSize =
     (if sumSize = 0 \<or> sumSize < minImgSize then 0
      else if sumSize \<ge> maxImgSize then 10
      else go_int (go_int (10 * go_int (sumSize - minImgSize)) sdiv go_int (maxImgSize - minImgSize) + 1))"

definition ImageLocalityPriority :: "(string, int) go_range \<Rightarrow> PriorityFunction" where
  "ImageLocalityPriority rng pod nodeNameToInfo h nodeLister =
     (case nodeLister of
        Inl err \<Rightarrow> Inl err
      | Inr nodes \<Rightarrow>
          let sumSizeMap = fold (\<lambda>container. fold (\<lambda>node m.
                let imageSize = checkContainerImageOnNode node container
                in m(n_Name node \<mapsto> go_int ((case m (n_Name node) of None \<Rightarrow> 0 | Some x \<Rightarrow> x) + imageSize))) nodes)
                (Containers pod) Map.empty
          in Inr (map (\<lambda>(nodeName, sumSize). \<lparr>Host = nodeName, Score = calculateScoreFromSize sumSize\<rparr>) (rng sumSizeMap)))"

section \<open>The scores are on the scale\<close>

lemma sdiv_nonneg: "0 \<le> a \<Longrightarrow> 0 < b \<Longrightarrow> a sdiv b = a div (b::int)"
  by (cases "a = 0") (simp_all add: signed_divide_int_def)

lemma score_in_range:
  assumes "0 < (cap::int)" and "0 \<le> x" and "x \<le> cap"
  shows "0 \<le> x * 10 div cap" and "x * 10 div cap \<le> 10"
proof -
  show "0 \<le> x * 10 div cap" using assms by (simp add: pos_imp_zdiv_nonneg_iff)
  have "x * 10 div cap \<le> (10 * cap) div cap" using assms by (intro zdiv_mono1) auto
  then show "x * 10 div cap \<le> 10" using assms(1) by simp
qed

lemma calculateScore_value:
  assumes "0 \<le> r" and "0 \<le> cap" and "cap < 2 ^ 59"
  shows "calculateScore r cap = (if cap = 0 \<or> cap < r then 0 else (cap - r) * 10 div cap)"
proof (cases "cap = 0 \<or> cap < r")
  case False
  then have c: "0 < cap" "r \<le> cap" using assms by auto
  then have "go_int (cap - r) = cap - r" "go_int ((cap - r) * 10) = (cap - r) * 10"
    using assms by (intro go_int_id; simp)+
  moreover have "(cap - r) * 10 sdiv cap = (cap - r) * 10 div cap"
    using c by (intro sdiv_nonneg) auto
  moreover have "go_int ((cap - r) * 10 div cap) = (cap - r) * 10 div cap"
    using score_in_range [OF c(1), of "cap - r"] c assms by (intro go_int_id) auto
  ultimately show ?thesis using False by (simp add: calculateScore_def)
qed (auto simp: calculateScore_def)

lemma calculateScore_range: "0 \<le> r \<Longrightarrow> 0 \<le> cap \<Longrightarrow> cap < 2 ^ 59 \<Longrightarrow> calculateScore r cap \<in> {0..10}"
  using score_in_range [of cap "cap - r"] by (auto simp: calculateScore_value)

lemma calculateScore_antimono:
  assumes "0 \<le> r" and "r \<le> r'" and "0 \<le> cap" and "cap < 2 ^ 59"
  shows "calculateScore r' cap \<le> calculateScore r cap"
proof (cases "cap = 0 \<or> cap < r'")
  case True
  then show ?thesis using assms calculateScore_range [of r cap] by (auto simp: calculateScore_value [of r' cap])
next
  case False
  then show ?thesis using assms by (auto simp: calculateScore_value intro!: zdiv_mono1)
qed

lemma calculateScoreFromSize_value:
  "calculateScoreFromSize s =
    (if s < minImgSize then 0 else if s \<ge> maxImgSize then 10 else 10 * (s - minImgSize) div (maxImgSize - minImgSize) + 1)"
proof -
  have "calculateScoreFromSize s = 10 * (s - minImgSize) div (maxImgSize - minImgSize) + 1"
    if "\<not> s < minImgSize" "\<not> s \<ge> maxImgSize"
  proof -
    have m: "minImgSize \<le> s" "s < maxImgSize" "minImgSize = 24117248" "maxImgSize = 1048576000"
      using that by (simp_all add: minImgSize_def maxImgSize_def)
    then have "go_int (s - minImgSize) = s - minImgSize" "go_int (10 * (s - minImgSize)) = 10 * (s - minImgSize)"
      "go_int (maxImgSize - minImgSize) = maxImgSize - minImgSize"
      by (intro go_int_id; simp)+
    moreover have "10 * (s - minImgSize) sdiv (maxImgSize - minImgSize) = 10 * (s - minImgSize) div (maxImgSize - minImgSize)"
      using m by (intro sdiv_nonneg) auto
    moreover have "0 \<le> 10 * (s - minImgSize) div (maxImgSize - minImgSize)"
      "10 * (s - minImgSize) div (maxImgSize - minImgSize) < 10"
      using m(1,2) unfolding m(3,4) by (simp_all add: pos_imp_zdiv_nonneg_iff)
    ultimately show ?thesis using that m by (simp add: calculateScoreFromSize_def go_int_id)
  qed
  moreover have "0 < minImgSize" by (simp add: minImgSize_def)
  ultimately show ?thesis by (auto simp: calculateScoreFromSize_def)
qed

text \<open>
  The score of a node for the images it has is on the scale from 0 to 10, does not fall
  when the images are larger, and follows the buckets: 0 below 23 MB, 10 from 1000 MB on, and
  between them one tenth of the range per point, starting with 1.
\<close>

theorem image_locality_score:
  "calculateScoreFromSize s \<in> {0..10}
   \<and> calculateScoreFromSize s \<le> calculateScoreFromSize (max s t)
   \<and> calculateScoreFromSize s =
      (if s < minImgSize then 0 else if s \<ge> maxImgSize then 10 else 10 * (s - minImgSize) div (maxImgSize - minImgSize) + 1)"
proof -
  have m: "minImgSize = 24117248" "maxImgSize = 1048576000" by (simp_all add: minImgSize_def maxImgSize_def)
  have range: "calculateScoreFromSize s \<in> {0..10}" for s
    unfolding calculateScoreFromSize_value m by (auto simp: pos_imp_zdiv_nonneg_iff)
  have "calculateScoreFromSize s \<le> calculateScoreFromSize t" if "s \<le> t" for s t
  proof (cases "s < minImgSize \<or> t \<ge> maxImgSize")
    case True
    then show ?thesis using range [of s] range [of t] that by (auto simp: calculateScoreFromSize_value [of s] calculateScoreFromSize_value [of t])
  next
    case False
    have "10 * (s - minImgSize) div (maxImgSize - minImgSize) \<le> 10 * (t - minImgSize) div (maxImgSize - minImgSize)"
      using that by (intro zdiv_mono1) (simp_all add: m)
    then show ?thesis using False that by (auto simp: calculateScoreFromSize_value)
  qed
  then have "calculateScoreFromSize s \<le> calculateScoreFromSize (max s t)" by simp
  then show ?thesis using range [of s] calculateScoreFromSize_value [of s] by blast
qed

section \<open>The score for least requested resources\<close>

definition nonzero_sum :: "(int \<times> int \<Rightarrow> int) \<Rightarrow> SchedPod list \<Rightarrow> int" where
  "nonzero_sum f pods = (\<Sum>p\<leftarrow>pods. \<Sum>c\<leftarrow>Containers p. f (GetNonzeroRequests (Requests c)))"

lemma nonzero_sum_append [simp]: "nonzero_sum f (ps @ qs) = nonzero_sum f ps + nonzero_sum f qs"
  by (simp add: nonzero_sum_def)

lemma go_int_plus [simp]: "go_int (go_int a + b) = go_int (a + b)"
  unfolding go_int_def by (metis signed_take_bit_add signed_take_bit_signed_take_bit min.idem)

lemma add_nonzero_fold:
  "fold add_nonzero cs (go_int a, go_int b) =
    (go_int (a + (\<Sum>c\<leftarrow>cs. fst (GetNonzeroRequests (Requests c)))), go_int (b + (\<Sum>c\<leftarrow>cs. snd (GetNonzeroRequests (Requests c)))))"
proof (induction cs arbitrary: a b)
  case (Cons c cs)
  have "add_nonzero c (go_int a, go_int b)
      = (go_int (a + fst (GetNonzeroRequests (Requests c))), go_int (b + snd (GetNonzeroRequests (Requests c))))"
    by (simp add: add_nonzero_def split: prod.split)
  then show ?case by (simp add: Cons.IH add.assoc)
qed simp

lemma add_nonzero_fold_pods:
  "fold (\<lambda>p. fold add_nonzero (Containers p)) ps (go_int a, go_int b) =
    (go_int (a + nonzero_sum fst ps), go_int (b + nonzero_sum snd ps))"
  by (induction ps arbitrary: a b) (simp_all add: add_nonzero_fold nonzero_sum_def add.assoc)

lemma calculateResourceOccupancy_sums:
  "calculateResourceOccupancy pod node pods =
    \<lparr>Host = n_Name node,
     Score = go_int (calculateScore (go_int (nonzero_sum fst (pods @ [pod]))) (MilliValue (rl_Cpu (Allocatable node)))
       + calculateScore (go_int (nonzero_sum snd (pods @ [pod]))) (Quantity_Value (rl_Memory (Allocatable node)))) sdiv 2\<rparr>"
proof -
  have "(0, 0) = (go_int 0, go_int 0)" by (simp add: go_int_id)
  then have "fold (\<lambda>p. fold add_nonzero (Containers p)) pods (0, 0) = (go_int (nonzero_sum fst pods), go_int (nonzero_sum snd pods))"
    using add_nonzero_fold_pods [of pods 0 0] by simp
  then show ?thesis
    by (simp add: calculateResourceOccupancy_def Let_def add_nonzero_fold nonzero_sum_def)
qed

text \<open>The capacity of a node and the sums of the requests, in the range where nothing overflows.\<close>

definition occupancy_ok :: "Node \<Rightarrow> SchedPod list \<Rightarrow> bool" where
  "occupancy_ok node pods \<longleftrightarrow>
     MilliValue (rl_Cpu (Allocatable node)) \<in> {0..<2 ^ 59} \<and> Quantity_Value (rl_Memory (Allocatable node)) \<in> {0..<2 ^ 59}
     \<and> (\<forall>p \<in> set pods. \<forall>c \<in> set (Containers p). 0 \<le> fst (GetNonzeroRequests (Requests c)) \<and> 0 \<le> snd (GetNonzeroRequests (Requests c)))
     \<and> nonzero_sum fst pods < 2 ^ 63 \<and> nonzero_sum snd pods < 2 ^ 63"

lemma nonzero_sum_pods_nonneg:
  assumes "\<forall>p \<in> set pods. \<forall>c \<in> set (Containers p). 0 \<le> f (GetNonzeroRequests (Requests c))"
  shows "0 \<le> nonzero_sum f pods"
  unfolding nonzero_sum_def using assms by (auto intro!: sum_list_nonneg)

lemma nonzero_sum_nonneg:
  assumes "occupancy_ok node pods" and "set ps \<subseteq> set pods"
  shows "0 \<le> nonzero_sum fst ps" and "0 \<le> nonzero_sum snd ps"
  using assms unfolding occupancy_ok_def by (blast intro: nonzero_sum_pods_nonneg)+

lemma occupancy_ok_less:
  assumes "occupancy_ok node (pods @ extra @ [pod])"
  shows "occupancy_ok node (pods @ [pod])"
proof -
  have "0 \<le> nonzero_sum fst extra" "0 \<le> nonzero_sum snd extra"
    using nonzero_sum_nonneg [OF assms, of extra] by auto
  then show ?thesis using assms unfolding occupancy_ok_def by (simp add: ball_Un)
qed

lemma occupancy_score:
  assumes "occupancy_ok node (pods @ [pod])"
  shows "Score (calculateResourceOccupancy pod node pods) =
    (calculateScore (nonzero_sum fst (pods @ [pod])) (MilliValue (rl_Cpu (Allocatable node)))
      + calculateScore (nonzero_sum snd (pods @ [pod])) (Quantity_Value (rl_Memory (Allocatable node)))) div 2"
    and "calculateScore (nonzero_sum fst (pods @ [pod])) (MilliValue (rl_Cpu (Allocatable node))) \<in> {0..10}"
    and "calculateScore (nonzero_sum snd (pods @ [pod])) (Quantity_Value (rl_Memory (Allocatable node))) \<in> {0..10}"
proof -
  note nn = nonzero_sum_nonneg [OF assms subset_refl]
  show r: "calculateScore (nonzero_sum fst (pods @ [pod])) (MilliValue (rl_Cpu (Allocatable node))) \<in> {0..10}"
    "calculateScore (nonzero_sum snd (pods @ [pod])) (Quantity_Value (rl_Memory (Allocatable node))) \<in> {0..10}"
    using assms nn by (intro calculateScore_range; simp add: occupancy_ok_def)+
  have "go_int (nonzero_sum fst (pods @ [pod])) = nonzero_sum fst (pods @ [pod])"
    "go_int (nonzero_sum snd (pods @ [pod])) = nonzero_sum snd (pods @ [pod])"
    using assms nn by (intro go_int_id; simp add: occupancy_ok_def)+
  then show "Score (calculateResourceOccupancy pod node pods) =
    (calculateScore (nonzero_sum fst (pods @ [pod])) (MilliValue (rl_Cpu (Allocatable node)))
      + calculateScore (nonzero_sum snd (pods @ [pod])) (Quantity_Value (rl_Memory (Allocatable node)))) div 2"
    using r unfolding calculateResourceOccupancy_sums by (simp add: go_int_id sdiv_nonneg)
qed

text \<open>
  The score for least requested resources is the mean of the two tenths of the capacity that
  stay free when the pod is added, 0 for a resource that would be exceeded.  It is on the scale from 0
  to 10, and a node never scores better for having more pods.
\<close>

theorem least_requested_score:
  assumes "occupancy_ok node (pods @ extra @ [pod])"
  shows "Score (calculateResourceOccupancy pod node (pods @ extra)) \<le> Score (calculateResourceOccupancy pod node pods)
    \<and> Score (calculateResourceOccupancy pod node pods) \<in> {0..10}
    \<and> Score (calculateResourceOccupancy pod node pods) =
      (let free = (\<lambda>r cap. if cap = 0 \<or> cap < r then 0 else (cap - r) * 10 div cap)
       in (free (nonzero_sum fst (pods @ [pod])) (MilliValue (rl_Cpu (Allocatable node)))
         + free (nonzero_sum snd (pods @ [pod])) (Quantity_Value (rl_Memory (Allocatable node)))) div 2)"
proof -
  have ok: "occupancy_ok node (pods @ [pod])" by (rule occupancy_ok_less [OF assms])
  have all: "occupancy_ok node ((pods @ extra) @ [pod])" using assms by simp
  note s = occupancy_score [OF ok] and s' = occupancy_score [OF all]
  have extra: "0 \<le> nonzero_sum fst extra" "0 \<le> nonzero_sum snd extra"
    using nonzero_sum_nonneg [OF assms, of extra] by auto
  have cap: "0 \<le> MilliValue (rl_Cpu (Allocatable node))" "MilliValue (rl_Cpu (Allocatable node)) < 2 ^ 59"
    "0 \<le> Quantity_Value (rl_Memory (Allocatable node))" "Quantity_Value (rl_Memory (Allocatable node)) < 2 ^ 59"
    using assms by (simp_all add: occupancy_ok_def)
  have "calculateScore (nonzero_sum fst ((pods @ extra) @ [pod])) (MilliValue (rl_Cpu (Allocatable node)))
      \<le> calculateScore (nonzero_sum fst (pods @ [pod])) (MilliValue (rl_Cpu (Allocatable node)))"
    "calculateScore (nonzero_sum snd ((pods @ extra) @ [pod])) (Quantity_Value (rl_Memory (Allocatable node)))
      \<le> calculateScore (nonzero_sum snd (pods @ [pod])) (Quantity_Value (rl_Memory (Allocatable node)))"
    using extra cap nonzero_sum_nonneg [OF ok subset_refl] by (intro calculateScore_antimono; simp)+
  then have "Score (calculateResourceOccupancy pod node (pods @ extra)) \<le> Score (calculateResourceOccupancy pod node pods)"
    unfolding s(1) s'(1) by (intro zdiv_mono1) simp_all
  moreover have "Score (calculateResourceOccupancy pod node pods) \<in> {0..10}" using s by auto
  ultimately show ?thesis
    unfolding s(1) using calculateScore_value [OF nonzero_sum_nonneg(1) [OF ok subset_refl] cap(1,2)]
      calculateScore_value [OF nonzero_sum_nonneg(2) [OF ok subset_refl] cap(3,4)] by (simp add: Let_def)
qed

definition mem_node :: Node where
  "mem_node = \<lparr>n_Name = ''n'', n_Labels = Map.empty,
     Allocatable = [ResourceCPU \<mapsto> NewQuantity 1 DecimalSI, ResourceMemory \<mapsto> NewQuantity (2 ^ 30) BinarySI], Images = []\<rparr>"

definition mem_pod :: SchedPod where
  "mem_pod = \<lparr>sp_Name = ''p'', sp_Namespace = ''ns'', sp_Labels = Map.empty,
     sp_Annotations = Map.empty, sp_NodeName = '''', sp_NodeSelector = Map.empty,
     Containers = [\<lparr>Requests = Map.empty, HostPorts = [], Image = ''nginx''\<rparr>], Volumes = []\<rparr>"

theorem least_requested_score_witness:
  "Score (calculateResourceOccupancy mem_pod mem_node [mem_pod]) \<le> Score (calculateResourceOccupancy mem_pod mem_node [])
   \<and> Score (calculateResourceOccupancy mem_pod mem_node []) = 8"
proof -
  have vals: "MilliValue (rl_Cpu (Allocatable mem_node)) = 1000" "Quantity_Value (rl_Memory (Allocatable mem_node)) = 2 ^ 30"
    by code_simp+
  have req: "GetNonzeroRequests Map.empty = (100, 209715200)" by code_simp
  have ok: "occupancy_ok mem_node ([] @ [mem_pod] @ [mem_pod])"
    unfolding occupancy_ok_def vals by (simp add: mem_pod_def nonzero_sum_def req)
  show ?thesis
    using least_requested_score [OF ok] unfolding vals by (simp add: nonzero_sum_def mem_pod_def req Let_def)
qed

text \<open>The multiplication by ten overflows from a capacity of about 2 ^ 60 on: an empty node scores -6.\<close>

lemma calculateScore_overflows: "calculateScore 0 (2 ^ 60) = - 6"
  by code_simp

section \<open>Priority functions as the scheduler uses them\<close>

text \<open>
  The scheduler needs a priority function to score only nodes it was asked about; most also score
  every one of them.
\<close>

locale priority_function =
  fixes f :: PriorityFunction
  assumes only_listed: "f pod m h (Inr nodes) = Inr l \<Longrightarrow> Host ` set l \<subseteq> n_Name ` set nodes"

locale covering_priority = priority_function +
  assumes covers: "f pod m h (Inr nodes) = Inr l \<Longrightarrow> n_Name ` set nodes \<subseteq> Host ` set l"
    and never_fails: "\<exists>l. f pod m h (Inr nodes) = Inr l"
begin

lemma hosts: "f pod m h (Inr nodes) = Inr l \<Longrightarrow> Host ` set l = n_Name ` set nodes"
  by (intro equalityI only_listed covers)

lemma no_nodes_no_scores: "f pod m h (Inr []) = Inr l \<Longrightarrow> l = []"
  using only_listed [of pod m h "[]" l] by simp

end

lemma covering_priorityI:
  assumes "\<And>pod m h nodes. \<exists>l. f pod m h (Inr nodes) = Inr l \<and> Host ` set l = n_Name ` set nodes"
  shows "covering_priority f"
proof
  fix pod :: SchedPod and m :: "string \<rightharpoonup> NodeInfo" and h :: memory and nodes :: "Node list" and l
  obtain l' where l': "f pod m h (Inr nodes) = Inr l'" "Host ` set l' = n_Name ` set nodes" using assms by blast
  then show "\<exists>l. f pod m h (Inr nodes) = Inr l" by blast
  assume "f pod m h (Inr nodes) = Inr l"
  then have "l = l'" using l'(1) by simp
  then show "Host ` set l \<subseteq> n_Name ` set nodes" "n_Name ` set nodes \<subseteq> Host ` set l" using l'(2) by simp_all
qed

interpretation equal_priority: covering_priority EqualPriority
  by (rule covering_priorityI) (simp add: EqualPriority_def image_image)

interpretation least_requested: covering_priority LeastRequestedPriority
  by (rule covering_priorityI) (simp add: LeastRequestedPriority_def image_image calculateResourceOccupancy_sums)

lemma dom_fold_update: "dom (fold (\<lambda>x m. m(key x \<mapsto> g x m)) xs m) = dom m \<union> key ` set xs"
  by (induction xs arbitrary: m) auto

lemma range_hosts:
  assumes "go_range_ok rng" and "finite (dom m)"
  shows "Host ` set (map (\<lambda>(k, v). \<lparr>Host = k, Score = s v\<rparr>) (rng m)) = dom m"
proof -
  have "map_entries (rng m) m" by (rule go_rangeD [OF assms])
  then have "fst ` set (rng m) = dom m" by (rule map_entries_dom)
  moreover have "Host ` set (map (\<lambda>(k, v). \<lparr>Host = k, Score = s v\<rparr>) (rng m)) = fst ` set (rng m)" by force
  ultimately show ?thesis by simp
qed

lemma node_label_covering:
  assumes "go_range_ok rng"
  shows "covering_priority (CalculateNodeLabelPriority rng label presence)"
proof (rule covering_priorityI)
  fix pod :: SchedPod and m :: "string \<rightharpoonup> NodeInfo" and h :: memory and nodes :: "Node list"
  let ?m = "fold (\<lambda>node m. let exists = Set_Has (n_Labels node) label
      in m(n_Name node \<mapsto> (exists \<and> presence) \<or> (\<not> exists \<and> \<not> presence))) nodes Map.empty"
  have dom: "dom ?m = n_Name ` set nodes" using dom_fold_update [of n_Name _ nodes Map.empty] by (simp add: Let_def)
  have "finite (dom ?m)" unfolding dom by simp
  then show "\<exists>l. CalculateNodeLabelPriority rng label presence pod m h (Inr nodes) = Inr l
      \<and> Host ` set l = n_Name ` set nodes"
    using range_hosts [OF assms, of ?m "\<lambda>success. if success then 10 else 0"] unfolding dom
    by (simp add: CalculateNodeLabelPriority_def Let_def)
qed

interpretation node_label: covering_priority "CalculateNodeLabelPriority sorted_range label presence" for label presence
  by (rule node_label_covering [OF sorted_range_ok])

lemma dom_image_sizes:
  "dom (fold (\<lambda>container. fold (\<lambda>node m. m(n_Name node \<mapsto> g container node m)) nodes) cs m)
    = dom m \<union> (if cs = [] then {} else n_Name ` set nodes)"
  by (induction cs arbitrary: m) (auto simp: dom_fold_update)

lemma image_locality_priority:
  assumes "go_range_ok rng"
  shows "priority_function (ImageLocalityPriority rng)"
proof
  fix pod :: SchedPod and m :: "string \<rightharpoonup> NodeInfo" and h :: memory and nodes :: "Node list" and l
  let ?m = "fold (\<lambda>container. fold (\<lambda>node m.
        m(n_Name node \<mapsto> go_int ((case m (n_Name node) of None \<Rightarrow> 0 | Some x \<Rightarrow> x) + checkContainerImageOnNode node container))) nodes)
        (Containers pod) Map.empty"
  assume "ImageLocalityPriority rng pod m h (Inr nodes) = Inr l"
  then have l: "l = map (\<lambda>(k, v). \<lparr>Host = k, Score = calculateScoreFromSize v\<rparr>) (rng ?m)"
    by (simp add: ImageLocalityPriority_def Let_def)
  have dom: "dom ?m \<subseteq> n_Name ` set nodes" unfolding dom_image_sizes by simp
  then have "finite (dom ?m)" using finite_subset by blast
  then show "Host ` set l \<subseteq> n_Name ` set nodes" unfolding l using range_hosts [OF assms, of ?m] dom by simp
qed

interpretation image_locality: priority_function "ImageLocalityPriority sorted_range"
  by (rule image_locality_priority [OF sorted_range_ok])

end
