(* ===== verification/Go_Float.thy ===== *)
theory Go_Float
  imports Inf_Dec
begin

text \<open>
  Go's \<^verbatim>\<open>float32\<close> and \<^verbatim>\<open>float64\<close>, as far as the modelled code computes with them: a finite number
  is its value, a rational number, and every operation gives the exact result rounded to 24 or 53
  binary digits, to the nearest, and to the even one of two that are as near.  The code only
  divides by numbers that are not zero, and its results are zero or lie between \<open>2 ^ -127\<close> and \<open>2 ^ 127\<close>
  in absolute value, so there are no infinities, no NaN and no subnormal numbers.  The sign of zero
  is lost.  The lemmas bound the error of a rounding and show that it is monotone and leaves the numbers that
  fit alone.
\<close>

section \<open>Rounding\<close>

definition round_even :: "rat \<Rightarrow> int" where
  "round_even x =
     (let n = \<lfloor>x\<rfloor>; d = x - of_int n
      in if d < 1 / 2 then n else if 1 / 2 < d then n + 1 else if even n then n else n + 1)"

text \<open>The exponent of the leading binary digit of a positive number.\<close>

definition binary_exponent :: "rat \<Rightarrow> int" where
  "binary_exponent x = (if 1 \<le> x then BitLen \<lfloor>x\<rfloor> - 1 else - BitLen (\<lceil>1 / x\<rceil> - 1))"

definition float_round :: "nat \<Rightarrow> rat \<Rightarrow> rat" where
  "float_round p x =
     (if x = 0 then 0
      else let u = 2 powi (binary_exponent \<bar>x\<bar> - int p + 1) in of_int (round_even (x / u)) * u)"

definition float32 :: "rat \<Rightarrow> rat" where "float32 = float_round 24"
definition float64 :: "rat \<Rightarrow> rat" where "float64 = float_round 53"

text \<open>
  The conversion to \<^verbatim>\<open>int\<close> truncates; a number out of range becomes the smallest integer, as on amd64.
\<close>

definition float_to_int :: "rat \<Rightarrow> int" where
  "float_to_int x =
     (let n = if x < 0 then \<lceil>x\<rceil> else \<lfloor>x\<rfloor>
      in if - (2 ^ 63) \<le> n \<and> n < 2 ^ 63 then n else - (2 ^ 63))"

text \<open>\<^verbatim>\<open>math.Ceil\<close> and \<^verbatim>\<open>math.Floor\<close>.\<close>

definition math_Ceil :: "rat \<Rightarrow> rat" where "math_Ceil x = of_int \<lceil>x\<rceil>"
definition math_Floor :: "rat \<Rightarrow> rat" where "math_Floor x = of_int \<lfloor>x\<rfloor>"

section \<open>Rounding to an integer\<close>

lemma round_even_of_int [simp]: "round_even (of_int n) = n"
  by (simp add: round_even_def)

lemma round_even_error: "\<bar>of_int (round_even x) - x\<bar> \<le> 1 / 2"
proof -
  have "of_int \<lfloor>x\<rfloor> \<le> x" "x < of_int \<lfloor>x\<rfloor> + 1" by linarith+
  then show ?thesis unfolding round_even_def Let_def abs_if by (auto simp del: of_int_floor_le)
qed

lemma round_even_bounds: "\<lfloor>x\<rfloor> \<le> round_even x" "round_even x \<le> \<lfloor>x\<rfloor> + 1"
  by (simp_all add: round_even_def)

lemma round_even_mono: "x \<le> y \<Longrightarrow> round_even x \<le> round_even y"
proof (cases "\<lfloor>x\<rfloor> = \<lfloor>y\<rfloor>")
  case True
  assume "x \<le> y"
  then show ?thesis using True by (simp add: round_even_def)
next
  case False
  assume "x \<le> y"
  then have "\<lfloor>x\<rfloor> + 1 \<le> \<lfloor>y\<rfloor>" using False floor_mono [of x y] by simp
  then show ?thesis using round_even_bounds [of x] round_even_bounds [of y] by linarith
qed

lemma round_even_uminus: "round_even (- x) = - round_even x"
proof (cases "x = of_int \<lfloor>x\<rfloor>")
  case True
  then show ?thesis by (metis of_int_minus round_even_of_int)
next
  case False
  then have *: "\<lfloor>- x\<rfloor> = - \<lfloor>x\<rfloor> - 1" by linarith
  have "x - of_int \<lfloor>x\<rfloor> < 1 / 2 \<or> x - of_int \<lfloor>x\<rfloor> = 1 / 2 \<or> 1 / 2 < x - of_int \<lfloor>x\<rfloor>" by linarith
  then show ?thesis by (auto simp: round_even_def *)
qed

section \<open>The exponent\<close>

lemma BitLen_bounds:
  assumes "0 < n"
  shows "2 powi (BitLen n - 1) \<le> (of_int n :: rat)" and "(of_int n :: rat) + 1 \<le> 2 powi BitLen n"
    and "0 < BitLen n"
proof -
  let ?b = "nat_bits (nat n)"
  have b: "nat n < 2 ^ ?b" "2 ^ (?b - 1) \<le> nat n" using nat_bits_bounds [of "nat n"] assms by simp_all
  have "?b \<noteq> 0" using b(1) assms by (cases "?b = 0") auto
  then have e: "BitLen n = int ?b" "BitLen n - 1 = int (?b - 1)" using assms by (simp_all add: BitLen_def)
  have "(of_nat (2 ^ (?b - 1)) :: rat) \<le> of_nat (nat n)" using b(2) by (rule of_nat_mono)
  then have "(2 :: rat) powi int (?b - 1) \<le> of_int n" using assms by (simp only: power_int_of_nat) simp
  then show "2 powi (BitLen n - 1) \<le> (of_int n :: rat)" unfolding e(2) .
  have "(of_nat (Suc (nat n)) :: rat) \<le> of_nat (2 ^ ?b)" using b(1) by (intro of_nat_mono Suc_leI)
  then show "(of_int n :: rat) + 1 \<le> 2 powi BitLen n" unfolding e using assms by simp
  show "0 < BitLen n" using e \<open>?b \<noteq> 0\<close> by simp
qed

lemma binary_exponent_bounds:
  assumes "0 < x"
  shows "2 powi binary_exponent x \<le> x" and "x < 2 powi (binary_exponent x + 1)"
proof -
  have "2 powi binary_exponent x \<le> x \<and> x < 2 powi (binary_exponent x + 1)"
  proof (cases "1 \<le> x")
    case True
    then have "0 < \<lfloor>x\<rfloor>" by simp
    from BitLen_bounds [OF this] show ?thesis using True by (simp add: binary_exponent_def) linarith
  next
    case False
    define n where "n = \<lceil>1 / x\<rceil> - 1"
    have "1 < 1 / x" using False assms by simp
    then have "0 < n" unfolding n_def by linarith
    note b = BitLen_bounds [OF this]
    have "of_int n < 1 / x" "1 / x \<le> of_int n + 1" unfolding n_def by linarith+
    then have "2 powi (BitLen n - 1) < 1 / x" "1 / x \<le> 2 powi BitLen n" using b by linarith+
    then have "2 powi (- BitLen n) \<le> x" "x < 2 powi (1 - BitLen n)"
      using assms by (simp_all add: power_int_minus power_int_diff field_simps)
    then show ?thesis using False by (simp add: binary_exponent_def n_def add.commute)
  qed
  then show "2 powi binary_exponent x \<le> x" and "x < 2 powi (binary_exponent x + 1)" by simp_all
qed

lemma powi_less: "(2 :: rat) powi a < 2 powi b \<Longrightarrow> a < b"
  by (metis linorder_not_less one_le_numeral power_int_increasing)

section \<open>Rounding to a number of digits\<close>

lemma float_round_0 [simp]: "float_round p 0 = 0"
  by (simp add: float_round_def)

lemma float_round_uminus: "float_round p (- x) = - float_round p x"
  by (simp add: float_round_def round_even_uminus)

lemma float_round_error:
  assumes "0 < p"
  shows "\<bar>float_round p x - x\<bar> \<le> \<bar>x\<bar> * 2 powi (- int p)"
proof (cases "x = 0")
  case False
  define e where "e = binary_exponent \<bar>x\<bar>"
  define u where "u = (2 :: rat) powi (e - int p + 1)"
  have u: "0 < u" by (simp add: u_def)
  have "float_round p x - x = (of_int (round_even (x / u)) - x / u) * u"
    using False u by (simp add: float_round_def e_def u_def field_simps)
  then have "\<bar>float_round p x - x\<bar> = \<bar>of_int (round_even (x / u)) - x / u\<bar> * u" using u by (simp add: abs_mult)
  also have "\<dots> \<le> 1 / 2 * u" using round_even_error u by (intro mult_right_mono) simp_all
  also have "\<dots> = 2 powi e * 2 powi (- int p)" by (simp add: u_def power_int_add power_int_diff power_int_minus field_simps)
  also have "\<dots> \<le> \<bar>x\<bar> * 2 powi (- int p)"
    using binary_exponent_bounds [of "\<bar>x\<bar>"] False by (intro mult_right_mono) (simp_all add: e_def)
  finally show ?thesis .
qed simp

text \<open>Numbers with at most \<open>p\<close> digits stay.\<close>

lemma float_round_exact:
  assumes "0 < p" and "\<bar>of_int m\<bar> \<le> (2 :: rat) ^ p"
  shows "float_round p (of_int m * 2 powi k) = of_int m * 2 powi k"
proof (cases "m = 0")
  case False
  define x where "x = (of_int m :: rat) * 2 powi k"
  define e where "e = binary_exponent \<bar>x\<bar>"
  define u where "u = (2 :: rat) powi (e - int p + 1)"
  have x: "x \<noteq> 0" using False by (simp add: x_def)
  have "\<bar>x\<bar> = \<bar>of_int m\<bar> * 2 powi k" by (simp add: x_def abs_mult)
  also have "\<dots> \<le> 2 ^ p * 2 powi k" using assms(2) by (intro mult_right_mono) simp_all
  also have "\<dots> = 2 powi (int p + k)" by (simp add: power_int_add)
  finally have le: "\<bar>x\<bar> \<le> 2 powi (int p + k)" .
  have "\<exists>i :: int. x / u = of_int i"
  proof (cases "e \<le> int p + k - 1")
    case True
    then have "x / u = of_int m * 2 powi (k - (e - int p + 1))" by (simp add: x_def u_def power_int_diff)
    also have "\<dots> = of_int (m * 2 ^ nat (k - (e - int p + 1)))" using True by (simp add: power_int_nonneg_exp)
    finally show ?thesis by blast
  next
    case ge: False
    have "2 powi e \<le> \<bar>x\<bar>" unfolding e_def by (rule binary_exponent_bounds) (simp add: x)
    moreover have "(2 :: rat) powi (int p + k) \<le> 2 powi e" using ge by (intro power_int_increasing) simp_all
    ultimately have ax: "\<bar>x\<bar> = 2 powi (int p + k)" "2 powi e = (2 :: rat) powi (int p + k)" using le by linarith+
    have "\<bar>x\<bar> / u = 2 powi (int p - 1)" unfolding ax(1) ax(2) [symmetric] u_def by (simp add: power_int_add power_int_diff)
    also have "\<dots> = of_int (2 ^ nat (int p - 1))" using assms(1) by (simp add: power_int_nonneg_exp)
    finally have "\<bar>x\<bar> / u = of_int (2 ^ nat (int p - 1))" .
    then have "x / u = of_int (2 ^ nat (int p - 1)) \<or> x / u = of_int (- (2 ^ nat (int p - 1)))" by (cases "x < 0") simp_all
    then show ?thesis by blast
  qed
  then obtain i where "x / u = of_int i" by blast
  moreover have "u \<noteq> 0" by (simp add: u_def)
  ultimately have "of_int (round_even (x / u)) * u = x" by (simp add: field_simps)
  then show ?thesis using x unfolding float_round_def x_def [symmetric] e_def [symmetric] by (simp add: u_def)
qed simp

lemma float_round_of_int:
  assumes "0 < p" and "\<bar>of_int m\<bar> \<le> (2 :: rat) ^ p"
  shows "float_round p (of_int m) = of_int m"
  using float_round_exact [OF assms, of 0] by simp

lemma float_round_power: "0 < p \<Longrightarrow> float_round p (2 powi k) = 2 powi k"
  using float_round_exact [of p 1 k] by simp

text \<open>Within one power of two, the rounded number stays within it.\<close>

lemma float_round_binade:
  assumes "0 < p" and "0 < x" and "e = binary_exponent x"
  shows "2 powi e \<le> float_round p x" and "float_round p x \<le> 2 powi (e + 1)"
proof -
  define u where "u = (2 :: rat) powi (e - int p + 1)"
  have u: "0 < u" by (simp add: u_def)
  have r: "float_round p x = of_int (round_even (x / u)) * u" using assms by (simp add: float_round_def u_def)
  obtain q where q: "p = Suc q" using assms(1) by (cases p) simp_all
  have lo: "of_int (2 ^ (p - 1)) * u = 2 powi e" and hi: "of_int (2 ^ p) * u = 2 powi (e + 1)"
    by (simp_all add: u_def q power_int_diff power_int_add)
  note b = binary_exponent_bounds [OF assms(2), folded assms(3)]
  have "of_int (2 ^ (p - 1)) \<le> x / u" "x / u \<le> of_int (2 ^ p)"
    using b lo hi u by (simp_all add: pos_le_divide_eq pos_divide_le_eq del: of_int_power)
  then have "2 ^ (p - 1) \<le> round_even (x / u)" "round_even (x / u) \<le> 2 ^ p"
    by (metis round_even_mono round_even_of_int)+
  then have "(of_int (2 ^ (p - 1)) :: rat) \<le> of_int (round_even (x / u))" "of_int (round_even (x / u)) \<le> (of_int (2 ^ p) :: rat)"
    by (simp_all only: of_int_le_iff)
  then show "2 powi e \<le> float_round p x" "float_round p x \<le> 2 powi (e + 1)"
    unfolding r lo [symmetric] hi [symmetric] using u by (simp_all add: mult_right_mono del: of_int_power)
qed

lemma float_round_mono_pos:
  assumes "0 < p" and "0 < x" and "x \<le> y"
  shows "float_round p x \<le> float_round p y"
proof (cases "binary_exponent x = binary_exponent y")
  case True
  define u where "u = (2 :: rat) powi (binary_exponent x - int p + 1)"
  have u: "0 < u" by (simp add: u_def)
  then have "round_even (x / u) \<le> round_even (y / u)" using assms(3) by (intro round_even_mono divide_right_mono) simp_all
  then have "(of_int (round_even (x / u)) :: rat) * u \<le> of_int (round_even (y / u)) * u" using u by (intro mult_right_mono) simp_all
  then show ?thesis using assms True by (simp add: float_round_def u_def)
next
  case False
  have "2 powi binary_exponent x < (2 :: rat) powi (binary_exponent y + 1)"
    using binary_exponent_bounds [of x] binary_exponent_bounds [of y] assms by linarith
  then have "binary_exponent x + 1 \<le> binary_exponent y" using False powi_less by fastforce
  then have "(2 :: rat) powi (binary_exponent x + 1) \<le> 2 powi binary_exponent y" by (intro power_int_increasing) simp_all
  then show ?thesis using float_round_binade [OF assms(1,2) refl] float_round_binade [OF assms(1) _ refl, of y] assms by fastforce
qed

lemma float_round_nonneg: "0 < p \<Longrightarrow> 0 \<le> x \<Longrightarrow> 0 \<le> float_round p x"
proof (cases "x = 0")
  case False
  assume "0 < p" "0 \<le> x"
  then have "2 powi binary_exponent x \<le> float_round p x" using False by (intro float_round_binade) simp_all
  moreover have "(0 :: rat) < 2 powi binary_exponent x" by simp
  ultimately show ?thesis by linarith
qed simp

lemma float_round_mono:
  assumes "0 < p" and "x \<le> y"
  shows "float_round p x \<le> float_round p y"
proof -
  consider "0 < x" | "y < 0" | "x \<le> 0" "0 \<le> y" using assms(2) by linarith
  then show ?thesis
  proof cases
    case 2
    then have "float_round p (- y) \<le> float_round p (- x)" using assms by (intro float_round_mono_pos) simp_all
    then show ?thesis by (simp add: float_round_uminus)
  next
    case 3
    then show ?thesis
      using float_round_nonneg [of p y] float_round_nonneg [of p "- x"] assms by (simp add: float_round_uminus)
  qed (use assms float_round_mono_pos in simp)
qed

section \<open>Truncation\<close>

lemma float_to_int_nonneg: "0 \<le> x \<Longrightarrow> x < 2 ^ 63 \<Longrightarrow> float_to_int x = \<lfloor>x\<rfloor>"
proof -
  assume x: "0 \<le> x" "x < 2 ^ 63"
  then have "0 \<le> \<lfloor>x\<rfloor>" "\<lfloor>x\<rfloor> < 2 ^ 63" by (simp_all add: floor_less_iff)
  then show ?thesis using x by (simp add: float_to_int_def)
qed

lemma float_to_int_of_int: "- (2 ^ 63) \<le> n \<Longrightarrow> n < 2 ^ 63 \<Longrightarrow> float_to_int (of_int n) = n"
  by (simp add: float_to_int_def)

lemma float_to_int_range: "0 \<le> x \<Longrightarrow> x < of_int n + 1 \<Longrightarrow> n < 2 ^ 62 \<Longrightarrow> 0 \<le> float_to_int x \<and> float_to_int x \<le> n"
proof -
  assume x: "0 \<le> x" "x < of_int n + 1" "n < 2 ^ 62"
  have "n + 1 \<le> 2 ^ 63" using x(3) by simp
  then have "(of_int (n + 1) :: rat) \<le> of_int (2 ^ 63)" by (simp only: of_int_le_iff)
  then have "x < 2 ^ 63" using x(2) by simp
  moreover have "\<lfloor>x\<rfloor> \<le> n" using x(2) by linarith
  ultimately show ?thesis using x(1) by (simp add: float_to_int_nonneg)
qed

section \<open>Percentages\<close>

lemma abs_small:
  assumes "\<bar>n :: int\<bar> \<le> 2 ^ k"
  shows "\<bar>of_int n\<bar> \<le> (2 :: rat) ^ k"
proof -
  have "(of_int \<bar>n\<bar> :: rat) \<le> of_int (2 ^ k)" using assms by (simp only: of_int_le_iff)
  then show ?thesis by simp
qed

lemma float64_of_int: "\<bar>n\<bar> \<le> 2 ^ 53 \<Longrightarrow> float64 (of_int n) = of_int n"
  unfolding float64_def by (intro float_round_of_int abs_small) simp_all

text \<open>A hundredth of an integer below \<open>2 ^ 53\<close> is not rounded across an integer.\<close>

lemma float64_hundredth:
  assumes "\<bar>n\<bar> < 2 ^ 53"
  shows "\<lceil>float64 (of_int n / 100)\<rceil> = \<lceil>of_int n / (100 :: rat)\<rceil>"
    and "\<lfloor>float64 (of_int n / 100)\<rfloor> = \<lfloor>of_int n / (100 :: rat)\<rfloor>"
proof -
  define x where "x = (of_int n :: rat) / 100"
  have n: "\<bar>of_int n\<bar> \<le> (2 :: rat) ^ 53 - 1"
  proof -
    have "(of_int \<bar>n\<bar> :: rat) \<le> of_int (2 ^ 53 - 1)" using assms by (simp only: of_int_le_iff)
    then show ?thesis by simp
  qed
  have "\<bar>float64 x - x\<bar> \<le> \<bar>x\<bar> * 2 powi (- 53)" unfolding float64_def using float_round_error [of 53 x] by simp
  also have "\<dots> < 1 / 100" using n by (simp add: x_def power_int_minus field_simps)
  finally have err: "\<bar>float64 x - x\<bar> < 1 / 100" .
  have mono: "a \<le> b \<Longrightarrow> float64 a \<le> float64 b" for a b unfolding float64_def by (intro float_round_mono) simp_all
  have near: "of_int i \<le> x \<Longrightarrow> of_int i \<le> float64 x" "x \<le> of_int i \<Longrightarrow> float64 x \<le> of_int i" if "\<bar>i\<bar> \<le> 9007199254740992" for i
    using mono [of "of_int i" x] mono [of x "of_int i"] float64_of_int [of i] that by simp_all
  have "\<bar>x\<bar> \<le> 2 ^ 53 - 1" using n by (simp add: x_def)
  then have "- 9007199254740992 \<le> x" "x \<le> 9007199254740992" by (simp_all add: abs_le_iff)
  then have "- 9007199254740992 \<le> \<lfloor>x\<rfloor>" "\<lfloor>x\<rfloor> \<le> 9007199254740992"
      "- 9007199254740992 \<le> \<lceil>x\<rceil>" "\<lceil>x\<rceil> \<le> 9007199254740992"
    by (simp_all add: le_floor_iff floor_le_iff le_ceiling_iff ceiling_le_iff)
  then have small: "\<bar>\<lfloor>x\<rfloor>\<bar> \<le> 9007199254740992" "\<bar>\<lceil>x\<rceil>\<bar> \<le> 9007199254740992"
    by linarith+
  have hundredths: "x = of_int i \<or> of_int i + 1 / 100 \<le> x \<or> x \<le> of_int i - 1 / 100" for i
  proof -
    have "n = 100 * i \<or> 100 * i + 1 \<le> n \<or> n \<le> 100 * i - 1" by linarith
    then have "(of_int n :: rat) = of_int (100 * i) \<or> of_int (100 * i + 1) \<le> (of_int n :: rat) \<or> of_int n \<le> (of_int (100 * i - 1) :: rat)"
      by (simp only: of_int_le_iff of_int_eq_iff)
    then show ?thesis by (auto simp: x_def)
  qed
  have "float64 x \<le> of_int \<lceil>x\<rceil>" by (rule near [OF small(2)]) simp
  moreover have "of_int \<lceil>x\<rceil> - 1 < float64 x"
    using hundredths [of "\<lceil>x\<rceil> - 1"] err ceiling_correct [of x] by (auto simp: abs_if split: if_splits)
  ultimately show "\<lceil>float64 (of_int n / 100)\<rceil> = \<lceil>of_int n / (100 :: rat)\<rceil>" unfolding x_def [symmetric] by (intro ceiling_unique) simp_all
  have "of_int \<lfloor>x\<rfloor> \<le> float64 x" by (rule near [OF small(1)]) simp
  moreover have "float64 x < of_int \<lfloor>x\<rfloor> + 1"
    using hundredths [of "\<lfloor>x\<rfloor> + 1"] err floor_correct [of x] by (auto simp: abs_if split: if_splits)
  ultimately show "\<lfloor>float64 (of_int n / 100)\<rfloor> = \<lfloor>of_int n / (100 :: rat)\<rfloor>" unfolding x_def [symmetric] by (intro floor_unique) simp_all
qed

section \<open>Fractions on a scale of ten\<close>

text \<open>\<open>10 * (c / m)\<close>, the score of a fraction in the priority functions.\<close>

definition tenths :: "nat \<Rightarrow> int \<Rightarrow> int \<Rightarrow> rat" where
  "tenths p c m = float_round p (10 * float_round p (float_round p (of_int c) / float_round p (of_int m)))"

lemma nat_bits_numeral:
  "nat_bits 0 = 0" "nat_bits (Suc 0) = 1" "nat_bits (numeral num.One) = 1"
  "nat_bits (numeral (num.Bit0 n)) = Suc (nat_bits (numeral n))"
  "nat_bits (numeral (num.Bit1 n)) = Suc (nat_bits (numeral n))"
  by (simp_all add: nat_bits.simps [of 0] nat_bits.simps [of "Suc 0"]
      nat_bits.simps [of "numeral (num.Bit0 n)"] nat_bits.simps [of "numeral (num.Bit1 n)"])

lemma floor_div_numeral: "\<lfloor>numeral a / numeral b :: rat\<rfloor> = numeral a div numeral b"
  using floor_divide_of_int_eq [of "numeral a" "numeral b", where 'a = rat] by simp

lemma ceiling_div_numeral: "\<lceil>numeral a / numeral b :: rat\<rceil> = - (- numeral a div numeral b)"
  using ceiling_divide_eq_div [of "numeral a" "numeral b", where 'a = rat] by simp

lemmas float_eval = float_round_def round_even_def binary_exponent_def BitLen_def nat_bits_numeral
  power_int_minus power_int_nonneg_exp floor_div_numeral ceiling_div_numeral

lemma upto_tenths: "{0..10 :: int} = {0, 1, 2, 3, 4, 5, 6, 7, 8, 9, 10}"
  by (simp add: atLeastAtMostPlus1_int_conv [symmetric] set_eq_iff) arith

lemma tenths_exact:
  "k \<in> {0..10 :: int} \<Longrightarrow> float_round 24 (10 * float_round 24 (of_int k / 10)) = of_int k"
  "k \<in> {0..10 :: int} \<Longrightarrow> float_round 53 (10 * float_round 53 (of_int k / 10)) = of_int k"
  unfolding upto_tenths by (elim insertE emptyE; simp add: float_eval)+

text \<open>
  As long as a number of \<open>p\<close> digits is much finer than \<open>1 / m\<close>, truncating gives the integer quotient.
\<close>

lemma tenths_floor:
  assumes p: "p = 24 \<or> p = 53" and m: "0 < m" "32 * m \<le> 2 ^ p" and c: "0 \<le> c" "c \<le> m"
  shows "0 \<le> tenths p c m" and "\<lfloor>tenths p c m\<rfloor> = 10 * c div m"
proof -
  define d where "d = (2 :: rat) powi (- int p)"
  define q where "q = (of_int c / of_int m :: rat)"
  have p0: "0 < p" using p by auto
  have d: "0 < d" "d \<le> 1 / 32" using p by (auto simp: d_def power_int_minus)
  have m': "(0 :: rat) < of_int m" using m(1) by simp
  have "(32 :: rat) * of_int m \<le> 2 ^ p"
  proof -
    have "(of_int (32 * m) :: rat) \<le> of_int (2 ^ p)" using m(2) by (simp only: of_int_le_iff)
    then show ?thesis by simp
  qed
  then have md: "32 * d \<le> 1 / of_int m" using m' by (simp add: d_def power_int_minus field_simps)
  have "(of_int c :: rat) \<le> of_int m" using c(2) by simp
  then have q: "0 \<le> q" "q \<le> 1" using c(1) m' by (simp_all add: q_def)
  have "float_round p (of_int c) = of_int c" "float_round p (of_int m) = of_int m"
    using c m p0 by (intro float_round_of_int abs_small; simp)+
  then have t: "tenths p c m = float_round p (10 * float_round p q)" by (simp add: tenths_def q_def)
  show nonneg: "0 \<le> tenths p c m" unfolding t using p0 q float_round_nonneg by simp
  define n where "n = 10 * c div m"
  have n: "n * m \<le> 10 * c" "10 * c < n * m + m" "0 \<le> n" "n \<le> 10"
  proof -
    note dm = div_mult_mod_eq [of "10 * c" m, folded n_def]
    show "n * m \<le> 10 * c" using dm pos_mod_sign [OF m(1), of "10 * c"] by linarith
    show "10 * c < n * m + m" using dm pos_mod_bound [OF m(1), of "10 * c"] by linarith
    show "0 \<le> n" using c m(1) by (simp add: n_def pos_imp_zdiv_nonneg_iff)
    show "n \<le> 10" using zdiv_mono1 [of "10 * c" "10 * m" m] c m(1) by (simp add: n_def)
  qed
  show "\<lfloor>tenths p c m\<rfloor> = 10 * c div m"
  proof (cases "10 * c = n * m")
    case True
    then have "10 * (of_int c :: rat) = of_int n * of_int m" by (metis of_int_mult of_int_numeral)
    then have q': "q = of_int n / 10" using m' by (simp add: q_def field_simps)
    have "tenths p c m = of_int n" unfolding t q' using p tenths_exact [of n] n(3,4) by (elim disjE) simp_all
    then show ?thesis by (simp add: n_def)
  next
    case False
    then have "n * m + 1 \<le> 10 * c" "10 * c \<le> n * m + m - 1" using n by linarith+
    then have "(of_int (n * m + 1) :: rat) \<le> of_int (10 * c)" "(of_int (10 * c) :: rat) \<le> of_int (n * m + m - 1)"
      by (simp_all only: of_int_le_iff)
    then have "of_int (n * m + 1) / of_int m \<le> of_int (10 * c) / (of_int m :: rat)"
        "of_int (10 * c) / (of_int m :: rat) \<le> of_int (n * m + m - 1) / of_int m"
      using m' by (intro divide_right_mono; simp)+
    then have between: "of_int n + 1 / of_int m \<le> 10 * q" "10 * q \<le> of_int n + 1 - 1 / of_int m"
      using m' by (simp_all add: q_def add_divide_distrib diff_divide_distrib)
    have e1: "\<bar>float_round p q - q\<bar> \<le> d"
      using float_round_error [OF p0, of q, folded d_def] mult_right_mono [OF q(2), of d] q d by linarith
    then have "\<bar>10 * float_round p q\<bar> \<le> 11" using q d by (simp add: abs_le_iff)
    then have "\<bar>tenths p c m - 10 * float_round p q\<bar> \<le> 11 * d"
      using float_round_error [OF p0, of "10 * float_round p q"] mult_right_mono [of "\<bar>10 * float_round p q\<bar>" 11 d] d
      unfolding t d_def [symmetric] by linarith
    then have "\<bar>tenths p c m - 10 * q\<bar> \<le> 21 * d" using e1 by (simp add: abs_le_iff)
    then have "of_int n \<le> tenths p c m" "tenths p c m < of_int n + 1"
      using between md d by (simp_all add: abs_le_iff)
    then show ?thesis unfolding n_def [symmetric] by (rule floor_unique)
  qed
qed

lemma tenths_score:
  assumes "p = 24 \<or> p = 53" and "0 < m" and "32 * m \<le> 2 ^ p" and "0 \<le> c" and "c \<le> m"
  shows "float_to_int (tenths p c m) = 10 * c div m"
proof -
  note t = tenths_floor [OF assms]
  have "10 * c div m \<le> 10 * m div m" using assms by (intro zdiv_mono1) simp_all
  then have "\<lfloor>tenths p c m\<rfloor> \<le> 10" using t(2) assms(2) by simp
  then have "tenths p c m < 2 ^ 63" by (simp add: floor_le_iff)
  then show ?thesis using t by (simp add: float_to_int_nonneg)
qed

end
