(* ===== verification/Priorities_Float.thy ===== *)
theory Priorities_Float
  imports Priorities Go_Float
begin

text \<open>
  The functions of \<^verbatim>\<open>plugin/pkg/scheduler/algorithm/priorities\<close> that compute with floating-point
  numbers: the balance between the resources of a node (\<^verbatim>\<open>priorities.go\<close>), the affinity of a pod to
  nodes (\<^verbatim>\<open>node_affinity.go\<close>), and the spreading of similar pods (\<^verbatim>\<open>selector_spreading.go\<close>).

  The listers are arguments.  The map of counts that the code reads for a missing key gives 0.
  Counts of pods are counted without a bound, sums of weights have 64 bits.
\<close>

section \<open>Balanced resource allocation\<close>

definition fractionOfCapacity :: "int \<Rightarrow> int \<Rightarrow> rat" where
  "fractionOfCapacity requested capacity =
     (if capacity = 0 then 1 else float64 (float64 (of_int requested) / float64 (of_int capacity)))"

definition calculateBalancedResourceAllocation :: "SchedPod \<Rightarrow> Node \<Rightarrow> SchedPod list \<Rightarrow> HostPriority" where
  "calculateBalancedResourceAllocation pod node pods =
     (let totals = fold (\<lambda>existingPod. fold add_nonzero (Containers existingPod)) pods (0, 0);
          (totalMilliCPU, totalMemory) = fold add_nonzero (Containers pod) totals;
          capacityMilliCPU = MilliValue (rl_Cpu (Allocatable node));
          capacityMemory = Quantity_Value (rl_Memory (Allocatable node));
          cpuFraction = fractionOfCapacity totalMilliCPU capacityMilliCPU;
          memoryFraction = fractionOfCapacity totalMemory capacityMemory;
          score = (if cpuFraction \<ge> 1 \<or> memoryFraction \<ge> 1 then 0
                   else let diff = \<bar>float64 (cpuFraction - memoryFraction)\<bar>
                     in float_to_int (float64 (10 - float64 (diff * 10))))
      in \<lparr>Host = n_Name node, Score = score\<rparr>)"

definition BalancedResourceAllocation :: PriorityFunction where
  "BalancedResourceAllocation pod nodeNameToInfo h nodeLister =
     (case nodeLister of
        Inl err \<Rightarrow> Inl err
      | Inr nodes \<Rightarrow>
          Inr (map (\<lambda>node. calculateBalancedResourceAllocation pod node (ni_Pods (nodeNameToInfo (n_Name node)))) nodes))"

section \<open>Affinity to nodes\<close>

definition map_int :: "('k \<rightharpoonup> int) \<Rightarrow> 'k \<Rightarrow> int" where
  "map_int m k = (case m k of None \<Rightarrow> 0 | Some n \<Rightarrow> n)"

text \<open>The inner loop: one term, over the nodes.\<close>

definition affinity_step ::
  "(string \<Rightarrow> 'f option) \<Rightarrow> ('f \<Rightarrow> 'f \<Rightarrow> bool) \<Rightarrow> int \<Rightarrow> Selector \<Rightarrow> Node \<Rightarrow> (string \<rightharpoonup> int) \<times> int \<Rightarrow> (string \<rightharpoonup> int) \<times> int" where
  "affinity_step pf gt weight nodeSelector node s =
     (case s of (counts, maxCount) \<Rightarrow>
        let counts = (if Selector_Matches pf gt nodeSelector (n_Labels node)
                      then counts(n_Name node \<mapsto> go_int (map_int counts (n_Name node) + weight)) else counts)
        in (counts, if map_int counts (n_Name node) > maxCount then map_int counts (n_Name node) else maxCount))"

fun affinity_terms ::
  "(string \<Rightarrow> 'f option) \<Rightarrow> ('f \<Rightarrow> 'f \<Rightarrow> bool) \<Rightarrow> sorter \<Rightarrow> Node list \<Rightarrow> PreferredSchedulingTerm list
     \<Rightarrow> (string \<rightharpoonup> int) \<times> int \<Rightarrow> node_selector_error + (string \<rightharpoonup> int) \<times> int" where
  "affinity_terms pf gt srt nodes [] s = Inr s"
| "affinity_terms pf gt srt nodes (term # rest) s =
     (if Weight term = 0 then affinity_terms pf gt srt nodes rest s
      else case NodeSelectorRequirementsAsSelector pf srt (Preference term) of
        Inl err \<Rightarrow> Inl err
      | Inr nodeSelector \<Rightarrow>
          affinity_terms pf gt srt nodes rest (fold (affinity_step pf gt (Weight term) nodeSelector) nodes s))"

definition affinity_score :: "(string \<rightharpoonup> int) \<Rightarrow> int \<Rightarrow> Node \<Rightarrow> HostPriority" where
  "affinity_score counts maxCount node =
     (let fScore = (if maxCount > 0
            then float64 (10 * float64 (float64 (of_int (map_int counts (n_Name node))) / float64 (of_int maxCount)))
            else 0)
      in \<lparr>Host = n_Name node, Score = float_to_int fScore\<rparr>)"

text \<open>\<open>msg\<close> is the text of an error of a selector.\<close>

definition CalculateNodeAffinityPriority ::
  "(string \<Rightarrow> 'f option) \<Rightarrow> ('f \<Rightarrow> 'f \<Rightarrow> bool) \<Rightarrow> sorter \<Rightarrow> (string \<Rightarrow> go_error + Affinity)
     \<Rightarrow> (node_selector_error \<Rightarrow> go_error) \<Rightarrow> PriorityFunction" where
  "CalculateNodeAffinityPriority pf gt srt json msg pod nodeNameToInfo h nodeLister =
     (case nodeLister of
        Inl err \<Rightarrow> Inl err
      | Inr nodes \<Rightarrow>
          (case GetAffinityFromPodAnnotations json (sp_Annotations pod) of
             Inl err \<Rightarrow> Inl err
           | Inr affinity \<Rightarrow>
               (case (case affinity of
                        None \<Rightarrow> Inr (Map.empty, 0)
                      | Some nodeAffinity \<Rightarrow> affinity_terms pf gt srt nodes (PreferredTerms nodeAffinity) (Map.empty, 0)) of
                  Inl err \<Rightarrow> Inl (msg err)
                | Inr (counts, maxCount) \<Rightarrow> Inr (map (affinity_score counts maxCount) nodes))))"

section \<open>Spreading similar pods\<close>

text \<open>A pod of the lister of pods; it may be on its way to be deleted.\<close>

record ListedPod = SchedPod +
  sp_DeletionTimestamp :: "int option"

text \<open>The listers; services, controllers and replica sets answer with the selectors of those that select a pod.\<close>

record spread_listers =
  podLister_List :: "Selector \<Rightarrow> go_error + ListedPod list"
  GetPodServices :: "SchedPod \<Rightarrow> go_error + label_Set option list"
  GetPodControllers :: "SchedPod \<Rightarrow> go_error + label_Set option list"
  GetPodReplicaSets :: "SchedPod \<Rightarrow> go_error + LabelSelector option list"

definition getZoneKey :: "Node \<Rightarrow> string" where
  "getZoneKey node =
     (let region = Set_Get (n_Labels node) LabelZoneRegion;
          failureDomain = Set_Get (n_Labels node) LabelZoneFailureDomain
      in if region = '''' \<and> failureDomain = '''' then '''' else region @ '':'' @ [CHR 0x00] @ '':'' @ failureDomain)"

definition spread_selectors ::
  "(string \<Rightarrow> 'f option) \<Rightarrow> sorter \<Rightarrow> (string, string) go_range \<Rightarrow> spread_listers \<Rightarrow> SchedPod \<Rightarrow> Selector list" where
  "spread_selectors pf srt rng s pod =
     (case GetPodServices s pod of Inl err \<Rightarrow> [] | Inr services \<Rightarrow> map (SelectorFromSet pf srt rng) services)
     @ (case GetPodControllers s pod of Inl err \<Rightarrow> [] | Inr rcs \<Rightarrow> map (SelectorFromSet pf srt rng) rcs)
     @ (case GetPodReplicaSets s pod of Inl err \<Rightarrow> []
        | Inr rss \<Rightarrow> concat (map (\<lambda>rs. case LabelSelectorAsSelector pf srt rng rs of Inl err \<Rightarrow> [] | Inr selector \<Rightarrow> [selector]) rss))"

definition count_similar ::
  "(string \<Rightarrow> 'f option) \<Rightarrow> ('f \<Rightarrow> 'f \<Rightarrow> bool) \<Rightarrow> Selector list \<Rightarrow> ListedPod list \<Rightarrow> (string \<rightharpoonup> int)" where
  "count_similar pf gt selectors nsPods =
     fold (\<lambda>pod m.
         if sp_DeletionTimestamp pod \<noteq> None then m
         else let matches = list_ex (\<lambda>selector. Selector_Matches pf gt selector (sp_Labels pod)) selectors
           in if \<not> matches then m else m(sp_NodeName pod \<mapsto> map_int m (sp_NodeName pod) + 1)) nsPods Map.empty"

definition max_count :: "(string, int) go_range \<Rightarrow> (string \<rightharpoonup> int) \<Rightarrow> int" where
  "max_count rng m = fold (\<lambda>(k, cnt) mx. if cnt > mx then cnt else mx) (rng m) 0"

definition count_zones :: "(string \<rightharpoonup> int) \<Rightarrow> Node list \<Rightarrow> (string \<rightharpoonup> int)" where
  "count_zones countsByNodeName nodes =
     fold (\<lambda>node m.
         case countsByNodeName (n_Name node) of
           None \<Rightarrow> m
         | Some cnt \<Rightarrow>
             let zoneId = getZoneKey node
             in if zoneId = '''' then m else m(zoneId \<mapsto> map_int m zoneId + cnt)) nodes Map.empty"

text \<open>The score of a node; \<open>zoneWeighting\<close> is two thirds.\<close>

definition spread_score :: "int \<Rightarrow> (string \<rightharpoonup> int) \<Rightarrow> int \<Rightarrow> (string \<rightharpoonup> int) \<Rightarrow> Node \<Rightarrow> HostPriority" where
  "spread_score maxCountByNodeName countsByNodeName maxCountByZone countsByZone node =
     (let haveZones = (dom countsByZone \<noteq> {});
          fScore = (if maxCountByNodeName > 0
            then float32 (10 * float32 (float32 (of_int (maxCountByNodeName - map_int countsByNodeName (n_Name node)))
                                        / float32 (of_int maxCountByNodeName)))
            else 10);
          zoneId = getZoneKey node;
          fScore = (if haveZones \<and> zoneId \<noteq> ''''
            then let zoneScore = float32 (10 * float32 (float32 (of_int (maxCountByZone - map_int countsByZone zoneId))
                                                        / float32 (of_int maxCountByZone)))
              in float32 (float32 (fScore * float32 (1 / 3)) + float32 (float32 (2 / 3) * zoneScore))
            else fScore)
      in \<lparr>Host = n_Name node, Score = float_to_int fScore\<rparr>)"

definition CalculateSpreadPriority ::
  "(string \<Rightarrow> 'f option) \<Rightarrow> ('f \<Rightarrow> 'f \<Rightarrow> bool) \<Rightarrow> sorter \<Rightarrow> (string, string) go_range \<Rightarrow> (string, int) go_range
     \<Rightarrow> spread_listers \<Rightarrow> PriorityFunction" where
  "CalculateSpreadPriority pf gt srt rng countRng s pod nodeNameToInfo h nodeLister =
     (let selectors = spread_selectors pf srt rng s pod
      in case (if length selectors > 0 then podLister_List s Everything else Inr []) of
        Inl err \<Rightarrow> Inl err
      | Inr pods \<Rightarrow>
          let nsPods = filter (\<lambda>nsPod. sp_Namespace nsPod = sp_Namespace pod) pods
          in (case nodeLister of
                Inl err \<Rightarrow> Inl err
              | Inr nodes \<Rightarrow>
                  let countsByNodeName = count_similar pf gt selectors nsPods;
                      maxCountByNodeName = max_count countRng countsByNodeName;
                      countsByZone = count_zones countsByNodeName nodes;
                      maxCountByZone = max_count countRng countsByZone
                  in Inr (map (spread_score maxCountByNodeName countsByNodeName maxCountByZone countsByZone) nodes)))"

section \<open>Spreading over the values of a label\<close>

definition label_nodes :: "string \<Rightarrow> Node list \<Rightarrow> (string \<rightharpoonup> string) \<times> string list" where
  "label_nodes label nodes =
     fold (\<lambda>node (labeledNodes, otherNodes).
         if Set_Has (n_Labels node) label
         then (labeledNodes(n_Name node \<mapsto> Set_Get (n_Labels node) label), otherNodes)
         else (labeledNodes, otherNodes @ [n_Name node])) nodes (Map.empty, [])"

definition count_labels :: "(string \<rightharpoonup> string) \<Rightarrow> ListedPod list \<Rightarrow> (string \<rightharpoonup> int)" where
  "count_labels labeledNodes nsServicePods =
     fold (\<lambda>pod m. case labeledNodes (sp_NodeName pod) of
                     None \<Rightarrow> m
                   | Some label \<Rightarrow> m(label \<mapsto> map_int m label + 1)) nsServicePods Map.empty"

definition label_score :: "int \<Rightarrow> (string \<rightharpoonup> int) \<Rightarrow> string \<times> string \<Rightarrow> HostPriority" where
  "label_score numServicePods podCounts entry =
     (case entry of (node, label) \<Rightarrow>
        let fScore = (if numServicePods > 0
              then float32 (10 * float32 (float32 (of_int (numServicePods - map_int podCounts label))
                                          / float32 (of_int numServicePods)))
              else 10)
        in \<lparr>Host = node, Score = float_to_int fScore\<rparr>)"

text \<open>\<^verbatim>\<open>None\<close> is the panic on \<^verbatim>\<open>services[0]\<close> when the lister answers with no service and no error.\<close>

definition CalculateAntiAffinityPriority ::
  "(string \<Rightarrow> 'f option) \<Rightarrow> sorter \<Rightarrow> (string, string) go_range \<Rightarrow> spread_listers \<Rightarrow> string
     \<Rightarrow> SchedPod \<Rightarrow> go_error + Node list \<Rightarrow> (go_error + HostPriority list) option" where
  "CalculateAntiAffinityPriority pf srt rng s label pod nodeLister =
     (case (case GetPodServices s pod of
              Inl err \<Rightarrow> Some (Inr [])
            | Inr [] \<Rightarrow> None
            | Inr (service # _) \<Rightarrow> Some (podLister_List s (SelectorFromSet pf srt rng service))) of
        None \<Rightarrow> None
      | Some (Inl err) \<Rightarrow> Some (Inl err)
      | Some (Inr pods) \<Rightarrow>
          let nsServicePods = filter (\<lambda>nsPod. sp_Namespace nsPod = sp_Namespace pod) pods
          in (case nodeLister of
                Inl err \<Rightarrow> Some (Inl err)
              | Inr nodes \<Rightarrow>
                  (case label_nodes label nodes of (labeledNodes, otherNodes) \<Rightarrow>
                     let podCounts = count_labels labeledNodes nsServicePods;
                         numServicePods = int (length nsServicePods)
                     in Some (Inr (map (label_score numServicePods podCounts) (rng labeledNodes)
                          @ map (\<lambda>node. \<lparr>Host = node, Score = 0\<rparr>) otherNodes)))))"

end
