(* ===== verification/Priorities_Float_Props.thy ===== *)
theory Priorities_Float_Props
  imports Priorities_Float Node_Labels
begin

text \<open>
  What the scores in floating-point numbers come to.  For the affinity of nodes and for spreading
  without zones they are the exact quotients, rounded down; the score for balance is off by less than one and
  a rounding error; with zones a node with fewer similar pods around it never scores lower.
\<close>

section \<open>Affinity to nodes\<close>

definition affinity_weight ::
  "(string \<Rightarrow> 'f option) \<Rightarrow> ('f \<Rightarrow> 'f \<Rightarrow> bool) \<Rightarrow> PreferredSchedulingTerm list \<Rightarrow> Node \<Rightarrow> int" where
  "affinity_weight pf gt terms node =
     (\<Sum>t \<leftarrow> terms. if term_holds pf gt (Preference t) (n_Labels node) then Weight t else 0)"

lemma affinity_weight_bounds:
  assumes "\<forall>t \<in> set terms. 0 \<le> Weight t"
  shows "0 \<le> affinity_weight pf gt terms node" and "affinity_weight pf gt terms node \<le> (\<Sum>t \<leftarrow> terms. Weight t)"
  using assms by (induction terms) (auto simp: affinity_weight_def)

text \<open>One term over all nodes, whose names differ: every matching node gets the weight, and the maximum follows.\<close>

lemma affinity_fold:
  fixes nodes :: "Node list"
  assumes "distinct (map n_Name nodes)"
    and "\<forall>n \<in> set nodes. 0 \<le> map_int counts (n_Name n) \<and> map_int counts (n_Name n) + w < 2 ^ 63" and "0 \<le> w"
  shows "\<exists>counts' mx'. fold (affinity_step pf gt w sel) nodes (counts, mx) = (counts', mx')
    \<and> (\<forall>n \<in> set nodes. map_int counts' (n_Name n)
        = map_int counts (n_Name n) + (if Selector_Matches pf gt sel (n_Labels n) then w else 0))
    \<and> (\<forall>k. k \<notin> n_Name ` set nodes \<longrightarrow> counts' k = counts k)
    \<and> mx' = Max (insert mx ((\<lambda>n. map_int counts' (n_Name n)) ` set nodes))"
  using assms
proof (induction nodes arbitrary: counts mx)
  case (Cons n nodes)
  define c1 where "c1 = (if Selector_Matches pf gt sel (n_Labels n)
    then counts(n_Name n \<mapsto> go_int (map_int counts (n_Name n) + w)) else counts)"
  define m1 where "m1 = (if map_int c1 (n_Name n) > mx then map_int c1 (n_Name n) else mx)"
  have step: "affinity_step pf gt w sel n (counts, mx) = (c1, m1)"
    by (simp add: affinity_step_def c1_def m1_def)
  have "go_int (map_int counts (n_Name n) + w) = map_int counts (n_Name n) + w"
    using Cons.prems by (intro go_int_id) auto
  then have n: "map_int c1 (n_Name n) = map_int counts (n_Name n) + (if Selector_Matches pf gt sel (n_Labels n) then w else 0)"
    by (simp add: c1_def map_int_def)
  have other: "k \<noteq> n_Name n \<Longrightarrow> c1 k = counts k" for k by (simp add: c1_def)
  have fresh: "n_Name n \<notin> n_Name ` set nodes" using Cons.prems(1) by simp
  then have same: "map_int c1 (n_Name b) = map_int counts (n_Name b)" if "b \<in> set nodes" for b
  proof -
    have "n_Name b \<noteq> n_Name n" using fresh imageI [OF that, of n_Name] by auto
    then show ?thesis by (simp add: map_int_def other)
  qed
  have "distinct (map n_Name nodes)"
    "\<forall>n \<in> set nodes. 0 \<le> map_int c1 (n_Name n) \<and> map_int c1 (n_Name n) + w < 2 ^ 63"
    using Cons.prems same by auto
  from Cons.IH [OF this Cons.prems(3), of m1] obtain c2 m2 where
    c2: "fold (affinity_step pf gt w sel) nodes (c1, m1) = (c2, m2)"
    "\<forall>b \<in> set nodes. map_int c2 (n_Name b) = map_int c1 (n_Name b) + (if Selector_Matches pf gt sel (n_Labels b) then w else 0)"
    "\<forall>k. k \<notin> n_Name ` set nodes \<longrightarrow> c2 k = c1 k"
    "m2 = Max (insert m1 ((\<lambda>n. map_int c2 (n_Name n)) ` set nodes))" by auto
  have keep: "map_int c2 (n_Name n) = map_int c1 (n_Name n)" using c2(3) fresh by (simp add: map_int_def)
  have "m1 = max mx (map_int c2 (n_Name n))" unfolding keep by (simp add: m1_def max_def)
  then have "m2 = Max (insert mx ((\<lambda>n. map_int c2 (n_Name n)) ` set (n # nodes)))"
    unfolding c2(4) by (cases "nodes = []") (simp_all add: max.assoc max.left_commute)
  moreover have "\<forall>b \<in> set (n # nodes). map_int c2 (n_Name b)
      = map_int counts (n_Name b) + (if Selector_Matches pf gt sel (n_Labels b) then w else 0)"
    using c2(2) keep n same by auto
  moreover have "\<forall>k. k \<notin> n_Name ` set (n # nodes) \<longrightarrow> c2 k = counts k" using c2(3) other by auto
  ultimately show ?case using step c2(1) by auto
qed simp

text \<open>The state of the outer loop: the weights so far, and their maximum.\<close>

definition affinity_inv ::
  "(string \<Rightarrow> 'f option) \<Rightarrow> ('f \<Rightarrow> 'f \<Rightarrow> bool) \<Rightarrow> Node list \<Rightarrow> PreferredSchedulingTerm list \<Rightarrow> (string \<rightharpoonup> int) \<times> int \<Rightarrow> bool" where
  "affinity_inv pf gt nodes terms s \<longleftrightarrow>
     (\<forall>n \<in> set nodes. map_int (fst s) (n_Name n) = affinity_weight pf gt terms n)
     \<and> snd s = Max (insert 0 (affinity_weight pf gt terms ` set nodes))"

lemma Max_raised:
  assumes "finite A" and "\<forall>a \<in> A. f a \<le> (g a :: int)"
  shows "Max (insert (Max (insert 0 (f ` A))) (g ` A)) = Max (insert 0 (g ` A))"
proof (rule antisym)
  show "Max (insert (Max (insert 0 (f ` A))) (g ` A)) \<le> Max (insert 0 (g ` A))"
    using assms by (auto intro!: Max.boundedI Max_ge_iff [THEN iffD2])
  show "Max (insert 0 (g ` A)) \<le> Max (insert (Max (insert 0 (f ` A))) (g ` A))"
    using assms by (auto intro!: Max.boundedI Max_ge_iff [THEN iffD2])
qed

lemma affinity_terms_weights:
  fixes nodes :: "Node list"
  assumes "sort_ok srt" and "distinct (map n_Name nodes)"
    and "\<forall>t \<in> set (done @ terms). 0 \<le> Weight t" and "(\<Sum>t \<leftarrow> done @ terms. Weight t) < 2 ^ 63"
    and "\<forall>t \<in> set terms. Weight t \<noteq> 0 \<longrightarrow> (\<exists>sel. NodeSelectorRequirementsAsSelector pf srt (Preference t) = Inr sel)"
    and "affinity_inv pf gt nodes done s"
  shows "\<exists>s'. affinity_terms pf gt srt nodes terms s = Inr s' \<and> affinity_inv pf gt nodes (done @ terms) s'"
  using assms(3-)
proof (induction terms arbitrary: "done" s)
  case (Cons t terms)
  have more: "affinity_weight pf gt (done @ [t]) n
      = affinity_weight pf gt done n + (if term_holds pf gt (Preference t) (n_Labels n) then Weight t else 0)" for n
    by (simp add: affinity_weight_def)
  have nonneg: "\<forall>u \<in> set done. 0 \<le> Weight u" "0 \<le> Weight t" "\<forall>u \<in> set terms. 0 \<le> Weight u" using Cons.prems(1) by auto
  show ?case
  proof (cases "Weight t = 0")
    case True
    then have "affinity_weight pf gt (done @ [t]) = affinity_weight pf gt done" using more by auto
    then have "affinity_inv pf gt nodes (done @ [t]) s" using Cons.prems(4) by (simp add: affinity_inv_def)
    then show ?thesis using Cons.IH [of "done @ [t]" s] Cons.prems True by simp
  next
    case False
    then obtain sel where sel: "NodeSelectorRequirementsAsSelector pf srt (Preference t) = Inr sel" using Cons.prems(3) by auto
    obtain counts mx where s: "s = (counts, mx)" by (cases s)
    have "0 \<le> (\<Sum>t \<leftarrow> terms. Weight t)" using nonneg(3) by (intro sum_list_nonneg) auto
    then have "\<forall>n \<in> set nodes. 0 \<le> map_int counts (n_Name n) \<and> map_int counts (n_Name n) + Weight t < 2 ^ 63"
    proof (intro ballI)
      fix n assume "n \<in> set nodes"
      then have "map_int counts (n_Name n) = affinity_weight pf gt done n" using Cons.prems(4) by (simp add: affinity_inv_def s)
      then show "0 \<le> map_int counts (n_Name n) \<and> map_int counts (n_Name n) + Weight t < 2 ^ 63"
        using Cons.prems(2) affinity_weight_bounds [OF nonneg(1), of pf gt n] \<open>0 \<le> (\<Sum>t \<leftarrow> terms. Weight t)\<close> by simp
    qed
    from affinity_fold [OF assms(2) this nonneg(2), of pf gt sel mx] obtain counts' mx' where
      f: "fold (affinity_step pf gt (Weight t) sel) nodes s = (counts', mx')"
      and c: "\<forall>n \<in> set nodes. map_int counts' (n_Name n)
        = map_int counts (n_Name n) + (if Selector_Matches pf gt sel (n_Labels n) then Weight t else 0)"
      and m: "mx' = Max (insert mx ((\<lambda>n. map_int counts' (n_Name n)) ` set nodes))" unfolding s by auto
    have c': "map_int counts' (n_Name n) = affinity_weight pf gt (done @ [t]) n" if "n \<in> set nodes" for n
      using c Cons.prems(4) more [of n] node_term_match [OF assms(1) sel] \<open>n \<in> set nodes\<close> by (simp add: affinity_inv_def s)
    have "(\<lambda>n. map_int counts' (n_Name n)) ` set nodes = affinity_weight pf gt (done @ [t]) ` set nodes"
      using c' by (intro image_cong refl)
    then have "mx' = Max (insert 0 (affinity_weight pf gt (done @ [t]) ` set nodes))"
      using m Cons.prems(4) Max_raised [of "set nodes" "affinity_weight pf gt done" "affinity_weight pf gt (done @ [t])"] nonneg(2)
      by (simp add: affinity_inv_def s more)
    then have "affinity_inv pf gt nodes (done @ [t]) (counts', mx')" using c' by (simp add: affinity_inv_def)
    then show ?thesis using Cons.IH [of "done @ [t]" "(counts', mx')"] Cons.prems False sel f by simp
  qed
qed simp

lemma affinity_score_exact:
  assumes "0 \<le> map_int counts (n_Name node)" and "map_int counts (n_Name node) \<le> mx" and "mx \<le> 2 ^ 48"
  shows "affinity_score counts mx node =
    \<lparr>Host = n_Name node, Score = (if mx = 0 then 0 else 10 * map_int counts (n_Name node) div mx)\<rparr>"
proof (cases "mx = 0")
  case False
  then show ?thesis
    using tenths_score [of 53 mx "map_int counts (n_Name node)"] assms
    by (simp add: affinity_score_def tenths_def float64_def)
qed (simp add: affinity_score_def float_to_int_def)

text \<open>
  C34: When a pod prefers some nodes, a node's weight is the sum of the weights of the preferred terms
  that hold of its labels, and its score is ten times its weight over the largest weight of a node, rounded
  down, exactly, although the code divides floating-point numbers.  An empty term holds of no node.
\<close>

theorem node_affinity_score:
  fixes nodes :: "Node list"
  assumes "sort_ok srt" and "distinct (map n_Name nodes)"
    and "GetAffinityFromPodAnnotations json (sp_Annotations pod) = Inr (Some na)"
    and "\<forall>t \<in> set (PreferredTerms na). 0 \<le> Weight t
      \<and> (Weight t \<noteq> 0 \<longrightarrow> (\<exists>sel. NodeSelectorRequirementsAsSelector pf srt (Preference t) = Inr sel))"
    and "(\<Sum>t \<leftarrow> PreferredTerms na. Weight t) \<le> 2 ^ 48"
  shows "CalculateNodeAffinityPriority pf gt srt json msg pod nodeNameToInfo h (Inr nodes) =
    (let weight = affinity_weight pf gt (PreferredTerms na); mx = Max (insert 0 (weight ` set nodes))
     in Inr (map (\<lambda>node. \<lparr>Host = n_Name node, Score = if mx = 0 then 0 else 10 * weight node div mx\<rparr>) nodes))"
proof -
  define terms where "terms = PreferredTerms na"
  define weight where "weight = affinity_weight pf gt terms"
  have nonneg: "\<forall>t \<in> set terms. 0 \<le> Weight t" using assms(4) by (auto simp: terms_def)
  have "affinity_inv pf gt nodes [] (Map.empty, 0)"
    by (simp add: affinity_inv_def affinity_weight_def map_int_def image_constant_conv)
  from affinity_terms_weights [OF assms(1,2) _ _ _ this, where terms = terms] obtain counts mx where
    t: "affinity_terms pf gt srt nodes terms (Map.empty, 0) = Inr (counts, mx)"
    and inv: "affinity_inv pf gt nodes terms (counts, mx)" using assms(4,5) by (force simp: terms_def)
  have mx: "mx = Max (insert 0 (weight ` set nodes))" using inv by (simp add: affinity_inv_def weight_def)
  have score: "affinity_score counts mx n = \<lparr>Host = n_Name n, Score = if mx = 0 then 0 else 10 * weight n div mx\<rparr>"
    if n: "n \<in> set nodes" for n
  proof -
    have c: "map_int counts (n_Name n) = weight n" using inv n by (simp add: affinity_inv_def weight_def)
    have w: "0 \<le> weight b" "weight b \<le> 2 ^ 48" for b
      using affinity_weight_bounds [OF nonneg, of pf gt b] assms(5) by (simp_all add: weight_def terms_def)
    have "weight n \<le> mx" unfolding mx using n by (intro Max_ge) auto
    moreover have "mx \<le> 2 ^ 48" unfolding mx using w by (intro Max.boundedI) auto
    ultimately show ?thesis using affinity_score_exact [of counts n mx] w(1) [of n] c by simp
  qed
  have "CalculateNodeAffinityPriority pf gt srt json msg pod nodeNameToInfo h (Inr nodes)
      = Inr (map (affinity_score counts mx) nodes)"
    using assms(3) t by (simp add: CalculateNodeAffinityPriority_def terms_def)
  then show ?thesis using score by (simp add: Let_def mx weight_def terms_def)
qed

definition preferring_pod :: SchedPod where
  "preferring_pod = selecting_pod Map.empty [AffinityAnnotationKey \<mapsto> ''data'']"

definition preferences :: Affinity where
  "preferences = Some \<lparr>RequiredTerms = None, PreferredTerms =
     [\<lparr>Weight = 2, Preference = [\<lparr>nsr_Key = ''app'', nsr_Operator = ''Exists'', nsr_Values = []\<rparr>]\<rparr>,
      \<lparr>Weight = 5, Preference = []\<rparr>,
      \<lparr>Weight = 1, Preference = [\<lparr>nsr_Key = ''app'', nsr_Operator = ''DoesNotExist'', nsr_Values = []\<rparr>]\<rparr>]\<rparr>"

theorem node_affinity_score_witness:
  "CalculateNodeAffinityPriority (\<lambda>_. None :: nat option) (>) (sort_key req_key) (\<lambda>_. Inr preferences) (\<lambda>_. ''error'')
     preferring_pod Map.empty [] (Inr [labelled_node [''app'' \<mapsto> ''web''], (labelled_node Map.empty)\<lparr>n_Name := ''m''\<rparr>])
   = Inr [\<lparr>Host = ''n'', Score = 10\<rparr>, \<lparr>Host = ''m'', Score = 5\<rparr>]"
proof -
  let ?pf = "\<lambda>_. None :: nat option"
  let ?nodes = "[labelled_node [''app'' \<mapsto> ''web''], (labelled_node Map.empty)\<lparr>n_Name := ''m''\<rparr>]"
  obtain na where na: "preferences = Some na" by (simp add: preferences_def)
  have affinity: "GetAffinityFromPodAnnotations (\<lambda>_. Inr preferences) (sp_Annotations preferring_pod) = Inr (Some na)"
    by (simp add: GetAffinityFromPodAnnotations_def preferring_pod_def selecting_pod_def na)
  have terms: "\<forall>t \<in> set (PreferredTerms na). 0 \<le> Weight t
      \<and> (Weight t \<noteq> 0 \<longrightarrow> (\<exists>sel. NodeSelectorRequirementsAsSelector ?pf (sort_key req_key) (Preference t) = Inr sel))"
    using na valid_names
    by (auto simp: preferences_def NodeSelectorRequirementsAsSelector_def NodeSelectorOp_def NewRequirement_def
        validateLabelKey_def operatorValues_def sets_NewString_def sets_Len_def)
  have sum: "(\<Sum>t \<leftarrow> PreferredTerms na. Weight t) \<le> 2 ^ 48" using na by (auto simp: preferences_def)
  have "affinity_weight ?pf (>) (PreferredTerms na) (labelled_node [''app'' \<mapsto> ''web'']) = 2"
    "affinity_weight ?pf (>) (PreferredTerms na) ((labelled_node Map.empty)\<lparr>n_Name := ''m''\<rparr>) = 1"
    using na by (auto simp: preferences_def affinity_weight_def term_holds_def node_expression_holds_def NodeSelectorOp_def labelled_node_def)
  then show ?thesis
    using node_affinity_score [OF sort_ok_sort_key _ affinity terms sum, of ?nodes "(>)" "\<lambda>_. ''error''" Map.empty "[]"]
    by (simp add: labelled_node_def)
qed

section \<open>Balance\<close>

lemma f64_mono: "x \<le> y \<Longrightarrow> float64 x \<le> float64 y"
  unfolding float64_def by (intro float_round_mono) simp_all

lemma f64_error: "\<bar>float64 x - x\<bar> \<le> \<bar>x\<bar> / 2 ^ 53"
  unfolding float64_def using float_round_error [of 53 x] by (simp add: power_int_minus field_simps)

text \<open>A fraction below one stays below one, and is off by at most \<open>2 ^ -53\<close>.\<close>

lemma fractionOfCapacity_value:
  assumes "0 \<le> r" and "r < cap" and "cap \<le> 2 ^ 52"
  shows "0 \<le> fractionOfCapacity r cap" and "fractionOfCapacity r cap < 1"
    and "\<bar>fractionOfCapacity r cap - of_int r / of_int cap\<bar> \<le> 1 / 2 ^ 53"
proof -
  define q where "q = (of_int r / of_int cap :: rat)"
  have f: "fractionOfCapacity r cap = float64 q"
    using assms by (simp add: fractionOfCapacity_def q_def float64_of_int)
  have cap: "(0 :: rat) < of_int cap" using assms by simp
  have "(of_int (r + 1) :: rat) \<le> of_int cap" using assms by (simp only: of_int_le_iff)
  then have "q \<le> 1 - 1 / of_int cap" using cap by (simp add: q_def field_simps)
  moreover have "(of_int cap :: rat) \<le> of_int (2 ^ 52)" using assms(3) by (simp only: of_int_le_iff)
  then have "1 / 2 ^ 52 \<le> 1 / (of_int cap :: rat)" using cap by (intro divide_left_mono) simp_all
  ultimately have "q \<le> 1 - 1 / 2 ^ 52" by linarith
  also have "1 - 1 / 2 ^ 52 = of_int (2 ^ 52 - 1) * (2 :: rat) powi (- 52)" by (simp add: power_int_minus)
  finally have q: "0 \<le> q" "q \<le> of_int (2 ^ 52 - 1) * 2 powi (- 52)" using assms(1) cap by (simp_all add: q_def)
  have "float64 q \<le> float64 (of_int (2 ^ 52 - 1) * 2 powi (- 52))" by (rule f64_mono [OF q(2)])
  also have "\<dots> = of_int (2 ^ 52 - 1) * 2 powi (- 52)" unfolding float64_def by (rule float_round_exact) simp_all
  also have "\<dots> < 1" by (simp add: power_int_minus)
  finally show "fractionOfCapacity r cap < 1" by (simp add: f)
  show "0 \<le> fractionOfCapacity r cap" using f64_mono [OF q(1)] by (simp add: f float64_def)
  have "\<bar>q\<bar> \<le> 1" using q by (simp add: power_int_minus)
  then show "\<bar>fractionOfCapacity r cap - of_int r / of_int cap\<bar> \<le> 1 / 2 ^ 53"
    using f64_error [of q] unfolding f q_def [symmetric] by simp
qed

lemma fractionOfCapacity_full:
  assumes "0 \<le> cap" and "cap \<le> r"
  shows "1 \<le> fractionOfCapacity r cap"
proof (cases "cap = 0")
  case False
  have "float64 1 \<le> float64 (of_int cap)" using assms False by (intro f64_mono) simp
  then have "0 < float64 (of_int cap)" using float64_of_int [of 1] by simp
  moreover have "float64 (of_int cap) \<le> float64 (of_int r)" using assms(2) by (intro f64_mono) simp
  ultimately have "1 \<le> float64 (of_int r) / float64 (of_int cap)" by simp
  from f64_mono [OF this] show ?thesis using False float64_of_int [of 1] by (simp add: fractionOfCapacity_def)
qed (simp add: fractionOfCapacity_def)

text \<open>The arithmetic of the score on two fractions.\<close>

lemma balance_arithmetic:
  fixes a b a' b' :: rat
  assumes "0 \<le> a'" "a' < 1" "0 \<le> b'" "b' < 1" and "\<bar>a' - a\<bar> \<le> 1 / 2 ^ 53" and "\<bar>b' - b\<bar> \<le> 1 / 2 ^ 53"
  defines "y \<equiv> float64 (10 - float64 (\<bar>float64 (a' - b')\<bar> * 10))"
  shows "0 \<le> y" and "y \<le> 10" and "\<bar>y - (10 - 10 * \<bar>a - b\<bar>)\<bar> \<le> 1 / 2 ^ 46"
proof -
  define d where "d = \<bar>float64 (a' - b')\<bar>"
  have "\<bar>a' - b'\<bar> \<le> 1" using assms(1-4) by (simp add: abs_le_iff)
  then have e1: "\<bar>float64 (a' - b') - (a' - b')\<bar> \<le> 1 / 2 ^ 53" using f64_error [of "a' - b'"] by simp
  have "float64 (- 1) = - 1" "float64 1 = 1" "float64 10 = 10" "float64 0 = 0"
    using float64_of_int [of "- 1"] float64_of_int [of 1] float64_of_int [of 10] float64_of_int [of 0] by simp_all
  note exact = this
  have "float64 (- 1) \<le> float64 (a' - b')" "float64 (a' - b') \<le> float64 1"
    using \<open>\<bar>a' - b'\<bar> \<le> 1\<close> by (intro f64_mono; simp add: abs_le_iff)+
  then have d: "0 \<le> d" "d \<le> 1" by (simp_all add: d_def exact abs_le_iff)
  define t where "t = float64 (d * 10)"
  have t: "0 \<le> t" "t \<le> 10" using f64_mono [of 0 "d * 10"] f64_mono [of "d * 10" 10] d by (simp_all add: t_def exact)
  have y: "y = float64 (10 - t)" by (simp add: y_def t_def d_def)
  show "0 \<le> y" "y \<le> 10" using f64_mono [of 0 "10 - t"] f64_mono [of "10 - t" 10] t by (simp_all add: y exact)
  have e2: "\<bar>t - d * 10\<bar> \<le> 10 / 2 ^ 53" using f64_error [of "d * 10"] d by (simp add: t_def)
  have e3: "\<bar>y - (10 - t)\<bar> \<le> 10 / 2 ^ 53" using f64_error [of "10 - t"] t by (simp add: y)
  define E where "E = \<bar>a - b\<bar>"
  have "\<bar>d - E\<bar> \<le> 3 / 2 ^ 53" using e1 assms(5,6) unfolding d_def E_def by (simp add: abs_if split: if_splits)
  then show "\<bar>y - (10 - 10 * \<bar>a - b\<bar>)\<bar> \<le> 1 / 2 ^ 46" unfolding E_def [symmetric] using e2 e3 unfolding abs_le_iff by simp
qed

lemma calculateBalancedResourceAllocation_sums:
  "calculateBalancedResourceAllocation pod node pods =
    (let cpuFraction = fractionOfCapacity (go_int (nonzero_sum fst (pods @ [pod]))) (MilliValue (rl_Cpu (Allocatable node)));
         memoryFraction = fractionOfCapacity (go_int (nonzero_sum snd (pods @ [pod]))) (Quantity_Value (rl_Memory (Allocatable node)))
     in \<lparr>Host = n_Name node,
          Score = if cpuFraction \<ge> 1 \<or> memoryFraction \<ge> 1 then 0
            else float_to_int (float64 (10 - float64 (\<bar>float64 (cpuFraction - memoryFraction)\<bar> * 10)))\<rparr>)"
proof -
  have "(0, 0) = (go_int 0, go_int 0)" by (simp add: go_int_id)
  then have "fold (\<lambda>p. fold add_nonzero (Containers p)) pods (0, 0) = (go_int (nonzero_sum fst pods), go_int (nonzero_sum snd pods))"
    using add_nonzero_fold_pods [of pods 0 0] by simp
  then show ?thesis
    by (simp add: calculateBalancedResourceAllocation_def Let_def add_nonzero_fold nonzero_sum_def)
qed

text \<open>
  C35: The score for balance.  A node that the pod would fill in one of the resources scores 0; on any
  other node the score is on the scale from 0 to 10 and is ten minus ten times the difference of the used
  fractions of CPU and memory, rounded down, up to \<open>2 ^ -46\<close> for the rounding of floating-point numbers.
\<close>

theorem balanced_allocation_score:
  assumes "occupancy_ok node (pods @ [pod])"
    and "MilliValue (rl_Cpu (Allocatable node)) \<le> 2 ^ 52" and "Quantity_Value (rl_Memory (Allocatable node)) \<le> 2 ^ 52"
  shows "let cpu = nonzero_sum fst (pods @ [pod]); mem = nonzero_sum snd (pods @ [pod]);
      cpuCap = MilliValue (rl_Cpu (Allocatable node)); memCap = Quantity_Value (rl_Memory (Allocatable node));
      score = Score (calculateBalancedResourceAllocation pod node pods);
      balance = 10 - 10 * \<bar>of_int cpu / of_int cpuCap - of_int mem / of_int memCap\<bar>
    in if cpu \<ge> cpuCap \<or> mem \<ge> memCap then score = 0
       else score \<in> {0..10} \<and> of_int score \<le> balance + 1 / 2 ^ 46 \<and> balance - 1 - 1 / 2 ^ 46 < (of_int score :: rat)"
proof -
  define cpu mem where "cpu = nonzero_sum fst (pods @ [pod])" and "mem = nonzero_sum snd (pods @ [pod])"
  define cc mc where "cc = MilliValue (rl_Cpu (Allocatable node))" and "mc = Quantity_Value (rl_Memory (Allocatable node))"
  have r: "0 \<le> cpu" "0 \<le> mem" "cpu < 2 ^ 63" "mem < 2 ^ 63" "0 \<le> cc" "0 \<le> mc"
    using assms(1) nonzero_sum_nonneg [OF assms(1) subset_refl] by (simp_all add: cpu_def mem_def cc_def mc_def occupancy_ok_def)
  have sums: "go_int cpu = cpu" "go_int mem = mem" using r by (simp_all add: go_int_id)
  define f g where "f = fractionOfCapacity cpu cc" and "g = fractionOfCapacity mem mc"
  define y where "y = float64 (10 - float64 (\<bar>float64 (f - g)\<bar> * 10))"
  have score: "Score (calculateBalancedResourceAllocation pod node pods) = (if f \<ge> 1 \<or> g \<ge> 1 then 0 else float_to_int y)"
    unfolding calculateBalancedResourceAllocation_sums Let_def cpu_def [symmetric] mem_def [symmetric]
      cc_def [symmetric] mc_def [symmetric] sums f_def [symmetric] g_def [symmetric] y_def [symmetric] by simp
  show ?thesis
  proof (cases "cpu \<ge> cc \<or> mem \<ge> mc")
    case True
    then have "f \<ge> 1 \<or> g \<ge> 1" using fractionOfCapacity_full r(5,6) by (auto simp: f_def g_def)
    then show ?thesis using True score by (simp add: cpu_def mem_def cc_def mc_def)
  next
    case False
    then have lt: "cpu < cc" "mem < mc" by simp_all
    note F = fractionOfCapacity_value [OF r(1) lt(1) assms(2) [folded cc_def], folded f_def]
    note G = fractionOfCapacity_value [OF r(2) lt(2) assms(3) [folded mc_def], folded g_def]
    note Y = balance_arithmetic [OF F(1,2) G(1,2) F(3) G(3), folded y_def]
    have "y < 2 ^ 63" using Y(2) by simp
    then have s: "float_to_int y = \<lfloor>y\<rfloor>" "0 \<le> \<lfloor>y\<rfloor>" "\<lfloor>y\<rfloor> \<le> 10" using Y(1,2) by (simp_all add: float_to_int_nonneg floor_le_iff)
    define B where "B = 10 - 10 * \<bar>of_int cpu / of_int cc - of_int mem / (of_int mc :: rat)\<bar>"
    have "of_int \<lfloor>y\<rfloor> \<le> B + 1 / 2 ^ 46" "B - 1 - 1 / 2 ^ 46 < of_int \<lfloor>y\<rfloor>"
      using Y(3) floor_correct [of y] unfolding B_def [symmetric] abs_le_iff by (simp_all del: of_int_floor_le)
    then show ?thesis
      using False score F(2) G(2) s unfolding Let_def cpu_def [symmetric] mem_def [symmetric] cc_def [symmetric]
        mc_def [symmetric] B_def [symmetric] by simp
  qed
qed

theorem balanced_allocation_score_witness:
  "Score (calculateBalancedResourceAllocation mem_pod mem_node [mem_pod]) = 8"
proof -
  have vals: "MilliValue (rl_Cpu (Allocatable mem_node)) = 1000" "Quantity_Value (rl_Memory (Allocatable mem_node)) = 2 ^ 30"
    by code_simp+
  have req: "GetNonzeroRequests Map.empty = (100, 209715200)" by code_simp
  have ok: "occupancy_ok mem_node ([mem_pod] @ [mem_pod])"
    unfolding occupancy_ok_def vals by (simp add: mem_pod_def nonzero_sum_def req)
  have sums: "nonzero_sum fst ([mem_pod] @ [mem_pod]) = 200" "nonzero_sum snd ([mem_pod] @ [mem_pod]) = 419430400"
    by (simp_all add: nonzero_sum_def mem_pod_def req)
  have "of_int (Score (calculateBalancedResourceAllocation mem_pod mem_node [mem_pod])) < (9 :: rat)"
    "7 < (of_int (Score (calculateBalancedResourceAllocation mem_pod mem_node [mem_pod])) :: rat)"
    using balanced_allocation_score [OF ok] unfolding vals sums by (simp_all add: Let_def)
  then show ?thesis by linarith
qed

section \<open>Spreading similar pods\<close>

lemma tenths_bounds:
  assumes "p = 24 \<or> p = 53" and "0 < m" and "0 \<le> c" and "c \<le> m"
  shows "0 \<le> tenths p c m" and "tenths p c m \<le> 10"
proof -
  have p: "0 < p" using assms(1) by auto
  note mono = float_round_mono [OF p]
  have small: "float_round p 1 = 1" "float_round p 10 = 10"
    using float_round_of_int [OF p, of 1] float_round_of_int [OF p, of 10] assms(1) by auto
  have m: "0 < float_round p (of_int m)" using mono [of 1 "of_int m"] small assms(2) by simp
  have "0 \<le> float_round p (of_int c)" using float_round_nonneg [OF p] assms(3) by simp
  moreover have "float_round p (of_int c) \<le> float_round p (of_int m)" using mono assms(4) by simp
  ultimately have q: "0 \<le> float_round p (of_int c) / float_round p (of_int m)"
    "float_round p (of_int c) / float_round p (of_int m) \<le> 1" using m by simp_all
  then have "0 \<le> float_round p (float_round p (of_int c) / float_round p (of_int m))"
    "float_round p (float_round p (of_int c) / float_round p (of_int m)) \<le> 1"
    using float_round_nonneg [OF p q(1)] mono [OF q(2)] small by simp_all
  then show "0 \<le> tenths p c m" "tenths p c m \<le> 10"
    unfolding tenths_def using float_round_nonneg [OF p] mono [of _ 10] small by simp_all
qed

lemma tenths_mono:
  assumes "p = 24 \<or> p = 53" and "0 < m" and "c \<le> c'"
  shows "tenths p c m \<le> tenths p c' m"
proof -
  have p: "0 < p" using assms(1) by auto
  note mono = float_round_mono [OF p]
  have "float_round p 1 = 1" using float_round_of_int [OF p, of 1] by simp
  then have m: "0 < float_round p (of_int m)" using mono [of 1 "of_int m"] assms(2) by simp
  have "float_round p (of_int c) / float_round p (of_int m) \<le> float_round p (of_int c') / float_round p (of_int m)"
    using m assms(3) by (intro divide_right_mono mono) simp_all
  then show ?thesis unfolding tenths_def by (intro mono mult_left_mono) simp_all
qed

lemma f32_mono: "x \<le> y \<Longrightarrow> float32 x \<le> float32 y"
  unfolding float32_def by (intro float_round_mono) simp_all

text \<open>The mean of the two scores, weighted one to two, in \<^verbatim>\<open>float32\<close>.\<close>

definition zone_mean :: "rat \<Rightarrow> rat \<Rightarrow> rat" where
  "zone_mean x y = float32 (float32 (x * float32 (1 / 3)) + float32 (float32 (2 / 3) * y))"

lemma zone_mean_mono: "x \<le> x' \<Longrightarrow> y \<le> y' \<Longrightarrow> zone_mean x y \<le> zone_mean x' y'"
  unfolding zone_mean_def using f32_mono [of 0 "1 / 3"] f32_mono [of 0 "2 / 3"]
  by (intro f32_mono add_mono mult_right_mono mult_left_mono) (simp_all add: float32_def)

lemma zone_mean_ends: "zone_mean 0 0 = 0" "zone_mean 10 10 < 11"
proof -
  show "zone_mean 0 0 = 0" by (simp add: zone_mean_def float32_def)
  have "float32 (1 / 3) = 11184811 / 33554432" "float32 (2 / 3) = 11184811 / 16777216"
    by (simp_all add: float32_def float_eval)
  then show "zone_mean 10 10 < 11" by (simp add: zone_mean_def float32_def float_eval)
qed

lemma zone_mean_bounds:
  assumes "0 \<le> x" "x \<le> 10" "0 \<le> y" "y \<le> 10"
  shows "0 \<le> zone_mean x y" and "zone_mean x y < 11"
  using zone_mean_mono [OF assms(1,3)] zone_mean_mono [OF assms(2,4)] zone_mean_ends by simp_all

text \<open>The tenths that stay when \<open>c\<close> of at most \<open>mx\<close> are taken, ten if there are none at all.\<close>

definition free_tenths :: "int \<Rightarrow> int \<Rightarrow> rat" where
  "free_tenths mx c = (if mx > 0 then tenths 24 (mx - c) mx else 10)"

lemma free_tenths_bounds: "0 \<le> c \<Longrightarrow> c \<le> mx \<Longrightarrow> 0 \<le> free_tenths mx c \<and> free_tenths mx c \<le> 10"
  using tenths_bounds [of 24 mx "mx - c"] by (simp add: free_tenths_def)

lemma free_tenths_antimono: "c \<le> c' \<Longrightarrow> free_tenths mx c' \<le> free_tenths mx c"
  using tenths_mono [of 24 mx "mx - c'" "mx - c"] by (simp add: free_tenths_def)

lemma free_tenths_exact:
  "0 \<le> c \<Longrightarrow> c \<le> mx \<Longrightarrow> mx \<le> 2 ^ 19 \<Longrightarrow>
    float_to_int (free_tenths mx c) = (if mx = 0 then 10 else 10 * (mx - c) div mx)"
  using tenths_score [of 24 mx "mx - c"] float_to_int_of_int [of 10] by (simp add: free_tenths_def)

definition spread_value :: "int \<Rightarrow> int \<Rightarrow> int \<Rightarrow> int \<Rightarrow> bool \<Rightarrow> rat" where
  "spread_value mxN n mxZ z zoned =
     (if zoned then zone_mean (free_tenths mxN n) (free_tenths mxZ z) else free_tenths mxN n)"

lemma spread_score_value:
  assumes "dom zones \<noteq> {} \<Longrightarrow> 0 < mxZ"
  shows "spread_score mxN counts mxZ zones node = \<lparr>Host = n_Name node, Score = float_to_int
    (spread_value mxN (map_int counts (n_Name node)) mxZ (map_int zones (getZoneKey node))
      (dom zones \<noteq> {} \<and> getZoneKey node \<noteq> ''''))\<rparr>"
  using assms by (simp add: spread_score_def spread_value_def zone_mean_def free_tenths_def tenths_def float32_def)

lemma float_to_int_mono: "0 \<le> x \<Longrightarrow> x \<le> y \<Longrightarrow> y < 2 ^ 63 \<Longrightarrow> float_to_int x \<le> float_to_int y"
  by (simp add: float_to_int_nonneg floor_mono)

lemma spread_value_facts:
  assumes "0 \<le> n" "n \<le> mxN" "0 \<le> z" "z \<le> mxZ"
  shows "0 \<le> spread_value mxN n mxZ z zoned" and "spread_value mxN n mxZ z zoned < 11"
    and "n' \<le> n \<Longrightarrow> z' \<le> z \<Longrightarrow> spread_value mxN n mxZ z zoned \<le> spread_value mxN n' mxZ z' zoned"
proof -
  note b = free_tenths_bounds [OF assms(1,2)] free_tenths_bounds [OF assms(3,4)]
  show "0 \<le> spread_value mxN n mxZ z zoned" "spread_value mxN n mxZ z zoned < 11"
    using b zone_mean_bounds [of "free_tenths mxN n" "free_tenths mxZ z"] by (simp_all add: spread_value_def)
  assume "n' \<le> n" "z' \<le> z"
  then show "spread_value mxN n mxZ z zoned \<le> spread_value mxN n' mxZ z' zoned"
    by (simp add: spread_value_def zone_mean_mono free_tenths_antimono)
qed

text \<open>The pods that count on a node, and in a zone.\<close>

definition similar_on ::
  "(string \<Rightarrow> 'f option) \<Rightarrow> ('f \<Rightarrow> 'f \<Rightarrow> bool) \<Rightarrow> Selector list \<Rightarrow> ListedPod list \<Rightarrow> string \<Rightarrow> int" where
  "similar_on pf gt selectors pods n =
     int (length (filter (\<lambda>p. sp_NodeName p = n \<and> sp_DeletionTimestamp p = None
       \<and> (\<exists>selector \<in> set selectors. Selector_Matches pf gt selector (sp_Labels p))) pods))"

definition in_zone :: "(string \<Rightarrow> int) \<Rightarrow> Node list \<Rightarrow> string \<Rightarrow> int" where
  "in_zone f nodes z = (\<Sum>n \<leftarrow> nodes. if getZoneKey n = z then f (n_Name n) else 0)"

lemma similar_on_bounds: "0 \<le> similar_on pf gt selectors pods n" "similar_on pf gt selectors pods n \<le> int (length pods)"
  by (simp_all add: similar_on_def)

lemma map_int_upd [simp]: "map_int (m(k \<mapsto> v)) k' = (if k' = k then v else map_int m k')"
  by (simp add: map_int_def)

lemma map_int_empty [simp]: "map_int Map.empty k = 0"
  by (simp add: map_int_def)

lemma map_int_dom: "k \<notin> dom m \<Longrightarrow> map_int m k = 0"
  by (simp add: map_int_def domIff)

lemma count_similar_fold:
  fixes pf :: "string \<Rightarrow> 'f option" and gt :: "'f \<Rightarrow> 'f \<Rightarrow> bool" and selectors :: "Selector list"
  defines "step \<equiv> \<lambda>(pod :: ListedPod) m. if sp_DeletionTimestamp pod \<noteq> None then m
    else if \<not> list_ex (\<lambda>selector. Selector_Matches pf gt selector (sp_Labels pod)) selectors then m
    else m(sp_NodeName pod \<mapsto> map_int m (sp_NodeName pod) + 1)"
  shows "map_int (fold step pods m) n = map_int m n + similar_on pf gt selectors pods n"
    and "dom (fold step pods m) = dom m \<union> {n. 0 < similar_on pf gt selectors pods n}"
  unfolding step_def
  by (induction pods arbitrary: m) (auto simp: similar_on_def list_ex_iff)

lemma count_similar_value:
  "map_int (count_similar pf gt selectors pods) n = similar_on pf gt selectors pods n"
  "dom (count_similar pf gt selectors pods) = {n. 0 < similar_on pf gt selectors pods n}"
  unfolding count_similar_def Let_def using count_similar_fold [of pf gt selectors pods Map.empty] by simp_all

lemma similar_on_elsewhere: "n \<notin> sp_NodeName ` set pods \<Longrightarrow> similar_on pf gt selectors pods n = 0"
  by (auto simp: similar_on_def filter_empty_conv)

lemma count_similar_finite: "finite (dom (count_similar pf gt selectors pods))"
proof -
  have "{n. 0 < similar_on pf gt selectors pods n} \<subseteq> sp_NodeName ` set pods" by (metis (mono_tags, lifting) less_irrefl mem_Collect_eq similar_on_elsewhere subsetI)
  then show ?thesis unfolding count_similar_value using finite_subset by blast
qed

lemma max_count_fold:
  "fold (\<lambda>(k, c) mx. if c > mx then c else mx) xs a = Max (insert a (snd ` set xs))" for a :: int
proof (induction xs arbitrary: a)
  case (Cons x xs)
  have "fold (\<lambda>(k, c) mx. if c > mx then c else mx) (x # xs) a
      = fold (\<lambda>(k, c) mx. if c > mx then c else mx) xs (max a (snd x))" by (simp add: case_prod_beta max_def)
  then show ?case unfolding Cons.IH by (cases "xs = []") (simp_all add: max.assoc max.left_commute)
qed simp

lemma max_count_value:
  assumes "go_range_ok rng" and "finite (dom m)"
  shows "max_count rng m = Max (insert 0 (map_int m ` dom m))"
proof -
  have ent: "map_entries (rng m) m" by (rule go_rangeD [OF assms])
  have "snd ` set (rng m) = map_int m ` dom m"
    using map_entries_mem [OF ent] by (force simp: map_int_def dom_def)
  then show ?thesis by (simp add: max_count_def max_count_fold)
qed

lemma max_count_ge: "go_range_ok rng \<Longrightarrow> finite (dom m) \<Longrightarrow> map_int m k \<le> max_count rng m"
  using map_int_dom [of k m] by (cases "k \<in> dom m") (simp_all add: max_count_value)

lemma count_zones_fold:
  assumes "\<And>n. 0 \<le> map_int counts n" and "z \<noteq> ''''"
  shows "map_int (fold (\<lambda>node m. case counts (n_Name node) of None \<Rightarrow> m
      | Some cnt \<Rightarrow> if getZoneKey node = '''' then m else m(getZoneKey node \<mapsto> map_int m (getZoneKey node) + cnt)) nodes m) z
    = map_int m z + in_zone (map_int counts) nodes z"
  using assms(2)
proof (induction nodes arbitrary: m)
  case (Cons n nodes)
  then show ?case by (cases "counts (n_Name n)") (auto simp: in_zone_def map_int_def [of counts])
qed (simp add: in_zone_def)

lemma count_zones_dom:
  "dom (fold (\<lambda>node m. case counts (n_Name node) of None \<Rightarrow> m
      | Some cnt \<Rightarrow> if getZoneKey node = '''' then m else m(getZoneKey node \<mapsto> map_int m (getZoneKey node) + cnt)) nodes m)
    = dom m \<union> {getZoneKey n | n. n \<in> set nodes \<and> n_Name n \<in> dom counts \<and> getZoneKey n \<noteq> ''''}"
  by (induction nodes arbitrary: m) (auto split: option.splits)

lemma in_zone_nonneg: "(\<And>n. 0 \<le> f n) \<Longrightarrow> 0 \<le> in_zone f nodes z"
  by (auto simp: in_zone_def intro!: sum_list_nonneg)

lemma in_zone_ge: "(\<And>n. 0 \<le> f n) \<Longrightarrow> n \<in> set nodes \<Longrightarrow> f (n_Name n) \<le> in_zone f nodes (getZoneKey n)"
proof -
  assume f: "\<And>n. 0 \<le> f n" and n: "n \<in> set nodes"
  have "(if getZoneKey n = getZoneKey n then f (n_Name n) else 0) \<le> in_zone f nodes (getZoneKey n)"
    unfolding in_zone_def using f n by (intro member_le_sum_list) auto
  then show ?thesis by simp
qed

text \<open>What the zones count, when the counts are those of similar pods.\<close>

lemma zones_of_similar:
  fixes pf :: "string \<Rightarrow> 'f option" and gt :: "'f \<Rightarrow> 'f \<Rightarrow> bool" and selectors :: "Selector list"
    and pods :: "ListedPod list"
  defines "counts \<equiv> count_similar pf gt selectors pods"
  shows "z \<noteq> '''' \<Longrightarrow> map_int (count_zones counts nodes) z = in_zone (similar_on pf gt selectors pods) nodes z"
    and "finite (dom (count_zones counts nodes))"
    and "z \<in> dom (count_zones counts nodes) \<Longrightarrow> 0 < map_int (count_zones counts nodes) z"
    and "'''' \<notin> dom (count_zones counts nodes)"
proof -
  have f: "map_int counts = similar_on pf gt selectors pods" by (auto simp: counts_def count_similar_value)
  have nonneg: "0 \<le> map_int counts n" for n unfolding f by (rule similar_on_bounds)
  show v: "map_int (count_zones counts nodes) z = in_zone (similar_on pf gt selectors pods) nodes z" if "z \<noteq> ''''" for z
    unfolding count_zones_def Let_def using count_zones_fold [OF nonneg that, of nodes Map.empty] by (simp add: f)
  have d: "dom (count_zones counts nodes) = {getZoneKey n | n. n \<in> set nodes \<and> n_Name n \<in> dom counts \<and> getZoneKey n \<noteq> ''''}"
    unfolding count_zones_def Let_def using count_zones_dom [of counts nodes Map.empty] by simp
  show "finite (dom (count_zones counts nodes))" unfolding d by simp
  show "'''' \<notin> dom (count_zones counts nodes)" unfolding d by auto
  assume "z \<in> dom (count_zones counts nodes)"
  then obtain n where n: "z = getZoneKey n" "n \<in> set nodes" "n_Name n \<in> dom counts" "z \<noteq> ''''" unfolding d by auto
  have "0 < similar_on pf gt selectors pods (n_Name n)" using n(3) by (simp add: counts_def count_similar_value)
  also have "\<dots> \<le> in_zone (similar_on pf gt selectors pods) nodes z"
    unfolding n(1) by (rule in_zone_ge [OF similar_on_bounds(1) n(2)])
  finally show "0 < map_int (count_zones counts nodes) z" using v n(4) by simp
qed

lemma Max_support:
  assumes "finite B" and "A \<subseteq> B" and "\<And>x. x \<in> B - A \<Longrightarrow> f x = (0 :: int)"
  shows "Max (insert 0 (f ` A)) = Max (insert 0 (f ` B))"
proof -
  have "insert 0 (f ` A) = insert 0 (f ` B)" using assms(2,3) by force
  then show ?thesis by simp
qed

text \<open>The scores as a function of the counts on nodes and in zones.\<close>

lemma spread_value_score:
  assumes here: "\<And>n. 0 \<le> here n" "\<And>n. here n \<le> mx" and zone: "\<And>z. 0 \<le> zone z" "\<And>z. zone z \<le> mxZ"
  defines "score \<equiv> \<lambda>n z zoned. float_to_int (spread_value mx (here n) mxZ (zone z) zoned)"
  shows "score n z zoned \<in> {0..10}"
    and "here n \<le> here n' \<Longrightarrow> zone z \<le> zone z' \<Longrightarrow> score n' z' zoned \<le> score n z zoned"
    and "mx \<le> 2 ^ 19 \<Longrightarrow> score n z False = (if mx = 0 then 10 else 10 * (mx - here n) div mx)"
proof -
  note V = spread_value_facts [OF here zone]
  show "score n z zoned \<in> {0..10}" using V(1,2) float_to_int_range [of _ 10] by (simp add: score_def)
  show "score n' z' zoned \<le> score n z zoned" if "here n \<le> here n'" "zone z \<le> zone z'"
  proof -
    have "spread_value mx (here n) mxZ (zone z) zoned < 2 ^ 63" using V(2) [of n z zoned] by simp
    then show ?thesis unfolding score_def by (rule float_to_int_mono [OF V(1) V(3) [OF that]])
  qed
  show "score n z False = (if mx = 0 then 10 else 10 * (mx - here n) div mx)" if "mx \<le> 2 ^ 19"
    using free_tenths_exact [OF here that] by (simp add: score_def spread_value_def)
qed

text \<open>The counts of the code, for the similar pods of the lister.\<close>

definition similar_here ::
  "(string \<Rightarrow> 'f option) \<Rightarrow> ('f \<Rightarrow> 'f \<Rightarrow> bool) \<Rightarrow> sorter \<Rightarrow> (string, string) go_range \<Rightarrow> spread_listers \<Rightarrow> SchedPod
     \<Rightarrow> ListedPod list \<Rightarrow> string \<Rightarrow> int" where
  "similar_here pf gt srt rng s pod pods =
     similar_on pf gt (spread_selectors pf srt rng s pod) (filter (\<lambda>p. sp_Namespace p = sp_Namespace pod) pods)"

lemma similar_here_bounds:
  assumes "finite A"
  shows "0 \<le> similar_here pf gt srt rng s pod pods n"
    and "Max (insert 0 (similar_here pf gt srt rng s pod pods ` A)) \<le> int (length pods)"
proof -
  have "similar_here pf gt srt rng s pod pods n \<le> int (length pods)" for n
    unfolding similar_here_def using similar_on_bounds(2) length_filter_le by (metis of_nat_le_iff order_trans)
  then show "Max (insert 0 (similar_here pf gt srt rng s pod pods ` A)) \<le> int (length pods)" using assms by auto
qed (simp add: similar_here_def similar_on_bounds)

lemma CalculateSpreadPriority_value:
  fixes nodes :: "Node list"
  assumes "go_range_ok countRng" and "spread_selectors pf srt rng s pod \<noteq> []"
    and "podLister_List s Everything = Inr pods"
    and here: "here = similar_here pf gt srt rng s pod pods" and mx: "mx = Max (insert 0 (here ` sp_NodeName ` set pods))"
  shows "\<exists>zone mxZ zones. CalculateSpreadPriority pf gt srt rng countRng s pod nodeNameToInfo h (Inr nodes)
      = Inr (map (\<lambda>n. \<lparr>Host = n_Name n, Score = float_to_int (spread_value mx (here (n_Name n)) mxZ (zone (getZoneKey n))
          (zones \<and> getZoneKey n \<noteq> ''''))\<rparr>) nodes)
    \<and> (\<forall>n. here n \<le> mx) \<and> (\<forall>z. 0 \<le> zone z \<and> zone z \<le> mxZ)
    \<and> (\<forall>z. zone z = (if z = '''' then 0 else in_zone here nodes z))"
proof -
  define sels nsPods where "sels = spread_selectors pf srt rng s pod"
    and "nsPods = filter (\<lambda>p. sp_Namespace p = sp_Namespace pod) pods"
  define counts where "counts = count_similar pf gt sels nsPods"
  define zones where "zones = count_zones counts nodes"
  note Z = zones_of_similar [where pf = pf and gt = gt and selectors = sels and pods = nsPods and nodes = nodes,
    folded counts_def, folded zones_def]
  note fin = count_similar_finite [of pf gt sels nsPods, folded counts_def]
  have h: "here = similar_on pf gt sels nsPods" by (simp add: here similar_here_def sels_def nsPods_def)
  have c: "map_int counts = here" by (auto simp: counts_def count_similar_value h)
  have "dom counts \<subseteq> sp_NodeName ` set pods"
  proof
    fix n assume "n \<in> dom counts"
    then have "n \<in> sp_NodeName ` set nsPods"
      using similar_on_elsewhere [of n nsPods pf gt sels] by (auto simp: counts_def count_similar_value)
    then show "n \<in> sp_NodeName ` set pods" by (auto simp: nsPods_def)
  qed
  moreover have "n \<notin> dom counts \<Longrightarrow> here n = 0" for n using map_int_dom [of n counts] by (simp add: c)
  ultimately have m: "max_count countRng counts = mx"
    unfolding max_count_value [OF assms(1) fin] c mx by (intro Max_support) auto
  have zone: "map_int zones z = (if z = '''' then 0 else in_zone here nodes z)" for z
    using Z(1) [of z] map_int_dom [OF Z(4)] by (simp add: h)
  have bounds: "here n \<le> mx" "0 \<le> map_int zones z" "map_int zones z \<le> max_count countRng zones" for n z
  proof -
    have "0 \<le> in_zone here nodes z" unfolding h by (rule in_zone_nonneg [OF similar_on_bounds(1)])
    then show "0 \<le> map_int zones z" by (simp add: zone)
    show "here n \<le> mx" using max_count_ge [OF assms(1) fin, of n] by (simp add: m c)
    show "map_int zones z \<le> max_count countRng zones" by (rule max_count_ge [OF assms(1) Z(2)])
  qed
  have pos: "0 < max_count countRng zones" if "dom zones \<noteq> {}"
    using that Z(3) bounds(3) by (metis all_not_in_conv order_less_le_trans)
  have "CalculateSpreadPriority pf gt srt rng countRng s pod nodeNameToInfo h (Inr nodes)
      = Inr (map (\<lambda>n. \<lparr>Host = n_Name n, Score = float_to_int (spread_value mx (here (n_Name n))
          (max_count countRng zones) (map_int zones (getZoneKey n)) (dom zones \<noteq> {} \<and> getZoneKey n \<noteq> ''''))\<rparr>) nodes)"
    using assms(2,3) spread_score_value [OF pos, where mxN = mx and counts = counts]
    by (simp add: CalculateSpreadPriority_def sels_def [symmetric] nsPods_def [symmetric] counts_def [symmetric]
        m zones_def [symmetric] c)
  then show ?thesis using bounds zone by blast
qed

text \<open>
  C33: The scores for spreading.  Each node gets a score from 0 to 10.  Of two nodes that both have a zone
  or both have none, the one with at most as many similar pods, in a zone with at most as many, never scores
  lower.  Where no node has a zone the score is exactly ten times the share of the maximum that the node has
  fewer, rounded down.  A pod is similar if it has the namespace, is not being deleted and is selected by
  a service, controller or replica set of the pod.
\<close>

theorem spread_scores:
  fixes nodes :: "Node list"
  assumes "go_range_ok countRng" and "spread_selectors pf srt rng s pod \<noteq> []"
    and "podLister_List s Everything = Inr pods"
    and "here = similar_here pf gt srt rng s pod pods" and "mx = Max (insert 0 (here ` sp_NodeName ` set pods))"
  shows "\<exists>score. CalculateSpreadPriority pf gt srt rng countRng s pod nodeNameToInfo h (Inr nodes)
      = Inr (map (\<lambda>n. \<lparr>Host = n_Name n, Score = score n\<rparr>) nodes)
    \<and> (\<forall>n. score n \<in> {0..10})
    \<and> (\<forall>a b. (getZoneKey a = '''' \<longleftrightarrow> getZoneKey b = '''') \<and> here (n_Name a) \<le> here (n_Name b)
        \<and> (getZoneKey a \<noteq> '''' \<longrightarrow> in_zone here nodes (getZoneKey a) \<le> in_zone here nodes (getZoneKey b))
        \<longrightarrow> score b \<le> score a)
    \<and> (length pods \<le> 2 ^ 19 \<longrightarrow> (\<forall>n. getZoneKey n = ''''
        \<longrightarrow> score n = (if mx = 0 then 10 else 10 * (mx - here (n_Name n)) div mx)))"
proof -
  obtain zone mxZ zones where l: "CalculateSpreadPriority pf gt srt rng countRng s pod nodeNameToInfo h (Inr nodes)
      = Inr (map (\<lambda>n. \<lparr>Host = n_Name n, Score = float_to_int (spread_value mx (here (n_Name n)) mxZ (zone (getZoneKey n))
          (zones \<and> getZoneKey n \<noteq> ''''))\<rparr>) nodes)"
    and bounds: "\<And>n. here n \<le> mx" "\<And>z. 0 \<le> zone z" "\<And>z. zone z \<le> mxZ"
    and zone: "\<And>z. zone z = (if z = '''' then 0 else in_zone here nodes z)"
    using CalculateSpreadPriority_value [OF assms, of nodeNameToInfo h nodes] by blast
  define score where "score n = float_to_int (spread_value mx (here (n_Name n)) mxZ (zone (getZoneKey n))
    (zones \<and> getZoneKey n \<noteq> ''''))" for n
  have nonneg: "0 \<le> here n" for n using similar_here_bounds(1) [of "{}"] assms(4) by simp
  note S = spread_value_score [where here = here and zone = zone and mx = mx and mxZ = mxZ, OF nonneg bounds]
  have "score b \<le> score a" if *: "getZoneKey a = '''' \<longleftrightarrow> getZoneKey b = ''''" "here (n_Name a) \<le> here (n_Name b)"
      "getZoneKey a \<noteq> '''' \<longrightarrow> in_zone here nodes (getZoneKey a) \<le> in_zone here nodes (getZoneKey b)" for a b
  proof -
    have "zone (getZoneKey a) \<le> zone (getZoneKey b)" using * by (simp add: zone)
    then show ?thesis using S(2) [OF *(2), of "getZoneKey a" "getZoneKey b" "zones \<and> getZoneKey a \<noteq> ''''"] *(1)
      by (simp add: score_def)
  qed
  moreover have "score n = (if mx = 0 then 10 else 10 * (mx - here (n_Name n)) div mx)"
    if *: "length pods \<le> 2 ^ 19" "getZoneKey n = ''''" for n
  proof -
    have "mx \<le> int (length pods)" unfolding assms(5,4) by (rule similar_here_bounds(2)) simp
    then have "mx \<le> 2 ^ 19" using *(1) by simp
    then show ?thesis using S(3) [of "n_Name n" "getZoneKey n"] *(2) by (simp add: score_def)
  qed
  moreover have "\<forall>n. score n \<in> {0..10}" using S(1) by (simp add: score_def)
  ultimately show ?thesis using l by (intro exI [of _ score]) (simp add: score_def)
qed

definition web_selector :: label_Set where
  "web_selector = [''app'' \<mapsto> ''web'']"

definition web_pod :: "string \<Rightarrow> string \<Rightarrow> ListedPod" where
  "web_pod name node = \<lparr>sp_Name = name, sp_Namespace = ''ns'', sp_Labels = web_selector, sp_Annotations = Map.empty,
     sp_NodeName = node, sp_NodeSelector = Map.empty, Containers = [], Volumes = [], sp_DeletionTimestamp = None\<rparr>"

definition web_listers :: "ListedPod list \<Rightarrow> spread_listers" where
  "web_listers pods = \<lparr>podLister_List = (\<lambda>_. Inr pods), GetPodServices = (\<lambda>_. Inr [Some web_selector]),
     GetPodControllers = (\<lambda>_. Inl ''no controllers''), GetPodReplicaSets = (\<lambda>_. Inl ''no replica sets'')\<rparr>"

lemma web_matches:
  "Selector_Matches pf gt (SelectorFromSet pf (sort_key req_key) sorted_range (Some web_selector)) web_selector"
  using SelectorFromSet_valid [OF sort_ok_sort_key sorted_range_ok, of web_selector pf gt web_selector] valid_names
  by (simp add: web_selector_def)

theorem spread_scores_witness:
  "CalculateSpreadPriority (\<lambda>_. None :: nat option) (>) (sort_key req_key) sorted_range sorted_range
     (web_listers [web_pod ''p'' ''n'', web_pod ''q'' ''n'', web_pod ''r'' ''m'']) (selecting_pod Map.empty Map.empty)
     Map.empty [] (Inr [labelled_node Map.empty, (labelled_node Map.empty)\<lparr>n_Name := ''m''\<rparr>])
   = Inr [\<lparr>Host = ''n'', Score = 0\<rparr>, \<lparr>Host = ''m'', Score = 5\<rparr>]"
proof -
  let ?pf = "\<lambda>_. None :: nat option"
  let ?pods = "[web_pod ''p'' ''n'', web_pod ''q'' ''n'', web_pod ''r'' ''m'']"
  let ?pod = "selecting_pod Map.empty Map.empty"
  let ?nodes = "[labelled_node Map.empty, (labelled_node Map.empty)\<lparr>n_Name := ''m''\<rparr>]"
  define here where "here = similar_here ?pf (>) (sort_key req_key) sorted_range (web_listers ?pods) ?pod ?pods"
  have sel: "spread_selectors ?pf (sort_key req_key) sorted_range (web_listers ?pods) ?pod
      = [SelectorFromSet ?pf (sort_key req_key) sorted_range (Some web_selector)]"
    by (simp add: spread_selectors_def web_listers_def)
  have counts: "here ''n'' = 2" "here ''m'' = 1"
    unfolding here_def similar_here_def sel
    by (simp_all add: similar_on_def web_pod_def selecting_pod_def web_matches)
  have mx: "Max (insert 0 (here ` sp_NodeName ` set ?pods)) = 2" by (simp add: web_pod_def counts)
  have zones: "getZoneKey n = ''''" if "n \<in> set ?nodes" for n
    using that by (auto simp: getZoneKey_def labelled_node_def Set_Get_def)
  have pods: "podLister_List (web_listers ?pods) Everything = Inr ?pods" by (simp add: web_listers_def)
  obtain score where "CalculateSpreadPriority ?pf (>) (sort_key req_key) sorted_range sorted_range (web_listers ?pods) ?pod
      Map.empty [] (Inr ?nodes) = Inr (map (\<lambda>n. \<lparr>Host = n_Name n, Score = score n\<rparr>) ?nodes)"
    and "\<forall>n. getZoneKey n = '''' \<longrightarrow> score n = 10 * (2 - here (n_Name n)) div 2"
    using spread_scores [OF sorted_range_ok _ pods here_def refl, where nodeNameToInfo = Map.empty and h = "[]" and nodes = ?nodes] sel mx by auto
  then show ?thesis using zones counts by (simp add: labelled_node_def)
qed

section \<open>Spreading over the values of a label\<close>

lemma label_nodes_value:
  fixes nodes :: "Node list"
  assumes "distinct (map n_Name nodes)"
  shows "fst (label_nodes label nodes) k = Some v \<longleftrightarrow> (\<exists>n \<in> set nodes. n_Name n = k \<and> n_Labels n label = Some v)"
    and "finite (dom (fst (label_nodes label nodes)))"
    and "snd (label_nodes label nodes) = map n_Name (filter (\<lambda>n. n_Labels n label = None) nodes)"
proof -
  let ?has = "filter (\<lambda>n. n_Labels n label \<noteq> None) nodes"
  let ?entries = "map (\<lambda>n. (n_Name n, Set_Get (n_Labels n) label)) ?has"
  have fold: "fold (\<lambda>node (labeledNodes, otherNodes).
         if Set_Has (n_Labels node) label
         then (labeledNodes(n_Name node \<mapsto> Set_Get (n_Labels node) label), otherNodes)
         else (labeledNodes, otherNodes @ [n_Name node])) nodes (m, others)
    = (m ++ map_of (map (\<lambda>n. (n_Name n, Set_Get (n_Labels n) label)) (filter (\<lambda>n. n_Labels n label \<noteq> None) nodes)),
       others @ map n_Name (filter (\<lambda>n. n_Labels n label = None) nodes))" for m others
    using assms
  proof (induction nodes arbitrary: m others)
    case (Cons n nodes)
    have "n_Name n \<notin> dom (map_of (map (\<lambda>n. (n_Name n, Set_Get (n_Labels n) label)) (filter (\<lambda>n. n_Labels n label \<noteq> None) nodes)))"
      using Cons.prems by (auto simp: dom_map_of_conv_image_fst)
    then show ?case using Cons
      by (auto simp: Set_Has_def map_add_upd_left) (auto simp: map_add_def fun_eq_iff split: option.splits)
  qed simp
  have d: "distinct (map fst ?entries)" using assms by (simp add: comp_def distinct_map_filter)
  show "fst (label_nodes label nodes) k = Some v \<longleftrightarrow> (\<exists>n \<in> set nodes. n_Name n = k \<and> n_Labels n label = Some v)"
    unfolding label_nodes_def fold using map_of_eq_Some_iff [OF d, of k v] by (auto simp: Set_Get_def)
  show "finite (dom (fst (label_nodes label nodes)))" unfolding label_nodes_def fold by (simp add: finite_dom_map_of)
  show "snd (label_nodes label nodes) = map n_Name (filter (\<lambda>n. n_Labels n label = None) nodes)"
    unfolding label_nodes_def fold by simp
qed

lemma count_labels_value:
  "map_int (count_labels labeledNodes pods) v = int (length (filter (\<lambda>p. labeledNodes (sp_NodeName p) = Some v) pods))"
proof -
  have "map_int (fold (\<lambda>pod m. case labeledNodes (sp_NodeName pod) of None \<Rightarrow> m
      | Some label \<Rightarrow> m(label \<mapsto> map_int m label + 1)) pods m) v
    = map_int m v + int (length (filter (\<lambda>p. labeledNodes (sp_NodeName p) = Some v) pods))" for m
    by (induction pods arbitrary: m) (auto split: option.splits)
  then show ?thesis by (simp add: count_labels_def)
qed

lemma label_score_exact:
  assumes "0 \<le> map_int counts v" and "map_int counts v \<le> num" and "num \<le> 2 ^ 19"
  shows "label_score num counts (n, v) =
    \<lparr>Host = n, Score = if num = 0 then 10 else 10 * (num - map_int counts v) div num\<rparr>"
proof -
  have "label_score num counts (n, v) = \<lparr>Host = n, Score = float_to_int (free_tenths num (map_int counts v))\<rparr>"
    by (simp add: label_score_def free_tenths_def tenths_def float32_def)
  then show ?thesis by (simp only: free_tenths_exact [OF assms])
qed

text \<open>
  Spreading a service over the values of a label of the nodes: a node without the label scores 0, and one with a
  value of it scores ten times the share of the service's pods that are not on nodes with this value,
  rounded down, or 10 if the service has no pods.
\<close>

theorem anti_affinity_scores:
  fixes nodes :: "Node list"
  assumes "go_range_ok rng" and "distinct (map n_Name nodes)"
    and "GetPodServices s pod = Inr (svc # svcs)" and "podLister_List s (SelectorFromSet pf srt rng svc) = Inr pods"
    and "nsPods = filter (\<lambda>p. sp_Namespace p = sp_Namespace pod) pods" and "length nsPods \<le> 2 ^ 19"
  shows "\<exists>l. CalculateAntiAffinityPriority pf srt rng s label pod (Inr nodes) = Some (Inr l)
    \<and> set l = (\<lambda>n. \<lparr>Host = n_Name n, Score = case n_Labels n label of None \<Rightarrow> 0
        | Some v \<Rightarrow> let num = int (length nsPods);
              same = int (length (filter (\<lambda>p. \<exists>n \<in> set nodes. n_Name n = sp_NodeName p \<and> n_Labels n label = Some v) nsPods))
            in if num = 0 then 10 else 10 * (num - same) div num\<rparr>) ` set nodes"
proof -
  obtain labeled others where L: "label_nodes label nodes = (labeled, others)" by (cases "label_nodes label nodes")
  note V = label_nodes_value [OF assms(2), of label, unfolded L fst_conv snd_conv]
  let ?num = "int (length nsPods)"
  let ?same = "\<lambda>v. int (length (filter (\<lambda>p. \<exists>n \<in> set nodes. n_Name n = sp_NodeName p \<and> n_Labels n label = Some v) nsPods))"
  define score where "score v = (if ?num = 0 then 10 else 10 * (?num - ?same v) div ?num)" for v
  let ?l = "map (label_score ?num (count_labels labeled nsPods)) (rng labeled) @ map (\<lambda>node. \<lparr>Host = node, Score = 0\<rparr>) others"
  have c: "map_int (count_labels labeled nsPods) v = ?same v" for v by (simp add: count_labels_value V(1))
  have "?num \<le> 2 ^ 19" using assms(6) by simp
  then have label: "label_score ?num (count_labels labeled nsPods) e = \<lparr>Host = fst e, Score = score (snd e)\<rparr>" for e
    using label_score_exact [of "count_labels labeled nsPods" "snd e" ?num "fst e"] unfolding c by (simp add: score_def)
  have run: "CalculateAntiAffinityPriority pf srt rng s label pod (Inr nodes) = Some (Inr ?l)"
    using assms(3,4,5) L by (simp add: CalculateAntiAffinityPriority_def)
  have entries: "e \<in> set (rng labeled) \<longleftrightarrow> (\<exists>n \<in> set nodes. n_Name n = fst e \<and> n_Labels n label = Some (snd e))" for e
    using map_entries_mem [OF go_rangeD [OF assms(1) V(2)], of "fst e" "snd e"] V(1) by simp
  define A B where "A = {n \<in> set nodes. n_Labels n label \<noteq> None}" and "B = {n \<in> set nodes. n_Labels n label = None}"
  have rng: "set (rng labeled) = (\<lambda>n. (n_Name n, the (n_Labels n label))) ` A"
    unfolding A_def by (rule set_eqI) (auto simp: entries image_iff)
  have others: "set others = n_Name ` B" unfolding V(3) B_def by auto
  have "set ?l = (\<lambda>e. \<lparr>Host = fst e, Score = score (snd e)\<rparr>) ` set (rng labeled) \<union> (\<lambda>k. \<lparr>Host = k, Score = 0\<rparr>) ` set others"
    by (simp add: label)
  also have "\<dots> = (\<lambda>n. \<lparr>Host = n_Name n, Score = score (the (n_Labels n label))\<rparr>) ` A \<union> (\<lambda>n. \<lparr>Host = n_Name n, Score = 0\<rparr>) ` B"
    unfolding rng others image_image by simp
  also have "\<dots> = (\<lambda>n. \<lparr>Host = n_Name n, Score = case n_Labels n label of None \<Rightarrow> 0 | Some v \<Rightarrow> score v\<rparr>) ` (A \<union> B)"
    unfolding image_Un by (intro arg_cong2 [where f = "(\<union>)"] image_cong refl) (auto simp: A_def B_def)
  also have "A \<union> B = set nodes" by (auto simp: A_def B_def)
  finally have "set ?l = (\<lambda>n. \<lparr>Host = n_Name n, Score = case n_Labels n label of None \<Rightarrow> 0 | Some v \<Rightarrow> score v\<rparr>) ` set nodes" .
  then show ?thesis using run unfolding score_def Let_def by blast
qed

section \<open>As priority functions\<close>

interpretation balanced_allocation: covering_priority BalancedResourceAllocation
  by (rule covering_priorityI)
    (simp add: BalancedResourceAllocation_def image_image calculateBalancedResourceAllocation_sums)

interpretation node_affinity: priority_function "CalculateNodeAffinityPriority pf gt srt json msg" for pf gt srt json msg
  by unfold_locales
    (auto simp: CalculateNodeAffinityPriority_def affinity_score_def image_image split: sum.splits option.splits prod.splits)

interpretation selector_spread: priority_function "CalculateSpreadPriority pf gt srt rng countRng s"
    for pf gt srt rng countRng s
  by unfold_locales
    (auto simp: CalculateSpreadPriority_def spread_score_def image_image split: sum.splits if_splits)

end
