(* ===== verification/Scheduler_Cache_Props.thy ===== *)
theory Scheduler_Cache_Props
  imports Scheduler_Cache
begin

text \<open>
  The cache against a view of what it was told.  A pod matters to the cache by its key, its node
  and the resources it requests, its \<^emph>\<open>footprint\<close>; the view has the footprints of the pods the
  cache tracks, and of those it was told to add back after they had expired.
\<close>

section \<open>Footprints\<close>

record footprint =
  fkey :: key
  foot_node :: string
  foot_res :: "int \<times> int \<times> int \<times> int"

definition pod_key :: "SchedPod \<Rightarrow> key" where
  "pod_key pod = (if sp_Namespace pod = [] then sp_Name pod else sp_Namespace pod @ ''/'' @ sp_Name pod)"

lemma getPodKey [simp]: "getPodKey pod = Inr (pod_key pod)"
  by (simp add: getPodKey_def MetaNamespaceKeyFunc_def pod_accessor_def pod_key_def)

definition foot :: "SchedPod \<Rightarrow> footprint" where
  "foot pod = \<lparr>fkey = pod_key pod, foot_node = sp_NodeName pod, foot_res = calculateResource pod\<rparr>"

lemma foot_simps [simp]: "fkey (foot pod) = pod_key pod" "foot_node (foot pod) = sp_NodeName pod"
  "foot_res (foot pod) = calculateResource pod"
  by (simp_all add: foot_def)

abbreviation on_node :: "string \<Rightarrow> footprint multiset \<Rightarrow> footprint multiset" where
  "on_node name F \<equiv> filter_mset (\<lambda>f. foot_node f = name) F"

text \<open>The sums of requests, as the machine computes them.\<close>

definition requested :: "footprint multiset \<Rightarrow> Resource" where
  "requested F = \<lparr>MilliCPU = go_int (\<Sum>f\<in>#F. fst (foot_res f)), Memory = go_int (\<Sum>f\<in>#F. fst (snd (foot_res f)))\<rparr>"

definition requested_nonzero :: "footprint multiset \<Rightarrow> Resource" where
  "requested_nonzero F = \<lparr>MilliCPU = go_int (\<Sum>f\<in>#F. fst (snd (snd (foot_res f)))),
     Memory = go_int (\<Sum>f\<in>#F. snd (snd (snd (foot_res f))))\<rparr>"

lemma go_int_add:
  "go_int (go_int a + b) = go_int (a + b)" "go_int (b + go_int a) = go_int (b + a)" "go_int (go_int a - b) = go_int (a - b)"
proof -
  have idem: "signed_take_bit 63 (signed_take_bit 63 a) = signed_take_bit 63 a" for a :: int by simp
  show "go_int (go_int a + b) = go_int (a + b)"
    unfolding go_int_def by (metis idem signed_take_bit_add)
  then show "go_int (b + go_int a) = go_int (b + a)" by (simp add: add.commute)
  show "go_int (go_int a - b) = go_int (a - b)"
    unfolding go_int_def by (metis idem signed_take_bit_diff)
qed

section \<open>One node\<close>

definition node_rel :: "memory \<Rightarrow> NodeInfo \<Rightarrow> footprint multiset \<Rightarrow> bool" where
  "node_rel h n M \<longleftrightarrow> image_mset foot (mset (ni_pods n)) = M
     \<and> requestedResource n < length h \<and> nonzeroRequest n < length h \<and> requestedResource n \<noteq> nonzeroRequest n
     \<and> h ! requestedResource n = requested M \<and> h ! nonzeroRequest n = requested_nonzero M"

definition same_ptrs :: "NodeInfo \<Rightarrow> NodeInfo \<Rightarrow> bool" where
  "same_ptrs n m \<longleftrightarrow> requestedResource n = requestedResource m \<and> nonzeroRequest n = nonzeroRequest m"

definition ptrs :: "NodeInfo \<Rightarrow> ptr set" where
  "ptrs n = {requestedResource n, nonzeroRequest n}"

definition frame :: "ptr set \<Rightarrow> memory \<Rightarrow> memory \<Rightarrow> bool" where
  "frame P h h' \<longleftrightarrow> length h \<le> length h' \<and> (\<forall>p. p < length h \<longrightarrow> p \<notin> P \<longrightarrow> h' ! p = h ! p)"

lemma ni_addPod_rel:
  assumes "node_rel h n M" and "ni_addPod pod (n, h) = (n', h')"
  shows "node_rel h' n' (add_mset (foot pod) M)" and "same_ptrs n n'" and "frame (ptrs n) h h'"
proof -
  obtain a b c d where r: "calculateResource pod = (a, b, c, d)" by (metis surj_pair)
  have "foot_res (foot pod) = (a, b, c, d)" using r by simp
  then show "node_rel h' n' (add_mset (foot pod) M)" "same_ptrs n n'" "frame (ptrs n) h h'"
    using assms by (auto simp: ni_addPod_def r node_rel_def same_ptrs_def frame_def ptrs_def add_resource_def
        requested_def requested_nonzero_def go_int_add add.commute [of "go_int _"] ac_simps)
qed

lemma find_pod_Some:
  assumes "k \<in> pod_key ` set ps"
  obtains i where "find_pod k ps = Some i" "i < length ps" "pod_key (ps ! i) = k"
  using assms
proof (induction ps arbitrary: thesis)
  case (Cons p ps)
  show ?case
  proof (cases "pod_key p = k")
    case True
    then show ?thesis using Cons.prems(1) [of 0] by simp
  next
    case False
    then obtain i where "find_pod k ps = Some i" "i < length ps" "pod_key (ps ! i) = k"
      using Cons by auto
    then show ?thesis using False Cons.prems(1) [of "Suc i"] by auto
  qed
qed simp

lemma mset_swap_remove:
  assumes "i < length xs"
  shows "mset (butlast (xs[i := last xs])) = mset xs - {#xs ! i#}"
proof -
  obtain ys y where xs: "xs = ys @ [y]" using assms by (cases xs rule: rev_cases) auto
  show ?thesis
  proof (cases "i < length ys")
    case True
    then show ?thesis by (simp add: xs list_update_append1 mset_update nth_append)
  next
    case False
    then have "i = length ys" using assms xs by simp
    then show ?thesis by (simp add: xs)
  qed
qed

lemma ni_removePod_rel:
  assumes "node_rel h n M" and "foot pod \<in># M" and "\<And>f. f \<in># M \<Longrightarrow> fkey f = pod_key pod \<Longrightarrow> f = foot pod"
  obtains n' h' where "ni_removePod pod (n, h) = (None, n', h')" "node_rel h' n' (M - {#foot pod#})"
    "same_ptrs n n'" "frame (ptrs n) h h'"
proof -
  obtain a b c d where r: "calculateResource pod = (a, b, c, d)" by (metis surj_pair)
  have fr: "foot_res (foot pod) = (a, b, c, d)" using r by simp
  have M: "image_mset foot (mset (ni_pods n)) = M" using assms(1) by (simp add: node_rel_def)
  have "pod_key pod \<in> pod_key ` set (ni_pods n)"
    using assms(2) unfolding M [symmetric] by (force dest: arg_cong [of _ _ fkey])
  then obtain i where i: "find_pod (pod_key pod) (ni_pods n) = Some i" "i < length (ni_pods n)"
    "pod_key (ni_pods n ! i) = pod_key pod" using find_pod_Some by metis
  have "foot (ni_pods n ! i) \<in># M" using i(2) unfolding M [symmetric] by simp
  then have fi: "foot (ni_pods n ! i) = foot pod" using assms(3) i(3) by simp
  have "image_mset foot (mset (ni_pods n) - {#ni_pods n ! i#}) = M - {#foot pod#}"
    using i(2) by (simp add: image_mset_Diff M fi)
  moreover obtain N where N: "M = add_mset (foot pod) N" using assms(2) by (metis insert_DiffM)
  ultimately show ?thesis
    using assms(1) i(1,2)
    by (intro that [of "n\<lparr>ni_pods := butlast ((ni_pods n)[i := last (ni_pods n)])\<rparr>"
          "sub_resource (nonzeroRequest n) c d (sub_resource (requestedResource n) a b h)"])
      (auto simp: ni_removePod_def r fr node_rel_def same_ptrs_def frame_def ptrs_def sub_resource_def
        requested_def requested_nonzero_def go_int_add mset_swap_remove)
qed

section \<open>All nodes\<close>

definition nodes_rel :: "memory \<Rightarrow> (string \<rightharpoonup> NodeInfo) \<Rightarrow> footprint multiset \<Rightarrow> bool" where
  "nodes_rel h nodes F \<longleftrightarrow>
     (\<forall>name. case nodes name of
        None \<Rightarrow> on_node name F = {#}
      | Some n \<Rightarrow> on_node name F \<noteq> {#} \<and> node_rel h n (on_node name F))
     \<and> (\<forall>a b n m. nodes a = Some n \<longrightarrow> nodes b = Some m \<longrightarrow> a \<noteq> b \<longrightarrow> ptrs n \<inter> ptrs m = {})"

lemma nodes_rel_name: "nodes_rel h nodes F \<Longrightarrow> case nodes name of
    None \<Rightarrow> on_node name F = {#} | Some n \<Rightarrow> on_node name F \<noteq> {#} \<and> node_rel h n (on_node name F)"
  unfolding nodes_rel_def by (drule conjunct1, erule spec)

lemma nodes_relD: "nodes_rel h nodes F \<Longrightarrow> nodes name = Some n \<Longrightarrow> on_node name F \<noteq> {#} \<and> node_rel h n (on_node name F)"
  using nodes_rel_name [of h nodes F name] by simp

lemma nodes_relN: "nodes_rel h nodes F \<Longrightarrow> nodes name = None \<Longrightarrow> on_node name F = {#}"
  using nodes_rel_name [of h nodes F name] by simp

lemma nodes_rel_disjoint: "nodes_rel h nodes F \<Longrightarrow> nodes a = Some n \<Longrightarrow> nodes b = Some m \<Longrightarrow> a \<noteq> b \<Longrightarrow> ptrs n \<inter> ptrs m = {}"
  unfolding nodes_rel_def by blast

lemma node_rel_frame:
  assumes "node_rel h n M" and "frame P h h'" and "ptrs n \<inter> P = {}"
  shows "node_rel h' n M"
  using assms by (auto simp: node_rel_def frame_def ptrs_def)

lemma node_rel_ptrs: "node_rel h n M \<Longrightarrow> p \<in> ptrs n \<Longrightarrow> p < length h"
  by (auto simp: node_rel_def ptrs_def)

text \<open>Changing one node, in a way that leaves the memory of the others alone.\<close>

lemma nodes_rel_upd:
  assumes "nodes_rel h nodes F" and "frame P h h'" and "\<And>b m. nodes b = Some m \<Longrightarrow> b \<noteq> name \<Longrightarrow> ptrs m \<inter> P = {}"
    and "\<And>b. b \<noteq> name \<Longrightarrow> on_node b F' = on_node b F"
    and "case n of None \<Rightarrow> on_node name F' = {#} | Some n \<Rightarrow> on_node name F' \<noteq> {#} \<and> node_rel h' n (on_node name F')"
    and "\<And>b m n'. n = Some n' \<Longrightarrow> nodes b = Some m \<Longrightarrow> b \<noteq> name \<Longrightarrow> ptrs n' \<inter> ptrs m = {}"
  shows "nodes_rel h' (nodes(name := n)) F'"
  unfolding nodes_rel_def
proof (intro conjI allI impI)
  fix b
  show "case (nodes(name := n)) b of None \<Rightarrow> on_node b F' = {#}
      | Some n \<Rightarrow> on_node b F' \<noteq> {#} \<and> node_rel h' n (on_node b F')"
  proof (cases "b = name")
    case True
    show ?thesis unfolding True using assms(5) by simp
  next
    case False
    show ?thesis
    proof (cases "nodes b")
      case None
      then show ?thesis using False assms(4) [OF False] nodes_relN [OF assms(1) None] by simp
    next
      case (Some m)
      then show ?thesis
        using False assms(4) [OF False] nodes_relD [OF assms(1) Some] node_rel_frame [OF _ assms(2) assms(3) [OF Some False]]
        by simp
    qed
  qed
next
  fix a b n1 m
  assume *: "(nodes(name := n)) a = Some n1" "(nodes(name := n)) b = Some m" "a \<noteq> b"
  consider "a = name" "b \<noteq> name" | "a \<noteq> name" "b = name" | "a \<noteq> name" "b \<noteq> name" using *(3) by blast
  then show "ptrs n1 \<inter> ptrs m = {}"
  proof cases
    case 1
    then show ?thesis using * assms(6) [of n1 b m] by simp
  next
    case 2
    then show ?thesis using * assms(6) [of m a n1] by (simp add: Int_commute)
  next
    case 3
    then show ?thesis using * nodes_rel_disjoint [OF assms(1)] by simp
  qed
qed

lemma NewNodeInfo_rel:
  obtains n h' where "NewNodeInfo [] h = (n, h')" "node_rel h' n {#}" "frame {} h h'" "ptrs n \<inter> {..<length h} = {}"
  by (rule that [OF NewNodeInfo_def [THEN trans]])
    (auto simp: node_rel_def requested_def requested_nonzero_def emptyResource_def frame_def ptrs_def nth_append go_int_def)

text \<open>Adding a pod to the nodes, as both the cache and \<^verbatim>\<open>CreateNodeNameToInfoMap\<close> do it.\<close>

lemma add_pod_rel:
  assumes "nodes_rel h nodes F"
    and "(case nodes (sp_NodeName pod) of Some n \<Rightarrow> (n, h) | None \<Rightarrow> NewNodeInfo [] h) = (n1, h1)"
    and "ni_addPod pod (n1, h1) = (n2, h2)"
  shows "nodes_rel h2 (nodes(sp_NodeName pod \<mapsto> n2)) (add_mset (foot pod) F)"
proof -
  let ?name = "sp_NodeName pod"
  have 1: "node_rel h1 n1 (on_node ?name F) \<and> frame {} h h1
      \<and> (\<forall>b m. nodes b = Some m \<longrightarrow> b \<noteq> ?name \<longrightarrow> ptrs n1 \<inter> ptrs m = {})"
  proof (cases "nodes ?name")
    case None
    obtain n h' where new: "NewNodeInfo [] h = (n, h')" "node_rel h' n {#}" "frame {} h h'" "ptrs n \<inter> {..<length h} = {}"
      by (rule NewNodeInfo_rel)
    have "ptrs m \<subseteq> {..<length h}" if "nodes b = Some m" for b m
      using node_rel_ptrs [OF conjunct2 [OF nodes_relD [OF assms(1) that]]] by auto
    then have "\<forall>b m. nodes b = Some m \<longrightarrow> ptrs n \<inter> ptrs m = {}" using new(4) by blast
    moreover have "n1 = n" "h1 = h'" using assms(2) None new(1) by simp_all
    ultimately show ?thesis using new(2,3) unfolding nodes_relN [OF assms(1) None] by simp
  next
    case (Some n)
    then have "n1 = n" "h1 = h" using assms(2) by simp_all
    then show ?thesis using nodes_relD [OF assms(1) Some] nodes_rel_disjoint [OF assms(1) Some] by (auto simp: frame_def)
  qed
  note 2 = ni_addPod_rel [OF conjunct1 [OF 1] assms(3)]
  have p: "ptrs n2 = ptrs n1" using 2(2) by (auto simp: same_ptrs_def ptrs_def)
  have fr: "frame (ptrs n1) h h2" using 1 2(3) unfolding frame_def by (metis empty_iff le_trans less_le_trans)
  show ?thesis
  proof (rule nodes_rel_upd [OF assms(1) fr])
    show "ptrs m \<inter> ptrs n1 = {}" if "nodes b = Some m" "b \<noteq> ?name" for b m
      using 1 that by blast
    show "ptrs n' \<inter> ptrs m = {}" if "Some n2 = Some n'" "nodes b = Some m" "b \<noteq> ?name" for b m n'
      using 1 p that by auto
  qed (use 2(1) in simp_all)
qed

lemma delete_pod_rel:
  assumes "nodes_rel (sc_memory c) (sc_nodes c) F" and "foot pod \<in># F"
    and "\<And>f. f \<in># F \<Longrightarrow> fkey f = pod_key pod \<Longrightarrow> f = foot pod"
  obtains ns h where "sc_deletePod pod c = Some (None, c\<lparr>sc_nodes := ns, sc_memory := h\<rparr>)"
    "nodes_rel h ns (F - {#foot pod#})"
proof -
  let ?name = "sp_NodeName pod"
  have in_node: "foot pod \<in># on_node ?name F" using assms(2) by simp
  then obtain n where n: "sc_nodes c ?name = Some n" using nodes_relN [OF assms(1)] by (cases "sc_nodes c ?name") force+
  note rel = conjunct2 [OF nodes_relD [OF assms(1) n]]
  obtain n' h' where r: "ni_removePod pod (n, sc_memory c) = (None, n', h')"
    "node_rel h' n' (on_node ?name F - {#foot pod#})" "same_ptrs n n'" "frame (ptrs n) (sc_memory c) h'"
    by (rule ni_removePod_rel [OF rel in_node]) (use assms(3) in auto)
  have p: "ptrs n' = ptrs n" using r(3) by (auto simp: same_ptrs_def ptrs_def)
  have on: "on_node ?name (F - {#foot pod#}) = on_node ?name F - {#foot pod#}" by simp
  have len: "length (ni_pods n') = 0 \<longleftrightarrow> on_node ?name (F - {#foot pod#}) = {#}"
    using r(2) unfolding on node_rel_def by auto
  define ns where "ns = (sc_nodes c)(?name := (if length (ni_pods n') = 0 then None else Some n'))"
  have "nodes_rel h' ns (F - {#foot pod#})"
    unfolding ns_def
  proof (rule nodes_rel_upd [OF assms(1) r(4)])
    show "ptrs m \<inter> ptrs n = {}" if "sc_nodes c b = Some m" "b \<noteq> ?name" for b m
      using nodes_rel_disjoint [OF assms(1) that(1) n that(2)] .
    show "on_node b (F - {#foot pod#}) = on_node b F" if "b \<noteq> ?name" for b using that by simp
    show "ptrs n1 \<inter> ptrs m = {}" if "(if length (ni_pods n') = 0 then None else Some n') = Some n1"
      "sc_nodes c b = Some m" "b \<noteq> ?name" for b m n1
      using nodes_rel_disjoint [OF assms(1) that(2) n that(3)] that(1) p by (auto split: if_splits)
    show "case if length (ni_pods n') = 0 then None else Some n' of
        None \<Rightarrow> on_node ?name (F - {#foot pod#}) = {#}
      | Some n \<Rightarrow> on_node ?name (F - {#foot pod#}) \<noteq> {#} \<and> node_rel h' n (on_node ?name (F - {#foot pod#}))"
      using len r(2) unfolding on by (cases "length (ni_pods n') = 0") simp_all
  qed
  moreover have "sc_deletePod pod c = Some (None, c\<lparr>sc_nodes := ns, sc_memory := h'\<rparr>)"
    by (simp add: sc_deletePod_def n r(1) ns_def)
  ultimately show ?thesis using that by blast
qed

lemma sc_addPod_rel:
  assumes "nodes_rel (sc_memory c) (sc_nodes c) F"
  obtains ns h where "sc_addPod pod c = c\<lparr>sc_nodes := ns, sc_memory := h\<rparr>" "nodes_rel h ns (add_mset (foot pod) F)"
proof -
  obtain n1 h1 where 1: "(case sc_nodes c (sp_NodeName pod) of Some n \<Rightarrow> (n, sc_memory c)
      | None \<Rightarrow> NewNodeInfo [] (sc_memory c)) = (n1, h1)" by (metis surj_pair)
  obtain n2 h2 where 2: "ni_addPod pod (n1, h1) = (n2, h2)" by (metis surj_pair)
  show ?thesis using that [OF _ add_pod_rel [OF assms 1 2]] by (simp add: sc_addPod_def 1 2)
qed

section \<open>The view\<close>

text \<open>
  Ghost state: what the events told the cache.  The pods in \<open>told\<close> are those the cache tracks (it
  has a state for them), each as it was last seen, with the deadline of a pod that is only assumed.
  The pods in \<open>orphans\<close> were added back after their assumption expired: the cache counts them on
  their nodes and does not track them.
\<close>

record sched_view =
  told :: "key \<rightharpoonup> footprint \<times> int option"
  orphans :: "footprint multiset"

definition feet :: "(key \<rightharpoonup> footprint \<times> int option) \<Rightarrow> footprint multiset" where
  "feet T = image_mset (\<lambda>k. fst (the (T k))) (mset_set (dom T))"

definition all_feet :: "sched_view \<Rightarrow> footprint multiset" where
  "all_feet v = feet (told v) + orphans v"

lemma feet_new:
  assumes "finite (dom T)" and "T k = None"
  shows "feet (T(k \<mapsto> (f, d))) = add_mset f (feet T)"
proof -
  have k: "k \<notin> dom T" using assms(2) by auto
  then have "mset_set (dom (T(k \<mapsto> (f, d)))) = add_mset k (mset_set (dom T))" using assms(1) by simp
  moreover have "image_mset (\<lambda>x. fst (the ((T(k \<mapsto> (f, d))) x))) (mset_set (dom T)) = feet T"
    unfolding feet_def using k assms(1) by (intro image_mset_cong) auto
  ultimately show ?thesis by (simp add: feet_def)
qed

lemma feet_remove: "finite (dom T) \<Longrightarrow> T k = Some (f, d) \<Longrightarrow> feet T = add_mset f (feet (T(k := None)))"
  using feet_new [of "T(k := None)" k f d] by (simp add: map_upd_triv)

lemma feet_change: "finite (dom T) \<Longrightarrow> feet (T(k \<mapsto> (f, d))) = add_mset f (feet (T(k := None)))"
  using feet_new [of "T(k := None)" k f d] by simp

lemma feet_mem: "finite (dom T) \<Longrightarrow> f \<in># feet T \<longleftrightarrow> (\<exists>k d. T k = Some (f, d))"
proof -
  assume fin: "finite (dom T)"
  show ?thesis
  proof
    assume "f \<in># feet T"
    then obtain k where "k \<in> dom T" "f = fst (the (T k))" using fin by (auto simp: feet_def)
    then show "\<exists>k d. T k = Some (f, d)" by (metis domD option.sel prod.collapse)
  next
    assume "\<exists>k d. T k = Some (f, d)"
    then obtain k d where "T k = Some (f, d)" by blast
    then show "f \<in># feet T" using fin by (force simp: feet_def)
  qed
qed

definition view_ok :: "sched_view \<Rightarrow> bool" where
  "view_ok v \<longleftrightarrow> finite (dom (told v)) \<and> (\<forall>k f d. told v k = Some (f, d) \<longrightarrow> fkey f = k)
     \<and> (\<forall>f. f \<in># orphans v \<longrightarrow> told v (fkey f) = None)"

lemma view_key_unique:
  assumes "view_ok v" and "told v k = Some (f, d)" and "g \<in># all_feet v" and "fkey g = k"
  shows "g = f"
proof -
  have v: "finite (dom (told v))" "\<And>k f d. told v k = Some (f, d) \<Longrightarrow> fkey f = k"
    "\<And>f. f \<in># orphans v \<Longrightarrow> told v (fkey f) = None"
    using assms(1) unfolding view_ok_def by blast+
  from assms(3) consider "g \<in># feet (told v)" | "g \<in># orphans v" by (auto simp: all_feet_def)
  then show ?thesis
  proof cases
    case 1
    then obtain k' d' where "told v k' = Some (g, d')" using feet_mem [OF v(1)] by blast
    then show ?thesis using v(2) [of k' g d'] assms(2,4) by simp
  next
    case 2
    then show ?thesis using v(3) [of g] assms(2,4) by simp
  qed
qed

definition cache_rel :: "schedulerCache \<Rightarrow> sched_view \<Rightarrow> bool" where
  "cache_rel c v \<longleftrightarrow> view_ok v \<and> nodes_rel (sc_memory c) (sc_nodes c) (all_feet v)
     \<and> dom (podStates c) = dom (told v)
     \<and> assumedPods c = {k. \<exists>f d. told v k = Some (f, Some d)}
     \<and> (\<forall>k f d. told v k = Some (f, Some d) \<longrightarrow>
          (\<exists>ps. podStates c k = Some ps \<and> foot (ps_pod ps) = f \<and> deadline ps = d))"

section \<open>The operations\<close>

lemma cache_relD:
  assumes "cache_rel c v"
  shows "finite (dom (told v))" "told v k = Some (f, d) \<Longrightarrow> fkey f = k"
    "f \<in># orphans v \<Longrightarrow> told v (fkey f) = None"
    "nodes_rel (sc_memory c) (sc_nodes c) (all_feet v)" "podStates c k = None \<longleftrightarrow> told v k = None"
    "k \<in> assumedPods c \<longleftrightarrow> (\<exists>f d. told v k = Some (f, Some d))" "view_ok v"
    "told v k = Some (f, Some t) \<Longrightarrow> \<exists>ps. podStates c k = Some ps \<and> foot (ps_pod ps) = f \<and> deadline ps = t"
proof -
  show "podStates c k = None \<longleftrightarrow> told v k = None"
    using assms unfolding cache_rel_def by (metis domIff)
qed (use assms in \<open>unfold cache_rel_def view_ok_def; blast\<close>)+

lemma view_ok_upd:
  assumes "view_ok v" and "k \<notin> fkey ` set_mset (orphans v)" and "fkey f = k"
  shows "view_ok (v\<lparr>told := (told v)(k \<mapsto> (f, d))\<rparr>)"
  using assms unfolding view_ok_def by (auto simp: image_iff)

lemma tracked_no_orphan:
  assumes "view_ok v" and "told v k = Some x"
  shows "k \<notin> fkey ` set_mset (orphans v)"
proof
  assume "k \<in> fkey ` set_mset (orphans v)"
  then obtain f where "f \<in># orphans v" "fkey f = k" by blast
  then show False using assms unfolding view_ok_def by fastforce
qed

lemma assume_rel:
  assumes "cache_rel c v" and "told v (pod_key pod) = None" and "pod_key pod \<notin> fkey ` set_mset (orphans v)"
  obtains c' where "AssumePodIfBindSucceed pod True now c = (None, c')"
    "cache_rel c' (v\<lparr>told := (told v)(pod_key pod \<mapsto> (foot pod, Some (now + ttl c)))\<rparr>)" "ttl c' = ttl c"
proof -
  note rel = cache_relD [OF assms(1)]
  obtain ns h where add: "sc_addPod pod c = c\<lparr>sc_nodes := ns, sc_memory := h\<rparr>" "nodes_rel h ns (add_mset (foot pod) (all_feet v))"
    by (rule sc_addPod_rel [OF rel(4)])
  let ?T = "(told v)(pod_key pod \<mapsto> (foot pod, Some (now + ttl c)))"
  have "all_feet (v\<lparr>told := ?T\<rparr>) = add_mset (foot pod) (all_feet v)"
    by (simp add: all_feet_def feet_new [OF rel(1) assms(2)])
  moreover have "view_ok (v\<lparr>told := ?T\<rparr>)"
    by (rule view_ok_upd [OF rel(7) assms(3)]) simp
  moreover have "podStates c (pod_key pod) = None" using rel(5) assms(2) by simp
  moreover have "dom (podStates c) = dom (told v)" "assumedPods c = {k. \<exists>f d. told v k = Some (f, Some d)}"
    using assms(1) by (simp_all add: cache_rel_def)
  ultimately show ?thesis using add rel(8)
    by (intro that [of "c\<lparr>sc_nodes := ns, sc_memory := h,
          podStates := (podStates c)(pod_key pod \<mapsto> \<lparr>ps_pod = pod, deadline = now + ttl c\<rparr>),
          assumedPods := insert (pod_key pod) (assumedPods c)\<rparr>"])
      (auto simp: AssumePodIfBindSucceed_def cache_rel_def)
qed

lemma confirm_rel:
  assumes "cache_rel c v" and "told v (pod_key pod) = Some (foot pod, Some d)"
  obtains c' where "sc_AddPod pod c = (None, c')"
    "cache_rel c' (v\<lparr>told := (told v)(pod_key pod \<mapsto> (foot pod, None))\<rparr>)" "ttl c' = ttl c"
proof -
  note rel = cache_relD [OF assms(1)]
  let ?T = "(told v)(pod_key pod \<mapsto> (foot pod, None))"
  have "all_feet (v\<lparr>told := ?T\<rparr>) = all_feet v"
    using feet_remove [OF rel(1) assms(2)] by (simp add: all_feet_def feet_change [OF rel(1)])
  moreover have "view_ok (v\<lparr>told := ?T\<rparr>)"
    by (rule view_ok_upd [OF rel(7) tracked_no_orphan [OF rel(7) assms(2)]]) simp
  moreover have "dom (podStates c) = dom (told v)" "assumedPods c = {k. \<exists>f d. told v k = Some (f, Some d)}"
    using assms(1) by (simp_all add: cache_rel_def)
  moreover have "podStates c (pod_key pod) \<noteq> None" using rel(5) assms(2) by simp
  ultimately show ?thesis using rel(4,8) assms(2)
    by (intro that [of "c\<lparr>assumedPods := assumedPods c - {pod_key pod}\<rparr>"]) (auto simp: sc_AddPod_def cache_rel_def)
qed

lemma readd_rel:
  assumes "cache_rel c v" and "told v (pod_key pod) = None"
  obtains c' where "sc_AddPod pod c = (None, c')"
    "cache_rel c' (v\<lparr>orphans := add_mset (foot pod) (orphans v)\<rparr>)" "ttl c' = ttl c"
proof -
  note rel = cache_relD [OF assms(1)]
  obtain ns h where add: "sc_addPod pod c = c\<lparr>sc_nodes := ns, sc_memory := h\<rparr>" "nodes_rel h ns (add_mset (foot pod) (all_feet v))"
    by (rule sc_addPod_rel [OF rel(4)])
  have "view_ok (v\<lparr>orphans := add_mset (foot pod) (orphans v)\<rparr>)" using rel(1-3) assms(2) by (auto simp: view_ok_def)
  moreover have "podStates c (pod_key pod) = None" using rel(5) assms(2) by simp
  ultimately show ?thesis using add assms(1)
    by (intro that [of "c\<lparr>sc_nodes := ns, sc_memory := h\<rparr>"]) (auto simp: sc_AddPod_def cache_rel_def all_feet_def)
qed

lemma delete_tracked_rel:
  assumes "cache_rel c v" and "told v (pod_key pod) = Some (foot pod, d)"
  obtains ns h where "sc_deletePod pod c = Some (None, c\<lparr>sc_nodes := ns, sc_memory := h\<rparr>)"
    "nodes_rel h ns (feet ((told v)(pod_key pod := None)) + orphans v)"
proof -
  note rel = cache_relD [OF assms(1)]
  have F: "all_feet v = add_mset (foot pod) (feet ((told v)(pod_key pod := None)) + orphans v)"
    by (simp add: all_feet_def feet_remove [OF rel(1) assms(2)])
  obtain ns h where "sc_deletePod pod c = Some (None, c\<lparr>sc_nodes := ns, sc_memory := h\<rparr>)"
    "nodes_rel h ns (all_feet v - {#foot pod#})"
  proof (rule delete_pod_rel [OF rel(4)])
    show "foot pod \<in># all_feet v" by (simp add: F)
    show "f = foot pod" if "f \<in># all_feet v" "fkey f = pod_key pod" for f
      by (rule view_key_unique [OF rel(7) assms(2) that])
  qed
  then show ?thesis using that by (simp add: F)
qed

lemma remove_rel:
  assumes "cache_rel c v" and "told v (pod_key pod) = Some (foot pod, None)"
  obtains c' where "sc_RemovePod pod c = Some (None, c')"
    "cache_rel c' (v\<lparr>told := (told v)(pod_key pod := None)\<rparr>)" "ttl c' = ttl c"
proof -
  note rel = cache_relD [OF assms(1)]
  obtain ns h where del: "sc_deletePod pod c = Some (None, c\<lparr>sc_nodes := ns, sc_memory := h\<rparr>)"
    "nodes_rel h ns (feet ((told v)(pod_key pod := None)) + orphans v)"
    by (rule delete_tracked_rel [OF assms])
  have "podStates c (pod_key pod) \<noteq> None" "pod_key pod \<notin> assumedPods c" using rel(5,6) assms(2) by auto
  moreover have "view_ok (v\<lparr>told := (told v)(pod_key pod := None)\<rparr>)" using rel(1-3) by (auto simp: view_ok_def)
  moreover have "dom (podStates c) = dom (told v)" "assumedPods c = {k. \<exists>f d. told v k = Some (f, Some d)}"
    using assms(1) by (simp_all add: cache_rel_def)
  ultimately show ?thesis using del rel(8) assms(2)
    by (intro that [of "c\<lparr>sc_nodes := ns, sc_memory := h, podStates := (podStates c)(pod_key pod := None)\<rparr>"])
      (auto simp: sc_RemovePod_def cache_rel_def all_feet_def)
qed

lemma update_rel:
  assumes "cache_rel c v" and "told v (pod_key old) = Some (foot old, None)" and "pod_key new = pod_key old"
  obtains c' where "sc_UpdatePod old new c = Some (None, c')"
    "cache_rel c' (v\<lparr>told := (told v)(pod_key old \<mapsto> (foot new, None))\<rparr>)" "ttl c' = ttl c"
proof -
  note rel = cache_relD [OF assms(1)]
  obtain ns h where del: "sc_deletePod old c = Some (None, c\<lparr>sc_nodes := ns, sc_memory := h\<rparr>)"
    "nodes_rel h ns (feet ((told v)(pod_key old := None)) + orphans v)"
    by (rule delete_tracked_rel [OF assms(1,2)])
  obtain ns' h' where add: "sc_addPod new (c\<lparr>sc_nodes := ns, sc_memory := h\<rparr>) = c\<lparr>sc_nodes := ns', sc_memory := h'\<rparr>"
    "nodes_rel h' ns' (add_mset (foot new) (feet ((told v)(pod_key old := None)) + orphans v))"
    by (rule sc_addPod_rel [of "c\<lparr>sc_nodes := ns, sc_memory := h\<rparr>"]) (use del(2) in auto)
  have "podStates c (pod_key old) \<noteq> None" "pod_key old \<notin> assumedPods c" using rel(5,6) assms(2) by auto
  moreover have "view_ok (v\<lparr>told := (told v)(pod_key old \<mapsto> (foot new, None))\<rparr>)"
    by (rule view_ok_upd [OF rel(7) tracked_no_orphan [OF rel(7) assms(2)]]) (simp add: assms(3))
  moreover have "dom (podStates c) = dom (told v)" "assumedPods c = {k. \<exists>f d. told v k = Some (f, Some d)}"
    using assms(1) by (simp_all add: cache_rel_def)
  ultimately show ?thesis using del add rel(8) assms(2)
    by (intro that [of "c\<lparr>sc_nodes := ns', sc_memory := h'\<rparr>"])
      (auto simp: sc_UpdatePod_def sc_updatePod_def cache_rel_def all_feet_def feet_change [OF rel(1)])
qed

lemma expire_rel:
  assumes "cache_rel c v" and "told v k = Some (f, Some d)" and "podStates c k = Some ps"
  obtains c' where "expirePod k ps c = Some (None, c')"
    "cache_rel c' (v\<lparr>told := (told v)(k := None)\<rparr>)" "ttl c' = ttl c"
proof -
  note rel = cache_relD [OF assms(1)]
  have ps: "foot (ps_pod ps) = f" "deadline ps = d" using rel(8) [OF assms(2)] assms(3) by auto
  then have k: "k = pod_key (ps_pod ps)" using rel(2) [OF assms(2)] by auto
  obtain ns h where del: "sc_deletePod (ps_pod ps) c = Some (None, c\<lparr>sc_nodes := ns, sc_memory := h\<rparr>)"
    "nodes_rel h ns (feet ((told v)(k := None)) + orphans v)"
    using delete_tracked_rel [OF assms(1), of "ps_pod ps" "Some d"] assms(2) ps(1) k by metis
  have "view_ok (v\<lparr>told := (told v)(k := None)\<rparr>)" using rel(1-3) by (auto simp: view_ok_def)
  moreover have "dom (podStates c) = dom (told v)" "assumedPods c = {k. \<exists>f d. told v k = Some (f, Some d)}"
    using assms(1) by (simp_all add: cache_rel_def)
  ultimately show ?thesis using del rel(8)
    by (intro that [of "c\<lparr>sc_nodes := ns, sc_memory := h, assumedPods := assumedPods c - {k}, podStates := (podStates c)(k := None)\<rparr>"])
      (auto simp: expirePod_def cache_rel_def all_feet_def)
qed

definition expired :: "int \<Rightarrow> (footprint \<times> int option) option \<Rightarrow> bool" where
  "expired now x = (case x of Some (f, Some d) \<Rightarrow> now > d | _ \<Rightarrow> False)"

definition expire :: "key set \<Rightarrow> int \<Rightarrow> (key \<rightharpoonup> footprint \<times> int option) \<Rightarrow> (key \<rightharpoonup> footprint \<times> int option)" where
  "expire K now T = (\<lambda>k. if k \<in> K \<and> expired now (T k) then None else T k)"

lemma expire_insert:
  assumes "T k = Some (f, Some d)" and "k \<notin> K"
  shows "expire K now (if now > d then T(k := None) else T) = expire (insert k K) now T"
  using assms by (auto simp: expire_def fun_eq_iff expired_def)

lemma cleanup_rel:
  assumes "cache_rel c v" and "distinct ks" and "\<And>k. k \<in> set ks \<Longrightarrow> \<exists>f d. told v k = Some (f, Some d)"
  shows "\<exists>c'. cleanup_loop ks now c = Some c'
    \<and> cache_rel c' (v\<lparr>told := expire (set ks) now (told v)\<rparr>) \<and> ttl c' = ttl c"
  using assms
proof (induction ks arbitrary: c v)
  case Nil
  have "expire {} now (told v) = told v" by (simp add: expire_def)
  then show ?case using Nil by simp
next
  case (Cons k ks)
  obtain f d where k: "told v k = Some (f, Some d)" using Cons.prems(3) [of k] by auto
  obtain ps where ps: "podStates c k = Some ps" "deadline ps = d"
    using cache_relD(8) [OF Cons.prems(1) k] by blast
  define T where "T = (if now > d then (told v)(k := None) else told v)"
  obtain c' where c': "cleanup_loop (k # ks) now c = cleanup_loop ks now c'" "cache_rel c' (v\<lparr>told := T\<rparr>)" "ttl c' = ttl c"
  proof (cases "now > d")
    case True
    obtain c' where "expirePod k ps c = Some (None, c')"
      "cache_rel c' (v\<lparr>told := (told v)(k := None)\<rparr>)" "ttl c' = ttl c"
      by (rule expire_rel [OF Cons.prems(1) k ps(1)])
    then show ?thesis using True ps that by (simp add: T_def)
  next
    case False
    then show ?thesis using ps that Cons.prems(1) by (simp add: T_def)
  qed
  have "\<exists>f d. told (v\<lparr>told := T\<rparr>) x = Some (f, Some d)" if "x \<in> set ks" for x
    using Cons.prems(2) Cons.prems(3) [of x] that by (auto simp: T_def)
  then obtain c'' where "cleanup_loop ks now c' = Some c''" "ttl c'' = ttl c'"
    "cache_rel c'' (v\<lparr>told := expire (set ks) now T\<rparr>)"
    using Cons.IH [OF c'(2)] Cons.prems(2) by auto
  moreover have "expire (set ks) now T = expire (set (k # ks)) now (told v)"
    unfolding T_def using expire_insert [where T = "told v", OF k] Cons.prems(2) by simp
  ultimately show ?case using c'(1,3) by simp
qed

lemma cleanupAssumedPods_rel:
  assumes "cache_rel c v" and "set_range_ok rng"
  shows "\<exists>c'. cleanupAssumedPods rng now c = Some c'
    \<and> cache_rel c' (v\<lparr>told := expire UNIV now (told v)\<rparr>) \<and> ttl c' = ttl c"
proof -
  have A: "assumedPods c = {k. \<exists>f d. told v k = Some (f, Some d)}" using assms(1) by (simp add: cache_rel_def)
  then have "assumedPods c \<subseteq> dom (told v)" by auto
  then have "finite (assumedPods c)" using cache_relD(1) [OF assms(1)] finite_subset by blast
  then have ord: "set_order (rng (assumedPods c)) (assumedPods c)" by (rule set_rangeD [OF assms(2)])
  then have ks: "set (rng (assumedPods c)) = assumedPods c" "distinct (rng (assumedPods c))"
    by (simp_all add: set_order_def)
  have "expired now (told v k) \<Longrightarrow> k \<in> assumedPods c" for k
    by (auto simp: A expired_def split: option.splits prod.splits)
  then have "expire (assumedPods c) now (told v) = expire UNIV now (told v)"
    by (auto simp: expire_def)
  moreover have "\<exists>f d. told v k = Some (f, Some d)" if "k \<in> set (rng (assumedPods c))" for k
    using that ks(1) A by simp
  ultimately show ?thesis
    using cleanup_rel [OF assms(1) ks(2), of now] ks(1) by (simp add: cleanupAssumedPods_def)
qed

section \<open>Runs\<close>

text \<open>
  The events the cache sees.  A pod that is confirmed, updated or removed has the footprint the
  cache last saw, an update keeps the key, and a pod that was added back is not scheduled again.  The last four are the events that the cache
  refuses: assuming a tracked pod, adding one that was added, and updating or removing one that is
  not tracked or only assumed, among them the pods that were added back.
\<close>

inductive sched_step :: "schedulerCache \<times> sched_view \<Rightarrow> schedulerCache \<times> sched_view \<Rightarrow> bool" where
  assume_pod: "told v (pod_key pod) = None \<Longrightarrow> pod_key pod \<notin> fkey ` set_mset (orphans v)
    \<Longrightarrow> AssumePodIfBindSucceed pod True now c = (err, c')
    \<Longrightarrow> sched_step (c, v) (c', v\<lparr>told := (told v)(pod_key pod \<mapsto> (foot pod, Some (now + ttl c)))\<rparr>)"
| bind_fails: "AssumePodIfBindSucceed pod False now c = (err, c') \<Longrightarrow> sched_step (c, v) (c', v)"
| confirm: "told v (pod_key pod) = Some (foot pod, Some d) \<Longrightarrow> sc_AddPod pod c = (err, c')
    \<Longrightarrow> sched_step (c, v) (c', v\<lparr>told := (told v)(pod_key pod \<mapsto> (foot pod, None))\<rparr>)"
| add_back: "told v (pod_key pod) = None \<Longrightarrow> sc_AddPod pod c = (err, c')
    \<Longrightarrow> sched_step (c, v) (c', v\<lparr>orphans := add_mset (foot pod) (orphans v)\<rparr>)"
| update_pod: "told v (pod_key old) = Some (foot old, None) \<Longrightarrow> pod_key new = pod_key old
    \<Longrightarrow> sc_UpdatePod old new c = Some (err, c')
    \<Longrightarrow> sched_step (c, v) (c', v\<lparr>told := (told v)(pod_key old \<mapsto> (foot new, None))\<rparr>)"
| remove_pod: "told v (pod_key pod) = Some (foot pod, None) \<Longrightarrow> sc_RemovePod pod c = Some (err, c')
    \<Longrightarrow> sched_step (c, v) (c', v\<lparr>told := (told v)(pod_key pod := None)\<rparr>)"
| cleanup: "set_range_ok rng \<Longrightarrow> cleanupAssumedPods rng now c = Some c'
    \<Longrightarrow> sched_step (c, v) (c', v\<lparr>told := expire UNIV now (told v)\<rparr>)"
| assume_again: "told v (pod_key pod) \<noteq> None \<Longrightarrow> AssumePodIfBindSucceed pod True now c = (err, c')
    \<Longrightarrow> sched_step (c, v) (c', v)"
| add_again: "told v (pod_key pod) = Some (f, None) \<Longrightarrow> sc_AddPod pod c = (err, c') \<Longrightarrow> sched_step (c, v) (c', v)"
| update_other: "\<nexists>f. told v (pod_key old) = Some (f, None) \<Longrightarrow> sc_UpdatePod old new c = Some (err, c')
    \<Longrightarrow> sched_step (c, v) (c', v)"
| remove_other: "\<nexists>f. told v (pod_key pod) = Some (f, None) \<Longrightarrow> sc_RemovePod pod c = Some (err, c')
    \<Longrightarrow> sched_step (c, v) (c', v)"

text \<open>What the cache refuses leaves it as it was.\<close>

lemma refusals:
  assumes "cache_rel c v"
  shows "told v (pod_key pod) \<noteq> None \<Longrightarrow> \<exists>err. AssumePodIfBindSucceed pod True now c = (Some err, c)"
    and "told v (pod_key pod) = Some (f, None) \<Longrightarrow> \<exists>err. sc_AddPod pod c = (Some err, c)"
    and "\<nexists>f. told v (pod_key pod) = Some (f, None) \<Longrightarrow> \<exists>err. sc_UpdatePod pod new c = Some (Some err, c)"
    and "\<nexists>f. told v (pod_key pod) = Some (f, None) \<Longrightarrow> \<exists>err. sc_RemovePod pod c = Some (Some err, c)"
proof -
  have states: "podStates c k = None \<longleftrightarrow> told v k = None" "k \<in> assumedPods c \<longleftrightarrow> (\<exists>f d. told v k = Some (f, Some d))" for k
    by (rule cache_relD(5) [OF assms], rule cache_relD(6) [OF assms])
  have none: "podStates c (pod_key pod) = None \<or> pod_key pod \<in> assumedPods c" if "\<nexists>f. told v (pod_key pod) = Some (f, None)"
    using that unfolding states by (metis option.exhaust prod.exhaust)
  show "told v (pod_key pod) \<noteq> None \<Longrightarrow> \<exists>err. AssumePodIfBindSucceed pod True now c = (Some err, c)"
    using states(1) [of "pod_key pod"] by (auto simp: AssumePodIfBindSucceed_def)
  show "told v (pod_key pod) = Some (f, None) \<Longrightarrow> \<exists>err. sc_AddPod pod c = (Some err, c)"
    using states [of "pod_key pod"] by (auto simp: sc_AddPod_def)
  show "\<nexists>f. told v (pod_key pod) = Some (f, None) \<Longrightarrow> \<exists>err. sc_UpdatePod pod new c = Some (Some err, c)"
    "\<nexists>f. told v (pod_key pod) = Some (f, None) \<Longrightarrow> \<exists>err. sc_RemovePod pod c = Some (Some err, c)"
    using none by (auto simp: sc_UpdatePod_def sc_RemovePod_def)
qed

definition sched_start :: "int \<Rightarrow> schedulerCache \<times> sched_view" where
  "sched_start t = (newSchedulerCache t, \<lparr>told = Map.empty, orphans = {#}\<rparr>)"

lemma sched_start_rel: "cache_rel (newSchedulerCache t) \<lparr>told = Map.empty, orphans = {#}\<rparr>"
  by (simp add: cache_rel_def newSchedulerCache_def view_ok_def nodes_rel_def all_feet_def feet_def)

lemma sched_step_rel: "sched_step s s' \<Longrightarrow> cache_rel (fst s) (snd s) \<Longrightarrow> cache_rel (fst s') (snd s')"
proof (induction rule: sched_step.induct)
  case (assume_pod v pod now c err c')
  then show ?case using assume_rel [of c v pod] by (metis fst_conv snd_conv)
next
  case (bind_fails pod now c err c' v)
  then show ?case by (simp add: AssumePodIfBindSucceed_def)
next
  case (confirm v pod d c err c')
  then show ?case using confirm_rel [of c v pod d] by (metis fst_conv snd_conv)
next
  case (add_back v pod c err c')
  then show ?case using readd_rel [of c v pod] by (metis fst_conv snd_conv)
next
  case (update_pod v old new c err c')
  then show ?case using update_rel [of c v old new] by (metis fst_conv snd_conv option.inject)
next
  case (remove_pod v pod c err c')
  then show ?case using remove_rel [of c v pod] by (metis fst_conv snd_conv option.inject)
next
  case (cleanup rng now c c' v)
  then show ?case using cleanupAssumedPods_rel [of c v rng now] by (metis fst_conv snd_conv option.inject)
next
  case (assume_again v pod now c err c')
  then show ?case using refusals(1) [of c v pod now] by auto
next
  case (add_again v pod f c err c')
  then show ?case using refusals(2) [of c v pod f] by auto
next
  case (update_other v old new c err c')
  then show ?case using refusals(3) [of c v old new] by auto
next
  case (remove_other v pod c err c')
  then show ?case using refusals(4) [of c v pod] by auto
qed

lemma sched_reachable_rel: "sched_step\<^sup>*\<^sup>* (sched_start t) (c, v) \<Longrightarrow> cache_rel c v"
proof -
  assume "sched_step\<^sup>*\<^sup>* (sched_start t) (c, v)"
  then have "cache_rel (fst (c, v)) (snd (c, v))"
    by (induction rule: rtranclp_induct) (auto simp: sched_start_def sched_start_rel dest: sched_step_rel)
  then show ?thesis by simp
qed


section \<open>The cache against a recomputation\<close>

lemma node_observations:
  assumes "nodes_rel h nodes F"
  shows "image_mset foot (mset (ni_Pods (nodes name))) = on_node name F"
    and "RequestedResource (nodes name) h = requested (on_node name F)"
    and "NonZeroRequest (nodes name) h = requested_nonzero (on_node name F)"
    and "nodes name = None \<longleftrightarrow> on_node name F = {#}"
proof -
  have "image_mset foot (mset (ni_Pods (nodes name))) = on_node name F
      \<and> RequestedResource (nodes name) h = requested (on_node name F)
      \<and> NonZeroRequest (nodes name) h = requested_nonzero (on_node name F)
      \<and> (nodes name = None \<longleftrightarrow> on_node name F = {#})"
  proof (cases "nodes name")
    case None
    then show ?thesis unfolding nodes_relN [OF assms None]
      by (simp add: ni_Pods_def RequestedResource_def NonZeroRequest_def emptyResource_def requested_def
          requested_nonzero_def go_int_def)
  next
    case (Some n)
    then show ?thesis using nodes_relD [OF assms Some]
      by (simp add: ni_Pods_def RequestedResource_def NonZeroRequest_def node_rel_def)
  qed
  then show "image_mset foot (mset (ni_Pods (nodes name))) = on_node name F"
    "RequestedResource (nodes name) h = requested (on_node name F)"
    "NonZeroRequest (nodes name) h = requested_nonzero (on_node name F)"
    "nodes name = None \<longleftrightarrow> on_node name F = {#}" by blast+
qed

lemma CreateNodeNameToInfoMap_loop:
  assumes "nodes_rel h m F"
    and "fold (\<lambda>pod (m, h).
         let nodeName = sp_NodeName pod;
             (nodeInfo, h) = (case m nodeName of Some n \<Rightarrow> (n, h) | None \<Rightarrow> NewNodeInfo [] h);
             (nodeInfo, h) = ni_addPod pod (nodeInfo, h)
         in (m(nodeName \<mapsto> nodeInfo), h)) pods (m, h) = (m', h')"
  shows "nodes_rel h' m' (image_mset foot (mset pods) + F)"
  using assms
proof (induction pods arbitrary: m h F)
  case (Cons pod pods)
  obtain n1 h1 where 1: "(case m (sp_NodeName pod) of Some n \<Rightarrow> (n, h) | None \<Rightarrow> NewNodeInfo [] h) = (n1, h1)"
    by (metis surj_pair)
  obtain n2 h2 where 2: "ni_addPod pod (n1, h1) = (n2, h2)" by (metis surj_pair)
  show ?case
    using Cons.IH [OF add_pod_rel [OF Cons.prems(1) 1 2]] Cons.prems(2) by (simp add: 1 2)
qed simp

lemma nodes_rel_empty: "nodes_rel h Map.empty {#}"
  by (simp add: nodes_rel_def)

lemma CreateNodeNameToInfoMap_rel:
  "CreateNodeNameToInfoMap pods h = (m, h') \<Longrightarrow> nodes_rel h' m (image_mset foot (mset pods))"
  unfolding CreateNodeNameToInfoMap_def
  using CreateNodeNameToInfoMap_loop [OF nodes_rel_empty] by fastforce

lemma ni_Clone_id [simp]: "ni_Clone n = n"
  by (simp add: ni_Clone_def)

lemma GetNodeNameToInfoMap_nodes [simp]: "GetNodeNameToInfoMap c = sc_nodes c"
proof -
  have "ni_Clone = id" by (simp add: fun_eq_iff)
  then show ?thesis by (simp add: GetNodeNameToInfoMap_def option.map_id)
qed

text \<open>
  C7: After any sequence of events (pods assumed unless they were added back, confirmed, updated and removed as the cache last
  saw them, expired, added back after they expired, and events that the cache refuses), the
  information the cache has of each node is exactly what its pods amount to: the pods are those
  tracked on the node and those added back to it after their assumption expired, which the cache
  does not track, each as often as it was added; both aggregates are the sums of the requests of
  these pods in 64-bit arithmetic; a node without pods has no entry; and the pods with a state are
  the tracked ones, the assumed ones those not yet confirmed.
\<close>

theorem scheduler_cache_accounts:
  assumes "sched_step\<^sup>*\<^sup>* (sched_start t) (c, v)"
  shows "image_mset foot (mset (ni_Pods (sc_nodes c name))) = on_node name (all_feet v)
    \<and> RequestedResource (sc_nodes c name) (sc_memory c) = requested (on_node name (all_feet v))
    \<and> NonZeroRequest (sc_nodes c name) (sc_memory c) = requested_nonzero (on_node name (all_feet v))
    \<and> (sc_nodes c name = None \<longleftrightarrow> on_node name (all_feet v) = {#})
    \<and> dom (podStates c) = dom (told v) \<and> assumedPods c = {k. \<exists>f d. told v k = Some (f, Some d)}"
proof -
  have rel: "cache_rel c v" by (rule sched_reachable_rel [OF assms])
  then have "dom (podStates c) = dom (told v)" "assumedPods c = {k. \<exists>f d. told v k = Some (f, Some d)}"
    by (simp_all add: cache_rel_def)
  then show ?thesis using node_observations [OF cache_relD(4) [OF rel]] by simp
qed

text \<open>
  C19: The information that the scheduler computes from scratch from a list of pods agrees with
  the snapshot of the cache, when the cache has been told of the same pods: the same entries,
  the same pods on each node up to order, and the same aggregates.
\<close>

theorem scheduler_cache_equals_recomputation:
  assumes "sched_step\<^sup>*\<^sup>* (sched_start t) (c, v)" and "image_mset foot (mset pods) = all_feet v"
    and "CreateNodeNameToInfoMap pods h = (m, h')"
  shows "(GetNodeNameToInfoMap c name = None \<longleftrightarrow> m name = None)
    \<and> image_mset foot (mset (ni_Pods (GetNodeNameToInfoMap c name))) = image_mset foot (mset (ni_Pods (m name)))
    \<and> RequestedResource (GetNodeNameToInfoMap c name) (sc_memory c) = RequestedResource (m name) h'
    \<and> NonZeroRequest (GetNodeNameToInfoMap c name) (sc_memory c) = NonZeroRequest (m name) h'"
  using node_observations [OF cache_relD(4) [OF sched_reachable_rel [OF assms(1)]], of name]
    node_observations [OF CreateNodeNameToInfoMap_rel [OF assms(3)], of name] assms(2)
  by simp

text \<open>
  C20: In every such state the answers of the cache are decided by the pods that it tracks.  Assuming
  a pod that was bound fails exactly when the pod is tracked; adding a pod fails exactly when it is
  tracked as added, and so succeeds for one that is assumed or expired; updating (to a pod of the
  same key) or removing a pod that is tracked as added, and named as the cache last saw it, succeeds;
  updating or removing a pod that is not tracked as added is refused, which includes one that was
  added back after its assumption expired; each of these refusals changes nothing; and the periodic
  cleanup does not panic.  Not covered is an update or a removal that names a pod that is tracked as
  added otherwise than the cache last saw it: \<^verbatim>\<open>removePod\<close> may then lower the aggregates and fail.
\<close>

theorem scheduler_cache_never_fails:
  assumes "sched_step\<^sup>*\<^sup>* (sched_start t) (c, v)"
  shows "(fst (AssumePodIfBindSucceed pod bound now c) = None \<longleftrightarrow> \<not> bound \<or> told v (pod_key pod) = None)
    \<and> (fst (AssumePodIfBindSucceed pod bound now c) \<noteq> None \<longrightarrow> snd (AssumePodIfBindSucceed pod bound now c) = c)
    \<and> (fst (sc_AddPod pod c) = None \<longleftrightarrow> (\<nexists>f. told v (pod_key pod) = Some (f, None)))
    \<and> (fst (sc_AddPod pod c) \<noteq> None \<longrightarrow> snd (sc_AddPod pod c) = c)
    \<and> (told v (pod_key pod) = Some (foot pod, None) \<longrightarrow>
        (\<exists>c'. sc_RemovePod pod c = Some (None, c')) \<and>
        (pod_key new = pod_key pod \<longrightarrow> (\<exists>c'. sc_UpdatePod pod new c = Some (None, c'))))
    \<and> ((\<nexists>f. told v (pod_key pod) = Some (f, None)) \<longrightarrow>
        (\<exists>err. sc_RemovePod pod c = Some (Some err, c)) \<and> (\<exists>err. sc_UpdatePod pod new c = Some (Some err, c)))
    \<and> (set_range_ok rng \<longrightarrow> (\<exists>c'. cleanupAssumedPods rng now c = Some c'))"
proof -
  have rel: "cache_rel c v" by (rule sched_reachable_rel [OF assms])
  have states: "podStates c k = None \<longleftrightarrow> told v k = None" "k \<in> assumedPods c \<longleftrightarrow> (\<exists>f d. told v k = Some (f, Some d))" for k
    by (rule cache_relD(5) [OF rel], rule cache_relD(6) [OF rel])
  have assume_ok: "fst (AssumePodIfBindSucceed pod bound now c) = None \<longleftrightarrow> \<not> bound \<or> told v (pod_key pod) = None"
    using states(1) [of "pod_key pod"] by (cases "told v (pod_key pod)") (auto simp: AssumePodIfBindSucceed_def)
  have assume_no: "snd (AssumePodIfBindSucceed pod bound now c) = c" if "fst (AssumePodIfBindSucceed pod bound now c) \<noteq> None"
    using that by (simp add: AssumePodIfBindSucceed_def Let_def split: if_splits)
  have add_ok: "fst (sc_AddPod pod c) = None \<longleftrightarrow> (\<nexists>f. told v (pod_key pod) = Some (f, None))"
  proof (cases "told v (pod_key pod)")
    case None
    then show ?thesis by (simp add: sc_AddPod_def states)
  next
    case (Some x)
    obtain f d where "x = (f, d)" by (cases x)
    then show ?thesis using Some states [of "pod_key pod"] by (cases d) (auto simp: sc_AddPod_def)
  qed
  have add_no: "snd (sc_AddPod pod c) = c" if "fst (sc_AddPod pod c) \<noteq> None"
    using that by (auto simp: sc_AddPod_def Let_def split: if_splits)
  have remove: "\<exists>c'. sc_RemovePod pod c = Some (None, c')" if "told v (pod_key pod) = Some (foot pod, None)"
    using remove_rel [OF rel that] by metis
  have update: "\<exists>c'. sc_UpdatePod pod new c = Some (None, c')"
    if "told v (pod_key pod) = Some (foot pod, None)" "pod_key new = pod_key pod"
    using update_rel [OF rel that] by metis
  have cleanup: "\<exists>c'. cleanupAssumedPods rng now c = Some c'" if "set_range_ok rng"
    using cleanupAssumedPods_rel [OF rel that] by blast
  show ?thesis
    using assume_ok assume_no add_ok add_no remove update cleanup refusals(3,4) [OF rel, of pod] by blast
qed

section \<open>Examples\<close>

definition pod_at :: "string \<Rightarrow> string \<Rightarrow> SchedPod" where
  "pod_at name node = \<lparr>sp_Name = name, sp_Namespace = ''ns'', sp_Labels = Map.empty, sp_Annotations = Map.empty, sp_NodeName = node,
     sp_NodeSelector = Map.empty,
     Containers = [\<lparr>Requests = [ResourceCPU \<mapsto> NewMilliQuantity 250 DecimalSI], HostPorts = [], Image = ''nginx''\<rparr>],
     Volumes = []\<rparr>"

lemma calculateResource_pod_at [simp]: "calculateResource (pod_at name node) = (250, 0, 250, 209715200)"
  by code_simp

definition one_pod :: schedulerCache where
  "one_pod = snd (AssumePodIfBindSucceed (pod_at ''a'' ''n'') True 0 (newSchedulerCache 30))"

definition one_view :: sched_view where
  "one_view = \<lparr>told = [''ns/a'' \<mapsto> (foot (pod_at ''a'' ''n''), Some 30)], orphans = {#}\<rparr>"

lemma pod_key_pod_at [simp]: "pod_key (pod_at name node) = ''ns/'' @ name"
  by (simp add: pod_key_def pod_at_def)

lemma sp_NodeName_pod_at [simp]: "sp_NodeName (pod_at name node) = node"
  by (simp add: pod_at_def)

lemma one_pod_reachable: "sched_step\<^sup>*\<^sup>* (sched_start 30) (one_pod, one_view)"
proof -
  have "sched_step (sched_start 30) (one_pod, one_view)"
    unfolding sched_start_def one_pod_def
    using sched_step.assume_pod [of "\<lparr>told = Map.empty, orphans = {#}\<rparr>" "pod_at ''a'' ''n''" 0 "newSchedulerCache 30"]
    by (simp add: one_view_def newSchedulerCache_def AssumePodIfBindSucceed_def)
  then show ?thesis by blast
qed

lemma all_feet_one_view: "all_feet one_view = {#foot (pod_at ''a'' ''n'')#}"
  by (simp add: all_feet_def one_view_def feet_def)

theorem scheduler_cache_accounts_witness:
  "RequestedResource (sc_nodes one_pod ''n'') (sc_memory one_pod) = \<lparr>MilliCPU = 250, Memory = 0\<rparr>
    \<and> NonZeroRequest (sc_nodes one_pod ''n'') (sc_memory one_pod) = \<lparr>MilliCPU = 250, Memory = 209715200\<rparr>
    \<and> sc_nodes one_pod ''m'' = None"
  using scheduler_cache_accounts [OF one_pod_reachable, of "''n''"] scheduler_cache_accounts [OF one_pod_reachable, of "''m''"]
  by (simp add: all_feet_one_view requested_def requested_nonzero_def go_int_def)

theorem scheduler_cache_equals_recomputation_witness:
  "RequestedResource (GetNodeNameToInfoMap one_pod ''n'') (sc_memory one_pod)
     = RequestedResource (fst (CreateNodeNameToInfoMap [pod_at ''a'' ''n''] []) ''n'')
         (snd (CreateNodeNameToInfoMap [pod_at ''a'' ''n''] []))"
  using scheduler_cache_equals_recomputation [OF one_pod_reachable _ surjective_pairing, of "[pod_at ''a'' ''n'']" "''n''" "[]"]
  by (simp add: all_feet_one_view)

theorem scheduler_cache_never_fails_witness:
  "fst (AssumePodIfBindSucceed (pod_at ''b'' ''n'') True 5 one_pod) = None
    \<and> fst (sc_AddPod (pod_at ''a'' ''n'') one_pod) = None
    \<and> (\<exists>err. sc_RemovePod (pod_at ''a'' ''n'') one_pod = Some (Some err, one_pod))"
  using scheduler_cache_never_fails [OF one_pod_reachable, of "pod_at ''b'' ''n''" True 5]
    scheduler_cache_never_fails [OF one_pod_reachable, of "pod_at ''a'' ''n''" True 5]
  by (simp add: one_view_def)

text \<open>
  C37: A pod whose assumption expired before it was confirmed is added back to its node, as the
  interface asks, but not to the tracked pods.  So the cache then refuses every update and the
  removal of the pod, and the same event again adds it to the node a second time: its requests
  stay on the node for ever.
\<close>

theorem added_back_pod_cannot_be_removed:
  assumes "sched_step\<^sup>*\<^sup>* (sched_start t) (c, v)" and "told v (pod_key pod) = None"
  shows "\<exists>c'. sc_AddPod pod c = (None, c')
    \<and> foot pod \<in># image_mset foot (mset (ni_Pods (sc_nodes c' (sp_NodeName pod))))
    \<and> podStates c' (pod_key pod) = None
    \<and> (\<exists>err. sc_RemovePod pod c' = Some (Some err, c')) \<and> (\<exists>err. sc_UpdatePod pod new c' = Some (Some err, c'))
    \<and> (\<exists>c''. sc_AddPod pod c' = (None, c'')
        \<and> count (image_mset foot (mset (ni_Pods (sc_nodes c'' (sp_NodeName pod))))) (foot pod) \<ge> 2)"
proof -
  obtain c' where c': "sc_AddPod pod c = (None, c')" "cache_rel c' (v\<lparr>orphans := add_mset (foot pod) (orphans v)\<rparr>)"
    by (rule readd_rel [OF sched_reachable_rel [OF assms(1)] assms(2)])
  let ?v = "v\<lparr>orphans := add_mset (foot pod) (orphans v)\<rparr>"
  obtain c'' where c'': "sc_AddPod pod c' = (None, c'')" "cache_rel c'' (?v\<lparr>orphans := add_mset (foot pod) (orphans ?v)\<rparr>)"
    by (rule readd_rel [OF c'(2)]) (use assms(2) in simp)
  have none: "podStates c' (pod_key pod) = None" using cache_relD(5) [OF c'(2)] assms(2) by simp
  note obs = node_observations(1) [OF cache_relD(4) [OF c'(2)], of "sp_NodeName pod"]
    node_observations(1) [OF cache_relD(4) [OF c''(2)], of "sp_NodeName pod"]
  have "foot pod \<in># image_mset foot (mset (ni_Pods (sc_nodes c' (sp_NodeName pod))))"
    unfolding obs by (simp add: all_feet_def)
  moreover have "count (image_mset foot (mset (ni_Pods (sc_nodes c'' (sp_NodeName pod))))) (foot pod) \<ge> 2"
    unfolding obs by (simp add: all_feet_def)
  moreover have "\<exists>err. sc_RemovePod pod c' = Some (Some err, c')" "\<exists>err. sc_UpdatePod pod new c' = Some (Some err, c')"
    using none by (simp_all add: sc_RemovePod_def sc_UpdatePod_def)
  ultimately show ?thesis using c'(1) c''(1) none by blast
qed

theorem added_back_pod_cannot_be_removed_witness:
  "\<exists>c'. sc_AddPod (pod_at ''a'' ''n'') (newSchedulerCache 30) = (None, c')
    \<and> (\<exists>err. sc_RemovePod (pod_at ''a'' ''n'') c' = Some (Some err, c'))"
proof -
  have "sched_step\<^sup>*\<^sup>* (sched_start 30) (newSchedulerCache 30, \<lparr>told = Map.empty, orphans = {#}\<rparr>)"
    by (simp add: sched_start_def)
  then show ?thesis
    using added_back_pod_cannot_be_removed [of 30 "newSchedulerCache 30" "\<lparr>told = Map.empty, orphans = {#}\<rparr>"
        "pod_at ''a'' ''n''" "pod_at ''a'' ''n''"] by fastforce
qed

text \<open>
  The snapshot that the cache hands out shares its aggregates with the cache.  After a later
  pod is assumed on a node of the snapshot, the snapshot shows the requests with that pod, but
  not the pod: its aggregates are no longer the sums of the requests of its pods.
\<close>

theorem snapshot_shares_aggregates:
  assumes "sched_step\<^sup>*\<^sup>* (sched_start t) (c, v)" and "GetNodeNameToInfoMap c (sp_NodeName pod) = Some s"
    and "told v (pod_key pod) = None" and "pod_key pod \<notin> fkey ` set_mset (orphans v)"
    and "AssumePodIfBindSucceed pod True now c = (None, c')"
  shows "RequestedResource (Some s) (sc_memory c') = requested (add_mset (foot pod) (image_mset foot (mset (ni_Pods (Some s)))))
    \<and> NonZeroRequest (Some s) (sc_memory c') = requested_nonzero (add_mset (foot pod) (image_mset foot (mset (ni_Pods (Some s)))))"
proof -
  let ?name = "sp_NodeName pod"
  have rel: "cache_rel c v" by (rule sched_reachable_rel [OF assms(1)])
  have s: "sc_nodes c ?name = Some s" using assms(2) by simp
  obtain c1 where c1: "AssumePodIfBindSucceed pod True now c = (None, c1)"
    "cache_rel c1 (v\<lparr>told := (told v)(pod_key pod \<mapsto> (foot pod, Some (now + ttl c)))\<rparr>)"
    by (rule assume_rel [OF rel assms(3,4)])
  have [simp]: "c1 = c'" using c1(1) assms(5) by simp
  obtain n' where n': "sc_nodes c' ?name = Some n'" "same_ptrs s n'"
  proof -
    obtain n2 h2 where n2: "ni_addPod pod (s, sc_memory c) = (n2, h2)" by (metis surj_pair)
    have "same_ptrs s n2" using n2
      by (auto simp: ni_addPod_def same_ptrs_def split: prod.splits)
    moreover have "podStates c (pod_key pod) = None" using cache_relD(5) [OF rel] assms(3) by simp
    ultimately show ?thesis using assms(5) that s n2 by (auto simp: AssumePodIfBindSucceed_def sc_addPod_def Let_def)
  qed
  have F: "all_feet (v\<lparr>told := (told v)(pod_key pod \<mapsto> (foot pod, Some (now + ttl c)))\<rparr>) = add_mset (foot pod) (all_feet v)"
    by (simp add: all_feet_def feet_new [OF cache_relD(1) [OF rel] assms(3)])
  note obs = node_observations [OF cache_relD(4) [OF c1(2)], of ?name, unfolded F]
  have "on_node ?name (add_mset (foot pod) (all_feet v)) = add_mset (foot pod) (on_node ?name (all_feet v))" by simp
  moreover have "on_node ?name (all_feet v) = image_mset foot (mset (ni_Pods (Some s)))"
    using node_observations(1) [OF cache_relD(4) [OF rel], of ?name] s by simp
  moreover have "RequestedResource (Some s) h = RequestedResource (Some n') h" "NonZeroRequest (Some s) h = NonZeroRequest (Some n') h" for h
    using n'(2) by (simp_all add: RequestedResource_def NonZeroRequest_def same_ptrs_def)
  ultimately show ?thesis using obs(2,3) n'(1) by simp
qed

theorem snapshot_shares_aggregates_witness:
  "\<exists>s c'. GetNodeNameToInfoMap one_pod ''n'' = Some s \<and> AssumePodIfBindSucceed (pod_at ''b'' ''n'') True 5 one_pod = (None, c')
    \<and> length (ni_Pods (Some s)) = 1 \<and> RequestedResource (Some s) (sc_memory c') = \<lparr>MilliCPU = 500, Memory = 0\<rparr>"
proof -
  let ?s = "\<lparr>requestedResource = 0, ni_pods = [pod_at ''a'' ''n''], nonzeroRequest = 1\<rparr>"
  have one: "one_pod = newSchedulerCache 30 \<lparr>sc_memory := [\<lparr>MilliCPU = 250, Memory = 0\<rparr>, \<lparr>MilliCPU = 250, Memory = 209715200\<rparr>],
    sc_nodes := [''n'' \<mapsto> ?s], podStates := [''ns/a'' \<mapsto> \<lparr>ps_pod = pod_at ''a'' ''n'', deadline = 30\<rparr>], assumedPods := {''ns/a''}\<rparr>"
    by (simp add: one_pod_def AssumePodIfBindSucceed_def newSchedulerCache_def sc_addPod_def ni_addPod_def NewNodeInfo_def
        add_resource_def emptyResource_def go_int_def)
  have s: "GetNodeNameToInfoMap one_pod (sp_NodeName (pod_at ''b'' ''n'')) = Some ?s" by (simp add: one)
  obtain c' where c': "AssumePodIfBindSucceed (pod_at ''b'' ''n'') True 5 one_pod = (None, c')"
    by (simp add: AssumePodIfBindSucceed_def one newSchedulerCache_def)
  have "RequestedResource (Some ?s) (sc_memory c') = \<lparr>MilliCPU = 500, Memory = 0\<rparr>"
    using snapshot_shares_aggregates [OF one_pod_reachable s _ _ c']
    by (simp add: one_view_def requested_def ni_Pods_def go_int_def)
  then show ?thesis using s c' by (auto simp: ni_Pods_def)
qed

end
