(* ===== verification/Predicates_Props.thy ===== *)
theory Predicates_Props
  imports Predicates Scheduler_Cache_Props
begin

text \<open>
  What the predicates promise together: a node that only gets pods that fit stays consistent.  No
  two of its pods use the same disk or host port, and the requests of its pods are within what
  can be allocated, as mathematical integers.
\<close>

section \<open>Disks and ports\<close>

definition volumes_conflict :: "Volume \<Rightarrow> Volume \<Rightarrow> bool" where
  "volumes_conflict v w \<longleftrightarrow> gce_conflict (GCEPersistentDisk v) (GCEPersistentDisk w)
     \<or> ebs_conflict (AWSElasticBlockStore v) (AWSElasticBlockStore w) \<or> rbd_conflict (RBD v) (RBD w)"

definition pods_conflict :: "SchedPod \<Rightarrow> SchedPod \<Rightarrow> bool" where
  "pods_conflict p q \<longleftrightarrow> (\<exists>v \<in> set (Volumes p). \<exists>w \<in> set (Volumes q). volumes_conflict v w)"

definition host_ports :: "SchedPod \<Rightarrow> int set" where
  "host_ports p = (\<Union>c \<in> set (Containers p). set (HostPorts c)) - {0}"

lemma isVolumeConflict_iff: "isVolumeConflict v p \<longleftrightarrow> (\<exists>w \<in> set (Volumes p). volumes_conflict v w)"
  unfolding isVolumeConflict_def volumes_conflict_def
  by (auto simp: list_ex_iff gce_conflict_def ebs_conflict_def rbd_conflict_def)

lemma haveSame_iff: "haveSame xs ys \<longleftrightarrow> set xs \<inter> set ys \<noteq> {}"
  by (auto simp: haveSame_def list_ex_iff)

lemma volumes_conflict_sym: "volumes_conflict v w \<longleftrightarrow> volumes_conflict w v"
  unfolding volumes_conflict_def
  by (auto simp: gce_conflict_def ebs_conflict_def rbd_conflict_def haveSame_iff split: option.splits)

lemma pods_conflict_sym: "pods_conflict p q \<longleftrightarrow> pods_conflict q p"
  unfolding pods_conflict_def using volumes_conflict_sym by blast

lemma NoDiskConflict_iff:
  "NoDiskConflict pod name nodeInfo h = Some (\<not> (\<exists>q \<in> set (ni_Pods nodeInfo). pods_conflict pod q), None)"
  by (auto simp: NoDiskConflict_def list_ex_iff isVolumeConflict_iff pods_conflict_def)

lemma fold_insert_union: "fold insert xs A = set xs \<union> A"
  by (induction xs arbitrary: A) auto

lemma getUsedPorts_set: "getUsedPorts pods = (\<Union>p \<in> set pods. \<Union>c \<in> set (Containers p). set (HostPorts c))"
proof -
  have inner: "fold (\<lambda>container. fold insert (HostPorts container)) cs A = (\<Union>c \<in> set cs. set (HostPorts c)) \<union> A" for cs A
    by (induction cs arbitrary: A) (auto simp: fold_insert_union)
  have "fold (\<lambda>pod. fold (\<lambda>container. fold insert (HostPorts container)) (Containers pod)) ps A
      = (\<Union>p \<in> set ps. \<Union>c \<in> set (Containers p). set (HostPorts c)) \<union> A" for ps A
    by (induction ps arbitrary: A) (auto simp: inner)
  from this [of pods "{}"] show ?thesis by (simp add: getUsedPorts_def)
qed

lemma PodFitsHostPorts_iff:
  "PodFitsHostPorts pod name nodeInfo h = Some (\<forall>q \<in> set (ni_Pods nodeInfo). host_ports pod \<inter> host_ports q = {}, None)"
  unfolding PodFitsHostPorts_def getUsedPorts_set host_ports_def by (auto simp: Let_def)

section \<open>Resources\<close>

definition container_cpu :: "Container \<Rightarrow> int" where "container_cpu c = MilliValue (rl_Cpu (Requests c))"
definition container_memory :: "Container \<Rightarrow> int" where "container_memory c = Quantity_Value (rl_Memory (Requests c))"

definition pod_cpu :: "SchedPod \<Rightarrow> int" where "pod_cpu p = (\<Sum>c\<leftarrow>Containers p. container_cpu c)"
definition pod_memory :: "SchedPod \<Rightarrow> int" where "pod_memory p = (\<Sum>c\<leftarrow>Containers p. container_memory c)"

text \<open>What a pod may request for the sums to stay in range.\<close>

definition request_ok :: "SchedPod \<Rightarrow> bool" where
  "request_ok p \<longleftrightarrow> (\<forall>c \<in> set (Containers p). 0 \<le> container_cpu c \<and> 0 \<le> container_memory c)
     \<and> pod_cpu p < 2 ^ 62 \<and> pod_memory p < 2 ^ 62"

definition capacity_ok :: "ResourceList \<Rightarrow> bool" where
  "capacity_ok a \<longleftrightarrow> MilliValue (rl_Cpu a) \<in> {0..<2 ^ 62} \<and> Quantity_Value (rl_Memory a) \<in> {0..<2 ^ 62}
     \<and> 0 \<le> Quantity_Value (rl_Pods a)"

lemma go_int_small: "- (2 ^ 63) \<le> x \<Longrightarrow> x < 2 ^ 63 \<Longrightarrow> go_int x = x"
  unfolding go_int_def by (rule signed_take_bit_int_eq_self) simp_all

lemma getResourceRequest_sum: "getResourceRequest pod = \<lparr>rr_milliCPU = go_int (pod_cpu pod), rr_memory = go_int (pod_memory pod)\<rparr>"
proof -
  have "fold (\<lambda>container result.
         let requests = Requests container;
             result = result\<lparr>rr_memory := go_int (rr_memory result + Quantity_Value (rl_Memory requests))\<rparr>
         in result\<lparr>rr_milliCPU := go_int (rr_milliCPU result + MilliValue (rl_Cpu requests))\<rparr>)
       cs \<lparr>rr_milliCPU = go_int a, rr_memory = go_int b\<rparr>
    = \<lparr>rr_milliCPU = go_int (a + (\<Sum>c\<leftarrow>cs. container_cpu c)), rr_memory = go_int (b + (\<Sum>c\<leftarrow>cs. container_memory c))\<rparr>" for cs a b
    by (induction cs arbitrary: a b) (simp_all add: go_int_add container_cpu_def container_memory_def Let_def add.assoc)
  from this [where a = 0 and b = 0] show ?thesis
    by (simp add: getResourceRequest_def pod_cpu_def pod_memory_def go_int_small)
qed

lemma calculateResource_sum:
  "fst (calculateResource pod) = go_int (pod_cpu pod)" "fst (snd (calculateResource pod)) = go_int (pod_memory pod)"
proof -
  let ?step = "\<lambda>c (cpu, mem, non0_cpu, non0_mem).
         let req = Requests c;
             (non0_cpu_req, non0_mem_req) = GetNonzeroRequests req
         in (go_int (cpu + MilliValue (rl_Cpu req)), go_int (mem + Quantity_Value (rl_Memory req)),
             go_int (non0_cpu + non0_cpu_req), go_int (non0_mem + non0_mem_req))"
  have step: "\<exists>x' y'. ?step c (a, b, x, y) = (go_int (a + container_cpu c), go_int (b + container_memory c), x', y')" for c a b x y
    by (cases "GetNonzeroRequests (Requests c)") (simp add: container_cpu_def container_memory_def Let_def)
  have "\<exists>x' y'. fold ?step cs (go_int a, go_int b, x, y)
      = (go_int (a + (\<Sum>c\<leftarrow>cs. container_cpu c)), go_int (b + (\<Sum>c\<leftarrow>cs. container_memory c)), x', y')" for cs a b x y
  proof (induction cs arbitrary: a b x y)
    case (Cons c cs)
    obtain x' y' where "?step c (go_int a, go_int b, x, y) = (go_int (a + container_cpu c), go_int (b + container_memory c), x', y')"
      using step [of c "go_int a" "go_int b" x y] by (auto simp only: go_int_add)
    then show ?case using Cons.IH [of "a + container_cpu c" "b + container_memory c" x' y'] by (simp add: add.assoc)
  qed simp
  from this [of "Containers pod" 0 0 0 0]
  show "fst (calculateResource pod) = go_int (pod_cpu pod)" "fst (snd (calculateResource pod)) = go_int (pod_memory pod)"
    by (auto simp: calculateResource_def pod_cpu_def pod_memory_def go_int_small)
qed

lemma request_ok_nonneg: "request_ok p \<Longrightarrow> 0 \<le> pod_cpu p" "request_ok p \<Longrightarrow> 0 \<le> pod_memory p"
  unfolding request_ok_def pod_cpu_def pod_memory_def by (auto intro!: sum_list_nonneg)

text \<open>The aggregates of a node's information, when it belongs to a list of pods.\<close>

definition info_for :: "NodeInfo option \<Rightarrow> memory \<Rightarrow> SchedPod list \<Rightarrow> bool" where
  "info_for nodeInfo h pods \<longleftrightarrow> ni_Pods nodeInfo = pods
     \<and> RequestedResource nodeInfo h = requested (image_mset foot (mset pods))"

lemma go_int_sum: "go_int (\<Sum>x\<leftarrow>xs. go_int (f x)) = go_int (\<Sum>x\<leftarrow>xs. f x)"
proof (induction xs)
  case (Cons x xs)
  then show ?case by simp (metis go_int_add(1,2))
qed simp

lemma requested_sum:
  "requested (image_mset foot (mset pods)) = \<lparr>MilliCPU = go_int (\<Sum>p\<leftarrow>pods. pod_cpu p), Memory = go_int (\<Sum>p\<leftarrow>pods. pod_memory p)\<rparr>"
proof -
  have "(\<Sum>f\<in>#image_mset foot (mset pods). g f) = (\<Sum>p\<leftarrow>pods. g (foot p))" for g :: "footprint \<Rightarrow> int"
    by (induction pods) auto
  then show ?thesis by (simp add: requested_def calculateResource_sum go_int_sum)
qed

section \<open>Consistent nodes\<close>

definition node_ok :: "ResourceList \<Rightarrow> SchedPod list \<Rightarrow> bool" where
  "node_ok a pods \<longleftrightarrow>
     sorted_wrt (\<lambda>p q. \<not> pods_conflict p q \<and> host_ports p \<inter> host_ports q = {}) pods
     \<and> (\<forall>p \<in> set pods. request_ok p) \<and> int (length pods) \<le> Quantity_Value (rl_Pods a)
     \<and> (\<Sum>p\<leftarrow>pods. pod_cpu p) \<le> MilliValue (rl_Cpu a) \<and> (\<Sum>p\<leftarrow>pods. pod_memory p) \<le> Quantity_Value (rl_Memory a)"

lemma node_ok_empty: "capacity_ok a \<Longrightarrow> node_ok a []"
  by (simp add: node_ok_def capacity_ok_def)

lemma node_ok_perm: "node_ok a (xs @ p # ys) \<Longrightarrow> node_ok a (xs @ ys)"
  unfolding node_ok_def
  by (auto simp: sorted_wrt_append dest: request_ok_nonneg)

lemma PodFitsResources_iff:
  assumes "GetNodeInfo name = Inr (Some node)" and "info_for nodeInfo h pods"
    and "capacity_ok (Allocatable node)" and "node_ok (Allocatable node) pods" and "request_ok pod"
  shows "(\<exists>e. PodFitsResources GetNodeInfo pod name nodeInfo h = Some (True, e))
    \<longleftrightarrow> int (length pods) + 1 \<le> Quantity_Value (rl_Pods (Allocatable node))
      \<and> (\<Sum>p\<leftarrow>pods @ [pod]. pod_cpu p) \<le> MilliValue (rl_Cpu (Allocatable node))
      \<and> (\<Sum>p\<leftarrow>pods @ [pod]. pod_memory p) \<le> Quantity_Value (rl_Memory (Allocatable node))"
proof -
  let ?cpu = "\<Sum>p\<leftarrow>pods. pod_cpu p" and ?mem = "\<Sum>p\<leftarrow>pods. pod_memory p"
  have nn: "0 \<le> ?cpu" "0 \<le> ?mem" "0 \<le> pod_cpu pod" "0 \<le> pod_memory pod"
    using assms(4,5) by (auto intro!: sum_list_nonneg simp: node_ok_def request_ok_nonneg)
  have b: "?cpu < 2 ^ 62" "?mem < 2 ^ 62" "pod_cpu pod < 2 ^ 62" "pod_memory pod < 2 ^ 62"
    using assms(3-5) by (auto simp: node_ok_def capacity_ok_def request_ok_def)
  have r: "RequestedResource nodeInfo h = \<lparr>MilliCPU = ?cpu, Memory = ?mem\<rparr>" "ni_Pods nodeInfo = pods"
    using assms(2) nn b by (simp_all add: info_for_def requested_sum go_int_small)
  have g: "getResourceRequest pod = \<lparr>rr_milliCPU = pod_cpu pod, rr_memory = pod_memory pod\<rparr>"
    using nn b by (simp add: getResourceRequest_sum go_int_small)
  have s: "go_int (pod_cpu pod + ?cpu) = pod_cpu pod + ?cpu" "go_int (pod_memory pod + ?mem) = pod_memory pod + ?mem"
    using nn b by (simp_all add: go_int_small)
  have cap: "?cpu \<le> MilliValue (rl_Cpu (Allocatable node))" "?mem \<le> Quantity_Value (rl_Memory (Allocatable node))"
    using assms(4) by (simp_all add: node_ok_def)
  show ?thesis
    using cap by (auto simp: PodFitsResources_def assms(1) r g s insufficient_def Let_def add.commute)
qed

lemma fits_node_ok:
  assumes "GetNodeInfo name = Inr (Some node)" and "info_for nodeInfo h pods"
    and "capacity_ok (Allocatable node)" and "node_ok (Allocatable node) pods" and "request_ok pod"
    and "NoDiskConflict pod name nodeInfo h = Some (True, e1)"
    and "PodFitsHostPorts pod name nodeInfo h = Some (True, e2)"
    and "PodFitsResources GetNodeInfo pod name nodeInfo h = Some (True, e3)"
  shows "node_ok (Allocatable node) (pods @ [pod])"
proof -
  have pods: "ni_Pods nodeInfo = pods" using assms(2) by (simp add: info_for_def)
  have "\<not> pods_conflict q pod \<and> host_ports q \<inter> host_ports pod = {}" if "q \<in> set pods" for q
    using assms(6,7) that pods_conflict_sym [of pod q] by (auto simp: NoDiskConflict_iff PodFitsHostPorts_iff pods)
  moreover have "int (length pods) + 1 \<le> Quantity_Value (rl_Pods (Allocatable node))
      \<and> (\<Sum>p\<leftarrow>pods @ [pod]. pod_cpu p) \<le> MilliValue (rl_Cpu (Allocatable node))
      \<and> (\<Sum>p\<leftarrow>pods @ [pod]. pod_memory p) \<le> Quantity_Value (rl_Memory (Allocatable node))"
    using PodFitsResources_iff [where GetNodeInfo = GetNodeInfo, OF assms(1-5)] assms(8) by blast
  ultimately show ?thesis
    using assms(4,5) by (auto simp: node_ok_def sorted_wrt_append)
qed

section \<open>The number of volumes\<close>

definition volume_id :: "MaxPDVolumeCountChecker \<Rightarrow> string \<Rightarrow> Volume \<Rightarrow> string option" where
  "volume_id c namespace v =
     (case FilterVolume (vfilter c) v of
        Some i \<Rightarrow> Some i
      | None \<Rightarrow>
          (case PersistentVolumeClaim v of
             None \<Rightarrow> None
           | Some claim \<Rightarrow>
               (case pvcInfo c namespace claim of
                  Inr (Some pvc) \<Rightarrow>
                    (case pvInfo c (VolumeName pvc) of Inr (Some pv) \<Rightarrow> FilterPersistentVolume (vfilter c) pv | _ \<Rightarrow> None)
                | _ \<Rightarrow> None)))"

definition volume_ids :: "MaxPDVolumeCountChecker \<Rightarrow> SchedPod \<Rightarrow> string set" where
  "volume_ids c pod = {i. \<exists>v \<in> set (Volumes pod). volume_id c (sp_Namespace pod) v = Some i}"

lemma finite_volume_ids: "finite (volume_ids c pod)"
proof -
  have "volume_ids c pod \<subseteq> (\<lambda>v. the (volume_id c (sp_Namespace pod) v)) ` set (Volumes pod)"
    unfolding volume_ids_def by force
  then show ?thesis using finite_subset by blast
qed

lemma filterVolumes_step:
  "filterVolumes c (vol # vols) ns m = Some (Inr m')
    \<Longrightarrow> filterVolumes c vols ns (case volume_id c ns vol of Some i \<Rightarrow> insert i m | None \<Rightarrow> m) = Some (Inr m')"
  by (auto simp: volume_id_def split: option.splits sum.splits if_splits)

lemma filterVolumes_Inr:
  "filterVolumes c vols ns m = Some (Inr m') \<Longrightarrow> m' = m \<union> {i. \<exists>v \<in> set vols. volume_id c ns v = Some i}"
proof (induction vols arbitrary: m)
  case (Cons vol vols)
  show ?case using Cons.IH [OF filterVolumes_step [OF Cons.prems]] by (auto split: option.splits)
qed simp

lemma filterPods_Inr: "filterPods c pods m = Some (Inr m') \<Longrightarrow> m' = m \<union> (\<Union>q \<in> set pods. volume_ids c q)"
proof (induction c pods m rule: filterPods.induct)
  case (2 c p pods m)
  then obtain m1 where m1: "filterVolumes c (Volumes p) (sp_Namespace p) m = Some (Inr m1)"
    "filterPods c pods m1 = Some (Inr m')"
    by (auto split: option.splits sum.splits)
  then show ?case using "2.IH" [OF m1(1)] filterVolumes_Inr [OF m1(1)] by (auto simp: volume_ids_def)
qed simp

lemma MaxPD_result:
  assumes "MaxPDVolumeCount_predicate c pod name nodeInfo h = Some (fit, None)"
  shows "fit \<longleftrightarrow> volume_ids c pod = {}
    \<or> int (card (\<Union>q \<in> insert pod (set (ni_Pods nodeInfo)). volume_ids c q)) \<le> maxVolumes c"
proof -
  obtain new where new: "filterVolumes c (Volumes pod) (sp_Namespace pod) {} = Some (Inr new)"
    using assms by (auto simp: MaxPDVolumeCount_predicate_def fit_err_def split: option.splits sum.splits)
  have ids: "new = volume_ids c pod" using filterVolumes_Inr [OF new] by (simp add: volume_ids_def)
  show ?thesis
  proof (cases "new = {}")
    case True
    then show ?thesis using assms ids by (simp add: MaxPDVolumeCount_predicate_def new)
  next
    case False
    then obtain old where old: "filterPods c (ni_Pods nodeInfo) {} = Some (Inr old)"
      using assms by (auto simp: MaxPDVolumeCount_predicate_def fit_err_def new split: option.splits sum.splits)
    have "old = (\<Union>q \<in> set (ni_Pods nodeInfo). volume_ids c q)" using filterPods_Inr [OF old] by simp
    moreover from this have "finite old" by (simp add: finite_volume_ids)
    moreover have "card (old \<union> (new - old)) = card old + card (new - old)"
      using calculation(2) ids finite_volume_ids by (intro card_Un_disjoint) auto
    ultimately have "int (card (\<Union>q \<in> insert pod (set (ni_Pods nodeInfo)). volume_ids c q)) = int (card old) + int (card (new - old))"
      using ids by (simp add: Un_commute)
    then show ?thesis using assms ids False
      by (auto simp: MaxPDVolumeCount_predicate_def new old Let_def split: if_splits)
  qed
qed

text \<open>
  C36: The predicate on the number of volumes counts each volume once, whether it is mounted
  directly or through a claim: a pod it lets onto a node that is within the limit keeps the
  node's set of distinct volumes within the limit, and one it turns away, without an error, would
  have taken the set over it.
\<close>

theorem volume_count_stays_within_limit:
  assumes "MaxPDVolumeCount_predicate c pod name nodeInfo h = Some (fit, None)"
    and "int (card (\<Union>q \<in> set (ni_Pods nodeInfo). volume_ids c q)) \<le> maxVolumes c"
  shows "fit \<longleftrightarrow> int (card (\<Union>q \<in> insert pod (set (ni_Pods nodeInfo)). volume_ids c q)) \<le> maxVolumes c"
  using MaxPD_result [OF assms(1)] assms(2) by auto

definition ebs_pod :: "string list \<Rightarrow> string list \<Rightarrow> SchedPod" where
  "ebs_pod vols claims = \<lparr>sp_Name = ''p'', sp_Namespace = ''ns'', sp_Labels = Map.empty,
     sp_Annotations = Map.empty, sp_NodeName = '''', sp_NodeSelector = Map.empty, Containers = [],
     Volumes = map (\<lambda>v. \<lparr>GCEPersistentDisk = None, AWSElasticBlockStore = Some v, RBD = None, PersistentVolumeClaim = None\<rparr>) vols
       @ map (\<lambda>c. \<lparr>GCEPersistentDisk = None, AWSElasticBlockStore = None, RBD = None, PersistentVolumeClaim = Some c\<rparr>) claims\<rparr>"

definition ebs_checker :: "int \<Rightarrow> MaxPDVolumeCountChecker" where
  "ebs_checker n = \<lparr>vfilter = EBSVolumeFilter, maxVolumes = n,
     pvInfo = (\<lambda>_. Inr (Some \<lparr>pv_Labels = Map.empty, pv_GCE = None, pv_AWS = Some ''vol''\<rparr>)),
     pvcInfo = (\<lambda>_ _. Inr (Some \<lparr>VolumeName = ''pv''\<rparr>))\<rparr>"

theorem volume_count_stays_within_limit_witness:
  "int (card (\<Union>q \<in> insert (ebs_pod [''a''] [''claim'']) (set [ebs_pod [''vol''] []]). volume_ids (ebs_checker 2) q)) \<le> 2"
proof -
  let ?ni = "Some \<lparr>requestedResource = 0, ni_pods = [ebs_pod [''vol''] []], nonzeroRequest = 1\<rparr>"
  have ids: "volume_ids (ebs_checker 2) (ebs_pod [''vol''] []) = {''vol''}"
    by (auto simp: volume_ids_def ebs_pod_def volume_id_def ebs_checker_def EBSVolumeFilter_def)
  have "MaxPDVolumeCount_predicate (ebs_checker 2) (ebs_pod [''a''] [''claim'']) ''n'' ?ni [] = Some (True, None)"
    by (simp add: MaxPDVolumeCount_predicate_def ebs_pod_def ebs_checker_def EBSVolumeFilter_def ni_Pods_def Let_def)
  from volume_count_stays_within_limit [OF this] show ?thesis
    by (simp add: ids ni_Pods_def ebs_checker_def) (simp add: ids [unfolded ebs_checker_def])
qed

section \<open>Requests that overflow\<close>

definition one_container :: "string \<Rightarrow> int \<Rightarrow> SchedPod" where
  "one_container name mem = \<lparr>sp_Name = name, sp_Namespace = ''ns'', sp_Labels = Map.empty,
     sp_Annotations = Map.empty, sp_NodeName = '''', sp_NodeSelector = Map.empty,
     Containers = [\<lparr>Requests = [ResourceMemory \<mapsto> NewQuantity mem BinarySI], HostPorts = [], Image = ''nginx''\<rparr>],
     Volumes = []\<rparr>"

definition small_node :: Node where
  "small_node = \<lparr>n_Name = ''n'', n_Labels = Map.empty,
     Allocatable = [ResourceCPU \<mapsto> NewQuantity 1 DecimalSI, ResourceMemory \<mapsto> NewQuantity (2 ^ 30) BinarySI,
                    ResourcePods \<mapsto> NewQuantity 10 DecimalSI], Images = []\<rparr>"

text \<open>
  The sum of a pod's request and what the node already uses is not checked for overflow.  A
  pod that asks for the largest amount of memory there is, nearly 8Ei, fits on a node with 1Gi
  as soon as that node has another pod that requests a byte; on the empty node it does not fit.
\<close>

theorem huge_request_fits_when_the_sum_overflows:
  "PodFitsResources (StaticNodeInfo_GetNodeInfo [small_node]) (one_container ''huge'' (2 ^ 63 - 1)) ''n''
       (Some \<lparr>requestedResource = 0, ni_pods = [one_container ''small'' 1], nonzeroRequest = 1\<rparr>)
       [\<lparr>MilliCPU = 0, Memory = 1\<rparr>, \<lparr>MilliCPU = 100, Memory = 1\<rparr>] = Some (True, None)
   \<and> PodFitsResources (StaticNodeInfo_GetNodeInfo [small_node]) (one_container ''huge'' (2 ^ 63 - 1)) ''n'' None []
     = Some (False, Some (InsufficientResourceError ''Memory'' (2 ^ 63 - 1) 0 (2 ^ 30)))
   \<and> snd (ni_addPod (one_container ''small'' 1)
       (\<lparr>requestedResource = 0, ni_pods = [], nonzeroRequest = 1\<rparr>, [emptyResource, emptyResource]))
     = [\<lparr>MilliCPU = 0, Memory = 1\<rparr>, \<lparr>MilliCPU = 100, Memory = 1\<rparr>]"
  by (intro conjI) code_simp+

end
