(* ===== verification/Generic_Scheduler_Props.thy ===== *)
theory Generic_Scheduler_Props
  imports Priorities Predicates_Props
begin

text \<open>
  What scheduling a pod does: it finds the nodes on which every predicate lets the pod, gives each
  of them the weighted sum of its scores, and picks one with the largest sum.  With the default
  predicates on resources, disks and ports a cluster that it fills is never overcommitted.
\<close>

section \<open>Filtering\<close>

declare fit_error_Error.simps [simp del]

definition fits :: "(string \<rightharpoonup> FitPredicate) \<Rightarrow> SchedPod \<Rightarrow> string \<Rightarrow> NodeInfo option \<Rightarrow> memory \<Rightarrow> bool" where
  "fits predicateFuncs pod name nodeInfo h \<longleftrightarrow>
     (\<forall>k p. predicateFuncs k = Some p \<longrightarrow> p pod name nodeInfo h = Some (True, None))"

lemma try_predicates_fit:
  "try_predicates ps pod name ni h = Some (Inr None) \<longleftrightarrow> (\<forall>(k, p) \<in> set ps. p pod name ni h = Some (True, None))"
proof (induction ps pod name ni h rule: try_predicates.induct)
  case (2 k p ps pod name ni h)
  then show ?case by (auto split: option.splits fit_error.splits prod.splits simp: Let_def)
qed simp

text \<open>Why a predicate that says no is recorded.\<close>

definition refuses :: "string \<Rightarrow> fit option \<Rightarrow> string \<Rightarrow> bool" where
  "refuses k result reason \<longleftrightarrow> result = Some (False, None) \<and> reason = k
     \<or> (\<exists>r a b c. result = Some (False, Some (InsufficientResourceError r a b c))
          \<and> reason = fit_error_Error (InsufficientResourceError r a b c))"

lemma try_predicates_refusal:
  "try_predicates ps pod name ni h = Some (Inr (Some reason)) \<Longrightarrow> \<exists>(k, p) \<in> set ps. refuses k (p pod name ni h) reason"
proof (induction ps pod name ni h rule: try_predicates.induct)
  case (2 k p ps pod name ni h)
  show ?case
  proof (cases "refuses k (p pod name ni h) reason")
    case False
    then have "try_predicates ps pod name ni h = Some (Inr (Some reason))" "p pod name ni h = Some (True, None)"
      using "2.prems" by (auto simp: refuses_def Let_def split: option.splits fit_error.splits prod.splits if_splits)
    then show ?thesis using "2.IH" by auto
  qed auto
qed simp

definition refusal :: "(string \<rightharpoonup> FitPredicate) \<Rightarrow> SchedPod \<Rightarrow> string \<Rightarrow> NodeInfo option \<Rightarrow> memory \<Rightarrow> string \<Rightarrow> bool" where
  "refusal P pod name ni h reason \<longleftrightarrow> (\<exists>k p. P k = Some p \<and> refuses k (p pod name ni h) reason)"

lemma try_range_fit:
  assumes "go_range_ok rng" and "finite (dom P)"
  shows "try_predicates (rng P) pod name ni h = Some (Inr None) \<longleftrightarrow> fits P pod name ni h"
  unfolding try_predicates_fit fits_def using map_entries_mem [OF go_rangeD [OF assms]] by fast

lemma try_range_refusal:
  assumes "go_range_ok rng" and "finite (dom P)"
    and "try_predicates (rng P) pod name ni h = Some (Inr (Some reason))"
  shows "refusal P pod name ni h reason"
proof -
  obtain k p where "(k, p) \<in> set (rng P)" "refuses k (p pod name ni h) reason"
    using try_predicates_refusal [OF assms(3)] by blast
  then show ?thesis unfolding refusal_def map_entries_mem [OF go_rangeD [OF assms(1,2)]] by blast
qed

lemma filter_nodes_Inr:
  assumes "filter_nodes rng pod m h P nodes filtered failed = Some (Inr (filtered', failed'))"
  shows "filtered' = filtered @ filter (\<lambda>n. try_predicates (rng n P) pod (n_Name n) (m (n_Name n)) h = Some (Inr None)) nodes"
    and "dom failed' = dom failed \<union>
      n_Name ` {n \<in> set nodes. try_predicates (rng n P) pod (n_Name n) (m (n_Name n)) h \<noteq> Some (Inr None)}"
proof -
  have "filtered' = filtered @ filter (\<lambda>n. try_predicates (rng n P) pod (n_Name n) (m (n_Name n)) h = Some (Inr None)) nodes
    \<and> dom failed' = dom failed \<union>
      n_Name ` {n \<in> set nodes. try_predicates (rng n P) pod (n_Name n) (m (n_Name n)) h \<noteq> Some (Inr None)}"
    using assms
  proof (induction nodes arbitrary: filtered failed)
    case (Cons n nodes)
    obtain x where x: "try_predicates (rng n P) pod (n_Name n) (m (n_Name n)) h = Some (Inr x)"
      using Cons.prems by (auto split: option.splits sum.splits)
    let ?fit = "\<lambda>n. try_predicates (rng n P) pod (n_Name n) (m (n_Name n)) h = Some (Inr None)"
    have ins: "{n' \<in> set (n # nodes). \<not> ?fit n'} = (if ?fit n then {n' \<in> set nodes. \<not> ?fit n'} else insert n {n' \<in> set nodes. \<not> ?fit n'})"
      by auto
    show ?case
    proof (cases x)
      case None
      then have "filter_nodes rng pod m h P nodes (filtered @ [n]) failed = Some (Inr (filtered', failed'))"
        using Cons.prems x by simp
      from Cons.IH [OF this] show ?thesis unfolding ins using x None by simp
    next
      case (Some r)
      then have "filter_nodes rng pod m h P nodes filtered
          (failed(n_Name n \<mapsto> insert r (case failed (n_Name n) of None \<Rightarrow> {} | Some s \<Rightarrow> s))) = Some (Inr (filtered', failed'))"
        using Cons.prems x by simp
      from Cons.IH [OF this] show ?thesis unfolding ins using x Some by (simp del: fun_upd_apply)
    qed
  qed simp
  then show "filtered' = filtered @ filter (\<lambda>n. try_predicates (rng n P) pod (n_Name n) (m (n_Name n)) h = Some (Inr None)) nodes"
    "dom failed' = dom failed \<union>
      n_Name ` {n \<in> set nodes. try_predicates (rng n P) pod (n_Name n) (m (n_Name n)) h \<noteq> Some (Inr None)}"
    by blast+
qed

lemma filter_nodes_reasons:
  assumes "filter_nodes rng pod m h P nodes filtered failed = Some (Inr (filtered', failed'))"
    and "\<And>n r. n \<in> set nodes \<Longrightarrow> try_predicates (rng n P) pod (n_Name n) (m (n_Name n)) h = Some (Inr (Some r)) \<Longrightarrow> Q (n_Name n) r"
    and "\<forall>name rs. failed name = Some rs \<longrightarrow> rs \<noteq> {} \<and> (\<forall>r \<in> rs. Q name r)"
  shows "\<forall>name rs. failed' name = Some rs \<longrightarrow> rs \<noteq> {} \<and> (\<forall>r \<in> rs. Q name r)"
  using assms
proof (induction nodes arbitrary: filtered failed)
  case (Cons n nodes)
  obtain x where x: "try_predicates (rng n P) pod (n_Name n) (m (n_Name n)) h = Some (Inr x)"
    using Cons.prems(1) by (auto split: option.splits sum.splits)
  show ?case
  proof (cases x)
    case None
    then show ?thesis using Cons.IH [of "filtered @ [n]" failed] Cons.prems x by simp
  next
    case (Some r)
    let ?failed = "failed(n_Name n \<mapsto> insert r (case failed (n_Name n) of None \<Rightarrow> {} | Some s \<Rightarrow> s))"
    have "Q (n_Name n) r" using Cons.prems(2) [of n r] x Some by simp
    then have "\<forall>name rs. ?failed name = Some rs \<longrightarrow> rs \<noteq> {} \<and> (\<forall>r \<in> rs. Q name r)"
      using Cons.prems(3) by (auto split: option.splits)
    moreover have "filter_nodes rng pod m h P nodes filtered ?failed = Some (Inr (filtered', failed'))"
      using Cons.prems(1) x Some by simp
    moreover have "Q (n_Name n') r'" if "n' \<in> set nodes"
      "try_predicates (rng n' P) pod (n_Name n') (m (n_Name n')) h = Some (Inr (Some r'))" for n' r'
      using Cons.prems(2) [of n' r'] that by simp
    ultimately show ?thesis by (intro Cons.IH [of filtered ?failed])
  qed
qed simp

text \<open>Predicates that neither panic nor return an error other than the lack of a resource.\<close>

definition clean :: "(string \<rightharpoonup> FitPredicate) \<Rightarrow> SchedPod \<Rightarrow> string \<Rightarrow> NodeInfo option \<Rightarrow> memory \<Rightarrow> bool" where
  "clean P pod name ni h \<longleftrightarrow> (\<forall>k p. P k = Some p \<longrightarrow>
     p pod name ni h = Some (True, None) \<or> p pod name ni h = Some (False, None)
     \<or> (\<exists>r a b c. p pod name ni h = Some (False, Some (InsufficientResourceError r a b c))))"

lemma try_predicates_clean:
  assumes "\<forall>(k, p) \<in> set ps. p pod name ni h = Some (True, None) \<or> p pod name ni h = Some (False, None)
     \<or> (\<exists>r a b c. p pod name ni h = Some (False, Some (InsufficientResourceError r a b c)))"
  shows "\<exists>x. try_predicates ps pod name ni h = Some (Inr x)"
  using assms by (induction ps pod name ni h rule: try_predicates.induct) (auto simp: Let_def)

lemma try_range_clean:
  assumes "go_range_ok rng" and "finite (dom P)" and "clean P pod name ni h"
  shows "\<exists>x. try_predicates (rng P) pod name ni h = Some (Inr x)"
  by (rule try_predicates_clean)
    (use assms(3) map_entries_mem [OF go_rangeD [OF assms(1,2)]] in \<open>auto simp: clean_def\<close>)

lemma filter_nodes_clean:
  assumes "\<And>n. n \<in> set nodes \<Longrightarrow> \<exists>x. try_predicates (rng n P) pod (n_Name n) (m (n_Name n)) h = Some (Inr x)"
  shows "\<exists>filtered' failed'. filter_nodes rng pod m h P nodes filtered failed = Some (Inr (filtered', failed'))"
  using assms
proof (induction nodes arbitrary: filtered failed)
  case (Cons n nodes)
  obtain x where "try_predicates (rng n P) pod (n_Name n) (m (n_Name n)) h = Some (Inr x)" using Cons.prems [of n] by auto
  then show ?case using Cons by (cases x) auto
qed simp

section \<open>Scoring\<close>

definition contribution ::
  "SchedPod \<Rightarrow> (string \<rightharpoonup> NodeInfo) \<Rightarrow> memory \<Rightarrow> go_error + Node list \<Rightarrow> string \<Rightarrow> PriorityConfig \<Rightarrow> int" where
  "contribution pod m h lister host config =
     (case pc_Function config pod m h lister of
        Inl err \<Rightarrow> 0
      | Inr l \<Rightarrow> (\<Sum>e\<leftarrow>l. if Host e = host then Score e * pc_Weight config else 0))"

definition scored :: "SchedPod \<Rightarrow> (string \<rightharpoonup> NodeInfo) \<Rightarrow> memory \<Rightarrow> go_error + Node list \<Rightarrow> PriorityConfig \<Rightarrow> string set" where
  "scored pod m h lister config =
     (case pc_Function config pod m h lister of Inl err \<Rightarrow> {} | Inr l \<Rightarrow> Host ` set l)"

text \<open>The same for an extender, whose errors are ignored.\<close>

definition extender_contribution :: "SchedPod \<Rightarrow> Node list \<Rightarrow> string \<Rightarrow> SchedulerExtender \<Rightarrow> int" where
  "extender_contribution pod F host ext =
     (case ext_Prioritize ext pod F of
        Inl err \<Rightarrow> 0
      | Inr (l, weight) \<Rightarrow> (\<Sum>e\<leftarrow>l. if Host e = host then Score e * weight else 0))"

definition extender_scored :: "SchedPod \<Rightarrow> Node list \<Rightarrow> SchedulerExtender \<Rightarrow> string set" where
  "extender_scored pod F ext =
     (case ext_Prioritize ext pod F of Inl err \<Rightarrow> {} | Inr (l, weight) \<Rightarrow> Host ` set l)"

text \<open>What the priority functions and the extenders give a node, among the nodes \<open>F\<close>, and the nodes they score.\<close>

definition total_score ::
  "SchedPod \<Rightarrow> (string \<rightharpoonup> NodeInfo) \<Rightarrow> memory \<Rightarrow> Node list \<Rightarrow> PriorityConfig list \<Rightarrow> SchedulerExtender list \<Rightarrow> string \<Rightarrow> int" where
  "total_score pod m h F configs exts host =
     go_int ((\<Sum>config\<leftarrow>configs. contribution pod m h (Inr F) host config)
       + (\<Sum>ext\<leftarrow>exts. extender_contribution pod F host ext))"

definition scored_hosts ::
  "SchedPod \<Rightarrow> (string \<rightharpoonup> NodeInfo) \<Rightarrow> memory \<Rightarrow> Node list \<Rightarrow> PriorityConfig list \<Rightarrow> SchedulerExtender list \<Rightarrow> string set" where
  "scored_hosts pod m h F configs exts =
     (\<Union>c \<in> {c \<in> set configs. pc_Weight c \<noteq> 0}. scored pod m h (Inr F) c) \<union> (\<Union>ext \<in> set exts. extender_scored pod F ext)"

text \<open>A map of scores that stands for a function, as the machine computes its values.\<close>

definition scores_for :: "(string \<rightharpoonup> int) \<Rightarrow> string set \<Rightarrow> (string \<Rightarrow> int) \<Rightarrow> bool" where
  "scores_for m D S \<longleftrightarrow> (\<forall>host. m host = (if host \<in> D then Some (go_int (S host)) else None)) \<and> (\<forall>host. host \<notin> D \<longrightarrow> S host = 0)"

lemma scores_for_add:
  assumes "scores_for m D S"
  shows "scores_for (m(k \<mapsto> go_int ((case m k of None \<Rightarrow> 0 | Some x \<Rightarrow> x) + go_int y))) (insert k D) (S(k := S k + y))"
  using assms by (auto simp: scores_for_def go_int_add add.commute)

lemma add_scores_for:
  assumes "scores_for m D S"
  shows "scores_for (add_scores w l m) (D \<union> Host ` set l) (\<lambda>host. S host + (\<Sum>e\<leftarrow>l. if Host e = host then Score e * w else 0))"
  using assms
proof (induction l arbitrary: m D S)
  case (Cons e l)
  have "scores_for (add_scores w l (m(Host e \<mapsto> go_int ((case m (Host e) of None \<Rightarrow> 0 | Some x \<Rightarrow> x) + go_int (Score e * w)))))
      (insert (Host e) D \<union> Host ` set l)
      (\<lambda>host. (S(Host e := S (Host e) + Score e * w)) host + (\<Sum>e\<leftarrow>l. if Host e = host then Score e * w else 0))"
    by (rule Cons.IH [OF scores_for_add [OF Cons.prems]])
  moreover have "(\<lambda>host. (S(Host e := S (Host e) + Score e * w)) host + (\<Sum>e\<leftarrow>l. if Host e = host then Score e * w else 0))
      = (\<lambda>host. S host + (\<Sum>e\<leftarrow>e # l. if Host e = host then Score e * w else 0))"
    by (auto simp: fun_eq_iff)
  ultimately show ?case by (simp add: add_scores_def)
qed (simp add: add_scores_def)

lemma run_priorities_scores:
  assumes "scores_for m D S"
  shows "scores_for (snd (fold (run_priority pod nm h lister) configs (errs, m)))
    (D \<union> (\<Union>c \<in> set configs. scored pod nm h lister c))
    (\<lambda>host. S host + (\<Sum>c\<leftarrow>configs. contribution pod nm h lister host c))"
  using assms
proof (induction configs arbitrary: errs m D S)
  case (Cons c configs)
  show ?case
  proof (cases "pc_Function c pod nm h lister")
    case (Inl err)
    then show ?thesis using Cons.IH [OF Cons.prems] by (simp add: run_priority_def scored_def contribution_def)
  next
    case (Inr l)
    then show ?thesis using Cons.IH [OF add_scores_for [OF Cons.prems, of "pc_Weight c" l]]
      by (simp add: run_priority_def scored_def contribution_def Un_assoc add.assoc)
  qed
qed simp

lemma run_extenders_scores:
  assumes "scores_for m D S"
  shows "scores_for (fold (run_extender pod F) exts m) (D \<union> (\<Union>ext \<in> set exts. extender_scored pod F ext))
    (\<lambda>host. S host + (\<Sum>ext\<leftarrow>exts. extender_contribution pod F host ext))"
  using assms
proof (induction exts arbitrary: m D S)
  case (Cons ext exts)
  show ?case
  proof (cases "ext_Prioritize ext pod F")
    case (Inl err)
    then show ?thesis using Cons.IH [OF Cons.prems]
      by (simp add: run_extender_def extender_scored_def extender_contribution_def)
  next
    case (Inr x)
    then show ?thesis using Cons.IH [OF add_scores_for [OF Cons.prems, of "snd x" "fst x"]]
      by (simp add: run_extender_def extender_scored_def extender_contribution_def Un_assoc add.assoc case_prod_beta)
  qed
qed simp

lemma sum_list_perm: "mset xs = mset ys \<Longrightarrow> (\<Sum>x\<leftarrow>xs. f x) = (\<Sum>x\<leftarrow>ys. (f x :: int))"
  by (metis mset_map sum_mset_sum_list)

lemma weightless: "pc_Weight c = 0 \<Longrightarrow> contribution pod nm h lister host c = 0"
  by (simp add: contribution_def cong: if_cong split: sum.split)

lemma total_score_perm:
  assumes "mset finished = mset (filter (\<lambda>c. pc_Weight c \<noteq> 0) configs)" and "mset exts' = mset exts"
  shows "go_int ((\<Sum>c\<leftarrow>finished. contribution pod nm h (Inr F) host c) + (\<Sum>ext\<leftarrow>exts'. extender_contribution pod F host ext))
    = total_score pod nm h F configs exts host"
proof -
  have "(\<Sum>c\<leftarrow>filter (\<lambda>c. pc_Weight c \<noteq> 0) configs. contribution pod nm h (Inr F) host c)
      = (\<Sum>c\<leftarrow>configs. contribution pod nm h (Inr F) host c)"
    by (induction configs) (auto simp: weightless)
  then show ?thesis unfolding total_score_def sum_list_perm [OF assms(1)] sum_list_perm [OF assms(2)] by simp
qed

definition choices_ok :: "sched_choices \<Rightarrow> bool" where
  "choices_ok ch \<longleftrightarrow> (\<forall>n. go_range_ok (predicate_range ch n)) \<and> go_range_ok (score_range ch)
     \<and> (\<forall>xs. mset (priority_order ch xs) = mset xs) \<and> (\<forall>xs. mset (extender_order ch xs) = mset xs)"

lemma PrioritizeNodes_scores:
  assumes "choices_ok ch" and "configs \<noteq> [] \<or> exts \<noteq> []"
    and "PrioritizeNodes ch pod nm h configs (Inr F) exts = Inr l"
  shows "distinct (map Host l)"
    and "Host ` set l = scored_hosts pod nm h F configs exts"
    and "e \<in> set l \<Longrightarrow> Score e = total_score pod nm h F configs exts (Host e)"
proof -
  let ?fin = "priority_order ch (filter (\<lambda>c. pc_Weight c \<noteq> 0) configs)" and ?exts = "extender_order ch exts"
  let ?D = "scored_hosts pod nm h F configs exts"
  have perm: "mset ?fin = mset (filter (\<lambda>c. pc_Weight c \<noteq> 0) configs)" and perm': "mset ?exts = mset exts"
    using assms(1) by (simp_all add: choices_ok_def)
  have set: "set ?fin = {c \<in> set configs. pc_Weight c \<noteq> 0}" "set ?exts = set exts"
    using mset_eq_setD [OF perm] mset_eq_setD [OF perm'] by simp_all
  let ?m = "fold (run_extender pod F) ?exts (snd (fold (run_priority pod nm h (Inr F)) ?fin ([], Map.empty)))"
  have "scores_for Map.empty {} (\<lambda>_. 0)" by (simp add: scores_for_def)
  from run_extenders_scores [OF run_priorities_scores [OF this, of pod nm h "Inr F" ?fin "[]"], of pod F ?exts]
  have m: "\<And>host. ?m host = (if host \<in> ?D then Some (total_score pod nm h F configs exts host) else None)"
    unfolding scores_for_def set by (simp add: total_score_perm [OF perm perm'] scored_hosts_def)
  then have dom: "dom ?m = ?D" by (auto split: if_splits)
  have "finite ?D" by (auto simp: scored_hosts_def scored_def extender_scored_def split: sum.split)
  then have ent: "map_entries (score_range ch ?m) ?m"
    using assms(1) dom by (intro go_rangeD) (simp_all add: choices_ok_def)
  have none: "?exts = []" if "exts = []" using set(2) that by simp
  have l: "l = map (\<lambda>(host, score). \<lparr>Host = host, Score = score\<rparr>) (score_range ch ?m)"
    using assms(2,3) none by (auto simp: PrioritizeNodes_def Let_def split: if_splits)
  have hosts: "map Host l = map fst (score_range ch ?m)" unfolding l by auto
  show "distinct (map Host l)" unfolding hosts by (rule map_entries_distinct [OF ent])
  have "Host ` set l = fst ` set (score_range ch ?m)" using arg_cong [OF hosts, of set] by simp
  then show "Host ` set l = ?D" unfolding map_entries_dom [OF ent] dom .
  show "Score e = total_score pod nm h F configs exts (Host e)" if "e \<in> set l"
  proof -
    note e = that
    obtain x where x: "x \<in> set (score_range ch ?m)" "e = \<lparr>Host = fst x, Score = snd x\<rparr>"
      using e unfolding l by (auto simp: case_prod_beta)
    then have "(fst x, snd x) \<in> set (score_range ch ?m)" by (simp only: prod.collapse)
    then have "?m (fst x) = Some (snd x)" unfolding map_entries_mem [OF ent] .
    then show ?thesis using m [of "fst x"] x(2) by (simp split: if_splits)
  qed
qed

lemma PrioritizeNodes_equal:
  "PrioritizeNodes ch pod nm h [] (Inr nodes) [] = Inr (map (\<lambda>node. \<lparr>Host = n_Name node, Score = 1\<rparr>) nodes)"
  by (simp add: PrioritizeNodes_def EqualPriority_def)

section \<open>Choosing\<close>

definition best_entries :: "HostPriority list \<Rightarrow> HostPriority list" where
  "best_entries l = filter (\<lambda>e. \<forall>e' \<in> set l. Score e' \<le> Score e) l"

lemma select_loop:
  assumes "xs \<noteq> []"
  shows "fold select_step (enumerate 0 xs) (Score (xs ! 0), []) =
    (Max (Score ` set xs), filter (\<lambda>i. Score (xs ! i) = Max (Score ` set xs)) [0..<length xs])"
  using assms
proof (induction xs rule: rev_nonempty_induct)
  case (snoc x xs)
  let ?M = "Max (Score ` set xs)"
  have mx: "Max (Score ` set (xs @ [x])) = max (Score x) ?M" using snoc.hyps by simp
  have le: "Score (xs ! i) \<le> ?M" if "i < length xs" for i using that by simp
  have idx: "filter (\<lambda>i. Score ((xs @ [x]) ! i) = s) [0..<length xs] = filter (\<lambda>i. Score (xs ! i) = s) [0..<length xs]" for s
    by (intro filter_cong) (simp_all add: nth_append)
  have none: "filter (\<lambda>i. Score (xs ! i) = s) [0..<length xs] = []" if "?M < s" for s
    unfolding filter_empty_conv using that le by fastforce
  have "fold select_step (enumerate 0 (xs @ [x])) (Score ((xs @ [x]) ! 0), [])
      = select_step (length xs, x) (?M, filter (\<lambda>i. Score (xs ! i) = ?M) [0..<length xs])"
    using snoc by (simp add: enumerate_append_eq nth_append)
  also have "\<dots> = (max (Score x) ?M, filter (\<lambda>i. Score ((xs @ [x]) ! i) = max (Score x) ?M) [0..<length (xs @ [x])])"
    by (auto simp: select_step_def idx none max_def)
  finally show ?case unfolding mx .
qed (simp add: select_step_def)

lemma best_entries_nonempty: "l \<noteq> [] \<Longrightarrow> best_entries l \<noteq> []"
proof -
  assume "l \<noteq> []"
  then have "Max (Score ` set l) \<in> Score ` set l" by (intro Max_in) auto
  then obtain e where "e \<in> set l" "Score e = Max (Score ` set l)" by auto
  then have "e \<in> set (best_entries l)" by (simp add: best_entries_def)
  then show ?thesis by auto
qed

lemma selectHost_best:
  assumes "l \<noteq> []"
  shows "selectHost rand l = Inr (Host (best_entries l ! (rand mod length (best_entries l))))"
proof -
  let ?M = "Max (Score ` set l)"
  let ?idx = "filter (\<lambda>i. Score (l ! i) = ?M) [0..<length l]"
  have "best_entries l = filter (\<lambda>e. Score e = ?M) l"
    unfolding best_entries_def
  proof (rule filter_cong [OF refl])
    fix e assume e: "e \<in> set l"
    have ub: "Score e' \<le> ?M" if "e' \<in> set l" for e' using that by simp
    have "?M \<le> Score e \<longleftrightarrow> (\<forall>e' \<in> set l. Score e' \<le> Score e)"
      using assms by (subst Max_le_iff) auto
    then show "(\<forall>e' \<in> set l. Score e' \<le> Score e) \<longleftrightarrow> Score e = ?M" using ub [OF e] by auto
  qed
  also have "\<dots> = map ((!) l) ?idx" by (metis (no_types, lifting) filter_map comp_apply filter_cong map_nth)
  finally have best: "best_entries l = map ((!) l) ?idx" .
  then have "?idx \<noteq> []" using best_entries_nonempty [OF assms] by auto
  then have "rand mod length ?idx < length ?idx" by simp
  then show ?thesis using assms best
    by (simp add: selectHost_def select_loop Let_def)
qed

text \<open>
  Of a nonempty list of scored nodes the scheduler picks an entry with the highest score.
  The random number chooses among exactly those entries, each of which it can reach, in their
  order; of an empty list it returns an error.
\<close>

theorem select_host_picks_a_best_entry:
  "selectHost rand l =
     (if l = [] then Inl (SchedErr ''empty priorityList'')
      else Inr (Host (best_entries l ! (rand mod length (best_entries l)))))
   \<and> (l \<noteq> [] \<longrightarrow> best_entries l \<noteq> [])
   \<and> (i < length (best_entries l) \<longrightarrow> selectHost i l = Inr (Host (best_entries l ! i)))"
  using selectHost_best [of l rand] best_entries_nonempty [of l] selectHost_best [of l i]
  by (cases "l = []") (auto simp: selectHost_def best_entries_def)

theorem select_host_picks_a_best_entry_witness:
  "selectHost 1 [\<lparr>Host = ''a'', Score = 7\<rparr>, \<lparr>Host = ''b'', Score = 3\<rparr>, \<lparr>Host = ''c'', Score = 7\<rparr>] = Inr ''c''"
  using select_host_picks_a_best_entry [of 1 "[\<lparr>Host = ''a'', Score = 7\<rparr>, \<lparr>Host = ''b'', Score = 3\<rparr>, \<lparr>Host = ''c'', Score = 7\<rparr>]" 0]
  by (simp add: best_entries_def)

section \<open>Scheduling\<close>

definition feasible :: "(string \<rightharpoonup> FitPredicate) \<Rightarrow> SchedPod \<Rightarrow> (string \<rightharpoonup> NodeInfo) \<Rightarrow> memory \<Rightarrow> Node list \<Rightarrow> Node list" where
  "feasible P pod m h nodes = filter (\<lambda>n. fits P pod (n_Name n) (m (n_Name n)) h) nodes"

text \<open>What the extenders leave of those nodes; they are asked only when there are some.\<close>

definition candidates ::
  "(string \<rightharpoonup> FitPredicate) \<Rightarrow> SchedulerExtender list \<Rightarrow> SchedPod \<Rightarrow> (string \<rightharpoonup> NodeInfo) \<Rightarrow> memory \<Rightarrow> Node list \<Rightarrow> go_error + Node list" where
  "candidates P exts pod m h nodes =
     (let F = feasible P pod m h nodes in if F = [] then Inr [] else extender_filters exts pod F)"

text \<open>
  What the interface of an extender asks of its answers: the filtered list is a subset of the
  list it was given, and the scores are scores of those nodes.
\<close>

definition extender_ok :: "SchedulerExtender \<Rightarrow> bool" where
  "extender_ok ext \<longleftrightarrow>
     (\<forall>pod F F'. ext_Filter ext pod F = Inr F' \<longrightarrow> set F' \<subseteq> set F)
     \<and> (\<forall>pod F l weight. ext_Prioritize ext pod F = Inr (l, weight) \<longrightarrow> Host ` set l \<subseteq> n_Name ` set F)"

lemma extender_filters_narrow:
  "extender_filters exts pod F = Inr F' \<Longrightarrow> \<forall>ext \<in> set exts. extender_ok ext \<Longrightarrow> set F' \<subseteq> set F"
proof (induction exts arbitrary: F)
  case (Cons ext exts)
  obtain F1 where F1: "ext_Filter ext pod F = Inr F1" using Cons.prems(1) by (cases "ext_Filter ext pod F") auto
  then have "set F1 \<subseteq> set F" using Cons.prems(2) by (auto simp: extender_ok_def)
  then show ?case using Cons F1 by (auto split: if_splits)
qed simp

lemma candidates_feasible:
  assumes "candidates P exts pod m h nodes = Inr F" and "\<forall>ext \<in> set exts. extender_ok ext"
  shows "set F \<subseteq> set (feasible P pod m h nodes)"
  using assms extender_filters_narrow [of exts pod _ F] by (auto simp: candidates_def Let_def split: if_splits)

lemma findNodesThatFit_candidates:
  assumes "filter_nodes rng pod m h P nodes [] Map.empty = Some (Inr (feasible P pod m h nodes, failed))"
  shows "findNodesThatFit rng pod m h P nodes exts =
    (case candidates P exts pod m h nodes of Inl err \<Rightarrow> Some (Inl err) | Inr F \<Rightarrow> Some (Inr (F, failed)))"
  using assms by (cases exts) (auto simp: findNodesThatFit_def candidates_def Let_def)

lemma filter_nodes_feasible:
  assumes "choices_ok ch" and "finite (dom P)"
    and "filter_nodes (predicate_range ch) pod m h P nodes [] Map.empty = Some (Inr (filtered, failed))"
  shows "filtered = feasible P pod m h nodes"
    and "dom failed = n_Name ` {n \<in> set nodes. \<not> fits P pod (n_Name n) (m (n_Name n)) h}"
    and "failed name = Some rs \<Longrightarrow> rs \<noteq> {} \<and> (\<forall>r \<in> rs. refusal P pod name (m name) h r)"
proof -
  have rng: "go_range_ok (predicate_range ch n)" for n using assms(1) by (simp add: choices_ok_def)
  note f = assms(3)
  have fit: "(try_predicates (predicate_range ch n P) pod name ni h = Some (Inr None)) = fits P pod name ni h" for n name ni
    by (rule try_range_fit [OF rng assms(2)])
  show "filtered = feasible P pod m h nodes" using filter_nodes_Inr(1) [OF f] by (simp add: feasible_def fit)
  show "dom failed = n_Name ` {n \<in> set nodes. \<not> fits P pod (n_Name n) (m (n_Name n)) h}"
    using filter_nodes_Inr(2) [OF f] by (simp add: fit)
  show "failed name = Some rs \<Longrightarrow> rs \<noteq> {} \<and> (\<forall>r \<in> rs. refusal P pod name (m name) h r)"
    using filter_nodes_reasons [OF f, of "\<lambda>name. refusal P pod name (m name) h"] try_range_refusal [OF rng assms(2)] by blast
qed

lemma findNodesThatFit_clean:
  assumes "choices_ok ch" and "finite (dom P)" and "\<forall>n \<in> set nodes. clean P pod (n_Name n) (m (n_Name n)) h"
  shows "\<exists>failed. findNodesThatFit (predicate_range ch) pod m h P nodes exts =
      (case candidates P exts pod m h nodes of Inl err \<Rightarrow> Some (Inl err) | Inr F \<Rightarrow> Some (Inr (F, failed)))
    \<and> dom failed = n_Name ` {n \<in> set nodes. \<not> fits P pod (n_Name n) (m (n_Name n)) h}
    \<and> (\<forall>name rs. failed name = Some rs \<longrightarrow> rs \<noteq> {} \<and> (\<forall>r \<in> rs. refusal P pod name (m name) h r))"
proof -
  have rng: "go_range_ok (predicate_range ch n)" for n using assms(1) by (simp add: choices_ok_def)
  have "\<exists>filtered' failed'. filter_nodes (predicate_range ch) pod m h P nodes [] Map.empty = Some (Inr (filtered', failed'))"
    by (rule filter_nodes_clean) (use assms(3) try_range_clean [OF rng assms(2)] in blast)
  then obtain filtered failed where
    f: "filter_nodes (predicate_range ch) pod m h P nodes [] Map.empty = Some (Inr (filtered, failed))" by blast
  note r = filter_nodes_feasible [OF assms(1,2) f]
  show ?thesis using findNodesThatFit_candidates [OF f [unfolded r(1)], of exts] r(2,3) by blast
qed

lemma Schedule_Inr:
  assumes "Schedule g ch pod (Inr nodes) = Some (Inr host)" and "gs_pods g = Inr pods"
    and "CreateNodeNameToInfoMap pods [] = (m, h)" and "choices_ok ch" and "finite (dom (predicates g))"
  obtains F l where "candidates (predicates g) (extenders g) pod m h nodes = Inr F" "F \<noteq> []"
    "PrioritizeNodes ch pod m h (prioritizers g) (Inr F) (extenders g) = Inr l"
    "l \<noteq> []" "selectHost (random_Int ch) l = Inr host"
proof -
  obtain F failed where f: "findNodesThatFit (predicate_range ch) pod m h (predicates g) nodes (extenders g) = Some (Inr (F, failed))"
    "F \<noteq> []" and rest: "(case PrioritizeNodes ch pod m h (prioritizers g) (Inr F) (extenders g) of
        Inl err \<Rightarrow> Some (Inl err) | Inr l \<Rightarrow> Some (selectHost (random_Int ch) l)) = Some (Inr host)"
    using assms(1) by (auto simp: Schedule_def assms(2,3) split: if_splits option.splits sum.splits)
  obtain l where l: "PrioritizeNodes ch pod m h (prioritizers g) (Inr F) (extenders g) = Inr l"
    "selectHost (random_Int ch) l = Inr host"
    using rest by (auto split: sum.splits)
  obtain filtered failed' where
    fn: "filter_nodes (predicate_range ch) pod m h (predicates g) nodes [] Map.empty = Some (Inr (filtered, failed'))"
    using f(1) by (auto simp: findNodesThatFit_def split: option.splits sum.splits)
  have "candidates (predicates g) (extenders g) pod m h nodes = Inr F"
    using f(1) findNodesThatFit_candidates [OF fn [unfolded filter_nodes_feasible(1) [OF assms(4,5) fn]], of "extenders g"]
    by (cases "candidates (predicates g) (extenders g) pod m h nodes") simp_all
  moreover have "l \<noteq> []" using l(2) by (auto simp: selectHost_def)
  ultimately show ?thesis using that l f(2) by blast
qed

lemma scored_hosts_listed:
  assumes "\<forall>c \<in> set configs. priority_function (pc_Function c)" and "\<forall>ext \<in> set exts. extender_ok ext"
  shows "scored_hosts pod m h F configs exts \<subseteq> n_Name ` set F"
proof -
  have "scored pod m h (Inr F) c \<subseteq> n_Name ` set F" if "c \<in> set configs" for c
    using priority_function.only_listed [OF assms(1) [rule_format, OF that], of pod m h F]
    by (auto simp: scored_def split: sum.split)
  moreover have "extender_scored pod F ext \<subseteq> n_Name ` set F" if "ext \<in> set exts" for ext
    using assms(2) that by (auto simp: extender_scored_def extender_ok_def split: sum.split)
  ultimately show ?thesis unfolding scored_hosts_def by blast
qed

lemma Schedule_host:
  assumes "Schedule g ch pod (Inr nodes) = Some (Inr host)" and "gs_pods g = Inr pods"
    and "CreateNodeNameToInfoMap pods [] = (m, h)" and "choices_ok ch" and "finite (dom (predicates g))"
    and "\<forall>c \<in> set (prioritizers g). priority_function (pc_Function c)" and "\<forall>ext \<in> set (extenders g). extender_ok ext"
  shows "\<exists>F. candidates (predicates g) (extenders g) pod m h nodes = Inr F
    \<and> (\<exists>n \<in> set F. n_Name n = host \<and> n \<in> set nodes \<and> fits (predicates g) pod host (m host) h)
    \<and> (\<forall>name \<in> scored_hosts pod m h F (prioritizers g) (extenders g).
        total_score pod m h F (prioritizers g) (extenders g) name
          \<le> total_score pod m h F (prioritizers g) (extenders g) host)"
proof -
  obtain F l where l: "candidates (predicates g) (extenders g) pod m h nodes = Inr F" "F \<noteq> []"
    "PrioritizeNodes ch pod m h (prioritizers g) (Inr F) (extenders g) = Inr l"
    "l \<noteq> []" "selectHost (random_Int ch) l = Inr host"
    by (rule Schedule_Inr [OF assms(1-5)])
  define e where "e = best_entries l ! (random_Int ch mod length (best_entries l))"
  have host: "host = Host e" using l(5) selectHost_best [OF l(4), of "random_Int ch"] by (simp add: e_def)
  have "e \<in> set (best_entries l)" using best_entries_nonempty [OF l(4)] by (simp add: e_def)
  then have e: "e \<in> set l" "\<forall>e' \<in> set l. Score e' \<le> Score e" by (simp_all add: best_entries_def)
  have "Host ` set l \<subseteq> n_Name ` set F"
  proof (cases "prioritizers g = [] \<and> extenders g = []")
    case True
    then show ?thesis using l(3) PrioritizeNodes_equal [of ch pod m h F] by auto
  next
    case False
    then have ne: "prioritizers g \<noteq> [] \<or> extenders g \<noteq> []" by blast
    show ?thesis unfolding PrioritizeNodes_scores(2) [OF assms(4) ne l(3)] by (rule scored_hosts_listed [OF assms(6,7)])
  qed
  then have "host \<in> n_Name ` set F" using e(1) host by blast
  then have "\<exists>n \<in> set F. n_Name n = host \<and> n \<in> set nodes \<and> fits (predicates g) pod host (m host) h"
    using candidates_feasible [OF l(1) assms(7)] by (auto simp: feasible_def)
  moreover have "total_score pod m h F (prioritizers g) (extenders g) name \<le> total_score pod m h F (prioritizers g) (extenders g) host"
    if n: "name \<in> scored_hosts pod m h F (prioritizers g) (extenders g)" for name
  proof -
    have ne: "prioritizers g \<noteq> [] \<or> extenders g \<noteq> []" using n by (auto simp: scored_hosts_def)
    note S = PrioritizeNodes_scores [OF assms(4) ne l(3)]
    have "name \<in> Host ` set l" using n by (simp only: S(2))
    then obtain e' where e': "e' \<in> set l" "Host e' = name" by (elim imageE) simp
    show ?thesis using e(2) [rule_format, OF e'(1)] S(3) [OF e'(1)] S(3) [OF e(1)] e'(2) host by simp
  qed
  ultimately show ?thesis using l(1) by blast
qed

text \<open>
  C9: When the scheduler names a node for a pod, that node is one of the listed ones, every
  predicate lets the pod on it, with what the pods on it amount to, the extenders left it, and no
  other node that the priority functions of non-zero weight or the extenders score has a larger
  weighted sum of scores, in 64-bit arithmetic, whatever the orders of maps and goroutines and the
  random number were.  Each priority function scores only nodes that it is asked about, and each
  extender only narrows and scores the nodes that it is given, as its interface says.
\<close>

theorem schedule_picks_a_best_feasible_node:
  assumes "Schedule g ch pod (Inr nodes) = Some (Inr host)" and "gs_pods g = Inr pods"
    and "CreateNodeNameToInfoMap pods [] = (m, h)" and "choices_ok ch" and "finite (dom (predicates g))"
    and "\<forall>c \<in> set (prioritizers g). priority_function (pc_Function c)" and "\<forall>ext \<in> set (extenders g). extender_ok ext"
  shows "\<exists>F. candidates (predicates g) (extenders g) pod m h nodes = Inr F
    \<and> (\<exists>n \<in> set F. n_Name n = host \<and> n \<in> set nodes \<and> fits (predicates g) pod host (m host) h)
    \<and> (\<forall>name \<in> scored_hosts pod m h F (prioritizers g) (extenders g).
        total_score pod m h F (prioritizers g) (extenders g) name
          \<le> total_score pod m h F (prioritizers g) (extenders g) host)"
  by (rule Schedule_host [OF assms])

lemma PrioritizeNodes_covers:
  assumes "choices_ok ch" and "F \<noteq> []" and "\<forall>c \<in> set configs. covering_priority (pc_Function c)"
    and "configs = [] \<and> exts = [] \<or> (\<exists>c \<in> set configs. pc_Weight c \<noteq> 0)"
  shows "\<exists>l. PrioritizeNodes ch pod m h configs (Inr F) exts = Inr l \<and> l \<noteq> []"
proof (cases "configs = []")
  case True
  then show ?thesis using assms(2,4) by (auto simp: PrioritizeNodes_equal)
next
  case False
  then obtain c where c: "c \<in> set configs" "pc_Weight c \<noteq> 0" using assms(4) by blast
  let ?fin = "priority_order ch (filter (\<lambda>c. pc_Weight c \<noteq> 0) configs)"
  have "mset ?fin = mset (filter (\<lambda>c. pc_Weight c \<noteq> 0) configs)" using assms(1) by (simp add: choices_ok_def)
  from mset_eq_setD [OF this] have sub: "set ?fin \<subseteq> set configs" by auto
  have no_err: "fst (fold (run_priority pod m h (Inr F)) cs ([], s)) = []" if "set cs \<subseteq> set configs" for cs s
    using that
  proof (induction cs arbitrary: s)
    case (Cons c cs)
    obtain l where "pc_Function c pod m h (Inr F) = Inr l"
      using covering_priority.never_fails assms(3) Cons.prems by (metis list.set_intros(1) subset_iff)
    then show ?case using Cons by (simp add: run_priority_def)
  qed simp
  have "set (take (finished_at_check ch) ?fin) \<subseteq> set configs" using sub set_take_subset by fast
  then obtain l where l: "PrioritizeNodes ch pod m h configs (Inr F) exts = Inr l"
    using False by (cases exts) (simp_all add: PrioritizeNodes_def no_err Let_def)
  obtain lc where lc: "pc_Function c pod m h (Inr F) = Inr lc" "Host ` set lc = n_Name ` set F"
    using covering_priority.never_fails covering_priority.hosts assms(3) c(1) by (metis (no_types, lifting))
  have "n_Name ` set F \<subseteq> scored pod m h (Inr F) c" using lc by (simp add: scored_def)
  also have "\<dots> \<subseteq> Host ` set l"
    using c PrioritizeNodes_scores(2) [OF assms(1) disjI1 [OF False] l] by (auto simp: scored_hosts_def)
  finally show ?thesis using l assms(2) by (cases l) auto
qed

lemma Schedule_answers:
  assumes "gs_pods g = Inr pods" and "CreateNodeNameToInfoMap pods [] = (m, h)" and "nodes \<noteq> []"
    and "choices_ok ch" and "finite (dom (predicates g))"
    and "\<forall>n \<in> set nodes. clean (predicates g) pod (n_Name n) (m (n_Name n)) h"
    and "\<forall>c \<in> set (prioritizers g). covering_priority (pc_Function c)"
    and "prioritizers g = [] \<and> extenders g = [] \<or> (\<exists>c \<in> set (prioritizers g). pc_Weight c \<noteq> 0)"
  shows "case candidates (predicates g) (extenders g) pod m h nodes of
      Inl err \<Rightarrow> Schedule g ch pod (Inr nodes) = Some (Inl (SchedErr err))
    | Inr F \<Rightarrow>
        if F \<noteq> [] then \<exists>host. Schedule g ch pod (Inr nodes) = Some (Inr host)
        else \<exists>failed. Schedule g ch pod (Inr nodes) = Some (Inl (FitError pod failed))
          \<and> dom failed = n_Name ` {n \<in> set nodes. \<not> fits (predicates g) pod (n_Name n) (m (n_Name n)) h}
          \<and> (\<forall>name rs. failed name = Some rs \<longrightarrow> rs \<noteq> {} \<and> (\<forall>r \<in> rs. refusal (predicates g) pod name (m name) h r))"
proof -
  obtain failed where f: "findNodesThatFit (predicate_range ch) pod m h (predicates g) nodes (extenders g) =
      (case candidates (predicates g) (extenders g) pod m h nodes of Inl err \<Rightarrow> Some (Inl err) | Inr F \<Rightarrow> Some (Inr (F, failed)))"
    "dom failed = n_Name ` {n \<in> set nodes. \<not> fits (predicates g) pod (n_Name n) (m (n_Name n)) h}"
    "\<forall>name rs. failed name = Some rs \<longrightarrow> rs \<noteq> {} \<and> (\<forall>r \<in> rs. refusal (predicates g) pod name (m name) h r)"
    using findNodesThatFit_clean [OF assms(4,5,6), of "extenders g"] by blast
  show ?thesis
  proof (cases "candidates (predicates g) (extenders g) pod m h nodes")
    case (Inl err)
    then show ?thesis using assms(3) by (simp add: Schedule_def assms(1,2) f(1))
  next
    case (Inr F)
    show ?thesis
    proof (cases "F = []")
      case True
      then have "Schedule g ch pod (Inr nodes) = Some (Inl (FitError pod failed))"
        using assms(3) Inr by (simp add: Schedule_def assms(1,2) f(1))
      then show ?thesis using Inr True f(2,3) by auto
    next
      case False
      obtain l where "PrioritizeNodes ch pod m h (prioritizers g) (Inr F) (extenders g) = Inr l" "l \<noteq> []"
        using PrioritizeNodes_covers [OF assms(4) False assms(7,8)] by blast
      then show ?thesis using assms(3) Inr False by (simp add: Schedule_def assms(1,2) f(1) selectHost_best)
    qed
  qed
qed

lemma candidates_no_extenders: "candidates P [] pod m h nodes = Inr (feasible P pod m h nodes)"
  by (simp add: candidates_def Let_def)

lemma Schedule_succeeds:
  assumes "gs_pods g = Inr pods" and "CreateNodeNameToInfoMap pods [] = (m, h)" and "nodes \<noteq> []"
    and "choices_ok ch" and "finite (dom (predicates g))" and "extenders g = []"
    and "\<forall>n \<in> set nodes. clean (predicates g) pod (n_Name n) (m (n_Name n)) h"
    and "\<forall>c \<in> set (prioritizers g). covering_priority (pc_Function c)"
    and "prioritizers g = [] \<or> (\<exists>c \<in> set (prioritizers g). pc_Weight c \<noteq> 0)"
    and "\<exists>n \<in> set nodes. fits (predicates g) pod (n_Name n) (m (n_Name n)) h"
  shows "\<exists>host. Schedule g ch pod (Inr nodes) = Some (Inr host)"
proof -
  have F: "feasible (predicates g) pod m h nodes \<noteq> []" using assms(10) by (auto simp: feasible_def filter_empty_conv)
  have "prioritizers g = [] \<and> extenders g = [] \<or> (\<exists>c \<in> set (prioritizers g). pc_Weight c \<noteq> 0)" using assms(6,9) by blast
  from Schedule_answers [OF assms(1-5,7,8) this] show ?thesis
    unfolding assms(6) candidates_no_extenders using F by simp
qed


section \<open>Examples\<close>

definition some_choices :: sched_choices where
  "some_choices = \<lparr>predicate_range = (\<lambda>_. sorted_range), priority_order = id, finished_at_check = 0,
     extender_order = id, score_range = sorted_range, random_Int = 1\<rparr>"

definition bare_node :: "string \<Rightarrow> Node" where
  "bare_node name = \<lparr>n_Name = name, n_Labels = Map.empty, Allocatable = Map.empty, Images = []\<rparr>"

definition pinned_pod :: "string \<Rightarrow> SchedPod" where
  "pinned_pod node = \<lparr>sp_Name = ''p'', sp_Namespace = ''ns'', sp_Labels = Map.empty, sp_Annotations = Map.empty,
     sp_NodeName = node, sp_NodeSelector = Map.empty, Containers = [], Volumes = []\<rparr>"

definition host_scheduler :: genericScheduler where
  "host_scheduler = \<lparr>predicates = [''HostName'' \<mapsto> PodFitsHost],
     prioritizers = [\<lparr>pc_Function = EqualPriority, pc_Weight = 2\<rparr>], extenders = [], gs_pods = Inr []\<rparr>"

lemma some_choices_ok: "choices_ok some_choices"
  by (simp add: choices_ok_def some_choices_def sorted_range_ok)

lemma host_scheduler_fits: "fits (predicates host_scheduler) (pinned_pod node) name ni h \<longleftrightarrow> node = '''' \<or> node = name"
  by (auto simp: fits_def host_scheduler_def PodFitsHost_def pinned_pod_def)

lemma host_scheduler_clean: "clean (predicates host_scheduler) pod name ni h"
  by (auto simp: clean_def host_scheduler_def PodFitsHost_def)

lemma host_scheduler_simps [simp]: "gs_pods host_scheduler = Inr []" "extenders host_scheduler = []"
  "finite (dom (predicates host_scheduler))"
  "prioritizers host_scheduler = [\<lparr>pc_Function = EqualPriority, pc_Weight = 2\<rparr>]"
  by (simp_all add: host_scheduler_def)

lemma no_pods_info: "CreateNodeNameToInfoMap [] [] = (Map.empty, [])"
  by (simp add: CreateNodeNameToInfoMap_def)

text \<open>An extender that accepts the nodes with one name and scores them.\<close>

definition name_extender :: "string \<Rightarrow> SchedulerExtender" where
  "name_extender name = \<lparr>ext_Filter = (\<lambda>pod nodes. Inr (filter (\<lambda>n. n_Name n = name) nodes)),
     ext_Prioritize = (\<lambda>pod nodes. Inr (map (\<lambda>n. \<lparr>Host = n_Name n, Score = 5\<rparr>) nodes, 3))\<rparr>"

lemma name_extender_ok: "extender_ok (name_extender name)"
  by (auto simp: extender_ok_def name_extender_def)

abbreviation extended_scheduler :: "string \<Rightarrow> genericScheduler" where
  "extended_scheduler name \<equiv> host_scheduler\<lparr>extenders := [name_extender name]\<rparr>"

theorem schedule_picks_a_best_feasible_node_witness:
  "Schedule (extended_scheduler ''b'') some_choices (pinned_pod '''') (Inr [bare_node ''a'', bare_node ''b'']) = Some (Inr ''b'')"
proof -
  let ?g = "extended_scheduler ''b''" and ?nodes = "[bare_node ''a'', bare_node ''b'']"
  have F: "candidates (predicates ?g) (extenders ?g) (pinned_pod '''') Map.empty [] ?nodes = Inr [bare_node ''b'']"
    by (simp add: candidates_def feasible_def host_scheduler_fits name_extender_def bare_node_def)
  have "\<exists>host. Schedule ?g some_choices (pinned_pod '''') (Inr ?nodes) = Some (Inr host)"
    using Schedule_answers [of ?g "[]" Map.empty "[]" ?nodes some_choices "pinned_pod ''''"] F
    by (simp add: no_pods_info some_choices_ok host_scheduler_clean equal_priority.covering_priority_axioms)
  then obtain host where s: "Schedule ?g some_choices (pinned_pod '''') (Inr ?nodes) = Some (Inr host)" by blast
  have "gs_pods ?g = Inr []" "finite (dom (predicates ?g))" "\<forall>c \<in> set (prioritizers ?g). priority_function (pc_Function c)"
    "\<forall>ext \<in> set (extenders ?g). extender_ok ext"
    by (simp_all add: equal_priority.priority_function_axioms name_extender_ok)
  from schedule_picks_a_best_feasible_node [OF s this(1) no_pods_info some_choices_ok this(2-4)]
  have "host = ''b''" unfolding F by (auto simp: bare_node_def)
  then show ?thesis using s by simp
qed


section \<open>Errors of priority functions\<close>

lemma failing_priorities:
  assumes "\<forall>c \<in> set cs. \<exists>err. pc_Function c pod m h lister = Inl err"
  shows "snd (fold (run_priority pod m h lister) cs (errs, s)) = s"
    and "length (fst (fold (run_priority pod m h lister) cs (errs, s))) = length errs + length cs"
  using assms by (induction cs arbitrary: errs) (auto simp: run_priority_def)

text \<open>
  The errors of priority functions are looked at before the goroutines that run them are
  waited for.  When all functions fail, the scheduler reports their errors only if a goroutine
  happened to finish first; otherwise it goes on with an empty list of scores, and the error it
  gives is that the list is empty.
\<close>

theorem errors_of_priority_functions_can_be_lost:
  assumes "choices_ok ch" and "configs \<noteq> []"
    and "\<forall>c \<in> set configs. pc_Weight c \<noteq> 0 \<and> (\<exists>err. pc_Function c pod m h lister = Inl err)"
  shows "PrioritizeNodes (ch\<lparr>finished_at_check := 0\<rparr>) pod m h configs lister [] = Inr []
    \<and> selectHost rand [] = Inl (SchedErr ''empty priorityList'')
    \<and> (\<exists>errs. length errs = length configs
        \<and> PrioritizeNodes (ch\<lparr>finished_at_check := length configs\<rparr>) pod m h configs lister [] = Inl (Aggregate errs))"
proof -
  have all: "filter (\<lambda>c. pc_Weight c \<noteq> 0) configs = configs" using assms(3) by (simp add: filter_id_conv)
  have perm: "mset (priority_order ch configs) = mset configs" using assms(1) by (simp add: choices_ok_def)
  have fail: "\<forall>c \<in> set (priority_order ch configs). \<exists>err. pc_Function c pod m h lister = Inl err"
    using assms(3) mset_eq_setD [OF perm] by blast
  note f = failing_priorities [OF fail]
  have len: "length (priority_order ch configs) = length configs" using mset_eq_length [OF perm] .
  have "score_range ch Map.empty = []"
    using go_rangeD [of "score_range ch" Map.empty] assms(1) by (simp add: choices_ok_def)
  then have "PrioritizeNodes (ch\<lparr>finished_at_check := 0\<rparr>) pod m h configs lister [] = Inr []"
    using assms(2) by (simp add: PrioritizeNodes_def all f Let_def)
  moreover have "PrioritizeNodes (ch\<lparr>finished_at_check := length configs\<rparr>) pod m h configs lister []
      = Inl (Aggregate (fst (fold (run_priority pod m h lister) (priority_order ch configs) ([], Map.empty))))"
    using assms(2) f(2) [of "[]" Map.empty] len by (auto simp: PrioritizeNodes_def all Let_def)
  ultimately show ?thesis using f(2) [of "[]" Map.empty] len by (auto simp: selectHost_def)
qed

theorem errors_of_priority_functions_can_be_lost_witness:
  "PrioritizeNodes some_choices (pinned_pod '''') Map.empty [] [\<lparr>pc_Function = (\<lambda>_ _ _ _. Inl ''failed''), pc_Weight = 1\<rparr>]
     (Inr [bare_node ''a'']) [] = Inr []"
proof -
  have "some_choices\<lparr>finished_at_check := 0\<rparr> = some_choices" by (simp add: some_choices_def)
  then show ?thesis
    using errors_of_priority_functions_can_be_lost [OF some_choices_ok,
        of "[\<lparr>pc_Function = (\<lambda>_ _ _ _. Inl ''failed''), pc_Weight = 1\<rparr>]" "pinned_pod ''''" Map.empty "[]" "Inr [bare_node ''a'']"]
    by simp
qed

end
