(* ===== verification/Cluster.thy ===== *)
theory Cluster
  imports Generic_Scheduler_Props
begin

text \<open>
  A cluster filled by the scheduler: pods arrive, are scheduled with at least the default
  predicates on disks, ports and resources, and go away.
\<close>

section \<open>The pods on a node\<close>

abbreviation pods_on :: "string \<Rightarrow> SchedPod list \<Rightarrow> SchedPod list" where
  "pods_on name pods \<equiv> filter (\<lambda>p. sp_NodeName p = name) pods"

lemma ni_addPod_pods: "ni_pods (fst (ni_addPod pod (n, h))) = ni_pods n @ [pod]"
  by (simp add: ni_addPod_def split: prod.split)

lemma CreateNodeNameToInfoMap_pods_loop:
  assumes "fold (\<lambda>pod (m, h).
         let nodeName = sp_NodeName pod;
             (nodeInfo, h) = (case m nodeName of Some n \<Rightarrow> (n, h) | None \<Rightarrow> NewNodeInfo [] h);
             (nodeInfo, h) = ni_addPod pod (nodeInfo, h)
         in (m(nodeName \<mapsto> nodeInfo), h)) pods (m, h) = (m', h')"
  shows "ni_Pods (m' name) = ni_Pods (m name) @ pods_on name pods"
  using assms
proof (induction pods arbitrary: m h)
  case (Cons pod pods)
  let ?name = "sp_NodeName pod"
  obtain n1 h1 where 1: "(case m ?name of Some n \<Rightarrow> (n, h) | None \<Rightarrow> NewNodeInfo [] h) = (n1, h1)" by (metis surj_pair)
  obtain n2 h2 where 2: "ni_addPod pod (n1, h1) = (n2, h2)" by (metis surj_pair)
  have "ni_pods n1 = ni_Pods (m ?name)" using 1 by (auto simp: ni_Pods_def NewNodeInfo_def split: option.splits)
  moreover have "ni_pods n2 = ni_pods n1 @ [pod]" using ni_addPod_pods [of pod n1 h1] 2 by simp
  ultimately have "ni_Pods ((m(?name \<mapsto> n2)) name) = ni_Pods (m name) @ pods_on name [pod]"
    by (auto simp: ni_Pods_def)
  then show ?case using Cons.IH [of "m(?name \<mapsto> n2)" h2] Cons.prems by (simp add: 1 2)
qed simp

lemma CreateNodeNameToInfoMap_pods:
  assumes "CreateNodeNameToInfoMap pods h = (m, h')"
  shows "ni_Pods (m name) = pods_on name pods"
  using CreateNodeNameToInfoMap_pods_loop [OF assms [unfolded CreateNodeNameToInfoMap_def], of name] by (simp add: ni_Pods_def)

lemma CreateNodeNameToInfoMap_info:
  assumes "CreateNodeNameToInfoMap pods h = (m, h')"
  shows "info_for (m name) h' (pods_on name pods)"
  using node_observations(1,2) [OF CreateNodeNameToInfoMap_rel [OF assms], of name]
  by (simp add: info_for_def CreateNodeNameToInfoMap_pods [OF assms] flip: node_observations(1) [OF CreateNodeNameToInfoMap_rel [OF assms]])

section \<open>Binding\<close>

lemma bind_simps [simp]: "pods_conflict p (q\<lparr>sp_NodeName := n\<rparr>) = pods_conflict p q"
  "host_ports (q\<lparr>sp_NodeName := n\<rparr>) = host_ports q" "request_ok (q\<lparr>sp_NodeName := n\<rparr>) = request_ok q"
  "pod_cpu (q\<lparr>sp_NodeName := n\<rparr>) = pod_cpu q" "pod_memory (q\<lparr>sp_NodeName := n\<rparr>) = pod_memory q"
  by (simp_all add: pods_conflict_def host_ports_def request_ok_def pod_cpu_def pod_memory_def)

lemma node_ok_bind: "node_ok a (pods @ [q\<lparr>sp_NodeName := n\<rparr>]) = node_ok a (pods @ [q])"
  by (simp add: node_ok_def sorted_wrt_append)

lemma StaticNodeInfo_finds:
  "distinct (map n_Name nodes) \<Longrightarrow> n \<in> set nodes \<Longrightarrow> StaticNodeInfo_GetNodeInfo nodes (n_Name n) = Inr (Some n)"
  by (induction nodes) (auto simp: rev_image_eqI)

section \<open>Runs\<close>

definition default_predicates :: "Node list \<Rightarrow> (string \<rightharpoonup> FitPredicate) \<Rightarrow> bool" where
  "default_predicates nodes P \<longleftrightarrow> finite (dom P) \<and> P ''NoDiskConflict'' = Some NoDiskConflict
     \<and> P ''PodFitsHostPorts'' = Some PodFitsHostPorts
     \<and> P ''PodFitsResources'' = Some (PodFitsResources (StaticNodeInfo_GetNodeInfo nodes))"

text \<open>
  The scheduler has at least those predicates and whatever others; its lister knows the pods of
  the cluster; its priority functions score only nodes they are asked about, and its extenders keep
  to their interface.  Every scheduled pod has requests that are not negative and below \<open>2 ^ 62\<close> in
  sum (\<open>request_ok\<close>): beyond that bound the predicate on resources is fooled by the wrap-around.
\<close>

definition scheduler_ok :: "genericScheduler \<Rightarrow> Node list \<Rightarrow> SchedPod list \<Rightarrow> bool" where
  "scheduler_ok g nodes pods \<longleftrightarrow> default_predicates nodes (predicates g) \<and> gs_pods g = Inr pods
     \<and> (\<forall>c \<in> set (prioritizers g). priority_function (pc_Function c)) \<and> (\<forall>ext \<in> set (extenders g). extender_ok ext)"

inductive cluster_step :: "Node list \<Rightarrow> SchedPod list \<Rightarrow> SchedPod list \<Rightarrow> bool" for nodes where
  scheduled: "scheduleOne g ch pod (Inr nodes) Bind = Some (AssumePod assumed) \<Longrightarrow> scheduler_ok g nodes pods
    \<Longrightarrow> choices_ok ch \<Longrightarrow> request_ok pod \<Longrightarrow> cluster_step nodes pods (pods @ [assumed])"
| removed: "cluster_step nodes (xs @ p # ys) (xs @ ys)"

definition cluster_ok :: "Node list \<Rightarrow> SchedPod list \<Rightarrow> bool" where
  "cluster_ok nodes pods \<longleftrightarrow> (\<forall>n \<in> set nodes. node_ok (Allocatable n) (pods_on (n_Name n) pods))
     \<and> (\<forall>p \<in> set pods. sp_NodeName p \<in> n_Name ` set nodes)"

lemma scheduled_cluster_ok:
  assumes "distinct (map n_Name nodes)" and "\<forall>n \<in> set nodes. capacity_ok (Allocatable n)" and "cluster_ok nodes pods"
    and "scheduleOne g ch pod (Inr nodes) Bind = Some (AssumePod assumed)" and "scheduler_ok g nodes pods"
    and "choices_ok ch" and "request_ok pod"
  shows "cluster_ok nodes (pods @ [assumed])"
proof -
  obtain host where s: "Schedule g ch pod (Inr nodes) = Some (Inr host)" "assumed = pod\<lparr>sp_NodeName := host\<rparr>"
    using assms(4) by (auto simp: scheduleOne_def split: option.splits sum.splits)
  have g: "gs_pods g = Inr pods" "finite (dom (predicates g))"
    "\<forall>c \<in> set (prioritizers g). priority_function (pc_Function c)" "\<forall>ext \<in> set (extenders g). extender_ok ext"
    using assms(5) by (simp_all add: scheduler_ok_def default_predicates_def)
  obtain m h where m: "CreateNodeNameToInfoMap pods [] = (m, h)" by (metis surj_pair)
  obtain n where n: "n \<in> set nodes" "n_Name n = host" "fits (predicates g) pod host (m host) h"
    using Schedule_host [OF s(1) g(1) m assms(6) g(2-4)] by blast
  have "NoDiskConflict pod host (m host) h = Some (True, None)" "PodFitsHostPorts pod host (m host) h = Some (True, None)"
    "PodFitsResources (StaticNodeInfo_GetNodeInfo nodes) pod host (m host) h = Some (True, None)"
    using n(3) assms(5) unfolding fits_def scheduler_ok_def default_predicates_def by blast+
  moreover have "StaticNodeInfo_GetNodeInfo nodes host = Inr (Some n)" using StaticNodeInfo_finds [OF assms(1) n(1)] n(2) by simp
  ultimately have "node_ok (Allocatable n) (pods_on host pods @ [pod])"
    using fits_node_ok [where GetNodeInfo = "StaticNodeInfo_GetNodeInfo nodes" and name = host,
        OF _ CreateNodeNameToInfoMap_info [OF m, of host]] assms(2,3,7) n by (auto simp: cluster_ok_def)
  then have "node_ok (Allocatable n) (pods_on host (pods @ [assumed]))" by (simp add: s(2) node_ok_bind)
  moreover have "n' = n" if "n' \<in> set nodes" "n_Name n' = host" for n'
    using assms(1) n that by (metis distinct_map inj_onD)
  ultimately have "node_ok (Allocatable n') (pods_on (n_Name n') (pods @ [assumed]))" if "n' \<in> set nodes" for n'
    using assms(3) that s(2) by (cases "n_Name n' = host") (auto simp: cluster_ok_def)
  then show ?thesis using assms(3) n s(2) by (auto simp: cluster_ok_def)
qed

lemma removed_cluster_ok: "cluster_ok nodes (xs @ p # ys) \<Longrightarrow> cluster_ok nodes (xs @ ys)"
  unfolding cluster_ok_def using node_ok_perm by (auto split: if_splits)

text \<open>
  C3: A cluster that starts empty and gets its pods from the scheduler, while pods come and go, is
  never overcommitted, as long as the requests of each pod are not negative and below \<open>2 ^ 62\<close>, as is
  each node's capacity, and the scheduler's lister of pods is up to date when it schedules.
  On every node the number of pods, and the sums of their requests for CPU and memory as
  mathematical integers, are within what the node can allocate, and no two pods of a node use a
  host port or a disk that they cannot share.  Each pod may be scheduled by a scheduler of its own,
  with the three predicates and any others, any priority functions that score only nodes they are
  asked about, and any extenders that only narrow and score the nodes they are given.  (Without the
  bound on requests it fails: \<open>huge_request_fits_when_the_sum_overflows\<close>.)
\<close>

theorem scheduled_cluster_is_never_overcommitted:
  assumes "(cluster_step nodes)\<^sup>*\<^sup>* [] pods" and "distinct (map n_Name nodes)"
    and "\<forall>n \<in> set nodes. capacity_ok (Allocatable n)" and "n \<in> set nodes"
  shows "node_ok (Allocatable n) (pods_on (n_Name n) pods)"
proof -
  have "cluster_ok nodes pods"
    using assms(1)
  proof (induction rule: rtranclp_induct)
    case base
    then show ?case using assms(3) by (simp add: cluster_ok_def node_ok_empty)
  next
    case (step y z)
    from step.hyps(2) step.IH show ?case
    proof (cases rule: cluster_step.cases)
      case (scheduled g ch pod Bind assumed)
      then show ?thesis using scheduled_cluster_ok [OF assms(2,3) step.IH] by simp
    next
      case (removed xs p ys)
      then show ?thesis using removed_cluster_ok step.IH by simp
    qed
  qed
  then show ?thesis using assms(4) by (simp add: cluster_ok_def)
qed

definition small_pod :: SchedPod where "small_pod = one_container ''web'' 1024"

definition default_scheduler :: genericScheduler where
  "default_scheduler = \<lparr>predicates = [''NoDiskConflict'' \<mapsto> NoDiskConflict, ''PodFitsHostPorts'' \<mapsto> PodFitsHostPorts,
       ''PodFitsResources'' \<mapsto> PodFitsResources (StaticNodeInfo_GetNodeInfo [small_node])],
     prioritizers = [], extenders = [], gs_pods = Inr []\<rparr>"

lemma default_scheduler_simps [simp]: "gs_pods default_scheduler = Inr []" "extenders default_scheduler = []"
  "prioritizers default_scheduler = []"
  by (simp_all add: default_scheduler_def)

lemma small_pod_fits:
  "fits (predicates default_scheduler) small_pod ''n'' None []"
  "clean (predicates default_scheduler) small_pod ''n'' None []"
proof -
  have "PodFitsResources (StaticNodeInfo_GetNodeInfo [small_node]) small_pod ''n'' None [] = Some (True, None)" by code_simp
  then show "fits (predicates default_scheduler) small_pod ''n'' None []" "clean (predicates default_scheduler) small_pod ''n'' None []"
    by (auto simp: fits_def clean_def default_scheduler_def NoDiskConflict_iff PodFitsHostPorts_iff ni_Pods_def)
qed

lemma small_node_capacity: "capacity_ok (Allocatable small_node)"
proof -
  have "MilliValue (rl_Cpu (Allocatable small_node)) = 1000" "Quantity_Value (rl_Memory (Allocatable small_node)) = 2 ^ 30"
    "Quantity_Value (rl_Pods (Allocatable small_node)) = 10" by code_simp+
  then show ?thesis by (simp add: capacity_ok_def)
qed

lemma small_pod_request: "request_ok small_pod"
proof -
  have "pod_cpu small_pod = 0" "pod_memory small_pod = 1024" by code_simp+
  moreover have "list_all (\<lambda>c. 0 \<le> container_cpu c \<and> 0 \<le> container_memory c) (Containers small_pod)" by code_simp
  ultimately show ?thesis by (simp add: request_ok_def list_all_iff)
qed

theorem scheduled_cluster_is_never_overcommitted_witness:
  "\<exists>p. (cluster_step [small_node])\<^sup>*\<^sup>* [] [p] \<and> sp_Name p = ''web'' \<and> node_ok (Allocatable small_node) (pods_on ''n'' [p])"
proof -
  have name: "n_Name small_node = ''n''" by (simp add: small_node_def)
  have pred: "default_predicates [small_node] (predicates default_scheduler)"
    by (simp add: default_predicates_def default_scheduler_def)
  then have ok: "scheduler_ok default_scheduler [small_node] []" by (simp add: scheduler_ok_def)
  obtain host where s: "Schedule default_scheduler some_choices small_pod (Inr [small_node]) = Some (Inr host)"
    using Schedule_succeeds [of default_scheduler "[]" Map.empty "[]" "[small_node]" some_choices small_pod]
      small_pod_fits pred by (auto simp: no_pods_info some_choices_ok name default_predicates_def)
  let ?p = "small_pod\<lparr>sp_NodeName := host\<rparr>"
  have "scheduleOne default_scheduler some_choices small_pod (Inr [small_node]) (\<lambda>_ _ _. None) = Some (AssumePod ?p)"
    by (simp add: scheduleOne_def s)
  from cluster_step.scheduled [OF this ok some_choices_ok small_pod_request]
  have run: "(cluster_step [small_node])\<^sup>*\<^sup>* [] [?p]" by simp
  have "node_ok (Allocatable small_node) (pods_on (n_Name small_node) [?p])"
    by (rule scheduled_cluster_is_never_overcommitted [OF run]) (simp_all add: small_node_capacity)
  moreover have "sp_Name ?p = ''web''" by (simp add: small_pod_def one_container_def)
  ultimately show ?thesis using run unfolding name by blast
qed

end
