(* ===== verification/Deployment_Util.thy ===== *)
theory Deployment_Util
  imports Replica_Set Go_Float
begin

text \<open>
  What the deployment controller computes with: \<^verbatim>\<open>pkg/util/intstr/intstr.go\<close>, the labels of
  \<^verbatim>\<open>pkg/util/labels/labels.go\<close> and \<^verbatim>\<open>pkg/util/deployment/deployment.go\<close>.

  Replica sets are shared behind pointers and changed in place, so they live in a memory, a list, and a
  pointer is an index; a nil pointer is \<^verbatim>\<open>None\<close>.  An \<^verbatim>\<open>int\<close> has 64 bits.  The clock stands still during a
  sync.  Defaults and validation fill the pointers to the selector and to the
  parameters of a rolling update and keep the history limit from being negative; the model has them as values.
\<close>

section \<open>Numbers or percentages\<close>

text \<open>\<open>OtherType\<close> is a type tag that is neither \<^verbatim>\<open>Int\<close> nor \<^verbatim>\<open>String\<close>.\<close>

datatype IntOrString = IntVal int | StrVal string | OtherType

text \<open>\<open>NilDereference\<close> is a panic, not an error value.\<close>

datatype retry_error = ApiError go_error | PreconditionViolated | TimedOut | NilDereference

datatype dep_error =
    InvalidPercent string num_error
  | NeitherIntNorPercentage
  | InvalidLabelSelector label_error
  | UnsupportedStrategy string
  | ClientError go_error
  | UpdateFailed retry_error

definition getIntOrPercentValue :: "IntOrString \<Rightarrow> dep_error + int \<times> bool" where
  "getIntOrPercentValue intOrStr =
     (case intOrStr of
        IntVal i \<Rightarrow> Inr (i, False)
      | StrVal str \<Rightarrow>
          (let s = filter (\<lambda>c. c \<noteq> CHR ''%'') str
           in case Atoi s of
                Inl err \<Rightarrow> Inl (InvalidPercent str err)
              | Inr v \<Rightarrow> Inr (v, True))
      | OtherType \<Rightarrow> Inl NeitherIntNorPercentage)"

definition GetValueFromIntOrPercent :: "IntOrString \<Rightarrow> int \<Rightarrow> bool \<Rightarrow> dep_error + int" where
  "GetValueFromIntOrPercent intOrPercent tot roundUp =
     (case getIntOrPercentValue intOrPercent of
        Inl err \<Rightarrow> Inl err
      | Inr (v, isPercent) \<Rightarrow>
          if isPercent
          then (if roundUp
                then Inr (float_to_int (math_Ceil (float64 (float64 (float64 (of_int v) * float64 (of_int tot)) / 100))))
                else Inr (float_to_int (math_Floor (float64 (float64 (float64 (of_int v) * float64 (of_int tot)) / 100)))))
          else Inr v)"

definition ResolveFenceposts :: "IntOrString \<Rightarrow> IntOrString \<Rightarrow> int \<Rightarrow> dep_error + int \<times> int" where
  "ResolveFenceposts maxSurge maxUnavailable desired =
     (case GetValueFromIntOrPercent maxSurge desired True of
        Inl err \<Rightarrow> Inl err
      | Inr surge \<Rightarrow>
          (case GetValueFromIntOrPercent maxUnavailable desired False of
             Inl err \<Rightarrow> Inl err
           | Inr unavailable \<Rightarrow>
               if surge = 0 \<and> unavailable = 0 then Inr (surge, 1) else Inr (surge, unavailable)))"

section \<open>Labels\<close>

definition CloneAndAddLabel :: "label_Set \<Rightarrow> string \<Rightarrow> nat \<Rightarrow> label_Set" where
  "CloneAndAddLabel ls labelKey labelValue =
     (if labelKey = '''' then ls else ls(labelKey \<mapsto> fmt_d (int labelValue)))"

definition CloneAndRemoveLabel :: "label_Set \<Rightarrow> string \<Rightarrow> label_Set" where
  "CloneAndRemoveLabel ls labelKey = (if labelKey = '''' then ls else ls(labelKey := None))"

definition CloneSelectorAndAddLabel :: "LabelSelector \<Rightarrow> string \<Rightarrow> nat \<Rightarrow> LabelSelector" where
  "CloneSelectorAndAddLabel selector labelKey labelValue =
     (if labelKey = '''' then selector
      else \<lparr>MatchLabels = (MatchLabels selector)(labelKey \<mapsto> fmt_d (int labelValue)),
            MatchExpressions = MatchExpressions selector\<rparr>)"

section \<open>Deployments and their replica sets\<close>

record RollingUpdateDeployment =
  MaxUnavailable :: IntOrString
  MaxSurge :: IntOrString

record 'sp Deployment =
  d_Name :: string
  d_Namespace :: string
  d_Annotations :: label_Set
  d_Generation :: int
  d_Replicas :: int
  d_Selector :: LabelSelector
  d_Template :: "'sp PodTemplateSpec"
  d_StrategyType :: string
  d_RollingUpdate :: RollingUpdateDeployment
  d_MinReadySeconds :: int
  d_RevisionHistoryLimit :: "nat option"
  d_Paused :: bool
  d_RollbackTo :: "int option"
  dstatus_ObservedGeneration :: int
  dstatus_Replicas :: int
  dstatus_UpdatedReplicas :: int
  dstatus_AvailableReplicas :: int
  dstatus_UnavailableReplicas :: int

record 'sp DeployedRS = "'sp ReplicaSet" +
  rs_Labels :: label_Set
  rs_Annotations :: label_Set

definition RecreateDeploymentStrategyType :: string where
  "RecreateDeploymentStrategyType = ''Recreate''"
definition RollingUpdateDeploymentStrategyType :: string where
  "RollingUpdateDeploymentStrategyType = ''RollingUpdate''"
definition DefaultDeploymentUniqueLabelKey :: string where
  "DefaultDeploymentUniqueLabelKey = ''pod-template-hash''"
definition RevisionAnnotation :: string where
  "RevisionAnnotation = ''deployment.kubernetes.io/revision''"

type_synonym rs_ref = nat
type_synonym 'sp rs_memory = "'sp DeployedRS list"

text \<open>The hash is \<^verbatim>\<open>podutil.GetPodTemplateSpecHash\<close>.\<close>

definition GetNewReplicaSetTemplate :: "('sp PodTemplateSpec \<Rightarrow> nat) \<Rightarrow> 'sp Deployment \<Rightarrow> 'sp PodTemplateSpec" where
  "GetNewReplicaSetTemplate hash deployment =
     (let newRSTemplate = d_Template deployment
      in newRSTemplate\<lparr>tmpl_Labels :=
           CloneAndAddLabel (tmpl_Labels newRSTemplate) DefaultDeploymentUniqueLabelKey (hash newRSTemplate)\<rparr>)"

definition SetFromReplicaSetTemplate :: "'sp Deployment \<Rightarrow> 'sp PodTemplateSpec \<Rightarrow> 'sp Deployment" where
  "SetFromReplicaSetTemplate deployment template =
     deployment\<lparr>d_Template := template
       \<lparr>tmpl_Labels := CloneAndRemoveLabel (tmpl_Labels template) DefaultDeploymentUniqueLabelKey\<rparr>\<rparr>"

definition GetReplicaCountForReplicaSets :: "'sp rs_memory \<Rightarrow> rs_ref option list \<Rightarrow> int" where
  "GetReplicaCountForReplicaSets h replicaSets =
     fold (\<lambda>rs n. case rs of None \<Rightarrow> n | Some p \<Rightarrow> go_int (n + rs_Replicas (h ! p))) replicaSets 0"

definition GetActualReplicaCountForReplicaSets :: "'sp rs_memory \<Rightarrow> rs_ref option list \<Rightarrow> int" where
  "GetActualReplicaCountForReplicaSets h replicaSets =
     fold (\<lambda>rs n. case rs of None \<Rightarrow> n | Some p \<Rightarrow> go_int (n + status_Replicas (h ! p))) replicaSets 0"

definition IntMin :: "int \<Rightarrow> int \<Rightarrow> int" where "IntMin a b = (if b < a then b else a)"

definition NewRSNewReplicas :: "'sp Deployment \<Rightarrow> 'sp rs_memory \<Rightarrow> rs_ref option list \<Rightarrow> 'sp DeployedRS \<Rightarrow> dep_error + int" where
  "NewRSNewReplicas deployment h allRSs newRS =
     (if d_StrategyType deployment = RollingUpdateDeploymentStrategyType then
        (case GetValueFromIntOrPercent (MaxSurge (d_RollingUpdate deployment)) (d_Replicas deployment) True of
           Inl err \<Rightarrow> Inl err
         | Inr maxSurge \<Rightarrow>
             let currentPodCount = GetReplicaCountForReplicaSets h allRSs;
                 maxTotalPods = go_int (d_Replicas deployment + maxSurge)
             in if currentPodCount \<ge> maxTotalPods then Inr (rs_Replicas newRS)
                else let scaleUpCount = go_int (maxTotalPods - currentPodCount);
                         scaleUpCount = IntMin scaleUpCount (go_int (d_Replicas deployment - rs_Replicas newRS))
                     in Inr (go_int (rs_Replicas newRS + scaleUpCount)))
      else if d_StrategyType deployment = RecreateDeploymentStrategyType then Inr (d_Replicas deployment)
      else Inl (UnsupportedStrategy (d_StrategyType deployment)))"

text \<open>\<^verbatim>\<open>strconv.ParseInt(v, 10, 64)\<close> accepts what \<^verbatim>\<open>Atoi\<close> accepts, since an \<^verbatim>\<open>int\<close> has 64 bits.\<close>

definition Revision :: "'sp DeployedRS \<Rightarrow> num_error + int" where
  "Revision rs = (case rs_Annotations rs RevisionAnnotation of None \<Rightarrow> Inr 0 | Some v \<Rightarrow> Atoi v)"

definition maxRevision :: "'sp rs_memory \<Rightarrow> rs_ref list \<Rightarrow> int" where
  "maxRevision h allRSs =
     fold (\<lambda>p mx. case Revision (h ! p) of Inl err \<Rightarrow> mx | Inr v \<Rightarrow> if v > mx then v else mx) allRSs 0"

definition lastRevision :: "'sp rs_memory \<Rightarrow> rs_ref list \<Rightarrow> int" where
  "lastRevision h allRSs =
     snd (fold (\<lambda>p (mx, secMax).
         case Revision (h ! p) of
           Inl err \<Rightarrow> (mx, secMax)
         | Inr v \<Rightarrow> if v \<ge> mx then (v, mx) else if v > secMax then (mx, v) else (mx, secMax)) allRSs (0, 0))"

section \<open>Available pods\<close>

definition IsPodAvailable :: "go_time \<Rightarrow> int \<Rightarrow> Pod \<Rightarrow> bool" where
  "IsPodAvailable now minReadySeconds pod =
     (if \<not> IsPodActive pod then False
      else list_ex (\<lambda>c. cond_Type c = PodReady \<and> cond_Status c = ConditionTrue
             \<and> (let minReadySecondsDuration = go_int (minReadySeconds * 1000000000)
                in minReadySeconds \<le> 0
                   \<or> LastTransitionTime c \<noteq> 0 \<and> LastTransitionTime c + minReadySecondsDuration < now)) (Conditions pod))"

definition getReadyPodsCount :: "go_time \<Rightarrow> Pod list \<Rightarrow> int \<Rightarrow> int" where
  "getReadyPodsCount now pods minReadySeconds =
     fold (\<lambda>pod readyPodCount. if IsPodAvailable now minReadySeconds pod then readyPodCount + 1 else readyPodCount) pods 0"

text \<open>
  The clients of the API server, and the listers \<open>RSs_Listed\<close> and \<open>Pods_Listed\<close> of the two stores.  The state is
  the server's; other clients may change it between two calls.  A failed \<open>Get\<close> gives an object, too.
\<close>

record ('k, 'sp) dep_client =
  RS_Get :: "string \<Rightarrow> string \<Rightarrow> 'k \<Rightarrow> ('sp DeployedRS \<times> go_error option) \<times> 'k"
  RS_Update :: "'sp DeployedRS \<Rightarrow> 'k \<Rightarrow> (go_error + 'sp DeployedRS) \<times> 'k"
  RS_Create :: "'sp DeployedRS \<Rightarrow> 'k \<Rightarrow> (go_error + 'sp DeployedRS) \<times> 'k"
  RS_Delete :: "string \<Rightarrow> string \<Rightarrow> 'k \<Rightarrow> go_error option \<times> 'k"
  Pod_Get :: "string \<Rightarrow> string \<Rightarrow> 'k \<Rightarrow> (Pod \<times> go_error option) \<times> 'k"
  Pod_Update :: "Pod \<Rightarrow> 'k \<Rightarrow> (go_error + Pod) \<times> 'k"
  Pods_List :: "string \<Rightarrow> Selector \<Rightarrow> 'k \<Rightarrow> go_error + Pod list"
  RSs_Listed :: "string \<Rightarrow> Selector \<Rightarrow> 'k \<Rightarrow> go_error + 'sp DeployedRS list"
  Pods_Listed :: "string \<Rightarrow> Selector \<Rightarrow> 'k \<Rightarrow> go_error + Pod list"
  D_Update :: "'sp Deployment \<Rightarrow> 'k \<Rightarrow> (go_error + 'sp Deployment) \<times> 'k"
  D_UpdateStatus :: "'sp Deployment \<Rightarrow> 'k \<Rightarrow> go_error option \<times> 'k"

text \<open>
  What is taken from the language and its libraries, beyond what the replica set controller takes; \<open>polls\<close> is how many
  ticks a poll gets before its timeout.
\<close>

record ('f, 'k, 'sp) dep_env =
  rsenv :: "('f, 'sp) rs_env"
  cl :: "('k, 'sp) dep_client"
  clock :: go_time
  polls :: nat
  template_hash :: "'sp PodTemplateSpec \<Rightarrow> nat"
  template_eq :: "'sp PodTemplateSpec \<Rightarrow> 'sp PodTemplateSpec \<Rightarrow> bool"
  named_range :: "(string, 'sp DeployedRS) go_range"
  named_pods :: "(string, Pod) go_range"
  sort_created :: "'sp rs_memory \<Rightarrow> rs_ref list \<Rightarrow> rs_ref list"
  IsNotFound :: "go_error \<Rightarrow> bool"

definition drs_selector :: "('f, 'k, 'sp) dep_env \<Rightarrow> LabelSelector option \<Rightarrow> label_error + Selector" where
  "drs_selector env s =
     LabelSelectorAsSelector (parse_float (rsenv env)) (sort_reqs (rsenv env)) (label_range (rsenv env)) s"

fun gather_pods ::
  "('f, 'k, 'sp) dep_env \<Rightarrow> 'k \<Rightarrow> 'sp rs_memory \<Rightarrow> rs_ref option list \<Rightarrow> (string \<rightharpoonup> Pod) \<Rightarrow> dep_error + (string \<rightharpoonup> Pod)" where
  "gather_pods env k h [] allPods = Inr allPods"
| "gather_pods env k h (None # rss) allPods = gather_pods env k h rss allPods"
| "gather_pods env k h (Some p # rss) allPods =
     (case drs_selector env (rs_Selector (h ! p)) of
        Inl err \<Rightarrow> Inl (InvalidLabelSelector err)
      | Inr selector \<Rightarrow>
          (case Pods_List (cl env) (rs_Namespace (h ! p)) selector k of
             Inl err \<Rightarrow> Inl (ClientError err)
           | Inr pods \<Rightarrow> gather_pods env k h rss (fold (\<lambda>pod m. m(pod_Name pod \<mapsto> pod)) pods allPods)))"

definition GetPodsForReplicaSets ::
  "('f, 'k, 'sp) dep_env \<Rightarrow> 'k \<Rightarrow> 'sp rs_memory \<Rightarrow> rs_ref option list \<Rightarrow> dep_error + Pod list" where
  "GetPodsForReplicaSets env k h replicaSets =
     (case gather_pods env k h replicaSets Map.empty of
        Inl err \<Rightarrow> Inl err
      | Inr allPods \<Rightarrow> Inr (map snd (named_pods env allPods)))"

definition GetAvailablePodsForReplicaSets ::
  "('f, 'k, 'sp) dep_env \<Rightarrow> 'k \<Rightarrow> 'sp rs_memory \<Rightarrow> rs_ref option list \<Rightarrow> int \<Rightarrow> dep_error + int" where
  "GetAvailablePodsForReplicaSets env k h rss minReadySeconds =
     (case GetPodsForReplicaSets env k h rss of
        Inl err \<Rightarrow> Inl err
      | Inr allPods \<Rightarrow> Inr (getReadyPodsCount (clock env) allPods minReadySeconds))"

end
