(* ===== verification/Deployment_Hash.thy ===== *)
theory Deployment_Hash
  imports Deployment_Util
begin

text \<open>
  The rest of \<^verbatim>\<open>pkg/util/deployment/deployment.go\<close>: the replica sets and pods of a deployment get the hash of
  their template as a label before they are looked at.  With the updates that try again of
  \<^verbatim>\<open>pkg/util/replicaset/replicaset.go\<close> and \<^verbatim>\<open>pkg/util/pod/pod.go\<close>, and the polling of \<^verbatim>\<open>pkg/util/wait/wait.go\<close>.
\<close>

section \<open>Polling\<close>

text \<open>\<^verbatim>\<open>WaitFor\<close> with a channel that gives \<open>n\<close> ticks and is then closed.\<close>

fun WaitFor :: "nat \<Rightarrow> ('s \<Rightarrow> (retry_error + bool) \<times> 's) \<Rightarrow> 's \<Rightarrow> retry_error option \<times> 's" where
  "WaitFor 0 fn s =
     (case fn s of
        (Inl err, s) \<Rightarrow> (Some err, s)
      | (Inr True, s) \<Rightarrow> (None, s)
      | (Inr False, s) \<Rightarrow> (Some TimedOut, s))"
| "WaitFor (Suc n) fn s =
     (case fn s of
        (Inl err, s) \<Rightarrow> (Some err, s)
      | (Inr True, s) \<Rightarrow> (None, s)
      | (Inr False, s) \<Rightarrow> WaitFor n fn s)"

text \<open>What \<open>UpdateRSWithRetries\<close> and \<open>UpdatePodWithRetries\<close> make of the error of the poll.\<close>

definition retry_result :: "(go_error \<Rightarrow> bool) \<Rightarrow> retry_error option \<Rightarrow> retry_error option" where
  "retry_result isNotFound e =
     (case e of
        Some (ApiError err) \<Rightarrow> if isNotFound err then None else e
      | Some PreconditionViolated \<Rightarrow> None
      | _ \<Rightarrow> e)"

definition UpdateRS_attempt ::
  "('f, 'k, 'sp) dep_env \<Rightarrow> string \<Rightarrow> string \<Rightarrow> ('sp DeployedRS \<Rightarrow> retry_error + 'sp DeployedRS)
     \<Rightarrow> 'sp DeployedRS \<times> 'k \<Rightarrow> (retry_error + bool) \<times> 'sp DeployedRS \<times> 'k" where
  "UpdateRS_attempt env namespace name applyUpdate rsk =
     (case RS_Get (cl env) namespace name (snd rsk) of
        ((rs, Some err), k) \<Rightarrow> (Inl (ApiError err), rs, k)
      | ((rs, None), k) \<Rightarrow>
          (case applyUpdate rs of
             Inl err \<Rightarrow> (Inl err, rs, k)
           | Inr rs \<Rightarrow>
               (case RS_Update (cl env) rs k of
                  (Inl err, k) \<Rightarrow> (Inr False, rs, k)
                | (Inr rs, k) \<Rightarrow> (Inr True, rs, k))))"

definition UpdateRSWithRetries ::
  "('f, 'k, 'sp) dep_env \<Rightarrow> string \<Rightarrow> 'sp DeployedRS \<Rightarrow> ('sp DeployedRS \<Rightarrow> retry_error + 'sp DeployedRS)
     \<Rightarrow> 'k \<Rightarrow> ('sp DeployedRS \<times> bool \<times> retry_error option) \<times> 'k" where
  "UpdateRSWithRetries env namespace oldRs applyUpdate k =
     (case WaitFor (polls env) (UpdateRS_attempt env namespace (rs_Name oldRs) applyUpdate) (oldRs, k) of
        (err, rs, k) \<Rightarrow> ((rs, err = None, retry_result (IsNotFound env) err), k))"

definition UpdatePod_attempt ::
  "('f, 'k, 'sp) dep_env \<Rightarrow> string \<Rightarrow> string \<Rightarrow> (Pod \<Rightarrow> retry_error + Pod)
     \<Rightarrow> Pod \<times> 'k \<Rightarrow> (retry_error + bool) \<times> Pod \<times> 'k" where
  "UpdatePod_attempt env namespace name applyUpdate podk =
     (case Pod_Get (cl env) namespace name (snd podk) of
        ((pod, Some err), k) \<Rightarrow> (Inl (ApiError err), pod, k)
      | ((pod, None), k) \<Rightarrow>
          (case applyUpdate pod of
             Inl err \<Rightarrow> (Inl err, pod, k)
           | Inr pod \<Rightarrow>
               (case Pod_Update (cl env) pod k of
                  (Inl err, k) \<Rightarrow> (Inr False, pod, k)
                | (Inr pod, k) \<Rightarrow> (Inr True, pod, k))))"

definition UpdatePodWithRetries ::
  "('f, 'k, 'sp) dep_env \<Rightarrow> string \<Rightarrow> Pod \<Rightarrow> (Pod \<Rightarrow> retry_error + Pod) \<Rightarrow> 'k \<Rightarrow> (Pod \<times> bool \<times> retry_error option) \<times> 'k" where
  "UpdatePodWithRetries env namespace oldPod applyUpdate k =
     (case WaitFor (polls env) (UpdatePod_attempt env namespace (pod_Name oldPod) applyUpdate) (oldPod, k) of
        (err, pod, k) \<Rightarrow> ((pod, err = None, retry_result (IsNotFound env) err), k))"

section \<open>Labels\<close>

definition AddLabel :: "label_Set \<Rightarrow> string \<Rightarrow> string \<Rightarrow> label_Set" where
  "AddLabel ls labelKey labelValue = (if labelKey = '''' then ls else ls(labelKey \<mapsto> labelValue))"

definition AddLabelToSelector :: "LabelSelector \<Rightarrow> string \<Rightarrow> string \<Rightarrow> LabelSelector" where
  "AddLabelToSelector selector labelKey labelValue =
     (if labelKey = '''' then selector
      else selector\<lparr>MatchLabels := (MatchLabels selector)(labelKey \<mapsto> labelValue)\<rparr>)"

definition SelectorHasLabel :: "LabelSelector \<Rightarrow> string \<Rightarrow> bool" where
  "SelectorHasLabel selector labelKey \<longleftrightarrow> length (Set_Get (MatchLabels selector) labelKey) > 0"

section \<open>Labelling with the hash\<close>

text \<open>The three functions that \<open>addHashKeyToRSAndPods\<close> and \<open>labelPodsWithHash\<close> update with.\<close>

definition add_template_hash :: "string \<Rightarrow> 'sp DeployedRS \<Rightarrow> retry_error + 'sp DeployedRS" where
  "add_template_hash hash updated =
     (if Set_Get (tmpl_Labels (rs_Template updated)) DefaultDeploymentUniqueLabelKey = hash then Inl PreconditionViolated
      else Inr (updated\<lparr>rs_Template := (rs_Template updated)
             \<lparr>tmpl_Labels := AddLabel (tmpl_Labels (rs_Template updated)) DefaultDeploymentUniqueLabelKey hash\<rparr>\<rparr>))"

definition add_pod_hash :: "string \<Rightarrow> Pod \<Rightarrow> retry_error + Pod" where
  "add_pod_hash hash podToUpdate =
     (if Set_Get (pod_Labels podToUpdate) DefaultDeploymentUniqueLabelKey = hash then Inl PreconditionViolated
      else Inr (podToUpdate\<lparr>pod_Labels := AddLabel (pod_Labels podToUpdate) DefaultDeploymentUniqueLabelKey hash\<rparr>))"

definition add_selector_hash :: "string \<Rightarrow> 'sp DeployedRS \<Rightarrow> retry_error + 'sp DeployedRS" where
  "add_selector_hash hash updated =
     (case rs_Selector updated of
        None \<Rightarrow> Inl NilDereference
      | Some selector \<Rightarrow>
          if Set_Get (rs_Labels updated) DefaultDeploymentUniqueLabelKey = hash
             \<and> Set_Get (MatchLabels selector) DefaultDeploymentUniqueLabelKey = hash
          then Inl PreconditionViolated
          else Inr (updated\<lparr>rs_Labels := AddLabel (rs_Labels updated) DefaultDeploymentUniqueLabelKey hash,
                            rs_Selector := Some (AddLabelToSelector selector DefaultDeploymentUniqueLabelKey hash)\<rparr>))"

fun labelPodsWithHash ::
  "('f, 'k, 'sp) dep_env \<Rightarrow> string \<Rightarrow> string \<Rightarrow> Pod list \<Rightarrow> bool \<Rightarrow> 'k \<Rightarrow> (dep_error + bool) \<times> 'k" where
  "labelPodsWithHash env namespace hash [] allPodsLabeled k = (Inr allPodsLabeled, k)"
| "labelPodsWithHash env namespace hash (pod # pods) allPodsLabeled k =
     (if Set_Get (pod_Labels pod) DefaultDeploymentUniqueLabelKey \<noteq> hash
      then (case UpdatePodWithRetries env namespace pod (add_pod_hash hash) k of
              ((_, podUpdated, Some err), k) \<Rightarrow> (Inl (UpdateFailed err), k)
            | ((_, podUpdated, None), k) \<Rightarrow>
                labelPodsWithHash env namespace hash pods (if podUpdated then allPodsLabeled else False) k)
      else labelPodsWithHash env namespace hash pods allPodsLabeled k)"

definition waitForReplicaSetUpdated ::
  "('f, 'k, 'sp) dep_env \<Rightarrow> int \<Rightarrow> string \<Rightarrow> string \<Rightarrow> 'k \<Rightarrow> retry_error option \<times> 'k" where
  "waitForReplicaSetUpdated env desiredGeneration namespace name k =
     WaitFor (polls env) (\<lambda>k.
       case RS_Get (cl env) namespace name k of
         ((rs, Some err), k) \<Rightarrow> (Inl (ApiError err), k)
       | ((rs, None), k) \<Rightarrow> (Inr (status_ObservedGeneration rs \<ge> desiredGeneration), k)) k"

definition hash_of_rs :: "('f, 'k, 'sp) dep_env \<Rightarrow> 'sp DeployedRS \<Rightarrow> string" where
  "hash_of_rs env rs = fmt_d (int (template_hash env ((rs_Template rs)
     \<lparr>tmpl_Labels := CloneAndRemoveLabel (tmpl_Labels (rs_Template rs)) DefaultDeploymentUniqueLabelKey\<rparr>)))"

text \<open>Steps two and three, the pods and the selector.\<close>

definition add_hash_to_pods_and_selector ::
  "('f, 'k, 'sp) dep_env \<Rightarrow> string \<Rightarrow> string \<Rightarrow> 'sp DeployedRS \<Rightarrow> 'k \<Rightarrow> (dep_error + 'sp DeployedRS) \<times> 'k" where
  "add_hash_to_pods_and_selector env namespace hash updatedRS k =
     (case drs_selector env (rs_Selector updatedRS) of
        Inl err \<Rightarrow> (Inl (InvalidLabelSelector err), k)
      | Inr selector \<Rightarrow>
          (case Pods_Listed (cl env) namespace selector k of
             Inl err \<Rightarrow> (Inl (ClientError err), k)
           | Inr podList \<Rightarrow>
               (case labelPodsWithHash env namespace hash podList True k of
                  (Inl err, k) \<Rightarrow> (Inl err, k)
                | (Inr False, k) \<Rightarrow> (Inr updatedRS, k)
                | (Inr True, k) \<Rightarrow>
                    (case UpdateRSWithRetries env namespace updatedRS (add_selector_hash hash) k of
                       ((_, _, Some err), k) \<Rightarrow> (Inl (UpdateFailed err), k)
                     | ((updatedRS, _, None), k) \<Rightarrow> (Inr updatedRS, k)))))"

definition addHashKeyToRSAndPods ::
  "('f, 'k, 'sp) dep_env \<Rightarrow> 'sp Deployment \<Rightarrow> 'sp DeployedRS \<Rightarrow> 'k \<Rightarrow> (dep_error + 'sp DeployedRS) \<times> 'k" where
  "addHashKeyToRSAndPods env deployment rs k =
     (case rs_Selector rs of
        None \<Rightarrow> (Inl (UpdateFailed NilDereference), k)
      | Some selector \<Rightarrow>
          if SelectorHasLabel selector DefaultDeploymentUniqueLabelKey then (Inr rs, k)
          else let namespace = d_Namespace deployment;
                   hash = hash_of_rs env rs
            in (case UpdateRSWithRetries env namespace rs (add_template_hash hash) k of
                  ((_, _, Some err), k) \<Rightarrow> (Inl (UpdateFailed err), k)
                | ((_, False, None), k) \<Rightarrow> (Inr rs, k)
                | ((updatedRS, True, None), k) \<Rightarrow>
                    (case (if rs_Generation updatedRS > status_ObservedGeneration updatedRS
                           then waitForReplicaSetUpdated env (rs_Generation updatedRS) namespace (rs_Name updatedRS) k
                           else (None, k)) of
                       (Some err, k) \<Rightarrow> (Inl (UpdateFailed err), k)
                     | (None, k) \<Rightarrow> add_hash_to_pods_and_selector env namespace hash updatedRS k)))"

fun sync_hash_loop ::
  "('f, 'k, 'sp) dep_env \<Rightarrow> 'sp Deployment \<Rightarrow> 'sp DeployedRS list \<Rightarrow> 'sp DeployedRS list \<Rightarrow> 'k
     \<Rightarrow> (dep_error + 'sp DeployedRS list) \<times> 'k" where
  "sync_hash_loop env deployment [] syncedRSList k = (Inr syncedRSList, k)"
| "sync_hash_loop env deployment (rs # rsList) syncedRSList k =
     (case addHashKeyToRSAndPods env deployment rs k of
        (Inl err, k) \<Rightarrow> (Inl err, k)
      | (Inr syncedRS, k) \<Rightarrow> sync_hash_loop env deployment rsList (syncedRSList @ [syncedRS]) k)"

definition rsAndPodsWithHashKeySynced ::
  "('f, 'k, 'sp) dep_env \<Rightarrow> 'sp Deployment \<Rightarrow> 'k \<Rightarrow> (dep_error + 'sp DeployedRS list \<times> Pod list) \<times> 'k" where
  "rsAndPodsWithHashKeySynced env deployment k =
     (case drs_selector env (Some (d_Selector deployment)) of
        Inl err \<Rightarrow> (Inl (InvalidLabelSelector err), k)
      | Inr selector \<Rightarrow>
          (case RSs_Listed (cl env) (d_Namespace deployment) selector k of
             Inl err \<Rightarrow> (Inl (ClientError err), k)
           | Inr rsList \<Rightarrow>
               (case sync_hash_loop env deployment rsList [] k of
                  (Inl err, k) \<Rightarrow> (Inl err, k)
                | (Inr syncedRSList, k) \<Rightarrow>
                    (case Pods_Listed (cl env) (d_Namespace deployment) selector k of
                       Inl err \<Rightarrow> (Inl (ClientError err), k)
                     | Inr syncedPodList \<Rightarrow> (Inr (syncedRSList, syncedPodList), k)))))"

section \<open>Old and new replica sets\<close>

text \<open>The two nested loops, over pods and replica sets.\<close>

fun old_rs_loop ::
  "('f, 'k, 'sp) dep_env \<Rightarrow> 'sp PodTemplateSpec \<Rightarrow> label_Set \<Rightarrow> 'sp DeployedRS list
     \<Rightarrow> (string \<rightharpoonup> 'sp DeployedRS) \<times> (string \<rightharpoonup> 'sp DeployedRS)
     \<Rightarrow> dep_error + (string \<rightharpoonup> 'sp DeployedRS) \<times> (string \<rightharpoonup> 'sp DeployedRS)" where
  "old_rs_loop env newRSTemplate podLabels [] acc = Inr acc"
| "old_rs_loop env newRSTemplate podLabels (rs # rsList) (oldRSs, allOldRSs) =
     (case drs_selector env (rs_Selector rs) of
        Inl err \<Rightarrow> Inl (InvalidLabelSelector err)
      | Inr rsLabelsSelector \<Rightarrow>
          if template_eq env (rs_Template rs) newRSTemplate
          then old_rs_loop env newRSTemplate podLabels rsList (oldRSs, allOldRSs)
          else old_rs_loop env newRSTemplate podLabels rsList
            (if Selector_Matches (parse_float (rsenv env)) (float_greater (rsenv env)) rsLabelsSelector podLabels
             then oldRSs(rs_Name rs \<mapsto> rs) else oldRSs,
             allOldRSs(rs_Name rs \<mapsto> rs)))"

fun old_pods_loop ::
  "('f, 'k, 'sp) dep_env \<Rightarrow> 'sp PodTemplateSpec \<Rightarrow> Pod list \<Rightarrow> 'sp DeployedRS list
     \<Rightarrow> (string \<rightharpoonup> 'sp DeployedRS) \<times> (string \<rightharpoonup> 'sp DeployedRS)
     \<Rightarrow> dep_error + (string \<rightharpoonup> 'sp DeployedRS) \<times> (string \<rightharpoonup> 'sp DeployedRS)" where
  "old_pods_loop env newRSTemplate [] rsList acc = Inr acc"
| "old_pods_loop env newRSTemplate (pod # pods) rsList acc =
     (case old_rs_loop env newRSTemplate (pod_Labels pod) rsList acc of
        Inl err \<Rightarrow> Inl err
      | Inr acc \<Rightarrow> old_pods_loop env newRSTemplate pods rsList acc)"

text \<open>The results are copies, in the order of the two maps.\<close>

definition GetOldReplicaSetsFromLists ::
  "('f, 'k, 'sp) dep_env \<Rightarrow> 'sp Deployment \<Rightarrow> 'k \<Rightarrow> (dep_error + 'sp DeployedRS list \<times> 'sp DeployedRS list) \<times> 'k" where
  "GetOldReplicaSetsFromLists env deployment k =
     (case rsAndPodsWithHashKeySynced env deployment k of
        (Inl err, k) \<Rightarrow> (Inl err, k)
      | (Inr (rsList, podList), k) \<Rightarrow>
          let newRSTemplate = GetNewReplicaSetTemplate (template_hash env) deployment
          in (case old_pods_loop env newRSTemplate podList rsList (Map.empty, Map.empty) of
                Inl err \<Rightarrow> (Inl err, k)
              | Inr (oldRSs, allOldRSs) \<Rightarrow>
                  (Inr (map snd (named_range env oldRSs), map snd (named_range env allOldRSs)), k)))"

definition GetNewReplicaSetFromList ::
  "('f, 'k, 'sp) dep_env \<Rightarrow> 'sp Deployment \<Rightarrow> 'k \<Rightarrow> (dep_error + 'sp DeployedRS option) \<times> 'k" where
  "GetNewReplicaSetFromList env deployment k =
     (case rsAndPodsWithHashKeySynced env deployment k of
        (Inl err, k) \<Rightarrow> (Inl err, k)
      | (Inr (rsList, podList), k) \<Rightarrow>
          let newRSTemplate = GetNewReplicaSetTemplate (template_hash env) deployment
          in (Inr (find (\<lambda>rs. template_eq env (rs_Template rs) newRSTemplate) rsList), k))"

end
