(* ===== verification/Deployment_Controller.thy ===== *)
theory Deployment_Controller
  imports Deployment_Hash
begin

text \<open>
  \<^verbatim>\<open>pkg/controller/deployment/deployment_controller.go\<close>: the controller that replaces the pods of a
  deployment by scaling replica sets up and down.

  A sync works on one deployment, an object of the store that it changes in place, and on replica sets
  in the memory.  A step takes the state and gives a result, an error or a value, and the state it leaves.
  The informers, which fill the stores, and the loop of the workers are not part of the model.
\<close>

section \<open>State\<close>

record ('k, 'sp) dep_state =
  ds_client :: 'k
  ds_memory :: "'sp rs_memory"
  ds_deployment :: "'sp Deployment"
  ds_queue :: "key workqueue"
  ds_events :: "(string \<times> string) list" \<comment> \<open>reason and message\<close>

type_synonym ('a, 'k, 'sp) dep_step = "('k, 'sp) dep_state \<Rightarrow> (dep_error + 'a) \<times> ('k, 'sp) dep_state"

definition and_then :: "('a, 'k, 'sp) dep_step \<Rightarrow> ('a \<Rightarrow> ('b, 'k, 'sp) dep_step) \<Rightarrow> ('b, 'k, 'sp) dep_step" where
  "and_then m f s = (case m s of (Inl err, s) \<Rightarrow> (Inl err, s) | (Inr x, s) \<Rightarrow> f x s)"

abbreviation the_rs :: "('k, 'sp) dep_state \<Rightarrow> rs_ref \<Rightarrow> 'sp DeployedRS" where
  "the_rs s p \<equiv> ds_memory s ! p"

definition record_event :: "string \<Rightarrow> string \<Rightarrow> ('k, 'sp) dep_state \<Rightarrow> ('k, 'sp) dep_state" where
  "record_event reason message s = s\<lparr>ds_events := ds_events s @ [(reason, message)]\<rparr>"

definition store_rss :: "'sp DeployedRS list \<Rightarrow> ('k, 'sp) dep_state \<Rightarrow> rs_ref list \<times> ('k, 'sp) dep_state" where
  "store_rss rss s =
     ([length (ds_memory s)..<length (ds_memory s) + length rss], s\<lparr>ds_memory := ds_memory s @ rss\<rparr>)"

section \<open>Handlers\<close>

definition d_KeyFunc :: "'sp Deployment \<Rightarrow> key" where
  "d_KeyFunc d = (if length (d_Namespace d) > 0 then d_Namespace d @ ''/'' @ d_Name d else d_Name d)"

definition enqueueDeployment :: "'sp Deployment \<Rightarrow> key workqueue \<Rightarrow> key workqueue" where
  "enqueueDeployment deployment q = workqueue_Add (d_KeyFunc deployment) q"

definition deleteDeploymentNotification :: "'sp Deployment resource \<Rightarrow> key workqueue \<Rightarrow> key workqueue" where
  "deleteDeploymentNotification obj q =
     (case obj of
        Plain (ApiObject d) \<Rightarrow> enqueueDeployment d q
      | DeletedFinalStateUnknown k (Some (Plain (ApiObject d))) \<Rightarrow> enqueueDeployment d q
      | _ \<Rightarrow> q)"

text \<open>The lister of \<^verbatim>\<open>pkg/client/cache/listers.go\<close>; the list is the store's, in some order.\<close>

fun GetDeployments_loop ::
  "('f, 'k, 'sp) dep_env \<Rightarrow> 'sp DeployedRS \<Rightarrow> 'sp Deployment list \<Rightarrow> 'sp Deployment list \<Rightarrow> label_error + 'sp Deployment list" where
  "GetDeployments_loop env rs [] deployments = Inr deployments"
| "GetDeployments_loop env rs (d # ds) deployments =
     (if d_Namespace d \<noteq> rs_Namespace rs then GetDeployments_loop env rs ds deployments
      else case drs_selector env (Some (d_Selector d)) of
        Inl err \<Rightarrow> Inl err
      | Inr selector \<Rightarrow>
          if Selector_Empty selector
             \<or> \<not> Selector_Matches (parse_float (rsenv env)) (float_greater (rsenv env)) selector (rs_Labels rs)
          then GetDeployments_loop env rs ds deployments
          else GetDeployments_loop env rs ds (deployments @ [d]))"

definition GetDeploymentsForReplicaSet ::
  "('f, 'k, 'sp) dep_env \<Rightarrow> 'sp Deployment list \<Rightarrow> 'sp DeployedRS \<Rightarrow> label_error option + 'sp Deployment list" where
  "GetDeploymentsForReplicaSet env stored rs =
     (if rs_Labels rs = Map.empty then Inl None
      else case GetDeployments_loop env rs stored [] of
        Inl err \<Rightarrow> Inl (Some err)
      | Inr deployments \<Rightarrow> if length deployments = 0 then Inl None else Inr deployments)"

definition getDeploymentForReplicaSet ::
  "('f, 'k, 'sp) dep_env \<Rightarrow> 'sp Deployment list \<Rightarrow> 'sp DeployedRS \<Rightarrow> 'sp Deployment option" where
  "getDeploymentForReplicaSet env stored rs =
     (case GetDeploymentsForReplicaSet env stored rs of
        Inl err \<Rightarrow> None
      | Inr deployments \<Rightarrow> if length deployments = 0 then None else Some (deployments ! 0))"

definition enqueue_managing ::
  "('f, 'k, 'sp) dep_env \<Rightarrow> 'sp Deployment list \<Rightarrow> 'sp DeployedRS \<Rightarrow> key workqueue \<Rightarrow> key workqueue" where
  "enqueue_managing env stored rs q =
     (case getDeploymentForReplicaSet env stored rs of None \<Rightarrow> q | Some d \<Rightarrow> enqueueDeployment d q)"

text \<open>\<open>deepEqual\<close> is \<^verbatim>\<open>api.Semantic.DeepEqual\<close>.\<close>

definition dc_updateReplicaSet ::
  "('f, 'k, 'sp) dep_env \<Rightarrow> ('sp DeployedRS \<Rightarrow> 'sp DeployedRS \<Rightarrow> bool) \<Rightarrow> 'sp Deployment list
     \<Rightarrow> 'sp DeployedRS \<Rightarrow> 'sp DeployedRS \<Rightarrow> key workqueue \<Rightarrow> key workqueue" where
  "dc_updateReplicaSet env deepEqual stored old cur q =
     (if deepEqual old cur then q
      else let q = enqueue_managing env stored cur q
        in if \<not> deepEqual old cur then enqueue_managing env stored old q else q)"

definition dc_deleteReplicaSet ::
  "('f, 'k, 'sp) dep_env \<Rightarrow> 'sp Deployment list \<Rightarrow> 'sp DeployedRS resource \<Rightarrow> key workqueue \<Rightarrow> key workqueue" where
  "dc_deleteReplicaSet env stored obj q =
     (case obj of
        Plain (ApiObject rs) \<Rightarrow> enqueue_managing env stored rs q
      | DeletedFinalStateUnknown k (Some (Plain (ApiObject rs))) \<Rightarrow> enqueue_managing env stored rs q
      | _ \<Rightarrow> q)"

text \<open>The pods: the deployment of a replica set that selects the pod.\<close>

fun dc_GetPodReplicaSets_loop ::
  "('f, 'k, 'sp) dep_env \<Rightarrow> Pod \<Rightarrow> 'sp DeployedRS list \<Rightarrow> 'sp DeployedRS list \<Rightarrow> label_error + 'sp DeployedRS list" where
  "dc_GetPodReplicaSets_loop env pod [] rss = Inr rss"
| "dc_GetPodReplicaSets_loop env pod (rs # ms) rss =
     (if rs_Namespace rs \<noteq> pod_Namespace pod then dc_GetPodReplicaSets_loop env pod ms rss
      else case drs_selector env (rs_Selector rs) of
        Inl err \<Rightarrow> Inl err
      | Inr selector \<Rightarrow>
          if Selector_Empty selector
             \<or> \<not> Selector_Matches (parse_float (rsenv env)) (float_greater (rsenv env)) selector (pod_Labels pod)
          then dc_GetPodReplicaSets_loop env pod ms rss
          else dc_GetPodReplicaSets_loop env pod ms (rss @ [rs]))"

definition dc_GetPodReplicaSets ::
  "('f, 'k, 'sp) dep_env \<Rightarrow> 'sp DeployedRS list \<Rightarrow> Pod \<Rightarrow> label_error option + 'sp DeployedRS list" where
  "dc_GetPodReplicaSets env storedRSs pod =
     (if pod_Labels pod = Map.empty then Inl None
      else case dc_GetPodReplicaSets_loop env pod storedRSs [] of
        Inl err \<Rightarrow> Inl (Some err)
      | Inr rss \<Rightarrow> if length rss = 0 then Inl None else Inr rss)"

fun first_deployment :: "('f, 'k, 'sp) dep_env \<Rightarrow> 'sp Deployment list \<Rightarrow> 'sp DeployedRS list \<Rightarrow> 'sp Deployment option" where
  "first_deployment env stored [] = None"
| "first_deployment env stored (rs # rss) =
     (case GetDeploymentsForReplicaSet env stored rs of
        Inl err \<Rightarrow> first_deployment env stored rss
      | Inr deployments \<Rightarrow>
          if length deployments > 0 then Some (deployments ! 0) else first_deployment env stored rss)"

definition getDeploymentForPod ::
  "('f, 'k, 'sp) dep_env \<Rightarrow> 'sp Deployment list \<Rightarrow> 'sp DeployedRS list \<Rightarrow> Pod \<Rightarrow> 'sp Deployment option" where
  "getDeploymentForPod env stored storedRSs pod =
     (case dc_GetPodReplicaSets env storedRSs pod of
        Inl err \<Rightarrow> None
      | Inr rss \<Rightarrow> first_deployment env stored rss)"

definition enqueue_for_pod ::
  "('f, 'k, 'sp) dep_env \<Rightarrow> 'sp Deployment list \<Rightarrow> 'sp DeployedRS list \<Rightarrow> Pod \<Rightarrow> key workqueue \<Rightarrow> key workqueue" where
  "enqueue_for_pod env stored storedRSs pod q =
     (case getDeploymentForPod env stored storedRSs pod of None \<Rightarrow> q | Some d \<Rightarrow> enqueueDeployment d q)"

definition dc_addPod ::
  "('f, 'k, 'sp) dep_env \<Rightarrow> 'sp Deployment list \<Rightarrow> 'sp DeployedRS list \<Rightarrow> Pod resource \<Rightarrow> key workqueue \<Rightarrow> key workqueue" where
  "dc_addPod env stored storedRSs obj q =
     (case obj of Plain (ApiObject pod) \<Rightarrow> enqueue_for_pod env stored storedRSs pod q | _ \<Rightarrow> q)"

definition dc_updatePod ::
  "('f, 'k, 'sp) dep_env \<Rightarrow> (Pod \<Rightarrow> Pod \<Rightarrow> bool) \<Rightarrow> 'sp Deployment list \<Rightarrow> 'sp DeployedRS list
     \<Rightarrow> Pod \<Rightarrow> Pod \<Rightarrow> key workqueue \<Rightarrow> key workqueue" where
  "dc_updatePod env deepEqual stored storedRSs old cur q =
     (if deepEqual old cur then q
      else let q = enqueue_for_pod env stored storedRSs cur q
        in if \<not> deepEqual old cur then enqueue_for_pod env stored storedRSs old q else q)"

definition dc_deletePod ::
  "('f, 'k, 'sp) dep_env \<Rightarrow> 'sp Deployment list \<Rightarrow> 'sp DeployedRS list \<Rightarrow> Pod resource \<Rightarrow> key workqueue \<Rightarrow> key workqueue" where
  "dc_deletePod env stored storedRSs obj q =
     (case obj of
        Plain (ApiObject pod) \<Rightarrow> enqueue_for_pod env stored storedRSs pod q
      | DeletedFinalStateUnknown k (Some (Plain (ApiObject pod))) \<Rightarrow> enqueue_for_pod env stored storedRSs pod q
      | _ \<Rightarrow> q)"

section \<open>Updates\<close>

definition updateDeployment :: "('f, 'k, 'sp) dep_env \<Rightarrow> (unit, 'k, 'sp) dep_step" where
  "updateDeployment env s =
     (case D_Update (cl env) (ds_deployment s) (ds_client s) of
        (Inl err, k) \<Rightarrow> (Inl (ClientError err), s\<lparr>ds_client := k\<rparr>)
      | (Inr d, k) \<Rightarrow> (Inr (), s\<lparr>ds_client := k\<rparr>))"

definition updateDeploymentRevision :: "('f, 'k, 'sp) dep_env \<Rightarrow> string \<Rightarrow> (unit, 'k, 'sp) dep_step" where
  "updateDeploymentRevision env revision s =
     (if Set_Get (d_Annotations (ds_deployment s)) RevisionAnnotation \<noteq> revision
      then updateDeployment env (s\<lparr>ds_deployment :=
             (ds_deployment s)\<lparr>d_Annotations := (d_Annotations (ds_deployment s))(RevisionAnnotation \<mapsto> revision)\<rparr>\<rparr>)
      else (Inr (), s))"

definition scaleReplicaSet :: "('f, 'k, 'sp) dep_env \<Rightarrow> rs_ref \<Rightarrow> int \<Rightarrow> ('sp DeployedRS, 'k, 'sp) dep_step" where
  "scaleReplicaSet env p newScale s =
     (let s = s\<lparr>ds_memory := (ds_memory s)[p := (the_rs s p)\<lparr>rs_Replicas := newScale\<rparr>]\<rparr>
      in case RS_Update (cl env) (the_rs s p) (ds_client s) of
           (Inl err, k) \<Rightarrow> (Inl (ClientError err), s\<lparr>ds_client := k\<rparr>)
         | (Inr rs, k) \<Rightarrow> (Inr rs, s\<lparr>ds_client := k\<rparr>))"

definition scaleReplicaSetAndRecordEvent ::
  "('f, 'k, 'sp) dep_env \<Rightarrow> rs_ref \<Rightarrow> int \<Rightarrow> (bool, 'k, 'sp) dep_step" where
  "scaleReplicaSetAndRecordEvent env p newScale s =
     (if rs_Replicas (the_rs s p) = newScale then (Inr False, s)
      else let scalingOperation = (if rs_Replicas (the_rs s p) < newScale then ''up'' else ''down'')
        in case scaleReplicaSet env p newScale s of
             (Inr rs, s) \<Rightarrow> (Inr True, record_event ''ScalingReplicaSet''
               (''Scaled '' @ scalingOperation @ '' replica set '' @ rs_Name (the_rs s p) @ '' to '' @ fmt_d newScale) s)
           | (Inl err, s) \<Rightarrow> (Inl err, s\<lparr>ds_queue := enqueueDeployment (ds_deployment s) (ds_queue s)\<rparr>))"

section \<open>Revisions and the new replica set\<close>

definition LastAppliedConfigAnnotation :: string where
  "LastAppliedConfigAnnotation = ''kubectl.kubernetes.io/last-applied-configuration''"

text \<open>The loop over the annotations, in the order of the list.\<close>

definition copyDeploymentAnnotationsToReplicaSet ::
  "(string \<times> string) list \<Rightarrow> 'sp DeployedRS \<Rightarrow> bool \<times> 'sp DeployedRS" where
  "copyDeploymentAnnotationsToReplicaSet annotations rs =
     fold (\<lambda>(k, v) (changed, rs).
         if k = LastAppliedConfigAnnotation \<or> k = RevisionAnnotation \<or> Set_Get (rs_Annotations rs) k = v then (changed, rs)
         else (True, rs\<lparr>rs_Annotations := (rs_Annotations rs)(k \<mapsto> v)\<rparr>)) annotations (False, rs)"

text \<open>The revisions are compared as strings.\<close>

definition setNewReplicaSetAnnotations ::
  "('f, 'k, 'sp) dep_env \<Rightarrow> 'sp Deployment \<Rightarrow> 'sp DeployedRS \<Rightarrow> string \<Rightarrow> bool \<times> 'sp DeployedRS" where
  "setNewReplicaSetAnnotations env deployment newRS newRevision =
     (case copyDeploymentAnnotationsToReplicaSet (label_range (rsenv env) (d_Annotations deployment)) newRS of
        (annotationChanged, newRS) \<Rightarrow>
          if Set_Get (rs_Annotations newRS) RevisionAnnotation < newRevision
          then (True, newRS\<lparr>rs_Annotations := (rs_Annotations newRS)(RevisionAnnotation \<mapsto> newRevision)\<rparr>)
          else (annotationChanged, newRS))"

definition create_new_rs ::
  "('f, 'k, 'sp) dep_env \<Rightarrow> string \<Rightarrow> rs_ref list \<Rightarrow> (rs_ref, 'k, 'sp) dep_step" where
  "create_new_rs env newRevision oldRSs s =
     (let deployment = ds_deployment s;
          podTemplateSpecHash = template_hash env (d_Template deployment);
          newRS = \<lparr>rs_Name = d_Name deployment @ ''-'' @ fmt_d (int podTemplateSpecHash),
            rs_Namespace = d_Namespace deployment, rs_CreationTimestamp = 0, rs_Generation = 0, rs_Replicas = 0,
            rs_Selector = Some (CloneSelectorAndAddLabel (d_Selector deployment) DefaultDeploymentUniqueLabelKey podTemplateSpecHash),
            rs_Template = GetNewReplicaSetTemplate (template_hash env) deployment,
            status_Replicas = 0, status_ObservedGeneration = 0, rs_Labels = Map.empty, rs_Annotations = Map.empty\<rparr>;
          newRS = snd (setNewReplicaSetAnnotations env deployment newRS newRevision);
          (refs, s) = store_rss [newRS] s;
          allRSs = map Some oldRSs @ map Some refs
      in case NewRSNewReplicas deployment (ds_memory s) allRSs newRS of
           Inl err \<Rightarrow> (Inl err, s)
         | Inr newReplicasCount \<Rightarrow>
             (case RS_Create (cl env) (newRS\<lparr>rs_Replicas := newReplicasCount\<rparr>) (ds_client s) of
                (Inl err, k) \<Rightarrow>
                  (Inl (ClientError err), s\<lparr>ds_client := k, ds_queue := enqueueDeployment deployment (ds_queue s)\<rparr>)
              | (Inr createdRS, k) \<Rightarrow>
                  let (refs, s) = store_rss [createdRS] (s\<lparr>ds_client := k\<rparr>);
                      s = (if newReplicasCount > 0
                           then record_event ''ScalingReplicaSet''
                             (''Scaled up replica set '' @ rs_Name createdRS @ '' to '' @ fmt_d newReplicasCount) s
                           else s)
                  in (case updateDeploymentRevision env newRevision s of
                        (Inl err, s) \<Rightarrow> (Inl err, s)
                      | (Inr (), s) \<Rightarrow> (Inr (refs ! 0), s))))"

definition getNewReplicaSet ::
  "('f, 'k, 'sp) dep_env \<Rightarrow> int \<Rightarrow> rs_ref list \<Rightarrow> bool \<Rightarrow> (rs_ref option, 'k, 'sp) dep_step" where
  "getNewReplicaSet env maxOldRevision oldRSs createIfNotExisted s =
     (let newRevision = fmt_d (go_int (maxOldRevision + 1))
      in case GetNewReplicaSetFromList env (ds_deployment s) (ds_client s) of
           (Inl err, k) \<Rightarrow> (Inl err, s\<lparr>ds_client := k\<rparr>)
         | (Inr (Some existingNewRS), k) \<Rightarrow>
             (case setNewReplicaSetAnnotations env (ds_deployment s) existingNewRS newRevision of
                (True, newRS) \<Rightarrow>
                  (case RS_Update (cl env) newRS k of
                     (Inl err, k) \<Rightarrow> (Inl (ClientError err), s\<lparr>ds_client := k\<rparr>)
                   | (Inr rs, k) \<Rightarrow> let (refs, s) = store_rss [rs] (s\<lparr>ds_client := k\<rparr>) in (Inr (Some (refs ! 0)), s))
              | (False, newRS) \<Rightarrow>
                  let (refs, s) = store_rss [newRS] (s\<lparr>ds_client := k\<rparr>) in (Inr (Some (refs ! 0)), s))
         | (Inr None, k) \<Rightarrow>
             if \<not> createIfNotExisted then (Inr None, s\<lparr>ds_client := k\<rparr>)
             else and_then (create_new_rs env newRevision oldRSs) (\<lambda>p s. (Inr (Some p), s)) (s\<lparr>ds_client := k\<rparr>))"

definition getAllReplicaSetsAndSyncRevision ::
  "('f, 'k, 'sp) dep_env \<Rightarrow> bool \<Rightarrow> (rs_ref option \<times> rs_ref list, 'k, 'sp) dep_step" where
  "getAllReplicaSetsAndSyncRevision env createIfNotExisted s =
     (case GetOldReplicaSetsFromLists env (ds_deployment s) (ds_client s) of
        (Inl err, k) \<Rightarrow> (Inl err, s\<lparr>ds_client := k\<rparr>)
      | (Inr (requiredRSs, allRSs), k) \<Rightarrow>
          let (allOldRSs, s) = store_rss allRSs (s\<lparr>ds_client := k\<rparr>);
              maxOldV = maxRevision (ds_memory s) allOldRSs
          in (case getNewReplicaSet env maxOldV allOldRSs createIfNotExisted s of
                (Inl err, s) \<Rightarrow> (Inl err, s)
              | (Inr None, s) \<Rightarrow> (Inr (None, allOldRSs), s)
              | (Inr (Some newRS), s) \<Rightarrow>
                  let revision = Set_Get (rs_Annotations (the_rs s newRS)) RevisionAnnotation
                  in if length revision > 0 \<and> Set_Get (d_Annotations (ds_deployment s)) RevisionAnnotation \<noteq> revision
                     then (case updateDeploymentRevision env revision s of
                             (_, s) \<Rightarrow> (Inr (Some newRS, allOldRSs), s))
                     else (Inr (Some newRS, allOldRSs), s)))"

end
