(* ===== verification/Deployment_Sync.thy ===== *)
theory Deployment_Sync
  imports Deployment_Controller
begin

text \<open>
  The syncs of \<^verbatim>\<open>deployment_controller.go\<close>: scaling the new and the old replica sets of a rolling update, the
  recreate strategy, rolling back, and the status.  An error that the code drops is dropped here; what the
  steps have done by then stays.
\<close>

section \<open>The new replica set\<close>

definition reconcileNewReplicaSet ::
  "('f, 'k, 'sp) dep_env \<Rightarrow> rs_ref option list \<Rightarrow> rs_ref \<Rightarrow> (bool, 'k, 'sp) dep_step" where
  "reconcileNewReplicaSet env allRSs newRS s =
     (let deployment = ds_deployment s
      in if rs_Replicas (the_rs s newRS) = d_Replicas deployment then (Inr False, s)
         else if rs_Replicas (the_rs s newRS) > d_Replicas deployment
         then scaleReplicaSetAndRecordEvent env newRS (d_Replicas deployment) s
         else case NewRSNewReplicas deployment (ds_memory s) allRSs (the_rs s newRS) of
           Inl err \<Rightarrow> (Inl err, s)
         | Inr newReplicasCount \<Rightarrow> scaleReplicaSetAndRecordEvent env newRS newReplicasCount s)"

section \<open>The old replica sets\<close>

definition FilterActive_refs :: "'sp rs_memory \<Rightarrow> rs_ref list \<Rightarrow> rs_ref list" where
  "FilterActive_refs h replicaSets =
     fold (\<lambda>p active. if rs_Replicas (h ! p) > 0 then active @ [p] else active) replicaSets []"

fun cleanup_unhealthy_loop ::
  "('f, 'k, 'sp) dep_env \<Rightarrow> int \<Rightarrow> rs_ref list \<Rightarrow> int \<Rightarrow> (int, 'k, 'sp) dep_step" where
  "cleanup_unhealthy_loop env maxCleanupCount [] totalScaledDown s = (Inr totalScaledDown, s)"
| "cleanup_unhealthy_loop env maxCleanupCount (targetRS # oldRSs) totalScaledDown s =
     (if totalScaledDown \<ge> maxCleanupCount then (Inr totalScaledDown, s)
      else if rs_Replicas (the_rs s targetRS) = 0 then cleanup_unhealthy_loop env maxCleanupCount oldRSs totalScaledDown s
      else case GetAvailablePodsForReplicaSets env (ds_client s) (ds_memory s) [Some targetRS] 0 of
        Inl err \<Rightarrow> (Inl err, s)
      | Inr readyPodCount \<Rightarrow>
          if rs_Replicas (the_rs s targetRS) = readyPodCount
          then cleanup_unhealthy_loop env maxCleanupCount oldRSs totalScaledDown s
          else let scaledDownCount = IntMin (go_int (maxCleanupCount - totalScaledDown))
                     (go_int (rs_Replicas (the_rs s targetRS) - readyPodCount));
                   newReplicasCount = go_int (rs_Replicas (the_rs s targetRS) - scaledDownCount)
            in (case scaleReplicaSetAndRecordEvent env targetRS newReplicasCount s of
                  (Inl err, s) \<Rightarrow> (Inl err, s)
                | (Inr scaled, s) \<Rightarrow>
                    cleanup_unhealthy_loop env maxCleanupCount oldRSs (go_int (totalScaledDown + scaledDownCount)) s))"

definition cleanupUnhealthyReplicas ::
  "('f, 'k, 'sp) dep_env \<Rightarrow> rs_ref list \<Rightarrow> int \<Rightarrow> (int, 'k, 'sp) dep_step" where
  "cleanupUnhealthyReplicas env oldRSs maxCleanupCount s =
     cleanup_unhealthy_loop env maxCleanupCount (sort_created env (ds_memory s) oldRSs) 0 s"

fun scale_down_loop ::
  "('f, 'k, 'sp) dep_env \<Rightarrow> int \<Rightarrow> rs_ref list \<Rightarrow> int \<Rightarrow> (int, 'k, 'sp) dep_step" where
  "scale_down_loop env totalScaleDownCount [] totalScaledDown s = (Inr totalScaledDown, s)"
| "scale_down_loop env totalScaleDownCount (targetRS # oldRSs) totalScaledDown s =
     (if totalScaledDown \<ge> totalScaleDownCount then (Inr totalScaledDown, s)
      else if rs_Replicas (the_rs s targetRS) = 0 then scale_down_loop env totalScaleDownCount oldRSs totalScaledDown s
      else let scaleDownCount = IntMin (rs_Replicas (the_rs s targetRS)) (go_int (totalScaleDownCount - totalScaledDown));
               newReplicasCount = go_int (rs_Replicas (the_rs s targetRS) - scaleDownCount)
        in (case scaleReplicaSetAndRecordEvent env targetRS newReplicasCount s of
              (Inl err, s) \<Rightarrow> (Inl err, s)
            | (Inr scaled, s) \<Rightarrow>
                scale_down_loop env totalScaleDownCount oldRSs (go_int (totalScaledDown + scaleDownCount)) s))"

definition scaleDownOldReplicaSetsForRollingUpdate ::
  "('f, 'k, 'sp) dep_env \<Rightarrow> rs_ref option list \<Rightarrow> rs_ref list \<Rightarrow> (int, 'k, 'sp) dep_step" where
  "scaleDownOldReplicaSetsForRollingUpdate env allRSs oldRSs s =
     (let deployment = ds_deployment s
      in case ResolveFenceposts (MaxSurge (d_RollingUpdate deployment)) (MaxUnavailable (d_RollingUpdate deployment))
                (d_Replicas deployment) of
           Inl err \<Rightarrow> (Inl err, s)
         | Inr (surge, maxUnavailable) \<Rightarrow>
             let minAvailable = go_int (d_Replicas deployment - maxUnavailable)
             in (case GetAvailablePodsForReplicaSets env (ds_client s) (ds_memory s) allRSs (d_MinReadySeconds deployment) of
                   Inl err \<Rightarrow> (Inl err, s)
                 | Inr readyPodCount \<Rightarrow>
                     if readyPodCount \<le> minAvailable then (Inr 0, s)
                     else scale_down_loop env (go_int (readyPodCount - minAvailable))
                            (sort_created env (ds_memory s) oldRSs) 0 s))"

definition reconcileOldReplicaSets ::
  "('f, 'k, 'sp) dep_env \<Rightarrow> rs_ref option list \<Rightarrow> rs_ref list \<Rightarrow> rs_ref \<Rightarrow> (bool, 'k, 'sp) dep_step" where
  "reconcileOldReplicaSets env allRSs oldRSs newRS s =
     (let deployment = ds_deployment s;
          oldPodsCount = GetReplicaCountForReplicaSets (ds_memory s) (map Some oldRSs)
      in if oldPodsCount = 0 then (Inr False, s)
         else let allPodsCount = GetReplicaCountForReplicaSets (ds_memory s) allRSs
           in (case GetAvailablePodsForReplicaSets env (ds_client s) (ds_memory s) [Some newRS] (d_MinReadySeconds deployment) of
                 Inl err \<Rightarrow> (Inl err, s)
               | Inr newRSAvailablePodCount \<Rightarrow>
                   (case ResolveFenceposts (MaxSurge (d_RollingUpdate deployment)) (MaxUnavailable (d_RollingUpdate deployment))
                           (d_Replicas deployment) of
                      Inl err \<Rightarrow> (Inl err, s)
                    | Inr (surge, maxUnavailable) \<Rightarrow>
                        let minAvailable = go_int (d_Replicas deployment - maxUnavailable);
                            newRSUnavailablePodCount = go_int (rs_Replicas (the_rs s newRS) - newRSAvailablePodCount);
                            maxScaledDown = go_int (go_int (allPodsCount - minAvailable) - newRSUnavailablePodCount)
                        in if maxScaledDown \<le> 0 then (Inr False, s)
                           else let sorted = sort_created env (ds_memory s) oldRSs
                             in (case cleanupUnhealthyReplicas env oldRSs maxScaledDown s of
                                   (Inl err, s) \<Rightarrow> (Inr False, s)
                                 | (Inr cleanupCount, s) \<Rightarrow>
                                     (case scaleDownOldReplicaSetsForRollingUpdate env allRSs sorted s of
                                        (Inl err, s) \<Rightarrow> (Inr False, s)
                                      | (Inr scaledDownCount, s) \<Rightarrow>
                                          (Inr (go_int (cleanupCount + scaledDownCount) > 0), s))))))"

section \<open>Status\<close>

definition calculateStatus ::
  "('f, 'k, 'sp) dep_env \<Rightarrow> rs_ref option list \<Rightarrow> rs_ref option \<Rightarrow> ('k, 'sp) dep_state
     \<Rightarrow> dep_error + int \<times> int \<times> int \<times> int" where
  "calculateStatus env allRSs newRS s =
     (let totalActualReplicas = GetActualReplicaCountForReplicaSets (ds_memory s) allRSs;
          updatedReplicas = GetActualReplicaCountForReplicaSets (ds_memory s) [newRS]
      in case GetAvailablePodsForReplicaSets env (ds_client s) (ds_memory s) allRSs (d_MinReadySeconds (ds_deployment s)) of
           Inl err \<Rightarrow> Inl err
         | Inr availableReplicas \<Rightarrow>
             let totalReplicas = GetReplicaCountForReplicaSets (ds_memory s) allRSs
             in Inr (totalActualReplicas, updatedReplicas, availableReplicas, go_int (totalReplicas - availableReplicas)))"

definition updateDeploymentStatus ::
  "('f, 'k, 'sp) dep_env \<Rightarrow> rs_ref option list \<Rightarrow> rs_ref option \<Rightarrow> (unit, 'k, 'sp) dep_step" where
  "updateDeploymentStatus env allRSs newRS s =
     (case calculateStatus env allRSs newRS s of
        Inl err \<Rightarrow> (Inl err, s)
      | Inr (totalActualReplicas, updatedReplicas, availableReplicas, unavailableReplicas) \<Rightarrow>
          (case D_UpdateStatus (cl env) ((ds_deployment s)
                  \<lparr>dstatus_ObservedGeneration := d_Generation (ds_deployment s), dstatus_Replicas := totalActualReplicas,
                   dstatus_UpdatedReplicas := updatedReplicas, dstatus_AvailableReplicas := availableReplicas,
                   dstatus_UnavailableReplicas := unavailableReplicas\<rparr>) (ds_client s) of
             (Some err, k) \<Rightarrow> (Inl (ClientError err), s\<lparr>ds_client := k\<rparr>)
           | (None, k) \<Rightarrow> (Inr (), s\<lparr>ds_client := k\<rparr>)))"

definition syncDeploymentStatus ::
  "('f, 'k, 'sp) dep_env \<Rightarrow> rs_ref option list \<Rightarrow> rs_ref option \<Rightarrow> (unit, 'k, 'sp) dep_step" where
  "syncDeploymentStatus env allRSs newRS s =
     (case calculateStatus env allRSs newRS s of
        Inl err \<Rightarrow> (Inl err, s)
      | Inr (totalActualReplicas, updatedReplicas, availableReplicas, unavailableReplicas) \<Rightarrow>
          let d = ds_deployment s
          in if d_Generation d > dstatus_ObservedGeneration d \<or> dstatus_Replicas d \<noteq> totalActualReplicas
                \<or> dstatus_UpdatedReplicas d \<noteq> updatedReplicas \<or> dstatus_AvailableReplicas d \<noteq> availableReplicas
             then updateDeploymentStatus env allRSs newRS s
             else (Inr (), s))"

section \<open>Cleaning up\<close>

text \<open>The body of the loop of \<^verbatim>\<open>cleanupOldReplicaSets\<close>; the collected errors are dropped by its callers.\<close>

definition cleanup_old_rs :: "('f, 'k, 'sp) dep_env \<Rightarrow> rs_ref \<Rightarrow> ('k, 'sp) dep_state \<times> go_error list \<Rightarrow> ('k, 'sp) dep_state \<times> go_error list" where
  "cleanup_old_rs env p se =
     (case se of (s, errList) \<Rightarrow>
        let rs = the_rs s p
        in if status_Replicas rs \<noteq> 0 \<or> rs_Replicas rs \<noteq> 0 \<or> rs_Generation rs > status_ObservedGeneration rs
           then (s, errList)
           else (case RS_Delete (cl env) (rs_Namespace rs) (rs_Name rs) (ds_client s) of
                   (None, k) \<Rightarrow> (s\<lparr>ds_client := k\<rparr>, errList)
                 | (Some err, k) \<Rightarrow>
                     (s\<lparr>ds_client := k\<rparr>, if IsNotFound env err then errList else errList @ [err])))"

definition cleanupOldReplicaSets ::
  "('f, 'k, 'sp) dep_env \<Rightarrow> rs_ref list \<Rightarrow> nat \<Rightarrow> ('k, 'sp) dep_state \<Rightarrow> ('k, 'sp) dep_state \<times> go_error list" where
  "cleanupOldReplicaSets env oldRSs limit s =
     (let diff = int (length oldRSs) - int limit
      in if diff \<le> 0 then (s, [])
         else fold (cleanup_old_rs env) (take (nat diff) (sort_created env (ds_memory s) oldRSs)) (s, []))"

definition cleanup_history :: "('f, 'k, 'sp) dep_env \<Rightarrow> rs_ref list \<Rightarrow> ('k, 'sp) dep_state \<Rightarrow> ('k, 'sp) dep_state" where
  "cleanup_history env oldRSs s =
     (case d_RevisionHistoryLimit (ds_deployment s) of
        None \<Rightarrow> s
      | Some limit \<Rightarrow> fst (cleanupOldReplicaSets env oldRSs limit s))"

section \<open>Rolling update\<close>

text \<open>The part of \<^verbatim>\<open>syncRollingUpdateDeployment\<close> that scales; it says whether it scaled anything.\<close>

definition rolling_update_scale ::
  "('f, 'k, 'sp) dep_env \<Rightarrow> rs_ref option list \<Rightarrow> rs_ref list \<Rightarrow> rs_ref \<Rightarrow> (bool, 'k, 'sp) dep_step" where
  "rolling_update_scale env allRSs oldRSs newRS s =
     (case reconcileNewReplicaSet env allRSs newRS s of
        (Inl err, s) \<Rightarrow> (Inl err, s)
      | (Inr True, s) \<Rightarrow> (Inr True, s)
      | (Inr False, s) \<Rightarrow> reconcileOldReplicaSets env allRSs (FilterActive_refs (ds_memory s) oldRSs) newRS s)"

text \<open>With \<open>createIfNotExisted\<close> the new replica set is never nil.\<close>

definition syncRollingUpdateDeployment :: "('f, 'k, 'sp) dep_env \<Rightarrow> (unit, 'k, 'sp) dep_step" where
  "syncRollingUpdateDeployment env s =
     (case getAllReplicaSetsAndSyncRevision env True s of
        (Inl err, s) \<Rightarrow> (Inl err, s)
      | (Inr (newRS, oldRSs), s) \<Rightarrow>
          let allRSs = map Some (FilterActive_refs (ds_memory s) oldRSs) @ [newRS]
          in (case rolling_update_scale env allRSs oldRSs (the newRS) s of
                (Inl err, s) \<Rightarrow> (Inl err, s)
              | (Inr True, s) \<Rightarrow> updateDeploymentStatus env allRSs newRS s
              | (Inr False, s) \<Rightarrow> syncDeploymentStatus env allRSs newRS (cleanup_history env oldRSs s)))"

section \<open>Recreate\<close>

fun scaleDownOldReplicaSetsForRecreate ::
  "('f, 'k, 'sp) dep_env \<Rightarrow> rs_ref list \<Rightarrow> bool \<Rightarrow> (bool, 'k, 'sp) dep_step" where
  "scaleDownOldReplicaSetsForRecreate env [] scaled s = (Inr scaled, s)"
| "scaleDownOldReplicaSetsForRecreate env (rs # oldRSs) scaled s =
     (if rs_Replicas (the_rs s rs) = 0 then scaleDownOldReplicaSetsForRecreate env oldRSs scaled s
      else case scaleReplicaSetAndRecordEvent env rs 0 s of
        (Inl err, s) \<Rightarrow> (Inl err, s)
      | (Inr scaledRS, s) \<Rightarrow> scaleDownOldReplicaSetsForRecreate env oldRSs (if scaledRS then True else scaled) s)"

definition scaleUpNewReplicaSetForRecreate :: "('f, 'k, 'sp) dep_env \<Rightarrow> rs_ref \<Rightarrow> (bool, 'k, 'sp) dep_step" where
  "scaleUpNewReplicaSetForRecreate env newRS s =
     scaleReplicaSetAndRecordEvent env newRS (d_Replicas (ds_deployment s)) s"

definition syncRecreateDeployment :: "('f, 'k, 'sp) dep_env \<Rightarrow> (unit, 'k, 'sp) dep_step" where
  "syncRecreateDeployment env s =
     (case getAllReplicaSetsAndSyncRevision env False s of
        (Inl err, s) \<Rightarrow> (Inl err, s)
      | (Inr (newRS, oldRSs), s) \<Rightarrow>
          let allRSs = map Some (FilterActive_refs (ds_memory s) oldRSs) @ [newRS]
          in (case scaleDownOldReplicaSetsForRecreate env (FilterActive_refs (ds_memory s) oldRSs) False s of
                (Inl err, s) \<Rightarrow> (Inl err, s)
              | (Inr True, s) \<Rightarrow> updateDeploymentStatus env allRSs newRS s
              | (Inr False, s) \<Rightarrow>
                  (case (case newRS of
                           Some p \<Rightarrow> (Inr (newRS, oldRSs, allRSs), s)
                         | None \<Rightarrow>
                             (case getAllReplicaSetsAndSyncRevision env True s of
                                (Inl err, s) \<Rightarrow> (Inl err, s)
                              | (Inr (newRS, oldRSs), s) \<Rightarrow> (Inr (newRS, oldRSs, map Some oldRSs @ [newRS]), s))) of
                     (Inl err, s) \<Rightarrow> (Inl err, s)
                   | (Inr (newRS, oldRSs, allRSs), s) \<Rightarrow>
                       (case scaleUpNewReplicaSetForRecreate env (the newRS) s of
                          (Inl err, s) \<Rightarrow> (Inl err, s)
                        | (Inr True, s) \<Rightarrow> updateDeploymentStatus env allRSs newRS s
                        | (Inr False, s) \<Rightarrow> syncDeploymentStatus env allRSs newRS (cleanup_history env oldRSs s)))))"

section \<open>Rolling back\<close>

definition updateDeploymentAndClearRollbackTo :: "('f, 'k, 'sp) dep_env \<Rightarrow> (unit, 'k, 'sp) dep_step" where
  "updateDeploymentAndClearRollbackTo env s =
     updateDeployment env (s\<lparr>ds_deployment := (ds_deployment s)\<lparr>d_RollbackTo := None\<rparr>\<rparr>)"

definition rollbackToTemplate :: "('f, 'k, 'sp) dep_env \<Rightarrow> rs_ref \<Rightarrow> (bool, 'k, 'sp) dep_step" where
  "rollbackToTemplate env rs s =
     (let (performedRollback, s) =
        (if \<not> template_eq env (GetNewReplicaSetTemplate (template_hash env) (ds_deployment s)) (rs_Template (the_rs s rs))
         then (True, s\<lparr>ds_deployment := SetFromReplicaSetTemplate (ds_deployment s) (rs_Template (the_rs s rs))\<rparr>)
         else (False, record_event ''DeploymentRollbackTemplateUnchanged''
                (''The rollback revision contains the same template as current deployment '' @ [CHR 0x22] @ d_Name (ds_deployment s) @ [CHR 0x22]) s))
      in case updateDeploymentAndClearRollbackTo env s of
           (Inl err, s) \<Rightarrow> (Inl err, s)
         | (Inr (), s) \<Rightarrow> (Inr performedRollback, s))"

fun rollback_loop :: "('f, 'k, 'sp) dep_env \<Rightarrow> int \<Rightarrow> rs_ref list \<Rightarrow> (unit, 'k, 'sp) dep_step" where
  "rollback_loop env toRevision [] s =
     updateDeploymentAndClearRollbackTo env
       (record_event ''DeploymentRollbackRevisionNotFound'' ''Unable to find the revision to rollback to.'' s)"
| "rollback_loop env toRevision (rs # allRSs) s =
     (case Revision (the_rs s rs) of
        Inl err \<Rightarrow> rollback_loop env toRevision allRSs s
      | Inr v \<Rightarrow>
          if v = toRevision
          then (case rollbackToTemplate env rs s of
                  (Inl err, s) \<Rightarrow> (Inl err, s)
                | (Inr performedRollback, s) \<Rightarrow>
                    (Inr (), if performedRollback
                             then record_event ''DeploymentRollback''
                               (''Rolled back deployment '' @ [CHR 0x22] @ d_Name (ds_deployment s) @ [CHR 0x22] @ '' to revision '' @ fmt_d toRevision) s
                             else s))
          else rollback_loop env toRevision allRSs s)"

definition rollback :: "('f, 'k, 'sp) dep_env \<Rightarrow> int \<Rightarrow> (unit, 'k, 'sp) dep_step" where
  "rollback env toRevision s =
     (case getAllReplicaSetsAndSyncRevision env True s of
        (Inl err, s) \<Rightarrow> (Inl err, s)
      | (Inr (newRS, allOldRSs), s) \<Rightarrow>
          let allRSs = allOldRSs @ [the newRS];
              revision = (if toRevision = 0 then lastRevision (ds_memory s) allRSs else toRevision)
          in if revision = 0
             then updateDeploymentAndClearRollbackTo env
                    (record_event ''DeploymentRollbackRevisionNotFound'' ''Unable to find last revision.'' s)
             else rollback_loop env revision allRSs s)"

section \<open>Syncing\<close>

definition syncPausedDeploymentStatus :: "('f, 'k, 'sp) dep_env \<Rightarrow> (unit, 'k, 'sp) dep_step" where
  "syncPausedDeploymentStatus env s =
     (case getAllReplicaSetsAndSyncRevision env False s of
        (Inl err, s) \<Rightarrow> (Inl err, s)
      | (Inr (newRS, oldRSs), s) \<Rightarrow>
          syncDeploymentStatus env (map Some (FilterActive_refs (ds_memory s) oldRSs) @ [newRS]) newRS s)"

definition sync_strategy :: "('f, 'k, 'sp) dep_env \<Rightarrow> (unit, 'k, 'sp) dep_step" where
  "sync_strategy env s =
     (if d_StrategyType (ds_deployment s) = RecreateDeploymentStrategyType then syncRecreateDeployment env s
      else if d_StrategyType (ds_deployment s) = RollingUpdateDeploymentStrategyType then syncRollingUpdateDeployment env s
      else (Inl (UnsupportedStrategy (d_StrategyType (ds_deployment s))), s))"

text \<open>\<open>stored\<close> is what the store of deployments has for the key; the deployment of the state becomes this object.\<close>

definition syncDeployment ::
  "('f, 'k, 'sp) dep_env \<Rightarrow> bool \<Rightarrow> (key \<rightharpoonup> 'sp Deployment) \<Rightarrow> key \<Rightarrow> (unit, 'k, 'sp) dep_step" where
  "syncDeployment env storesSynced stored key s =
     (if \<not> storesSynced then (Inr (), s\<lparr>ds_queue := workqueue_Add key (ds_queue s)\<rparr>)
      else case stored key of
        None \<Rightarrow> (Inr (), s)
      | Some d \<Rightarrow>
          let s = s\<lparr>ds_deployment := d\<rparr>
          in if d_Paused d then syncPausedDeploymentStatus env s
             else (case d_RollbackTo d of
                     None \<Rightarrow> sync_strategy env s
                   | Some revision \<Rightarrow> and_then (rollback env revision) (\<lambda>_. sync_strategy env) s))"

text \<open>One round of \<^verbatim>\<open>worker\<close>.\<close>

definition dc_worker ::
  "('f, 'k, 'sp) dep_env \<Rightarrow> bool \<Rightarrow> (key \<rightharpoonup> 'sp Deployment) \<Rightarrow> ('k, 'sp) dep_state \<Rightarrow> ('k, 'sp) dep_state" where
  "dc_worker env storesSynced stored s =
     (case workqueue_Get (ds_queue s) of
        (Got key, q) \<Rightarrow>
          (case syncDeployment env storesSynced stored key (s\<lparr>ds_queue := q\<rparr>) of
             (_, s) \<Rightarrow> s\<lparr>ds_queue := workqueue_Done key (ds_queue s)\<rparr>)
      | (_, q) \<Rightarrow> s\<lparr>ds_queue := q\<rparr>)"

end
