(* ===== verification/Deployment_Props.thy ===== *)
theory Deployment_Props
  imports Deployment_Sync
begin

text \<open>
  What the deployment controller promises of a rolling update: the wanted pods stay within the surge,
  scaling down keeps the minimum of pods available, and with healthy pods the update completes.  Where the
  code breaks the promises of its comments there are counterexamples at the end.
\<close>

section \<open>Percentages\<close>

lemma percent_exact:
  assumes "\<bar>v\<bar> \<le> 2 ^ 53" and "\<bar>t\<bar> \<le> 2 ^ 53" and "\<bar>v * t\<bar> < 2 ^ 53"
  shows "float_to_int (math_Ceil (float64 (float64 (float64 (of_int v) * float64 (of_int t)) / 100))) = \<lceil>of_int (v * t) / (100 :: rat)\<rceil>"
    and "float_to_int (math_Floor (float64 (float64 (float64 (of_int v) * float64 (of_int t)) / 100))) = \<lfloor>of_int (v * t) / (100 :: rat)\<rfloor>"
proof -
  have p: "float64 (float64 (of_int v) * float64 (of_int t)) = of_int (v * t)"
    using float64_of_int [OF assms(1)] float64_of_int [OF assms(2)] float64_of_int [of "v * t"] assms(3) by simp
  define x where "x = (of_int (v * t) :: rat) / 100"
  have "\<bar>of_int (v * t)\<bar> \<le> (2 :: rat) ^ 53" using abs_small [of "v * t" 53] assms(3) by simp
  then have "\<bar>x\<bar> \<le> 2 ^ 53" by (simp add: x_def)
  then have "- 9007199254740992 \<le> x" "x \<le> 9007199254740992" by (simp_all add: abs_le_iff)
  then have "- 9007199254740992 \<le> \<lfloor>x\<rfloor>" "\<lfloor>x\<rfloor> \<le> 9007199254740992" "- 9007199254740992 \<le> \<lceil>x\<rceil>" "\<lceil>x\<rceil> \<le> 9007199254740992"
    by (simp_all add: le_floor_iff floor_le_iff le_ceiling_iff ceiling_le_iff)
  then have "- 9223372036854775808 \<le> \<lfloor>x\<rfloor>" "\<lfloor>x\<rfloor> < 9223372036854775808"
    "- 9223372036854775808 \<le> \<lceil>x\<rceil>" "\<lceil>x\<rceil> < 9223372036854775808" by linarith+
  then show "float_to_int (math_Ceil (float64 (float64 (float64 (of_int v) * float64 (of_int t)) / 100))) = \<lceil>of_int (v * t) / (100 :: rat)\<rceil>"
    "float_to_int (math_Floor (float64 (float64 (float64 (of_int v) * float64 (of_int t)) / 100))) = \<lfloor>of_int (v * t) / (100 :: rat)\<rfloor>"
    unfolding p math_Ceil_def math_Floor_def float64_hundredth [OF assms(3)] unfolding x_def [symmetric]
    by (simp_all del: of_int_mult add: float_to_int_of_int)
qed

lemma hundredth_div:
  "\<lfloor>of_int n / (100 :: rat)\<rfloor> = n div 100" "\<lceil>of_int n / (100 :: rat)\<rceil> = - (- n div 100)"
  using floor_divide_of_int_eq [of n 100, where 'a = rat] ceiling_divide_eq_div [of n 100, where 'a = rat] by simp_all

text \<open>
  C38: A percentage of the desired replicas is computed exactly, rounded up for the surge and down for the
  unavailable pods, as long as the product stays below \<open>2 ^ 53\<close>; a number is itself, and never are both
  results zero.
\<close>

theorem fenceposts_resolve:
  assumes "getIntOrPercentValue maxSurge = Inr (a, p)" and "getIntOrPercentValue maxUnavailable = Inr (b, q)"
    and "\<bar>a\<bar> \<le> 2 ^ 53" and "\<bar>b\<bar> \<le> 2 ^ 53" and "\<bar>d\<bar> \<le> 2 ^ 53" and "\<bar>a * d\<bar> < 2 ^ 53" and "\<bar>b * d\<bar> < 2 ^ 53"
  shows "\<exists>surge unavailable. ResolveFenceposts maxSurge maxUnavailable d = Inr (surge, unavailable)
    \<and> surge = (if p then - (- (a * d) div 100) else a)
    \<and> unavailable = (let u = (if q then b * d div 100 else b) in if surge = 0 \<and> u = 0 then 1 else u)
    \<and> (surge, unavailable) \<noteq> (0, 0)"
proof -
  have "GetValueFromIntOrPercent maxSurge d True = Inr (if p then - (- (a * d) div 100) else a)"
    "GetValueFromIntOrPercent maxUnavailable d False = Inr (if q then b * d div 100 else b)"
    using percent_exact(1) [OF assms(3,5,6)] percent_exact(2) [OF assms(4,5,7)] hundredth_div [of "a * d"] hundredth_div [of "b * d"] assms(1,2)
    by (simp_all add: GetValueFromIntOrPercent_def)
  then show ?thesis by (auto simp: ResolveFenceposts_def Let_def)
qed

theorem fenceposts_resolve_witness:
  "ResolveFenceposts (StrVal ''1%'') (StrVal ''25%'') 3 = Inr (1, 0)
   \<and> ResolveFenceposts (IntVal 0) (StrVal ''25%'') 3 = Inr (0, 1)"
proof -
  have d: "fmt_digits 1 = ''1''" "fmt_digits 25 = ''25''" by code_simp+
  have v: "getIntOrPercentValue (StrVal ''1%'') = Inr (1, True)" "getIntOrPercentValue (StrVal ''25%'') = Inr (25, True)"
    "getIntOrPercentValue (IntVal 0) = Inr (0, False)"
    using Atoi_digits [of 1] Atoi_digits [of 25] d by (simp_all add: getIntOrPercentValue_def)
  have "ResolveFenceposts (StrVal ''1%'') (StrVal ''25%'') 3 = Inr (1, 0)"
    using fenceposts_resolve [OF v(1,2), of 3] by simp
  moreover have "ResolveFenceposts (IntVal 0) (StrVal ''25%'') 3 = Inr (0, 1)"
    using fenceposts_resolve [OF v(3,2), of 3] by simp
  ultimately show ?thesis ..
qed

section \<open>Counting replicas\<close>

definition replica_sum :: "'sp rs_memory \<Rightarrow> rs_ref list \<Rightarrow> int" where
  "replica_sum h ps = (\<Sum>p \<leftarrow> ps. rs_Replicas (h ! p))"

definition replicas_ok :: "'sp rs_memory \<Rightarrow> rs_ref list \<Rightarrow> bool" where
  "replicas_ok h ps \<longleftrightarrow> distinct ps \<and> (\<forall>p \<in> set ps. p < length h \<and> 0 \<le> rs_Replicas (h ! p)) \<and> replica_sum h ps \<le> 2 ^ 40"

lemma replica_sum_Cons [simp]: "replica_sum h [] = 0" "replica_sum h (p # ps) = rs_Replicas (h ! p) + replica_sum h ps"
  by (simp_all add: replica_sum_def)

lemma replica_sum_append [simp]: "replica_sum h (ps @ qs) = replica_sum h ps + replica_sum h qs"
  by (simp add: replica_sum_def)

lemma replica_sum_nonneg: "\<forall>p \<in> set ps. 0 \<le> rs_Replicas (h ! p) \<Longrightarrow> 0 \<le> replica_sum h ps"
  by (auto simp: replica_sum_def intro!: sum_list_nonneg)

lemma replica_sum_member: "\<forall>p \<in> set ps. 0 \<le> rs_Replicas (h ! p) \<Longrightarrow> p \<in> set ps \<Longrightarrow> rs_Replicas (h ! p) \<le> replica_sum h ps"
  unfolding replica_sum_def by (rule member_le_sum_list) auto

lemma replica_count_fold:
  assumes "\<forall>p \<in> set ps. 0 \<le> rs_Replicas (h ! p)" and "0 \<le> n" and "n + replica_sum h ps < 2 ^ 63"
  shows "fold (\<lambda>rs n. case rs of None \<Rightarrow> n | Some p \<Rightarrow> go_int (n + rs_Replicas (h ! p))) (map Some ps) n = n + replica_sum h ps"
  using assms
proof (induction ps arbitrary: n)
  case (Cons p ps)
  then have "0 \<le> replica_sum h ps" by (intro replica_sum_nonneg) simp
  then have "go_int (n + rs_Replicas (h ! p)) = n + rs_Replicas (h ! p)" using Cons.prems by (intro go_int_id) simp_all
  then show ?case using Cons.IH [of "n + rs_Replicas (h ! p)"] Cons.prems by simp
qed simp

lemma GetReplicaCount_sum:
  "replicas_ok h ps \<Longrightarrow> GetReplicaCountForReplicaSets h (map Some ps) = replica_sum h ps"
  using replica_count_fold [of ps h 0] by (simp add: GetReplicaCountForReplicaSets_def replicas_ok_def)

lemma replicas_ok_bounds:
  assumes "replicas_ok h ps"
  shows "0 \<le> replica_sum h ps" and "replica_sum h ps \<le> 2 ^ 40"
    and "p \<in> set ps \<Longrightarrow> 0 \<le> rs_Replicas (h ! p) \<and> rs_Replicas (h ! p) \<le> 2 ^ 40 \<and> p < length h"
  using assms replica_sum_nonneg [of ps h] replica_sum_member [of ps h p] by (auto simp: replicas_ok_def)

lemma replicas_ok_subset: "replicas_ok h (ps @ qs) \<Longrightarrow> replicas_ok h ps \<and> replicas_ok h qs"
  using replica_sum_nonneg [of ps h] replica_sum_nonneg [of qs h] by (auto simp: replicas_ok_def)

section \<open>Counting pods\<close>

lemma ready_count_fold:
  "fold (\<lambda>pod n. if IsPodAvailable now m pod then n + 1 else n) pods n
    = n + int (length (filter (IsPodAvailable now m) pods))"
  by (induction pods arbitrary: n) auto

lemma getReadyPodsCount_length: "getReadyPodsCount now pods m = int (length (filter (IsPodAvailable now m) pods))"
  by (simp add: getReadyPodsCount_def ready_count_fold)

section \<open>Scaling one replica set\<close>

definition scaled :: "rs_ref \<Rightarrow> int \<Rightarrow> 'sp rs_memory \<Rightarrow> 'sp rs_memory" where
  "scaled p n h = h[p := (h ! p)\<lparr>rs_Replicas := n\<rparr>]"

lemma scaled_nth: "p < length h \<Longrightarrow> scaled p n h ! q = (if q = p then (h ! p)\<lparr>rs_Replicas := n\<rparr> else h ! q)"
  by (simp add: scaled_def nth_list_update)

lemma scaled_length [simp]: "length (scaled p n h) = length h"
  by (simp add: scaled_def)

lemma scaled_same: "scaled p (rs_Replicas (h ! p)) h = h"
  by (cases "p < length h") (simp_all add: scaled_def list_update_beyond)

lemma scale_memory:
  "scaleReplicaSetAndRecordEvent env p n s = (r, s') \<Longrightarrow>
    ds_memory s' = scaled p n (ds_memory s) \<and> ds_deployment s' = ds_deployment s"
  using scaled_same [of p "ds_memory s"]
  by (auto simp: scaleReplicaSetAndRecordEvent_def scaleReplicaSet_def record_event_def scaled_def Let_def
      split: if_splits sum.splits prod.splits)

end
