(* ===== verification/Deployment_Example.thy ===== *)
theory Deployment_Example
  imports Deployment_Props
begin

text \<open>
  A deployment of one pod in the middle of a rolling update, with a server that has the pods and accepts every
  update, for the theorems to be applied to.
\<close>

section \<open>The server\<close>

definition web_server :: "(Pod list, unit) dep_client" where
  "web_server = \<lparr>
     RS_Get = \<lambda>ns n k. ((undefined, Some ''not found''), k), RS_Update = \<lambda>rs k. (Inr rs, k), RS_Create = \<lambda>rs k. (Inr rs, k), RS_Delete = \<lambda>ns n k. (None, k),
     Pod_Get = \<lambda>ns n k. ((undefined, Some ''not found''), k), Pod_Update = \<lambda>pod k. (Inr pod, k),
     Pods_List = \<lambda>ns selector k. Inr (filter (\<lambda>p. pod_Namespace p = ns
        \<and> Selector_Matches (\<lambda>_. None :: nat option) (>) selector (pod_Labels p)) k),
     RSs_Listed = \<lambda>ns selector k. Inr [], Pods_Listed = \<lambda>ns selector k. Inr k,
     D_Update = \<lambda>d k. (Inr d, k), D_UpdateStatus = \<lambda>d k. (None, k)\<rparr>"

definition web_env :: "(nat, Pod list, unit) dep_env" where
  "web_env = \<lparr>
     rsenv = \<lparr>parse_float = \<lambda>_. None, float_greater = (>), sort_reqs = sort_key req_key, label_range = sorted_range,
       hashKey = \<lambda>_. 0, sort_overlapping = id, sort_active = id, rs_range = sorted_range, pod_range = sorted_range\<rparr>,
     cl = web_server, clock = 0, polls = 0, template_hash = \<lambda>_. 0, template_eq = \<lambda>t u. tmpl_Labels t = tmpl_Labels u,
     named_range = sorted_range, named_pods = sorted_range, sort_created = \<lambda>h ps. sort_key (\<lambda>p. rs_CreationTimestamp (h ! p)) ps,
     IsNotFound = \<lambda>_. False\<rparr>"

lemma web_env_simps:
  "clock web_env = 0" "named_pods web_env = sorted_range"
  "sort_created web_env h ps = sort_key (\<lambda>p. rs_CreationTimestamp (h ! p)) ps"
  "RS_Update (cl web_env) rs k = (Inr rs, k)"
  by (simp_all add: web_env_def web_server_def)

section \<open>The deployment, its replica sets and pods\<close>

definition web_template :: "string \<Rightarrow> unit PodTemplateSpec" where
  "web_template v = \<lparr>tmpl_Labels = [''app'' \<mapsto> v], tmpl_Annotations = Map.empty, tmpl_Spec = ()\<rparr>"

definition web_selector :: "string \<Rightarrow> LabelSelector" where
  "web_selector v = \<lparr>MatchLabels = [''app'' \<mapsto> v], MatchExpressions = []\<rparr>"

definition web_rs :: "string \<Rightarrow> int \<Rightarrow> unit DeployedRS" where
  "web_rs v n = \<lparr>rs_Name = ''web-'' @ v, rs_Namespace = ''ns'', rs_CreationTimestamp = 0, rs_Generation = 0, rs_Replicas = n,
     rs_Selector = Some (web_selector v), rs_Template = web_template v, status_Replicas = n, status_ObservedGeneration = 0,
     rs_Labels = [''app'' \<mapsto> v], rs_Annotations = Map.empty\<rparr>"

definition web_pod :: "string \<Rightarrow> string \<Rightarrow> Pod" where
  "web_pod name v = \<lparr>pod_Name = name, pod_Namespace = ''ns'', pod_Labels = [''app'' \<mapsto> v], CreationTimestamp = 0,
     DeletionTimestamp = None, NodeName = ''node'', Phase = PodRunning,
     Conditions = [\<lparr>cond_Type = PodReady, cond_Status = ConditionTrue, LastTransitionTime = 0\<rparr>], RestartCounts = []\<rparr>"

definition web_deployment :: "unit Deployment" where
  "web_deployment = \<lparr>d_Name = ''web'', d_Namespace = ''ns'', d_Annotations = Map.empty, d_Generation = 1, d_Replicas = 1,
     d_Selector = web_selector ''b'', d_Template = web_template ''b'', d_StrategyType = ''RollingUpdate'',
     d_RollingUpdate = \<lparr>MaxUnavailable = IntVal 0, MaxSurge = IntVal 1\<rparr>, d_MinReadySeconds = 0, d_RevisionHistoryLimit = None,
     d_Paused = False, d_RollbackTo = None, dstatus_ObservedGeneration = 1, dstatus_Replicas = 1, dstatus_UpdatedReplicas = 0,
     dstatus_AvailableReplicas = 1, dstatus_UnavailableReplicas = 0\<rparr>"

text \<open>The old replica set has template \<^verbatim>\<open>a\<close> and the new one \<^verbatim>\<open>b\<close>, of which the deployment wants one pod.\<close>

definition web_state :: "int \<Rightarrow> int \<Rightarrow> Pod list \<Rightarrow> (Pod list, unit) dep_state" where
  "web_state a b pods = \<lparr>ds_client = pods, ds_memory = [web_rs ''a'' a, web_rs ''b'' b], ds_deployment = web_deployment,
     ds_queue = workqueue_New, ds_events = []\<rparr>"

section \<open>The pods a replica set has\<close>

lemma web_requirement:
  "v \<in> {''a'', ''b''} \<Longrightarrow> NewRequirement pf ''app'' InOperator {v} = Inr \<lparr>req_key = ''app'', operator = InOperator, strValues = {v}\<rparr>"
  by (auto simp: NewRequirement_def validateLabelKey_def validateLabelValue_def IsQualifiedName_def
      MatchString_QualifiedName bounded_by_def qnameCharFmt_def qnameExtCharFmt_def az_def AZ_def digit09_def
      sets_Len_def IsValidLabelValue_iff operatorValues_def split: option.split)

lemma web_drs_selector:
  assumes "v \<in> {''a'', ''b''}"
  shows "drs_selector web_env (Some (web_selector v)) = Inr (Internal [\<lparr>req_key = ''app'', operator = InOperator, strValues = {v}\<rparr>])"
proof -
  have "sorted_range [''app'' \<mapsto> v] = [(''app'', v)]" by (simp add: sorted_range_def)
  then show ?thesis
    by (simp add: drs_selector_def web_env_def web_selector_def LabelSelectorAsSelector_def sets_NewString_def
        web_requirement [OF assms] NewSelector_def)
qed

lemma web_pods_list:
  assumes "v \<in> {''a'', ''b''}" and "\<forall>p \<in> set k. \<exists>n w. p = web_pod n w"
  shows "Pods_List (cl web_env) ''ns'' (Internal [\<lparr>req_key = ''app'', operator = InOperator, strValues = {v}\<rparr>]) k
    = Inr (filter (\<lambda>p. pod_Labels p = [''app'' \<mapsto> v]) k)"
proof -
  have "filter (\<lambda>p. pod_Namespace p = ''ns'' \<and> Selector_Matches (\<lambda>_. None :: nat option) (>)
      (Internal [\<lparr>req_key = ''app'', operator = InOperator, strValues = {v}\<rparr>]) (pod_Labels p)) k
    = filter (\<lambda>p. pod_Labels p = [''app'' \<mapsto> v]) k"
    using assms(2)
    by (intro filter_cong refl)
      (auto simp: web_pod_def Requirement_Matches_def Set_Has_def Set_Get_def sets_Has_def dest: fun_cong [of _ _ "''app''"])
  then show ?thesis by (simp add: web_env_def web_server_def)
qed

definition pod_a :: Pod where "pod_a = web_pod ''1'' ''a''"
definition pod_b :: Pod where "pod_b = web_pod ''2'' ''b''"

lemma web_pod_simps:
  "pod_Labels pod_a = [''app'' \<mapsto> ''a'']" "pod_Labels pod_b = [''app'' \<mapsto> ''b'']"
  "pod_Name pod_a = ''1''" "pod_Name pod_b = ''2''" "IsPodAvailable 0 0 pod_a" "IsPodAvailable 0 0 pod_b"
  by (simp_all add: pod_a_def pod_b_def web_pod_def IsPodAvailable_def IsPodActive_def)

lemma web_other_label: "[''app'' \<mapsto> ''a''] \<noteq> [''app'' \<mapsto> ''b'']" "[''app'' \<mapsto> ''b''] \<noteq> [''app'' \<mapsto> ''a'']"
  by (auto dest: fun_cong [of _ _ "''app''"])

lemma web_rs_simps:
  "ds_memory (web_state a b k) ! 0 = web_rs ''a'' a" "ds_memory (web_state a b k) ! 1 = web_rs ''b'' b"
  "ds_memory (web_state a b k) ! Suc 0 = web_rs ''b'' b" "ds_client (web_state a b k) = k"
  "ds_deployment (web_state a b k) = web_deployment" "length (ds_memory (web_state a b k)) = 2"
  "rs_Replicas (web_rs v n) = n" "rs_Selector (web_rs v n) = Some (web_selector v)" "rs_Namespace (web_rs v n) = ''ns''"
  by (simp_all add: web_state_def web_rs_def)

lemma web_gather:
  assumes "\<forall>p \<in> set k. p = pod_a \<or> p = pod_b"
  shows "gather_pods web_env k (ds_memory (web_state a b k)) [Some 0] m
      = Inr (fold (\<lambda>pod m. m(pod_Name pod \<mapsto> pod)) (filter (\<lambda>p. pod_Labels p = [''app'' \<mapsto> ''a'']) k) m)"
    and "gather_pods web_env k (ds_memory (web_state a b k)) [Some 1] m
      = Inr (fold (\<lambda>pod m. m(pod_Name pod \<mapsto> pod)) (filter (\<lambda>p. pod_Labels p = [''app'' \<mapsto> ''b'']) k) m)"
    and "gather_pods web_env k (ds_memory (web_state a b k)) [Some 0, Some 1] m
      = Inr (fold (\<lambda>pod m. m(pod_Name pod \<mapsto> pod)) (filter (\<lambda>p. pod_Labels p = [''app'' \<mapsto> ''b'']) k)
          (fold (\<lambda>pod m. m(pod_Name pod \<mapsto> pod)) (filter (\<lambda>p. pod_Labels p = [''app'' \<mapsto> ''a'']) k) m))"
proof -
  have k: "\<forall>p \<in> set k. \<exists>n w. p = web_pod n w" using assms unfolding pod_a_def pod_b_def by blast
  note [simp] = web_rs_simps web_drs_selector web_pods_list [OF _ k]
  show "gather_pods web_env k (ds_memory (web_state a b k)) [Some 0] m
      = Inr (fold (\<lambda>pod m. m(pod_Name pod \<mapsto> pod)) (filter (\<lambda>p. pod_Labels p = [''app'' \<mapsto> ''a'']) k) m)"
    "gather_pods web_env k (ds_memory (web_state a b k)) [Some 1] m
      = Inr (fold (\<lambda>pod m. m(pod_Name pod \<mapsto> pod)) (filter (\<lambda>p. pod_Labels p = [''app'' \<mapsto> ''b'']) k) m)"
    "gather_pods web_env k (ds_memory (web_state a b k)) [Some 0, Some 1] m
      = Inr (fold (\<lambda>pod m. m(pod_Name pod \<mapsto> pod)) (filter (\<lambda>p. pod_Labels p = [''app'' \<mapsto> ''b'']) k)
          (fold (\<lambda>pod m. m(pod_Name pod \<mapsto> pod)) (filter (\<lambda>p. pod_Labels p = [''app'' \<mapsto> ''a'']) k) m))"
    by simp_all
qed

lemma web_available:
  assumes "gather_pods web_env k h ps Map.empty = Inr m" and "\<forall>p \<in> ran m. p = pod_a \<or> p = pod_b" and "finite (dom m)"
  shows "GetAvailablePodsForReplicaSets web_env k h ps 0 = Inr (int (card (dom m)))"
proof -
  have "set (map snd (sorted_range m)) \<subseteq> ran m"
    using assms(3) by (auto simp: sorted_range_def ran_def)
  then have "filter (IsPodAvailable 0 0) (map snd (sorted_range m)) = map snd (sorted_range m)"
    using assms(2) web_pod_simps(5,6) by (intro filter_True) (metis subsetD)
  moreover have "length (sorted_range m) = card (dom m)" by (simp add: sorted_range_def)
  ultimately show ?thesis
    by (simp add: GetAvailablePodsForReplicaSets_def GetPodsForReplicaSets_def assms(1) getReadyPodsCount_length web_env_simps)
qed

text \<open>The replica sets of the states below have the pods they want.\<close>

lemma web_available_states:
  "GetAvailablePodsForReplicaSets web_env [pod_a] (ds_memory (web_state a b [pod_a])) [Some 0] 0 = Inr 1"
  "GetAvailablePodsForReplicaSets web_env [pod_a] (ds_memory (web_state a b [pod_a])) [Some 1] 0 = Inr 0"
  "GetAvailablePodsForReplicaSets web_env [pod_a] (ds_memory (web_state a b [pod_a])) [Some 0, Some 1] 0 = Inr 1"
  "GetAvailablePodsForReplicaSets web_env [pod_a, pod_b] (ds_memory (web_state a b [pod_a, pod_b])) [Some 0] 0 = Inr 1"
  "GetAvailablePodsForReplicaSets web_env [pod_a, pod_b] (ds_memory (web_state a b [pod_a, pod_b])) [Some 1] 0 = Inr 1"
  "GetAvailablePodsForReplicaSets web_env [pod_a, pod_b] (ds_memory (web_state a b [pod_a, pod_b])) [Some 0, Some 1] 0 = Inr 2"
  "GetAvailablePodsForReplicaSets web_env [pod_b] (ds_memory (web_state a b [pod_b])) [Some 1] 0 = Inr 1"
  by (subst web_available, rule web_gather; auto simp: web_pod_simps web_other_label ran_def split: if_splits)+

lemma web_deployment_simps:
  "d_StrategyType web_deployment = RollingUpdateDeploymentStrategyType" "d_Replicas web_deployment = 1" "d_MinReadySeconds web_deployment = 0"
  "MaxSurge (d_RollingUpdate web_deployment) = IntVal 1" "MaxUnavailable (d_RollingUpdate web_deployment) = IntVal 0"
  by (simp_all add: web_deployment_def RollingUpdateDeploymentStrategyType_def)

lemma web_fenceposts:
  "GetValueFromIntOrPercent (IntVal 1) d True = Inr 1" "ResolveFenceposts (IntVal 1) (IntVal 0) d = Inr (1, 0)"
  by (simp_all add: ResolveFenceposts_def GetValueFromIntOrPercent_def getIntOrPercentValue_def)

lemma web_replicas_ok:
  "0 \<le> a \<Longrightarrow> 0 \<le> b \<Longrightarrow> a + b \<le> 2 ^ 40 \<Longrightarrow> replicas_ok (ds_memory (web_state a b k)) [0, 1]"
  by (simp add: replicas_ok_def web_rs_simps)

end
