(* ===== verification/Deployment_Scale.thy ===== *)
theory Deployment_Scale
  imports Deployment_Example
begin

text \<open>
  How a rolling update scales: the new replica set stays within the surge, and scaling the old ones down keeps
  the minimum of pods available, whatever the client answers.
\<close>

section \<open>The surge\<close>

lemma replica_sum_scaled_other:
  assumes "p \<notin> set ps"
  shows "replica_sum (scaled p n h) ps = replica_sum h ps"
proof (cases "p < length h")
  case True
  then have "map (\<lambda>q. rs_Replicas (scaled p n h ! q)) ps = map (\<lambda>q. rs_Replicas (h ! q)) ps"
    using assms by (auto simp: scaled_nth)
  then show ?thesis unfolding replica_sum_def by (rule arg_cong)
qed (simp add: scaled_def list_update_beyond)

lemma replica_sum_scaled:
  assumes "distinct ps" and "p \<in> set ps" and "p < length h"
  shows "replica_sum (scaled p n h) ps = replica_sum h ps - rs_Replicas (h ! p) + n"
proof -
  obtain qs rs where "ps = qs @ p # rs" using assms(2) by (meson split_list)
  then show ?thesis using assms(1,3) by (simp add: replica_sum_scaled_other scaled_nth)
qed

text \<open>The size the new replica set gets: what the surge leaves room for.\<close>

definition new_size :: "int \<Rightarrow> int \<Rightarrow> int \<Rightarrow> int \<Rightarrow> int" where
  "new_size desired surge current new =
     (if new > desired then desired else new + min (max 0 (desired + surge - current)) (desired - new))"

lemma NewRSNewReplicas_size:
  assumes "d_StrategyType d = RollingUpdateDeploymentStrategyType"
    and "GetValueFromIntOrPercent (MaxSurge (d_RollingUpdate d)) (d_Replicas d) True = Inr surge"
    and "replicas_ok h ps" and "new \<in> set ps" and "rs_Replicas (h ! new) \<le> d_Replicas d"
    and "0 \<le> surge" "surge \<le> 2 ^ 40" "d_Replicas d \<le> 2 ^ 40"
  shows "NewRSNewReplicas d h (map Some ps) (h ! new)
    = Inr (new_size (d_Replicas d) surge (replica_sum h ps) (rs_Replicas (h ! new)))"
proof -
  note b = replicas_ok_bounds [OF assms(3)] replicas_ok_bounds(3) [OF assms(3,4)]
  have g: "go_int (d_Replicas d + surge) = d_Replicas d + surge"
    "go_int (d_Replicas d + surge - replica_sum h ps) = d_Replicas d + surge - replica_sum h ps"
    "go_int (d_Replicas d - rs_Replicas (h ! new)) = d_Replicas d - rs_Replicas (h ! new)"
    using b assms(5-8) by (auto intro!: go_int_id)
  have "go_int (rs_Replicas (h ! new) + min (d_Replicas d + surge - replica_sum h ps) (d_Replicas d - rs_Replicas (h ! new)))
    = rs_Replicas (h ! new) + min (d_Replicas d + surge - replica_sum h ps) (d_Replicas d - rs_Replicas (h ! new))"
    using b assms(5-8) by (auto intro!: go_int_id)
  then show ?thesis
    using assms(5) by (auto simp: NewRSNewReplicas_def assms(1,2) GetReplicaCount_sum [OF assms(3)] Let_def g new_size_def IntMin_def min_def max_def)
qed

lemma reconcileNew_memory:
  assumes "d_StrategyType (ds_deployment s) = RollingUpdateDeploymentStrategyType"
    and "GetValueFromIntOrPercent (MaxSurge (d_RollingUpdate (ds_deployment s))) (d_Replicas (ds_deployment s)) True = Inr surge"
    and "replicas_ok (ds_memory s) ps" and "new \<in> set ps"
    and "0 \<le> surge" "surge \<le> 2 ^ 40" "0 \<le> d_Replicas (ds_deployment s)" "d_Replicas (ds_deployment s) \<le> 2 ^ 40"
  shows "reconcileNewReplicaSet env (map Some ps) new s =
    scaleReplicaSetAndRecordEvent env new
      (new_size (d_Replicas (ds_deployment s)) surge (replica_sum (ds_memory s) ps) (rs_Replicas (the_rs s new))) s"
proof (cases "rs_Replicas (the_rs s new) < d_Replicas (ds_deployment s)")
  case True
  then show ?thesis
    using NewRSNewReplicas_size [OF assms(1,2,3,4) _ assms(5,6,8)] by (simp add: reconcileNewReplicaSet_def Let_def)
next
  case False
  then show ?thesis by (auto simp: reconcileNewReplicaSet_def Let_def new_size_def scaleReplicaSetAndRecordEvent_def)
qed

text \<open>
  C6: Scaling the new replica set of a rolling update changes no other replica set, whatever the client answers: it
  shrinks to the desired size or grows towards it, and the pods wanted altogether exceed neither the desired size plus the
  surge nor, when they already do, what they were.  It grows whenever there is room.
\<close>

theorem new_replicas_within_surge:
  assumes "d_StrategyType (ds_deployment s) = RollingUpdateDeploymentStrategyType"
    and "GetValueFromIntOrPercent (MaxSurge (d_RollingUpdate (ds_deployment s))) (d_Replicas (ds_deployment s)) True = Inr surge"
    and "replicas_ok (ds_memory s) ps" and "new \<in> set ps"
    and "0 \<le> surge" "surge \<le> 2 ^ 40" "0 \<le> d_Replicas (ds_deployment s)" "d_Replicas (ds_deployment s) \<le> 2 ^ 40"
    and "reconcileNewReplicaSet env (map Some ps) new s = (r, s')"
  defines "D \<equiv> d_Replicas (ds_deployment s)" and "N \<equiv> rs_Replicas (the_rs s new)" and "T \<equiv> replica_sum (ds_memory s) ps"
  shows "\<exists>N'. ds_memory s' = (ds_memory s)[new := (the_rs s new)\<lparr>rs_Replicas := N'\<rparr>]
    \<and> (if N > D then N' = D else N \<le> N' \<and> N' \<le> D)
    \<and> replica_sum (ds_memory s') ps \<le> max T (D + surge)
    \<and> (N < D \<and> T < D + surge \<longrightarrow> N < N')"
proof -
  have m: "ds_memory s' = scaled new (new_size D surge T N) (ds_memory s)"
    using assms(9) scale_memory unfolding reconcileNew_memory [OF assms(1-8)] D_def N_def T_def by blast
  have "replica_sum (ds_memory s') ps = T - N + new_size D surge T N"
    using replica_sum_scaled [of ps new "ds_memory s"] assms(3,4) unfolding m T_def N_def by (simp add: replicas_ok_def)
  then show ?thesis
    using assms(5,7) m unfolding scaled_def
    by (intro exI [of _ "new_size D surge T N"]) (auto simp: new_size_def)
qed

theorem new_replicas_within_surge_witness:
  "ds_memory (snd (reconcileNewReplicaSet web_env (map Some [0, 1]) 1 (web_state 1 0 [pod_a])))
     = [web_rs ''a'' 1, (web_rs ''b'' 0)\<lparr>rs_Replicas := 1\<rparr>]"
proof -
  let ?s = "web_state 1 0 [pod_a]"
  obtain r s' where rec: "reconcileNewReplicaSet web_env (map Some [0, 1]) 1 ?s = (r, s')" by fastforce
  note eval = web_rs_simps web_deployment_simps web_fenceposts
  obtain N' where N': "ds_memory s' = (ds_memory ?s)[1 := (the_rs ?s 1)\<lparr>rs_Replicas := N'\<rparr>]" "0 < N'" "N' \<le> 1"
    using new_replicas_within_surge [where s = ?s and surge = 1, OF _ _ web_replicas_ok _ _ _ _ _ rec] by (auto simp: eval)
  then have "N' = 1" by simp
  then have "ds_memory s' = [web_rs ''a'' 1, (web_rs ''b'' 0)\<lparr>rs_Replicas := 1\<rparr>]" using N'(1) by (simp add: web_state_def)
  then show ?thesis unfolding rec snd_conv .
qed

section \<open>What scaling leaves alone\<close>

text \<open>The API server gives the same pods after an update of a replica set: they are deleted later.\<close>

definition pods_stay :: "('f, 'k, 'sp) dep_env \<Rightarrow> bool" where
  "pods_stay env \<longleftrightarrow> (\<forall>rs k ns selector.
     Pods_List (cl env) ns selector (snd (RS_Update (cl env) rs k)) = Pods_List (cl env) ns selector k)"

definition same_pods :: "('f, 'k, 'sp) dep_env \<Rightarrow> ('k, 'sp) dep_state \<Rightarrow> ('k, 'sp) dep_state \<Rightarrow> bool" where
  "same_pods env s s' \<longleftrightarrow>
     (\<forall>ns selector. Pods_List (cl env) ns selector (ds_client s') = Pods_List (cl env) ns selector (ds_client s))
     \<and> (\<forall>p. rs_Selector (the_rs s' p) = rs_Selector (the_rs s p) \<and> rs_Namespace (the_rs s' p) = rs_Namespace (the_rs s p))
     \<and> length (ds_memory s') = length (ds_memory s) \<and> ds_deployment s' = ds_deployment s"

lemma same_pods_refl [simp]: "same_pods env s s"
  by (simp add: same_pods_def)

lemma same_pods_trans: "same_pods env s t \<Longrightarrow> same_pods env t u \<Longrightarrow> same_pods env s u"
  by (simp add: same_pods_def)

lemma scaled_selector:
  "rs_Selector (scaled p n h ! q) = rs_Selector (h ! q) \<and> rs_Namespace (scaled p n h ! q) = rs_Namespace (h ! q)"
  by (cases "p < length h") (simp_all add: scaled_def list_update_beyond nth_list_update)

lemma scale_client:
  assumes "pods_stay env" and "scaleReplicaSetAndRecordEvent env p n s = (r, s')"
  shows "Pods_List (cl env) ns selector (ds_client s') = Pods_List (cl env) ns selector (ds_client s)"
proof -
  have "ds_client s' = ds_client s \<or> (\<exists>rs x. RS_Update (cl env) rs (ds_client s) = (x, ds_client s'))"
    using assms(2)
    by (auto simp: scaleReplicaSetAndRecordEvent_def scaleReplicaSet_def record_event_def Let_def split: if_splits sum.splits prod.splits)
  then show ?thesis using assms(1) unfolding pods_stay_def by (metis snd_conv)
qed

lemma scale_same_pods:
  "pods_stay env \<Longrightarrow> scaleReplicaSetAndRecordEvent env p n s = (r, s') \<Longrightarrow> same_pods env s s'"
  using scale_memory [of env p n s r s'] by (simp add: same_pods_def scale_client scaled_selector)

lemma gather_pods_same:
  assumes "same_pods env s s'"
  shows "gather_pods env (ds_client s') (ds_memory s') ps acc = gather_pods env (ds_client s) (ds_memory s) ps acc"
proof (induction ps arbitrary: acc)
  case (Cons p ps)
  then show ?case using assms by (cases p) (simp_all add: same_pods_def split: sum.split)
qed simp

lemma available_same:
  "same_pods env s s' \<Longrightarrow> GetAvailablePodsForReplicaSets env (ds_client s') (ds_memory s') ps m
    = GetAvailablePodsForReplicaSets env (ds_client s) (ds_memory s) ps m"
  by (simp add: GetAvailablePodsForReplicaSets_def GetPodsForReplicaSets_def gather_pods_same)

section \<open>Counting available pods\<close>

lemma IsPodAvailable_ready: "IsPodAvailable now m pod \<Longrightarrow> IsPodAvailable now 0 pod"
  by (auto simp: IsPodAvailable_def list_ex_iff split: if_splits)

lemma available_le_ready:
  assumes "GetAvailablePodsForReplicaSets env k h ps m = Inr a" and "GetAvailablePodsForReplicaSets env k h ps 0 = Inr b"
  shows "0 \<le> a" and "a \<le> b"
proof -
  have "length (filter (IsPodAvailable now m) pods) \<le> length (filter (IsPodAvailable now 0) pods)" for now pods
    by (induction pods) (auto dest: IsPodAvailable_ready)
  then show "0 \<le> a" "a \<le> b"
    using assms by (auto simp: GetAvailablePodsForReplicaSets_def getReadyPodsCount_length split: sum.splits)
qed

lemma web_pods_stay: "pods_stay web_env"
  by (simp add: pods_stay_def web_env_simps)

end
