(* ===== verification/Deployment_Avail.thy ===== *)
theory Deployment_Avail
  imports Deployment_Scale
begin

text \<open>Scaling the old replica sets down keeps the minimum of pods available, also when a step fails.\<close>

section \<open>One step\<close>

text \<open>Replica sets outside of \<open>ps\<close> stay as they are, and none grows.\<close>

definition shrunk :: "rs_ref list \<Rightarrow> ('k, 'sp) dep_state \<Rightarrow> ('k, 'sp) dep_state \<Rightarrow> bool" where
  "shrunk ps s s' \<longleftrightarrow> (\<forall>q. rs_Replicas (the_rs s' q) \<le> rs_Replicas (the_rs s q)) \<and> (\<forall>q. q \<notin> set ps \<longrightarrow> the_rs s' q = the_rs s q)"

lemma shrunk_refl [simp]: "shrunk ps s s"
  by (simp add: shrunk_def)

lemma shrunk_trans: "shrunk ps s t \<Longrightarrow> shrunk qs t u \<Longrightarrow> set ps \<subseteq> set rs \<Longrightarrow> set qs \<subseteq> set rs \<Longrightarrow> shrunk rs s u"
  unfolding shrunk_def by (metis order_trans subsetD)

lemma shrunk_subset: "shrunk ps s s' \<Longrightarrow> set ps \<subseteq> set qs \<Longrightarrow> shrunk qs s s'"
  unfolding shrunk_def by blast

lemma scale_step:
  assumes "pods_stay env" and "scaleReplicaSetAndRecordEvent env p n s = (r, s')" and "p < length (ds_memory s)"
  shows "same_pods env s s'" and "rs_Replicas (the_rs s' p) = n" and "q \<noteq> p \<Longrightarrow> the_rs s' q = the_rs s q"
    and "n \<le> rs_Replicas (the_rs s p) \<Longrightarrow> shrunk [p] s s'"
  using scale_same_pods [OF assms(1,2)] scale_memory [OF assms(2)] scaled_nth [OF assms(3)]
  by (simp_all add: shrunk_def)

section \<open>Cleaning up unhealthy replicas\<close>

definition ready_fits :: "('f, 'k, 'sp) dep_env \<Rightarrow> (rs_ref \<Rightarrow> int) \<Rightarrow> rs_ref list \<Rightarrow> ('k, 'sp) dep_state \<Rightarrow> bool" where
  "ready_fits env ready ps s \<longleftrightarrow> (\<forall>q \<in> set ps. q < length (ds_memory s)
     \<and> GetAvailablePodsForReplicaSets env (ds_client s) (ds_memory s) [Some q] 0 = Inr (ready q)
     \<and> 0 \<le> ready q \<and> ready q \<le> rs_Replicas (the_rs s q) \<and> rs_Replicas (the_rs s q) \<le> 2 ^ 40)"

lemma ready_fits_step:
  assumes "ready_fits env ready ps s" and "same_pods env s s'" and "shrunk ps s s'"
    and "\<And>q. q \<in> set ps \<Longrightarrow> ready q \<le> rs_Replicas (the_rs s' q)"
  shows "ready_fits env ready ps s'"
  unfolding ready_fits_def
proof (intro ballI)
  fix q assume q: "q \<in> set ps"
  have "rs_Replicas (the_rs s' q) \<le> rs_Replicas (the_rs s q)" using assms(3) by (simp add: shrunk_def)
  then show "q < length (ds_memory s')
     \<and> GetAvailablePodsForReplicaSets env (ds_client s') (ds_memory s') [Some q] 0 = Inr (ready q)
     \<and> 0 \<le> ready q \<and> ready q \<le> rs_Replicas (the_rs s' q) \<and> rs_Replicas (the_rs s' q) \<le> 2 ^ 40"
    using bspec [OF assms(1) [unfolded ready_fits_def] q] assms(4) [OF q] assms(2)
    unfolding available_same [OF assms(2)] by (auto simp: same_pods_def)
qed

lemma ready_fits_Cons:
  assumes "ready_fits env ready (p # ps) s" and "same_pods env s s'" and "shrunk ps s s'" and "ready_fits env ready ps s'"
  shows "ready_fits env ready (p # ps) s'"
proof (rule ready_fits_step [OF assms(1,2)])
  show "shrunk (p # ps) s s'" using shrunk_subset [OF assms(3), of "p # ps"] by auto
  show "ready q \<le> rs_Replicas (the_rs s' q)" if "q \<in> set (p # ps)" for q
    using that assms(1,3,4) by (cases "q \<in> set ps") (auto simp: ready_fits_def shrunk_def)
qed

lemma cleanup_loop:
  assumes "pods_stay env" and "cleanup_unhealthy_loop env c ps t s = (r, s')"
    and "ready_fits env ready ps s" and "0 \<le> t" and "c \<le> 2 ^ 42"
  shows "same_pods env s s' \<and> shrunk ps s s' \<and> ready_fits env ready ps s'"
  using assms(2-4)
proof (induction ps arbitrary: t s)
  case Nil
  then show ?case by simp
next
  case (Cons p ps)
  let ?R = "rs_Replicas (the_rs s p)"
  have p: "p < length (ds_memory s)" "0 \<le> ready p" "ready p \<le> ?R" "?R \<le> 2 ^ 40"
    and avail: "GetAvailablePodsForReplicaSets env (ds_client s) (ds_memory s) [Some p] 0 = Inr (ready p)"
    and rest: "ready_fits env ready ps s" using Cons.prems(2) by (auto simp: ready_fits_def)
  show ?case
  proof (cases "t \<ge> c \<or> ?R = 0 \<or> ?R = ready p")
    case True
    consider "t \<ge> c" | "cleanup_unhealthy_loop env c ps t s = (r, s')"
      using True Cons.prems(1) avail by (auto split: if_splits)
    then show ?thesis
    proof cases
      case 1
      then show ?thesis using Cons.prems(1,2) by simp
    next
      case 2
      have ih: "same_pods env s s'" "shrunk ps s s'" "ready_fits env ready ps s'"
        using Cons.IH [OF 2 rest Cons.prems(3)] by simp_all
      then show ?thesis
        using ready_fits_Cons [OF Cons.prems(2) ih] shrunk_subset [OF ih(2), of "p # ps"] by auto
    qed
  next
    case False
    define m where "m = min (c - t) (?R - ready p)"
    have m: "0 < m" "m \<le> ?R - ready p" "m \<le> c - t" using False p by (simp_all add: m_def)
    have g: "go_int (c - t) = c - t" "go_int (?R - ready p) = ?R - ready p" "go_int (?R - m) = ?R - m" "go_int (t + m) = t + m"
      using p m Cons.prems(3) assms(5) by (auto intro!: go_int_id)
    have i: "IntMin (c - t) (?R - ready p) = m" by (simp add: IntMin_def m_def min_def)
    obtain r1 s1 where sc: "scaleReplicaSetAndRecordEvent env p (?R - m) s = (r1, s1)" by fastforce
    note st = scale_step [OF assms(1) sc p(1)]
    have sh: "shrunk (p # ps) s s1" using m(1) shrunk_subset [OF st(4), of "p # ps"] by simp
    have up: "ready q \<le> rs_Replicas (the_rs s1 q)" if "q \<in> set (p # ps)" for q
      using that Cons.prems(2) st(2,3) m(2) by (cases "q = p") (auto simp: ready_fits_def)
    have fits: "ready_fits env ready (p # ps) s1" by (rule ready_fits_step [OF Cons.prems(2) st(1) sh up])
    have next_step: "cleanup_unhealthy_loop env c (p # ps) t s =
      (case r1 of Inl err \<Rightarrow> (Inl err, s1) | Inr b \<Rightarrow> cleanup_unhealthy_loop env c ps (t + m) s1)"
      using False avail by (simp add: g i sc Let_def split: sum.split)
    show ?thesis
    proof (cases r1)
      case (Inl err)
      then show ?thesis using Cons.prems(1) next_step st(1) sh fits by simp
    next
      case (Inr b)
      have "ready_fits env ready ps s1" using fits by (simp add: ready_fits_def)
      then have ih: "same_pods env s1 s'" "shrunk ps s1 s'" "ready_fits env ready ps s'"
        using Cons.IH [of "t + m" s1] Cons.prems(1,3) next_step Inr m by simp_all
      then show ?thesis
        using ready_fits_Cons [OF fits ih] same_pods_trans [OF st(1) ih(1)] shrunk_trans [OF sh ih(2), of "p # ps"] by auto
    qed
  qed
qed

section \<open>Scaling healthy replicas down\<close>

definition sizes_fit :: "rs_ref list \<Rightarrow> ('k, 'sp) dep_state \<Rightarrow> bool" where
  "sizes_fit ps s \<longleftrightarrow> (\<forall>q \<in> set ps. q < length (ds_memory s) \<and> 0 \<le> rs_Replicas (the_rs s q) \<and> rs_Replicas (the_rs s q) \<le> 2 ^ 40)"

lemma replica_sum_cong: "(\<And>q. q \<in> set ps \<Longrightarrow> h ! q = h' ! q) \<Longrightarrow> replica_sum h ps = replica_sum h' ps"
  unfolding replica_sum_def by (metis (mono_tags, lifting) map_cong)

lemma replica_sum_perm: "mset qs' = mset qs \<Longrightarrow> replica_sum h qs' = replica_sum h qs"
  unfolding replica_sum_def by (metis mset_map sum_mset_sum_list)

lemma scale_down_bound:
  assumes "pods_stay env" and "scale_down_loop env c ps t s = (r, s')"
    and "distinct ps" and "sizes_fit ps s" and "0 \<le> t" and "c \<le> 2 ^ 42"
  shows "same_pods env s s' \<and> shrunk ps s s' \<and> sizes_fit ps s'
    \<and> replica_sum (ds_memory s) ps - replica_sum (ds_memory s') ps \<le> max 0 (c - t)"
  using assms(2-5)
proof (induction ps arbitrary: t s)
  case Nil
  then show ?case by simp
next
  case (Cons p ps)
  let ?R = "rs_Replicas (the_rs s p)"
  have p: "p < length (ds_memory s)" "0 \<le> ?R" "?R \<le> 2 ^ 40" "p \<notin> set ps" "distinct ps"
    and rest: "sizes_fit ps s" using Cons.prems(2,3) by (auto simp: sizes_fit_def)
  consider "t \<ge> c" | "t < c" "?R = 0" | "t < c" "?R \<noteq> 0" by linarith
  then show ?case
  proof cases
    case 1
    then show ?thesis using Cons.prems(1,3) by simp
  next
    case 2
    have ih: "same_pods env s s'" "shrunk ps s s'" "sizes_fit ps s'"
      "replica_sum (ds_memory s) ps - replica_sum (ds_memory s') ps \<le> max 0 (c - t)"
      using Cons.IH [of t s] Cons.prems(1,4) 2 p(5) rest by simp_all
    moreover have "the_rs s' p = the_rs s p" using ih(2) p(4) by (simp add: shrunk_def)
    moreover have "shrunk (p # ps) s s'" using shrunk_subset [OF ih(2), of "p # ps"] by auto
    ultimately show ?thesis using p by (simp add: sizes_fit_def same_pods_def)
  next
    case 3
    define m where "m = min ?R (c - t)"
    have m: "0 < m" "m \<le> ?R" "m \<le> c - t" using 3 p(2) by (simp_all add: m_def)
    have g: "go_int (c - t) = c - t" "go_int (?R - m) = ?R - m" "go_int (t + m) = t + m"
      using p m Cons.prems(4) assms(6) by (auto intro!: go_int_id)
    have i: "IntMin ?R (c - t) = m" by (simp add: IntMin_def m_def min_def)
    obtain r1 s1 where sc: "scaleReplicaSetAndRecordEvent env p (?R - m) s = (r1, s1)" by fastforce
    note st = scale_step [OF assms(1) sc p(1)]
    have other: "the_rs s1 q = the_rs s q" if "q \<in> set ps" for q by (rule st(3)) (use p(4) that in auto)
    have "shrunk (p # ps) s s1" using m(1) shrunk_subset [OF st(4), of "p # ps"] by simp
    moreover have "sizes_fit (p # ps) s1"
      using Cons.prems(3) st(1,2) m other unfolding sizes_fit_def by (simp add: same_pods_def)
    moreover have "replica_sum (ds_memory s1) ps = replica_sum (ds_memory s) ps" by (rule replica_sum_cong) (rule other)
    ultimately have s1: "shrunk (p # ps) s s1" "sizes_fit (p # ps) s1"
      "replica_sum (ds_memory s1) ps = replica_sum (ds_memory s) ps" .
    have next_step: "scale_down_loop env c (p # ps) t s =
      (case r1 of Inl err \<Rightarrow> (Inl err, s1) | Inr b \<Rightarrow> scale_down_loop env c ps (t + m) s1)"
      using 3 by (simp add: g i sc Let_def split: sum.split)
    show ?thesis
    proof (cases r1)
      case (Inl err)
      then show ?thesis using Cons.prems(1) next_step st(1,2) s1 m by simp
    next
      case (Inr b)
      have ih: "same_pods env s1 s'" "shrunk ps s1 s'" "sizes_fit ps s'"
        "replica_sum (ds_memory s1) ps - replica_sum (ds_memory s') ps \<le> max 0 (c - (t + m))"
        using Cons.IH [of "t + m" s1] Cons.prems(1,4) next_step Inr m s1(2) p(5) by (simp_all add: sizes_fit_def)
      moreover have "the_rs s' p = the_rs s1 p" using ih(2) p(4) by (simp add: shrunk_def)
      moreover have "shrunk (p # ps) s s'" using shrunk_trans [OF s1(1) ih(2), of "p # ps"] by auto
      ultimately show ?thesis
        using same_pods_trans [OF st(1) ih(1)] s1 m st(2) by (simp add: sizes_fit_def same_pods_def)
    qed
  qed
qed

section \<open>The minimum of available pods\<close>

lemma min_sum_bound:
  assumes "\<forall>q \<in> set ps. a q \<le> rs_Replicas (h ! q) \<and> rs_Replicas (h' ! q) \<le> rs_Replicas (h ! q)"
  shows "(\<Sum>q \<leftarrow> ps. a q) - (replica_sum h ps - replica_sum h' ps) \<le> (\<Sum>q \<leftarrow> ps. min (a q) (rs_Replicas (h' ! q)))"
  using assms
proof (induction ps)
  case (Cons p ps)
  then have "a p - (rs_Replicas (h ! p) - rs_Replicas (h' ! p)) \<le> min (a p) (rs_Replicas (h' ! p))" by simp
  moreover have "(\<Sum>q \<leftarrow> ps. a q) - (replica_sum h ps - replica_sum h' ps) \<le> (\<Sum>q \<leftarrow> ps. min (a q) (rs_Replicas (h' ! q)))"
    using Cons by simp
  ultimately show ?case unfolding replica_sum_Cons list.map sum_list.Cons by linarith
qed simp

text \<open>
  \<open>avail\<close> and \<open>ready\<close> are the numbers of pods that have been ready for long enough and that are ready now,
  of each replica set; the pods of different replica sets are different, and none has more ready pods than it wants.
  The code does not guarantee the last condition, and needs it: the cleanup has no guard for a replica set with more
  ready pods than it wants, and scales it up (\<open>cleanup_can_scale_up\<close>).
\<close>

definition pods_counted ::
  "('f, 'k, 'sp) dep_env \<Rightarrow> (rs_ref \<Rightarrow> int) \<Rightarrow> (rs_ref \<Rightarrow> int) \<Rightarrow> rs_ref list \<Rightarrow> ('k, 'sp) dep_state \<Rightarrow> bool" where
  "pods_counted env avail ready ps s \<longleftrightarrow>
     (\<forall>q \<in> set ps.
        GetAvailablePodsForReplicaSets env (ds_client s) (ds_memory s) [Some q] (d_MinReadySeconds (ds_deployment s)) = Inr (avail q)
        \<and> GetAvailablePodsForReplicaSets env (ds_client s) (ds_memory s) [Some q] 0 = Inr (ready q)
        \<and> ready q \<le> rs_Replicas (the_rs s q))
     \<and> GetAvailablePodsForReplicaSets env (ds_client s) (ds_memory s) (map Some ps) (d_MinReadySeconds (ds_deployment s))
         = Inr (\<Sum>q \<leftarrow> ps. avail q)"

lemma pods_counted_le:
  assumes "pods_counted env avail ready ps s" and "q \<in> set ps"
  shows "0 \<le> avail q" and "avail q \<le> ready q" and "ready q \<le> rs_Replicas (the_rs s q)"
  using assms available_le_ready [of env "ds_client s" "ds_memory s" "[Some q]" "d_MinReadySeconds (ds_deployment s)" "avail q" "ready q"]
  by (auto simp: pods_counted_def)

lemma pods_counted_sum: "pods_counted env avail ready ps s \<Longrightarrow>
    0 \<le> (\<Sum>q \<leftarrow> ps. avail q) \<and> (\<Sum>q \<leftarrow> ps. avail q) \<le> replica_sum (ds_memory s) ps"
  unfolding replica_sum_def using pods_counted_le [of env avail ready ps s]
  by (intro conjI sum_list_nonneg sum_list_mono) (auto intro: order_trans)

lemma replicas_ok_sizes: "replicas_ok (ds_memory s) ps \<Longrightarrow> sizes_fit ps s"
  using replicas_ok_bounds(3) [of "ds_memory s" ps] by (simp add: sizes_fit_def)

lemma pods_counted_ready:
  assumes "pods_counted env avail ready ps s" and "replicas_ok (ds_memory s) ps" and "set qs \<subseteq> set ps"
  shows "ready_fits env ready qs s"
proof -
  have "0 \<le> ready q" if "q \<in> set ps" for q using pods_counted_le [OF assms(1) that] by simp
  then show ?thesis
    using assms(1,3) replicas_ok_sizes [OF assms(2)] unfolding pods_counted_def ready_fits_def sizes_fit_def by (auto 5 3)
qed

text \<open>The second phase, which scales down by as much as there are more available pods than the minimum.\<close>

lemma scale_down_rolling:
  assumes "pods_stay env" and "\<And>h qs. mset (sort_created env h qs) = mset qs"
    and "ResolveFenceposts (MaxSurge (d_RollingUpdate (ds_deployment s))) (MaxUnavailable (d_RollingUpdate (ds_deployment s)))
      (d_Replicas (ds_deployment s)) = Inr (surge, u)"
    and "GetAvailablePodsForReplicaSets env (ds_client s) (ds_memory s) (map Some ps) (d_MinReadySeconds (ds_deployment s)) = Inr a"
    and "distinct qs" "sizes_fit qs s" and "0 \<le> a" "a \<le> 2 ^ 40" "0 \<le> u" "u \<le> 2 ^ 40"
    and "0 \<le> d_Replicas (ds_deployment s)" "d_Replicas (ds_deployment s) \<le> 2 ^ 40"
    and "scaleDownOldReplicaSetsForRollingUpdate env (map Some ps) qs s = (r, s')"
  shows "same_pods env s s' \<and> shrunk qs s s' \<and> sizes_fit qs s'
    \<and> replica_sum (ds_memory s) qs - replica_sum (ds_memory s') qs \<le> max 0 (a - (d_Replicas (ds_deployment s) - u))"
proof (cases "a \<le> d_Replicas (ds_deployment s) - u")
  case True
  have "go_int (d_Replicas (ds_deployment s) - u) = d_Replicas (ds_deployment s) - u" using assms(9-12) by (auto intro!: go_int_id)
  then show ?thesis using True assms(3,4,6,13) by (simp add: scaleDownOldReplicaSetsForRollingUpdate_def)
next
  case False
  have g: "go_int (d_Replicas (ds_deployment s) - u) = d_Replicas (ds_deployment s) - u"
    "go_int (a - (d_Replicas (ds_deployment s) - u)) = a - (d_Replicas (ds_deployment s) - u)"
    using assms(7-12) by (auto intro!: go_int_id)
  define qs' where "qs' = sort_created env (ds_memory s) qs"
  have perm: "mset qs' = mset qs" unfolding qs'_def by (rule assms(2))
  then have qs': "set qs' = set qs" "distinct qs'" using assms(5) mset_eq_setD mset_eq_imp_distinct_iff by blast+
  note sum = replica_sum_perm [OF perm]
  have "scale_down_loop env (a - (d_Replicas (ds_deployment s) - u)) qs' 0 s = (r, s')"
    using False assms(3,4,13) by (simp add: scaleDownOldReplicaSetsForRollingUpdate_def g qs'_def)
  from scale_down_bound [OF assms(1) this qs'(2)] assms(6,8-12) show ?thesis
    by (simp add: sum sizes_fit_def shrunk_def qs'(1))
qed

text \<open>A memory reached in two phases, of which the second scales down by at most \<open>c\<close>.\<close>

lemma phases_keep_available:
  assumes "pods_counted env avail ready ps s" and "distinct ps"
    and "shrunk olds s s1" "ready_fits env ready olds s1"
    and "shrunk olds s1 s2" "sizes_fit olds s2" "replica_sum (ds_memory s1) olds - replica_sum (ds_memory s2) olds \<le> c"
    and ps: "ps = olds @ [new]"
  shows "(\<Sum>q \<leftarrow> ps. avail q) - c \<le> (\<Sum>q \<leftarrow> ps. min (avail q) (rs_Replicas (the_rs s2 q)))"
    and "q \<in> set olds \<Longrightarrow> 0 \<le> rs_Replicas (the_rs s2 q) \<and> rs_Replicas (the_rs s2 q) \<le> rs_Replicas (the_rs s q)"
    and "q \<notin> set olds \<Longrightarrow> the_rs s2 q = the_rs s q"
proof -
  have new: "new \<notin> set olds" using assms(2) ps by simp
  have "avail q \<le> rs_Replicas (the_rs s1 q)" if "q \<in> set ps" for q
    using pods_counted_le [OF assms(1) that] assms(3,4) by (cases "q \<in> set olds") (auto simp: ready_fits_def shrunk_def)
  moreover have "rs_Replicas (the_rs s2 q) \<le> rs_Replicas (the_rs s1 q)" for q using assms(5) by (simp add: shrunk_def)
  ultimately have "(\<Sum>q \<leftarrow> ps. avail q) - (replica_sum (ds_memory s1) ps - replica_sum (ds_memory s2) ps)
      \<le> (\<Sum>q \<leftarrow> ps. min (avail q) (rs_Replicas (the_rs s2 q)))" by (intro min_sum_bound) simp
  moreover have "replica_sum (ds_memory s1) ps - replica_sum (ds_memory s2) ps \<le> c"
    using assms(5,7) new by (simp add: ps shrunk_def)
  ultimately show "(\<Sum>q \<leftarrow> ps. avail q) - c \<le> (\<Sum>q \<leftarrow> ps. min (avail q) (rs_Replicas (the_rs s2 q)))" by linarith
  show "q \<in> set olds \<Longrightarrow> 0 \<le> rs_Replicas (the_rs s2 q) \<and> rs_Replicas (the_rs s2 q) \<le> rs_Replicas (the_rs s q)"
    using assms(3,5,6) unfolding shrunk_def sizes_fit_def by (meson order_trans)
  show "q \<notin> set olds \<Longrightarrow> the_rs s2 q = the_rs s q" using assms(3,5) by (simp add: shrunk_def)
qed

text \<open>The two phases of \<open>reconcileOldReplicaSets\<close>; either may be left out.\<close>

lemma reconcile_old_phases:
  assumes "pods_stay env" and "\<And>h qs. mset (sort_created env h qs) = mset qs"
    and "ResolveFenceposts (MaxSurge (d_RollingUpdate (ds_deployment s))) (MaxUnavailable (d_RollingUpdate (ds_deployment s)))
      (d_Replicas (ds_deployment s)) = Inr (surge, u)"
    and "0 \<le> u" "u \<le> 2 ^ 40" "0 \<le> d_Replicas (ds_deployment s)" "d_Replicas (ds_deployment s) \<le> 2 ^ 40"
    and "replicas_ok (ds_memory s) (olds @ [new])" and "pods_counted env avail ready (olds @ [new]) s"
    and "reconcileOldReplicaSets env (map Some (olds @ [new])) olds new s = (r, s')"
  shows "\<exists>s1. shrunk olds s s1 \<and> ready_fits env ready olds s1 \<and> shrunk olds s1 s' \<and> sizes_fit olds s'
    \<and> replica_sum (ds_memory s1) olds - replica_sum (ds_memory s') olds
      \<le> max 0 ((\<Sum>q \<leftarrow> olds @ [new]. avail q) - (d_Replicas (ds_deployment s) - u))"
proof -
  let ?ps = "olds @ [new]" and ?D = "d_Replicas (ds_deployment s)" and ?a = "\<Sum>q \<leftarrow> olds @ [new]. avail q"
  define T where "T = replica_sum (ds_memory s) (olds @ [new])"
  let ?N = "rs_Replicas (the_rs s new)"
  let ?sorted = "sort_created env (ds_memory s) olds"
  have set_sorted: "set ?sorted = set olds" "distinct ?sorted = distinct olds"
    using assms(2) [of "ds_memory s" olds] mset_eq_setD mset_eq_imp_distinct_iff by blast+
  have olds: "replicas_ok (ds_memory s) olds" "distinct olds" "sizes_fit olds s" "ready_fits env ready olds s"
    using replicas_ok_subset [OF assms(8)] replicas_ok_sizes [of s olds] pods_counted_ready [OF assms(9,8), of olds]
    by (auto simp: replicas_ok_def)
  note T = replicas_ok_bounds(1,2) [OF assms(8), folded T_def] and N = replicas_ok_bounds(3) [OF assms(8), of new]
  note cnt = pods_counted_le [OF assms(9), of new] pods_counted_sum [OF assms(9), folded T_def]
  have new: "GetAvailablePodsForReplicaSets env (ds_client s) (ds_memory s) [Some new] (d_MinReadySeconds (ds_deployment s)) = Inr (avail new)"
    and all: "GetAvailablePodsForReplicaSets env (ds_client s) (ds_memory s) (map Some ?ps) (d_MinReadySeconds (ds_deployment s)) = Inr ?a"
    using assms(9) by (simp_all add: pods_counted_def)
  define m where "m = T - (?D - u) - (?N - avail new)"
  have g: "go_int (?D - u) = ?D - u" "go_int (?N - avail new) = ?N - avail new"
    "go_int (T - (?D - u)) = T - (?D - u)" "go_int (T - (?D - u) - (?N - avail new)) = m"
    using T N cnt assms(4-7) by (auto simp: m_def intro!: go_int_id)
  have m: "m \<le> 2 ^ 42" using T N cnt assms(4-7) by (simp add: m_def)
  obtain r1 s1 where cl: "cleanupUnhealthyReplicas env olds m s = (r1, s1)" by fastforce
  then have s1: "same_pods env s s1" "shrunk olds s s1" "ready_fits env ready olds s1"
    using cleanup_loop [OF assms(1), of m ?sorted 0 s r1 s1 ready] m olds(4) set_sorted(1)
    by (simp_all add: cleanupUnhealthyReplicas_def shrunk_def ready_fits_def)
  obtain r2 s2 where sd: "scaleDownOldReplicaSetsForRollingUpdate env (map Some ?ps) ?sorted s1 = (r2, s2)" by fastforce
  have fit1: "sizes_fit olds s1" using s1(3) by (auto simp: ready_fits_def sizes_fit_def intro: order_trans)
  have "s' = s \<or> s' = s1 \<or> s' = s2"
    using assms(10) cl sd GetReplicaCount_sum [OF olds(1)] GetReplicaCount_sum [OF assms(8), folded T_def]
    by (auto simp: reconcileOldReplicaSets_def Let_def new assms(3) g split: if_splits sum.splits)
  moreover have "shrunk olds s1 s2 \<and> sizes_fit olds s2
    \<and> replica_sum (ds_memory s1) olds - replica_sum (ds_memory s2) olds \<le> max 0 (?a - (?D - u))"
  proof -
    have d: "ds_deployment s1 = ds_deployment s" using s1(1) by (simp add: same_pods_def)
    have sum: "replica_sum (ds_memory s1) ?sorted = replica_sum (ds_memory s1) olds"
      "replica_sum (ds_memory s2) ?sorted = replica_sum (ds_memory s2) olds"
      by (rule replica_sum_perm, rule assms(2))+
    have "distinct ?sorted" "sizes_fit ?sorted s1" "0 \<le> ?a" "?a \<le> 2 ^ 40"
      using olds(2) set_sorted fit1 cnt(4) T by (simp_all add: sizes_fit_def)
    from scale_down_rolling [OF assms(1,2), of s1 surge u ?ps ?a ?sorted r2 s2, unfolded d available_same [OF s1(1)],
        OF assms(3) all this assms(4-7) sd]
    show ?thesis unfolding sum shrunk_def sizes_fit_def set_sorted(1) by blast
  qed
  ultimately show ?thesis
    using s1 fit1 olds by (metis diff_self max.cobounded1 shrunk_refl)
qed

text \<open>
  C5: As long as no replica set has more ready pods than it wants (\<open>pods_counted\<close>) and the pods stay while the sync
  runs, scaling the old replica sets down in a rolling update keeps the pods that stay for sure, of each replica set the
  available ones or as many of them as it still wants, at \<open>desired - maxUnavailable\<close> or, when fewer were available, at all
  of them.  Only old replica sets change and none grows, and it is so whatever the client answers to the
  updates, failures included.  Without the first condition an old replica set can be scaled up
  (\<open>cleanup_can_scale_up\<close>).
\<close>

theorem reconcile_old_keeps_available:
  assumes "pods_stay env" and "\<And>h qs. mset (sort_created env h qs) = mset qs"
    and "ResolveFenceposts (MaxSurge (d_RollingUpdate (ds_deployment s))) (MaxUnavailable (d_RollingUpdate (ds_deployment s)))
      (d_Replicas (ds_deployment s)) = Inr (surge, u)"
    and "0 \<le> u" "u \<le> 2 ^ 40" "0 \<le> d_Replicas (ds_deployment s)" "d_Replicas (ds_deployment s) \<le> 2 ^ 40"
    and "replicas_ok (ds_memory s) (olds @ [new])" and "pods_counted env avail ready (olds @ [new]) s"
    and "reconcileOldReplicaSets env (map Some (olds @ [new])) olds new s = (r, s')"
  shows "min (\<Sum>q \<leftarrow> olds @ [new]. avail q) (d_Replicas (ds_deployment s) - u)
      \<le> (\<Sum>q \<leftarrow> olds @ [new]. min (avail q) (rs_Replicas (the_rs s' q)))
    \<and> (\<forall>q. if q \<in> set olds then 0 \<le> rs_Replicas (the_rs s' q) \<and> rs_Replicas (the_rs s' q) \<le> rs_Replicas (the_rs s q)
            else the_rs s' q = the_rs s q)"
proof -
  define c where "c = max 0 ((\<Sum>q \<leftarrow> olds @ [new]. avail q) - (d_Replicas (ds_deployment s) - u))"
  obtain s1 where "shrunk olds s s1" "ready_fits env ready olds s1" "shrunk olds s1 s'" "sizes_fit olds s'"
    "replica_sum (ds_memory s1) olds - replica_sum (ds_memory s') olds \<le> c"
    using reconcile_old_phases [OF assms] unfolding c_def by blast
  note keep = phases_keep_available [OF assms(9) _ this refl]
  have d: "distinct (olds @ [new])" using assms(8) by (simp add: replicas_ok_def)
  show ?thesis
  proof (intro conjI allI)
    show "min (\<Sum>q \<leftarrow> olds @ [new]. avail q) (d_Replicas (ds_deployment s) - u)
      \<le> (\<Sum>q \<leftarrow> olds @ [new]. min (avail q) (rs_Replicas (the_rs s' q)))"
      using keep(1) [OF d] unfolding c_def by linarith
    show "if q \<in> set olds then 0 \<le> rs_Replicas (the_rs s' q) \<and> rs_Replicas (the_rs s' q) \<le> rs_Replicas (the_rs s q)
      else the_rs s' q = the_rs s q" for q
      using keep(2,3) [OF d, of q] by simp
  qed
qed

theorem reconcile_old_keeps_available_witness:
  "let s' = snd (reconcileOldReplicaSets web_env (map Some ([0] @ [1])) [0] 1 (web_state 1 1 [pod_a, pod_b]))
   in 1 \<le> min 1 (rs_Replicas (the_rs s' 0)) + min 1 (rs_Replicas (the_rs s' 1)) \<and> the_rs s' 1 = web_rs ''b'' 1"
proof -
  let ?s = "web_state 1 1 [pod_a, pod_b]"
  obtain r s' where rec: "reconcileOldReplicaSets web_env (map Some ([0] @ [1])) [0] 1 ?s = (r, s')" by fastforce
  note eval = web_rs_simps web_deployment_simps web_fenceposts
  have "pods_counted web_env (\<lambda>_. 1) (\<lambda>_. 1) ([0] @ [1]) ?s"
    using web_available_states(4-6) [of 1 1] by (simp add: pods_counted_def eval)
  moreover have "mset (sort_created web_env h qs) = mset qs" for h qs by (simp add: web_env_simps)
  ultimately have "1 \<le> min 1 (rs_Replicas (the_rs s' 0)) + min 1 (rs_Replicas (the_rs s' 1)) \<and> the_rs s' 1 = web_rs ''b'' 1"
    using reconcile_old_keeps_available [where s = ?s and u = 0 and surge = 1, OF web_pods_stay _ _ _ _ _ _ _ _ rec] web_replicas_ok [of 1 1]
    by (auto simp: eval)
  then show ?thesis unfolding rec Let_def snd_conv .
qed

end
