(* ===== verification/Deployment_Rollout.thy ===== *)
theory Deployment_Rollout
  imports Deployment_Avail
begin

text \<open>
  A rolling update completes: when the pods that the replica sets want are there and available before each sync and the
  API server accepts the updates, every sync that finds the update incomplete scales something towards its end.
\<close>

section \<open>Scaling that succeeds\<close>

definition updates_succeed :: "('f, 'k, 'sp) dep_env \<Rightarrow> bool" where
  "updates_succeed env \<longleftrightarrow> (\<forall>rs k. \<exists>rs' k'. RS_Update (cl env) rs k = (Inr rs', k'))"

lemma scale_succeeds:
  assumes "updates_succeed env" and "scaleReplicaSetAndRecordEvent env p n s = (r, s')"
  shows "r = Inr (rs_Replicas (the_rs s p) \<noteq> n)"
proof (cases "rs_Replicas (the_rs s p) = n")
  case False
  define s1 where "s1 = s\<lparr>ds_memory := (ds_memory s)[p := (the_rs s p)\<lparr>rs_Replicas := n\<rparr>]\<rparr>"
  obtain rs' k' where "RS_Update (cl env) (the_rs s1 p) (ds_client s1) = (Inr rs', k')"
    using assms(1) unfolding updates_succeed_def by blast
  then have "scaleReplicaSet env p n s = (Inr rs', s1\<lparr>ds_client := k'\<rparr>)"
    unfolding scaleReplicaSet_def s1_def [symmetric] by (simp add: Let_def)
  then show ?thesis using assms(2) False by (simp add: scaleReplicaSetAndRecordEvent_def)
qed (use assms(2) in \<open>simp add: scaleReplicaSetAndRecordEvent_def\<close>)

lemma scale_down_exact:
  assumes "pods_stay env" and "updates_succeed env" and "scale_down_loop env c ps t s = (r, s')"
    and "distinct ps" and "sizes_fit ps s" and "0 \<le> t" and "t \<le> c" and "c \<le> 2 ^ 42"
  shows "r = Inr (t + min (c - t) (replica_sum (ds_memory s) ps))
    \<and> replica_sum (ds_memory s') ps = replica_sum (ds_memory s) ps - min (c - t) (replica_sum (ds_memory s) ps)"
  using assms(3-7)
proof (induction ps arbitrary: t s)
  case Nil
  then show ?case by simp
next
  case (Cons p ps)
  let ?R = "rs_Replicas (the_rs s p)"
  have p: "p < length (ds_memory s)" "0 \<le> ?R" "?R \<le> 2 ^ 40" "p \<notin> set ps" "distinct ps"
    and rest: "sizes_fit ps s" using Cons.prems(2,3) by (auto simp: sizes_fit_def)
  have nonneg: "0 \<le> replica_sum (ds_memory s) ps" using rest by (intro replica_sum_nonneg) (simp add: sizes_fit_def)
  consider "t = c" | "t < c" "?R = 0" | "t < c" "?R \<noteq> 0" using Cons.prems(5) by linarith
  then show ?case
  proof cases
    case 1
    then show ?thesis using Cons.prems(1) nonneg p(2) by simp
  next
    case 2
    have loop: "scale_down_loop env c ps t s = (r, s')" using Cons.prems(1) 2 by simp
    have "shrunk ps s s'" using scale_down_bound [OF assms(1) loop p(5) rest Cons.prems(4) assms(8)] by simp
    then have "the_rs s' p = the_rs s p" using p(4) by (simp add: shrunk_def)
    then show ?thesis using Cons.IH [OF loop p(5) rest Cons.prems(4,5)] 2 by simp
  next
    case 3
    define m where "m = min ?R (c - t)"
    have m: "0 < m" "m \<le> ?R" "m \<le> c - t" using 3 p(2) by (simp_all add: m_def)
    have g: "go_int (c - t) = c - t" "go_int (?R - m) = ?R - m" "go_int (t + m) = t + m"
      using p m Cons.prems(4) assms(8) by (auto intro!: go_int_id)
    have i: "IntMin ?R (c - t) = m" by (simp add: IntMin_def m_def min_def)
    obtain r1 s1 where sc: "scaleReplicaSetAndRecordEvent env p (?R - m) s = (r1, s1)" by fastforce
    note st = scale_step [OF assms(1) sc p(1)]
    have other: "the_rs s1 q = the_rs s q" if "q \<in> set ps" for q by (rule st(3)) (use p(4) that in auto)
    have "sizes_fit ps s1" using rest st(1) other by (simp add: sizes_fit_def same_pods_def)
    moreover have sum1: "replica_sum (ds_memory s1) ps = replica_sum (ds_memory s) ps" by (rule replica_sum_cong) (rule other)
    moreover have loop: "scale_down_loop env c ps (t + m) s1 = (r, s')"
      using Cons.prems(1) 3 scale_succeeds [OF assms(2) sc] by (simp add: g i sc Let_def)
    moreover have "0 \<le> t + m" "t + m \<le> c" using m Cons.prems(4) by simp_all
    ultimately have ih: "r = Inr (t + m + min (c - (t + m)) (replica_sum (ds_memory s) ps))"
      "replica_sum (ds_memory s') ps = replica_sum (ds_memory s) ps - min (c - (t + m)) (replica_sum (ds_memory s) ps)"
      "shrunk ps s1 s'"
      using Cons.IH [of "t + m" s1] scale_down_bound [OF assms(1) loop p(5) _ _ assms(8)] p(5) by simp_all
    have "the_rs s' p = the_rs s1 p" using ih(3) p(4) by (simp add: shrunk_def)
    moreover have "t + m + min (c - (t + m)) (replica_sum (ds_memory s) ps) = t + min (c - t) (?R + replica_sum (ds_memory s) ps)"
      using m nonneg by (simp add: m_def min_def)
    ultimately show ?thesis using ih(1,2) st(2) by simp
  qed
qed

lemma cleanup_healthy:
  assumes "\<forall>q \<in> set ps. GetAvailablePodsForReplicaSets env (ds_client s) (ds_memory s) [Some q] 0 = Inr (rs_Replicas (the_rs s q))"
  shows "cleanup_unhealthy_loop env c ps t s = (Inr t, s)"
  using assms by (induction ps) auto

section \<open>One sync\<close>

lemma FilterActive_refs_filter: "FilterActive_refs h ps = filter (\<lambda>p. rs_Replicas (h ! p) > 0) ps"
proof -
  have "fold (\<lambda>p active. if rs_Replicas (h ! p) > 0 then active @ [p] else active) ps acc
    = acc @ filter (\<lambda>p. rs_Replicas (h ! p) > 0) ps" for acc by (induction ps arbitrary: acc) simp_all
  then show ?thesis by (simp add: FilterActive_refs_def)
qed

lemma replica_sum_active:
  assumes "\<forall>p \<in> set ps. 0 \<le> rs_Replicas (h ! p)"
  shows "replica_sum h (FilterActive_refs h ps) = replica_sum h ps"
  using assms unfolding FilterActive_refs_filter by (induction ps) auto

lemma replica_sum_zero:
  assumes "\<forall>p \<in> set ps. 0 \<le> rs_Replicas (h ! p)"
  shows "replica_sum h ps = 0 \<longleftrightarrow> (\<forall>p \<in> set ps. rs_Replicas (h ! p) = 0)"
proof -
  have "\<forall>p \<in> set ps. 0 \<le> rs_Replicas (h ! p) \<Longrightarrow> 0 \<le> replica_sum h ps" for ps by (rule replica_sum_nonneg)
  then show ?thesis using assms by (induction ps) (auto simp: add_nonneg_eq_0_iff)
qed

lemma replicas_ok_active:
  assumes "replicas_ok h (olds @ [new])"
  shows "replicas_ok h (FilterActive_refs h olds @ [new])"
  using assms replica_sum_active [of olds h] by (auto simp: replicas_ok_def FilterActive_refs_filter)

text \<open>Every pod that a replica set wants is there and available.\<close>

definition healthy :: "('f, 'k, 'sp) dep_env \<Rightarrow> rs_ref list \<Rightarrow> rs_ref \<Rightarrow> ('k, 'sp) dep_state \<Rightarrow> bool" where
  "healthy env olds new s \<longleftrightarrow>
     pods_counted env (\<lambda>q. rs_Replicas (the_rs s q)) (\<lambda>q. rs_Replicas (the_rs s q)) (FilterActive_refs (ds_memory s) olds @ [new]) s"

text \<open>What is left to do.\<close>

definition todo :: "rs_ref list \<Rightarrow> rs_ref \<Rightarrow> ('k, 'sp) dep_state \<Rightarrow> int" where
  "todo olds new s = \<bar>d_Replicas (ds_deployment s) - rs_Replicas (the_rs s new)\<bar> + replica_sum (ds_memory s) olds"

definition rolled_out :: "rs_ref list \<Rightarrow> rs_ref \<Rightarrow> ('k, 'sp) dep_state \<Rightarrow> bool" where
  "rolled_out olds new s \<longleftrightarrow> rs_Replicas (the_rs s new) = d_Replicas (ds_deployment s) \<and> (\<forall>q \<in> set olds. rs_Replicas (the_rs s q) = 0)"

lemma todo_rolled_out:
  assumes "replicas_ok (ds_memory s) (olds @ [new])"
  shows "0 \<le> todo olds new s" and "todo olds new s = 0 \<longleftrightarrow> rolled_out olds new s"
proof -
  have "\<forall>p \<in> set olds. 0 \<le> rs_Replicas (the_rs s p)" using assms by (simp add: replicas_ok_def)
  note n = replica_sum_nonneg [OF this] and z = replica_sum_zero [OF this]
  show "0 \<le> todo olds new s" using n by (simp add: todo_def)
  have "todo olds new s = 0 \<longleftrightarrow> rs_Replicas (the_rs s new) = d_Replicas (ds_deployment s) \<and> replica_sum (ds_memory s) olds = 0"
    using n unfolding todo_def by linarith
  then show "todo olds new s = 0 \<longleftrightarrow> rolled_out olds new s" unfolding z rolled_out_def .
qed

text \<open>When the new replica set stays as it is, the old ones are scaled by what the available pods exceed the minimum.\<close>

lemma reconcile_old_healthy:
  assumes "pods_stay env" and "updates_succeed env" and "\<And>h qs. mset (sort_created env h qs) = mset qs"
    and "ResolveFenceposts (MaxSurge (d_RollingUpdate (ds_deployment s))) (MaxUnavailable (d_RollingUpdate (ds_deployment s)))
      (d_Replicas (ds_deployment s)) = Inr (surge, u)"
    and "0 \<le> u" "u \<le> 2 ^ 40" "0 \<le> d_Replicas (ds_deployment s)" "d_Replicas (ds_deployment s) \<le> 2 ^ 40"
    and "replicas_ok (ds_memory s) (olds @ [new])"
    and "pods_counted env (\<lambda>q. rs_Replicas (the_rs s q)) (\<lambda>q. rs_Replicas (the_rs s q)) (olds @ [new]) s"
    and "reconcileOldReplicaSets env (map Some (olds @ [new])) olds new s = (r, s')"
  defines "c \<equiv> min (max 0 (replica_sum (ds_memory s) (olds @ [new]) - (d_Replicas (ds_deployment s) - u))) (replica_sum (ds_memory s) olds)"
  shows "r = Inr (0 < c) \<and> replica_sum (ds_memory s') olds = replica_sum (ds_memory s) olds - c"
proof -
  define T where "T = replica_sum (ds_memory s) (olds @ [new])"
  have c: "c = min (max 0 (T - (d_Replicas (ds_deployment s) - u))) (replica_sum (ds_memory s) olds)"
    unfolding c_def T_def ..
  let ?D = "d_Replicas (ds_deployment s)" and ?O = "replica_sum (ds_memory s) olds" and ?N = "rs_Replicas (the_rs s new)"
  have olds: "replicas_ok (ds_memory s) olds" "distinct olds" "sizes_fit olds s"
    using replicas_ok_subset [OF assms(9)] replicas_ok_sizes [of s olds] by (auto simp: replicas_ok_def)
  note T = replicas_ok_bounds(1,2) [OF assms(9), folded T_def] and O = replicas_ok_bounds(1,2) [OF olds(1)]
  have new: "GetAvailablePodsForReplicaSets env (ds_client s) (ds_memory s) [Some new] (d_MinReadySeconds (ds_deployment s)) = Inr ?N"
    and all: "GetAvailablePodsForReplicaSets env (ds_client s) (ds_memory s) (map Some (olds @ [new])) (d_MinReadySeconds (ds_deployment s)) = Inr T"
    using assms(10) by (simp_all add: pods_counted_def T_def replica_sum_def)
  have g: "go_int (?D - u) = ?D - u" "go_int 0 = 0" "go_int (T - (?D - u)) = T - (?D - u)"
    using T assms(5-8) by (auto intro!: go_int_id)
  let ?sorted = "sort_created env (ds_memory s) olds"
  have set_sorted: "set ?sorted = set olds" "distinct ?sorted = distinct olds"
    using assms(3) [of "ds_memory s" olds] mset_eq_setD mset_eq_imp_distinct_iff by blast+
  have cl: "cleanupUnhealthyReplicas env olds m s = (Inr 0, s)" for m
    using assms(10) by (simp add: cleanupUnhealthyReplicas_def cleanup_healthy set_sorted(1) pods_counted_def)
  consider "?O = 0" | "?O \<noteq> 0" "T - (?D - u) \<le> 0" | "?O \<noteq> 0" "0 < T - (?D - u)" by linarith
  then show ?thesis
  proof cases
    case 1
    then show ?thesis
      using assms(11) GetReplicaCount_sum [OF olds(1)] by (simp add: reconcileOldReplicaSets_def c)
  next
    case 2
    then show ?thesis
      using assms(11) GetReplicaCount_sum [OF olds(1)] GetReplicaCount_sum [OF assms(9), folded T_def] O
      by (simp add: reconcileOldReplicaSets_def c Let_def new assms(4) g)
  next
    case 3
    let ?qs = "sort_created env (ds_memory s) ?sorted"
    have qs: "set ?qs = set olds" "distinct ?qs" "replica_sum h ?qs = replica_sum h olds" for h :: "'c rs_memory"
      using set_sorted olds(2) assms(3) [of "ds_memory s" ?sorted] mset_eq_setD mset_eq_imp_distinct_iff
        replica_sum_perm [of ?qs ?sorted h] replica_sum_perm [OF assms(3), of h "ds_memory s" olds] by metis+
    obtain r2 s2 where sd: "scale_down_loop env (T - (?D - u)) ?qs 0 s = (r2, s2)" by fastforce
    have fit: "sizes_fit ?qs s" using olds(3) by (simp add: sizes_fit_def qs(1))
    have "T - (?D - u) \<le> 2 ^ 42" using T assms(5-8) by simp
    note ex = scale_down_exact [OF assms(1,2) sd qs(2) fit _ _ this, unfolded qs(3)]
    have r2: "r2 = Inr c" "replica_sum (ds_memory s2) olds = ?O - c"
      using ex 3 by (simp_all add: c)
    have "scaleDownOldReplicaSetsForRollingUpdate env (map Some (olds @ [new])) ?sorted s = (Inr c, s2)"
      using 3 sd r2(1) all by (simp add: scaleDownOldReplicaSetsForRollingUpdate_def assms(4) Let_def g)
    moreover have "go_int (0 + c) = c" using O by (auto simp: c intro!: go_int_id)
    ultimately have "reconcileOldReplicaSets env (map Some (olds @ [new])) olds new s = (Inr (0 < c), s2)"
      using 3 GetReplicaCount_sum [OF olds(1)] GetReplicaCount_sum [OF assms(9), folded T_def]
      by (simp add: reconcileOldReplicaSets_def Let_def new assms(4) g cl)
    then show ?thesis using assms(11) r2(2) by simp
  qed
qed

lemma replica_sum_filter:
  assumes "\<forall>p \<in> set ps. \<not> P p \<longrightarrow> rs_Replicas (h ! p) = 0"
  shows "replica_sum h (filter P ps) = replica_sum h ps"
  using assms by (induction ps) auto

lemma ResolveFenceposts_surge:
  assumes "ResolveFenceposts maxSurge maxUnavailable d = Inr (surge, u)"
  shows "GetValueFromIntOrPercent maxSurge d True = Inr surge" and "surge \<noteq> 0 \<or> u \<noteq> 0"
  using assms by (auto simp: ResolveFenceposts_def split: sum.splits if_splits)

text \<open>What a rolling update works with, beyond the numbers of pods.\<close>

definition rolling :: "('f, 'k, 'sp) dep_env \<Rightarrow> rs_ref list \<Rightarrow> rs_ref \<Rightarrow> ('k, 'sp) dep_state \<Rightarrow> int \<Rightarrow> int \<Rightarrow> bool" where
  "rolling env olds new s surge u \<longleftrightarrow>
     d_StrategyType (ds_deployment s) = RollingUpdateDeploymentStrategyType
     \<and> ResolveFenceposts (MaxSurge (d_RollingUpdate (ds_deployment s))) (MaxUnavailable (d_RollingUpdate (ds_deployment s)))
         (d_Replicas (ds_deployment s)) = Inr (surge, u)
     \<and> 0 \<le> surge \<and> 0 \<le> u \<and> u \<le> 2 ^ 40 \<and> 0 \<le> d_Replicas (ds_deployment s) \<and> d_Replicas (ds_deployment s) + surge \<le> 2 ^ 40
     \<and> replicas_ok (ds_memory s) (olds @ [new])"

lemma rolling_new:
  assumes "rolling env olds new s surge u" and "updates_succeed env"
    and "reconcileNewReplicaSet env (map Some (FilterActive_refs (ds_memory s) olds) @ [Some new]) new s = (r, s')"
  defines "n \<equiv> new_size (d_Replicas (ds_deployment s)) surge (replica_sum (ds_memory s) (olds @ [new])) (rs_Replicas (the_rs s new))"
  shows "r = Inr (rs_Replicas (the_rs s new) \<noteq> n)" and "ds_memory s' = scaled new n (ds_memory s)"
    and "ds_deployment s' = ds_deployment s" and "rs_Replicas (the_rs s new) = n \<Longrightarrow> s' = s"
proof -
  let ?ps = "FilterActive_refs (ds_memory s) olds @ [new]"
  have "replica_sum (ds_memory s) ?ps = replica_sum (ds_memory s) (olds @ [new])"
    using assms(1) replica_sum_active [of olds "ds_memory s"] by (simp add: rolling_def replicas_ok_def)
  then have "reconcileNewReplicaSet env (map Some ?ps) new s = scaleReplicaSetAndRecordEvent env new n s"
    using reconcileNew_memory [of s surge ?ps new env] assms(1) ResolveFenceposts_surge(1) [of "MaxSurge (d_RollingUpdate (ds_deployment s))"]
      replicas_ok_active [of "ds_memory s" olds new] unfolding rolling_def n_def by auto
  then have sc: "scaleReplicaSetAndRecordEvent env new n s = (r, s')" using assms(3) by simp
  show "r = Inr (rs_Replicas (the_rs s new) \<noteq> n)" by (rule scale_succeeds [OF assms(2) sc])
  show "ds_memory s' = scaled new n (ds_memory s)" "ds_deployment s' = ds_deployment s" using scale_memory [OF sc] by simp_all
  show "rs_Replicas (the_rs s new) = n \<Longrightarrow> s' = s" using sc by (simp add: scaleReplicaSetAndRecordEvent_def)
qed

lemma rolling_new_progress:
  assumes "rolling env olds new s surge u" and "ds_memory s' = scaled new n (ds_memory s)" and "ds_deployment s' = ds_deployment s"
    and "n = new_size (d_Replicas (ds_deployment s)) surge (replica_sum (ds_memory s) (olds @ [new])) (rs_Replicas (the_rs s new))"
    and "rs_Replicas (the_rs s new) \<noteq> n"
  shows "rolling env olds new s' surge u \<and> todo olds new s' < todo olds new s \<and> \<not> rolled_out olds new s"
proof -
  let ?D = "d_Replicas (ds_deployment s)" and ?N = "rs_Replicas (the_rs s new)" and ?T = "replica_sum (ds_memory s) (olds @ [new])"
  have ok: "replicas_ok (ds_memory s) (olds @ [new])" and D: "0 \<le> ?D" "0 \<le> surge" "?D + surge \<le> 2 ^ 40"
    using assms(1) by (simp_all add: rolling_def)
  have new: "new \<notin> set olds" "new < length (ds_memory s)" using ok by (auto simp: replicas_ok_def)
  note N = replicas_ok_bounds(3) [OF ok, of new] and T = replicas_ok_bounds(2) [OF ok]
  have n: "0 \<le> n" "?T - ?N + n \<le> 2 ^ 40" "\<bar>?D - n\<bar> < \<bar>?D - ?N\<bar>"
    using assms(5) D N T unfolding assms(4) new_size_def by (auto simp: min_def max_def split: if_splits)
  have olds: "the_rs s' q = the_rs s q" if "q \<noteq> new" for q using that new(2) by (simp add: assms(2) scaled_nth)
  have at_new: "rs_Replicas (the_rs s' new) = n" using new(2) by (simp add: assms(2) scaled_nth)
  have sum: "replica_sum (ds_memory s') olds = replica_sum (ds_memory s) olds"
    using new(1) by (simp add: assms(2) replica_sum_scaled_other)
  have "replicas_ok (ds_memory s') (olds @ [new])"
    using ok n(1,2) at_new olds sum new(1) by (auto simp: replicas_ok_def assms(2) scaled_nth)
  then show ?thesis
    using assms(1,3) n(3) sum at_new by (auto simp: rolling_def todo_def rolled_out_def)
qed

lemma cleanup_loop_same:
  assumes "pods_stay env" and "cleanup_unhealthy_loop env c ps t s = (r, s')"
  shows "same_pods env s s'"
  using assms(2)
proof (induction ps arbitrary: t s)
  case (Cons p ps)
  then show ?case
    by (auto simp: Let_def dest!: scale_same_pods [OF assms(1)] split: if_splits sum.splits prod.splits intro: same_pods_trans)
qed simp

lemma scale_down_loop_same:
  assumes "pods_stay env" and "scale_down_loop env c ps t s = (r, s')"
  shows "same_pods env s s'"
  using assms(2)
proof (induction ps arbitrary: t s)
  case (Cons p ps)
  then show ?case
    by (auto simp: Let_def dest!: scale_same_pods [OF assms(1)] split: if_splits sum.splits prod.splits intro: same_pods_trans)
qed simp

lemma reconcile_old_same:
  assumes "pods_stay env" and "reconcileOldReplicaSets env allRSs olds new s = (r, s')"
  shows "same_pods env s s'"
proof -
  have cl: "same_pods env s s1" if "cleanupUnhealthyReplicas env olds m s = (r1, s1)" for m r1 s1
    using that cleanup_loop_same [OF assms(1)] by (simp add: cleanupUnhealthyReplicas_def)
  have sd: "same_pods env s1 s2" if "scaleDownOldReplicaSetsForRollingUpdate env allRSs qs s1 = (r2, s2)" for qs s1 r2 s2
    using that scale_down_loop_same [OF assms(1)]
    by (auto simp: scaleDownOldReplicaSetsForRollingUpdate_def Let_def split: sum.splits prod.splits if_splits)
  show ?thesis
    using assms(2)
    by (auto simp: reconcileOldReplicaSets_def Let_def dest!: cl sd split: sum.splits prod.splits if_splits intro: same_pods_trans)
qed

lemma scaled_count:
  fixes olds new desired surge u :: int
  assumes "0 \<le> olds" "new \<le> desired" "new = desired \<or> desired + surge \<le> olds + new" "0 \<le> surge" "0 \<le> u" "surge \<noteq> 0 \<or> u \<noteq> 0"
  defines "c \<equiv> min (max 0 (olds + new - (desired - u))) olds"
  shows "0 \<le> c" "c \<le> olds" "0 < c \<longleftrightarrow> \<bar>desired - new\<bar> + olds \<noteq> 0"
proof -
  show "0 \<le> c" "c \<le> olds" using assms(1) by (simp_all add: c_def)
  have "0 < olds + new - (desired - u)" if "olds \<noteq> 0" using that assms(1-6) by linarith
  moreover have "new = desired" if "olds = 0" using that assms(2-6) by linarith
  ultimately show "0 < c \<longleftrightarrow> \<bar>desired - new\<bar> + olds \<noteq> 0" using assms(1,2) unfolding c_def by (cases "olds = 0") auto
qed

lemma rolling_old_progress:
  assumes "rolling env olds new s surge u" and "healthy env olds new s"
    and "pods_stay env" and "updates_succeed env" and "\<And>h qs. mset (sort_created env h qs) = mset qs"
    and "rs_Replicas (the_rs s new)
      = new_size (d_Replicas (ds_deployment s)) surge (replica_sum (ds_memory s) (olds @ [new])) (rs_Replicas (the_rs s new))"
    and "reconcileOldReplicaSets env (map Some (FilterActive_refs (ds_memory s) olds @ [new])) (FilterActive_refs (ds_memory s) olds) new s
      = (r, s')"
  shows "r = Inr (\<not> rolled_out olds new s) \<and> rolling env olds new s' surge u
    \<and> (if rolled_out olds new s then rolled_out olds new s' else todo olds new s' < todo olds new s)"
proof -
  let ?D = "d_Replicas (ds_deployment s)" and ?N = "rs_Replicas (the_rs s new)"
  let ?O = "replica_sum (ds_memory s) olds" and ?act = "FilterActive_refs (ds_memory s) olds"
  have ok: "replicas_ok (ds_memory s) (olds @ [new])" and D: "0 \<le> ?D" "?D \<le> 2 ^ 40" "0 \<le> surge" "0 \<le> u" "u \<le> 2 ^ 40"
    and res: "ResolveFenceposts (MaxSurge (d_RollingUpdate (ds_deployment s))) (MaxUnavailable (d_RollingUpdate (ds_deployment s))) ?D
      = Inr (surge, u)" using assms(1) by (simp_all add: rolling_def)
  have act: "replica_sum (ds_memory s) ?act = ?O" using ok by (simp add: replica_sum_active replicas_ok_def)
  note phases = reconcile_old_phases [OF assms(3,5) res D(4,5,1,2) replicas_ok_active [OF ok] assms(2) [unfolded healthy_def] assms(7)]
  obtain s1 where s1: "shrunk ?act s s1" "shrunk ?act s1 s'" "sizes_fit ?act s'" using phases by blast
  have new: "new \<notin> set ?act" using replicas_ok_active [OF ok] by (simp add: replicas_ok_def)
  have sub: "set ?act \<subseteq> set olds" by (auto simp: FilterActive_refs_filter)
  have other: "the_rs s' q = the_rs s q" if "q \<notin> set ?act" for q using that s1(1,2) by (simp add: shrunk_def)
  have idle: "rs_Replicas (the_rs s q) = 0" if "q \<in> set olds" "q \<notin> set ?act" for q
    using that ok by (fastforce simp: FilterActive_refs_filter replicas_ok_def)
  have sum': "replica_sum (ds_memory s') ?act = replica_sum (ds_memory s') olds"
    unfolding FilterActive_refs_filter
  proof (intro replica_sum_filter ballI impI)
    fix q assume q: "q \<in> set olds" "\<not> 0 < rs_Replicas (the_rs s q)"
    then have "q \<notin> set ?act" by (simp add: FilterActive_refs_filter)
    then show "rs_Replicas (the_rs s' q) = 0" using other [of q] idle [OF q(1)] by simp
  qed
  define c where "c = min (max 0 (?O + ?N - (?D - u))) ?O"
  have r: "r = Inr (0 < c)" "replica_sum (ds_memory s') olds = ?O - c"
    using reconcile_old_healthy [OF assms(3,4,5) res D(4,5,1,2) replicas_ok_active [OF ok] assms(2) [unfolded healthy_def] assms(7)]
    by (simp_all add: act sum' c_def)
  have "0 \<le> ?O" using ok by (intro replica_sum_nonneg) (simp add: replicas_ok_def)
  moreover have "?N \<le> ?D" "?N = ?D \<or> ?D + surge \<le> ?O + ?N"
    using assms(6) by (auto simp: new_size_def min_def max_def split: if_splits)
  ultimately have c: "0 \<le> c" "c \<le> ?O" "0 < c \<longleftrightarrow> todo olds new s \<noteq> 0"
    using scaled_count [of ?O ?N ?D surge u] ResolveFenceposts_surge(2) [OF res] D unfolding c_def todo_def by blast+
  have memory': "length (ds_memory s') = length (ds_memory s)" "ds_deployment s' = ds_deployment s"
    using reconcile_old_same [OF assms(3,7)] by (simp_all add: same_pods_def)
  have todo': "todo olds new s' = todo olds new s - c"
    by (simp add: todo_def memory'(2) r(2) other [OF new])
  have "replicas_ok (ds_memory s') (olds @ [new])"
    unfolding replicas_ok_def
  proof (intro conjI ballI)
    show "distinct (olds @ [new])" using ok by (simp add: replicas_ok_def)
    show "replica_sum (ds_memory s') (olds @ [new]) \<le> 2 ^ 40"
      using replicas_ok_bounds(2) [OF ok] c(1) r(2) other [OF new] by simp
    show "q < length (ds_memory s')" "0 \<le> rs_Replicas (the_rs s' q)" if "q \<in> set (olds @ [new])" for q
      using replicas_ok_bounds(3) [OF ok that] s1(3) other [of q] memory'(1)
      by (cases "q \<in> set ?act"; simp add: sizes_fit_def)+
  qed
  then show ?thesis
    using todo_rolled_out [OF ok] todo_rolled_out [of s' olds new] r(1) c todo' assms(1) memory'(2) by (auto simp: rolling_def)
qed

lemma rolling_progress:
  assumes "rolling env olds new s surge u" and "healthy env olds new s"
    and "pods_stay env" and "updates_succeed env" and "\<And>h qs. mset (sort_created env h qs) = mset qs"
    and "rolling_update_scale env (map Some (FilterActive_refs (ds_memory s) olds) @ [Some new]) olds new s = (r, s')"
  shows "r = Inr (\<not> rolled_out olds new s) \<and> rolling env olds new s' surge u
    \<and> (if rolled_out olds new s then rolled_out olds new s' else todo olds new s' < todo olds new s)"
proof -
  obtain r1 s1 where new: "reconcileNewReplicaSet env (map Some (FilterActive_refs (ds_memory s) olds) @ [Some new]) new s = (r1, s1)"
    by fastforce
  note step = rolling_new [OF assms(1,4) new]
  show ?thesis
  proof (cases "rs_Replicas (the_rs s new)
      = new_size (d_Replicas (ds_deployment s)) surge (replica_sum (ds_memory s) (olds @ [new])) (rs_Replicas (the_rs s new))")
    case True
    then have "r1 = Inr False" "s1 = s" using step(1,4) by simp_all
    then have "reconcileOldReplicaSets env (map Some (FilterActive_refs (ds_memory s) olds @ [new])) (FilterActive_refs (ds_memory s) olds) new s
      = (r, s')" using assms(6) new by (simp add: rolling_update_scale_def)
    from rolling_old_progress [OF assms(1-5) True this] show ?thesis .
  next
    case False
    then have "r = Inr True" "s' = s1" using assms(6) new step(1) by (simp_all add: rolling_update_scale_def)
    then show ?thesis using rolling_new_progress [OF assms(1) step(2,3) refl False] by simp
  qed
qed

section \<open>All syncs\<close>

text \<open>
  One sync and what happens until the next: it starts with the wanted pods there and available, and afterwards
  the store shows the replica sets with the sizes that the sync gave them and the deployment with its specification.
\<close>

definition rollout_sync ::
  "('f, 'k, 'sp) dep_env \<Rightarrow> rs_ref list \<Rightarrow> rs_ref \<Rightarrow> ('k, 'sp) dep_state \<Rightarrow> ('k, 'sp) dep_state \<Rightarrow> bool" where
  "rollout_sync env olds new s s'' \<longleftrightarrow> healthy env olds new s
     \<and> (case rolling_update_scale env (map Some (FilterActive_refs (ds_memory s) olds) @ [Some new]) olds new s of
          (r, s') \<Rightarrow> map rs_Replicas (ds_memory s'') = map rs_Replicas (ds_memory s')
            \<and> d_Replicas (ds_deployment s'') = d_Replicas (ds_deployment s')
            \<and> d_StrategyType (ds_deployment s'') = d_StrategyType (ds_deployment s')
            \<and> d_RollingUpdate (ds_deployment s'') = d_RollingUpdate (ds_deployment s'))"

lemma same_sizes:
  assumes "map rs_Replicas h = map rs_Replicas h'" and "replicas_ok h' ps"
  shows "replicas_ok h ps" and "set qs \<subseteq> set ps \<Longrightarrow> replica_sum h qs = replica_sum h' qs"
    and "p \<in> set ps \<Longrightarrow> rs_Replicas (h ! p) = rs_Replicas (h' ! p)"
proof -
  have len: "length h = length h'" using assms(1) map_eq_imp_length_eq by blast
  have eq: "rs_Replicas (h ! p) = rs_Replicas (h' ! p)" if "p \<in> set ps" for p
    using that assms len replicas_ok_bounds(3) [OF assms(2) that] by (metis nth_map)
  then show "p \<in> set ps \<Longrightarrow> rs_Replicas (h ! p) = rs_Replicas (h' ! p)" .
  have sum: "replica_sum h qs = replica_sum h' qs" if "set qs \<subseteq> set ps" for qs
    unfolding replica_sum_def using eq that by (intro arg_cong [of _ _ sum_list] map_cong) auto
  then show "set qs \<subseteq> set ps \<Longrightarrow> replica_sum h qs = replica_sum h' qs" .
  show "replicas_ok h ps" using assms(2) eq sum [of ps] len by (simp add: replicas_ok_def)
qed

lemma same_rolling:
  assumes "rolling env olds new s surge u" and "map rs_Replicas (ds_memory s') = map rs_Replicas (ds_memory s)"
    and "d_Replicas (ds_deployment s') = d_Replicas (ds_deployment s)" "d_StrategyType (ds_deployment s') = d_StrategyType (ds_deployment s)"
    "d_RollingUpdate (ds_deployment s') = d_RollingUpdate (ds_deployment s)"
  shows "rolling env olds new s' surge u" and "todo olds new s' = todo olds new s"
proof -
  have ok: "replicas_ok (ds_memory s) (olds @ [new])" using assms(1) by (simp add: rolling_def)
  note same = same_sizes [OF assms(2) ok]
  show "rolling env olds new s' surge u" using assms(1,3-5) same(1) by (simp add: rolling_def)
  show "todo olds new s' = todo olds new s" using same(2) [of olds] same(3) [of new] assms(3) by (auto simp: todo_def)
qed

lemma rollout_todo:
  assumes "pods_stay env" and "updates_succeed env" and "\<And>h qs. mset (sort_created env h qs) = mset qs"
    and "rolling env olds new (f 0) surge u" and "\<forall>i. rollout_sync env olds new (f i) (f (Suc i))"
  shows "rolling env olds new (f i) surge u \<and> todo olds new (f i) \<le> max 0 (todo olds new (f 0) - int i)"
proof (induction i)
  case 0
  then show ?case using assms(4) by simp
next
  case (Suc i)
  have sync: "rollout_sync env olds new (f i) (f (Suc i))" using assms(5) by simp
  obtain r s' where rs: "rolling_update_scale env (map Some (FilterActive_refs (ds_memory (f i)) olds) @ [Some new]) olds new (f i) = (r, s')"
    by fastforce
  have h: "healthy env olds new (f i)" using sync by (simp add: rollout_sync_def)
  have p: "rolling env olds new s' surge u"
    "if rolled_out olds new (f i) then rolled_out olds new s' else todo olds new s' < todo olds new (f i)"
    using rolling_progress [OF _ h assms(1-3) rs] Suc by blast+
  have ok: "replicas_ok (ds_memory s') (olds @ [new])" using p(1) by (simp add: rolling_def)
  have "todo olds new s' \<le> max 0 (todo olds new (f 0) - int (Suc i))"
    using p(2) Suc todo_rolled_out [OF ok] by (auto split: if_splits)
  moreover have "rolling env olds new (f (Suc i)) surge u" "todo olds new (f (Suc i)) = todo olds new s'"
    using same_rolling [OF p(1), of "f (Suc i)"] sync rs by (simp_all add: rollout_sync_def)
  ultimately show ?case by simp
qed

text \<open>
  C4: A rolling update completes.  When before every sync the wanted pods are there and available, and the updates of
  replica sets succeed, then after at most as many syncs as there are pods to start and stop, and ever after, the new
  replica set has the desired size and the old ones are empty.
\<close>

theorem rollout_completes:
  assumes "pods_stay env" and "updates_succeed env" and "\<And>h qs. mset (sort_created env h qs) = mset qs"
    and "rolling env olds new (f 0) surge u" and "\<forall>i. rollout_sync env olds new (f i) (f (Suc i))"
    and "todo olds new (f 0) \<le> int i"
  shows "rolled_out olds new (f i)"
proof -
  have p: "rolling env olds new (f i) surge u" "todo olds new (f i) \<le> 0"
    using rollout_todo [OF assms(1-5), of i] assms(6) by simp_all
  then have "replicas_ok (ds_memory (f i)) (olds @ [new])" by (simp add: rolling_def)
  from todo_rolled_out [OF this] p(2) show ?thesis by linarith
qed

lemma web_updates_succeed: "updates_succeed web_env"
  by (simp add: updates_succeed_def web_env_simps)

text \<open>The old pod, then the old and the new one, then the new one.\<close>

definition web_rollout :: "nat \<Rightarrow> (Pod list, unit) dep_state" where
  "web_rollout i = (if i = 0 then web_state 1 0 [pod_a] else if i = 1 then web_state 1 1 [pod_a, pod_b] else web_state 0 1 [pod_b])"

lemma web_healthy: "healthy web_env [0] 1 (web_rollout i)"
  using web_available_states
  by (auto simp: web_rollout_def healthy_def pods_counted_def FilterActive_refs_def web_rs_simps web_deployment_simps)

lemma web_scale:
  "scaleReplicaSetAndRecordEvent web_env p n s = (r, s') \<Longrightarrow>
    r = Inr (rs_Replicas (the_rs s p) \<noteq> n) \<and> ds_memory s' = scaled p n (ds_memory s)"
  using scale_succeeds [OF web_updates_succeed] scale_memory by blast

lemma web_sync:
  "map rs_Replicas (ds_memory (snd (rolling_update_scale web_env [Some 0, Some 1] [0] 1 (web_state 1 0 [pod_a])))) = [1, 1]"
  "map rs_Replicas (ds_memory (snd (rolling_update_scale web_env [Some 0, Some 1] [0] 1 (web_state 1 1 [pod_a, pod_b])))) = [0, 1]"
  "map rs_Replicas (ds_memory (snd (rolling_update_scale web_env [Some 1] [0] 1 (web_state 0 1 [pod_b])))) = [0, 1]"
proof -
  note eval = web_rs_simps web_deployment_simps web_fenceposts web_env_simps rolling_update_scale_def reconcileNewReplicaSet_def
    Let_def NewRSNewReplicas_def GetReplicaCountForReplicaSets_def go_int_id IntMin_def
  have web1: "the_rs (web_state a b k) (Suc 0) = web_rs ''b'' b" for a b k by (simp add: web_state_def)
  obtain r s' where "scaleReplicaSetAndRecordEvent web_env 1 1 (web_state 1 0 [pod_a]) = (r, s')" by fastforce
  then show "map rs_Replicas (ds_memory (snd (rolling_update_scale web_env [Some 0, Some 1] [0] 1 (web_state 1 0 [pod_a])))) = [1, 1]"
    using web_scale [of 1 1 "web_state 1 0 [pod_a]" r s'] by (simp add: eval scaled_def) (simp add: web_state_def web_rs_def)
  obtain r s' where sc: "scaleReplicaSetAndRecordEvent web_env 0 0 (web_state 1 1 [pod_a, pod_b]) = (r, s')" by fastforce
  have av: "GetAvailablePodsForReplicaSets web_env [pod_a, pod_b] (ds_memory (web_state 1 1 [pod_a, pod_b])) [Some 0] 0 = Inr 1"
    "GetAvailablePodsForReplicaSets web_env [pod_a, pod_b] (ds_memory (web_state 1 1 [pod_a, pod_b])) [Some (Suc 0)] 0 = Inr 1"
    "GetAvailablePodsForReplicaSets web_env [pod_a, pod_b] (ds_memory (web_state 1 1 [pod_a, pod_b])) [Some 0, Some (Suc 0)] 0 = Inr 2"
    using web_available_states(4-6) [of 1 1] by simp_all
  show "map rs_Replicas (ds_memory (snd (rolling_update_scale web_env [Some 0, Some 1] [0] 1 (web_state 1 1 [pod_a, pod_b])))) = [0, 1]"
    using web_scale [OF sc] sc
    by (simp add: eval reconcileOldReplicaSets_def FilterActive_refs_def av cleanupUnhealthyReplicas_def
        scaleDownOldReplicaSetsForRollingUpdate_def scaled_def) (simp add: web_state_def web_rs_def)
  show "map rs_Replicas (ds_memory (snd (rolling_update_scale web_env [Some 1] [0] 1 (web_state 0 1 [pod_b])))) = [0, 1]"
    by (simp add: eval reconcileOldReplicaSets_def FilterActive_refs_def) (simp add: web_state_def web_rs_def)
qed

lemma web_sync_deployment: "ds_deployment (snd (rolling_update_scale web_env rss olds new s)) = ds_deployment s"
proof -
  obtain r1 s1 where new: "reconcileNewReplicaSet web_env rss new s = (r1, s1)" by fastforce
  then have "ds_deployment s1 = ds_deployment s"
    by (auto simp: reconcileNewReplicaSet_def Let_def dest!: scale_memory split: if_splits sum.splits)
  moreover have "ds_deployment s2 = ds_deployment s1" if "reconcileOldReplicaSets web_env rss olds' new s1 = (r2, s2)" for olds' r2 s2
    using reconcile_old_same [OF web_pods_stay that] by (simp add: same_pods_def)
  ultimately show ?thesis
    by (auto simp: rolling_update_scale_def new split: sum.split bool.split) (metis prod.collapse)
qed

theorem rollout_completes_witness: "rolled_out [0] 1 (web_rollout 2)"
proof (rule rollout_completes [where env = web_env and surge = 1 and u = 0, OF web_pods_stay web_updates_succeed])
  note eval = web_rollout_def web_rs_simps web_deployment_simps web_fenceposts
  show "mset (sort_created web_env h qs) = mset qs" for h qs by (simp add: web_env_simps)
  show "rolling web_env [0] 1 (web_rollout 0) 1 0" using web_replicas_ok [of 1 0] by (simp add: rolling_def eval)
  show "todo [0] 1 (web_rollout 0) \<le> int 2" by (simp add: todo_def eval)
  have "rollout_sync web_env [0] 1 (web_rollout i) (web_rollout (Suc i))" for i
    using web_healthy [of i] web_sync web_sync_deployment
    by (auto simp: rollout_sync_def split_def eval FilterActive_refs_def web_state_def web_rs_def)
  then show "\<forall>i. rollout_sync web_env [0] 1 (web_rollout i) (web_rollout (Suc i))" ..
qed

end
