(* ===== verification/Deployment_Findings.thy ===== *)
theory Deployment_Findings
  imports Deployment_Rollout
begin

text \<open>
  Where the deployment controller does not do what its comments say: cleaning up unhealthy replicas can scale a replica
  set up, revisions are compared as strings, without pods no old replica set is found, and a labelling that was
  interrupted is never completed.
\<close>

section \<open>Cleaning up scales up\<close>

text \<open>
  A replica set that was just scaled down has more ready pods than it wants, for a while.  The number of pods
  to remove is then negative, and the replica set gets its old size back.
\<close>

definition pod_a2 :: Pod where "pod_a2 = web_pod ''3'' ''a''"

lemma surplus_pods_ready:
  "GetAvailablePodsForReplicaSets web_env [pod_a, pod_a2] (ds_memory (web_state 1 1 [pod_a, pod_a2])) [Some 0] 0 = Inr 2"
proof -
  have a2: "pod_Labels pod_a2 = [''app'' \<mapsto> ''a'']" "pod_Name pod_a2 = ''3''" "pod_Namespace pod_a2 = ''ns''" "IsPodAvailable 0 0 pod_a2"
    by (simp_all add: pod_a2_def web_pod_def IsPodAvailable_def IsPodActive_def)
  have k: "\<forall>p \<in> set [pod_a, pod_a2]. \<exists>n w. p = web_pod n w" unfolding pod_a_def pod_a2_def by auto
  have "gather_pods web_env [pod_a, pod_a2] (ds_memory (web_state 1 1 [pod_a, pod_a2])) [Some 0] Map.empty
    = Inr [''1'' \<mapsto> pod_a, ''3'' \<mapsto> pod_a2]"
    by (simp add: web_rs_simps web_drs_selector web_pods_list [OF _ k] web_pod_simps a2)
  moreover have "sorted_range [''1'' \<mapsto> pod_a, ''3'' \<mapsto> pod_a2] = [(''1'', pod_a), (''3'', pod_a2)]"
    by (simp add: sorted_range_def)
  ultimately show ?thesis
    by (simp add: GetAvailablePodsForReplicaSets_def GetPodsForReplicaSets_def getReadyPodsCount_length web_env_simps web_pod_simps a2)
qed

lemma cleanup_can_scale_up:
  "let s' = snd (cleanupUnhealthyReplicas web_env [0] 1 (web_state 1 1 [pod_a, pod_a2]))
   in rs_Replicas (the_rs (web_state 1 1 [pod_a, pod_a2]) 0) = 1 \<and> rs_Replicas (the_rs s' 0) = 2"
proof -
  let ?s = "web_state 1 1 [pod_a, pod_a2]"
  obtain r s' where sc: "scaleReplicaSetAndRecordEvent web_env 0 2 ?s = (r, s')" by fastforce
  have "rs_Replicas (the_rs s' 0) = 2" "r = Inr True"
    using web_scale [OF sc] by (simp_all add: scaled_nth web_rs_simps)
  then show ?thesis
    using sc surplus_pods_ready
    by (simp add: cleanupUnhealthyReplicas_def web_env_simps web_rs_simps go_int_id IntMin_def Let_def)
qed

section \<open>Revisions as strings\<close>

text \<open>A replica set with revision 9 becomes the new one when the greatest revision of the others is 9 or more: it keeps 9.\<close>

lemma revision_ten_is_not_set:
  assumes "rs_Annotations rs RevisionAnnotation = Some ''9''" and "d_Annotations d = Map.empty" and "label_range (rsenv env) Map.empty = []"
  shows "setNewReplicaSetAnnotations env d rs ''10'' = (False, rs)"
proof -
  have "\<not> ''9'' < ''10''" by code_simp
  then show ?thesis
    using assms by (simp add: setNewReplicaSetAnnotations_def copyDeploymentAnnotationsToReplicaSet_def Set_Get_def)
qed

section \<open>No pods, no old replica sets\<close>

lemma no_pods_no_old_replica_sets:
  assumes "rsAndPodsWithHashKeySynced env d k = (Inr (rsList, []), k')" and "named_range env Map.empty = []"
  shows "GetOldReplicaSetsFromLists env d k = (Inr ([], []), k')"
  using assms by (simp add: GetOldReplicaSetsFromLists_def)

section \<open>Labelling gives up\<close>

lemma poll_precondition:
  assumes "RS_Get (cl env) ns (rs_Name rs) k = ((stored, None), k')" and "applyUpdate stored = Inl PreconditionViolated"
  shows "UpdateRSWithRetries env ns rs applyUpdate k = ((stored, False, None), k')"
  using assms by (cases "polls env") (simp_all add: UpdateRSWithRetries_def UpdateRS_attempt_def retry_result_def)

lemma add_template_hash_written:
  assumes "add_template_hash hash rs = Inr labelled"
  shows "rs_Selector labelled = rs_Selector rs" and "rs_Name labelled = rs_Name rs"
    and "add_template_hash hash labelled = Inl PreconditionViolated" and "hash_of_rs env labelled = hash_of_rs env rs"
  using assms
  by (auto simp: add_template_hash_def AddLabel_def Set_Get_def hash_of_rs_def CloneAndRemoveLabel_def
      DefaultDeploymentUniqueLabelKey_def split: if_splits)

text \<open>
  C39: Once the first step of the labelling has written the hash to the template of a replica set, and the selector
  does not have it because a later step failed, every later sync gives the replica set back as it is, without another
  try: it reads it once and takes the violated precondition for a replica set that is gone.
\<close>

theorem hash_labelling_gives_up:
  assumes "rs_Selector rs = Some selector" and "\<not> SelectorHasLabel selector DefaultDeploymentUniqueLabelKey"
    and "add_template_hash (hash_of_rs env rs) rs = Inr labelled"
    and "RS_Get (cl env) (d_Namespace d) (rs_Name rs) k = ((labelled, None), k')"
  shows "addHashKeyToRSAndPods env d labelled k = (Inr labelled, k')"
proof -
  note w = add_template_hash_written(1-3) [OF assms(3)] add_template_hash_written(4) [OF assms(3), of env]
  have "UpdateRSWithRetries env (d_Namespace d) labelled (add_template_hash (hash_of_rs env labelled)) k = ((labelled, False, None), k')"
    using assms(4) w by (intro poll_precondition) simp_all
  then show ?thesis using assms(1,2) w(1) by (simp add: addHashKeyToRSAndPods_def Let_def)
qed

definition labelled_rs :: "unit DeployedRS" where
  "labelled_rs = (web_rs ''a'' 1)\<lparr>rs_Template := (web_template ''a'')\<lparr>tmpl_Labels := [''app'' \<mapsto> ''a'', ''pod-template-hash'' \<mapsto> ''0'']\<rparr>\<rparr>"

definition labelled_env :: "(nat, Pod list, unit) dep_env" where
  "labelled_env = web_env\<lparr>cl := web_server\<lparr>RS_Get := \<lambda>ns n k. ((labelled_rs, None), k)\<rparr>\<rparr>"

theorem hash_labelling_gives_up_witness:
  "addHashKeyToRSAndPods labelled_env web_deployment labelled_rs [pod_a] = (Inr labelled_rs, [pod_a])"
proof (rule hash_labelling_gives_up)
  show "rs_Selector (web_rs ''a'' 1) = Some (web_selector ''a'')" by (rule web_rs_simps)
  show "\<not> SelectorHasLabel (web_selector ''a'') DefaultDeploymentUniqueLabelKey"
    by (simp add: SelectorHasLabel_def web_selector_def DefaultDeploymentUniqueLabelKey_def Set_Get_def)
  have "fmt_d 0 = ''0''" by code_simp
  then have "hash_of_rs labelled_env (web_rs ''a'' 1) = ''0''" by (simp add: hash_of_rs_def labelled_env_def web_env_def)
  then show "add_template_hash (hash_of_rs labelled_env (web_rs ''a'' 1)) (web_rs ''a'' 1) = Inr labelled_rs"
    by (simp add: add_template_hash_def web_rs_def web_template_def labelled_rs_def DefaultDeploymentUniqueLabelKey_def
        AddLabel_def Set_Get_def)
  show "RS_Get (cl labelled_env) (d_Namespace web_deployment) (rs_Name (web_rs ''a'' 1)) [pod_a] = ((labelled_rs, None), [pod_a])"
    by (simp add: labelled_env_def)
qed

end
