(* ===== verification/Spec2Isabelle.thy ===== *)
theory Spec2Isabelle
  imports Workqueue Expiration_Cache Informer_Props Cacher_Props Label_Roundtrip Ip_Allocator
    Replica_Set_Props Quantity_Props Node_Labels Priorities_Float_Props Cluster
    Deployment_Findings
begin

text \<open>
  The repository is a benchmark of the Go compiler: it vendors three programs, gogs, juju and
  Kubernetes, and times how long they take to build.  The development is about the core of the
  third, under \<^verbatim>\<open>src/kube/src/k8s.io/kubernetes\<close>: the machinery that every controller is
  built from, the replica set controller on top of it and the deployment controller on top of that, the
  watch cache of the API server, the allocators of the service registry, and the scheduler.  File names below are relative to that
  directory.

  \<^bold>\<open>How the parts interact.\<close>  The API server keeps objects and tells its clients of changes.  On the
  server, a \<^verbatim>\<open>Cacher\<close> holds the latest state and a sliding window of changes (the watch cache)
  and serves watches from them; the registry takes ports and addresses from allocators over a
  bitmap.  In a controller, a reflector puts every change into a \<^verbatim>\<open>DeltaFIFO\<close>, an informer pops
  the changes, applies them to a local indexed store and calls the handlers; the handlers put keys into
  a work queue, and a worker takes a key, compares what the store says with what is wanted, and
  acts.  Because the store lags behind the server, the controller counts the creations and deletions it
  has asked for (the expectations) and does nothing for a key until it has seen them all.  The deployment controller
  replaces the pods of a deployment by changing how many its replica sets want.  The
  scheduler keeps a cache of the pods on each node and of those it has just placed, filters the nodes by
  predicates, scores them by priorities and binds a pod to a best node.

  \<^bold>\<open>Where the code is.\<close>

  \<^item> \<^verbatim>\<open>Prelude\<close>: strings, errors, iteration orders of maps, \<^verbatim>\<open>int\<close> at 64 bits (\<open>go_int\<close>) and the
    lemmas that all theories share.  \<^verbatim>\<open>Strconv\<close>, \<^verbatim>\<open>Regexp\<close> and \<^verbatim>\<open>Net_IP\<close> hold what the code uses
    of the standard library's \<^verbatim>\<open>strconv\<close>, \<^verbatim>\<open>strings\<close>, \<^verbatim>\<open>regexp\<close> and \<^verbatim>\<open>net\<close>.
  \<^item> \<^verbatim>\<open>Sets_String\<close>: \<^verbatim>\<open>pkg/util/sets/string.go\<close>.  \<^verbatim>\<open>Validation\<close>: the syntax of names and labels in
    \<^verbatim>\<open>pkg/util/validation/validation.go\<close> and \<^verbatim>\<open>pkg/api/validation/validation.go\<close>.
  \<^item> \<^verbatim>\<open>Workqueue\<close>: \<^verbatim>\<open>pkg/util/workqueue/queue.go\<close>, the record \<open>workqueue\<close> (queue, dirty,
    processing, shutting down), the contract \<open>work_queue\<close>, and the step relation of producers and workers.
  \<^item> \<^verbatim>\<open>Thread_Safe_Store\<close>, \<^verbatim>\<open>Cache_Store\<close>, \<^verbatim>\<open>Expiration_Cache\<close>: \<^verbatim>\<open>pkg/client/cache\<close>'s
    \<^verbatim>\<open>thread_safe_store.go\<close> and \<^verbatim>\<open>index.go\<close>, \<^verbatim>\<open>store.go\<close> and \<^verbatim>\<open>undelta_store.go\<close>,
    \<^verbatim>\<open>expiration_cache.go\<close>; the interface \<^verbatim>\<open>Store\<close> is the locale \<open>store\<close>.
  \<^item> \<^verbatim>\<open>Queue_Interface\<close>, \<^verbatim>\<open>Fifo\<close>, \<^verbatim>\<open>Delta_Fifo\<close>, \<^verbatim>\<open>Delta_Fifo_Props\<close>, \<^verbatim>\<open>Delta_Fifo_History\<close>:
    \<^verbatim>\<open>fifo.go\<close> and \<^verbatim>\<open>delta_fifo.go\<close>; what a consumer of either relies on is the locale \<open>go_queue\<close>,
    interpreted on both.
  \<^item> \<^verbatim>\<open>Informer\<close>, \<^verbatim>\<open>Informer_Props\<close>: \<^verbatim>\<open>pkg/controller/framework/controller.go\<close>.
  \<^item> \<^verbatim>\<open>Labels\<close>, \<^verbatim>\<open>Label_Selectors\<close>, \<^verbatim>\<open>Label_Lexer\<close>, \<^verbatim>\<open>Label_Parser\<close>, \<^verbatim>\<open>Label_Parser_Props\<close>,
    \<^verbatim>\<open>Label_Roundtrip\<close>: \<^verbatim>\<open>pkg/labels/labels.go\<close>, \<^verbatim>\<open>pkg/labels/selector.go\<close> and the selectors of
    \<^verbatim>\<open>pkg/api/unversioned/helpers.go\<close>; the locale \<open>label_selector\<close> is the interface \<^verbatim>\<open>Selector\<close>.
  \<^item> \<^verbatim>\<open>Controller_Expectations\<close>, \<^verbatim>\<open>Uid_Expectations\<close>, \<^verbatim>\<open>Active_Pods\<close>, \<^verbatim>\<open>Pod_Control\<close>:
    \<^verbatim>\<open>pkg/controller/controller_utils.go\<close>; the locale \<open>expectations_interface\<close> is the interface that the
    layer over UIDs is written against.  \<^verbatim>\<open>Lookup_Cache\<close>: \<^verbatim>\<open>pkg/controller/lookup_cache.go\<close> and the LRU
    cache below it.
  \<^item> \<^verbatim>\<open>Replica_Set\<close>, \<^verbatim>\<open>Replica_Set_Props\<close>: \<^verbatim>\<open>pkg/controller/replicaset\<close>, the handlers, the worker and
    \<^verbatim>\<open>syncReplicaSet\<close>, and the closed system of server, watch, informer and worker.
  \<^item> \<^verbatim>\<open>Deployment_Util\<close>, \<^verbatim>\<open>Deployment_Hash\<close>: \<^verbatim>\<open>pkg/util/deployment/deployment.go\<close> with what it uses of
    \<^verbatim>\<open>pkg/util/intstr\<close>, \<^verbatim>\<open>labels\<close>, \<^verbatim>\<open>replicaset\<close>, \<^verbatim>\<open>pod\<close>, \<^verbatim>\<open>integer\<close> and \<^verbatim>\<open>wait\<close>.
    \<^verbatim>\<open>Deployment_Controller\<close>, \<^verbatim>\<open>Deployment_Sync\<close>: \<^verbatim>\<open>pkg/controller/deployment/deployment_controller.go\<close>, a step
    of which takes the state \<open>dep_state\<close> to an error or a value and a state.  \<^verbatim>\<open>Deployment_Props\<close>,
    \<^verbatim>\<open>Deployment_Scale\<close>, \<^verbatim>\<open>Deployment_Avail\<close> and \<^verbatim>\<open>Deployment_Rollout\<close> show what a rolling update keeps and that it
    completes, \<^verbatim>\<open>Deployment_Example\<close> is a deployment to apply that to, and \<^verbatim>\<open>Deployment_Findings\<close> has the deviations.
  \<^item> \<^verbatim>\<open>Allocator\<close>, \<^verbatim>\<open>Allocator_Interface\<close>, \<^verbatim>\<open>Port_Range\<close>, \<^verbatim>\<open>Port_Allocator\<close>, \<^verbatim>\<open>Ip_Allocator\<close>:
    \<^verbatim>\<open>pkg/registry/service/allocator\<close>, \<^verbatim>\<open>portallocator\<close>, \<^verbatim>\<open>ipallocator\<close> and \<^verbatim>\<open>pkg/util/net/port_range.go\<close>;
    the locale \<open>allocator\<close> is the interface, interpreted on the bitmap, and the port and address
    allocators are proved over it.
  \<^item> \<^verbatim>\<open>Watch_Cache\<close>, \<^verbatim>\<open>Watch_Cache_Props\<close>, \<^verbatim>\<open>Cacher\<close>, \<^verbatim>\<open>Cacher_Props\<close>:
    \<^verbatim>\<open>pkg/storage/watch_cache.go\<close>, \<^verbatim>\<open>cacher.go\<close> and the version parsers of \<^verbatim>\<open>util.go\<close>.
  \<^item> \<^verbatim>\<open>Inf_Dec\<close>, \<^verbatim>\<open>Quantity\<close>, \<^verbatim>\<open>Quantity_Props\<close>: the vendored \<^verbatim>\<open>speter.net/go/exp/math/dec/inf\<close> and
    \<^verbatim>\<open>pkg/api/resource\<close>.
  \<^item> \<^verbatim>\<open>Scheduler_Cache\<close>, \<^verbatim>\<open>Scheduler_Cache_Props\<close>: \<^verbatim>\<open>plugin/pkg/scheduler/schedulercache\<close>.
    \<^verbatim>\<open>Predicates\<close>, \<^verbatim>\<open>Predicates_Props\<close>, \<^verbatim>\<open>Node_Labels\<close>: \<^verbatim>\<open>algorithm/predicates\<close>.
    \<^verbatim>\<open>Go_Float\<close>, \<^verbatim>\<open>Priorities\<close>, \<^verbatim>\<open>Priorities_Float\<close>, \<^verbatim>\<open>Priorities_Float_Props\<close>:
    \<^verbatim>\<open>algorithm/priorities\<close>, over binary floating-point numbers as rounded rationals; the locales \<open>priority_function\<close> and
    \<open>covering_priority\<close> are what the scheduler asks of a priority function.
    \<^verbatim>\<open>Generic_Scheduler\<close>, \<^verbatim>\<open>Generic_Scheduler_Props\<close>, \<^verbatim>\<open>Cluster\<close>: \<^verbatim>\<open>generic_scheduler.go\<close>,
    \<^verbatim>\<open>scheduler.go\<close> and a cluster that they fill.

  \<^bold>\<open>How code becomes definitions.\<close>  A struct is a record, an interface value or a nil-able pointer an
  option or a datatype of its dynamic types, a map a partial function, an error the left side of a
  sum, a panic or a blocked call \<open>None\<close>.  A method that changes its receiver returns it; where the code
  shares structs behind pointers and that matters (the expectations, the aggregates of a node) the
  state has an explicit memory of addresses.  What the code leaves open is an argument: the order in which a map is
  iterated (\<open>go_range\<close>, any listing of the map), the order in which goroutines finish, an unstable
  sort, random numbers, the clock, the API server client, and the functions that callers
  pass in.  The steps of concurrent parts are \<open>inductive\<close> relations whose traces are all interleavings of
  the operations that the locks of the code make atomic.  Machine integers
  keep their width: counters of expectations and resource versions are \<open>64 word\<close>, other \<^verbatim>\<open>int\<close>
  and \<^verbatim>\<open>int64\<close> arithmetic is written with \<open>go_int\<close>, which wraps at 64 bits, and conversions to
  \<^verbatim>\<open>int32\<close> with \<open>go_int32\<close>.

  \<^bold>\<open>What is shown.\<close>

  \<^item> Delivery: the work queue never hands out a key twice at a time and never loses one;
    \<^verbatim>\<open>DeltaFIFO\<close> hands out exactly what was enqueued for an object, in order and with deletions in a row merged
    (\<open>merge_deletions\<close>), and a relist appends the listed and the vanished objects to what is queued; an
    informer's store is what the Reflector's calls describe (\<open>told_by\<close>), except for objects whose deletion
    arrived while they were on their way to the store (\<open>lost_by\<close>), its notifications replay to the
    store, and after a relist it converges to the list, with the same exception; a watch of the \<^verbatim>\<open>Cacher\<close> that starts from
    now replays to the stored objects, and the cyclic buffer of the watch cache gives exactly the changes
    after a version.
  \<^item> Indices: every write keeps the indices of the store equal to a scan.
  \<^item> Controllers: expectations are satisfied exactly when what was expected has been observed,
    deletions are counted once per UID, and with them the replica set controller never has more pods at the
    server than it wants, in any interleaving of its steps with the watch.
  \<^item> Rolling updates: scaling stays within the surge and keeps the minimum of pods available, whatever the
    client answers, if no replica set has more ready pods than it wants, and with healthy pods every update completes.
  \<^item> Selectors and quantities: the parser is total; printing and parsing are inverse; a label selector
    means the conjunction of its terms; quantities parse to the number they denote, print
    canonically and parse back, add exactly, and convert to integers rounding up.
  \<^item> Allocation: ports and addresses are handed out at most once, and only from the range; a
    failed or unfinished port operation gives its ports back.
  \<^item> Scheduling: the cache of the scheduler has the sums of the requests of its pods, those it tracks and
    those added back after they expired, and equals the recomputation from the list of its pods; scheduling,
    with extenders or without (\<open>extender_ok\<close> is what their interface asks), picks a node on which all predicates
    hold with a largest score, or says why there is none; a cluster filled by the scheduler never gets
    overcommitted; and a node's labels are matched as written for every pod (\<open>term_holds\<close>), malformed
    selectors and terms included.
  \<^item> Deviations: where the code does not do what it means to do there is a theorem or a lemma with
    the counterexample, for instance a pod added back after its assumption expired that
    can never be removed again, or a replica set whose labelling was interrupted and that is never labelled.

  \<^bold>\<open>Bounds and termination.\<close>  Every loop of the code is a structural recursion, a \<open>function\<close> with a
    \<open>termination\<close> proof or a fold over the list that the code ranges over; \<open>removeFactors_loop\<close>,
    which does not end for the number zero, is a \<open>partial_function\<close>, and its result is shown to exist for
    all others.  The only counts of attempts are those of the code: updating a status is retried
    once, and a poll has as many ticks as its argument \<open>polls\<close> says, for which every theorem holds.  Theorems on machine
    integers state their bounds: counts of expectations stay below \<open>2 ^ 62\<close>, networks have fewer than
    31 host bits, scales of decimals are below \<open>2 ^ 30\<close> and exponents of quantities below \<open>2 ^ 29\<close>,
    requests and capacities are below \<open>2 ^ 62\<close>, capacities that are scored are below \<open>2 ^ 59\<close>,
    the replicas of a deployment are at most \<open>2 ^ 40\<close>, and a percentage times a size is below \<open>2 ^ 53\<close>;
    beyond them the code overflows, as some of the deviations show.

  \<^bold>\<open>Not modelled.\<close>  The reflector (a loop over HTTP lists and watches, whose calls on the queues are
  the steps of the informer's model), the wiring of binaries, flags, metrics, events and logs, generated codecs,
  conversions and deep copies, the vendored packages other than the two named above, the
  sharing of the maps of labels and annotations between copies of an API object, the other
  controllers and the kubelet, and the programs gogs and juju, which share no code with the modelled one.
\<close>

end
